(* ===== verification/Prelude.thy ===== *)
theory Prelude
  imports Main "HOL-Library.Word" "HOL-Library.Multiset"
begin

unbundle bit_operations_syntax

section \<open>Prelude: types, list helpers and lemma collections\<close>

text \<open>
  What the component theories share: names for the C types, a swap on lists used as
  arrays, and the lemma collections that the component proofs hand to the simplifier.
  Pointers are natural numbers and the null pointer is 0; each kind of object has an
  address space of its own (timers, io objects, custom events).
\<close>

type_synonym ptr = nat
type_synonym byte = "8 word"
type_synonym u16 = "16 word"
type_synonym u32 = "32 word"
type_synonym u64 = "64 word"

abbreviation (input) NULL :: ptr where
  "NULL \<equiv> 0"

named_theorems array_simps \<open>arrays as lists: swaps, prefixes, multisets\<close>
named_theorems op_defs \<open>definitions of the operations of a component\<close>
named_theorems inv_defs \<open>definitions of invariants\<close>

subsection \<open>Swapping two cells of an array\<close>

definition swap :: "'a list \<Rightarrow> nat \<Rightarrow> nat \<Rightarrow> 'a list" where
  "swap a i j = a[i := a ! j, j := a ! i]"

lemma length_swap [simp, array_simps]: "length (swap a i j) = length a"
  by (simp add: swap_def)

lemma nth_swap [array_simps]:
  "i < length a \<Longrightarrow> j < length a \<Longrightarrow>
   swap a i j ! k = (if k = i then a ! j else if k = j then a ! i else a ! k)"
  by (simp add: swap_def nth_list_update)

lemma take_swap [array_simps]:
  "i < n \<Longrightarrow> j < n \<Longrightarrow> n \<le> length a \<Longrightarrow> take n (swap a i j) = swap (take n a) i j"
  by (simp add: swap_def take_update_swap)

lemma mset_swap_take [array_simps]:
  assumes "i < n" and "j < n" and "n \<le> length a"
  shows "mset (take n (swap a i j)) = mset (take n a)"
proof -
  have "mset (swap (take n a) i j) = mset (take n a)"
    unfolding swap_def using assms by (intro mset_swap) simp_all
  then show ?thesis
    using assms by (simp add: take_swap)
qed

lemma drop_swap [array_simps]:
  "i < n \<Longrightarrow> j < n \<Longrightarrow> drop n (swap a i j) = drop n a"
  by (simp add: swap_def)

lemma in_set_take_conv:
  "n \<le> length a \<Longrightarrow> x \<in> set (take n a) \<longleftrightarrow> (\<exists>i<n. x = a ! i)"
  by (auto simp: in_set_conv_nth)

lemma nth_in_set_take [array_simps]: "i < n \<Longrightarrow> n \<le> length a \<Longrightarrow> a ! i \<in> set (take n a)"
  by (auto simp: in_set_take_conv)

subsection \<open>Bytes bit by bit\<close>

lemma less_eight: "n < (8::nat) \<longleftrightarrow> n \<in> {0, 1, 2, 3, 4, 5, 6, 7}"
  by auto

lemma byte_eqI: "(\<And>n. n \<in> {0, 1, 2, 3, 4, 5, 6, 7} \<Longrightarrow> bit x n = bit y n) \<Longrightarrow> x = (y::byte)"
  by (rule bit_word_eqI) (simp add: less_eight)

text \<open>The simp set for bits of bytes at literal positions.\<close>

lemmas byte_bits = bit_simps numeral_2_eq_2 [symmetric]

lemma unat_byte_less [simp]: "unat (b::byte) < 256"
  using unsigned_less [of b, where ?'a = nat] by simp

text \<open>The low byte and the low seven bits of a 64-bit word, as numbers.\<close>

lemma unat_low_bits:
  assumes "k \<le> 8"
  shows "unat (ucast ((y::u64) AND Bit_Operations.mask k) :: byte) = unat y mod 2 ^ k"
proof -
  have "unat (ucast (take_bit k y) :: byte) = take_bit 8 (take_bit k (unat y))"
    by (simp only: unsigned_ucast_eq unsigned_take_bit_eq) (simp add: min.commute)
  also have "\<dots> = take_bit k (unat y)"
    using assms by (simp add: min_absorb2)
  finally show ?thesis
    by (simp only: take_bit_eq_mask [of k y] take_bit_eq_mod [of k "unat y"])
qed

lemma unat_low_byte: "unat (ucast ((y::u64) AND 0xFF) :: byte) = unat y mod 256"
  using unat_low_bits [of 8 y] by (simp add: mask_eq_exp_minus_1)

lemma unat_low_seven: "unat (ucast ((y::u64) AND 0x7F) :: byte) = unat y mod 128"
  using unat_low_bits [of 7 y] by (simp add: mask_eq_exp_minus_1)

subsection \<open>Sums of sizes wrap at 64 bits\<close>

definition size_add :: "nat \<Rightarrow> nat \<Rightarrow> nat" where
  "size_add a b = (a + b) mod 2 ^ 64"

lemma size_add_exact: "a + b < 2 ^ 64 \<Longrightarrow> size_add a b = a + b"
  by (simp add: size_add_def)

lemma size_add_wrap: "2 ^ 64 \<le> a + b \<Longrightarrow> a + b < 2 ^ 65 \<Longrightarrow> size_add a b = a + b - 2 ^ 64"
  by (simp add: size_add_def mod_if)

end
