(* ===== verification/MinHeap.thy ===== *)
theory MinHeap
  imports Prelude
begin

section \<open>The array heap of include/heap.h\<close>

text \<open>
  The binary min-heap that holds the timers of an event loop. \<open>heap_st\<close> is the C
  struct: \<open>array\<close> has \<open>capacity\<close> cells, the first \<open>heap_size\<close> of them are live, the
  others are dead (null after a removal). The function pointer \<open>compare\<close> of the C struct
  reads the pointed-to objects in memory, so every operation takes the order it computes
  in the current memory as the argument \<open>lt\<close>.
\<close>

record heap_st =
  array :: "ptr list"
  heap_size :: nat
  capacity :: nat

definition create_heap :: "nat \<Rightarrow> heap_st" where
  "create_heap cap = \<lparr>array = replicate cap NULL, heap_size = 0, capacity = cap\<rparr>"

function heapify_up :: "(ptr \<Rightarrow> ptr \<Rightarrow> bool) \<Rightarrow> ptr list \<Rightarrow> nat \<Rightarrow> ptr list" where
  "heapify_up lt a index =
     (if index \<noteq> 0 \<and> lt (a ! index) (a ! ((index - 1) div 2))
      then heapify_up lt (swap a index ((index - 1) div 2)) ((index - 1) div 2)
      else a)"
  by pat_completeness auto
termination
  by (relation "measure (\<lambda>(lt, a, index). index)") auto

declare heapify_up.simps [simp del]

definition smaller_child :: "(ptr \<Rightarrow> ptr \<Rightarrow> bool) \<Rightarrow> ptr list \<Rightarrow> nat \<Rightarrow> nat \<Rightarrow> nat" where
  "smaller_child lt a n index =
     (let left = 2 * index + 1; right = 2 * index + 2;
          p = (if left < n \<and> lt (a ! left) (a ! index) then left else index)
      in if right < n \<and> lt (a ! right) (a ! p) then right else p)"

lemma smaller_child_bounds:
  "smaller_child lt a n i \<noteq> i \<Longrightarrow> i < smaller_child lt a n i \<and> smaller_child lt a n i < n"
  by (auto simp: smaller_child_def Let_def split: if_splits)

function heapify_down :: "(ptr \<Rightarrow> ptr \<Rightarrow> bool) \<Rightarrow> nat \<Rightarrow> ptr list \<Rightarrow> nat \<Rightarrow> ptr list" where
  "heapify_down lt n a index =
     (let parent_index = smaller_child lt a n index
      in if parent_index \<noteq> index
         then heapify_down lt n (swap a index parent_index) parent_index
         else a)"
  by pat_completeness auto
termination
  by (relation "measure (\<lambda>(lt, n, a, index). n - index)")
    (auto dest: smaller_child_bounds)

declare heapify_down.simps [simp del]

definition heap_insert :: "(ptr \<Rightarrow> ptr \<Rightarrow> bool) \<Rightarrow> heap_st \<Rightarrow> ptr \<Rightarrow> heap_st" where
  "heap_insert lt heap node =
     (if heap_size heap = capacity heap then heap
      else let a = (array heap)[heap_size heap := node]
           in heap\<lparr>array := heapify_up lt a (heap_size heap), heap_size := heap_size heap + 1\<rparr>)"

definition heap_top :: "heap_st \<Rightarrow> ptr" where
  "heap_top heap = (if heap_size heap = 0 then NULL else array heap ! 0)"

definition heap_pop :: "(ptr \<Rightarrow> ptr \<Rightarrow> bool) \<Rightarrow> heap_st \<Rightarrow> heap_st" where
  "heap_pop lt heap =
     (if heap_size heap = 0 then heap
      else let n = heap_size heap;
               a = (array heap)[0 := array heap ! (n - 1), n - 1 := NULL]
           in heap\<lparr>array := heapify_down lt (n - 1) a 0, heap_size := n - 1\<rparr>)"

text \<open>The search loop of \<open>heap_remove\<close>: the first live cell that holds the node.\<close>

fun find_node :: "ptr list \<Rightarrow> ptr \<Rightarrow> nat option" where
  "find_node [] node = None"
| "find_node (x # xs) node = (if x = node then Some 0 else map_option Suc (find_node xs node))"

definition heap_remove :: "(ptr \<Rightarrow> ptr \<Rightarrow> bool) \<Rightarrow> heap_st \<Rightarrow> ptr \<Rightarrow> heap_st" where
  "heap_remove lt heap node =
     (case find_node (take (heap_size heap) (array heap)) node of
        None \<Rightarrow> heap
      | Some index \<Rightarrow>
          let n = heap_size heap
          in if index = n - 1
             then heap\<lparr>array := (array heap)[n - 1 := NULL], heap_size := n - 1\<rparr>
             else let a = (array heap)[index := array heap ! (n - 1), n - 1 := NULL];
                      a = heapify_down lt (n - 1) a index;
                      a = heapify_up lt a index
                  in heap\<lparr>array := a, heap_size := n - 1\<rparr>)"


subsection \<open>Order, and what sifting does to it\<close>

text \<open>
  All orders the library uses compare a key read from the pointed-to object; \<open>key_lt\<close> is
  such a comparison. \<open>ok_at\<close> says that cell \<open>j\<close> is not before its parent;
  \<open>up_hole\<close> allows one cell that may be before its parent (what \<open>heapify_up\<close> repairs),
  \<open>down_hole\<close> one cell that may be after its children (what \<open>heapify_down\<close> repairs).
\<close>

definition key_lt :: "(ptr \<Rightarrow> 'k::linorder) \<Rightarrow> ptr \<Rightarrow> ptr \<Rightarrow> bool" where
  "key_lt key x y \<longleftrightarrow> key x < key y"

abbreviation parent :: "nat \<Rightarrow> nat" where
  "parent j \<equiv> (j - 1) div 2"

definition ok_at :: "(ptr \<Rightarrow> 'k::linorder) \<Rightarrow> ptr list \<Rightarrow> nat \<Rightarrow> bool" where
  "ok_at key a j \<longleftrightarrow> key (a ! parent j) \<le> key (a ! j)"

definition heap_ordered :: "(ptr \<Rightarrow> 'k::linorder) \<Rightarrow> ptr list \<Rightarrow> nat \<Rightarrow> bool" where
  "heap_ordered key a n \<longleftrightarrow> (\<forall>j. 0 < j \<and> j < n \<longrightarrow> ok_at key a j)"

definition grand_ok :: "(ptr \<Rightarrow> 'k::linorder) \<Rightarrow> ptr list \<Rightarrow> nat \<Rightarrow> nat \<Rightarrow> bool" where
  "grand_ok key a n i \<longleftrightarrow>
     (0 < i \<longrightarrow> (\<forall>j. 0 < j \<and> j < n \<and> parent j = i \<longrightarrow> key (a ! parent i) \<le> key (a ! j)))"

definition up_hole :: "(ptr \<Rightarrow> 'k::linorder) \<Rightarrow> ptr list \<Rightarrow> nat \<Rightarrow> nat \<Rightarrow> bool" where
  "up_hole key a n i \<longleftrightarrow>
     (\<forall>j. 0 < j \<and> j < n \<and> j \<noteq> i \<longrightarrow> ok_at key a j) \<and> grand_ok key a n i"

definition down_hole :: "(ptr \<Rightarrow> 'k::linorder) \<Rightarrow> ptr list \<Rightarrow> nat \<Rightarrow> nat \<Rightarrow> bool" where
  "down_hole key a n i \<longleftrightarrow>
     (\<forall>j. 0 < j \<and> j < n \<and> parent j \<noteq> i \<longrightarrow> ok_at key a j) \<and> grand_ok key a n i"

definition both_hole :: "(ptr \<Rightarrow> 'k::linorder) \<Rightarrow> ptr list \<Rightarrow> nat \<Rightarrow> nat \<Rightarrow> bool" where
  "both_hole key a n i \<longleftrightarrow>
     (\<forall>j. 0 < j \<and> j < n \<and> j \<noteq> i \<and> parent j \<noteq> i \<longrightarrow> ok_at key a j) \<and> grand_ok key a n i"

lemmas hole_defs = heap_ordered_def up_hole_def down_hole_def both_hole_def grand_ok_def ok_at_def

lemma parent_lt: "0 < j \<Longrightarrow> parent j < j"
  by auto

lemma parent_conv: "0 < j \<Longrightarrow> parent j = i \<longleftrightarrow> j = 2 * i + 1 \<or> j = 2 * i + 2"
  by auto

lemma length_heapify_up [simp]: "length (heapify_up lt a i) = length a"
  by (induction lt a i rule: heapify_up.induct) (subst heapify_up.simps, simp)

lemma length_heapify_down [simp]: "length (heapify_down lt n a i) = length a"
  by (induction lt n a i rule: heapify_down.induct) (subst heapify_down.simps, simp add: Let_def)

lemma mset_heapify_up:
  "i < n \<Longrightarrow> n \<le> length a \<Longrightarrow> mset (take n (heapify_up lt a i)) = mset (take n a)"
  by (induction lt a i rule: heapify_up.induct)
    (subst heapify_up.simps, auto simp: mset_swap_take)

lemma mset_heapify_down:
  "i < n \<Longrightarrow> n \<le> length a \<Longrightarrow> mset (take n (heapify_down lt n a i)) = mset (take n a)"
proof (induction lt n a i rule: heapify_down.induct)
  case (1 lt n a i)
  show ?case
    using 1 smaller_child_bounds [of lt a n i]
    by (subst heapify_down.simps) (auto simp: Let_def mset_swap_take)
qed

lemma heapify_up_prefix:
  "i < n \<Longrightarrow> n \<le> length a \<Longrightarrow> drop n (heapify_up lt a i) = drop n a"
  by (induction lt a i rule: heapify_up.induct) (subst heapify_up.simps, auto simp: drop_swap)

lemma up_hole_swap:
  assumes hole: "up_hole key a n i" and i: "0 < i" "i < n" "n \<le> length a"
    and p: "p = parent i" and less: "key (a ! i) < key (a ! p)"
  shows "up_hole key (swap a i p) n p"
proof -
  let ?b = "swap a i p"
  have pi: "p < i" using i p by auto
  have nth: "?b ! k = (if k = i then a ! p else if k = p then a ! i else a ! k)" for k
    using i pi by (simp add: nth_swap)
  have ok: "key (a ! parent j) \<le> key (a ! j)" if "0 < j" "j < n" "j \<noteq> i" for j
    using hole that by (simp add: up_hole_def ok_at_def)
  have grand: "key (a ! p) \<le> key (a ! j)" if "0 < j" "j < n" "parent j = i" for j
    using hole that i p by (simp add: up_hole_def grand_ok_def)
  have "ok_at key ?b j" if j: "0 < j" "j < n" "j \<noteq> p" for j
  proof (cases "j = i")
    case True
    then show ?thesis using less pi p unfolding ok_at_def nth by simp
  next
    case False
    show ?thesis
      using False j ok [OF j(1,2) False] grand [of j] less
      unfolding ok_at_def nth by (auto intro: order.trans)
  qed
  moreover have "grand_ok key ?b n p"
    unfolding grand_ok_def nth
  proof (intro impI allI)
    fix j
    assume p0: "0 < p" and j: "0 < j \<and> j < n \<and> parent j = p"
    have pp: "parent p < p" using p0 by auto
    have gp: "key (a ! parent p) \<le> key (a ! p)"
      using ok [of p] p0 pi i by simp
    have "key (a ! p) \<le> key (a ! j)" if "j \<noteq> i"
      using ok [of j] j that by simp
    with gp show "key (if parent p = i then a ! p else if parent p = p then a ! i else a ! parent p)
        \<le> key (if j = i then a ! p else if j = p then a ! i else a ! j)"
      using j pp pi parent_lt [of j] by auto
  qed
  ultimately show ?thesis by (simp add: up_hole_def)
qed

lemma heapify_up_ordered:
  "i < n \<Longrightarrow> n \<le> length a \<Longrightarrow> up_hole key a n i \<Longrightarrow>
   heap_ordered key (heapify_up (key_lt key) a i) n"
proof (induction "key_lt key" a i rule: heapify_up.induct)
  case (1 a i)
  show ?case
  proof (cases "i \<noteq> 0 \<and> key_lt key (a ! i) (a ! parent i)")
    case True
    have "up_hole key (swap a i (parent i)) n (parent i)"
      using True 1(2-4) by (intro up_hole_swap [OF 1(4)]) (auto simp: key_lt_def)
    moreover have "parent i < n" using 1(2) by auto
    ultimately have "heap_ordered key (heapify_up (key_lt key) (swap a i (parent i)) (parent i)) n"
      using 1 True by auto
    then show ?thesis using True by (subst heapify_up.simps) simp
  next
    case False
    then have "heap_ordered key a n"
      using 1(4) by (auto simp: up_hole_def heap_ordered_def ok_at_def key_lt_def not_less)
    then show ?thesis using False by (subst heapify_up.simps) auto
  qed
qed


text \<open>
  One round of \<open>heapify_down\<close> moves the hole to the child it swapped with. The weaker
  start \<open>both_hole\<close> is what \<open>heap_remove\<close> needs: there the cell moved into the gap may
  also be before its parent.
\<close>

lemma smaller_child_cases:
  assumes "c = smaller_child (key_lt key) a n i" "c \<noteq> i"
  shows "0 < c" "parent c = i" "i < c" "c < n" "key (a ! c) < key (a ! i)"
    and "\<And>j. 0 < j \<Longrightarrow> j < n \<Longrightarrow> parent j = i \<Longrightarrow> key (a ! c) \<le> key (a ! j)"
proof -
  show "0 < c" "parent c = i" "i < c" "c < n" "key (a ! c) < key (a ! i)"
    using assms by (auto simp: smaller_child_def key_lt_def Let_def split: if_splits)
  fix j
  assume "0 < j" "j < n" "parent j = i"
  then have "j < n" and "j = 2 * i + 1 \<or> j = 2 * i + 2"
    by (simp_all only: parent_conv)
  then show "key (a ! c) \<le> key (a ! j)"
    using assms by (auto simp: smaller_child_def key_lt_def Let_def not_less split: if_splits)
qed

lemma smaller_child_none:
  assumes "smaller_child (key_lt key) a n i = i" "0 < j" "j < n" "parent j = i"
  shows "key (a ! i) \<le> key (a ! j)"
proof -
  have "j = 2 * i + 1 \<or> j = 2 * i + 2"
    using assms(2,4) by (simp only: parent_conv)
  then show ?thesis
    using assms(1,3) by (auto simp: smaller_child_def key_lt_def Let_def not_less split: if_splits)
qed

lemma both_hole_swap:
  assumes hole: "both_hole key a n i" and n: "n \<le> length a"
    and c: "c = smaller_child (key_lt key) a n i" "c \<noteq> i"
  shows "down_hole key (swap a i c) n c"
proof -
  note sc = smaller_child_cases [OF c]
  let ?b = "swap a i c"
  have nth: "?b ! k = (if k = i then a ! c else if k = c then a ! i else a ! k)" for k
    using sc n by (simp add: nth_swap)
  have ok: "key (a ! parent j) \<le> key (a ! j)" if "0 < j" "j < n" "j \<noteq> i" "parent j \<noteq> i" for j
    using hole that by (simp add: both_hole_def ok_at_def)
  have grand: "key (a ! parent i) \<le> key (a ! j)" if "0 < i" "0 < j" "j < n" "parent j = i" for j
    using hole that by (simp add: both_hole_def grand_ok_def)
  have "ok_at key ?b j" if j: "0 < j" "j < n" "parent j \<noteq> c" for j
  proof (cases "j = i")
    case True
    then show ?thesis
      using grand [of c] sc j parent_lt [of j] unfolding ok_at_def nth by auto
  next
    case ji: False
    show ?thesis
    proof (cases "parent j = i")
      case True
      then show ?thesis
        using sc j ji unfolding ok_at_def nth by (auto intro: less_imp_le)
    next
      case False
      then show ?thesis
        using ok [of j] sc j ji unfolding ok_at_def nth by auto
    qed
  qed
  moreover have "grand_ok key ?b n c"
    unfolding grand_ok_def nth
  proof (intro impI allI)
    fix j
    assume j: "0 < j \<and> j < n \<and> parent j = c"
    then have "key (a ! c) \<le> key (a ! j)"
      using ok [of j] sc parent_lt [of j] by auto
    then show "key (if parent c = i then a ! c else if parent c = c then a ! i else a ! parent c)
        \<le> key (if j = i then a ! c else if j = c then a ! i else a ! j)"
      using sc j parent_lt [of j] by auto
  qed
  ultimately show ?thesis by (simp add: down_hole_def)
qed

lemma down_hole_both: "down_hole key a n i \<Longrightarrow> both_hole key a n i"
  by (simp add: down_hole_def both_hole_def)

lemma heapify_down_ordered:
  "n \<le> length a \<Longrightarrow> down_hole key a n i \<Longrightarrow> heap_ordered key (heapify_down (key_lt key) n a i) n"
proof (induction "key_lt key" n a i rule: heapify_down.induct)
  case (1 n a i)
  let ?c = "smaller_child (key_lt key) a n i"
  show ?case
  proof (cases "?c = i")
    case True
    then have "heap_ordered key a n"
      using 1(3) smaller_child_none [OF True] by (auto simp: down_hole_def heap_ordered_def ok_at_def)
    then show ?thesis using True by (subst heapify_down.simps) simp
  next
    case False
    have "down_hole key (swap a i ?c) n ?c"
      using 1(2,3) False by (intro both_hole_swap down_hole_both) auto
    then show ?thesis
      using 1 False by (subst heapify_down.simps) (simp add: Let_def)
  qed
qed

lemma heapify_down_up_hole:
  assumes n: "n \<le> length a" and hole: "both_hole key a n i"
  shows "up_hole key (heapify_down (key_lt key) n a i) n i"
proof (cases "smaller_child (key_lt key) a n i = i")
  case True
  then have "up_hole key a n i"
    using hole smaller_child_none [OF True] by (auto simp: up_hole_def both_hole_def ok_at_def)
  then show ?thesis using True by (subst heapify_down.simps) simp
next
  case False
  let ?c = "smaller_child (key_lt key) a n i" and ?d = "heapify_down (key_lt key) n a i"
  have "?d = heapify_down (key_lt key) n (swap a i ?c) ?c"
    using False by (subst heapify_down.simps) (simp add: Let_def)
  moreover have "down_hole key (swap a i ?c) n ?c"
    using False n hole by (intro both_hole_swap) auto
  ultimately have "heap_ordered key ?d n"
    using n by (simp add: heapify_down_ordered)
  moreover have "key (?d ! parent i) \<le> key (?d ! j)"
    if "heap_ordered key ?d n" "0 < i" "0 < j" "j < n" "parent j = i" for j
  proof -
    have "i < n" using that by auto
    then have "key (?d ! parent i) \<le> key (?d ! i)" "key (?d ! i) \<le> key (?d ! j)"
      using that by (auto simp: heap_ordered_def ok_at_def)
    then show ?thesis by simp
  qed
  ultimately show ?thesis by (auto simp: up_hole_def heap_ordered_def grand_ok_def)
qed

lemma heap_ordered_root:
  assumes "heap_ordered key a n" "i < n"
  shows "key (a ! 0) \<le> key (a ! i)"
  using assms(2)
proof (induction i rule: less_induct)
  case (less i)
  show ?case
  proof (cases "i = 0")
    case False
    then have "key (a ! parent i) \<le> key (a ! i)"
      using assms(1) less.prems by (simp add: heap_ordered_def ok_at_def)
    moreover have "key (a ! 0) \<le> key (a ! parent i)"
      using less False by auto
    ultimately show ?thesis by simp
  qed simp
qed


subsection \<open>The interface: a bounded priority queue of pointers\<close>

text \<open>
  What the timers rely on: a bounded multiset of pointers ordered by a key. A full queue
  drops an insertion without telling the caller, as the code does.
\<close>

locale priority_queue =
  fixes empty :: "nat \<Rightarrow> 'q"
    and insert :: "'q \<Rightarrow> ptr \<Rightarrow> 'q"
    and top :: "'q \<Rightarrow> ptr"
    and pop :: "'q \<Rightarrow> 'q"
    and remove :: "'q \<Rightarrow> ptr \<Rightarrow> 'q"
    and elems :: "'q \<Rightarrow> ptr multiset"
    and bound :: "'q \<Rightarrow> nat"
    and inv :: "'q \<Rightarrow> bool"
    and key :: "ptr \<Rightarrow> 'k::linorder"
  assumes inv_empty: "inv (empty n)"
    and elems_empty: "elems (empty n) = {#}"
    and size_bound: "inv q \<Longrightarrow> size (elems q) \<le> bound q"
    and inv_insert: "inv q \<Longrightarrow> x \<noteq> NULL \<Longrightarrow> inv (insert q x)"
    and elems_insert: "inv q \<Longrightarrow> size (elems q) < bound q \<Longrightarrow>
      elems (insert q x) = add_mset x (elems q)"
    and insert_full: "inv q \<Longrightarrow> size (elems q) = bound q \<Longrightarrow> insert q x = q"
    and top_none: "inv q \<Longrightarrow> elems q = {#} \<Longrightarrow> top q = NULL"
    and top_in: "inv q \<Longrightarrow> elems q \<noteq> {#} \<Longrightarrow> top q \<in># elems q"
    and top_least: "inv q \<Longrightarrow> x \<in># elems q \<Longrightarrow> key (top q) \<le> key x"
    and inv_pop: "inv q \<Longrightarrow> inv (pop q)"
    and elems_pop: "inv q \<Longrightarrow> elems q \<noteq> {#} \<Longrightarrow> elems (pop q) = elems q - {#top q#}"
    and inv_remove: "inv q \<Longrightarrow> inv (remove q x)"
    and elems_remove: "inv q \<Longrightarrow> elems (remove q x) = elems q - {#x#}"
    and null_free: "inv q \<Longrightarrow> NULL \<notin># elems q"
begin

lemma top_null_iff: "inv q \<Longrightarrow> top q = NULL \<longleftrightarrow> elems q = {#}"
  using top_none top_in null_free by metis

text \<open>Popping everything delivers the pointers in the order of their keys.\<close>

fun drain :: "nat \<Rightarrow> 'q \<Rightarrow> ptr list" where
  "drain 0 q = []"
| "drain (Suc n) q = top q # drain n (pop q)"

lemma mset_drain: "inv q \<Longrightarrow> size (elems q) = n \<Longrightarrow> mset (drain n q) = elems q"
proof (induction n arbitrary: q)
  case (Suc n)
  then have ne: "elems q \<noteq> {#}" by auto
  with Suc have "mset (drain n (pop q)) = elems q - {#top q#}"
    by (simp add: inv_pop elems_pop size_Diff_singleton top_in)
  then show ?case using ne Suc.prems(1) by (simp add: top_in)
qed simp

lemma sorted_drain: "inv q \<Longrightarrow> size (elems q) = n \<Longrightarrow> sorted (map key (drain n q))"
proof (induction n arbitrary: q)
  case (Suc n)
  then have ne: "elems q \<noteq> {#}" by auto
  have pop: "inv (pop q)" "size (elems (pop q)) = n" "elems (pop q) = elems q - {#top q#}"
    using Suc.prems ne by (simp_all add: inv_pop elems_pop size_Diff_singleton top_in)
  have "set (drain n (pop q)) = set_mset (elems (pop q))"
    using mset_drain [OF pop(1,2)] by (metis set_mset_mset)
  then have "\<forall>x\<in>set (drain n (pop q)). key (top q) \<le> key x"
    using pop(3) Suc.prems(1) top_least by (metis in_diffD)
  then show ?case using Suc.IH [OF pop(1,2)] by simp
qed simp

lemma remove_insert:
  "inv q \<Longrightarrow> x \<noteq> NULL \<Longrightarrow> size (elems q) < bound q \<Longrightarrow>
   elems (remove (insert q x) x) = elems q"
  by (simp add: elems_remove inv_insert elems_insert)

end

subsection \<open>The array heap implements the interface\<close>

definition heap_mset :: "heap_st \<Rightarrow> ptr multiset" where
  "heap_mset h = mset (take (heap_size h) (array h))"

definition heap_wf :: "(ptr \<Rightarrow> 'k::linorder) \<Rightarrow> heap_st \<Rightarrow> bool" where
  "heap_wf key h \<longleftrightarrow> length (array h) = capacity h \<and> heap_size h \<le> capacity h \<and>
     NULL \<notin># heap_mset h \<and> heap_ordered key (array h) (heap_size h)"

lemma heap_wfD:
  assumes "heap_wf key h"
  shows "length (array h) = capacity h" "heap_size h \<le> capacity h" "heap_size h \<le> length (array h)"
    and "NULL \<notin># heap_mset h" "heap_ordered key (array h) (heap_size h)"
  using assms by (simp_all add: heap_wf_def)

lemma size_heap_mset [simp]: "heap_wf key h \<Longrightarrow> size (heap_mset h) = heap_size h"
  by (simp add: heap_wf_def heap_mset_def)

lemma heap_mset_empty_iff [simp]: "heap_wf key h \<Longrightarrow> heap_mset h = {#} \<longleftrightarrow> heap_size h = 0"
  by (metis size_heap_mset size_eq_0_iff_empty)

lemma create_heap_wf: "heap_wf key (create_heap n)"
  by (simp add: heap_wf_def create_heap_def heap_mset_def heap_ordered_def)

lemma up_hole_append:
  "heap_ordered key a n \<Longrightarrow> n < length a \<Longrightarrow> up_hole key (a[n := x]) (Suc n) n"
  unfolding up_hole_def heap_ordered_def ok_at_def grand_ok_def
  by (auto simp: nth_list_update dest: parent_lt)

lemma heap_insert_mset:
  assumes "heap_wf key h" "heap_size h < capacity h"
  shows "heap_mset (heap_insert lt h x) = add_mset x (heap_mset h)"
proof -
  let ?n = "heap_size h"
  have "mset (take (Suc ?n) ((array h)[?n := x])) = add_mset x (heap_mset h)"
    using assms by (simp add: heap_wf_def heap_mset_def take_Suc_conv_app_nth)
  then show ?thesis
    using assms by (simp add: heap_insert_def heap_mset_def heap_wf_def mset_heapify_up)
qed

lemma heap_insert_wf:
  assumes "heap_wf key h" "x \<noteq> NULL"
  shows "heap_wf key (heap_insert (key_lt key) h x)"
proof (cases "heap_size h = capacity h")
  case False
  then have lt: "heap_size h < capacity h" using assms by (simp add: heap_wf_def)
  have "heap_ordered key (heapify_up (key_lt key) ((array h)[heap_size h := x]) (heap_size h))
      (Suc (heap_size h))"
    using assms lt by (intro heapify_up_ordered up_hole_append) (simp_all add: heap_wf_def)
  moreover have "NULL \<notin># heap_mset (heap_insert (key_lt key) h x)"
    using assms lt by (simp add: heap_insert_mset [OF assms(1) lt] heap_wf_def)
  ultimately show ?thesis
    using assms lt by (simp add: heap_wf_def heap_insert_def)
qed (use assms in \<open>simp add: heap_insert_def\<close>)

lemma heap_top_mem: "heap_wf key h \<Longrightarrow> heap_size h \<noteq> 0 \<Longrightarrow> heap_top h \<in># heap_mset h"
  by (simp add: heap_top_def heap_mset_def heap_wf_def nth_in_set_take)

lemma heap_top_least: "heap_wf key h \<Longrightarrow> x \<in># heap_mset h \<Longrightarrow> key (heap_top h) \<le> key x"
  by (auto simp: heap_top_def heap_mset_def heap_wf_def in_set_take_conv intro: heap_ordered_root)

text \<open>
  Removing cell \<open>i\<close>: the last live cell moves into the gap and the array gets shorter.
  Both \<open>heap_pop\<close> (with \<open>i = 0\<close>) and \<open>heap_remove\<close> start like this.
\<close>

definition move_last :: "ptr list \<Rightarrow> nat \<Rightarrow> nat \<Rightarrow> ptr list" where
  "move_last a n i = a[i := a ! (n - 1), n - 1 := NULL]"

lemma length_move_last [simp]: "length (move_last a n i) = length a"
  by (simp add: move_last_def)

lemma nth_move_last:
  "j < n - 1 \<Longrightarrow> n \<le> length a \<Longrightarrow> move_last a n i ! j = (if j = i then a ! (n - 1) else a ! j)"
  by (auto simp: move_last_def nth_list_update)

lemma mset_move_last:
  assumes "i < n" "n \<le> length a"
  shows "mset (take (n - 1) (move_last a n i)) = mset (take n a) - {#a ! i#}"
proof -
  have n: "mset (take n a) = add_mset (a ! (n - 1)) (mset (take (n - 1) a))"
    using assms by (cases n) (auto simp: take_Suc_conv_app_nth)
  show ?thesis
  proof (cases "i = n - 1")
    case True
    then show ?thesis using assms n by (simp add: move_last_def)
  next
    case False
    then have i: "i < n - 1" using assms by auto
    have "take (n - 1) (move_last a n i) = (take (n - 1) a)[i := a ! (n - 1)]"
      using i by (simp add: move_last_def take_update_swap list_update_beyond)
    moreover obtain M where "mset (take (n - 1) a) = add_mset (a ! i) M"
      using i assms multi_member_split [of "a ! i" "mset (take (n - 1) a)"]
      by (auto simp: nth_in_set_take)
    ultimately show ?thesis
      using i n assms by (simp add: mset_update)
  qed
qed

lemma both_hole_move_last:
  assumes "heap_ordered key a n" "i < n - 1" "n \<le> length a"
  shows "both_hole key (move_last a n i) (n - 1) i"
proof -
  have ok: "key (a ! parent j) \<le> key (a ! j)" if "0 < j" "j < n" for j
    using assms(1) that by (simp add: heap_ordered_def ok_at_def)
  have "key (a ! parent i) \<le> key (a ! j)" if "0 < i" "0 < j" "j < n - 1" "parent j = i" for j
  proof -
    have "key (a ! parent i) \<le> key (a ! i)" using ok [of i] that assms(2) by simp
    also have "key (a ! i) \<le> key (a ! j)" using ok [of j] that by simp
    finally show ?thesis .
  qed
  then show ?thesis
    unfolding both_hole_def grand_ok_def ok_at_def
    using ok assms(2,3) parent_lt by (auto simp: nth_move_last)
qed

lemma down_hole_move_last:
  "heap_ordered key a n \<Longrightarrow> 1 < n \<Longrightarrow> n \<le> length a \<Longrightarrow> down_hole key (move_last a n 0) (n - 1) 0"
  using both_hole_move_last [of key a n 0] by (auto simp: both_hole_def down_hole_def)


lemma heap_pop_eq:
  "heap_size h \<noteq> 0 \<Longrightarrow> heap_pop lt h =
     h\<lparr>array := heapify_down lt (heap_size h - 1) (move_last (array h) (heap_size h) 0) 0,
       heap_size := heap_size h - 1\<rparr>"
  by (simp add: heap_pop_def move_last_def Let_def)

lemma heap_pop_mset:
  assumes "heap_wf key h" "heap_size h \<noteq> 0"
  shows "heap_mset (heap_pop lt h) = heap_mset h - {#heap_top h#}"
proof (cases "heap_size h = 1")
  case True
  then show ?thesis
    using assms mset_move_last [of 0 1 "array h"]
    by (simp add: heap_pop_eq heap_mset_def heap_wf_def heap_top_def)
next
  case False
  then have "1 < heap_size h" using assms(2) by simp
  then show ?thesis
    using heap_wfD(1-3) [OF assms(1)] mset_move_last [of 0 "heap_size h" "array h"]
    by (simp add: heap_pop_eq heap_mset_def heap_top_def mset_heapify_down)
qed

lemma heap_pop_wf:
  assumes "heap_wf key h"
  shows "heap_wf key (heap_pop (key_lt key) h)"
proof (cases "heap_size h = 0")
  case False
  have "heap_ordered key
      (heapify_down (key_lt key) (heap_size h - 1) (move_last (array h) (heap_size h) 0) 0)
      (heap_size h - 1)"
  proof (cases "heap_size h = 1")
    case True
    then show ?thesis by (simp add: heap_ordered_def)
  next
    case n1: False
    then have "1 < heap_size h" using False by simp
    then show ?thesis
      using assms by (intro heapify_down_ordered down_hole_move_last) (auto simp: heap_wf_def)
  qed
  moreover have "NULL \<notin># heap_mset (heap_pop (key_lt key) h)"
    using assms False by (auto simp: heap_pop_mset [OF assms False] heap_wf_def dest: in_diffD)
  ultimately show ?thesis
    using assms False by (auto simp: heap_wf_def heap_pop_eq)
qed (use assms in \<open>simp add: heap_pop_def\<close>)

lemma find_node_Some: "find_node xs x = Some i \<Longrightarrow> i < length xs \<and> xs ! i = x"
  by (induction xs x arbitrary: i rule: find_node.induct) (auto split: if_splits)

lemma find_node_None: "find_node xs x = None \<longleftrightarrow> x \<notin> set xs"
  by (induction xs x rule: find_node.induct) auto

lemma heap_remove_None: "x \<notin># heap_mset h \<Longrightarrow> heap_remove lt h x = h"
  by (simp add: heap_remove_def heap_mset_def find_node_None [THEN iffD2])

lemma heap_remove_Some:
  assumes "heap_wf key h" "x \<in># heap_mset h"
  obtains i where "i < heap_size h" "array h ! i = x"
    and "heap_remove lt h x = h\<lparr>array :=
        (if i = heap_size h - 1 then move_last (array h) (heap_size h) i
         else heapify_up lt (heapify_down lt (heap_size h - 1)
                (move_last (array h) (heap_size h) i) i) i),
      heap_size := heap_size h - 1\<rparr>"
proof -
  obtain i where i: "find_node (take (heap_size h) (array h)) x = Some i"
    using assms(2) find_node_None [of "take (heap_size h) (array h)" x] by (auto simp: heap_mset_def)
  then have "i < heap_size h" "array h ! i = x"
    by (auto dest!: find_node_Some)
  then show thesis
    using i by (intro that [of i]) (simp_all add: heap_remove_def move_last_def Let_def)
qed

lemma heap_remove_mset:
  assumes "heap_wf key h"
  shows "heap_mset (heap_remove lt h x) = heap_mset h - {#x#}"
proof (cases "x \<in># heap_mset h")
  case True
  with assms obtain i where i: "i < heap_size h" "array h ! i = x"
    and r: "heap_remove lt h x = h\<lparr>array :=
        (if i = heap_size h - 1 then move_last (array h) (heap_size h) i
         else heapify_up lt (heapify_down lt (heap_size h - 1)
                (move_last (array h) (heap_size h) i) i) i),
      heap_size := heap_size h - 1\<rparr>"
    by (rule heap_remove_Some)
  have "i < heap_size h - 1" if "i \<noteq> heap_size h - 1" using i that by simp
  then show ?thesis
    using assms r i mset_move_last [of i "heap_size h" "array h"]
    by (auto simp: heap_mset_def heap_wf_def mset_heapify_up mset_heapify_down)
qed (simp add: heap_remove_None diff_single_trivial)

lemma heap_remove_wf:
  assumes "heap_wf key h"
  shows "heap_wf key (heap_remove (key_lt key) h x)"
proof (cases "x \<in># heap_mset h")
  case True
  let ?n = "heap_size h - 1"
  from assms True obtain i where i: "i < heap_size h" "array h ! i = x"
    and r: "heap_remove (key_lt key) h x = h\<lparr>array :=
        (if i = ?n then move_last (array h) (heap_size h) i
         else heapify_up (key_lt key) (heapify_down (key_lt key) ?n
                (move_last (array h) (heap_size h) i) i) i),
      heap_size := ?n\<rparr>"
    by (rule heap_remove_Some)
  have "heap_ordered key (array (heap_remove (key_lt key) h x)) ?n"
  proof (cases "i = ?n")
    case True
    then show ?thesis
      using assms i r by (auto simp: heap_wf_def heap_ordered_def ok_at_def nth_move_last)
  next
    case False
    then have hole: "both_hole key (move_last (array h) (heap_size h) i) ?n i"
      using assms i by (intro both_hole_move_last) (simp_all add: heap_wf_def)
    have "?n \<le> length (array h)" "i < ?n" using heap_wfD(3) [OF assms] i False by simp_all
    then show ?thesis
      using hole False by (simp add: r heapify_up_ordered heapify_down_up_hole)
  qed
  moreover have "NULL \<notin># heap_mset (heap_remove (key_lt key) h x)"
    using assms by (auto simp: heap_remove_mset [OF assms] heap_wf_def dest: in_diffD)
  ultimately show ?thesis
    using assms r i by (auto simp: heap_wf_def)
qed (use assms in \<open>simp add: heap_remove_None\<close>)

interpretation min_heap: priority_queue create_heap "heap_insert (key_lt key)" heap_top
    "heap_pop (key_lt key)" "heap_remove (key_lt key)" heap_mset capacity "heap_wf key" key
  for key :: "ptr \<Rightarrow> 'k::linorder"
proof
  fix q x
  assume wf: "heap_wf key q"
  show "size (heap_mset q) \<le> capacity q" using heap_wfD(2) [OF wf] wf by simp
  show "x \<noteq> NULL \<Longrightarrow> heap_wf key (heap_insert (key_lt key) q x)"
    using wf by (rule heap_insert_wf)
  show "size (heap_mset q) < capacity q \<Longrightarrow>
      heap_mset (heap_insert (key_lt key) q x) = add_mset x (heap_mset q)"
    using wf by (simp add: heap_insert_mset)
  show "size (heap_mset q) = capacity q \<Longrightarrow> heap_insert (key_lt key) q x = q"
    using wf by (simp add: heap_insert_def)
  show "heap_mset q = {#} \<Longrightarrow> heap_top q = NULL" using wf by (simp add: heap_top_def)
  show "heap_mset q \<noteq> {#} \<Longrightarrow> heap_top q \<in># heap_mset q" using wf by (simp add: heap_top_mem)
  show "x \<in># heap_mset q \<Longrightarrow> key (heap_top q) \<le> key x" using wf by (rule heap_top_least)
  show "heap_wf key (heap_pop (key_lt key) q)" using wf by (rule heap_pop_wf)
  show "heap_mset q \<noteq> {#} \<Longrightarrow> heap_mset (heap_pop (key_lt key) q) = heap_mset q - {#heap_top q#}"
    using wf by (simp add: heap_pop_mset)
  show "heap_wf key (heap_remove (key_lt key) q x)" using wf by (rule heap_remove_wf)
  show "heap_mset (heap_remove (key_lt key) q x) = heap_mset q - {#x#}"
    using wf by (rule heap_remove_mset)
  show "NULL \<notin># heap_mset q" using wf by (simp add: heap_wf_def)
qed (simp_all add: create_heap_wf, simp add: create_heap_def heap_mset_def)


subsection \<open>The heap does not look at keys of pointers it does not hold\<close>

lemma smaller_child_cong:
  assumes "\<forall>i<n. \<forall>j<n. lt (a ! i) (a ! j) = lt' (a ! i) (a ! j)" "index < n"
  shows "smaller_child lt a n index = smaller_child lt' a n index"
proof -
  have eq: "(i < n \<and> lt (a ! i) (a ! j)) = (i < n \<and> lt' (a ! i) (a ! j))" if "j < n" for i j
    using assms(1) that by blast
  define p where "p = (if 2 * index + 1 < n \<and> lt (a ! (2 * index + 1)) (a ! index) then 2 * index + 1 else index)"
  have "p < n" using assms(2) by (simp add: p_def)
  have "smaller_child lt a n index = (if 2 * index + 2 < n \<and> lt (a ! (2 * index + 2)) (a ! p) then 2 * index + 2 else p)"
    by (simp only: smaller_child_def Let_def p_def)
  also have "\<dots> = (if 2 * index + 2 < n \<and> lt' (a ! (2 * index + 2)) (a ! p) then 2 * index + 2 else p)"
    by (simp only: eq [OF \<open>p < n\<close>])
  also have "p = (if 2 * index + 1 < n \<and> lt' (a ! (2 * index + 1)) (a ! index) then 2 * index + 1 else index)"
    unfolding p_def by (simp only: eq [OF assms(2)])
  finally show ?thesis by (simp only: smaller_child_def Let_def)
qed

lemma heapify_down_cong:
  assumes "n \<le> length a" "\<forall>x\<in>set (take n a). \<forall>y\<in>set (take n a). lt x y = lt' x y" "index < n"
  shows "heapify_down lt n a index = heapify_down lt' n a index"
  using assms
proof (induction lt n a index rule: heapify_down.induct)
  case (1 lt n a index)
  have "lt (a ! i) (a ! j) = lt' (a ! i) (a ! j)" if "i < n" "j < n" for i j
    using 1(2,3) that by (simp add: nth_in_set_take)
  then have sc: "smaller_child lt a n index = smaller_child lt' a n index"
    using 1(4) by (intro smaller_child_cong) blast+
  show ?case
  proof (cases "smaller_child lt a n index = index")
    case True
    then show ?thesis using sc by (subst (1 2) heapify_down.simps) (simp add: Let_def)
  next
    case False
    let ?c = "smaller_child lt a n index"
    have c: "?c < n" using smaller_child_bounds False by blast
    have st: "set (take n (swap a index ?c)) = set (take n a)"
      using mset_swap_take [of index n ?c a] 1(2,4) c by (metis set_mset_mset)
    have "heapify_down lt n (swap a index ?c) ?c = heapify_down lt' n (swap a index ?c) ?c"
      using 1(1) [OF refl False] 1(2,3) c st by simp
    then show ?thesis
      using False sc by (subst (1 2) heapify_down.simps) (simp add: Let_def)
  qed
qed

lemma heap_pop_cong:
  assumes "heap_wf key h" "\<forall>x\<in>#heap_mset h - {#heap_top h#}. \<forall>y\<in>#heap_mset h - {#heap_top h#}. lt x y = lt' x y"
  shows "heap_pop lt h = heap_pop lt' h"
proof (cases "heap_size h \<le> 1")
  case True
  then show ?thesis
  proof (cases "heap_size h = 0")
    case False
    then have "heap_size h = 1" using True by simp
    then show ?thesis by (simp add: heap_pop_eq heapify_down.simps smaller_child_def Let_def)
  qed (simp add: heap_pop_def)
next
  case False
  let ?n = "heap_size h" and ?a = "move_last (array h) (heap_size h) 0"
  have len: "?n \<le> length (array h)" using heap_wfD(3) [OF assms(1)] .
  have "mset (take (?n - 1) ?a) = heap_mset h - {#heap_top h#}"
    using mset_move_last [of 0 ?n "array h"] False len by (simp add: heap_mset_def heap_top_def)
  then have "set (take (?n - 1) ?a) = set_mset (heap_mset h - {#heap_top h#})"
    by (metis set_mset_mset)
  then have "heapify_down lt (?n - 1) ?a 0 = heapify_down lt' (?n - 1) ?a 0"
    using assms(2) len False by (intro heapify_down_cong) simp_all
  then show ?thesis using False by (simp add: heap_pop_eq)
qed

subsection \<open>What the heap guarantees\<close>

text \<open>Popping \<open>n\<close> times, recording the top each time: how the timer loop consumes the heap.\<close>

fun heap_drain :: "(ptr \<Rightarrow> ptr \<Rightarrow> bool) \<Rightarrow> nat \<Rightarrow> heap_st \<Rightarrow> ptr list" where
  "heap_drain lt 0 h = []"
| "heap_drain lt (Suc n) h = heap_top h # heap_drain lt n (heap_pop lt h)"

lemma heap_drain_eq:
  "heap_drain (key_lt key) n h = priority_queue.drain heap_top (heap_pop (key_lt key)) n h"
  by (induction n arbitrary: h) (simp_all add: min_heap.drain.simps)

text \<open>inserting a non-null node keeps the heap well formed; the node is added to the
  heap's contents, except that a full heap is left as it is.\<close>

theorem heap_insert_correct:
  assumes "heap_wf key h" and "x \<noteq> NULL"
  shows "heap_wf key (heap_insert (key_lt key) h x)
    \<and> heap_mset (heap_insert (key_lt key) h x)
      = (if heap_size h < capacity h then add_mset x (heap_mset h) else heap_mset h)"
  using assms min_heap.size_bound [OF assms(1)] min_heap.insert_full [OF assms(1)]
  by (simp add: min_heap.inv_insert min_heap.elems_insert)

text \<open>Popping a non-empty heap removes exactly the top, no live node has a smaller key
  than the top, and the rest is again a well-formed heap.\<close>

theorem heap_pop_correct:
  assumes "heap_wf key h" and "heap_size h \<noteq> 0"
  shows "heap_wf key (heap_pop (key_lt key) h)
    \<and> heap_top h \<in># heap_mset h
    \<and> heap_mset (heap_pop (key_lt key) h) = heap_mset h - {#heap_top h#}
    \<and> (\<forall>x. x \<in># heap_mset h \<longrightarrow> key (heap_top h) \<le> key x)"
  using assms min_heap.inv_pop [OF assms(1)] min_heap.elems_pop [OF assms(1)]
    min_heap.top_in [OF assms(1)] min_heap.top_least [OF assms(1)] by simp

text \<open>C15: removing an arbitrary node deletes that node and no other, wherever it sits in the
  array, and the sift down followed by the sift up restores the order.\<close>

theorem heap_remove_correct:
  assumes "heap_wf key h"
  shows "heap_wf key (heap_remove (key_lt key) h x)
    \<and> heap_mset (heap_remove (key_lt key) h x) = heap_mset h - {#x#}"
  using assms by (simp add: min_heap.inv_remove min_heap.elems_remove)

text \<open>Popping a heap until it is empty delivers all its nodes, in the order of their
  keys.\<close>

theorem heap_drain_sorted:
  assumes "heap_wf key h"
  shows "sorted (map key (heap_drain (key_lt key) (heap_size h) h))
    \<and> mset (heap_drain (key_lt key) (heap_size h) h) = heap_mset h"
  using assms by (simp add: heap_drain_eq min_heap.sorted_drain min_heap.mset_drain)

definition sample_heap :: heap_st where
  "sample_heap = foldl (heap_insert (key_lt (\<lambda>x. x))) (create_heap 8) [5, 3, 9, 1, 7, 4]"

lemma sample_heap_wf: "heap_wf (\<lambda>x. x) sample_heap"
  unfolding sample_heap_def by (simp add: heap_insert_wf create_heap_wf)

lemma sample_heap_eq: "sample_heap = \<lparr>array = [1, 3, 4, 5, 7, 9, 0, 0], heap_size = 6, capacity = 8\<rparr>"
  by code_simp

theorem heap_insert_correct_witness:
  "heap_mset (heap_insert (key_lt (\<lambda>x. x)) sample_heap 2) = {#1, 3, 4, 5, 7, 9, 2#}"
  using heap_insert_correct [OF sample_heap_wf, of 2]
  by (simp add: sample_heap_eq heap_mset_def add_mset_commute)

theorem heap_pop_correct_witness:
  "heap_mset (heap_pop (key_lt (\<lambda>x. x)) sample_heap) = {#3, 4, 5, 7, 9#}"
  using heap_pop_correct [OF sample_heap_wf]
  by (simp add: sample_heap_eq heap_mset_def heap_top_def)

theorem heap_remove_correct_witness:
  "heap_mset (heap_remove (key_lt (\<lambda>x. x)) sample_heap 3) = {#1, 4, 5, 7, 9#}"
  using heap_remove_correct [OF sample_heap_wf, of 3]
  by (simp add: sample_heap_eq heap_mset_def)

theorem heap_drain_sorted_witness:
  "sorted (heap_drain (key_lt (\<lambda>x. x)) 6 sample_heap)"
  using heap_drain_sorted [OF sample_heap_wf] by (simp add: sample_heap_eq)

end
