(* ===== verification/World.thy ===== *)
theory World
  imports MinHeap
begin

section \<open>World: the program state, system calls and callbacks (include/event.h)\<close>

text \<open>
  The structures of event.h as records in stores indexed by pointers, a trace of everything the
  program asks of the outside (system calls, OpenSSL, user callbacks), and the monad in which the
  operations of the later theories are written. What the outside answers is a parameter: \<open>os\<close> maps
  the history and a call to a result, \<open>user\<close> maps a callback invocation to its effect on the world.
  A dereference of null or of freed memory, an index out of range, a lock taken twice by the same
  thread the use of a destroyed mutex and a callback called with the wrong kind of event are faults, and so is a call of exit: the operation stops with the fault as its value.
\<close>

datatype fault = Deadlock | Destroyed_mutex | Null_deref | Use_after_free | Out_of_bounds | Bad_cast | Exit_failure

subsection \<open>Records\<close>

abbreviation (input) EVENT_READ :: u32 where
  "EVENT_READ \<equiv> 1"

abbreviation (input) EVENT_WRITE :: u32 where
  "EVENT_WRITE \<equiv> 2"

text \<open>Function pointers: the callbacks the library installs itself, or one of the user.\<close>

datatype callback = No_cb | Handle_event | Io_write_cb | Ssl_server_handshake
  | Connect_timeout_cb | Read_timeout_cb | Writer_timeout_cb | Close_timeout_cb
  | Pipe_read_cb | User_cb nat

text \<open>Pointers to the three kinds of events that start with the fields of \<open>event_st\<close>.\<close>

datatype event_ref = Ev_io ptr | Ev_timer ptr | Ev_user ptr

record event_st =
  ev_loop :: ptr
  cb :: callback
  next_event :: "event_ref option"
  pending :: bool
  destory :: bool
  active :: bool

record event_timer_st = event_st +
  repeat :: u32
  next_timeout :: u64
  timeout :: u64
  privdata :: ptr

record buffer_st =
  base :: "byte list"
  len :: nat
  head :: nat
  tail :: nat
  maxSize :: nat

datatype io_type = IO_TYPE_TCP | IO_TYPE_UDP | IO_TYPE_PIPE | IO_TYPE_SSL

datatype mutex = Unlocked | Locked | Destroyed

record io_st = event_st +
  fd :: int
  events :: u32
  revents :: u32
  userdata :: ptr
  last_read_time :: u64
  last_write_time :: u64
  read_buf :: "buffer_st option"
  write_buf :: "buffer_st option"
  write_mutex :: mutex
  io_type :: io_type
  connect_timeout :: int
  close_timeout :: int
  read_timeout :: int
  write_timeout :: int
  ip :: string
  port :: string
  read_cb :: callback
  write_cb :: callback
  close_cb :: callback
  connect_cb :: callback
  accept_cb :: callback
  read_timer :: ptr
  write_timer :: ptr
  close_timer :: ptr
  connect_timer :: ptr
  connect :: bool
  accept :: bool
  closed :: bool
  ssl_ctx :: ptr
  ssl :: ptr
  cert_file :: string
  key_file :: string
  threadPool :: ptr

text \<open>
  State of the three dispatchers: the bitmaps of select, the array of poll (its first
  \<open>fds_count\<close> entries), the descriptor and capacity of epoll. \<open>Disp_null\<close> is a null
  \<open>disp_data\<close>.
\<close>

record select_dispatcher_st =
  max_fd :: int
  read_fds :: "bool list"
  write_fds :: "bool list"

record pollfd =
  pfd :: int
  pevents :: u32

record poll_dispatcher_st =
  fds :: "pollfd list"
  fds_capacity :: nat

record epoll_dispatcher_st =
  epfd :: int
  events_capacity :: nat

datatype disp_data = Disp_select select_dispatcher_st | Disp_poll poll_dispatcher_st
  | Disp_epoll epoll_dispatcher_st | Disp_null

record event_loop_st =
  quit :: bool
  start_ms :: u64
  cur_ms :: u64
  io_array :: "ptr list"
  io_num :: u32
  timers :: heap_st
  timers_num :: u32
  loop_pending :: "event_ref option"
  pipe_read_fd :: int
  pipe_write_fd :: int
  disp_data :: disp_data
  custom_events :: "ptr list"
  custom_events_num :: int
  loop_mutex :: mutex

record event_loop_thread_st =
  eventLoop :: ptr
  thread_count :: int

record thread_pool_st =
  main_loop :: ptr
  thread_number :: int
  event_loop_threads :: "event_loop_thread_st list"
  pos :: int

subsection \<open>The outside\<close>

datatype errno = EAGAIN | EINTR | EINPROGRESS | EEXIST | ENOENT | Errno nat

datatype ctl_op = EPOLL_CTL_ADD | EPOLL_CTL_MOD | EPOLL_CTL_DEL

datatype sys_call =
    Malloc
  | Gettimeofday
  | Socket
  | Set_nonblock int
  | Connect int string string
  | Getpeername int
  | Accept int
  | Setsockopt_reuse int
  | Bind int string string
  | Listen int
  | Read int nat
  | Write int "byte list"
  | Close int
  | Pipe
  | Epoll_create
  | Epoll_ctl ctl_op int u32
  | Epoll_wait nat int
  | Poll "pollfd list" int
  | Select int "bool list" "bool list" int
  | Ssl_ctx_new bool
  | Ssl_use_certificate ptr string string
  | Ssl_new ptr int
  | Ssl_connect ptr
  | Ssl_accept ptr
  | Ssl_read ptr nat
  | Ssl_write ptr "byte list"
  | Ssl_get_error ptr int
  | Ssl_print_certs ptr
  | Ssl_free ptr
  | Ssl_ctx_free ptr

text \<open>
  A result: the value returned, errno, the bytes a read delivers, the descriptors with their
  events that the dispatchers' waits deliver, and the time of day.
\<close>

record sys_result =
  ret :: int
  err :: errno
  bytes :: "byte list"
  ready :: "(int \<times> u32) list"
  tv_sec :: int
  tv_usec :: int

text \<open>Invocations of user code, with what it is passed.\<close>

datatype user_call =
    Call_timer nat ptr
  | Call_event nat ptr
  | Call_io nat ptr
  | Call_read nat ptr "byte list"
  | Call_write nat ptr "byte list" int

datatype act = Sys sys_call sys_result | User user_call

record world =
  loops :: "ptr \<Rightarrow> event_loop_st"
  ios :: "ptr \<Rightarrow> io_st"
  tms :: "ptr \<Rightarrow> event_timer_st"
  uevents :: "ptr \<Rightarrow> event_st"
  pools :: "ptr \<Rightarrow> thread_pool_st"
  next_ptr :: ptr
  freed :: "event_ref list"
  trace :: "act list"

record env =
  os :: "act list \<Rightarrow> sys_call \<Rightarrow> sys_result"
  user :: "user_call \<Rightarrow> world \<Rightarrow> fault + unit \<times> world"

subsection \<open>The monad\<close>

type_synonym 'a m = "world \<Rightarrow> fault + 'a \<times> world"

definition retM :: "'a \<Rightarrow> 'a m" where
  "retM a = (\<lambda>w. Inr (a, w))"

definition failM :: "fault \<Rightarrow> 'a m" where
  "failM f = (\<lambda>w. Inl f)"

definition bindM :: "'a m \<Rightarrow> ('a \<Rightarrow> 'b m) \<Rightarrow> 'b m" where
  "bindM m f = (\<lambda>w. case m w of Inl e \<Rightarrow> Inl e | Inr (a, w') \<Rightarrow> f a w')"

definition readM :: "(world \<Rightarrow> 'a m) \<Rightarrow> 'a m" where
  "readM f = (\<lambda>w. f w w)"

definition modifyM :: "(world \<Rightarrow> world) \<Rightarrow> unit m" where
  "modifyM f = (\<lambda>w. Inr ((), f w))"

definition skip :: "unit m" where
  "skip = retM ()"

text \<open>A block of statements, and one that ends by returning a value.\<close>

primrec runs :: "unit m list \<Rightarrow> unit m" where
  "runs [] = skip"
| "runs (m # ms) = bindM m (\<lambda>_. runs ms)"

definition run_then :: "unit m list \<Rightarrow> 'a m \<Rightarrow> 'a m" where
  "run_then ms r = bindM (runs ms) (\<lambda>_. r)"

definition whenM :: "bool \<Rightarrow> unit m \<Rightarrow> unit m" where
  "whenM b m = (if b then m else skip)"

subsection \<open>Memory\<close>

definition with_io :: "ptr \<Rightarrow> (io_st \<Rightarrow> 'a m) \<Rightarrow> 'a m" where
  "with_io io f = (if io = NULL then failM Null_deref else readM (\<lambda>w. f (ios w io)))"

definition upd_io :: "ptr \<Rightarrow> (io_st \<Rightarrow> io_st) \<Rightarrow> unit m" where
  "upd_io io f =
     (if io = NULL then failM Null_deref
      else modifyM (\<lambda>w. w\<lparr>ios := (ios w)(io := f (ios w io))\<rparr>))"

definition with_loop :: "ptr \<Rightarrow> (event_loop_st \<Rightarrow> 'a m) \<Rightarrow> 'a m" where
  "with_loop l f = (if l = NULL then failM Null_deref else readM (\<lambda>w. f (loops w l)))"

definition upd_loop :: "ptr \<Rightarrow> (event_loop_st \<Rightarrow> event_loop_st) \<Rightarrow> unit m" where
  "upd_loop l f =
     (if l = NULL then failM Null_deref
      else modifyM (\<lambda>w. w\<lparr>loops := (loops w)(l := f (loops w l))\<rparr>))"

definition with_timer :: "ptr \<Rightarrow> (event_timer_st \<Rightarrow> 'a m) \<Rightarrow> 'a m" where
  "with_timer t f =
     (if t = NULL then failM Null_deref
      else readM (\<lambda>w. if Ev_timer t \<in> set (freed w) then failM Use_after_free else f (tms w t)))"

definition upd_timer :: "ptr \<Rightarrow> (event_timer_st \<Rightarrow> event_timer_st) \<Rightarrow> unit m" where
  "upd_timer t f = with_timer t (\<lambda>_. modifyM (\<lambda>w. w\<lparr>tms := (tms w)(t := f (tms w t))\<rparr>))"

definition syscall :: "env \<Rightarrow> sys_call \<Rightarrow> sys_result m" where
  "syscall E c = (\<lambda>w. let r = os E (trace w) c in Inr (r, w\<lparr>trace := trace w @ [Sys c r]\<rparr>))"

definition call_user :: "env \<Rightarrow> user_call \<Rightarrow> unit m" where
  "call_user E c = (\<lambda>w. user E c (w\<lparr>trace := trace w @ [User c]\<rparr>))"

text \<open>Allocation: null when malloc says so, else an address never used before.\<close>

definition malloc :: "env \<Rightarrow> ptr m" where
  "malloc E =
     bindM (syscall E Malloc) (\<lambda>r.
       if ret r = 0 then retM NULL
       else (\<lambda>w. Inr (next_ptr w, w\<lparr>next_ptr := next_ptr w + 1\<rparr>)))"

subsection \<open>include/ctimer.h and mutexes\<close>

definition get_curtime_ms :: "env \<Rightarrow> u64 m" where
  "get_curtime_ms E =
     bindM (syscall E Gettimeofday) (\<lambda>r. retM (of_int (tv_sec r * 1000 + tv_usec r div 1000)))"

definition mutex_lock :: "ptr \<Rightarrow> unit m" where
  "mutex_lock io = with_io io (\<lambda>s.
     case write_mutex s of
       Unlocked \<Rightarrow> upd_io io (write_mutex_update (\<lambda>_. Locked))
     | Locked \<Rightarrow> failM Deadlock
     | Destroyed \<Rightarrow> failM Destroyed_mutex)"

definition mutex_unlock :: "ptr \<Rightarrow> unit m" where
  "mutex_unlock io = with_io io (\<lambda>s.
     case write_mutex s of
       Destroyed \<Rightarrow> failM Destroyed_mutex
     | _ \<Rightarrow> upd_io io (write_mutex_update (\<lambda>_. Unlocked)))"

subsection \<open>Evaluation of programs\<close>

text \<open>Running a monadic program one statement at a time, by the simplifier.\<close>

lemma runM [simp]:
  "retM a w = Inr (a, w)"
  "failM flt w = Inl flt"
  "bindM m f w = (case m w of Inl e \<Rightarrow> Inl e | Inr (a, w') \<Rightarrow> f a w')"
  "readM g w = g w w"
  "modifyM h w = Inr ((), h w)"
  "skip w = Inr ((), w)"
  "run_then ms r w = (case runs ms w of Inl e \<Rightarrow> Inl e | Inr (_, w') \<Rightarrow> r w')"
  "whenM b m' w = (if b then m' w else Inr ((), w))"
  by (simp_all add: retM_def failM_def bindM_def readM_def modifyM_def skip_def run_then_def whenM_def)

lemma runs_append: "runs (ms @ ns) w = (case runs ms w of Inl e \<Rightarrow> Inl e | Inr (_, w') \<Rightarrow> runs ns w')"
  by (induction ms arbitrary: w) (auto split: sum.splits)

lemma with_io_run [simp]:
  "with_io io f w = (if io = NULL then Inl Null_deref else f (ios w io) w)"
  by (simp add: with_io_def)

lemma upd_io_run [simp]:
  "upd_io io f w = (if io = NULL then Inl Null_deref else Inr ((), w\<lparr>ios := (ios w)(io := f (ios w io))\<rparr>))"
  by (simp add: upd_io_def)

lemma with_loop_run [simp]:
  "with_loop l f w = (if l = NULL then Inl Null_deref else f (loops w l) w)"
  by (simp add: with_loop_def)

lemma upd_loop_run [simp]:
  "upd_loop l f w =
     (if l = NULL then Inl Null_deref else Inr ((), w\<lparr>loops := (loops w)(l := f (loops w l))\<rparr>))"
  by (simp add: upd_loop_def)

lemma with_timer_run [simp]:
  "with_timer t f w =
     (if t = NULL then Inl Null_deref
      else if Ev_timer t \<in> set (freed w) then Inl Use_after_free else f (tms w t) w)"
  by (simp add: with_timer_def)

lemma upd_timer_run [simp]:
  "upd_timer t f w =
     (if t = NULL then Inl Null_deref
      else if Ev_timer t \<in> set (freed w) then Inl Use_after_free
      else Inr ((), w\<lparr>tms := (tms w)(t := f (tms w t))\<rparr>))"
  by (simp add: upd_timer_def)

lemma syscall_run [simp]:
  "syscall E c w = Inr (os E (trace w) c, w\<lparr>trace := trace w @ [Sys c (os E (trace w) c)]\<rparr>)"
  by (simp add: syscall_def Let_def)

lemma call_user_run [simp]: "call_user E c w = user E c (w\<lparr>trace := trace w @ [User c]\<rparr>)"
  by (simp add: call_user_def)

lemma mutex_lock_run [simp]:
  "mutex_lock io w =
     (if io = NULL then Inl Null_deref
      else case write_mutex (ios w io) of
        Unlocked \<Rightarrow> Inr ((), w\<lparr>ios := (ios w)(io := (ios w io)\<lparr>write_mutex := Locked\<rparr>)\<rparr>)
      | Locked \<Rightarrow> Inl Deadlock
      | Destroyed \<Rightarrow> Inl Destroyed_mutex)"
  by (simp add: mutex_lock_def split: mutex.split)

lemma mutex_unlock_run [simp]:
  "mutex_unlock io w =
     (if io = NULL then Inl Null_deref
      else if write_mutex (ios w io) = Destroyed then Inl Destroyed_mutex
      else Inr ((), w\<lparr>ios := (ios w)(io := (ios w io)\<lparr>write_mutex := Unlocked\<rparr>)\<rparr>))"
  by (simp add: mutex_unlock_def split: mutex.split)

subsection \<open>Events of any kind\<close>

text \<open>Reading and updating the \<open>event_st\<close> fields of an io, a timer or a user event.\<close>

definition event_of :: "world \<Rightarrow> event_ref \<Rightarrow> event_st" where
  "event_of w ev = (case ev of
     Ev_io p \<Rightarrow> event_st.truncate (ios w p)
   | Ev_timer p \<Rightarrow> event_st.truncate (tms w p)
   | Ev_user p \<Rightarrow> uevents w p)"

definition put_event :: "event_ref \<Rightarrow> (event_st \<Rightarrow> event_st) \<Rightarrow> world \<Rightarrow> world" where
  "put_event ev f w = (case ev of
     Ev_io p \<Rightarrow> w\<lparr>ios := (ios w)(p := event_st.extend (f (event_st.truncate (ios w p))) (event_st.more (ios w p)))\<rparr>
   | Ev_timer p \<Rightarrow> w\<lparr>tms := (tms w)(p := event_st.extend (f (event_st.truncate (tms w p))) (event_st.more (tms w p)))\<rparr>
   | Ev_user p \<Rightarrow> w\<lparr>uevents := (uevents w)(p := f (uevents w p))\<rparr>)"

primrec ev_ptr :: "event_ref \<Rightarrow> ptr" where
  "ev_ptr (Ev_io p) = p"
| "ev_ptr (Ev_timer p) = p"
| "ev_ptr (Ev_user p) = p"

definition with_event :: "event_ref \<Rightarrow> (event_st \<Rightarrow> 'a m) \<Rightarrow> 'a m" where
  "with_event ev f =
     (if ev_ptr ev = NULL then failM Null_deref
      else readM (\<lambda>w. if ev \<in> set (freed w) then failM Use_after_free else f (event_of w ev)))"

definition upd_event :: "event_ref \<Rightarrow> (event_st \<Rightarrow> event_st) \<Rightarrow> unit m" where
  "upd_event ev f = with_event ev (\<lambda>_. modifyM (put_event ev f))"

lemma with_event_run [simp]:
  "with_event ev f w =
     (if ev_ptr ev = NULL then Inl Null_deref
      else if ev \<in> set (freed w) then Inl Use_after_free else f (event_of w ev) w)"
  by (simp add: with_event_def)

lemma upd_event_run [simp]:
  "upd_event ev f w =
     (if ev_ptr ev = NULL then Inl Null_deref
      else if ev \<in> set (freed w) then Inl Use_after_free else Inr ((), put_event ev f w))"
  by (simp add: upd_event_def)

lemma event_of_put [simp]:
  "event_of (put_event ev f w) ev' = (if ev' = ev then f (event_of w ev) else event_of w ev')"
  by (cases ev; cases ev'; simp add: event_of_def put_event_def event_st.defs)

lemma put_event_timer [simp]:
  "put_event (Ev_timer t) (pending_update f) w = w\<lparr>tms := (tms w)(t := pending_update f (tms w t))\<rparr>"
  "put_event (Ev_timer t) (destory_update f) w = w\<lparr>tms := (tms w)(t := destory_update f (tms w t))\<rparr>"
  "put_event (Ev_timer t) (active_update f) w = w\<lparr>tms := (tms w)(t := active_update f (tms w t))\<rparr>"
  "put_event (Ev_timer t) (next_event_update g) w = w\<lparr>tms := (tms w)(t := next_event_update g (tms w t))\<rparr>"
  by (cases "tms w t"; simp add: put_event_def event_st.defs)+

lemma put_event_io [simp]:
  "put_event (Ev_io t) (pending_update f) w = w\<lparr>ios := (ios w)(t := pending_update f (ios w t))\<rparr>"
  "put_event (Ev_io t) (destory_update f) w = w\<lparr>ios := (ios w)(t := destory_update f (ios w t))\<rparr>"
  "put_event (Ev_io t) (active_update f) w = w\<lparr>ios := (ios w)(t := active_update f (ios w t))\<rparr>"
  "put_event (Ev_io t) (next_event_update g) w = w\<lparr>ios := (ios w)(t := next_event_update g (ios w t))\<rparr>"
  by (cases "ios w t"; simp add: put_event_def event_st.defs)+

lemma event_of_fields [simp]:
  "pending (event_of w (Ev_timer t)) = pending (tms w t)" "destory (event_of w (Ev_timer t)) = destory (tms w t)"
  "ev_loop (event_of w (Ev_timer t)) = ev_loop (tms w t)" "cb (event_of w (Ev_timer t)) = cb (tms w t)"
  "pending (event_of w (Ev_io t)) = pending (ios w t)" "destory (event_of w (Ev_io t)) = destory (ios w t)"
  "ev_loop (event_of w (Ev_io t)) = ev_loop (ios w t)" "cb (event_of w (Ev_io t)) = cb (ios w t)"
  by (simp_all add: event_of_def event_st.defs)

text \<open>Updates of an event leave every other part of the world alone.\<close>

lemma put_event_frame [simp]:
  "loops (put_event ev f w) = loops w" "freed (put_event ev f w) = freed w"
  "trace (put_event ev f w) = trace w" "next_ptr (put_event ev f w) = next_ptr w"
  "pools (put_event ev f w) = pools w"
  by (cases ev; simp add: put_event_def)+

lemma event_of_other_fields [simp]:
  "event_of (w\<lparr>loops := ls\<rparr>) ev = event_of w ev" "event_of (w\<lparr>trace := t\<rparr>) ev = event_of w ev"
  "event_of (w\<lparr>freed := fr\<rparr>) ev = event_of w ev" "event_of (w\<lparr>next_ptr := n\<rparr>) ev = event_of w ev"
  by (cases ev; simp add: event_of_def)+

text \<open>The list reachable from a reference over \<open>next_event\<close>.\<close>

fun is_chain :: "world \<Rightarrow> event_ref option \<Rightarrow> event_ref list \<Rightarrow> bool" where
  "is_chain w r [] \<longleftrightarrow> r = None"
| "is_chain w r (x # xs) \<longleftrightarrow> r = Some x \<and> is_chain w (next_event (event_of w x)) xs"

lemma is_chain_cong:
  "(\<And>x. x \<in> set xs \<Longrightarrow> next_event (event_of w' x) = next_event (event_of w x)) \<Longrightarrow>
   is_chain w' r xs = is_chain w r xs"
  by (induction w r xs rule: is_chain.induct) auto

lemma is_chain_unique: "is_chain w r xs \<Longrightarrow> is_chain w r ys \<Longrightarrow> xs = ys"
proof (induction xs arbitrary: r ys)
  case Nil
  then show ?case by (cases ys) auto
next
  case (Cons x xs)
  then show ?case by (cases ys) auto
qed

subsection \<open>Memory filled with zeros\<close>

definition zero_event :: event_st where
  "zero_event = \<lparr>ev_loop = NULL, cb = No_cb, next_event = None, pending = False, destory = False,
     active = False\<rparr>"

definition zero_timer :: event_timer_st where
  "zero_timer = \<lparr>ev_loop = NULL, cb = No_cb, next_event = None, pending = False, destory = False,
     active = False, repeat = 0, next_timeout = 0, timeout = 0, privdata = NULL\<rparr>"

definition zero_io :: io_st where
  "zero_io = \<lparr>ev_loop = NULL, cb = No_cb, next_event = None, pending = False, destory = False,
     active = False, fd = 0, events = 0, revents = 0, userdata = NULL, last_read_time = 0,
     last_write_time = 0, read_buf = None, write_buf = None, write_mutex = Unlocked,
     io_type = IO_TYPE_TCP, connect_timeout = 0, close_timeout = 0, read_timeout = 0,
     write_timeout = 0, ip = [], port = [], read_cb = No_cb, write_cb = No_cb, close_cb = No_cb,
     connect_cb = No_cb, accept_cb = No_cb, read_timer = NULL, write_timer = NULL,
     close_timer = NULL, connect_timer = NULL, connect = False, accept = False, closed = False,
     ssl_ctx = NULL, ssl = NULL, cert_file = [], key_file = [], threadPool = NULL\<rparr>"

definition zero_loop :: event_loop_st where
  "zero_loop = \<lparr>quit = False, start_ms = 0, cur_ms = 0, io_array = [], io_num = 0,
     timers = create_heap 1000, timers_num = 0, loop_pending = None, pipe_read_fd = 0,
     pipe_write_fd = 0, disp_data = Disp_null, custom_events = [], custom_events_num = 0,
     loop_mutex = Unlocked\<rparr>"

definition zero_pool :: thread_pool_st where
  "zero_pool = \<lparr>main_loop = NULL, thread_number = 0, event_loop_threads = [], pos = 0\<rparr>"

definition world0 :: world where
  "world0 = \<lparr>loops = (\<lambda>_. zero_loop), ios = (\<lambda>_. zero_io), tms = (\<lambda>_. zero_timer),
     uevents = (\<lambda>_. zero_event), pools = (\<lambda>_. zero_pool), next_ptr = 1, freed = [], trace = []\<rparr>"

lemma world0_sel [simp]:
  "loops world0 = (\<lambda>_. zero_loop)" "ios world0 = (\<lambda>_. zero_io)" "tms world0 = (\<lambda>_. zero_timer)"
  "uevents world0 = (\<lambda>_. zero_event)" "pools world0 = (\<lambda>_. zero_pool)" "next_ptr world0 = 1"
  "freed world0 = []" "trace world0 = []"
  by (simp_all add: world0_def)

end
