(* ===== verification/Events.thy ===== *)
theory Events
  imports World
begin

section \<open>The pending list: src/event.c\<close>

text \<open>
  \<open>event_pending\<close> puts an event in front of its loop's pending list unless it is marked
  pending already; \<open>event_del\<close> frees an event marked for destruction; \<open>event_reset\<close> clears its
  marks. The list is intrusive: the link is a field of the event.
\<close>

definition event_pending :: "event_ref \<Rightarrow> unit m" where
  "event_pending ev = with_event ev (\<lambda>e.
     whenM (\<not> pending e) (runs [
       upd_event ev (pending_update (\<lambda>_. True)),
       with_loop (ev_loop e) (\<lambda>l. upd_event ev (next_event_update (\<lambda>_. loop_pending l))),
       upd_loop (ev_loop e) (loop_pending_update (\<lambda>_. Some ev))]))"

definition event_del :: "event_ref \<Rightarrow> unit m" where
  "event_del ev = with_event ev (\<lambda>e.
     whenM (destory e) (runs [
       upd_event ev (destory_update (\<lambda>_. False)),
       modifyM (\<lambda>w. w\<lparr>freed := ev # freed w\<rparr>)]))"

definition event_reset :: "event_ref \<Rightarrow> unit m" where
  "event_reset ev = runs [
     upd_event ev (destory_update (\<lambda>_. False)),
     upd_event ev (active_update (\<lambda>_. True)),
     upd_event ev (pending_update (\<lambda>_. False))]"

subsection \<open>The invariant of the pending list\<close>

text \<open>The list of a loop holds distinct live events of that loop, exactly the ones marked pending.\<close>

definition pending_wf :: "world \<Rightarrow> ptr \<Rightarrow> event_ref list \<Rightarrow> bool" where
  "pending_wf w l xs \<longleftrightarrow>
     is_chain w (loop_pending (loops w l)) xs \<and> distinct xs
     \<and> (\<forall>ev. ev \<in> set xs \<longleftrightarrow> pending (event_of w ev) \<and> ev_loop (event_of w ev) = l)
     \<and> (\<forall>ev\<in>set xs. ev_ptr ev \<noteq> NULL \<and> ev \<notin> set (freed w))"

text \<open>What \<open>event_pending\<close> does to a live event of a loop.\<close>

definition pushed :: "event_ref \<Rightarrow> world \<Rightarrow> world" where
  "pushed ev w =
     (let l = ev_loop (event_of w ev); w' = put_event ev (pending_update (\<lambda>_. True)) w;
          w' = put_event ev (next_event_update (\<lambda>_. loop_pending (loops w l))) w'
      in w'\<lparr>loops := (loops w')(l := (loops w' l)\<lparr>loop_pending := Some ev\<rparr>)\<rparr>)"

lemma event_pending_run:
  assumes "ev_ptr ev \<noteq> NULL" "ev \<notin> set (freed w)" "ev_loop (event_of w ev) \<noteq> NULL"
  shows "event_pending ev w = Inr ((), if pending (event_of w ev) then w else pushed ev w)"
  using assms by (simp add: event_pending_def pushed_def Let_def)

lemma event_of_pushed:
  "event_of (pushed ev w) x =
     (if x = ev then (event_of w ev)\<lparr>pending := True,
        next_event := loop_pending (loops w (ev_loop (event_of w ev)))\<rparr> else event_of w x)"
  by (simp add: pushed_def Let_def)

lemma pushed_frame [simp]:
  "freed (pushed ev w) = freed w" "trace (pushed ev w) = trace w"
  "loops (pushed ev w) l =
     (if l = ev_loop (event_of w ev) then (loops w l)\<lparr>loop_pending := Some ev\<rparr> else loops w l)"
  by (simp_all add: pushed_def Let_def)

lemma pushed_wf:
  assumes "pending_wf w l xs" "ev_ptr ev \<noteq> NULL" "ev \<notin> set (freed w)"
    and "ev_loop (event_of w ev) = l" "\<not> pending (event_of w ev)"
  shows "pending_wf (pushed ev w) l (ev # xs)"
proof -
  have "ev \<notin> set xs" using assms(1,5) by (auto simp: pending_wf_def)
  moreover have "is_chain (pushed ev w) (loop_pending (loops w l)) xs = is_chain w (loop_pending (loops w l)) xs"
    using \<open>ev \<notin> set xs\<close> by (intro is_chain_cong) (auto simp: event_of_pushed)
  ultimately show ?thesis
    using assms by (auto simp: pending_wf_def event_of_pushed)
qed

lemma pushed_wf_other:
  assumes "pending_wf w l xs" "ev_loop (event_of w ev) \<noteq> l"
  shows "pending_wf (pushed ev w) l xs"
proof -
  have "ev \<notin> set xs" using assms by (auto simp: pending_wf_def)
  moreover have "is_chain (pushed ev w) (loop_pending (loops w l)) xs = is_chain w (loop_pending (loops w l)) xs"
    using \<open>ev \<notin> set xs\<close> by (intro is_chain_cong) (auto simp: event_of_pushed)
  ultimately show ?thesis
    using assms by (auto simp: pending_wf_def event_of_pushed)
qed

text \<open>Scheduling an event. A live event is put in front of its loop's list if it was not
  pending and left where it is if it was; the list keeps distinct members that are exactly the
  events marked pending, and the lists of all other loops stay as they were.\<close>

theorem event_pending_correct:
  assumes "pending_wf w l xs" "ev_ptr ev \<noteq> NULL" "ev \<notin> set (freed w)"
    and "ev_loop (event_of w ev) = l" "l \<noteq> NULL"
  shows "\<exists>w'. event_pending ev w = Inr ((), w')
    \<and> pending_wf w' l (if ev \<in> set xs then xs else ev # xs)
    \<and> (\<forall>l' ys. l' \<noteq> l \<longrightarrow> pending_wf w l' ys \<longrightarrow> pending_wf w' l' ys)"
proof (cases "pending (event_of w ev)")
  case True
  then have "ev \<in> set xs" using assms by (auto simp: pending_wf_def)
  then show ?thesis
    using assms True event_pending_run [of ev w] by auto
next
  case False
  then have "ev \<notin> set xs" using assms by (auto simp: pending_wf_def)
  then show ?thesis
    using assms False event_pending_run [of ev w] pushed_wf pushed_wf_other by auto
qed


definition events_world :: world where
  "events_world = world0\<lparr>uevents := (\<lambda>p. zero_event\<lparr>ev_loop := if p = 7 then 1 else 2\<rparr>)\<rparr>"

lemma events_world_wf: "pending_wf events_world 1 []"
  by (auto simp: pending_wf_def events_world_def event_of_def zero_loop_def zero_event_def zero_io_def
      zero_timer_def event_st.defs split: event_ref.split)

lemma event_pending_correct_witness:
  "\<exists>w'. event_pending (Ev_user 7) events_world = Inr ((), w')
    \<and> pending_wf w' 1 (if Ev_user 7 \<in> set [] then [] else Ev_user 7 # [])
    \<and> (\<forall>l' ys. l' \<noteq> 1 \<longrightarrow> pending_wf events_world l' ys \<longrightarrow> pending_wf w' l' ys)"
  by (rule event_pending_correct [OF events_world_wf])
    (simp_all add: events_world_def event_of_def zero_event_def)

end
