(* ===== verification/Dispatcher.thy ===== *)
theory Dispatcher
  imports Events
begin

section \<open>The dispatchers: src/dispatcher/select.c, poll.c, epoll.c\<close>

text \<open>
  Each dispatcher keeps which events of which descriptors the loop waits for, and its run
  schedules the ios that are ready. The operations are reached through \<open>loop->disp\<close>; here the
  constructor of \<open>disp_data\<close> selects them. The result of \<open>epoll_ctl\<close>, \<open>epoll_wait\<close>, \<open>poll\<close> and
  \<open>select\<close> is the answer of the system.
\<close>

definition FD_SETSIZE :: int where
  "FD_SETSIZE = 1024"

definition upd_disp :: "ptr \<Rightarrow> disp_data \<Rightarrow> unit m" where
  "upd_disp l d = upd_loop l (disp_data_update (\<lambda>_. d))"

subsection \<open>Scheduling a ready descriptor\<close>

text \<open>\<open>io_array[fd]\<close>, then \<open>revents\<close> and \<open>event_pending\<close>, as the epoll and poll loops do it.\<close>

definition io_array_at :: "ptr \<Rightarrow> int \<Rightarrow> (ptr \<Rightarrow> 'a m) \<Rightarrow> 'a m" where
  "io_array_at l n f = with_loop l (\<lambda>s.
     if 0 \<le> n \<and> nat n < length (io_array s) then f (io_array s ! nat n) else failM Out_of_bounds)"

definition schedule_fd :: "ptr \<Rightarrow> int \<Rightarrow> u32 \<Rightarrow> unit m" where
  "schedule_fd l n rev_mask =
     whenM (rev_mask \<noteq> 0) (io_array_at l n (\<lambda>io.
       whenM (io \<noteq> NULL) (runs [
         upd_io io (revents_update (\<lambda>_. rev_mask)),
         event_pending (Ev_io io)])))"

subsection \<open>select\<close>

definition fd_isset :: "int \<Rightarrow> bool list \<Rightarrow> bool" where
  "fd_isset n s = s ! nat n"

definition fd_put :: "int \<Rightarrow> bool \<Rightarrow> bool list \<Rightarrow> bool list" where
  "fd_put n b s = s[nat n := b]"

definition in_fdset :: "int \<Rightarrow> bool" where
  "in_fdset n \<longleftrightarrow> 0 \<le> n \<and> n < FD_SETSIZE"

text \<open>The state that \<open>select_init\<close> sets up, and the function, whose memory may be missing.\<close>

definition select_new :: select_dispatcher_st where
  "select_new = \<lparr>max_fd = -1, read_fds = replicate 1024 False, write_fds = replicate 1024 False\<rparr>"

definition select_init :: "env \<Rightarrow> disp_data m" where
  "select_init E = bindM (malloc E) (\<lambda>d. if d = NULL then retM Disp_null else retM (Disp_select select_new))"

definition select_add :: "select_dispatcher_st \<Rightarrow> int \<Rightarrow> u32 \<Rightarrow> fault + int \<times> select_dispatcher_st" where
  "select_add disp n event =
     (if n \<ge> FD_SETSIZE then Inr (-1, disp)
      else if \<not> in_fdset n \<and> event AND 3 \<noteq> 0 then Inl Out_of_bounds
      else
        let disp = (if event AND EVENT_READ \<noteq> 0 \<and> \<not> fd_isset n (read_fds disp)
                    then disp\<lparr>read_fds := fd_put n True (read_fds disp)\<rparr> else disp);
            disp = (if event AND EVENT_WRITE \<noteq> 0 \<and> \<not> fd_isset n (write_fds disp)
                    then disp\<lparr>write_fds := fd_put n True (write_fds disp)\<rparr> else disp);
            disp = (if n > max_fd disp then disp\<lparr>max_fd := n\<rparr> else disp)
        in Inr (0, disp))"

definition select_update :: "select_dispatcher_st \<Rightarrow> int \<Rightarrow> u32 \<Rightarrow> fault + int \<times> select_dispatcher_st" where
  "select_update disp n event = select_add disp n event"

definition select_del :: "select_dispatcher_st \<Rightarrow> int \<Rightarrow> u32 \<Rightarrow> fault + int \<times> select_dispatcher_st" where
  "select_del disp n event =
     (if \<not> in_fdset n \<and> event AND 3 \<noteq> 0 then Inl Out_of_bounds
      else
        let disp = (if event AND EVENT_READ \<noteq> 0
                    then disp\<lparr>read_fds := fd_put n False (read_fds disp)\<rparr> else disp);
            disp = (if event AND EVENT_WRITE \<noteq> 0
                    then disp\<lparr>write_fds := fd_put n False (write_fds disp)\<rparr> else disp)
        in Inr (0, disp))"

text \<open>
  The bitmaps that \<open>select\<close> returns are rebuilt from the ready list of the answer. The loop writes
  \<open>io->revents\<close> before it looks whether \<open>io\<close> is null.
\<close>

definition schedule_select :: "ptr \<Rightarrow> (int \<times> u32) list \<Rightarrow> int \<Rightarrow> unit m" where
  "schedule_select l rdy n =
     (let rev_mask = (if \<exists>e\<in>set rdy. fst e = n \<and> snd e AND EVENT_READ \<noteq> 0 then EVENT_READ else 0);
          rev_mask = (if \<exists>e\<in>set rdy. fst e = n \<and> snd e AND EVENT_WRITE \<noteq> 0 then rev_mask OR EVENT_WRITE else rev_mask)
      in whenM (rev_mask \<noteq> 0) (io_array_at l n (\<lambda>io. runs [
           upd_io io (revents_update (\<lambda>_. rev_mask)),
           whenM (io \<noteq> NULL) (event_pending (Ev_io io))])))"

definition select_call :: "select_dispatcher_st \<Rightarrow> int \<Rightarrow> sys_call" where
  "select_call disp timeo = Select (max_fd disp + 1) (read_fds disp) (write_fds disp) timeo"

definition select_run :: "env \<Rightarrow> ptr \<Rightarrow> select_dispatcher_st \<Rightarrow> int \<Rightarrow> int m" where
  "select_run E l disp timeo =
     bindM (syscall E (select_call disp timeo)) (\<lambda>r.
       if ret r < 0 then retM (-1)
       else if ret r = 0 then retM 0
       else run_then (map (schedule_select l (ready r)) (map int [0..<nat (max_fd disp + 1)])) (retM (ret r)))"

subsection \<open>poll\<close>

definition poll_init :: "env \<Rightarrow> disp_data m" where
  "poll_init E =
     bindM (malloc E) (\<lambda>d. if d = NULL then retM Disp_null else
     bindM (malloc E) (\<lambda>a. if a = NULL then retM Disp_null else
       retM (Disp_poll \<lparr>fds = [], fds_capacity = 1024\<rparr>)))"

definition poll_append :: "poll_dispatcher_st \<Rightarrow> int \<Rightarrow> u32 \<Rightarrow> poll_dispatcher_st" where
  "poll_append disp n event = disp\<lparr>fds := fds disp @ [\<lparr>pfd = n, pevents = event AND 3\<rparr>]\<rparr>"

definition poll_add :: "env \<Rightarrow> poll_dispatcher_st \<Rightarrow> int \<Rightarrow> u32 \<Rightarrow> (int \<times> poll_dispatcher_st) m" where
  "poll_add E disp n event =
     (if n < 0 then retM (-1, disp)
      else if length (fds disp) \<ge> fds_capacity disp
      then bindM (malloc E) (\<lambda>a.
        if a = NULL then retM (-1, disp)
        else retM (0, poll_append (disp\<lparr>fds_capacity := fds_capacity disp * 2\<rparr>) n event))
      else retM (0, poll_append disp n event))"

fun find_fd :: "int \<Rightarrow> pollfd list \<Rightarrow> nat option" where
  "find_fd n [] = None"
| "find_fd n (f # fs) = (if pfd f = n then Some 0 else map_option Suc (find_fd n fs))"

definition poll_update :: "poll_dispatcher_st \<Rightarrow> int \<Rightarrow> u32 \<Rightarrow> int \<times> poll_dispatcher_st" where
  "poll_update disp n event =
     (if n < 0 then (-1, disp)
      else case find_fd n (fds disp) of
        Some i \<Rightarrow> (0, disp\<lparr>fds := (fds disp)[i := \<lparr>pfd = n, pevents = event AND 3\<rparr>]\<rparr>)
      | None \<Rightarrow> (-1, disp))"

definition poll_del :: "poll_dispatcher_st \<Rightarrow> int \<Rightarrow> u32 \<Rightarrow> int \<times> poll_dispatcher_st" where
  "poll_del disp n event =
     (if n < 0 then (-1, disp)
      else case find_fd n (fds disp) of
        Some i \<Rightarrow>
          let count = length (fds disp);
              a = (if i < count - 1 then (fds disp)[i := fds disp ! (count - 1)] else fds disp)
          in (0, disp\<lparr>fds := take (count - 1) a\<rparr>)
      | None \<Rightarrow> (-1, disp))"

text \<open>The answer of \<open>poll\<close> lists index and returned events of the entries that are ready.\<close>

definition revents_at :: "(int \<times> u32) list \<Rightarrow> int \<Rightarrow> u32" where
  "revents_at rdy n = (case map_of rdy n of None \<Rightarrow> 0 | Some e \<Rightarrow> e)"

fun poll_scan :: "ptr \<Rightarrow> (int \<times> u32) list \<Rightarrow> pollfd list \<Rightarrow> int \<Rightarrow> int \<Rightarrow> unit m" where
  "poll_scan l rdy [] i nfds = skip"
| "poll_scan l rdy (f # fs) i nfds =
     (if nfds \<le> 0 then skip
      else if revents_at rdy i \<noteq> 0
      then runs [schedule_fd l (pfd f) (revents_at rdy i AND 3), poll_scan l rdy fs (i + 1) (nfds - 1)]
      else poll_scan l rdy fs (i + 1) nfds)"

definition poll_run :: "env \<Rightarrow> ptr \<Rightarrow> poll_dispatcher_st \<Rightarrow> int \<Rightarrow> int m" where
  "poll_run E l disp timeo =
     bindM (syscall E (Poll (fds disp) timeo)) (\<lambda>r.
       if ret r < 0 then (if err r \<noteq> EINTR then retM (-1) else retM 0)
       else bindM (poll_scan l (ready r) (fds disp) 0 (ret r)) (\<lambda>_. retM 0))"

subsection \<open>epoll\<close>

definition epoll_init :: "env \<Rightarrow> disp_data m" where
  "epoll_init E =
     bindM (malloc E) (\<lambda>d. if d = NULL then retM Disp_null else
     bindM (syscall E Epoll_create) (\<lambda>r.
       if ret r < 0 then retM Disp_null
       else bindM (malloc E) (\<lambda>a.
         if a = NULL then bindM (syscall E (Close (ret r))) (\<lambda>_. retM Disp_null)
         else retM (Disp_epoll \<lparr>epfd = ret r, events_capacity = 1024\<rparr>))))"

definition epoll_ctl :: "env \<Rightarrow> ctl_op \<Rightarrow> int \<Rightarrow> u32 \<Rightarrow> int m" where
  "epoll_ctl E operation n event =
     bindM (syscall E (Epoll_ctl operation n (event AND 3))) (\<lambda>r.
       retM (if ret r < 0 then -1 else 0))"

definition epoll_add :: "env \<Rightarrow> epoll_dispatcher_st \<Rightarrow> int \<Rightarrow> u32 \<Rightarrow> int m" where
  "epoll_add E disp n event = epoll_ctl E EPOLL_CTL_ADD n event"

definition epoll_update :: "env \<Rightarrow> epoll_dispatcher_st \<Rightarrow> int \<Rightarrow> u32 \<Rightarrow> int m" where
  "epoll_update E disp n event = epoll_ctl E EPOLL_CTL_MOD n event"

definition epoll_del :: "env \<Rightarrow> epoll_dispatcher_st \<Rightarrow> int \<Rightarrow> u32 \<Rightarrow> int m" where
  "epoll_del E disp n event = epoll_ctl E EPOLL_CTL_DEL n 0"

text \<open>The event array is doubled when a wait fills four fifths of it.\<close>

definition epoll_run :: "env \<Rightarrow> ptr \<Rightarrow> epoll_dispatcher_st \<Rightarrow> int \<Rightarrow> int m" where
  "epoll_run E l disp timeo =
     bindM (syscall E (Epoll_wait (events_capacity disp) timeo)) (\<lambda>r.
       if ret r < 0 then (if err r \<noteq> EINTR then retM (-1) else retM 0)
       else if ret r = 0 then retM 0
       else bindM
         (if 10 * ret r \<ge> 8 * int (events_capacity disp)
          then bindM (malloc E) (\<lambda>a. whenM (a \<noteq> NULL)
            (upd_disp l (Disp_epoll (disp\<lparr>events_capacity := events_capacity disp * 2\<rparr>))))
          else skip)
         (\<lambda>_. run_then
            (map (\<lambda>(n, ev). schedule_fd l n (ev AND 3)) (take (nat (ret r)) (ready r)))
            (retM (ret r))))"

subsection \<open>The operations behind loop->disp\<close>

definition disp_add :: "env \<Rightarrow> ptr \<Rightarrow> int \<Rightarrow> u32 \<Rightarrow> int m" where
  "disp_add E l n event = with_loop l (\<lambda>s.
     case disp_data s of
       Disp_select d \<Rightarrow> (case select_add d n event of
           Inl f \<Rightarrow> failM f | Inr (r, d') \<Rightarrow> bindM (upd_disp l (Disp_select d')) (\<lambda>_. retM r))
     | Disp_poll d \<Rightarrow> bindM (poll_add E d n event)
           (\<lambda>(r, d'). bindM (upd_disp l (Disp_poll d')) (\<lambda>_. retM r))
     | Disp_epoll d \<Rightarrow> epoll_add E d n event
     | Disp_null \<Rightarrow> retM (-1))"

definition disp_del :: "env \<Rightarrow> ptr \<Rightarrow> int \<Rightarrow> u32 \<Rightarrow> int m" where
  "disp_del E l n event = with_loop l (\<lambda>s.
     case disp_data s of
       Disp_select d \<Rightarrow> (case select_del d n event of
           Inl f \<Rightarrow> failM f | Inr (r, d') \<Rightarrow> bindM (upd_disp l (Disp_select d')) (\<lambda>_. retM r))
     | Disp_poll d \<Rightarrow> (let (r, d') = poll_del d n event
           in bindM (upd_disp l (Disp_poll d')) (\<lambda>_. retM r))
     | Disp_epoll d \<Rightarrow> epoll_del E d n event
     | Disp_null \<Rightarrow> retM (-1))"

definition disp_run :: "env \<Rightarrow> ptr \<Rightarrow> int \<Rightarrow> int m" where
  "disp_run E l timeo = with_loop l (\<lambda>s.
     case disp_data s of
       Disp_select d \<Rightarrow> select_run E l d timeo
     | Disp_poll d \<Rightarrow> poll_run E l d timeo
     | Disp_epoll d \<Rightarrow> epoll_run E l d timeo
     | Disp_null \<Rightarrow> retM (-1))"


subsection \<open>What the loop waits for\<close>

text \<open>
  \<open>interest d n\<close> is the event mask the dispatcher state \<open>d\<close> waits for on descriptor \<open>n\<close>. All
  dispatchers must leave other descriptors alone and wait for what is added to a descriptor that
  was not registered. An incremental dispatcher moreover adds to and removes from the mask of a
  descriptor, which is how io.c calls it.
\<close>

locale dispatcher =
  fixes add :: "'d \<Rightarrow> int \<Rightarrow> u32 \<Rightarrow> 'd"
    and del :: "'d \<Rightarrow> int \<Rightarrow> u32 \<Rightarrow> 'd"
    and interest :: "'d \<Rightarrow> int \<Rightarrow> u32"
    and ok :: "'d \<Rightarrow> bool"
    and fd_ok :: "int \<Rightarrow> bool"
  assumes add_ok: "ok d \<Longrightarrow> fd_ok n \<Longrightarrow> ok (add d n e)"
    and del_ok: "ok d \<Longrightarrow> fd_ok n \<Longrightarrow> ok (del d n e)"
    and add_other: "ok d \<Longrightarrow> fd_ok n \<Longrightarrow> n' \<noteq> n \<Longrightarrow> interest (add d n e) n' = interest d n'"
    and del_other: "ok d \<Longrightarrow> fd_ok n \<Longrightarrow> n' \<noteq> n \<Longrightarrow> interest (del d n e) n' = interest d n'"
    and add_fresh: "ok d \<Longrightarrow> fd_ok n \<Longrightarrow> interest d n = 0 \<Longrightarrow> interest (add d n e) n = e AND 3"
begin

fun apply_op :: "'d \<Rightarrow> bool \<times> int \<times> u32 \<Rightarrow> 'd" where
  "apply_op d (True, n, e) = add d n e"
| "apply_op d (False, n, e) = del d n e"

lemma apply_op_ok: "ok d \<Longrightarrow> fd_ok (fst (snd q)) \<Longrightarrow> ok (apply_op d q)"
  by (cases "(d, q)" rule: apply_op.cases) (simp_all add: add_ok del_ok)

lemma apply_op_other:
  "ok d \<Longrightarrow> fd_ok (fst (snd q)) \<Longrightarrow> fst (snd q) \<noteq> n \<Longrightarrow> interest (apply_op d q) n = interest d n"
  by (cases "(d, q)" rule: apply_op.cases) (simp_all add: add_other del_other)

text \<open>Traffic on other descriptors never changes what is waited for on one.\<close>

lemma others_keep:
  "ok d \<Longrightarrow> \<forall>q\<in>set qs. fd_ok (fst (snd q)) \<and> fst (snd q) \<noteq> n \<Longrightarrow>
   interest (fold (\<lambda>q d. apply_op d q) qs d) n = interest d n"
  by (induction qs arbitrary: d) (simp_all add: apply_op_ok apply_op_other)

end

locale incremental_dispatcher = dispatcher +
  assumes add_union: "ok d \<Longrightarrow> fd_ok n \<Longrightarrow> interest (add d n e) n = interest d n OR (e AND 3)"
    and del_minus: "ok d \<Longrightarrow> fd_ok n \<Longrightarrow> interest (del d n e) n = interest d n AND NOT e"
begin

text \<open>The mask that io.c keeps in \<open>io->events\<close> under the same calls.\<close>

fun io_mask :: "u32 \<Rightarrow> int \<Rightarrow> bool \<times> int \<times> u32 \<Rightarrow> u32" where
  "io_mask m n (True, n', e) = (if n' = n then m OR (e AND 3) else m)"
| "io_mask m n (False, n', e) = (if n' = n then m AND NOT e else m)"

lemma mirrors_io_mask:
  "ok d \<Longrightarrow> \<forall>q\<in>set qs. fd_ok (fst (snd q)) \<Longrightarrow> fd_ok n \<Longrightarrow>
   interest (fold (\<lambda>q d. apply_op d q) qs d) n = fold (\<lambda>q m. io_mask m n q) qs (interest d n)"
proof (induction qs arbitrary: d)
  case (Cons q qs)
  have "interest (apply_op d q) n = io_mask (interest d n) n q"
    using Cons.prems
    by (cases "(d, q)" rule: apply_op.cases) (simp_all add: add_union del_minus add_other del_other)
  then show ?case using Cons by (simp add: apply_op_ok)
qed simp

end

subsection \<open>select is incremental\<close>

definition select_ok :: "select_dispatcher_st \<Rightarrow> bool" where
  "select_ok d \<longleftrightarrow> length (read_fds d) = 1024 \<and> length (write_fds d) = 1024
     \<and> (\<forall>n. 0 \<le> n \<and> n < 1024 \<and> (fd_isset n (read_fds d) \<or> fd_isset n (write_fds d)) \<longrightarrow> n \<le> max_fd d)"

text \<open>What a call of \<open>select\<close> waits for: the bits of the two bitmaps for the descriptors below its first
  argument.\<close>

definition select_waits :: "sys_call \<Rightarrow> int \<Rightarrow> u32" where
  "select_waits c n = (case c of
       Select nfds r w timeo \<Rightarrow>
         if in_fdset n \<and> n < nfds
         then (if fd_isset n r then EVENT_READ else 0) OR (if fd_isset n w then EVENT_WRITE else 0)
         else 0
     | _ \<Rightarrow> 0)"

definition select_interest :: "select_dispatcher_st \<Rightarrow> int \<Rightarrow> u32" where
  "select_interest d n = select_waits (select_call d 0) n"

lemma select_call_interest: "select_waits (select_call d timeo) n = select_interest d n"
  by (simp add: select_interest_def select_waits_def select_call_def)

definition state_of :: "'d \<Rightarrow> fault + int \<times> 'd \<Rightarrow> 'd" where
  "state_of d r = (case r of Inl _ \<Rightarrow> d | Inr (_, d') \<Rightarrow> d')"

lemma fd_isset_put [simp]:
  "in_fdset n \<Longrightarrow> 0 \<le> n' \<Longrightarrow> length s = 1024 \<Longrightarrow> fd_isset n' (fd_put n b s) = (if n' = n then b else fd_isset n' s)"
  by (auto simp: fd_isset_def fd_put_def in_fdset_def FD_SETSIZE_def nth_list_update)

lemma length_fd_put [simp]: "length (fd_put n b s) = length s"
  by (simp add: fd_put_def)

lemma and_bit_zero: "(e :: u32) AND 2 ^ n = 0 \<longleftrightarrow> \<not> bit e n"
  using bit_iff_and_push_bit_not_eq_0 [of e n] by (simp add: push_bit_eq_mult)

lemma mask_tests [simp]:
  "(e :: u32) AND 1 = 0 \<longleftrightarrow> \<not> bit e 0" "(e :: u32) AND 2 = 0 \<longleftrightarrow> \<not> bit e 1"
  using and_bit_zero [of e 0] and_bit_zero [of e 1] by simp_all

lemma small_mask_bits [simp]:
  "bit (1 :: u32) k \<longleftrightarrow> k = 0" "bit (2 :: u32) k \<longleftrightarrow> k = 1" "bit (3 :: u32) k \<longleftrightarrow> k = 0 \<or> k = 1"
proof -
  have "(2 :: u32) = push_bit 1 1" "(3 :: u32) = 1 OR push_bit 1 1" by simp_all
  then show "bit (1 :: u32) k \<longleftrightarrow> k = 0" "bit (2 :: u32) k \<longleftrightarrow> k = 1" "bit (3 :: u32) k \<longleftrightarrow> k = 0 \<or> k = 1"
    by (auto simp only: bit_or_iff bit_push_bit_iff bit_1_iff) auto
qed

declare bit_numeral_word_iff [simp del]

lemma bit_select_interest:
  assumes "select_ok d"
  shows "bit (select_interest d n) k \<longleftrightarrow> in_fdset n \<and>
     (k = 0 \<and> fd_isset n (read_fds d) \<or> k = 1 \<and> fd_isset n (write_fds d))"
  using assms by (auto simp: select_interest_def select_waits_def select_call_def bit_or_iff select_ok_def in_fdset_def FD_SETSIZE_def)

lemma fd_put_same: "fd_isset n s \<Longrightarrow> fd_put n True s = s"
  unfolding fd_isset_def fd_put_def by (metis list_update_id)

lemma select_add_closed:
  assumes "in_fdset n"
  shows "select_add d n e = Inr (0, d\<lparr>
    read_fds := (if bit e 0 then fd_put n True (read_fds d) else read_fds d),
    write_fds := (if bit e 1 then fd_put n True (write_fds d) else write_fds d),
    max_fd := max n (max_fd d)\<rparr>)"
proof -
  have "\<not> n \<ge> FD_SETSIZE" using assms by (simp add: in_fdset_def)
  then show ?thesis
    using assms by (simp add: select_add_def Let_def fd_put_same)
qed

lemma select_add_run:
  assumes "in_fdset n" "select_ok d"
  shows "\<exists>d'. select_add d n e = Inr (0, d') \<and> select_ok d' \<and>
    (\<forall>n'\<ge>0. fd_isset n' (read_fds d') = (fd_isset n' (read_fds d) \<or> n' = n \<and> bit e 0)) \<and>
    (\<forall>n'\<ge>0. fd_isset n' (write_fds d') = (fd_isset n' (write_fds d) \<or> n' = n \<and> bit e 1))"
  using assms
  by (simp add: select_add_closed select_ok_def if_distrib [of length] if_distrib [of "fd_isset _"] if_distribR
      cong: if_cong) (auto simp: le_max_iff_disj)

lemma select_del_run:
  assumes "in_fdset n" "select_ok d"
  shows "\<exists>d'. select_del d n e = Inr (0, d') \<and> select_ok d' \<and>
    (\<forall>n'\<ge>0. fd_isset n' (read_fds d') = (fd_isset n' (read_fds d) \<and> \<not> (n' = n \<and> bit e 0))) \<and>
    (\<forall>n'\<ge>0. fd_isset n' (write_fds d') = (fd_isset n' (write_fds d) \<and> \<not> (n' = n \<and> bit e 1)))"
  using assms by (auto simp: select_del_def Let_def select_ok_def split: if_splits)

interpretation sel: incremental_dispatcher
  "\<lambda>d n e. state_of d (select_add d n e)" "\<lambda>d n e. state_of d (select_del d n e)"
  select_interest select_ok in_fdset
proof (unfold_locales, goal_cases)
  case (1 d n e)
  then show ?case using select_add_run [of n d e] by (auto simp: state_of_def)
next
  case (2 d n e)
  then show ?case using select_del_run [of n d e] by (auto simp: state_of_def)
next
  case (3 d n n' e)
  then show ?case using select_add_run [of n d e]
    by (intro bit_word_eqI) (auto simp: state_of_def bit_select_interest in_fdset_def)
next
  case (4 d n n' e)
  then show ?case using select_del_run [of n d e]
    by (intro bit_word_eqI) (auto simp: state_of_def bit_select_interest in_fdset_def)
next
  case (5 d n e)
  then have "\<not> bit (select_interest d n) 0" "\<not> bit (select_interest d n) 1" by simp_all
  then have "\<not> fd_isset n (read_fds d)" "\<not> fd_isset n (write_fds d)"
    using 5(1,2) by (auto simp: bit_select_interest)
  then show ?case using 5 select_add_run [of n d e]
    by (intro bit_word_eqI) (auto simp: state_of_def bit_select_interest in_fdset_def bit_and_iff)
next
  case (6 d n e)
  then show ?case using select_add_run [of n d e]
    by (intro bit_word_eqI) (auto simp: state_of_def bit_select_interest in_fdset_def bit_and_iff bit_or_iff)
next
  case (7 d n e)
  then show ?case using select_del_run [of n d e]
    by (intro bit_word_eqI) (auto simp: state_of_def bit_select_interest in_fdset_def bit_and_iff bit_not_iff)
qed

subsection \<open>poll\<close>

definition poll_interest :: "poll_dispatcher_st \<Rightarrow> int \<Rightarrow> u32" where
  "poll_interest d n = foldr (\<lambda>f m. if pfd f = n then pevents f OR m else m) (fds d) 0"

lemma bit_poll_interest:
  "bit (poll_interest d n) k \<longleftrightarrow> (\<exists>f\<in>set (fds d). pfd f = n \<and> bit (pevents f) k)"
proof -
  have "bit (foldr (\<lambda>f m. if pfd f = n then pevents f OR m else m) fs (0 :: u32)) k
      \<longleftrightarrow> (\<exists>f\<in>set fs. pfd f = n \<and> bit (pevents f) k)" for fs
    by (induction fs) (auto simp: bit_or_iff)
  then show ?thesis by (simp add: poll_interest_def)
qed

lemma find_fd_Some: "find_fd n fs = Some i \<Longrightarrow> i < length fs \<and> pfd (fs ! i) = n"
  by (induction n fs arbitrary: i rule: find_fd.induct) (auto split: if_splits)

lemma find_fd_None: "find_fd n fs = None \<longleftrightarrow> (\<forall>f\<in>set fs. pfd f \<noteq> n)"
  by (induction n fs rule: find_fd.induct) auto

text \<open>Moving the last entry into the hole removes exactly the entry found.\<close>

lemma mset_remove_swap_last:
  assumes "i < length xs"
  shows "mset (take (length xs - 1) (if i < length xs - 1 then xs[i := xs ! (length xs - 1)] else xs))
    = mset xs - {#xs ! i#}"
proof -
  obtain ys z where xs: "xs = ys @ [z]" using assms by (cases xs rule: rev_cases) auto
  show ?thesis
  proof (cases "i < length ys")
    case True
    then have "ys ! i \<in># mset ys" by simp
    then show ?thesis
      using True by (simp add: xs nth_append list_update_append mset_update)
  next
    case False
    then have "i = length ys" using assms xs by simp
    then show ?thesis by (simp add: xs)
  qed
qed

lemma poll_del_fds:
  assumes "0 \<le> n" "find_fd n (fds d) = Some i"
  shows "fst (poll_del d n e) = 0 \<and> mset (fds (snd (poll_del d n e))) = mset (fds d) - {#fds d ! i#}"
  using assms mset_remove_swap_last [of i "fds d"] find_fd_Some [OF assms(2)]
  by (simp add: poll_del_def Let_def)

lemma poll_del_other_entries:
  assumes "0 \<le> n" "n' \<noteq> n"
  shows "pfd f = n' \<Longrightarrow> f \<in> set (fds (snd (poll_del d n e))) \<longleftrightarrow> f \<in> set (fds d)"
proof (cases "find_fd n (fds d)")
  case None
  then show ?thesis using assms by (simp add: poll_del_def)
next
  case (Some i)
  assume f: "pfd f = n'"
  have "pfd (fds d ! i) = n" using find_fd_Some [OF Some] by simp
  then have "fds d ! i \<noteq> f" using f assms(2) by auto
  moreover have "set (fds (snd (poll_del d n e))) = set_mset (mset (fds d) - {#fds d ! i#})"
    using poll_del_fds [OF assms(1) Some, of e] by (metis set_mset_mset)
  ultimately show ?thesis by (simp add: in_diff_count)
qed

lemma poll_interest_del_other:
  "0 \<le> n \<Longrightarrow> n' \<noteq> n \<Longrightarrow> poll_interest (snd (poll_del d n e)) n' = poll_interest d n'"
  using poll_del_other_entries [of n n' _ d e] by (intro bit_word_eqI) (auto simp: bit_poll_interest)

lemma poll_interest_append:
  "poll_interest (poll_append d n e) n' = (if n' = n then poll_interest d n OR (e AND 3) else poll_interest d n')"
  by (intro bit_word_eqI) (auto simp: bit_poll_interest poll_append_def bit_or_iff)

interpretation pol: dispatcher poll_append "\<lambda>d n e. snd (poll_del d n e)" poll_interest
  "\<lambda>_. True" "\<lambda>n. 0 \<le> n"
  by unfold_locales (simp_all add: poll_interest_del_other poll_interest_append)

subsection \<open>epoll\<close>

text \<open>
  What the kernel's interest list holds after a history: each successful \<open>epoll_ctl\<close> call has the
  effect its manual page describes. The one fact about the kernel that is used below is that
  adding a registered descriptor is refused.
\<close>

fun ctl_effect :: "act \<Rightarrow> (int \<Rightarrow> u32 option) \<Rightarrow> (int \<Rightarrow> u32 option)" where
  "ctl_effect (Sys (Epoll_ctl EPOLL_CTL_DEL n e) r) t = (if ret r < 0 then t else t(n := None))"
| "ctl_effect (Sys (Epoll_ctl oper n e) r) t = (if ret r < 0 then t else t(n := Some e))"
| "ctl_effect a t = t"

definition kernel_interest :: "act list \<Rightarrow> int \<Rightarrow> u32 option" where
  "kernel_interest h = fold ctl_effect h (\<lambda>_. None)"

definition epoll_refuses_again :: "env \<Rightarrow> bool" where
  "epoll_refuses_again E \<longleftrightarrow>
     (\<forall>h n e. kernel_interest h n \<noteq> None \<longrightarrow> ret (os E h (Epoll_ctl EPOLL_CTL_ADD n e)) < 0)"

lemma kernel_interest_snoc: "kernel_interest (h @ [a]) = ctl_effect a (kernel_interest h)"
  by (simp add: kernel_interest_def)

lemma disp_add_epoll:
  assumes "l \<noteq> NULL" "disp_data (loops w l) = Disp_epoll d"
  shows "disp_add E l n event w =
    (let r = os E (trace w) (Epoll_ctl EPOLL_CTL_ADD n (event AND 3))
     in Inr (if ret r < 0 then -1 else 0, w\<lparr>trace := trace w @ [Sys (Epoll_ctl EPOLL_CTL_ADD n (event AND 3)) r]\<rparr>))"
  using assms by (simp add: disp_add_def epoll_add_def epoll_ctl_def Let_def)

lemma disp_del_epoll:
  assumes "l \<noteq> NULL" "disp_data (loops w l) = Disp_epoll d"
  shows "disp_del E l n event w =
    (let r = os E (trace w) (Epoll_ctl EPOLL_CTL_DEL n 0)
     in Inr (if ret r < 0 then -1 else 0, w\<lparr>trace := trace w @ [Sys (Epoll_ctl EPOLL_CTL_DEL n 0) r]\<rparr>))"
  using assms by (simp add: disp_del_def epoll_del_def epoll_ctl_def Let_def)

subsection \<open>Properties\<close>

text \<open>A history of calls through \<open>loop->disp\<close>: added or removed, descriptor, event.\<close>

fun select_step :: "bool \<times> int \<times> u32 \<Rightarrow> select_dispatcher_st \<Rightarrow> select_dispatcher_st" where
  "select_step (True, n, e) d = state_of d (select_add d n e)"
| "select_step (False, n, e) d = state_of d (select_del d n e)"

fun mask_step :: "int \<Rightarrow> bool \<times> int \<times> u32 \<Rightarrow> u32 \<Rightarrow> u32" where
  "mask_step n (True, n', e) m = (if n' = n then m OR (e AND 3) else m)"
| "mask_step n (False, n', e) m = (if n' = n then m AND NOT e else m)"

fun poll_step :: "bool \<times> int \<times> u32 \<Rightarrow> poll_dispatcher_st \<Rightarrow> poll_dispatcher_st" where
  "poll_step (True, n, e) d = poll_append d n e"
| "poll_step (False, n, e) d = snd (poll_del d n e)"

lemma select_step_apply: "select_step = (\<lambda>q d. sel.apply_op d q)"
proof (intro ext)
  fix q d show "select_step q d = sel.apply_op d q" by (cases "(q, d)" rule: select_step.cases) simp_all
qed

lemma mask_step_apply: "mask_step n = (\<lambda>q m. sel.io_mask m n q)"
proof (intro ext)
  fix q m show "mask_step n q m = sel.io_mask m n q" by (cases "(n, q, m)" rule: mask_step.cases) simp_all
qed

lemma poll_step_apply: "poll_step = (\<lambda>q d. pol.apply_op d q)"
proof (intro ext)
  fix q d show "poll_step q d = pol.apply_op d q" by (cases "(q, d)" rule: poll_step.cases) simp_all
qed

lemma select_new_ok: "select_ok select_new" "select_interest select_new n = 0"
  by (simp_all add: select_ok_def select_new_def fd_isset_def select_interest_def select_waits_def select_call_def in_fdset_def)

text \<open>C28: select keeps exact masks. After any sequence of adds and removals, on any descriptors
  within the limit, the call of \<open>select\<close> that \<open>select_run\<close> makes waits on each descriptor for exactly
  the events that the same calls leave in a per-descriptor mask: added by or, removed by and-not. So
  each descriptor with an event is below the number that the call is given.\<close>

theorem select_mirrors_masks:
  assumes "\<forall>q\<in>set qs. in_fdset (fst (snd q))" "in_fdset n"
  shows "select_waits (select_call (fold select_step qs select_new) timeo) n = fold (mask_step n) qs 0"
  using sel.mirrors_io_mask [OF select_new_ok(1) assms] unfolding select_step_apply mask_step_apply
  by (simp add: select_call_interest select_new_ok(2))

lemma select_mirrors_masks_witness:
  "select_waits (select_call (fold select_step [(True, 5, 1), (True, 5, 2), (False, 5, 1)] select_new) 100) 5 = EVENT_WRITE"
  using select_mirrors_masks [of "[(True, 5, 1), (True, 5, 2), (False, 5, 1)]" 5 100] by (simp add: in_fdset_def FD_SETSIZE_def)

text \<open>Poll keeps descriptors apart. Adds and removals on other descriptors never change what
  poll waits for on one, although removal moves the last entry of the array into the hole.\<close>

theorem poll_keeps_others:
  assumes "\<forall>q\<in>set qs. 0 \<le> fst (snd q) \<and> fst (snd q) \<noteq> n"
  shows "poll_interest (fold poll_step qs d) n = poll_interest d n"
  unfolding poll_step_apply by (rule pol.others_keep) (use assms in auto)

lemma poll_keeps_others_witness:
  "poll_interest (fold poll_step [(True, 5, 1), (True, 6, 2), (False, 5, 1)] \<lparr>fds = [\<lparr>pfd = 4, pevents = 1\<rparr>], fds_capacity = 8\<rparr>) 4
   = poll_interest \<lparr>fds = [\<lparr>pfd = 4, pevents = 1\<rparr>], fds_capacity = 8\<rparr> 4"
  by (rule poll_keeps_others) auto

text \<open>Poll removes the wrong event. When a descriptor is added for reading and then for writing,
  removing the write event takes away the entry for reading: poll goes on waiting for writability
  and no longer for data.\<close>

theorem poll_del_wrong_event:
  assumes "0 \<le> n" "\<forall>f\<in>set (fds d). pfd f \<noteq> n"
  shows "poll_interest (snd (poll_del (poll_append (poll_append d n EVENT_READ) n EVENT_WRITE) n EVENT_WRITE)) n
    = EVENT_WRITE"
proof -
  let ?d = "poll_append (poll_append d n EVENT_READ) n EVENT_WRITE"
  have one: "(1 :: u32) AND 3 = 1" "(2 :: u32) AND 3 = 2" by simp_all
  have "find_fd n (fs @ [\<lparr>pfd = n, pevents = 1\<rparr>, \<lparr>pfd = n, pevents = 2\<rparr>]) = Some (length fs)"
    if "\<forall>f\<in>set fs. pfd f \<noteq> n" for fs
    using that by (induction fs) auto
  then have "find_fd n (fds ?d) = Some (length (fds d))"
    using assms(2) by (simp add: poll_append_def one)
  then have "snd (poll_del ?d n EVENT_WRITE) = d\<lparr>fds := fds d @ [\<lparr>pfd = n, pevents = 2\<rparr>]\<rparr>"
    using assms(1) by (simp add: poll_del_def Let_def poll_append_def one nth_append list_update_append)
  then show ?thesis
    using assms(2) by (intro bit_word_eqI) (auto simp: bit_poll_interest)
qed

lemma poll_del_wrong_event_witness:
  "poll_interest (snd (poll_del (poll_append (poll_append \<lparr>fds = [], fds_capacity = 8\<rparr> 4 EVENT_READ) 4 EVENT_WRITE) 4 EVENT_WRITE)) 4
    = EVENT_WRITE"
  by (rule poll_del_wrong_event) auto

text \<open>epoll loses the second event. On a kernel that refuses to add a registered descriptor,
  adding a further event to a registered descriptor fails and the kernel goes on waiting for the
  old events only.\<close>

theorem epoll_add_registered_lost:
  assumes "epoll_refuses_again E" "l \<noteq> NULL" "disp_data (loops w l) = Disp_epoll d"
    and "kernel_interest (trace w) n = Some m"
  shows "\<exists>w'. disp_add E l n event w = Inr (-1, w') \<and> kernel_interest (trace w') n = Some m"
proof -
  have "ret (os E (trace w) (Epoll_ctl EPOLL_CTL_ADD n (event AND 3))) < 0"
    using assms(1,4) by (auto simp: epoll_refuses_again_def)
  then show ?thesis
    using assms by (simp add: disp_add_epoll Let_def kernel_interest_snoc)
qed


definition kernel_example :: env where
  "kernel_example = \<lparr>
     os = (\<lambda>h c. \<lparr>ret = (case c of Epoll_ctl EPOLL_CTL_ADD n e \<Rightarrow> if kernel_interest h n = None then 0 else -1
                  | _ \<Rightarrow> 0), err = EEXIST, bytes = [], ready = [], tv_sec = 0, tv_usec = 0\<rparr>),
     user = (\<lambda>_ w. Inr ((), w))\<rparr>"

lemma kernel_example_refuses: "epoll_refuses_again kernel_example"
  by (simp add: epoll_refuses_again_def kernel_example_def)

definition registered_world :: world where
  "registered_world = world0\<lparr>
     loops := (\<lambda>_. zero_loop\<lparr>disp_data := Disp_epoll \<lparr>epfd = 3, events_capacity = 1024\<rparr>\<rparr>),
     trace := [Sys (Epoll_ctl EPOLL_CTL_ADD 5 1) (os kernel_example [] Socket)]\<rparr>"

lemma epoll_add_registered_lost_witness:
  "\<exists>w'. disp_add kernel_example 1 5 EVENT_WRITE registered_world = Inr (-1, w')
     \<and> kernel_interest (trace w') 5 = Some 1"
  by (rule epoll_add_registered_lost [OF kernel_example_refuses, where d = "\<lparr>epfd = 3, events_capacity = 1024\<rparr>"])
    (simp_all add: registered_world_def kernel_interest_def kernel_example_def)

end
