(* ===== verification/Timers.thy ===== *)
theory Timers
  imports Dispatcher
begin

section \<open>Timers: add_timer, reset_timer, del_timer of src/event_loop.c and the timeouts of src/io.c\<close>

text \<open>
  A loop keeps its timers in the array heap of heap.h; the node of a timer stands for the timer,
  and the compare function reads \<open>next_timeout\<close> of the timers in the store. Times are 64-bit
  milliseconds and wrap. \<open>malloc\<close> returns addresses never used before, so a timer that was freed
  keeps its last contents in the store; the compare function, unlike the operations on a timer,
  does not check for freed memory.
\<close>

definition timer_key :: "world \<Rightarrow> ptr \<Rightarrow> u64" where
  "timer_key w t = next_timeout (tms w t)"

definition timers_compare :: "world \<Rightarrow> ptr \<Rightarrow> ptr \<Rightarrow> bool" where
  "timers_compare w lhs rhs \<longleftrightarrow> next_timeout (tms w lhs) < next_timeout (tms w rhs)"

text \<open>An operation on the loop's heap under the current keys.\<close>

definition on_heap :: "ptr \<Rightarrow> ((ptr \<Rightarrow> ptr \<Rightarrow> bool) \<Rightarrow> heap_st \<Rightarrow> heap_st) \<Rightarrow> unit m" where
  "on_heap l f = readM (\<lambda>w. upd_loop l (\<lambda>s. s\<lparr>timers := f (timers_compare w) (timers s)\<rparr>))"

definition update_loop_timer :: "env \<Rightarrow> ptr \<Rightarrow> unit m" where
  "update_loop_timer E l = bindM (get_curtime_ms E) (\<lambda>t. upd_loop l (cur_ms_update (\<lambda>_. t)))"

definition add_timer :: "env \<Rightarrow> ptr \<Rightarrow> int \<Rightarrow> callback \<Rightarrow> u32 \<Rightarrow> ptr m" where
  "add_timer E l timeo tcb rep =
     (if timeo = 0 then retM NULL
      else bindM (malloc E) (\<lambda>t.
        if t = NULL then retM NULL
        else run_then [
          modifyM (\<lambda>w. w\<lparr>tms := (tms w)(t := zero_timer)\<rparr>),
          update_loop_timer E l,
          upd_timer t (timeout_update (\<lambda>_. of_int timeo)),
          with_loop l (\<lambda>s. upd_timer t (next_timeout_update (\<lambda>_. cur_ms s + of_int timeo))),
          upd_timer t (cb_update (\<lambda>_. tcb)),
          upd_timer t (repeat_update (\<lambda>_. if rep = 0 then 1 else rep)),
          upd_timer t (ev_loop_update (\<lambda>_. l)),
          on_heap l (\<lambda>lt h. heap_insert lt h t),
          upd_loop l (\<lambda>s. s\<lparr>timers_num := timers_num s + 1\<rparr>)]
          (retM t)))"

definition del_timer :: "ptr \<Rightarrow> ptr \<Rightarrow> unit m" where
  "del_timer l t = runs [
     with_timer t (\<lambda>s. upd_loop (ev_loop s) (\<lambda>ls. ls\<lparr>timers_num := timers_num ls - 1\<rparr>)),
     on_heap l heap_pop]"

definition reset_timer :: "ptr \<Rightarrow> int \<Rightarrow> unit m" where
  "reset_timer t timeo = with_timer t (\<lambda>s. with_io (privdata s) (\<lambda>io. runs [
     (if \<not> destory s then on_heap (ev_loop io) heap_pop
      else upd_loop (ev_loop io) (\<lambda>ls. ls\<lparr>timers_num := timers_num ls + 1\<rparr>)),
     with_loop (ev_loop io) (\<lambda>ls. upd_timer t (next_timeout_update (\<lambda>_. cur_ms ls + of_int timeo))),
     on_heap (ev_loop io) (\<lambda>lt h. heap_insert lt h t),
     event_reset (Ev_timer t)]))"

subsection \<open>Timeouts of an io\<close>

definition io_remove_read_timeout :: "ptr \<Rightarrow> unit m" where
  "io_remove_read_timeout io = with_io io (\<lambda>s.
     whenM (read_timer s \<noteq> NULL) (runs [
       on_heap (ev_loop s) (\<lambda>lt h. heap_remove lt h (read_timer s)),
       upd_io io (read_timeout_update (\<lambda>_. 0)),
       upd_io io (read_timer_update (\<lambda>_. NULL))]))"

definition io_remove_write_timeout :: "ptr \<Rightarrow> unit m" where
  "io_remove_write_timeout io = with_io io (\<lambda>s.
     whenM (write_timer s \<noteq> NULL) (runs [
       on_heap (ev_loop s) (\<lambda>lt h. heap_remove lt h (write_timer s)),
       upd_io io (write_timeout_update (\<lambda>_. 0)),
       upd_io io (write_timer_update (\<lambda>_. NULL))]))"

definition io_remove_close_timeout :: "ptr \<Rightarrow> unit m" where
  "io_remove_close_timeout io = with_io io (\<lambda>s.
     whenM (close_timer s \<noteq> NULL) (runs [
       on_heap (ev_loop s) (\<lambda>lt h. heap_remove lt h (close_timer s)),
       upd_io io (close_timeout_update (\<lambda>_. 0)),
       upd_io io (close_timer_update (\<lambda>_. NULL))]))"

definition io_remove_connect_timeout :: "ptr \<Rightarrow> unit m" where
  "io_remove_connect_timeout io = with_io io (\<lambda>s.
     whenM (connect_timer s \<noteq> NULL) (runs [
       on_heap (ev_loop s) (\<lambda>lt h. heap_remove lt h (connect_timer s)),
       upd_io io (connect_timeout_update (\<lambda>_. 0)),
       upd_io io (connect_timer_update (\<lambda>_. NULL))]))"

definition io_set_read_timeout :: "env \<Rightarrow> ptr \<Rightarrow> int \<Rightarrow> unit m" where
  "io_set_read_timeout E io timeo =
     (if timeo < 0 then io_remove_read_timeout io
      else with_io io (\<lambda>s.
        if read_timer s \<noteq> NULL then reset_timer (read_timer s) timeo
        else runs [
          upd_io io (read_timeout_update (\<lambda>_. timeo)),
          bindM (add_timer E (ev_loop s) timeo Read_timeout_cb 1) (\<lambda>t. upd_io io (read_timer_update (\<lambda>_. t))),
          with_io io (\<lambda>s. upd_timer (read_timer s) (privdata_update (\<lambda>_. io)))]))"

definition io_set_write_timeout :: "env \<Rightarrow> ptr \<Rightarrow> int \<Rightarrow> unit m" where
  "io_set_write_timeout E io timeo =
     (if timeo < 0 then io_remove_write_timeout io
      else with_io io (\<lambda>s.
        if write_timer s \<noteq> NULL then reset_timer (write_timer s) timeo
        else runs [
          upd_io io (write_timeout_update (\<lambda>_. timeo)),
          bindM (add_timer E (ev_loop s) timeo Writer_timeout_cb 1) (\<lambda>t. upd_io io (write_timer_update (\<lambda>_. t))),
          with_io io (\<lambda>s. upd_timer (write_timer s) (privdata_update (\<lambda>_. io)))]))"

definition io_set_close_timeout :: "env \<Rightarrow> ptr \<Rightarrow> int \<Rightarrow> unit m" where
  "io_set_close_timeout E io timeo =
     (if timeo < 0 then skip
      else with_io io (\<lambda>s.
        if close_timer s \<noteq> NULL then reset_timer (close_timer s) timeo
        else runs [
          upd_io io (close_timeout_update (\<lambda>_. timeo)),
          bindM (add_timer E (ev_loop s) timeo Close_timeout_cb 1) (\<lambda>t. upd_io io (close_timer_update (\<lambda>_. t))),
          with_io io (\<lambda>s. upd_timer (close_timer s) (privdata_update (\<lambda>_. io)))]))"

definition io_set_connect_timeout :: "env \<Rightarrow> ptr \<Rightarrow> int \<Rightarrow> unit m" where
  "io_set_connect_timeout E io timeo =
     (if timeo < 0 then skip
      else with_io io (\<lambda>s.
        if connect_timer s \<noteq> NULL then reset_timer (connect_timer s) timeo
        else runs [
          upd_io io (connect_timeout_update (\<lambda>_. timeo)),
          bindM (add_timer E (ev_loop s) timeo Connect_timeout_cb 1) (\<lambda>t. upd_io io (connect_timer_update (\<lambda>_. t))),
          with_io io (\<lambda>s. upd_timer (connect_timer s) (privdata_update (\<lambda>_. io)))]))"

subsection \<open>The invariant of the timer heap\<close>

definition timers_wf :: "world \<Rightarrow> ptr \<Rightarrow> bool" where
  "timers_wf w l \<longleftrightarrow> heap_wf (timer_key w) (timers (loops w l))"

definition armed :: "world \<Rightarrow> ptr \<Rightarrow> ptr multiset" where
  "armed w l = heap_mset (timers (loops w l))"

text \<open>The allocator is ahead of everything that is armed.\<close>

definition fresh_ok :: "world \<Rightarrow> bool" where
  "fresh_ok w \<longleftrightarrow> next_ptr w \<noteq> NULL
     \<and> (\<forall>l. \<forall>t\<in>#armed w l. t < next_ptr w) \<and> (\<forall>ev\<in>set (freed w). ev_ptr ev < next_ptr w)"

lemma timers_compare_key: "timers_compare w = key_lt (timer_key w)"
  by (intro ext) (simp add: timers_compare_def key_lt_def timer_key_def)

definition due_before :: "(ptr \<Rightarrow> event_timer_st) \<Rightarrow> ptr \<Rightarrow> ptr \<Rightarrow> bool" where
  "due_before T lhs rhs \<longleftrightarrow> next_timeout (T lhs) < next_timeout (T rhs)"

lemma timers_compare_tms: "timers_compare w = due_before (tms w)"
  by (simp add: timers_compare_def due_before_def fun_eq_iff)

lemma on_heap_run [simp]:
  "on_heap l f w = (if l = NULL then Inl Null_deref
     else Inr ((), w\<lparr>loops := (loops w)(l := (loops w l)\<lparr>timers := f (timers_compare w) (timers (loops w l))\<rparr>)\<rparr>))"
  by (simp add: on_heap_def)

lemma update_loop_timer_run [simp]:
  "update_loop_timer E l w =
     (let r = os E (trace w) Gettimeofday in
      if l = NULL then Inl Null_deref
      else Inr ((), w\<lparr>trace := trace w @ [Sys Gettimeofday r],
        loops := (loops w)(l := (loops w l)\<lparr>cur_ms := of_int (tv_sec r * 1000 + tv_usec r div 1000)\<rparr>)\<rparr>))"
  by (simp add: update_loop_timer_def get_curtime_ms_def Let_def)

text \<open>The heap order only depends on the keys of the nodes in the heap.\<close>

lemma heap_wf_cong:
  assumes "\<And>t. t \<in># heap_mset h \<Longrightarrow> key' t = key t"
  shows "heap_wf key' h = heap_wf key h"
proof -
  have "heap_ordered key' (array h) (heap_size h) = heap_ordered key (array h) (heap_size h)"
    if len: "heap_size h \<le> length (array h)"
  proof -
    have key: "key' (array h ! j) = key (array h ! j)" if "j < heap_size h" for j
      using assms that len by (simp add: heap_mset_def nth_in_set_take)
    have "ok_at key' (array h) j = ok_at key (array h) j" if "0 < j \<and> j < heap_size h" for j
    proof -
      have "parent j < heap_size h" using parent_lt [of j] that by linarith
      then show ?thesis using key that by (simp add: ok_at_def)
    qed
    then show ?thesis by (auto simp: heap_ordered_def)
  qed
  then show ?thesis by (auto simp: heap_wf_def)
qed

text \<open>The time that the next read of the clock gives.\<close>

definition now_ms :: "env \<Rightarrow> act list \<Rightarrow> u64" where
  "now_ms E h = (let r = os E h Gettimeofday in of_int (tv_sec r * 1000 + tv_usec r div 1000))"

subsection \<open>Properties\<close>

lemma malloc_run [simp]:
  "malloc E w =
     (let r = os E (trace w) Malloc; w' = w\<lparr>trace := trace w @ [Sys Malloc r]\<rparr>
      in if ret r = 0 then Inr (NULL, w') else Inr (next_ptr w, w'\<lparr>next_ptr := next_ptr w + 1\<rparr>))"
  by (simp add: malloc_def Let_def)

text \<open>The timer that \<open>add_timer\<close> fills in, and the world it returns.\<close>

definition new_timer :: "ptr \<Rightarrow> u64 \<Rightarrow> int \<Rightarrow> callback \<Rightarrow> u32 \<Rightarrow> event_timer_st" where
  "new_timer l now timeo tcb rep =
     zero_timer\<lparr>timeout := of_int timeo, next_timeout := now + of_int timeo, cb := tcb,
       repeat := (if rep = 0 then 1 else rep), ev_loop := l\<rparr>"

lemma add_timer_run:
  assumes "l \<noteq> NULL" "timeo \<noteq> 0" "ret (os E (trace w) Malloc) \<noteq> 0" "next_ptr w \<noteq> NULL"
    and "Ev_timer (next_ptr w) \<notin> set (freed w)"
  shows "\<exists>w'. add_timer E l timeo tcb rep w = Inr (next_ptr w, w') \<and>
    (let now = now_ms E (trace w @ [Sys Malloc (os E (trace w) Malloc)]) in
     tms w' = (tms w)(next_ptr w := new_timer l now timeo tcb rep) \<and>
     loops w' = (loops w)(l := (loops w l)\<lparr>cur_ms := now,
       timers := heap_insert (timers_compare w') (timers (loops w l)) (next_ptr w),
       timers_num := timers_num (loops w l) + 1\<rparr>)) \<and>
    ios w' = ios w \<and> uevents w' = uevents w \<and> freed w' = freed w \<and> next_ptr w' = next_ptr w + 1"
  using assms
  by (simp add: add_timer_def Let_def new_timer_def now_ms_def zero_timer_def timers_compare_tms)

text \<open>Arming a timer. The new timer gets an address of its own, is due exactly the timeout
  after the current time, and is added to the loop's heap, whose order is kept; all other timers
  stay armed as they were. When the heap is full the timer is counted and returned but never armed.\<close>

theorem add_timer_correct:
  assumes "timers_wf w l" "fresh_ok w" "l \<noteq> NULL" "timeo \<noteq> 0"
    and "ret (os E (trace w) Malloc) \<noteq> 0"
  shows "\<exists>w' t. add_timer E l timeo tcb rep w = Inr (t, w') \<and> t \<notin># armed w l
    \<and> timers_wf w' l
    \<and> armed w' l = (if heap_size (timers (loops w l)) < capacity (timers (loops w l))
        then add_mset t (armed w l) else armed w l)
    \<and> timers_num (loops w' l) = timers_num (loops w l) + 1
    \<and> next_timeout (tms w' t) = cur_ms (loops w' l) + of_int timeo
    \<and> (\<forall>t'. t' \<noteq> t \<longrightarrow> tms w' t' = tms w t')"
proof -
  let ?t = "next_ptr w" and ?h = "timers (loops w l)"
  have t: "?t \<noteq> NULL" "?t \<notin># armed w l" "Ev_timer ?t \<notin> set (freed w)"
    using assms(2) by (auto simp: fresh_ok_def)
  obtain w' now where run: "add_timer E l timeo tcb rep w = Inr (?t, w')"
    and tms: "tms w' = (tms w)(?t := new_timer l now timeo tcb rep)"
    and loops: "loops w' = (loops w)(l := (loops w l)\<lparr>cur_ms := now,
       timers := heap_insert (timers_compare w') ?h ?t, timers_num := timers_num (loops w l) + 1\<rparr>)"
    using add_timer_run [OF assms(3,4,5) t(1,3), of tcb rep] unfolding Let_def by blast
  have "heap_wf (timer_key w') ?h"
  proof -
    have "timer_key w' t' = timer_key w t'" if "t' \<in># heap_mset ?h" for t'
      using that t(2) tms by (auto simp: timer_key_def armed_def)
    then have "heap_wf (timer_key w') ?h = heap_wf (timer_key w) ?h" by (rule heap_wf_cong)
    then show ?thesis using assms(1) by (simp add: timers_wf_def)
  qed
  note h = this
  have "timers_wf w' l"
    using min_heap.inv_insert [OF h t(1)] by (simp add: timers_wf_def loops timers_compare_key)
  moreover have "armed w' l = (if heap_size ?h < capacity ?h then add_mset ?t (armed w l) else armed w l)"
  proof (cases "heap_size ?h < capacity ?h")
    case True
    then show ?thesis
      using min_heap.elems_insert [OF h] h by (simp add: armed_def loops timers_compare_key)
  next
    case False
    then have "heap_size ?h = capacity ?h" using heap_wfD(2) [OF h] by linarith
    then show ?thesis by (simp add: armed_def loops heap_insert_def)
  qed
  ultimately show ?thesis
    using run t(2) by (auto simp: loops tms new_timer_def)
qed


text \<open>A timer \<open>t\<close> is taken off the heap of loop \<open>l\<close> and nothing else changes there.\<close>

definition disarmed :: "world \<Rightarrow> world \<Rightarrow> ptr \<Rightarrow> ptr \<Rightarrow> bool" where
  "disarmed w w' l t \<longleftrightarrow> timers_wf w' l \<and> armed w' l = armed w l - {#t#} \<and> tms w' = tms w
     \<and> trace w' = trace w \<and> freed w' = freed w
     \<and> loops w' = (loops w)(l := (loops w l)\<lparr>timers := timers (loops w' l)\<rparr>)"

lemma remove_disarms:
  assumes "timers_wf w l"
    and "loops w' = (loops w)(l := (loops w l)\<lparr>timers := heap_remove (timers_compare w) (timers (loops w l)) t\<rparr>)"
    and "tms w' = tms w" "trace w' = trace w" "freed w' = freed w"
  shows "disarmed w w' l t"
proof -
  have "timer_key w' = timer_key w" using assms(3) by (simp add: timer_key_def fun_eq_iff)
  then show ?thesis
    using assms min_heap.inv_remove [of "timer_key w" "timers (loops w l)" t]
      min_heap.elems_remove [of "timer_key w" "timers (loops w l)" t]
    by (simp add: disarmed_def timers_wf_def armed_def timers_compare_key)
qed

text \<open>Cancelling the timeouts of an io takes exactly that io's timer off the heap, wherever it
  sits, keeps the heap in order, and clears the reference; for each of the four kinds.\<close>

theorem io_remove_timeouts_correct:
  assumes "timers_wf w l" "l \<noteq> NULL" "io \<noteq> NULL" "ev_loop (ios w io) = l"
  shows "(read_timer (ios w io) \<noteq> NULL \<longrightarrow> (\<exists>w'. io_remove_read_timeout io w = Inr ((), w')
      \<and> disarmed w w' l (read_timer (ios w io)) \<and> read_timer (ios w' io) = NULL))
    \<and> (write_timer (ios w io) \<noteq> NULL \<longrightarrow> (\<exists>w'. io_remove_write_timeout io w = Inr ((), w')
      \<and> disarmed w w' l (write_timer (ios w io)) \<and> write_timer (ios w' io) = NULL))
    \<and> (close_timer (ios w io) \<noteq> NULL \<longrightarrow> (\<exists>w'. io_remove_close_timeout io w = Inr ((), w')
      \<and> disarmed w w' l (close_timer (ios w io)) \<and> close_timer (ios w' io) = NULL))
    \<and> (connect_timer (ios w io) \<noteq> NULL \<longrightarrow> (\<exists>w'. io_remove_connect_timeout io w = Inr ((), w')
      \<and> disarmed w w' l (connect_timer (ios w io)) \<and> connect_timer (ios w' io) = NULL))"
  using assms
  by (intro conjI impI)
    (simp add: io_remove_read_timeout_def io_remove_write_timeout_def io_remove_close_timeout_def
      io_remove_connect_timeout_def remove_disarms)+

text \<open>\<open>del_timer\<close> ignores which timer it is given: it takes the timer that is due first off the
  heap. Any other timer given to it stays armed.\<close>

theorem del_timer_pops_top:
  assumes "timers_wf w l" "l \<noteq> NULL" "t \<noteq> NULL" "Ev_timer t \<notin> set (freed w)"
    and "ev_loop (tms w t) = l" "t \<in># armed w l"
  shows "\<exists>w'. del_timer l t w = Inr ((), w') \<and> timers_wf w' l
    \<and> armed w' l = armed w l - {#heap_top (timers (loops w l))#}
    \<and> timers_num (loops w' l) = timers_num (loops w l) - 1
    \<and> (t \<noteq> heap_top (timers (loops w l)) \<longrightarrow> t \<in># armed w' l)"
proof -
  let ?h = "timers (loops w l)" and ?lt = "key_lt (timer_key w)"
  define w' where "w' = w\<lparr>loops := (loops w)(l := (loops w l)\<lparr>timers_num := timers_num (loops w l) - 1,
     timers := heap_pop ?lt ?h\<rparr>)\<rparr>"
  have wf: "heap_wf (timer_key w) ?h" using assms(1) by (simp add: timers_wf_def)
  have "armed w l \<noteq> {#}" using assms(6) by auto
  then have ne: "heap_mset ?h \<noteq> {#}" by (simp add: armed_def)
  have key: "timer_key w' = timer_key w" by (simp add: timer_key_def w'_def fun_eq_iff)
  have "del_timer l t w = Inr ((), w')"
    using assms by (simp add: del_timer_def timers_compare_key [symmetric] timers_compare_tms w'_def)
  moreover have "timers_wf w' l"
    using min_heap.inv_pop [OF wf] key by (simp add: timers_wf_def w'_def)
  moreover have "armed w' l = armed w l - {#heap_top ?h#}"
    using min_heap.elems_pop [OF wf] ne by (simp add: armed_def w'_def)
  moreover have "t \<in># armed w l - {#heap_top ?h#}" if "t \<noteq> heap_top ?h"
    using assms(6) that by (simp add: in_diff_count)
  ultimately show ?thesis by (auto simp: w'_def)
qed


lemma heap_pop_insert_mset:
  assumes "heap_wf key h" "0 < capacity h"
  shows "heap_mset (heap_insert lt (heap_pop (key_lt key) h) t) = add_mset t (heap_mset h - {#heap_top h#})"
proof (cases "heap_size h = 0")
  case True
  then have "heap_mset h = {#}" "heap_pop (key_lt key) h = h" by (simp_all add: heap_mset_def heap_pop_def)
  then show ?thesis using heap_insert_mset [OF assms(1)] True assms(2) by simp
next
  case False
  have "heap_size (heap_pop (key_lt key) h) < capacity (heap_pop (key_lt key) h)"
    using False heap_wfD(2) [OF assms(1)] by (simp add: heap_pop_eq)
  then show ?thesis
    using heap_insert_mset [OF heap_pop_wf [OF assms(1)]] heap_pop_mset [OF assms(1) False] by simp
qed

lemma heap_wf_rekey:
  "heap_wf (timer_key w) h \<Longrightarrow> t \<notin># heap_mset h \<Longrightarrow> (\<And>t'. t' \<noteq> t \<Longrightarrow> next_timeout (T t') = next_timeout (tms w t')) \<Longrightarrow>
   heap_wf (\<lambda>x. next_timeout (T x)) h"
  by (subst heap_wf_cong [where key = "timer_key w"]) (auto simp: timer_key_def, metis)

lemma reset_timer_lemma:
  fixes w l t timeo
  defines "rest \<equiv> (if destory (tms w t) then armed w l else armed w l - {#heap_top (timers (loops w l))#})"
  assumes "timers_wf w l" "l \<noteq> NULL" "t \<noteq> NULL" "Ev_timer t \<notin> set (freed w)"
    and "privdata (tms w t) \<noteq> NULL" "ev_loop (ios w (privdata (tms w t))) = l"
    and "0 < capacity (timers (loops w l))"
    and "destory (tms w t) \<longrightarrow> heap_size (timers (loops w l)) < capacity (timers (loops w l))"
  shows "\<exists>w'. reset_timer t timeo w = Inr ((), w')
    \<and> armed w' l = add_mset t rest
    \<and> next_timeout (tms w' t) = cur_ms (loops w l) + of_int timeo
    \<and> \<not> destory (tms w' t) \<and> \<not> pending (tms w' t)
    \<and> (\<forall>t'. t' \<noteq> t \<longrightarrow> tms w' t' = tms w t')
    \<and> (t \<notin># rest \<longrightarrow> timers_wf w' l)"
proof -
  let ?h = "timers (loops w l)" and ?d = "destory (tms w t)"
  define due where "due = cur_ms (loops w l) + of_int timeo"
  define T where "T = (tms w)(t := (tms w t)\<lparr>next_timeout := due\<rparr>)"
  define h1 where "h1 = (if ?d then ?h else heap_pop (timers_compare w) ?h)"
  have wf: "heap_wf (timer_key w) ?h" using assms(2) by (simp add: timers_wf_def)
  have wf1: "heap_wf (timer_key w) h1"
    using wf heap_pop_wf [OF wf] by (simp add: h1_def timers_compare_key)
  have rest: "heap_mset h1 = rest"
  proof (cases "heap_size ?h = 0")
    case True
    then show ?thesis by (simp add: h1_def rest_def armed_def heap_pop_def heap_mset_def)
  next
    case False
    then show ?thesis
      using heap_pop_mset [OF wf False] by (simp add: h1_def rest_def armed_def timers_compare_key)
  qed
  have ins: "heap_mset (heap_insert lt h1 t) = add_mset t rest" for lt
  proof (cases ?d)
    case True
    then show ?thesis
      using heap_insert_mset [OF wf] assms(9) by (simp add: h1_def rest_def armed_def)
  next
    case False
    then show ?thesis
      using heap_pop_insert_mset [OF wf assms(8)] by (simp add: h1_def rest_def armed_def timers_compare_key)
  qed
  obtain w' where run: "reset_timer t timeo w = Inr ((), w')"
    and tms': "tms w' = T(t := (T t)\<lparr>destory := False, active := True, pending := False\<rparr>)"
    and heap': "timers (loops w' l) = heap_insert (due_before T) h1 t"
    using assms
    by (cases ?d) (simp_all add: reset_timer_def event_reset_def timers_compare_tms 
        T_def due_def h1_def)
  have "timers_wf w' l" if "t \<notin># rest"
  proof -
    have "heap_wf (\<lambda>x. next_timeout (T x)) h1"
      using that rest by (intro heap_wf_rekey [OF wf1, of t]) (auto simp: T_def)
    then have "heap_wf (\<lambda>x. next_timeout (T x)) (heap_insert (key_lt (\<lambda>x. next_timeout (T x))) h1 t)"
      using assms(4) by (rule heap_insert_wf)
    moreover have "due_before T = key_lt (\<lambda>x. next_timeout (T x))"
      by (simp add: due_before_def key_lt_def fun_eq_iff)
    moreover have "timer_key w' = (\<lambda>x. next_timeout (T x))"
      by (simp add: timer_key_def tms' fun_eq_iff)
    ultimately show ?thesis by (simp add: timers_wf_def heap')
  qed
  then show ?thesis
    using run ins by (auto simp: armed_def heap' tms' T_def due_def)
qed

text \<open>What \<open>reset_timer\<close> does to the heap. A timer that has fired is armed again, the timers
  armed before staying so. For a timer that is still armed the code drops the timer that is due
  first, whichever it is, and inserts the given one: only when they are the same is nothing lost.
  The heap stays in order when the given timer was not left in it.\<close>

theorem reset_timer_effect:
  fixes w l t timeo
  defines "rest \<equiv> (if destory (tms w t) then armed w l else armed w l - {#heap_top (timers (loops w l))#})"
  assumes "timers_wf w l" "l \<noteq> NULL" "t \<noteq> NULL" "Ev_timer t \<notin> set (freed w)"
    and "privdata (tms w t) \<noteq> NULL" "ev_loop (ios w (privdata (tms w t))) = l"
    and "0 < capacity (timers (loops w l))"
    and "destory (tms w t) \<longrightarrow> heap_size (timers (loops w l)) < capacity (timers (loops w l))"
  shows "\<exists>w'. reset_timer t timeo w = Inr ((), w')
    \<and> armed w' l = add_mset t rest
    \<and> next_timeout (tms w' t) = cur_ms (loops w l) + of_int timeo
    \<and> \<not> destory (tms w' t) \<and> \<not> pending (tms w' t)
    \<and> (\<forall>t'. t' \<noteq> t \<longrightarrow> tms w' t' = tms w t')
    \<and> (t \<notin># rest \<longrightarrow> timers_wf w' l)"
  unfolding rest_def by (rule reset_timer_lemma) (use assms(2-) in simp_all)

text \<open>A timeout of zero. Setting any of the four timeouts to zero on an io without that timer
  dereferences the null pointer that \<open>add_timer\<close> returns.\<close>

theorem io_set_timeout_zero_faults:
  assumes "io \<noteq> NULL" "read_timer (ios w io) = NULL" "write_timer (ios w io) = NULL"
    and "close_timer (ios w io) = NULL" "connect_timer (ios w io) = NULL"
  shows "io_set_read_timeout E io 0 w = Inl Null_deref \<and> io_set_write_timeout E io 0 w = Inl Null_deref
    \<and> io_set_close_timeout E io 0 w = Inl Null_deref \<and> io_set_connect_timeout E io 0 w = Inl Null_deref"
  using assms
  by (simp_all add: io_set_read_timeout_def io_set_write_timeout_def io_set_close_timeout_def
      io_set_connect_timeout_def add_timer_def)


subsection \<open>The hypotheses hold\<close>

text \<open>A loop with two armed timers, the second due first, and an io that has them both.\<close>

definition sample_sys :: sys_result where
  "sample_sys = \<lparr>ret = 1, err = EAGAIN, bytes = [], ready = [], tv_sec = 2, tv_usec = 5000\<rparr>"

definition sample_env :: env where
  "sample_env = \<lparr>os = (\<lambda>_ _. sample_sys), user = (\<lambda>_ w. Inr ((), w))\<rparr>"

definition timers_world :: world where
  "timers_world = world0\<lparr>
     loops := (\<lambda>_. zero_loop\<lparr>timers := \<lparr>array = [2, 1, 0, 0], heap_size = 2, capacity = 4\<rparr>\<rparr>),
     ios := (\<lambda>_. zero_io\<lparr>ev_loop := 1, read_timer := 1, write_timer := 2, close_timer := 3\<rparr>),
     tms := (\<lambda>t. zero_timer\<lparr>ev_loop := 1, privdata := 1, next_timeout := (if t = 2 then 5 else 9)\<rparr>),
     next_ptr := 10\<rparr>"

lemma timers_world_heap:
  "heap_mset (timers (loops timers_world l)) = {#1, 2#}" "armed timers_world l = {#1, 2#}"
  "heap_top (timers (loops timers_world l)) = 2"
  by (simp_all add: armed_def timers_world_def heap_mset_def heap_top_def numeral_2_eq_2)

lemma timers_world_wf: "timers_wf timers_world l"
proof -
  have "j = 1" if "0 < j \<and> j < 2" for j :: nat using that by arith
  then have "heap_ordered (timer_key timers_world) [2, 1, 0, 0] 2"
    unfolding heap_ordered_def ok_at_def timer_key_def timers_world_def by force
  then show ?thesis
    using timers_world_heap(1) [of l] by (simp add: timers_wf_def heap_wf_def timers_world_def)
qed

lemma timers_world_fresh: "fresh_ok timers_world"
  by (auto simp: fresh_ok_def timers_world_heap) (simp_all add: timers_world_def)

lemma timers_world_sel:
  "ev_loop (ios timers_world io) = 1" "ev_loop (tms timers_world t) = 1" "privdata (tms timers_world t) = 1"
  "freed timers_world = []" "destory (tms timers_world t) = False"
  "heap_size (timers (loops timers_world l)) = 2" "capacity (timers (loops timers_world l)) = 4"
  by (simp_all add: timers_world_def zero_timer_def)

lemma add_timer_correct_witness:
  "\<exists>w' t. add_timer sample_env 1 50 Read_timeout_cb 1 timers_world = Inr (t, w') \<and> t \<notin># armed timers_world 1
    \<and> timers_wf w' 1
    \<and> armed w' 1 = (if heap_size (timers (loops timers_world 1)) < capacity (timers (loops timers_world 1))
        then add_mset t (armed timers_world 1) else armed timers_world 1)
    \<and> timers_num (loops w' 1) = timers_num (loops timers_world 1) + 1
    \<and> next_timeout (tms w' t) = cur_ms (loops w' 1) + of_int 50
    \<and> (\<forall>t'. t' \<noteq> t \<longrightarrow> tms w' t' = tms timers_world t')"
  by (rule add_timer_correct [OF timers_world_wf timers_world_fresh]) (simp_all add: sample_env_def sample_sys_def)

lemma io_remove_timeouts_correct_witness:
  "\<exists>w'. io_remove_read_timeout 4 timers_world = Inr ((), w') \<and> disarmed timers_world w' 1 1"
proof -
  have "read_timer (ios timers_world 4) = 1" by (simp add: timers_world_def)
  then show ?thesis
    using io_remove_timeouts_correct [OF timers_world_wf, of 1 4] timers_world_sel(1) by auto
qed

lemma del_timer_pops_top_witness:
  "\<exists>w'. del_timer 1 1 timers_world = Inr ((), w') \<and> 1 \<in># armed w' 1"
  using del_timer_pops_top [OF timers_world_wf, of 1 1]
  by (auto simp: timers_world_sel timers_world_heap)

lemma reset_timer_effect_witness:
  "\<exists>w'. reset_timer 1 7 timers_world = Inr ((), w') \<and> armed w' 1 = {#1, 1#}"
  using reset_timer_effect [of timers_world 1 1 7]
  by (auto simp: timers_world_sel timers_world_heap timers_world_wf)

lemma io_set_timeout_zero_faults_witness:
  "io_set_read_timeout sample_env 1 0 world0 = Inl Null_deref \<and> io_set_write_timeout sample_env 1 0 world0 = Inl Null_deref
    \<and> io_set_close_timeout sample_env 1 0 world0 = Inl Null_deref
    \<and> io_set_connect_timeout sample_env 1 0 world0 = Inl Null_deref"
  by (rule io_set_timeout_zero_faults) (simp_all add: zero_io_def)

end
