(* ===== verification/IoCore.thy ===== *)
theory IoCore
  imports Timers
begin

section \<open>Io objects: registration, buffers, closing and writing (src/io.c, src/event_loop.c)\<close>

text \<open>
  The operations that every io goes through: \<open>get_io\<close> and \<open>free_io\<close>, \<open>io_add\<close> and \<open>io_del\<close>,
  \<open>io_close\<close> and \<open>io_write\<close>. The write mutex is modelled for one thread: locking it twice is the
  fault \<open>Deadlock\<close>. OpenSSL is behind system calls like the kernel.
\<close>

definition MAX_IO_BUF_SIZE :: nat where
  "MAX_IO_BUF_SIZE = 1024 * 1024 * 2"

subsection \<open>Creation and registration\<close>

text \<open>
  \<open>get_io\<close> stores the new io in \<open>io_array\<close> without a look at the bounds, and returns null when any
  of its allocations fails. Fresh memory of a buffer is read as zeros.
\<close>

definition io_array_put :: "ptr \<Rightarrow> int \<Rightarrow> ptr \<Rightarrow> unit m" where
  "io_array_put l n io = with_loop l (\<lambda>s.
     if 0 \<le> n \<and> nat n < length (io_array s)
     then upd_loop l (\<lambda>s. s\<lparr>io_array := (io_array s)[nat n := io]\<rparr>)
     else failM Out_of_bounds)"

definition raw_buffer :: buffer_st where
  "raw_buffer = \<lparr>base = [], len = 0, head = 0, tail = 0, maxSize = 0\<rparr>"

definition new_buffer :: buffer_st where
  "new_buffer = \<lparr>base = replicate MAX_IO_BUF_SIZE 0, len = MAX_IO_BUF_SIZE, head = 0, tail = 0,
     maxSize = MAX_IO_BUF_SIZE\<rparr>"

definition alloc_then :: "env \<Rightarrow> (ptr \<Rightarrow> ptr m) \<Rightarrow> ptr m" where
  "alloc_then E f = bindM (malloc E) (\<lambda>p. if p = NULL then retM NULL else f p)"

definition get_io :: "env \<Rightarrow> ptr \<Rightarrow> int \<Rightarrow> ptr m" where
  "get_io E l n = alloc_then E (\<lambda>io. run_then [
       upd_io io (\<lambda>_. zero_io\<lparr>fd := n, ev_loop := l, io_type := IO_TYPE_TCP\<rparr>),
       io_array_put l n io,
       upd_loop l (\<lambda>s. s\<lparr>io_num := io_num s + 1\<rparr>)]
     (alloc_then E (\<lambda>rb. run_then [upd_io io (\<lambda>s. s\<lparr>read_buf := Some raw_buffer\<rparr>)]
     (alloc_then E (\<lambda>wb. run_then [upd_io io (\<lambda>s. s\<lparr>write_buf := Some raw_buffer\<rparr>)]
     (alloc_then E (\<lambda>tmp. run_then [upd_io io (\<lambda>s. s\<lparr>read_buf := Some new_buffer\<rparr>)]
     (alloc_then E (\<lambda>tmp2. run_then [
       upd_io io (\<lambda>s. s\<lparr>write_buf := Some new_buffer\<rparr>),
       upd_io io (\<lambda>s. s\<lparr>write_mutex := Unlocked\<rparr>),
       upd_io io (\<lambda>s. s\<lparr>threadPool := NULL\<rparr>)] (retM io))))))))))"

definition create_io :: "env \<Rightarrow> ptr \<Rightarrow> int \<Rightarrow> callback \<Rightarrow> callback \<Rightarrow> ptr m" where
  "create_io E l n rcb wcb =
     (if l = NULL then retM NULL
      else bindM (get_io E l n) (\<lambda>io.
        if io = NULL then retM NULL
        else with_loop l (\<lambda>ls. run_then [
          upd_io io (\<lambda>s. s\<lparr>read_cb := rcb\<rparr>),
          upd_io io (\<lambda>s. s\<lparr>write_cb := wcb\<rparr>),
          upd_io io (\<lambda>s. s\<lparr>last_read_time := cur_ms ls\<rparr>)] (retM io))))"

definition io_add :: "env \<Rightarrow> ptr \<Rightarrow> callback \<Rightarrow> u32 \<Rightarrow> int m" where
  "io_add E io c event =
     (if io = NULL then retM (-1)
      else run_then [
        upd_io io (\<lambda>s. s\<lparr>cb := c\<rparr>),
        with_io io (\<lambda>s. whenM (events s AND event = 0) (runs [
          upd_io io (\<lambda>s. s\<lparr>events := events s OR event\<rparr>),
          bindM (disp_add E (ev_loop s) (fd s) event) (\<lambda>_. skip)]))]
        (retM 0))"

definition io_del :: "env \<Rightarrow> ptr \<Rightarrow> u32 \<Rightarrow> int m" where
  "io_del E io event =
     (if io = NULL then retM (-1)
      else run_then [
        with_io io (\<lambda>s. whenM (events s AND event \<noteq> 0) (runs [
          upd_io io (\<lambda>s. s\<lparr>events := events s AND NOT event\<rparr>),
          bindM (disp_del E (ev_loop s) (fd s) event) (\<lambda>_. skip)]))]
        (retM 0))"

definition io_read_enable :: "env \<Rightarrow> ptr \<Rightarrow> int m" where
  "io_read_enable E io = bindM (io_add E io Handle_event EVENT_READ) (\<lambda>_. retM 0)"

text \<open>The callbacks of an io.\<close>

definition io_set_readcb :: "ptr \<Rightarrow> callback \<Rightarrow> unit m" where
  "io_set_readcb io c = upd_io io (\<lambda>s. s\<lparr>read_cb := c\<rparr>)"

definition io_set_writecb :: "ptr \<Rightarrow> callback \<Rightarrow> unit m" where
  "io_set_writecb io c = upd_io io (\<lambda>s. s\<lparr>write_cb := c\<rparr>)"

definition io_set_closecb :: "ptr \<Rightarrow> callback \<Rightarrow> unit m" where
  "io_set_closecb io c = upd_io io (\<lambda>s. s\<lparr>close_cb := c\<rparr>)"

definition io_set_connectcb :: "ptr \<Rightarrow> callback \<Rightarrow> unit m" where
  "io_set_connectcb io c = upd_io io (\<lambda>s. s\<lparr>connect_cb := c\<rparr>)"

definition io_set_acceptcb :: "ptr \<Rightarrow> callback \<Rightarrow> unit m" where
  "io_set_acceptcb io c = upd_io io (\<lambda>s. s\<lparr>accept_cb := c\<rparr>)"

subsection \<open>Closing\<close>

text \<open>A callback field of an io: nothing when it is null, else the user function it holds.\<close>

definition call_io_cb :: "env \<Rightarrow> callback \<Rightarrow> ptr \<Rightarrow> unit m" where
  "call_io_cb E c io =
     (case c of No_cb \<Rightarrow> skip | User_cb f \<Rightarrow> call_user E (Call_io f io) | _ \<Rightarrow> failM Bad_cast)"

definition call_write_cb :: "env \<Rightarrow> callback \<Rightarrow> ptr \<Rightarrow> byte list \<Rightarrow> int \<Rightarrow> unit m" where
  "call_write_cb E c io data n =
     (case c of No_cb \<Rightarrow> skip | User_cb f \<Rightarrow> call_user E (Call_write f io data n) | _ \<Rightarrow> failM Bad_cast)"

definition close_socket :: "env \<Rightarrow> ptr \<Rightarrow> unit m" where
  "close_socket E io = with_io io (\<lambda>s. runs [
     bindM (syscall E (Close (fd s))) (\<lambda>_. skip),
     upd_io io (\<lambda>s. s\<lparr>fd := -1\<rparr>)])"

definition ssl_ctx_free :: "env \<Rightarrow> ptr \<Rightarrow> unit m" where
  "ssl_ctx_free E ctx = bindM (syscall E (Ssl_ctx_free ctx)) (\<lambda>_. skip)"

definition ssl_free :: "env \<Rightarrow> ptr \<Rightarrow> unit m" where
  "ssl_free E p = bindM (syscall E (Ssl_free p)) (\<lambda>_. skip)"

definition free_io :: "env \<Rightarrow> ptr \<Rightarrow> unit m" where
  "free_io E io = whenM (io \<noteq> NULL) (runs [
     with_io io (\<lambda>s. whenM (ssl_ctx s \<noteq> NULL) (runs [
       ssl_ctx_free E (ssl_ctx s),
       upd_io io (\<lambda>s. s\<lparr>ssl_ctx := NULL\<rparr>)])),
     with_io io (\<lambda>s. whenM (ssl s \<noteq> NULL) (runs [
       ssl_free E (ssl s),
       upd_io io (\<lambda>s. s\<lparr>ssl := NULL\<rparr>)])),
     upd_io io (\<lambda>s. s\<lparr>read_buf := None\<rparr>),
     upd_io io (\<lambda>s. s\<lparr>write_buf := None\<rparr>),
     upd_io io (\<lambda>s. s\<lparr>write_mutex := Destroyed\<rparr>)])"

definition io_close :: "env \<Rightarrow> ptr \<Rightarrow> unit m" where
  "io_close E io = runs [
     mutex_lock io,
     with_io io (\<lambda>s.
       if closed s then mutex_unlock io
       else runs [
         upd_io io (\<lambda>s. s\<lparr>closed := True\<rparr>),
         mutex_unlock io,
         bindM (io_del E io EVENT_READ) (\<lambda>_. skip),
         bindM (io_del E io EVENT_WRITE) (\<lambda>_. skip),
         io_remove_read_timeout io,
         io_remove_write_timeout io,
         io_remove_connect_timeout io,
         io_remove_close_timeout io,
         with_io io (\<lambda>s. call_io_cb E (close_cb s) io),
         with_io io (\<lambda>s. whenM (fd s \<noteq> 0) (close_socket E io)),
         free_io E io])]"

subsection \<open>Writing\<close>

definition buffer_is_empty :: "buffer_st \<Rightarrow> bool" where
  "buffer_is_empty b \<longleftrightarrow> head b = tail b"

text \<open>The bytes of a memory block from an offset on, overwritten.\<close>

definition put_bytes :: "byte list \<Rightarrow> nat \<Rightarrow> byte list \<Rightarrow> byte list" where
  "put_bytes mem off bs = take off mem @ bs @ drop (off + length bs) mem"

definition with_write_buf :: "ptr \<Rightarrow> (buffer_st \<Rightarrow> 'a m) \<Rightarrow> 'a m" where
  "with_write_buf io f = with_io io (\<lambda>s. case write_buf s of None \<Rightarrow> failM Null_deref | Some b \<Rightarrow> f b)"

definition set_write_buf :: "ptr \<Rightarrow> buffer_st \<Rightarrow> unit m" where
  "set_write_buf io b = upd_io io (\<lambda>s. s\<lparr>write_buf := Some b\<rparr>)"

definition buffer_append_data :: "ptr \<Rightarrow> byte list \<Rightarrow> int m" where
  "buffer_append_data io buf = with_write_buf io (\<lambda>b.
     if size_add (tail b) (length buf) > maxSize b then retM (-1)
     else if tail b + length buf > length (base b) then failM Out_of_bounds
     else bindM (set_write_buf io (b\<lparr>base := put_bytes (base b) (tail b) buf, tail := tail b + length buf\<rparr>))
       (\<lambda>_. retM 0))"

definition write_cb_of :: "env \<Rightarrow> ptr \<Rightarrow> byte list \<Rightarrow> unit m" where
  "write_cb_of E io data = with_io io (\<lambda>s. call_write_cb E (write_cb s) io data (int (length data)))"

text \<open>\<open>ssl_write\<close> and \<open>ssl_read\<close> of open_ssl.c; \<open>SSL_get_error\<close> is a library call.\<close>

definition ssl_write :: "env \<Rightarrow> ptr \<Rightarrow> byte list \<Rightarrow> int m" where
  "ssl_write E s data = bindM (syscall E (Ssl_write s data)) (\<lambda>r. retM (ret r))"

definition ssl_read :: "env \<Rightarrow> ptr \<Rightarrow> nat \<Rightarrow> sys_result m" where
  "ssl_read E s n = bindM (syscall E (Ssl_read s n)) (\<lambda>r. retM (if ret r < 0 then r\<lparr>ret := -1\<rparr> else r))"

definition ssl_get_error_code :: "env \<Rightarrow> ptr \<Rightarrow> int \<Rightarrow> int m" where
  "ssl_get_error_code E s n = bindM (syscall E (Ssl_get_error s n)) (\<lambda>r. retM (ret r))"

definition SSL_ERROR_WANT_READ :: int where
  "SSL_ERROR_WANT_READ = 2"

definition SSL_ERROR_WANT_WRITE :: int where
  "SSL_ERROR_WANT_WRITE = 3"

text \<open>The branch that buffers what was not written, with the code that follows a refusal.\<close>

definition buffer_rest :: "env \<Rightarrow> ptr \<Rightarrow> byte list \<Rightarrow> int \<Rightarrow> int m \<Rightarrow> int m" where
  "buffer_rest E io rest nwrite after =
     bindM (buffer_append_data io rest) (\<lambda>a.
       if a \<noteq> 0 then run_then [mutex_unlock io, io_close E io] (retM nwrite)
       else bindM (io_add E io Io_write_cb EVENT_WRITE) (\<lambda>_. after))"

definition io_write_ssl :: "env \<Rightarrow> ptr \<Rightarrow> byte list \<Rightarrow> int m" where
  "io_write_ssl E io buf = with_io io (\<lambda>s.
     bindM (ssl_write E (ssl s) buf) (\<lambda>nwrite.
       if nwrite < 0 then
         bindM (ssl_get_error_code E (ssl s) nwrite) (\<lambda>ssl_err.
           run_then [whenM (ssl_err \<noteq> SSL_ERROR_WANT_READ \<and> ssl_err \<noteq> SSL_ERROR_WANT_WRITE)
             (runs [mutex_unlock io, io_close E io])] (retM nwrite))
       else if nat nwrite < length buf then
         bindM (write_cb_of E io (drop (nat nwrite) buf)) (\<lambda>_.
           buffer_rest E io (drop (nat nwrite) buf) nwrite (retM nwrite))
       else run_then [write_cb_of E io buf, mutex_unlock io] (retM nwrite)))"

text \<open>The end of the plain branch: the time of the last write, and the mutex.\<close>

definition io_write_end :: "env \<Rightarrow> ptr \<Rightarrow> int \<Rightarrow> int m" where
  "io_write_end E io nwrite = run_then [
     whenM (nwrite > 0) (bindM (get_curtime_ms E) (\<lambda>t. upd_io io (\<lambda>s. s\<lparr>last_write_time := t\<rparr>))),
     mutex_unlock io] (retM nwrite)"

definition io_write_tcp :: "env \<Rightarrow> ptr \<Rightarrow> byte list \<Rightarrow> int m" where
  "io_write_tcp E io buf = with_io io (\<lambda>s.
     if fd s = -1 then run_then [mutex_unlock io] (retM (-1))
     else bindM (syscall E (Write (fd s) buf)) (\<lambda>r.
       let nwrite = ret r in
       if nwrite < 0 then
         (if err r = EAGAIN \<or> err r = EINTR
          then buffer_rest E io buf 0 (run_then [mutex_unlock io] (retM 0))
          else run_then [mutex_unlock io, io_close E io] (retM (-1)))
       else if nat nwrite < length buf then
         bindM (write_cb_of E io (drop (nat nwrite) buf)) (\<lambda>_.
           buffer_rest E io (drop (nat nwrite) buf) nwrite (io_write_end E io nwrite))
       else bindM (write_cb_of E io buf) (\<lambda>_. io_write_end E io nwrite)))"

definition io_write :: "env \<Rightarrow> ptr \<Rightarrow> byte list \<Rightarrow> int m" where
  "io_write E io buf =
     bindM (mutex_lock io) (\<lambda>_. with_io io (\<lambda>s.
       if closed s then run_then [mutex_unlock io] (retM (-1))
       else with_write_buf io (\<lambda>b.
         if \<not> buffer_is_empty b then
           bindM (buffer_append_data io buf) (\<lambda>a.
             if a \<noteq> 0 then run_then [mutex_unlock io, io_close E io] (retM (-1))
             else run_then [mutex_unlock io] (retM 0))
         else if io_type s = IO_TYPE_SSL then io_write_ssl E io buf
         else io_write_tcp E io buf)))"

definition io_send_data :: "env \<Rightarrow> ptr \<Rightarrow> byte list \<Rightarrow> int m" where
  "io_send_data E io buf = io_write E io buf"

end
