(* ===== verification/IoClose.thy ===== *)
theory IoClose
  imports IoCore
begin

section \<open>What closing an io does: io_close of src/event_loop.c\<close>

text \<open>
  The steps of \<open>io_close\<close> on a loop with the epoll dispatcher, as functions on worlds: \<open>set_io\<close>
  updates the io, \<open>sys_done\<close> records a system call, \<open>del_w\<close> is \<open>io_del\<close> and \<open>disarm_w\<close> takes a
  timer off the heap. \<open>closed_world\<close> is the whole operation when no user callback interferes;
  the facts about it are projections of these steps.
\<close>

definition set_io :: "ptr \<Rightarrow> (io_st \<Rightarrow> io_st) \<Rightarrow> world \<Rightarrow> world" where
  "set_io io f w = w\<lparr>ios := (ios w)(io := f (ios w io))\<rparr>"

definition sys_done :: "env \<Rightarrow> sys_call \<Rightarrow> world \<Rightarrow> world" where
  "sys_done E c w = w\<lparr>trace := trace w @ [Sys c (os E (trace w) c)]\<rparr>"

definition disarm_w :: "ptr \<Rightarrow> ptr \<Rightarrow> world \<Rightarrow> world" where
  "disarm_w l t w =
     (if t = NULL then w
      else w\<lparr>loops := (loops w)(l := (loops w l)\<lparr>timers := heap_remove (timers_compare w) (timers (loops w l)) t\<rparr>)\<rparr>)"

text \<open>The changes to the io itself, one by one.\<close>

definition clear_event :: "u32 \<Rightarrow> io_st \<Rightarrow> io_st" where
  "clear_event e s = s\<lparr>events := events s AND NOT e\<rparr>"

definition mark_closed :: "io_st \<Rightarrow> io_st" where
  "mark_closed s = s\<lparr>closed := True, write_mutex := Unlocked\<rparr>"

definition drop_fd :: "io_st \<Rightarrow> io_st" where
  "drop_fd s = s\<lparr>fd := (if fd s = 0 then 0 else -1)\<rparr>"

definition released :: "io_st \<Rightarrow> io_st" where
  "released s = s\<lparr>ssl_ctx := NULL, ssl := NULL, read_buf := None, write_buf := None, write_mutex := Destroyed\<rparr>"

definition del_w :: "env \<Rightarrow> ptr \<Rightarrow> u32 \<Rightarrow> world \<Rightarrow> world" where
  "del_w E io event w =
     (if events (ios w io) AND event = 0 then w
      else sys_done E (Epoll_ctl EPOLL_CTL_DEL (fd (ios w io)) 0)
        (set_io io (clear_event event) w))"

text \<open>A loop driven by epoll.\<close>

definition epoll_loop :: "world \<Rightarrow> ptr \<Rightarrow> bool" where
  "epoll_loop w l \<longleftrightarrow> l \<noteq> NULL \<and> (\<exists>d. disp_data (loops w l) = Disp_epoll d)"

text \<open>User callbacks that do not touch the library.\<close>

definition quiet_user :: "env \<Rightarrow> bool" where
  "quiet_user E \<longleftrightarrow> (\<forall>c w. user E c w = Inr ((), w))"

text \<open>The callback field of an io is null or a user function.\<close>

fun user_cb :: "callback \<Rightarrow> bool" where
  "user_cb No_cb = True"
| "user_cb (User_cb f) = True"
| "user_cb _ = False"

subsection \<open>Projections of the steps\<close>

lemma set_io_sel [simp]:
  "ios (set_io io f w) p = (if p = io then f (ios w io) else ios w p)" "loops (set_io io f w) = loops w"
  "tms (set_io io f w) = tms w" "trace (set_io io f w) = trace w" "freed (set_io io f w) = freed w"
  "uevents (set_io io f w) = uevents w" "next_ptr (set_io io f w) = next_ptr w" "pools (set_io io f w) = pools w"
  by (simp_all add: set_io_def)

lemma sys_done_sel [simp]:
  "ios (sys_done E c w) = ios w" "loops (sys_done E c w) = loops w" "tms (sys_done E c w) = tms w"
  "freed (sys_done E c w) = freed w" "uevents (sys_done E c w) = uevents w"
  "next_ptr (sys_done E c w) = next_ptr w" "pools (sys_done E c w) = pools w"
  "trace (sys_done E c w) = trace w @ [Sys c (os E (trace w) c)]"
  by (simp_all add: sys_done_def)

lemma disarm_w_sel [simp]:
  "ios (disarm_w l t w) = ios w" "tms (disarm_w l t w) = tms w" "trace (disarm_w l t w) = trace w"
  "freed (disarm_w l t w) = freed w" "uevents (disarm_w l t w) = uevents w"
  "next_ptr (disarm_w l t w) = next_ptr w" "pools (disarm_w l t w) = pools w"
  "disp_data (loops (disarm_w l t w) l') = disp_data (loops w l')"
  "cur_ms (loops (disarm_w l t w) l') = cur_ms (loops w l')"
  "loop_pending (loops (disarm_w l t w) l') = loop_pending (loops w l')"
  by (simp_all add: disarm_w_def)

lemma timer_key_abs: "timer_key w = (\<lambda>t. next_timeout (tms w t))"
  by (simp add: timer_key_def fun_eq_iff)

lemma timers_same [simp]:
  "timers_wf (set_io io f w) l = timers_wf w l" "armed (set_io io f w) l = armed w l"
  "timers_wf (sys_done E c w) l = timers_wf w l" "armed (sys_done E c w) l = armed w l"
  "epoll_loop (set_io io f w) l = epoll_loop w l" "epoll_loop (sys_done E c w) l = epoll_loop w l"
  "epoll_loop (disarm_w l' t w) l = epoll_loop w l"
  by (simp_all add: timers_wf_def armed_def timer_key_abs epoll_loop_def)

lemma disarm_w_timers [simp]:
  assumes "timers_wf w l"
  shows "timers_wf (disarm_w l t w) l" "armed (disarm_w l t w) l = armed w l - {#t#}"
proof -
  have wf: "heap_wf (timer_key w) (timers (loops w l))" using assms by (simp add: timers_wf_def)
  have "timer_key (disarm_w l t w) = timer_key w" by (simp add: timer_key_def fun_eq_iff)
  moreover have "timers (loops (disarm_w l t w) l) =
      (if t = NULL then timers (loops w l) else heap_remove (key_lt (timer_key w)) (timers (loops w l)) t)"
    by (simp add: disarm_w_def timers_compare_key)
  moreover have "NULL \<notin># heap_mset (timers (loops w l))" using heap_wfD(4) [OF wf] .
  ultimately show "timers_wf (disarm_w l t w) l" "armed (disarm_w l t w) l = armed w l - {#t#}"
    using min_heap.inv_remove [OF wf] min_heap.elems_remove [OF wf] wf
    by (auto simp: timers_wf_def armed_def)
qed

lemma events_clear_same:
  assumes "m AND e = (0 :: u32)"
  shows "m AND NOT e = m"
proof -
  have "\<not> bit (m AND e) n" for n by (simp add: assms)
  then have "\<not> (bit m n \<and> bit e n)" for n by (simp only: bit_and_iff) simp
  then show ?thesis by (intro bit_word_eqI) (auto simp: bit_and_iff bit_not_iff)
qed

lemma clear_event_same: "events s AND e = 0 \<Longrightarrow> clear_event e s = s"
  by (cases s) (simp add: clear_event_def events_clear_same)

lemma del_w_sel [simp]:
  "ios (del_w E io e w) p = (if p = io then clear_event e (ios w io) else ios w p)"
  "loops (del_w E io e w) = loops w" "tms (del_w E io e w) = tms w" "freed (del_w E io e w) = freed w"
  "uevents (del_w E io e w) = uevents w" "timers_wf (del_w E io e w) l = timers_wf w l"
  "armed (del_w E io e w) l = armed w l" "epoll_loop (del_w E io e w) l = epoll_loop w l"
  by (auto simp: del_w_def clear_event_same)

lemma del_w_trace:
  "trace (del_w E io e w) = trace w @
     (if events (ios w io) AND e = 0 then []
      else [Sys (Epoll_ctl EPOLL_CTL_DEL (fd (ios w io)) 0)
             (os E (trace w) (Epoll_ctl EPOLL_CTL_DEL (fd (ios w io)) 0))])"
  by (simp add: del_w_def)

subsection \<open>The operations are these steps\<close>

lemma io_del_w:
  assumes "io \<noteq> NULL" "epoll_loop w (ev_loop (ios w io))"
  shows "io_del E io e w = Inr (0, del_w E io e w)"
proof -
  obtain d where d: "disp_data (loops w (ev_loop (ios w io))) = Disp_epoll d" and l: "ev_loop (ios w io) \<noteq> NULL"
    using assms(2) by (auto simp: epoll_loop_def)
  show ?thesis
    using assms(1) l d
    by (simp add: io_del_def disp_del_epoll [where d = d] del_w_def set_io_def sys_done_def clear_event_def Let_def)
qed

lemma call_io_cb_quiet:
  "quiet_user E \<Longrightarrow> user_cb c \<Longrightarrow> call_io_cb E c io w =
     Inr ((), case c of User_cb f \<Rightarrow> w\<lparr>trace := trace w @ [User (Call_io f io)]\<rparr> | _ \<Rightarrow> w)"
  by (cases c) (simp_all add: call_io_cb_def quiet_user_def)

definition called :: "callback \<Rightarrow> ptr \<Rightarrow> world \<Rightarrow> world" where
  "called c io w = (case c of User_cb f \<Rightarrow> w\<lparr>trace := trace w @ [User (Call_io f io)]\<rparr> | _ \<Rightarrow> w)"

lemma called_sel [simp]:
  "ios (called c io w) = ios w" "loops (called c io w) = loops w" "tms (called c io w) = tms w"
  "freed (called c io w) = freed w" "uevents (called c io w) = uevents w"
  "timers_wf (called c io w) l = timers_wf w l" "armed (called c io w) l = armed w l"
  "epoll_loop (called c io w) l = epoll_loop w l"
  by (simp_all add: called_def timers_wf_def armed_def timer_key_abs epoll_loop_def split: callback.split)

definition free_w :: "env \<Rightarrow> ptr \<Rightarrow> world \<Rightarrow> world" where
  "free_w E io w =
     (let w = (if ssl_ctx (ios w io) = NULL then w
               else set_io io (\<lambda>s. s\<lparr>ssl_ctx := NULL\<rparr>) (sys_done E (Ssl_ctx_free (ssl_ctx (ios w io))) w));
          w = (if ssl (ios w io) = NULL then w
               else set_io io (\<lambda>s. s\<lparr>ssl := NULL\<rparr>) (sys_done E (Ssl_free (ssl (ios w io))) w))
      in set_io io (\<lambda>s. s\<lparr>read_buf := None, write_buf := None, write_mutex := Destroyed\<rparr>) w)"

lemma free_io_w: "io \<noteq> NULL \<Longrightarrow> free_io E io w = Inr ((), free_w E io w)"
  by (simp add: free_io_def ssl_free_def ssl_ctx_free_def free_w_def Let_def set_io_def sys_done_def)

lemma io_st_same [simp]:
  "ssl_ctx s = NULL \<Longrightarrow> s\<lparr>ssl_ctx := NULL\<rparr> = s" "ssl s = NULL \<Longrightarrow> s\<lparr>ssl := NULL\<rparr> = s"
  by (cases s; simp)+

lemma free_w_sel [simp]:
  "ios (free_w E io w) p = (if p = io then released (ios w io) else ios w p)"
  "loops (free_w E io w) = loops w" "tms (free_w E io w) = tms w" "freed (free_w E io w) = freed w"
  "uevents (free_w E io w) = uevents w" "timers_wf (free_w E io w) l = timers_wf w l"
  "armed (free_w E io w) l = armed w l" "epoll_loop (free_w E io w) l = epoll_loop w l"
  by (simp_all add: free_w_def Let_def released_def)


text \<open>Dropping one timer of an io, running its close callback, closing its descriptor.\<close>

datatype timer_kind = Read_timer | Write_timer | Connect_timer | Close_timer

primrec timer_of :: "timer_kind \<Rightarrow> io_st \<Rightarrow> ptr" where
  "timer_of Read_timer s = read_timer s"
| "timer_of Write_timer s = write_timer s"
| "timer_of Connect_timer s = connect_timer s"
| "timer_of Close_timer s = close_timer s"

definition clear_timer :: "timer_kind \<Rightarrow> io_st \<Rightarrow> io_st" where
  "clear_timer k s =
     (if timer_of k s = NULL then s
      else case k of
        Read_timer \<Rightarrow> s\<lparr>read_timeout := 0, read_timer := NULL\<rparr>
      | Write_timer \<Rightarrow> s\<lparr>write_timeout := 0, write_timer := NULL\<rparr>
      | Connect_timer \<Rightarrow> s\<lparr>connect_timeout := 0, connect_timer := NULL\<rparr>
      | Close_timer \<Rightarrow> s\<lparr>close_timeout := 0, close_timer := NULL\<rparr>)"

lemma clear_timer_sel [simp]:
  "closed (clear_timer k s) = closed s" "write_mutex (clear_timer k s) = write_mutex s"
  "events (clear_timer k s) = events s" "read_buf (clear_timer k s) = read_buf s"
  "write_buf (clear_timer k s) = write_buf s" "ev_loop (clear_timer k s) = ev_loop s"
  "pending (clear_timer k s) = pending s" "next_event (clear_timer k s) = next_event s"
  "fd (clear_timer k s) = fd s" "close_cb (clear_timer k s) = close_cb s"
  "ssl (clear_timer k s) = ssl s" "ssl_ctx (clear_timer k s) = ssl_ctx s"
  "timer_of k' (clear_timer k s) = (if k' = k then NULL else timer_of k' s)"
  by (cases k; cases k'; simp add: clear_timer_def)+

lemma io_steps_sel [simp]:
  "closed (clear_event e s) = closed s"
  "write_mutex (clear_event e s) = write_mutex s"
  "read_buf (clear_event e s) = read_buf s"
  "write_buf (clear_event e s) = write_buf s"
  "ev_loop (clear_event e s) = ev_loop s"
  "pending (clear_event e s) = pending s"
  "next_event (clear_event e s) = next_event s"
  "fd (clear_event e s) = fd s"
  "close_cb (clear_event e s) = close_cb s"
  "timer_of k (clear_event e s) = timer_of k s" "events (clear_event e s) = events s AND NOT e"
  "events (mark_closed s) = events s"
  "read_buf (mark_closed s) = read_buf s"
  "write_buf (mark_closed s) = write_buf s"
  "ev_loop (mark_closed s) = ev_loop s"
  "pending (mark_closed s) = pending s"
  "next_event (mark_closed s) = next_event s"
  "fd (mark_closed s) = fd s"
  "close_cb (mark_closed s) = close_cb s"
  "timer_of k (mark_closed s) = timer_of k s" "closed (mark_closed s)" "write_mutex (mark_closed s) = Unlocked"
  "closed (drop_fd s) = closed s"
  "write_mutex (drop_fd s) = write_mutex s"
  "events (drop_fd s) = events s"
  "read_buf (drop_fd s) = read_buf s"
  "write_buf (drop_fd s) = write_buf s"
  "ev_loop (drop_fd s) = ev_loop s"
  "pending (drop_fd s) = pending s"
  "next_event (drop_fd s) = next_event s"
  "close_cb (drop_fd s) = close_cb s"
  "timer_of k (drop_fd s) = timer_of k s" "fd (drop_fd s) = (if fd s = 0 then 0 else -1)"
  "closed (released s) = closed s"
  "events (released s) = events s"
  "ev_loop (released s) = ev_loop s"
  "pending (released s) = pending s"
  "next_event (released s) = next_event s"
  "fd (released s) = fd s"
  "close_cb (released s) = close_cb s"
  "timer_of k (released s) = timer_of k s" "read_buf (released s) = None" "write_buf (released s) = None"
  "write_mutex (released s) = Destroyed"
  by (cases k; simp add: clear_event_def mark_closed_def drop_fd_def released_def)+

definition drop_timer :: "timer_kind \<Rightarrow> ptr \<Rightarrow> ptr \<Rightarrow> world \<Rightarrow> world" where
  "drop_timer k l io w = set_io io (clear_timer k) (disarm_w l (timer_of k (ios w io)) w)"

lemma drop_timer_sel [simp]:
  "ios (drop_timer k l io w) p = (if p = io then clear_timer k (ios w io) else ios w p)"
  "tms (drop_timer k l io w) = tms w" "trace (drop_timer k l io w) = trace w"
  "freed (drop_timer k l io w) = freed w" "uevents (drop_timer k l io w) = uevents w"
  "timers_wf w l \<Longrightarrow> timers_wf (drop_timer k l io w) l"
  "timers_wf w l \<Longrightarrow> armed (drop_timer k l io w) l = armed w l - {#timer_of k (ios w io)#}"
  by (simp_all add: drop_timer_def)

definition close_called :: "ptr \<Rightarrow> world \<Rightarrow> world" where
  "close_called io w = called (close_cb (ios w io)) io w"

definition close_fd :: "env \<Rightarrow> ptr \<Rightarrow> world \<Rightarrow> world" where
  "close_fd E io w =
     (if fd (ios w io) = 0 then w
      else set_io io (\<lambda>s. s\<lparr>fd := -1\<rparr>) (sys_done E (Close (fd (ios w io))) w))"

definition marked_closed :: "ptr \<Rightarrow> world \<Rightarrow> world" where
  "marked_closed io w = set_io io mark_closed w"

definition closed_world :: "env \<Rightarrow> ptr \<Rightarrow> world \<Rightarrow> world" where
  "closed_world E io w =
     free_w E io (close_fd E io (close_called io
       (drop_timer Close_timer (ev_loop (ios w io)) io (drop_timer Connect_timer (ev_loop (ios w io)) io
       (drop_timer Write_timer (ev_loop (ios w io)) io (drop_timer Read_timer (ev_loop (ios w io)) io
       (del_w E io EVENT_WRITE (del_w E io EVENT_READ (marked_closed io w)))))))))"

lemma close_called_sel [simp]:
  "ios (close_called io w) = ios w" "loops (close_called io w) = loops w" "tms (close_called io w) = tms w"
  "freed (close_called io w) = freed w" "timers_wf (close_called io w) l = timers_wf w l"
  "armed (close_called io w) l = armed w l"
  by (simp_all add: close_called_def)

lemma fd_same: "fd s = 0 \<Longrightarrow> s\<lparr>fd := 0\<rparr> = s"
  by (cases s) simp

lemma close_fd_sel [simp]:
  "ios (close_fd E io w) p = (if p = io then drop_fd (ios w io) else ios w p)"
  "loops (close_fd E io w) = loops w" "tms (close_fd E io w) = tms w" "freed (close_fd E io w) = freed w"
  "timers_wf (close_fd E io w) l = timers_wf w l" "armed (close_fd E io w) l = armed w l"
  by (simp_all add: close_fd_def fd_same drop_fd_def)

lemma marked_closed_sel [simp]:
  "ios (marked_closed io w) p = (if p = io then mark_closed (ios w io) else ios w p)"
  "loops (marked_closed io w) = loops w" "tms (marked_closed io w) = tms w" "trace (marked_closed io w) = trace w"
  "freed (marked_closed io w) = freed w" "timers_wf (marked_closed io w) l = timers_wf w l"
  "armed (marked_closed io w) l = armed w l" "epoll_loop (marked_closed io w) l = epoll_loop w l"
  by (simp_all add: marked_closed_def)

lemma io_remove_w:
  assumes "io \<noteq> NULL" "ev_loop (ios w io) \<noteq> NULL"
  shows "io_remove_read_timeout io w = Inr ((), drop_timer Read_timer (ev_loop (ios w io)) io w)"
    and "io_remove_write_timeout io w = Inr ((), drop_timer Write_timer (ev_loop (ios w io)) io w)"
    and "io_remove_close_timeout io w = Inr ((), drop_timer Close_timer (ev_loop (ios w io)) io w)"
    and "io_remove_connect_timeout io w = Inr ((), drop_timer Connect_timer (ev_loop (ios w io)) io w)"
  using assms
  by (simp_all add: io_remove_read_timeout_def io_remove_write_timeout_def io_remove_close_timeout_def
      io_remove_connect_timeout_def drop_timer_def disarm_w_def set_io_def clear_timer_def)

lemma io_close_already_closed:
  "io \<noteq> NULL \<Longrightarrow> write_mutex (ios w io) = Unlocked \<Longrightarrow> closed (ios w io) \<Longrightarrow>
   io_close E io w = Inr ((), set_io io (\<lambda>s. s\<lparr>write_mutex := Unlocked\<rparr>) w)"
  by (simp add: io_close_def set_io_def)

lemma close_socket_w:
  "io \<noteq> NULL \<Longrightarrow> close_socket E io w =
     Inr ((), set_io io (\<lambda>s. s\<lparr>fd := -1\<rparr>) (sys_done E (Close (fd (ios w io))) w))"
  by (simp add: close_socket_def set_io_def sys_done_def)

lemma case_skip: "(case x of Inl e \<Rightarrow> Inl e | Inr (a, w') \<Rightarrow> skip w') = x"
  by (cases x) auto

lemma close_step:
  assumes "io \<noteq> NULL" "write_mutex (ios w io) = Unlocked" "\<not> closed (ios w io)"
  shows "io_close E io w =
    runs [bindM (io_del E io EVENT_READ) (\<lambda>_. skip),
         bindM (io_del E io EVENT_WRITE) (\<lambda>_. skip),
         io_remove_read_timeout io,
         io_remove_write_timeout io,
         io_remove_connect_timeout io,
         io_remove_close_timeout io,
         with_io io (\<lambda>s. call_io_cb E (close_cb s) io),
         with_io io (\<lambda>s. whenM (fd s \<noteq> 0) (close_socket E io)),
         free_io E io] (marked_closed io w)"
  using assms by (simp add: io_close_def marked_closed_def mark_closed_def set_io_def case_skip)

lemma io_close_w:
  assumes "io \<noteq> NULL" "write_mutex (ios w io) = Unlocked" "\<not> closed (ios w io)"
    and "epoll_loop w (ev_loop (ios w io))" "quiet_user E" "user_cb (close_cb (ios w io))"
  shows "io_close E io w = Inr ((), closed_world E io w)"
proof -
  define l where "l = ev_loop (ios w io)"
  define w0 where "w0 = marked_closed io w"
  define w1 where "w1 = del_w E io EVENT_READ w0"
  define w2 where "w2 = del_w E io EVENT_WRITE w1"
  define w3 where "w3 = drop_timer Read_timer l io w2"
  define w4 where "w4 = drop_timer Write_timer l io w3"
  define w5 where "w5 = drop_timer Connect_timer l io w4"
  define w6 where "w6 = drop_timer Close_timer l io w5"
  define w7 where "w7 = close_called io w6"
  define w8 where "w8 = close_fd E io w7"
  have ep: "epoll_loop w0 l" "epoll_loop w1 l" and l: "l \<noteq> NULL"
    using assms(4) by (simp_all add: w0_def w1_def l_def epoll_loop_def)
  have cb0: "close_cb (ios w0 io) = close_cb (ios w io)" by (simp add: w0_def)
  have cb1: "close_cb (ios w2 io) = close_cb (ios w0 io)" by (simp add: w1_def w2_def)
  have cb2: "close_cb (ios w6 io) = close_cb (ios w2 io)" by (simp add: w6_def w5_def w4_def w3_def)
  have lp: "ev_loop (ios w0 io) = l" by (simp add: w0_def l_def)
  have lp1: "ev_loop (ios w1 io) = l" using lp by (simp add: w1_def)
  have lp2: "ev_loop (ios w2 io) = l" using lp1 by (simp add: w2_def)
  have lp3: "ev_loop (ios w3 io) = l" using lp2 by (simp add: w3_def)
  have lp4: "ev_loop (ios w4 io) = l" using lp3 by (simp add: w4_def)
  have lp5: "ev_loop (ios w5 io) = l" using lp4 by (simp add: w5_def)
  have "io_del E io EVENT_READ w0 = Inr (0, w1)"
    using assms(1) ep lp by (simp add: io_del_w w1_def)
  moreover have "io_del E io EVENT_WRITE w1 = Inr (0, w2)"
    using assms(1) ep lp1 by (simp add: io_del_w w2_def)
  moreover have "io_remove_read_timeout io w2 = Inr ((), w3)"
    using io_remove_w(1) [OF assms(1)] l lp2 by (simp add: w3_def drop_timer_def)
  moreover have "io_remove_write_timeout io w3 = Inr ((), w4)"
    using io_remove_w(2) [OF assms(1)] l lp3 by (simp add: w4_def drop_timer_def)
  moreover have "io_remove_connect_timeout io w4 = Inr ((), w5)"
    using io_remove_w(4) [OF assms(1)] l lp4 by (simp add: w5_def drop_timer_def)
  moreover have "io_remove_close_timeout io w5 = Inr ((), w6)"
    using io_remove_w(3) [OF assms(1)] l lp5 by (simp add: w6_def drop_timer_def)
  moreover have "call_io_cb E (close_cb (ios w6 io)) io w6 = Inr ((), w7)"
    using assms(1,5,6) cb0 cb1 cb2 by (simp add: call_io_cb_quiet called_def [symmetric] close_called_def w7_def)
  moreover have "whenM (fd (ios w7 io) \<noteq> 0) (close_socket E io) w7 = Inr ((), w8)"
    using assms(1) by (simp add: close_socket_w close_fd_def w8_def)
  moreover have "free_io E io w8 = Inr ((), free_w E io w8)"
    using assms(1) by (rule free_io_w)
  moreover have "closed_world E io w = free_w E io w8"
    by (simp only: closed_world_def w8_def w7_def w6_def w5_def w4_def w3_def w2_def w1_def w0_def l_def)
  ultimately show ?thesis
    unfolding close_step [OF assms(1,2,3)] w0_def [symmetric]
    using assms(1) by simp
qed


subsection \<open>Properties\<close>

text \<open>How often a history closes a descriptor, and how often it takes one off epoll.\<close>

fun closes :: "int \<Rightarrow> act \<Rightarrow> nat" where
  "closes n (Sys (Close n') r) = (if n' = n then 1 else 0)"
| "closes n a = 0"

fun ctl_dels :: "int \<Rightarrow> act \<Rightarrow> nat" where
  "ctl_dels n (Sys (Epoll_ctl EPOLL_CTL_DEL n' e) r) = (if n' = n then 1 else 0)"
| "ctl_dels n a = 0"

definition count_acts :: "(act \<Rightarrow> nat) \<Rightarrow> act list \<Rightarrow> nat" where
  "count_acts f tr = sum_list (map f tr)"

lemma count_acts_simps [simp]:
  "count_acts f [] = 0" "count_acts f (a # tr) = f a + count_acts f tr"
  "count_acts f (tr @ tr') = count_acts f tr + count_acts f tr'"
  by (simp_all add: count_acts_def)

lemma called_trace: "trace (called c io w) = trace w @ (case c of User_cb f \<Rightarrow> [User (Call_io f io)] | _ \<Rightarrow> [])"
  by (simp add: called_def split: callback.split)

lemma free_w_trace: "\<exists>tr. trace (free_w E io w) = trace w @ tr
    \<and> (\<forall>a\<in>set tr. \<exists>c r. a = Sys c r \<and> (\<exists>p. c = Ssl_free p \<or> c = Ssl_ctx_free p))"
  by (auto simp: free_w_def Let_def)

lemma count_acts_zero: "\<forall>a\<in>set tr. f a = 0 \<Longrightarrow> count_acts f tr = 0"
  by (induction tr) simp_all

lemma closed_world_closes:
  "count_acts (closes n) (trace (closed_world E io w)) =
     count_acts (closes n) (trace w) + (if fd (ios w io) \<noteq> 0 \<and> fd (ios w io) = n then 1 else 0)"
proof -
  obtain tr where tr: "trace (free_w E io v) = trace v @ tr"
    "\<forall>a\<in>set tr. \<exists>c r. a = Sys c r \<and> (\<exists>p. c = Ssl_free p \<or> c = Ssl_ctx_free p)"
    if "v = close_fd E io (close_called io
       (drop_timer Close_timer (ev_loop (ios w io)) io (drop_timer Connect_timer (ev_loop (ios w io)) io
       (drop_timer Write_timer (ev_loop (ios w io)) io (drop_timer Read_timer (ev_loop (ios w io)) io
       (del_w E io EVENT_WRITE (del_w E io EVENT_READ (marked_closed io w))))))))" for v
    using free_w_trace by metis
  have "count_acts (closes n) tr = 0" using tr(2) by (intro count_acts_zero) auto
  then show ?thesis
    by (simp add: closed_world_def tr(1) close_fd_def close_called_def called_trace del_w_trace
        split: callback.split)
qed


lemma clear_both: "((m AND NOT EVENT_READ) AND NOT EVENT_WRITE) AND (EVENT_READ OR EVENT_WRITE) = (0 :: u32)"
  by (rule bit_word_eqI) (simp only: bit_and_iff bit_or_iff bit_not_iff, auto)

lemma timer_fields:
  "read_timer s = timer_of Read_timer s" "write_timer s = timer_of Write_timer s"
  "connect_timer s = timer_of Connect_timer s" "close_timer s = timer_of Close_timer s"
  by simp_all

lemma closed_world_io:
  "closed (ios (closed_world E io w) io)" "write_mutex (ios (closed_world E io w) io) = Destroyed"
  "read_buf (ios (closed_world E io w) io) = None" "write_buf (ios (closed_world E io w) io) = None"
  "ev_loop (ios (closed_world E io w) io) = ev_loop (ios w io)"
  "pending (ios (closed_world E io w) io) = pending (ios w io)"
  "next_event (ios (closed_world E io w) io) = next_event (ios w io)"
  by (simp_all add: closed_world_def)

lemma closed_world_timer_of: "timer_of k (ios (closed_world E io w) io) = NULL"
  by (cases k) (simp_all add: closed_world_def del: timer_of.simps)

lemma closed_world_events: "events (ios (closed_world E io w) io) AND (EVENT_READ OR EVENT_WRITE) = 0"
  using clear_both [of "events (ios w io)"] by (simp add: closed_world_def)

lemma closed_world_other [simp]: "p \<noteq> io \<Longrightarrow> ios (closed_world E io w) p = ios w p"
  by (simp add: closed_world_def)

lemma closed_world_timers:
  assumes "timers_wf w (ev_loop (ios w io))"
  shows "timers_wf (closed_world E io w) (ev_loop (ios w io))"
    and "armed (closed_world E io w) (ev_loop (ios w io)) = armed w (ev_loop (ios w io))
      - {#read_timer (ios w io)#} - {#write_timer (ios w io)#}
      - {#connect_timer (ios w io)#} - {#close_timer (ios w io)#}"
  using assms by (simp_all add: closed_world_def timer_fields del: timer_of.simps)

lemma closed_world_tms [simp]: "tms (closed_world E io w) = tms w" "freed (closed_world E io w) = freed w"
  by (simp_all add: closed_world_def)


text \<open>After a close the mutex is gone. Writing to or closing an io that was closed locks its
  destroyed mutex before it looks at the closed flag, which is undefined behaviour of pthreads.\<close>

theorem io_use_after_close:
  assumes "io \<noteq> NULL" "write_mutex (ios w io) = Unlocked" "\<not> closed (ios w io)"
    and "epoll_loop w (ev_loop (ios w io))" "quiet_user E" "user_cb (close_cb (ios w io))"
  shows "\<exists>w'. io_close E io w = Inr ((), w') \<and> io_close E io w' = Inl Destroyed_mutex
    \<and> io_write E io data w' = Inl Destroyed_mutex"
proof -
  have "write_mutex (ios (closed_world E io w) io) = Destroyed" by (simp add: closed_world_io)
  then show ?thesis
    using io_close_w [OF assms] assms(1) by (simp add: io_close_def io_write_def)
qed

end
