(* ===== verification/IoWrite.thy ===== *)
theory IoWrite
  imports IoClose
begin

section \<open>The byte stream of a connection: io_write and io_write_cb of src/io.c\<close>

text \<open>
  What a connection promises: the bytes the kernel has accepted, followed by the bytes waiting in the
  write buffer, are the bytes handed to \<open>io_write\<close>, in order, until the io is closed. The abstract
  state is that one byte list; the facts below say how each operation moves it.
\<close>

text \<open>
  The end of both branches: the user is told where the waiting bytes start (with the offset added
  to the count), and the bytes written leave the buffer.
\<close>

definition wrote_waiting :: "env \<Rightarrow> callback \<Rightarrow> ptr \<Rightarrow> buffer_st \<Rightarrow> int \<Rightarrow> unit m" where
  "wrote_waiting E c io b nwrite = runs [
     call_write_cb E c io (take (tail b - head b) (drop (head b) (base b))) (int (head b) + nwrite),
     with_write_buf io (\<lambda>b. set_write_buf io
       (if nwrite = int (tail b) - int (head b) then b\<lparr>head := 0, tail := 0\<rparr>
        else b\<lparr>head := head b + nat nwrite\<rparr>)),
     mutex_unlock io]"

definition io_write_cb :: "env \<Rightarrow> ptr \<Rightarrow> unit m" where
  "io_write_cb E io = with_io io (\<lambda>s0.
     if closed s0 then skip
     else bindM (mutex_lock io) (\<lambda>_.
       bindM (bindM (get_curtime_ms E) (\<lambda>t. upd_io io (\<lambda>s. s\<lparr>last_write_time := t\<rparr>))) (\<lambda>_.
       with_io io (\<lambda>s. with_write_buf io (\<lambda>b.
         if buffer_is_empty b then mutex_unlock io
         else
           let waiting = take (tail b - head b) (drop (head b) (base b)) in
           if io_type s = IO_TYPE_SSL then
             bindM (ssl_get_error_code E (ssl s) 0) (\<lambda>ssl_err.
             bindM (ssl_write E (ssl s) waiting) (\<lambda>nwrite.
               if nwrite < 0 then runs [
                 whenM (ssl_err \<noteq> SSL_ERROR_WANT_READ \<and> ssl_err \<noteq> SSL_ERROR_WANT_WRITE) (io_close E io),
                 mutex_unlock io]
               else wrote_waiting E (write_cb s) io b nwrite))
           else
             bindM (syscall E (Write (fd s) waiting)) (\<lambda>r.
               let nwrite = ret r in
               if nwrite < 0 then
                 (if err r = EAGAIN \<or> err r = EINTR then mutex_unlock io
                  else runs [io_close E io, mutex_unlock io])
               else wrote_waiting E (write_cb s) io b nwrite))))))"

subsection \<open>The abstract stream\<close>

fun sent_of :: "int \<Rightarrow> act \<Rightarrow> byte list" where
  "sent_of n (Sys (Write n' bs) r) = (if n' = n \<and> 0 \<le> ret r then take (nat (ret r)) bs else [])"
| "sent_of n a = []"

definition sent :: "int \<Rightarrow> act list \<Rightarrow> byte list" where
  "sent n tr = concat (map (sent_of n) tr)"

definition waiting_in :: "buffer_st \<Rightarrow> byte list" where
  "waiting_in b = take (tail b - head b) (drop (head b) (base b))"

definition backlog :: "world \<Rightarrow> ptr \<Rightarrow> byte list" where
  "backlog w io = (case write_buf (ios w io) of None \<Rightarrow> [] | Some b \<Rightarrow> waiting_in b)"

definition stream :: "world \<Rightarrow> ptr \<Rightarrow> byte list" where
  "stream w io = sent (fd (ios w io)) (trace w) @ backlog w io"

definition buf_ok :: "buffer_st \<Rightarrow> bool" where
  "buf_ok b \<longleftrightarrow> head b \<le> tail b \<and> tail b \<le> maxSize b \<and> maxSize b = length (base b) \<and> maxSize b < 2 ^ 63"

text \<open>An open plain connection on an epoll loop, its mutex in a given state.\<close>

definition conn_open :: "mutex \<Rightarrow> world \<Rightarrow> ptr \<Rightarrow> bool" where
  "conn_open m w io \<longleftrightarrow> io \<noteq> NULL \<and> \<not> closed (ios w io) \<and> write_mutex (ios w io) = m
     \<and> io_type (ios w io) = IO_TYPE_TCP \<and> fd (ios w io) \<noteq> -1
     \<and> epoll_loop w (ev_loop (ios w io)) \<and> user_cb (close_cb (ios w io)) \<and> user_cb (write_cb (ios w io))
     \<and> (\<exists>b. write_buf (ios w io) = Some b \<and> buf_ok b)"

text \<open>The kernel never accepts more than it was given.\<close>

definition writes_ok :: "env \<Rightarrow> bool" where
  "writes_ok E \<longleftrightarrow> (\<forall>h n bs. ret (os E h (Write n bs)) \<le> int (length bs))"

lemma sent_simps [simp]:
  "sent n [] = []" "sent n (tr @ tr') = sent n tr @ sent n tr'" "sent n (a # tr) = sent_of n a @ sent n tr"
  by (simp_all add: sent_def)

lemma length_put_bytes [simp]: "off + length bs \<le> length mem \<Longrightarrow> length (put_bytes mem off bs) = length mem"
  by (simp add: put_bytes_def)

lemma append_waiting:
  assumes "buf_ok b" "tail b + length bs \<le> maxSize b"
  shows "waiting_in (b\<lparr>base := put_bytes (base b) (tail b) bs, tail := tail b + length bs\<rparr>) = waiting_in b @ bs"
    and "buf_ok (b\<lparr>base := put_bytes (base b) (tail b) bs, tail := tail b + length bs\<rparr>)"
  using assms by (simp_all add: waiting_in_def buf_ok_def put_bytes_def drop_take)

lemma consume_waiting:
  assumes "buf_ok b" "k \<le> tail b - head b"
  shows "waiting_in (if int k = int (tail b) - int (head b) then b\<lparr>head := 0, tail := 0\<rparr>
      else b\<lparr>head := head b + k\<rparr>) = drop k (waiting_in b)"
    and "buf_ok (if int k = int (tail b) - int (head b) then b\<lparr>head := 0, tail := 0\<rparr>
      else b\<lparr>head := head b + k\<rparr>)"
  using assms by (auto simp: waiting_in_def buf_ok_def drop_take add.commute)

subsection \<open>Steps\<close>

lemma buffer_append_run:
  assumes "io \<noteq> NULL" "write_buf (ios w io) = Some b" "buf_ok b" "length bs < 2 ^ 63"
  shows "buffer_append_data io bs w =
    (if tail b + length bs > maxSize b then Inr (-1, w)
     else Inr (0, set_io io (\<lambda>s. s\<lparr>write_buf := Some (b\<lparr>base := put_bytes (base b) (tail b) bs,
                                     tail := tail b + length bs\<rparr>)\<rparr>) w))"
proof -
  have "tail b + length bs < 2 ^ 64" using assms(3,4) by (simp add: buf_ok_def)
  then have "size_add (tail b) (length bs) = tail b + length bs" by (rule size_add_exact)
  then show ?thesis
    using assms by (simp add: buffer_append_data_def with_write_buf_def set_write_buf_def set_io_def buf_ok_def)
qed

definition add_w :: "env \<Rightarrow> ptr \<Rightarrow> callback \<Rightarrow> u32 \<Rightarrow> world \<Rightarrow> world" where
  "add_w E io c e w =
     (if events (ios w io) AND e = 0
      then sys_done E (Epoll_ctl EPOLL_CTL_ADD (fd (ios w io)) (e AND 3))
        (set_io io (\<lambda>s. s\<lparr>cb := c, events := events s OR e\<rparr>) w)
      else set_io io (\<lambda>s. s\<lparr>cb := c\<rparr>) w)"

lemma io_add_w:
  assumes "io \<noteq> NULL" "epoll_loop w (ev_loop (ios w io))"
  shows "io_add E io c e w = Inr (0, add_w E io c e w)"
proof -
  obtain d where d: "disp_data (loops w (ev_loop (ios w io))) = Disp_epoll d" and l: "ev_loop (ios w io) \<noteq> NULL"
    using assms(2) by (auto simp: epoll_loop_def)
  show ?thesis
    using assms(1) l d
    by (simp add: io_add_def disp_add_epoll [where d = d] add_w_def set_io_def sys_done_def Let_def)
qed

lemma add_w_sel:
  "fd (ios (add_w E io c e w) io) = fd (ios w io)" "write_buf (ios (add_w E io c e w) io) = write_buf (ios w io)"
  "closed (ios (add_w E io c e w) io) = closed (ios w io)" "cb (ios (add_w E io c e w) io) = c"
  "write_mutex (ios (add_w E io c e w) io) = write_mutex (ios w io)"
  "sent n (trace (add_w E io c e w)) = sent n (trace w)"
  "conn_open m (add_w E io c e w) io = conn_open m w io"
  by (simp_all add: add_w_def conn_open_def)


lemma call_write_cb_quiet:
  assumes "quiet_user E" "user_cb c"
  shows "\<exists>tr. call_write_cb E c io data n w = Inr ((), w\<lparr>trace := trace w @ tr\<rparr>) \<and> (\<forall>m. sent m tr = [])"
proof (cases c)
  case (User_cb f)
  then show ?thesis
    using assms(1) by (intro exI [of _ "[User (Call_write f io data n)]"]) (simp add: call_write_cb_def quiet_user_def)
qed (use assms in \<open>auto simp: call_write_cb_def intro: exI [of _ "[]"]\<close>)

lemma sent_free: "sent n (trace (free_w E io w)) = sent n (trace w)"
  by (simp add: free_w_def Let_def)

lemma sent_closed_world: "sent n (trace (closed_world E io w)) = sent n (trace w)"
  by (simp add: closed_world_def sent_free close_fd_def close_called_def called_trace del_w_trace
      split: callback.split)

definition unlocked :: "ptr \<Rightarrow> world \<Rightarrow> world" where
  "unlocked io w = set_io io (\<lambda>s. s\<lparr>write_mutex := Unlocked\<rparr>) w"

definition locked :: "ptr \<Rightarrow> world \<Rightarrow> world" where
  "locked io w = set_io io (\<lambda>s. s\<lparr>write_mutex := Locked\<rparr>) w"

lemma lock_sel:
  "conn_open m (unlocked io w) io \<longleftrightarrow> m = Unlocked \<and> (\<exists>m'. conn_open m' w io)"
  "conn_open m (locked io w) io \<longleftrightarrow> m = Locked \<and> (\<exists>m'. conn_open m' w io)"
  "stream (unlocked io w) io = stream w io" "stream (locked io w) io = stream w io"
  by (auto simp: unlocked_def locked_def conn_open_def stream_def backlog_def)

lemma unlock_run: "io \<noteq> NULL \<Longrightarrow> write_mutex (ios w io) \<noteq> Destroyed \<Longrightarrow> mutex_unlock io w = Inr ((), unlocked io w)"
  by (simp add: unlocked_def set_io_def)

lemma close_unlocked:
  assumes "conn_open m w io" "quiet_user E"
  shows "io_close E io (unlocked io w) = Inr ((), closed_world E io (unlocked io w))"
  using assms by (intro io_close_w) (simp_all add: conn_open_def unlocked_def)

text \<open>The result of an operation that is given \<open>bs\<close> to send while the stream is \<open>s\<close>: either the io
  stays open and the stream has grown by \<open>bs\<close>, or it was closed and only a prefix went out.\<close>

definition accepted :: "byte list \<Rightarrow> byte list \<Rightarrow> world \<Rightarrow> world \<Rightarrow> ptr \<Rightarrow> bool" where
  "accepted s bs w w' io \<longleftrightarrow>
     conn_open Unlocked w' io \<and> stream w' io = s @ bs
     \<or> closed (ios w' io) \<and> (\<exists>k. sent (fd (ios w io)) (trace w') @ k = s @ bs)"

lemma closed_accepted:
  assumes "stream w1 io @ rest = s @ bs" "fd (ios w1 io) = fd (ios w io)"
  shows "accepted s bs w (closed_world E io (unlocked io w1)) io"
proof -
  have "trace (unlocked io w1) = trace w1" by (simp add: unlocked_def)
  then have "sent (fd (ios w io)) (trace (closed_world E io (unlocked io w1))) @ (backlog w1 io @ rest) = s @ bs"
    using assms by (simp add: sent_closed_world stream_def)
  then show ?thesis
    unfolding accepted_def using closed_world_io(1) by blast
qed

text \<open>Buffering the rest: either it fits and the code goes on, or the io is closed.\<close>

lemma buffer_rest_run:
  assumes "conn_open Locked w io" "quiet_user E" "length rest < 2 ^ 63"
  shows "buffer_rest E io rest n after w = Inr (n, closed_world E io (unlocked io w)) \<or>
    (\<exists>w'. buffer_rest E io rest n after w = after w' \<and> conn_open Locked w' io
      \<and> stream w' io = stream w io @ rest \<and> fd (ios w' io) = fd (ios w io) \<and> cb (ios w' io) = Io_write_cb)"
proof -
  obtain b where b: "write_buf (ios w io) = Some b" "buf_ok b" using assms(1) by (auto simp: conn_open_def)
  have io: "io \<noteq> NULL" using assms(1) by (simp add: conn_open_def)
  show ?thesis
  proof (cases "tail b + length rest > maxSize b")
    case True
    then show ?thesis
      using buffer_append_run [OF io b assms(3)] close_unlocked [OF assms(1,2)] assms(1)
      by (simp add: buffer_rest_def conn_open_def unlock_run [unfolded unlocked_def set_io_def] unlocked_def set_io_def)
  next
    case False
    define b' where "b' = b\<lparr>base := put_bytes (base b) (tail b) rest, tail := tail b + length rest\<rparr>"
    define w1 where "w1 = set_io io (\<lambda>s. s\<lparr>write_buf := Some b'\<rparr>) w"
    have b': "waiting_in b' = waiting_in b @ rest" "buf_ok b'"
      using append_waiting [OF b(2), of rest] False by (simp_all add: b'_def)
    have app: "buffer_append_data io rest w = Inr (0, w1)"
      using buffer_append_run [OF io b assms(3)] False by (simp add: w1_def b'_def)
    have open1: "conn_open Locked w1 io"
      using assms(1) b'(2) by (auto simp: conn_open_def w1_def)
    have "buffer_rest E io rest n after w = after (add_w E io Io_write_cb EVENT_WRITE w1)"
      using app io_add_w [of io w1] open1 by (simp add: buffer_rest_def conn_open_def)
    moreover have "stream (add_w E io Io_write_cb EVENT_WRITE w1) io = stream w io @ rest"
      using b b' by (simp add: stream_def backlog_def add_w_sel w1_def)
    ultimately show ?thesis
      using open1 by (auto simp: add_w_sel w1_def)
  qed
qed


lemma io_write_end_run:
  assumes "conn_open Locked w io"
  shows "\<exists>w'. io_write_end E io n w = Inr (n, w') \<and> conn_open Unlocked w' io
    \<and> stream w' io = stream w io \<and> cb (ios w' io) = cb (ios w io)"
  using assms
  by (auto simp: io_write_end_def get_curtime_ms_def conn_open_def stream_def backlog_def epoll_loop_def)

text \<open>What a connection is after the kernel took \<open>k\<close> bytes while nothing was waiting.\<close>

lemma wrote_direct:
  assumes "conn_open Locked w io" "backlog w io = []" "0 \<le> ret r"
  shows "conn_open Locked (w\<lparr>trace := trace w @ [Sys (Write (fd (ios w io)) bs) r]\<rparr>) io"
    and "stream (w\<lparr>trace := trace w @ [Sys (Write (fd (ios w io)) bs) r]\<rparr>) io
      = stream w io @ take (nat (ret r)) bs"
  using assms by (auto simp: conn_open_def epoll_loop_def stream_def backlog_def)

lemma wrote_nothing:
  assumes "conn_open m w io" "ret r < 0"
  shows "conn_open m (w\<lparr>trace := trace w @ [Sys (Write (fd (ios w io)) bs) r]\<rparr>) io"
    and "stream (w\<lparr>trace := trace w @ [Sys (Write (fd (ios w io)) bs) r]\<rparr>) io = stream w io"
  using assms by (auto simp: conn_open_def epoll_loop_def stream_def backlog_def)

lemma wrote_calls:
  assumes "conn_open m w io" "\<forall>n. sent n tr = []"
  shows "conn_open m (w\<lparr>trace := trace w @ tr\<rparr>) io" "stream (w\<lparr>trace := trace w @ tr\<rparr>) io = stream w io"
  using assms by (auto simp: conn_open_def epoll_loop_def stream_def backlog_def)

text \<open>Buffering the rest, as seen by the caller of \<open>io_write\<close>.\<close>

lemma buffer_rest_accepted:
  assumes "conn_open Locked w io" "quiet_user E" "length rest < 2 ^ 63"
    and "stream w io @ rest = s @ bs" "fd (ios w io) = fd (ios w0 io)"
    and "\<And>v. conn_open Locked v io \<Longrightarrow> \<exists>v'. after v = Inr (n, v') \<and> conn_open Unlocked v' io
      \<and> stream v' io = stream v io \<and> cb (ios v' io) = cb (ios v io)"
  shows "\<exists>w'. buffer_rest E io rest n after w = Inr (n, w') \<and> accepted s bs w0 w' io
    \<and> (closed (ios w' io) \<or> cb (ios w' io) = Io_write_cb)"
  using buffer_rest_run [OF assms(1-3), of n after]
proof (elim disjE exE conjE)
  assume "buffer_rest E io rest n after w = Inr (n, closed_world E io (unlocked io w))"
  moreover have "accepted s bs w0 (closed_world E io (unlocked io w)) io"
    by (rule closed_accepted [OF assms(4,5)])
  ultimately show ?thesis using closed_world_io(1) by blast
next
  fix w' assume w': "buffer_rest E io rest n after w = after w'" "conn_open Locked w' io"
    "stream w' io = stream w io @ rest" "cb (ios w' io) = Io_write_cb"
  then obtain v' where "after w' = Inr (n, v')" "conn_open Unlocked v' io" "stream v' io = stream w' io"
    "cb (ios v' io) = cb (ios w' io)"
    using assms(6) by blast
  then show ?thesis using w' assms(4) by (auto simp: accepted_def)
qed

lemma io_write_tcp_accepted:
  assumes "conn_open Locked w io" "quiet_user E" "writes_ok E" "length bs < 2 ^ 63" "backlog w io = []"
  shows "\<exists>r w'. io_write_tcp E io bs w = Inr (r, w') \<and> accepted (stream w io) bs w w' io
    \<and> (let k = ret (os E (trace w) (Write (fd (ios w io)) bs))
       in 0 \<le> k \<and> nat k < length bs \<longrightarrow> closed (ios w' io) \<or> cb (ios w' io) = Io_write_cb)"
proof -
  define c where "c = Write (fd (ios w io)) bs"
  define r where "r = os E (trace w) c"
  define w1 where "w1 = w\<lparr>trace := trace w @ [Sys c r]\<rparr>"
  note kr = r_def [unfolded c_def, symmetric]
  have io: "io \<noteq> NULL" "fd (ios w io) \<noteq> -1" using assms(1) by (simp_all add: conn_open_def)
  have same: "ios w1 = ios w" by (simp add: w1_def)
  have le: "nat (ret r) \<le> length bs" using assms(3) by (simp add: r_def c_def writes_ok_def nat_le_iff)
  have uc: "user_cb (write_cb (ios w io))" using assms(1) by (simp add: conn_open_def)
  consider (again) "ret r < 0" "err r = EAGAIN \<or> err r = EINTR"
    | (fail) "ret r < 0" "err r \<noteq> EAGAIN" "err r \<noteq> EINTR"
    | (part) "0 \<le> ret r" "nat (ret r) < length bs" | (all) "0 \<le> ret r" "nat (ret r) = length bs"
    using le by linarith
  then show ?thesis
  proof cases
    case again
    have w1: "conn_open Locked w1 io" "stream w1 io = stream w io"
      using wrote_nothing [OF assms(1) again(1)] by (simp_all add: w1_def c_def)
    have "io_write_tcp E io bs w = buffer_rest E io bs 0 (run_then [mutex_unlock io] (retM 0)) w1"
      using io again by (auto simp: io_write_tcp_def c_def [symmetric] r_def [symmetric] w1_def Let_def)
    moreover have "\<exists>w'. buffer_rest E io bs 0 (run_then [mutex_unlock io] (retM 0)) w1 = Inr (0, w')
        \<and> accepted (stream w io) bs w w' io \<and> (closed (ios w' io) \<or> cb (ios w' io) = Io_write_cb)"
      using w1 io
      by (intro buffer_rest_accepted assms)
        (auto simp: same lock_sel unlock_run conn_open_def stream_def backlog_def epoll_loop_def)
    ultimately show ?thesis using again by (auto simp: kr Let_def)
  next
    case fail
    have w1: "conn_open Locked w1 io" "stream w1 io = stream w io"
      using wrote_nothing [OF assms(1) fail(1)] by (simp_all add: w1_def c_def)
    have "io_write_tcp E io bs w = Inr (-1, closed_world E io (unlocked io w1))"
      using io fail close_unlocked [OF w1(1) assms(2)] w1(1)
      by (simp add: io_write_tcp_def c_def [symmetric] r_def [symmetric] w1_def [symmetric] Let_def
          conn_open_def unlocked_def set_io_def)
    then show ?thesis using closed_accepted [of w1 io bs "stream w io" bs w E] w1(2) same fail by (auto simp: kr Let_def)
  next
    case part
    define rest where "rest = drop (nat (ret r)) bs"
    have w1: "conn_open Locked w1 io" "stream w1 io = stream w io @ take (nat (ret r)) bs"
      using wrote_direct [OF assms(1,5) part(1)] by (simp_all add: w1_def c_def)
    obtain tr where tr: "call_write_cb E (write_cb (ios w io)) io rest (int (length rest)) w1
        = Inr ((), w1\<lparr>trace := trace w1 @ tr\<rparr>)" "\<forall>m. sent m tr = []"
      using call_write_cb_quiet [OF assms(2) uc] by blast
    define w2 where "w2 = w1\<lparr>trace := trace w1 @ tr\<rparr>"
    have w2: "conn_open Locked w2 io" "stream w2 io @ rest = stream w io @ bs"
      using wrote_calls [OF w1(1) tr(2)] w1(2) by (simp_all add: w2_def rest_def)
    have "io_write_tcp E io bs w = buffer_rest E io rest (ret r) (io_write_end E io (ret r)) w2"
      using io part tr(1)
      by (simp add: io_write_tcp_def write_cb_of_def c_def [symmetric] r_def [symmetric] w1_def [symmetric]
          w2_def Let_def rest_def same)
    moreover have "\<exists>w'. buffer_rest E io rest (ret r) (io_write_end E io (ret r)) w2 = Inr (ret r, w')
        \<and> accepted (stream w io) bs w w' io \<and> (closed (ios w' io) \<or> cb (ios w' io) = Io_write_cb)"
      using w2 assms(4) by (intro buffer_rest_accepted assms io_write_end_run) (simp_all add: w2_def same rest_def)
    ultimately show ?thesis by (auto simp: kr Let_def)
  next
    case all
    have w1: "conn_open Locked w1 io" "stream w1 io = stream w io @ bs"
      using wrote_direct [OF assms(1,5) all(1), of bs] all(2) by (simp_all add: w1_def c_def)
    obtain tr where tr: "call_write_cb E (write_cb (ios w io)) io bs (int (length bs)) w1
        = Inr ((), w1\<lparr>trace := trace w1 @ tr\<rparr>)" "\<forall>m. sent m tr = []"
      using call_write_cb_quiet [OF assms(2) uc] by blast
    define w2 where "w2 = w1\<lparr>trace := trace w1 @ tr\<rparr>"
    have w2: "conn_open Locked w2 io" "stream w2 io = stream w io @ bs"
      using wrote_calls [OF w1(1) tr(2)] w1(2) by (simp_all add: w2_def)
    have "io_write_tcp E io bs w = io_write_end E io (ret r) w2"
      using io all tr(1)
      by (simp add: io_write_tcp_def write_cb_of_def c_def [symmetric] r_def [symmetric] w1_def [symmetric]
          w2_def Let_def same)
    then show ?thesis
      using io_write_end_run [OF w2(1), of E "ret r"] w2(2) all by (auto simp: accepted_def kr Let_def)
  qed
qed


subsection \<open>Properties\<close>

text \<open>C11: No byte is lost or reordered on a TCP connection. On an open connection without TLS, in a
  loop with epoll, with a write and a close callback that leave the library alone, \<open>io_write\<close> returns
  whatever part of the data the kernel accepts: either the connection is still open, its mutex is
  released, and the stream (accepted by the kernel, then buffered) has grown by exactly the given
  bytes, or the connection was closed and what the kernel got is a prefix of that stream. (With TLS
  the mutex can stay locked: \<open>io_write_ssl_keeps_lock\<close> below.)\<close>

theorem io_write_stream:
  assumes "conn_open Unlocked w io" "quiet_user E" "writes_ok E" "length bs < 2 ^ 63"
  shows "\<exists>r w'. io_write E io bs w = Inr (r, w') \<and> accepted (stream w io) bs w w' io"
proof -
  obtain b where b: "write_buf (ios w io) = Some b" "buf_ok b" using assms(1) by (auto simp: conn_open_def)
  define w1 where "w1 = locked io w"
  have w1: "conn_open Locked w1 io" "stream w1 io = stream w io" "fd (ios w1 io) = fd (ios w io)"
    using assms(1) by (auto simp: w1_def lock_sel) (simp add: locked_def)
  have b1: "write_buf (ios w1 io) = Some b" using b by (simp add: w1_def locked_def)
  have io: "io \<noteq> NULL" and un: "write_mutex (ios w io) = Unlocked" "\<not> closed (ios w io)"
    "io_type (ios w io) = IO_TYPE_TCP"
    using assms(1) by (simp_all add: conn_open_def)
  have run: "io_write E io bs w =
      (if \<not> buffer_is_empty b then
         bindM (buffer_append_data io bs) (\<lambda>a.
           if a \<noteq> 0 then run_then [mutex_unlock io, io_close E io] (retM (-1))
           else run_then [mutex_unlock io] (retM 0))
       else io_write_tcp E io bs) w1"
    using io un b by (simp add: io_write_def with_write_buf_def w1_def locked_def set_io_def)
  show ?thesis
  proof (cases "buffer_is_empty b")
    case True
    then have "backlog w1 io = []" using b1 by (simp add: backlog_def waiting_in_def buffer_is_empty_def)
    then show ?thesis
      using run True io_write_tcp_accepted [OF w1(1) assms(2-4)] w1(2,3) by (auto simp: accepted_def)
  next
    case False
    show ?thesis
    proof (cases "tail b + length bs > maxSize b")
      case True
      then have "io_write E io bs w = Inr (-1, closed_world E io (unlocked io w1))"
        using run False buffer_append_run [OF io b1 b(2) assms(4)] close_unlocked [OF w1(1) assms(2)] io w1(1)
        by (simp add: conn_open_def unlocked_def set_io_def)
      then show ?thesis using closed_accepted [of w1 io bs "stream w io" bs w E] w1(2,3) by auto
    next
      case fits: False
      define b' where "b' = b\<lparr>base := put_bytes (base b) (tail b) bs, tail := tail b + length bs\<rparr>"
      define w2 where "w2 = set_io io (\<lambda>s. s\<lparr>write_buf := Some b'\<rparr>) w1"
      have b': "waiting_in b' = waiting_in b @ bs" "buf_ok b'"
        using append_waiting [OF b(2), of bs] fits by (simp_all add: b'_def)
      have w2: "conn_open Locked w2 io" "stream w2 io = stream w1 io @ bs"
        using w1(1) b1 b' by (auto simp: conn_open_def w2_def stream_def backlog_def)
      have "buffer_append_data io bs w1 = Inr (0, w2)"
        using buffer_append_run [OF io b1 b(2) assms(4)] fits by (simp add: w2_def b'_def)
      then have "io_write E io bs w = Inr (0, unlocked io w2)"
        using run False io w2(1) by (simp add: conn_open_def unlocked_def set_io_def)
      then show ?thesis using w2 w1 by (auto simp: accepted_def lock_sel)
    qed
  qed
qed

text \<open>Flushing moves bytes and loses none. When the socket becomes writable, \<open>io_write_cb\<close> hands
  the waiting bytes to the kernel; unless the write fails for good it returns with the mutex
  released and the stream unchanged. If it fails for good, the code closes the io while it holds the
  mutex that closing locks first: it never returns.\<close>

theorem io_write_cb_stream:
  assumes "conn_open Unlocked w io" "quiet_user E" "writes_ok E"
  shows "(\<exists>w'. io_write_cb E io w = Inr ((), w') \<and> conn_open Unlocked w' io \<and> stream w' io = stream w io)
    \<or> io_write_cb E io w = Inl Deadlock \<and> backlog w io \<noteq> []"
proof -
  obtain b where b: "write_buf (ios w io) = Some b" "buf_ok b" using assms(1) by (auto simp: conn_open_def)
  have io: "io \<noteq> NULL" and un: "write_mutex (ios w io) = Unlocked" "\<not> closed (ios w io)"
    "io_type (ios w io) = IO_TYPE_TCP" "user_cb (write_cb (ios w io))"
    using assms(1) by (simp_all add: conn_open_def)
  define g where "g = os E (trace w) Gettimeofday"
  define w1 where "w1 = w\<lparr>ios := (ios w)(io := (ios w io)\<lparr>write_mutex := Locked,
      last_write_time := of_int (tv_sec g * 1000 + tv_usec g div 1000)\<rparr>), trace := trace w @ [Sys Gettimeofday g]\<rparr>"
  have w1: "conn_open Locked w1 io" "stream w1 io = stream w io" "backlog w1 io = backlog w io"
    "write_cb (ios w1 io) = write_cb (ios w io)"
    using assms(1) by (auto simp: w1_def conn_open_def stream_def backlog_def epoll_loop_def)
  have b1: "write_buf (ios w1 io) = Some b" using b by (simp add: w1_def)
  define wb where "wb = waiting_in b"
  define r where "r = os E (trace w1) (Write (fd (ios w1 io)) wb)"
  define w2 where "w2 = w1\<lparr>trace := trace w1 @ [Sys (Write (fd (ios w1 io)) wb) r]\<rparr>"
  have bl: "backlog w io = wb" using b by (simp add: backlog_def wb_def)
  have len: "length wb = tail b - head b" using b(2) by (auto simp: wb_def waiting_in_def buf_ok_def min_def)
  have unl: "(\<exists>w'. mutex_unlock io v = Inr ((), w') \<and> conn_open Unlocked w' io \<and> stream w' io = stream w io)"
    if "conn_open Locked v io" "stream v io = stream w io" for v
  proof -
    have "mutex_unlock io v = Inr ((), unlocked io v)"
      using that(1) io by (intro unlock_run) (simp_all add: conn_open_def)
    then show ?thesis using that by (auto simp: lock_sel)
  qed
  show ?thesis
  proof (cases "buffer_is_empty b")
    case True
    have "io_write_cb E io w = mutex_unlock io w1"
      using io un b True
      by (simp add: io_write_cb_def with_write_buf_def get_curtime_ms_def w1_def g_def set_io_def)
    then show ?thesis using unl [OF w1(1,2)] by simp
  next
    case False
    define after where "after = wrote_waiting E (write_cb (ios w io)) io b (ret r)"
    have "wb \<noteq> []" using False b(2) len by (auto simp: buffer_is_empty_def buf_ok_def)
    have run: "io_write_cb E io w =
      (if ret r < 0 then (if err r = EAGAIN \<or> err r = EINTR then mutex_unlock io
                          else runs [io_close E io, mutex_unlock io]) else after) w2"
      using io un b False w1(4) unfolding after_def w2_def r_def wb_def waiting_in_def
      by (simp add: io_write_cb_def with_write_buf_def get_curtime_ms_def w1_def g_def set_io_def Let_def)
    consider (again) "ret r < 0" "err r = EAGAIN \<or> err r = EINTR"
      | (fail) "ret r < 0" "err r \<noteq> EAGAIN" "err r \<noteq> EINTR" | (ok) "0 \<le> ret r" by linarith
    then show ?thesis
    proof cases
      case again
      have "conn_open Locked w2 io" "stream w2 io = stream w io"
        using wrote_nothing [OF w1(1) again(1), of wb] w1(2) by (simp_all add: w2_def)
      then show ?thesis using run again unl by simp
    next
      case fail
      have "write_mutex (ios w2 io) = Locked" using w1(1) by (simp add: w2_def conn_open_def)
      then have "io_write_cb E io w = Inl Deadlock" using run fail io by (simp add: io_close_def)
      then show ?thesis using bl \<open>wb \<noteq> []\<close> by simp
    next
      case ok
      define k where "k = nat (ret r)"
      have k: "int k = ret r" "k \<le> tail b - head b"
      proof -
        have "ret r \<le> int (length wb)" using assms(3) by (simp add: r_def writes_ok_def)
        then show "int k = ret r" "k \<le> tail b - head b" using ok len by (simp_all add: k_def nat_le_iff)
      qed
      define b' where "b' = (if int k = int (tail b) - int (head b) then b\<lparr>head := 0, tail := 0\<rparr>
          else b\<lparr>head := head b + k\<rparr>)"
      have b': "waiting_in b' = drop k wb" "buf_ok b'"
        using consume_waiting [OF b(2) k(2)] by (simp_all add: b'_def wb_def)
      obtain tr where tr: "call_write_cb E (write_cb (ios w io)) io wb (int (head b) + ret r) w2
          = Inr ((), w2\<lparr>trace := trace w2 @ tr\<rparr>)" "\<forall>m. sent m tr = []"
        using call_write_cb_quiet [OF assms(2) un(4)] by blast
      define w3 where "w3 = set_io io (\<lambda>s. s\<lparr>write_buf := Some b'\<rparr>) (w2\<lparr>trace := trace w2 @ tr\<rparr>)"
      have "after w2 = mutex_unlock io w3"
        using io tr(1) b1 k(1)
        by (simp add: after_def wrote_waiting_def wb_def [unfolded waiting_in_def, symmetric] with_write_buf_def set_write_buf_def w3_def w2_def set_io_def b'_def k_def [symmetric]
            case_skip del: mutex_unlock_run)
      moreover have "conn_open Locked w3 io"
        using w1(1) b'(2) by (auto simp: w3_def w2_def conn_open_def epoll_loop_def)
      moreover have "stream w3 io = stream w1 io"
        using tr(2) b1 b'(1) ok
        by (simp add: stream_def backlog_def w3_def w2_def k_def wb_def)
      ultimately show ?thesis using run ok w1(2) unl by simp
    qed
  qed
qed


text \<open>The TLS branch keeps the mutex. When OpenSSL takes only part of the data and the rest fits
  the buffer, \<open>io_write\<close> returns without releasing the mutex, so the next write on the connection
  never returns.\<close>

theorem io_write_ssl_keeps_lock:
  assumes "io \<noteq> NULL" "\<not> closed (ios w io)" "write_mutex (ios w io) = Unlocked"
    and "io_type (ios w io) = IO_TYPE_SSL" "write_cb (ios w io) = No_cb" "epoll_loop w (ev_loop (ios w io))"
    and "write_buf (ios w io) = Some b" "buf_ok b" "buffer_is_empty b"
    and "os E (trace w) (Ssl_write (ssl (ios w io)) bs) = r" "0 \<le> ret r" "nat (ret r) < length bs"
    and "length bs < 2 ^ 63" "tail b + length bs \<le> maxSize b"
  shows "\<exists>w'. io_write E io bs w = Inr (ret r, w') \<and> write_mutex (ios w' io) = Locked
    \<and> io_write E io bs2 w' = Inl Deadlock"
proof -
  define w1 where "w1 = (locked io w)\<lparr>trace := trace w @ [Sys (Ssl_write (ssl (ios w io)) bs) r]\<rparr>"
  define rest where "rest = drop (nat (ret r)) bs"
  define b' where "b' = b\<lparr>base := put_bytes (base b) (tail b) rest, tail := tail b + length rest\<rparr>"
  define w2 where "w2 = set_io io (\<lambda>s. s\<lparr>write_buf := Some b'\<rparr>) w1"
  have "write_buf (ios w1 io) = Some b" using assms(7) by (simp add: w1_def locked_def)
  moreover have "length rest < 2 ^ 63" "\<not> tail b + length rest > maxSize b"
    using assms(13,14) by (simp_all add: rest_def)
  ultimately have app: "buffer_append_data io rest w1 = Inr (0, w2)"
    using buffer_append_run [OF assms(1) _ assms(8)] by (simp add: w2_def b'_def)
  have "epoll_loop w2 (ev_loop (ios w2 io))"
    using assms(6) by (simp add: w2_def w1_def locked_def epoll_loop_def)
  then have add: "io_add E io Io_write_cb EVENT_WRITE w2 = Inr (0, add_w E io Io_write_cb EVENT_WRITE w2)"
    by (rule io_add_w [OF assms(1)])
  have w1': "w\<lparr>ios := (ios w)(io := (ios w io)\<lparr>write_mutex := Locked\<rparr>),
      trace := trace w @ [Sys (Ssl_write (ssl (ios w io)) bs) r]\<rparr> = w1"
    by (simp add: w1_def locked_def set_io_def)
  have "write_cb (ios w1 io) = No_cb" using assms(5) by (simp add: w1_def locked_def)
  then have "io_write E io bs w = Inr (ret r, add_w E io Io_write_cb EVENT_WRITE w2)"
    using assms app add
    by (simp add: io_write_def with_write_buf_def io_write_ssl_def ssl_write_def w1' write_cb_of_def call_write_cb_def
        buffer_rest_def rest_def [symmetric])
  moreover have "write_mutex (ios (add_w E io Io_write_cb EVENT_WRITE w2) io) = Locked"
    by (simp add: add_w_sel w2_def w1_def locked_def)
  ultimately show ?thesis using assms(1) by (simp add: io_write_def)
qed


subsection \<open>The hypotheses hold\<close>

text \<open>An open connection with three bytes waiting, and a kernel that takes one byte per write.\<close>

definition conn_world :: world where
  "conn_world = timers_world\<lparr>
     loops := (\<lambda>l. (loops timers_world l)\<lparr>disp_data := Disp_epoll \<lparr>epfd = 3, events_capacity = 1024\<rparr>\<rparr>),
     ios := (\<lambda>io. (ios timers_world io)\<lparr>fd := 5, events := 3, connect_timer := 0,
       write_buf := Some \<lparr>base = [7, 8, 9, 0, 0, 0, 0, 0], len = 8, head = 0, tail = 3, maxSize = 8\<rparr>,
       read_buf := Some \<lparr>base = [0, 0, 0, 0], len = 4, head = 0, tail = 0, maxSize = 4\<rparr>\<rparr>)\<rparr>"

definition one_byte_env :: env where
  "one_byte_env = \<lparr>os = (\<lambda>_ c. sample_sys\<lparr>ret := (case c of Write n bs \<Rightarrow> if bs = [] then 0 else 1 | _ \<Rightarrow> 0)\<rparr>),
     user = (\<lambda>_ w. Inr ((), w))\<rparr>"

lemma conn_world_open: "conn_open Unlocked conn_world 4"
  by (simp add: conn_open_def conn_world_def timers_world_def zero_io_def epoll_loop_def buf_ok_def)

lemma one_byte_env_ok: "quiet_user one_byte_env" "writes_ok one_byte_env"
  by (simp_all add: quiet_user_def one_byte_env_def writes_ok_def sample_sys_def Suc_le_eq)

lemma io_write_stream_witness:
  "\<exists>r w'. io_write one_byte_env 4 [1, 2] conn_world = Inr (r, w') \<and> accepted (stream conn_world 4) [1, 2] conn_world w' 4"
  by (rule io_write_stream [OF conn_world_open one_byte_env_ok]) simp

lemma io_write_cb_stream_witness:
  "(\<exists>w'. io_write_cb one_byte_env 4 conn_world = Inr ((), w') \<and> conn_open Unlocked w' 4 \<and> stream w' 4 = stream conn_world 4)
    \<or> io_write_cb one_byte_env 4 conn_world = Inl Deadlock \<and> backlog conn_world 4 \<noteq> []"
  by (rule io_write_cb_stream [OF conn_world_open one_byte_env_ok])

definition ssl_world :: world where
  "ssl_world = conn_world\<lparr>ios := (\<lambda>io. (ios conn_world io)\<lparr>io_type := IO_TYPE_SSL, ssl := 9,
     write_buf := Some \<lparr>base = replicate 8 0, len = 8, head = 0, tail = 0, maxSize = 8\<rparr>\<rparr>)\<rparr>"

lemma io_write_ssl_keeps_lock_witness:
  "\<exists>w'. io_write one_byte_env 4 [1, 2] ssl_world = Inr (0, w') \<and> write_mutex (ios w' 4) = Locked
    \<and> io_write one_byte_env 4 [3] w' = Inl Deadlock"
proof -
  have "os one_byte_env (trace ssl_world) (Ssl_write (ssl (ios ssl_world 4)) [1, 2]) = sample_sys\<lparr>ret := 0\<rparr>"
    by (simp add: one_byte_env_def)
  then show ?thesis
    using io_write_ssl_keeps_lock [of 4 ssl_world "\<lparr>base = replicate 8 0, len = 8, head = 0, tail = 0, maxSize = 8\<rparr>"
        one_byte_env "[1, 2]" "sample_sys\<lparr>ret := 0\<rparr>" "[3]"]
    by (simp add: ssl_world_def conn_world_def timers_world_def zero_io_def epoll_loop_def buf_ok_def buffer_is_empty_def)
qed

lemma conn_world_wf: "timers_wf conn_world 1"
  using timers_world_wf [of 1] by (simp add: timers_wf_def conn_world_def timer_key_abs)


lemma io_use_after_close_witness:
  "\<exists>w'. io_close one_byte_env 4 conn_world = Inr ((), w') \<and> io_close one_byte_env 4 w' = Inl Destroyed_mutex
    \<and> io_write one_byte_env 4 [1] w' = Inl Destroyed_mutex"
  using io_use_after_close [of 4 conn_world one_byte_env "[1]"] conn_world_open one_byte_env_ok(1)
  by (auto simp: conn_open_def)

end
