(* ===== verification/ThreadPool.thy ===== *)
theory ThreadPool
  imports World
begin

section \<open>Distributing connections: src/thread_pool.c\<close>

text \<open>
  A pool hands the loops of its threads out in turn and counts how many connections each thread got;
  without threads it hands out the main loop. A pool is a record in the store \<open>pools\<close>.
\<close>

definition with_pool :: "ptr \<Rightarrow> (thread_pool_st \<Rightarrow> 'a m) \<Rightarrow> 'a m" where
  "with_pool p f = (if p = NULL then failM Null_deref else readM (\<lambda>w. f (pools w p)))"

definition upd_pool :: "ptr \<Rightarrow> (thread_pool_st \<Rightarrow> thread_pool_st) \<Rightarrow> unit m" where
  "upd_pool p f =
     (if p = NULL then failM Null_deref
      else modifyM (\<lambda>w. w\<lparr>pools := (pools w)(p := f (pools w p))\<rparr>))"

definition thread_pool_new :: "env \<Rightarrow> ptr \<Rightarrow> int \<Rightarrow> ptr m" where
  "thread_pool_new E l n =
     bindM (malloc E) (\<lambda>p.
       if p = NULL then retM NULL
       else run_then [upd_pool p (\<lambda>_. \<lparr>main_loop = l, thread_number = n, event_loop_threads = [], pos = 0\<rparr>)]
         (retM p))"

definition thread_pool_get_next_loop :: "ptr \<Rightarrow> ptr m" where
  "thread_pool_get_next_loop p = with_pool p (\<lambda>s.
     if thread_number s > 0 then
       (let i = nat (pos s) in
        if pos s < 0 \<or> i \<ge> length (event_loop_threads s) then failM Out_of_bounds
        else let th = event_loop_threads s ! i in
          run_then [
            upd_pool p (\<lambda>s. s\<lparr>event_loop_threads :=
              (event_loop_threads s)[i := th\<lparr>thread_count := thread_count th + 1\<rparr>]\<rparr>),
            upd_pool p (\<lambda>s. s\<lparr>pos := (pos s + 1) mod thread_number s\<rparr>)]
            (retM (eventLoop th)))
     else retM (main_loop s))"

subsection \<open>Turns\<close>

text \<open>A number of calls one after the other, with the loops they return.\<close>

fun next_loops :: "nat \<Rightarrow> ptr \<Rightarrow> ptr list m" where
  "next_loops 0 p = retM []"
| "next_loops (Suc k) p = bindM (thread_pool_get_next_loop p) (\<lambda>l. bindM (next_loops k p) (\<lambda>ls. retM (l # ls)))"

text \<open>A started pool: as many threads as announced, and its position within them.\<close>

definition pool_ok :: "thread_pool_st \<Rightarrow> bool" where
  "pool_ok s \<longleftrightarrow> 0 < thread_number s \<and> length (event_loop_threads s) = nat (thread_number s)
     \<and> 0 \<le> pos s \<and> pos s < thread_number s"

definition give_turn :: "thread_pool_st \<Rightarrow> thread_pool_st" where
  "give_turn s = (let i = nat (pos s); th = event_loop_threads s ! i in
     s\<lparr>event_loop_threads := (event_loop_threads s)[i := th\<lparr>thread_count := thread_count th + 1\<rparr>],
       pos := (pos s + 1) mod thread_number s\<rparr>)"

lemma get_next_loop_run:
  assumes "p \<noteq> NULL" "pool_ok (pools w p)"
  shows "thread_pool_get_next_loop p w =
    Inr (eventLoop (event_loop_threads (pools w p) ! nat (pos (pools w p))),
         w\<lparr>pools := (pools w)(p := give_turn (pools w p))\<rparr>)"
  using assms
  by (simp add: thread_pool_get_next_loop_def with_pool_def upd_pool_def pool_ok_def give_turn_def Let_def nat_less_iff not_le)

lemma give_turn_ok:
  assumes "pool_ok s"
  shows "pool_ok (give_turn s)" "thread_number (give_turn s) = thread_number s"
    "pos (give_turn s) = (pos s + 1) mod thread_number s"
    "map eventLoop (event_loop_threads (give_turn s)) = map eventLoop (event_loop_threads s)"
proof -
  show "map eventLoop (event_loop_threads (give_turn s)) = map eventLoop (event_loop_threads s)"
  proof (cases "nat (pos s) < length (event_loop_threads s)")
    case True
    then have "(map eventLoop (event_loop_threads s))[nat (pos s) := eventLoop (event_loop_threads s ! nat (pos s))]
        = map eventLoop (event_loop_threads s)"
      by (metis list_update_id nth_map)
    then show ?thesis by (simp add: give_turn_def Let_def map_update)
  qed (simp add: give_turn_def Let_def list_update_beyond)
qed (use assms in \<open>simp_all add: pool_ok_def give_turn_def Let_def\<close>)

lemma give_turn_count:
  assumes "pool_ok s" "i < length (event_loop_threads s)"
  shows "thread_count (event_loop_threads (give_turn s) ! i) =
    thread_count (event_loop_threads s ! i) + (if i = nat (pos s) then 1 else 0)"
  using assms by (auto simp: give_turn_def Let_def nth_list_update)

lemma turns_state:
  fixes s
  assumes "pool_ok s" "pos s = 0"
  defines "n \<equiv> nat (thread_number s)"
  shows "pool_ok ((give_turn ^^ k) s) \<and> thread_number ((give_turn ^^ k) s) = thread_number s
    \<and> nat (pos ((give_turn ^^ k) s)) = k mod n
    \<and> map eventLoop (event_loop_threads ((give_turn ^^ k) s)) = map eventLoop (event_loop_threads s)"
proof (induction k)
  case (Suc k)
  let ?s = "(give_turn ^^ k) s"
  have n: "thread_number s = int n" "0 < n" using assms(1) by (simp_all add: n_def pool_ok_def)
  have pos: "pos ?s = int (k mod n)" using Suc by (simp add: pool_ok_def) linarith
  have "pos (give_turn ?s) = (int (k mod n) + 1) mod int n"
    using give_turn_ok(3) [of ?s] Suc pos n by simp
  also have "\<dots> = int ((k mod n + 1) mod n)" by (simp add: zmod_int add.commute)
  finally have "nat (pos (give_turn ?s)) = Suc k mod n" by (simp add: mod_Suc_eq)
  then show ?case using Suc give_turn_ok(1,2,4) [of ?s] by simp
qed (use assms in simp)

text \<open>The share of thread \<open>i\<close> of \<open>n\<close> in \<open>k\<close> turns.\<close>

definition share :: "nat \<Rightarrow> nat \<Rightarrow> nat \<Rightarrow> nat" where
  "share n k i = (k + (n - 1 - i)) div n"

lemma share_Suc:
  assumes "i < n"
  shows "share n (Suc k) i = share n k i + (if k mod n = i then 1 else 0)"
proof -
  have "n dvd k + (n - 1 - i) + 1 \<longleftrightarrow> k mod n = i"
  proof -
    have eq: "k + (n - 1 - i) + 1 = (k div n) * n + (k mod n + (n - i))"
      using assms div_mult_mod_eq [of k n] by linarith
    have "n dvd k + (n - 1 - i) + 1 \<longleftrightarrow> n dvd k mod n + (n - i)"
      by (simp only: eq dvd_add_right_iff [OF dvd_triv_right])
    also have "\<dots> \<longleftrightarrow> k mod n = i"
    proof
      assume d: "n dvd k mod n + (n - i)"
      have "0 < k mod n + (n - i)" "k mod n + (n - i) < 2 * n"
        using assms mod_less_divisor [of n k] by linarith+
      moreover from d obtain q where "k mod n + (n - i) = n * q" ..
      ultimately have "q = 1"
        by (metis One_nat_def less_2_cases_iff mult.commute mult_less_cancel2 nat_mult_eq_1_iff mult_0_right not_less_zero)
      then have "k mod n + (n - i) = n" using \<open>k mod n + (n - i) = n * q\<close> by simp
      then show "k mod n = i" using assms by linarith
    qed (use assms in simp)
    finally show ?thesis .
  qed
  then show ?thesis
    using assms by (simp add: share_def div_Suc dvd_eq_mod_eq_0)
qed

lemma share_zero: "i < n \<Longrightarrow> share n 0 i = 0"
  by (simp add: share_def)

lemma turns_count:
  assumes "pool_ok s" "pos s = 0" "i < nat (thread_number s)"
  shows "thread_count (event_loop_threads ((give_turn ^^ k) s) ! i) =
    thread_count (event_loop_threads s ! i) + int (share (nat (thread_number s)) k i)"
proof (induction k)
  case (Suc k)
  have st: "pool_ok ((give_turn ^^ k) s)" "nat (pos ((give_turn ^^ k) s)) = k mod nat (thread_number s)"
    "thread_number ((give_turn ^^ k) s) = thread_number s"
    using turns_state [OF assms(1,2)] by simp_all
  have "i < length (event_loop_threads ((give_turn ^^ k) s))"
    using st(1,3) assms(3) by (simp add: pool_ok_def)
  then show ?case
    using give_turn_count [OF st(1), of i] Suc st(2) share_Suc [OF assms(3), of k] by auto
qed (use assms in \<open>simp add: share_zero\<close>)

lemma next_loops_run:
  assumes "p \<noteq> NULL" "pool_ok s" "pos s = 0" "pools w p = (give_turn ^^ j) s"
  shows "\<exists>w'. next_loops k p w = Inr (map (\<lambda>i. eventLoop (event_loop_threads s ! (i mod nat (thread_number s)))) [j..<j + k], w')
    \<and> pools w' p = (give_turn ^^ (j + k)) s"
  using assms(4)
proof (induction k arbitrary: j w)
  case (Suc k)
  let ?s = "(give_turn ^^ j) s"
  have st: "pool_ok ?s" "nat (pos ?s) = j mod nat (thread_number s)"
    "map eventLoop (event_loop_threads ?s) = map eventLoop (event_loop_threads s)"
    using turns_state [OF assms(2,3)] by simp_all
  have "j mod nat (thread_number s) < length (event_loop_threads s)"
    using assms(2) by (simp add: pool_ok_def)
  then have loop: "eventLoop (event_loop_threads ?s ! nat (pos ?s)) = eventLoop (event_loop_threads s ! (j mod nat (thread_number s)))"
    using st(2,3) by (metis length_map nth_map)
  define w1 where "w1 = w\<lparr>pools := (pools w)(p := give_turn ?s)\<rparr>"
  have "thread_pool_get_next_loop p w = Inr (eventLoop (event_loop_threads s ! (j mod nat (thread_number s))), w1)"
    using get_next_loop_run [OF assms(1), of w] st(1) Suc.prems loop by (simp add: w1_def)
  moreover obtain w' where "next_loops k p w1 =
      Inr (map (\<lambda>i. eventLoop (event_loop_threads s ! (i mod nat (thread_number s)))) [Suc j..<Suc j + k], w')"
    "pools w' p = (give_turn ^^ (Suc j + k)) s"
    using Suc.IH [of w1 "Suc j"] by (auto simp: w1_def)
  ultimately show ?case by (simp add: upt_rec [of j])
qed simp

text \<open>Round robin. \<open>k\<close> connections accepted on a started pool of \<open>n\<close> threads go to the threads
  in turn, starting with the first, and afterwards every thread has been counted \<open>k\<close> divided by
  \<open>n\<close> times, rounded so that earlier threads get the remainder: the load never differs by more
  than one.\<close>

theorem next_loops_round_robin:
  assumes "p \<noteq> NULL" "pool_ok (pools w p)" "pos (pools w p) = 0"
    and "n = nat (thread_number (pools w p))"
  shows "\<exists>w'. next_loops k p w = Inr (map (\<lambda>j. eventLoop (event_loop_threads (pools w p) ! (j mod n))) [0..<k], w')
    \<and> (\<forall>i<n. thread_count (event_loop_threads (pools w' p) ! i) =
          thread_count (event_loop_threads (pools w p) ! i) + int ((k + (n - 1 - i)) div n))"
proof -
  obtain w' where "next_loops k p w = Inr (map (\<lambda>j. eventLoop (event_loop_threads (pools w p) ! (j mod n))) [0..<k], w')"
    "pools w' p = (give_turn ^^ k) (pools w p)"
    using next_loops_run [OF assms(1,2,3), of w 0 k] assms(4) by auto
  then show ?thesis
    using turns_count [OF assms(2,3)] assms(4) by (auto simp: share_def)
qed

definition pool_world :: world where
  "pool_world = world0\<lparr>pools := (\<lambda>_. \<lparr>main_loop = 1, thread_number = 2,
     event_loop_threads = [\<lparr>eventLoop = 5, thread_count = 0\<rparr>, \<lparr>eventLoop = 6, thread_count = 0\<rparr>], pos = 0\<rparr>)\<rparr>"

lemma pool_world_pool:
  "pools pool_world p = \<lparr>main_loop = 1, thread_number = 2,
     event_loop_threads = [\<lparr>eventLoop = 5, thread_count = 0\<rparr>, \<lparr>eventLoop = 6, thread_count = 0\<rparr>], pos = 0\<rparr>"
  by (simp add: pool_world_def)

lemma next_loops_round_robin_witness:
  "\<exists>w'. next_loops 3 1 pool_world = Inr ([5, 6, 5], w')
    \<and> thread_count (event_loop_threads (pools w' 1) ! 0) = 2"
proof -
  have "pool_ok (pools pool_world 1)" by (simp add: pool_world_pool pool_ok_def)
  then obtain w' where w': "next_loops 3 1 pool_world = Inr (map (\<lambda>j. eventLoop (event_loop_threads (pools pool_world 1) ! (j mod 2))) [0..<3], w')"
    "\<forall>i<2. thread_count (event_loop_threads (pools w' 1) ! i) =
          thread_count (event_loop_threads (pools pool_world 1) ! i) + int ((3 + (2 - 1 - i)) div 2)"
    using next_loops_round_robin [of 1 pool_world 2 3] by (auto simp: pool_world_pool)
  moreover have "[0..<3] = [0, 1, 2::nat]" by (simp add: upt_rec)
  ultimately have "next_loops 3 1 pool_world = Inr ([5, 6, 5], w')" by (simp add: pool_world_pool)
  moreover have "thread_count (event_loop_threads (pools w' 1) ! 0) = 2"
    using w'(2) [rule_format, of 0] by (simp add: pool_world_pool)
  ultimately show ?thesis by blast
qed

end
