(* ===== verification/IoEvents.thy ===== *)
theory IoEvents
  imports IoWrite ThreadPool
begin

section \<open>What the loop calls when an io is ready (src/io.c, src/ssl/open_ssl.c, pipe_read_cb)\<close>

text \<open>
  Reading, accepting, connecting and the timeout callbacks, and \<open>handle_event\<close> that picks among
  them. \<open>call_event_cb\<close> is the call through \<open>event->cb\<close>. A user read callback gets the bytes that
  the buffer holds at the address and length it is passed.
\<close>

definition make_noblock_fd :: "env \<Rightarrow> int \<Rightarrow> unit m" where
  "make_noblock_fd E n = bindM (syscall E (Set_nonblock n)) (\<lambda>_. skip)"

definition create_socket :: "env \<Rightarrow> bool \<Rightarrow> int m" where
  "create_socket E non_block = bindM (syscall E Socket) (\<lambda>r.
     run_then [whenM non_block (make_noblock_fd E (ret r))] (retM (ret r)))"

subsection \<open>TLS\<close>

definition create_ssl_context :: "env \<Rightarrow> bool \<Rightarrow> ptr m" where
  "create_ssl_context E server = bindM (syscall E (Ssl_ctx_new server)) (\<lambda>r.
     if ret r = 0 then failM Exit_failure else retM (nat (ret r)))"

definition configure_context :: "env \<Rightarrow> ptr \<Rightarrow> string \<Rightarrow> string \<Rightarrow> unit m" where
  "configure_context E ctx cert key =
     bindM (syscall E (Ssl_use_certificate ctx ''certificate'' cert)) (\<lambda>r.
       if ret r \<le> 0 then failM Exit_failure
       else bindM (syscall E (Ssl_use_certificate ctx ''key'' key)) (\<lambda>r.
         if ret r \<le> 0 then failM Exit_failure else skip))"

definition ssl_new :: "env \<Rightarrow> ptr \<Rightarrow> int \<Rightarrow> ptr m" where
  "ssl_new E ctx n = bindM (syscall E (Ssl_new ctx n)) (\<lambda>r. retM (nat (ret r)))"

definition ssl_connect :: "env \<Rightarrow> ptr \<Rightarrow> int m" where
  "ssl_connect E s = bindM (syscall E (Ssl_connect s)) (\<lambda>r. retM (ret r))"

definition CSSL_WANT_READ :: int where
  "CSSL_WANT_READ = -2"

definition ssl_get_error :: "env \<Rightarrow> ptr \<Rightarrow> int \<Rightarrow> int m" where
  "ssl_get_error E s n = bindM (ssl_get_error_code E s n) (\<lambda>e.
     retM (if e = SSL_ERROR_WANT_READ then CSSL_WANT_READ else if e = SSL_ERROR_WANT_WRITE then -3 else -1))"

definition ssl_accept :: "env \<Rightarrow> ptr \<Rightarrow> int m" where
  "ssl_accept E s = bindM (syscall E (Ssl_accept s)) (\<lambda>r.
     if ret r = 1 then retM 0 else ssl_get_error E s (ret r))"

definition ssl_server_handshake :: "env \<Rightarrow> ptr \<Rightarrow> int m" where
  "ssl_server_handshake E io = with_io io (\<lambda>s.
     bindM (ssl_accept E (ssl s)) (\<lambda>r.
       if r = 0 then run_then [
           with_io io (\<lambda>s. call_io_cb E (accept_cb s) io),
           bindM (io_read_enable E io) (\<lambda>_. skip)] (retM 0)
       else if r = CSSL_WANT_READ then run_then [
           with_io io (\<lambda>s. whenM (events s AND EVENT_READ = 0)
             (bindM (io_add E io Ssl_server_handshake EVENT_READ) (\<lambda>_. skip)))] (retM (-1))
       else run_then [io_close E io] (retM (-1))))"

subsection \<open>Connecting and accepting\<close>

text \<open>The chain is only printed.\<close>

definition ssl_get_peer_cert_chain :: "env \<Rightarrow> ptr \<Rightarrow> unit m" where
  "ssl_get_peer_cert_chain E p = bindM (syscall E (Ssl_print_certs p)) (\<lambda>_. skip)"

text \<open>Both branches end with the connect callback and, after it, read interest.\<close>

definition connected :: "env \<Rightarrow> ptr \<Rightarrow> bool \<Rightarrow> unit m" where
  "connected E io tls = with_io io (\<lambda>s. whenM (connect_cb s \<noteq> No_cb) (runs [
     call_io_cb E (connect_cb s) io,
     whenM tls (with_io io (\<lambda>s. ssl_get_peer_cert_chain E (ssl s))),
     bindM (io_read_enable E io) (\<lambda>_. skip)]))"

definition io_connect_cb :: "env \<Rightarrow> ptr \<Rightarrow> unit m" where
  "io_connect_cb E io = runs [
     bindM (get_curtime_ms E) (\<lambda>t. upd_io io (\<lambda>s. s\<lparr>last_read_time := t\<rparr>)),
     with_io io (\<lambda>s. bindM (syscall E (Getpeername (fd s))) (\<lambda>r.
       if ret r < 0 then io_close E io
       else runs [
         bindM (io_del E io EVENT_WRITE) (\<lambda>_. skip),
         with_io io (\<lambda>s.
           if io_type s = IO_TYPE_SSL then
             whenM (ssl_ctx s = NULL) (runs [
               bindM (create_ssl_context E False) (\<lambda>c. upd_io io (\<lambda>s. s\<lparr>ssl_ctx := c\<rparr>)),
               with_io io (\<lambda>s. bindM (ssl_new E (ssl_ctx s) (fd s)) (\<lambda>p. upd_io io (\<lambda>s. s\<lparr>ssl := p\<rparr>))),
               with_io io (\<lambda>s. bindM (ssl_connect E (ssl s)) (\<lambda>r.
                 if r < 0 then free_io E io else connected E io True))])
           else connected E io False)]))]"

definition io_accept_cb :: "env \<Rightarrow> ptr \<Rightarrow> unit m" where
  "io_accept_cb E io = with_io io (\<lambda>s. bindM (syscall E (Accept (fd s))) (\<lambda>r.
     if ret r < 0 then skip
     else bindM (make_noblock_fd E (ret r)) (\<lambda>_.
       bindM (if threadPool s \<noteq> NULL then thread_pool_get_next_loop (threadPool s) else retM (ev_loop s)) (\<lambda>l.
       bindM (get_io E l (ret r)) (\<lambda>c. runs [
         with_io io (\<lambda>s. upd_io c (\<lambda>t. t\<lparr>accept_cb := accept_cb s\<rparr>)),
         with_io io (\<lambda>s. upd_io c (\<lambda>t. t\<lparr>userdata := userdata s\<rparr>)),
         with_io io (\<lambda>s.
           if io_type s = IO_TYPE_SSL then
             with_io c (\<lambda>t. whenM (ssl_ctx t = NULL \<and> ssl t = NULL) (runs [
               upd_io c (\<lambda>t. t\<lparr>io_type := IO_TYPE_SSL\<rparr>),
               bindM (create_ssl_context E True) (\<lambda>x. upd_io c (\<lambda>t. t\<lparr>ssl_ctx := x\<rparr>)),
               with_io c (\<lambda>t. configure_context E (ssl_ctx t) (cert_file s) (key_file s)),
               with_io c (\<lambda>t. bindM (ssl_new E (ssl_ctx t) (fd t)) (\<lambda>x. upd_io c (\<lambda>t. t\<lparr>ssl := x\<rparr>))),
               bindM (ssl_server_handshake E c) (\<lambda>_. skip)]))
           else runs [
             bindM (io_read_enable E c) (\<lambda>_. skip),
             with_io c (\<lambda>t. call_io_cb E (accept_cb t) c)])])))))"

definition io_connect :: "env \<Rightarrow> ptr \<Rightarrow> int m" where
  "io_connect E io = bindM (malloc E) (\<lambda>a.
     if a = NULL then retM (-1)
     else with_io io (\<lambda>s. bindM (syscall E (Connect (fd s) (ip s) (port s))) (\<lambda>r.
       if ret r < 0 \<and> err r \<noteq> EINPROGRESS then retM (-1)
       else if ret r = 0 then bindM (io_connect_cb E io) (\<lambda>_. retM 0)
       else run_then [
         io_set_connect_timeout E io 5000,
         upd_io io (\<lambda>s. s\<lparr>connect := True\<rparr>)]
         (io_add E io Handle_event EVENT_WRITE))))"

definition io_set_reuse_addr :: "env \<Rightarrow> ptr \<Rightarrow> int m" where
  "io_set_reuse_addr E io = with_io io (\<lambda>s. bindM (syscall E (Setsockopt_reuse (fd s))) (\<lambda>r.
     retM (if ret r < 0 then -1 else 0)))"

definition io_bind :: "env \<Rightarrow> ptr \<Rightarrow> int m" where
  "io_bind E io = bindM (malloc E) (\<lambda>a.
     if a = NULL then failM Null_deref
     else with_io io (\<lambda>s. bindM (syscall E (Bind (fd s) (ip s) (port s))) (\<lambda>r.
       retM (if ret r < 0 then -1 else 0))))"

definition io_listen :: "env \<Rightarrow> ptr \<Rightarrow> int m" where
  "io_listen E io = with_io io (\<lambda>s. bindM (syscall E (Listen (fd s))) (\<lambda>r.
     retM (if ret r < 0 then -1 else 0)))"

definition io_accept :: "env \<Rightarrow> ptr \<Rightarrow> int m" where
  "io_accept E io = run_then [
     upd_io io (\<lambda>s. s\<lparr>accept := True\<rparr>),
     bindM (io_add E io Handle_event EVENT_READ) (\<lambda>_. skip)] (retM 0)"

subsection \<open>Custom events through the pipe\<close>

text \<open>
  \<open>pipe_read_cb\<close> runs one posted event for each byte read from the pipe, under the loop's mutex.
\<close>

definition loop_lock :: "ptr \<Rightarrow> unit m" where
  "loop_lock l = with_loop l (\<lambda>s. if loop_mutex s = Locked then failM Deadlock
     else upd_loop l (\<lambda>s. s\<lparr>loop_mutex := Locked\<rparr>))"

definition loop_unlock :: "ptr \<Rightarrow> unit m" where
  "loop_unlock l = upd_loop l (\<lambda>s. s\<lparr>loop_mutex := Unlocked\<rparr>)"

definition run_custom :: "env \<Rightarrow> ptr \<Rightarrow> nat \<Rightarrow> unit m" where
  "run_custom E l i = with_loop l (\<lambda>s.
     if i \<ge> length (custom_events s) then failM Out_of_bounds
     else let ev = custom_events s ! i in
       whenM (ev \<noteq> NULL) (with_event (Ev_user ev) (\<lambda>e.
         case cb e of No_cb \<Rightarrow> skip | User_cb f \<Rightarrow> call_user E (Call_event f ev) | _ \<Rightarrow> failM Bad_cast)))"

definition pipe_read_cb :: "env \<Rightarrow> ptr \<Rightarrow> nat \<Rightarrow> unit m" where
  "pipe_read_cb E io nbytes = with_io io (\<lambda>s. runs [
     loop_lock (ev_loop s),
     runs (map (run_custom E (ev_loop s)) [0..<nbytes]),
     upd_loop (ev_loop s) (\<lambda>ls. ls\<lparr>custom_events_num := 0\<rparr>),
     loop_unlock (ev_loop s)])"

definition loop_post_event :: "env \<Rightarrow> ptr \<Rightarrow> ptr \<Rightarrow> unit m" where
  "loop_post_event E l ev =
     (if l = NULL \<or> ev = NULL then skip
      else runs [
        loop_lock l,
        with_loop l (\<lambda>s. bindM (syscall E (Write (pipe_write_fd s) [0x68])) (\<lambda>r.
          if ret r \<noteq> 1 then loop_unlock l
          else with_loop l (\<lambda>s.
            if custom_events_num s < 0 \<or> nat (custom_events_num s) \<ge> length (custom_events s)
            then failM Out_of_bounds
            else runs [
              upd_loop l (\<lambda>s. s\<lparr>custom_events := (custom_events s)[nat (custom_events_num s) := ev],
                custom_events_num := custom_events_num s + 1\<rparr>),
              loop_unlock l])))])"

subsection \<open>Reading\<close>

definition call_read_cb :: "env \<Rightarrow> callback \<Rightarrow> ptr \<Rightarrow> byte list \<Rightarrow> unit m" where
  "call_read_cb E c io data =
     (case c of No_cb \<Rightarrow> skip
      | User_cb f \<Rightarrow> call_user E (Call_read f io data)
      | Pipe_read_cb \<Rightarrow> pipe_read_cb E io (length data)
      | _ \<Rightarrow> failM Bad_cast)"

text \<open>
  \<open>read\<close> stores what it delivers at the tail of the buffer. The sum of its result, an int, and
  the tail, a \<open>size_t\<close>, is taken in \<open>size_t\<close>.
\<close>

definition store_read :: "ptr \<Rightarrow> sys_result \<Rightarrow> buffer_st \<Rightarrow> unit m" where
  "store_read io r rb = whenM (0 < ret r) (upd_io io (\<lambda>s. s\<lparr>read_buf :=
     Some (rb\<lparr>base := put_bytes (base rb) (tail rb) (take (nat (ret r)) (bytes r))\<rparr>)\<rparr>))"

text \<open>The code after the read: close, wait for more, or hand the bytes to the callback.\<close>

definition read_done :: "env \<Rightarrow> ptr \<Rightarrow> sys_result \<Rightarrow> buffer_st \<Rightarrow> unit m" where
  "read_done E io r rb =
     (let nread = ret r in
      if (nread + int (tail rb)) mod 2 ^ 64 = int (len rb) then io_close E io
      else if nread < 0 then (if err r = EAGAIN then skip else io_close E io)
      else if nread = 0 then io_close E io
      else runs [
        upd_io io (\<lambda>s. s\<lparr>read_buf := map_option (\<lambda>b. b\<lparr>tail := tail b + nat nread\<rparr>) (read_buf s)\<rparr>),
        with_io io (\<lambda>s. whenM (read_cb s \<noteq> No_cb) (runs [
          call_read_cb E (read_cb s) io (take (nat nread) (bytes r)),
          upd_io io (\<lambda>s. s\<lparr>read_buf := map_option (\<lambda>b. b\<lparr>head := 0, tail := 0\<rparr>) (read_buf s)\<rparr>)]))])"

definition io_read_cb :: "env \<Rightarrow> ptr \<Rightarrow> unit m" where
  "io_read_cb E io = bindM (with_io io (\<lambda>s. with_loop (ev_loop s) (\<lambda>l.
       upd_io io (\<lambda>s. s\<lparr>last_read_time := cur_ms l\<rparr>)))) (\<lambda>_. with_io io (\<lambda>s.
     case read_buf s of None \<Rightarrow> failM Null_deref | Some rb \<Rightarrow>
       bindM (if io_type s = IO_TYPE_SSL then ssl_read E (ssl s) (len rb - tail rb)
              else syscall E (Read (fd s) (len rb - tail rb))) (\<lambda>r.
       bindM (store_read io r rb) (\<lambda>_. read_done E io r rb))))"

subsection \<open>Dispatch\<close>

definition handle_event :: "env \<Rightarrow> ptr \<Rightarrow> unit m" where
  "handle_event E io = runs [
     with_io io (\<lambda>s. whenM (events s AND EVENT_WRITE \<noteq> 0 \<and> revents s AND EVENT_WRITE \<noteq> 0)
       (if connect s then runs [upd_io io (\<lambda>s. s\<lparr>connect := False\<rparr>), io_connect_cb E io]
        else io_write_cb E io)),
     with_io io (\<lambda>s. whenM (events s AND EVENT_READ \<noteq> 0 \<and> revents s AND EVENT_READ \<noteq> 0)
       (if accept s then io_accept_cb E io else io_read_cb E io))]"

definition connect_timeout_cb :: "env \<Rightarrow> ptr \<Rightarrow> unit m" where
  "connect_timeout_cb E t = with_timer t (\<lambda>s. io_close E (privdata s))"

definition read_timeout_cb :: "env \<Rightarrow> ptr \<Rightarrow> unit m" where
  "read_timeout_cb E t = whenM (t \<noteq> NULL) (with_timer t (\<lambda>ts. with_io (privdata ts) (\<lambda>s.
     with_loop (ev_loop s) (\<lambda>l.
       if cur_ms l - last_read_time s < of_int (read_timeout s)
       then reset_timer t (read_timeout s) else io_close E (privdata ts)))))"

definition writer_timeout_cb :: "env \<Rightarrow> ptr \<Rightarrow> unit m" where
  "writer_timeout_cb E t = whenM (t \<noteq> NULL) (with_timer t (\<lambda>ts. with_io (privdata ts) (\<lambda>s.
     with_loop (ev_loop s) (\<lambda>l.
       if cur_ms l - last_write_time s < of_int (write_timeout s)
       then reset_timer t (write_timeout s) else io_close E (privdata ts)))))"

definition close_timeout_cb :: "env \<Rightarrow> ptr \<Rightarrow> unit m" where
  "close_timeout_cb E t = whenM (t \<noteq> NULL) (with_timer t (\<lambda>ts. io_close E (privdata ts)))"

text \<open>The call \<open>event->cb(event)\<close>: the library's callbacks expect the kind of event they were set on.\<close>

definition call_event_cb :: "env \<Rightarrow> callback \<Rightarrow> event_ref \<Rightarrow> unit m" where
  "call_event_cb E c ev = (case (c, ev) of
     (Handle_event, Ev_io p) \<Rightarrow> handle_event E p
   | (Io_write_cb, Ev_io p) \<Rightarrow> io_write_cb E p
   | (Ssl_server_handshake, Ev_io p) \<Rightarrow> bindM (ssl_server_handshake E p) (\<lambda>_. skip)
   | (Connect_timeout_cb, Ev_timer t) \<Rightarrow> connect_timeout_cb E t
   | (Read_timeout_cb, Ev_timer t) \<Rightarrow> read_timeout_cb E t
   | (Writer_timeout_cb, Ev_timer t) \<Rightarrow> writer_timeout_cb E t
   | (Close_timeout_cb, Ev_timer t) \<Rightarrow> close_timeout_cb E t
   | (User_cb f, Ev_io p) \<Rightarrow> call_user E (Call_io f p)
   | (User_cb f, Ev_timer t) \<Rightarrow> call_user E (Call_timer f t)
   | (User_cb f, Ev_user p) \<Rightarrow> call_user E (Call_event f p)
   | _ \<Rightarrow> failM Bad_cast)"


subsection \<open>Reading: lemmas\<close>

text \<open>What the kernel guarantees about a read: no more than asked for, and as many bytes as it says.\<close>

definition reads_ok :: "env \<Rightarrow> bool" where
  "reads_ok E \<longleftrightarrow> (\<forall>h n k. let r = os E h (Read n k) in ret r \<le> int k \<and> - 1 \<le> ret r \<and> (0 < ret r \<longrightarrow> length (bytes r) = nat (ret r)))"

text \<open>The bytes that user read callbacks of an io were given, and those the kernel delivered.\<close>

fun delivered_of :: "ptr \<Rightarrow> act \<Rightarrow> byte list" where
  "delivered_of io (User (Call_read f io' data)) = (if io' = io then data else [])"
| "delivered_of io a = []"

definition delivered :: "ptr \<Rightarrow> act list \<Rightarrow> byte list" where
  "delivered io tr = concat (map (delivered_of io) tr)"

lemma delivered_simps [simp]:
  "delivered io [] = []" "delivered io (tr @ tr') = delivered io tr @ delivered io tr'"
  "delivered io (a # tr) = delivered_of io a @ delivered io tr"
  by (simp_all add: delivered_def)

lemma delivered_closed_world: "delivered i (trace (closed_world E io w)) = delivered i (trace w)"
proof -
  have "delivered i (trace (free_w E io v)) = delivered i (trace v)" for v
    by (simp add: free_w_def Let_def)
  then show ?thesis
    by (simp add: closed_world_def close_fd_def close_called_def called_trace del_w_trace split: callback.split)
qed

lemma read_full_iff:
  assumes "nread \<le> int (len rb - tail rb)" "- 1 \<le> nread" "tail rb \<le> len rb" "len rb < 2 ^ 63" "0 < len rb"
  shows "(nread + int (tail rb)) mod 2 ^ 64 = int (len rb) \<longleftrightarrow> nread = int (len rb - tail rb)"
proof (cases "nread + int (tail rb) < 0")
  case True
  then have "nread + int (tail rb) = -1" using assms by linarith
  then have "(nread + int (tail rb)) mod 2 ^ 64 = 2 ^ 64 - 1" by simp
  then show ?thesis using assms True by simp
next
  case False
  have "nread + int (tail rb) < 2 ^ 64" using assms by simp
  then have "(nread + int (tail rb)) mod 2 ^ 64 = nread + int (tail rb)" using False by simp
  then show ?thesis using assms by auto
qed

text \<open>C30: Reading, on every branch. On an open plain connection with an ordinary user callback, a read
  of \<open>n\<close> bytes that leaves room in the buffer hands exactly those bytes to the callback and empties
  the buffer; nothing is delivered and the connection is closed at end of file, at an error other
  than EAGAIN, and also when the read fills the buffer, whose bytes are dropped.\<close>

theorem io_read_cb_cases:
  assumes "io \<noteq> NULL" "\<not> closed (ios w io)" "write_mutex (ios w io) = Unlocked" "io_type (ios w io) = IO_TYPE_TCP"
    and "epoll_loop w (ev_loop (ios w io))" "user_cb (close_cb (ios w io))" "read_cb (ios w io) = User_cb f"
    and "read_buf (ios w io) = Some rb" "tail rb \<le> len rb" "len rb < 2 ^ 63" "0 < len rb"
    and "quiet_user E" "reads_ok E"
    and "r = os E (trace w) (Read (fd (ios w io)) (len rb - tail rb))"
  shows "\<exists>w'. io_read_cb E io w = Inr ((), w') \<and>
    (if 0 < ret r \<and> ret r < int (len rb - tail rb)
     then delivered io (trace w') = delivered io (trace w) @ bytes r \<and> closed (ios w' io) = closed (ios w io)
       \<and> (\<exists>b. read_buf (ios w' io) = Some b \<and> head b = 0 \<and> tail b = 0)
     else if ret r < 0 \<and> err r = EAGAIN then trace w' = trace w @ [Sys (Read (fd (ios w io)) (len rb - tail rb)) r]
       \<and> closed (ios w' io) = closed (ios w io)
     else closed (ios w' io) \<and> delivered io (trace w') = delivered io (trace w))"
proof -
  define c where "c = Read (fd (ios w io)) (len rb - tail rb)"
  have l: "ev_loop (ios w io) \<noteq> NULL" using assms(5) by (simp add: epoll_loop_def)
  have rng: "ret r \<le> int (len rb - tail rb)" "- 1 \<le> ret r" "0 < ret r \<Longrightarrow> length (bytes r) = nat (ret r)"
    using assms(13,14) by (auto simp: reads_ok_def Let_def)
  define w1 where "w1 = w\<lparr>ios := (ios w)(io := (ios w io)\<lparr>last_read_time := cur_ms (loops w (ev_loop (ios w io)))\<rparr>),
    trace := trace w @ [Sys c r]\<rparr>"
  define w2 where "w2 = (if 0 < ret r then set_io io (\<lambda>s. s\<lparr>read_buf :=
     Some (rb\<lparr>base := put_bytes (base rb) (tail rb) (take (nat (ret r)) (bytes r))\<rparr>)\<rparr>) w1 else w1)"
  note full = read_full_iff [OF rng(1,2) assms(9,10,11)]
  note rd = read_done_def [of E io r rb, unfolded Let_def full]
  have st: "store_read io r rb w1 = Inr ((), w2)"
    using assms(1) by (simp add: store_read_def w2_def set_io_def)
  have "io_read_cb E io w = (case store_read io r rb w1 of Inl e \<Rightarrow> Inl e | Inr (_, v) \<Rightarrow> read_done E io r rb v)"
    using assms(1,4,8) l
    by (simp add: io_read_cb_def c_def [symmetric] assms(14) [folded c_def, symmetric] w1_def)
  then have run: "io_read_cb E io w = read_done E io r rb w2" using st by simp
  have sel: "write_mutex (ios w2 io) = Unlocked" "\<not> closed (ios w2 io)" "ev_loop (ios w2 io) = ev_loop (ios w io)"
    "user_cb (close_cb (ios w2 io))" "epoll_loop w2 (ev_loop (ios w2 io))" "read_cb (ios w2 io) = User_cb f"
    "trace w2 = trace w @ [Sys c r]"
    using assms(2-7) by (simp_all add: w2_def w1_def epoll_loop_def)
  have cl: "io_close E io w2 = Inr ((), closed_world E io w2)"
    using sel assms(1,12) by (intro io_close_w)
  have "delivered io (trace (closed_world E io w2)) = delivered io (trace w)"
    by (simp add: delivered_closed_world sel(7) c_def)
  then have closing: ?thesis if "io_read_cb E io w = io_close E io w2"
      "\<not> (0 < ret r \<and> ret r < int (len rb - tail rb))" "\<not> (ret r < 0 \<and> err r = EAGAIN)"
    using that cl closed_world_io(1) [of E io w2] by auto
  consider (deliver) "0 < ret r" "ret r < int (len rb - tail rb)" | (again) "ret r < 0" "err r = EAGAIN"
    | (close) "\<not> (0 < ret r \<and> ret r < int (len rb - tail rb))" "\<not> (ret r < 0 \<and> err r = EAGAIN)" by blast
  then show ?thesis
  proof cases
    case deliver
    then have "take (nat (ret r)) (bytes r) = bytes r" using rng(3) by simp
    moreover have "read_buf (ios w2 io) = Some (rb\<lparr>base := put_bytes (base rb) (tail rb) (take (nat (ret r)) (bytes r))\<rparr>)"
      using deliver by (simp add: w2_def)
    ultimately show ?thesis
      using run deliver assms(1,2,9,12) sel by (simp add: rd of_nat_diff call_read_cb_def quiet_user_def c_def)
  next
    case again
    then show ?thesis using run sel(2,7) assms(2,9) by (auto simp: rd c_def)
  next
    case close
    then show ?thesis using run rng(1) by (intro closing) (auto simp: rd)
  qed
qed


subsection \<open>Writing: the callback after a partial write\<close>

lemma io_write_direct:
  assumes "conn_open Unlocked w io" "backlog w io = []"
  shows "io_write E io bs w = io_write_tcp E io bs (locked io w)"
proof -
  obtain b where b: "write_buf (ios w io) = Some b" "buf_ok b" using assms(1) by (auto simp: conn_open_def)
  then have "buffer_is_empty b"
    using assms(2) by (auto simp: backlog_def waiting_in_def buffer_is_empty_def buf_ok_def)
  then show ?thesis
    using assms(1) b by (simp add: io_write_def with_write_buf_def conn_open_def locked_def set_io_def)
qed

text \<open>A partial write diverts reads. After a write of which the kernel took only a part, the io is
  closed, or from then on every event on the io, incoming data included, is handed to the write
  callback instead of \<open>handle_event\<close>.\<close>

theorem io_write_partial_diverts:
  assumes "conn_open Unlocked w io" "quiet_user E" "writes_ok E" "length bs < 2 ^ 63" "backlog w io = []"
    and "k = ret (os E (trace w) (Write (fd (ios w io)) bs))" "0 \<le> k" "nat k < length bs"
  shows "\<exists>r w'. io_write E io bs w = Inr (r, w') \<and>
    (closed (ios w' io) \<or> call_event_cb E (cb (ios w' io)) (Ev_io io) = io_write_cb E io)"
proof -
  have w1: "conn_open Locked (locked io w) io" "backlog (locked io w) io = []"
    "fd (ios (locked io w) io) = fd (ios w io)" "trace (locked io w) = trace w"
    using assms(1,5) by (auto simp: lock_sel) (simp_all add: locked_def backlog_def)
  obtain r w' where "io_write_tcp E io bs (locked io w) = Inr (r, w')"
    "closed (ios w' io) \<or> cb (ios w' io) = Io_write_cb"
    using io_write_tcp_accepted [OF w1(1) assms(2-4) w1(2)] assms(6-8) w1(3,4) by (auto simp: Let_def)
  then show ?thesis
    using io_write_direct [OF assms(1,5), of E bs] by (auto simp: call_event_cb_def)
qed

lemma io_write_partial_diverts_witness:
  "\<exists>r w'. io_write one_byte_env 4 [1, 2] (set_io 4 (\<lambda>s. s\<lparr>write_buf := Some (new_buffer\<lparr>base := replicate 8 0, maxSize := 8\<rparr>)\<rparr>) conn_world)
      = Inr (r, w') \<and>
    (closed (ios w' 4) \<or> call_event_cb one_byte_env (cb (ios w' 4)) (Ev_io 4) = io_write_cb one_byte_env 4)"
  by (rule io_write_partial_diverts [where k = 1])
    (use conn_world_open one_byte_env_ok in
      \<open>auto simp: conn_open_def backlog_def waiting_in_def buf_ok_def new_buffer_def one_byte_env_def\<close>)

subsection \<open>Timeouts of a connection\<close>

lemma io_connect_cb_plain:
  assumes "io \<noteq> NULL" "io_type (ios w io) = IO_TYPE_TCP" "epoll_loop w (ev_loop (ios w io))" "quiet_user E"
    and "connect_cb (ios w io) = User_cb f"
    and "0 \<le> ret (os E (trace w @ [Sys Gettimeofday (os E (trace w) Gettimeofday)]) (Getpeername (fd (ios w io))))"
  shows "\<exists>w'. io_connect_cb E io w = Inr ((), w') \<and> connect_timer (ios w' io) = connect_timer (ios w io)
    \<and> closed (ios w' io) = closed (ios w io) \<and> write_mutex (ios w' io) = write_mutex (ios w io)
    \<and> ev_loop (ios w' io) = ev_loop (ios w io) \<and> close_cb (ios w' io) = close_cb (ios w io)
    \<and> (\<forall>l. armed w' l = armed w l) \<and> (\<forall>l. epoll_loop w' l = epoll_loop w l) \<and> tms w' = tms w \<and> freed w' = freed w"
proof -
  define w1 where "w1 = w\<lparr>trace := trace w @ [Sys Gettimeofday (os E (trace w) Gettimeofday)],
     ios := (ios w)(io := (ios w io)\<lparr>last_read_time :=
       of_int (tv_sec (os E (trace w) Gettimeofday) * 1000 + tv_usec (os E (trace w) Gettimeofday) div 1000)\<rparr>)\<rparr>"
  define w2 where "w2 = w1\<lparr>trace := trace w1 @ [Sys (Getpeername (fd (ios w io))) (os E (trace w1) (Getpeername (fd (ios w io))))]\<rparr>"
  define w3 where "w3 = del_w E io EVENT_WRITE w2"
  define w4 where "w4 = w3\<lparr>trace := trace w3 @ [User (Call_io f io)]\<rparr>"
  have sel: "ev_loop (ios w2 io) = ev_loop (ios w io)" "epoll_loop w2 l = epoll_loop w l"
    "io_type (ios w3 io) = IO_TYPE_TCP" "connect_cb (ios w3 io) = User_cb f"
    "ev_loop (ios w4 io) = ev_loop (ios w io)" "epoll_loop w4 l = epoll_loop w l" for l
    using assms(2,5) by (simp_all add: w4_def w3_def w2_def w1_def epoll_loop_def clear_event_def)
  have "0 \<le> ret (os E (trace w1) (Getpeername (fd (ios w io))))" using assms(6) by (simp add: w1_def)
  moreover have "io_del E io EVENT_WRITE w2 = Inr (0, w3)"
    using assms(3) sel by (simp add: io_del_w [OF assms(1)] w3_def)
  moreover have "io_read_enable E io w4 = Inr (0, add_w E io Handle_event EVENT_READ w4)"
    using assms(3) sel by (simp add: io_read_enable_def io_add_w [OF assms(1)])
  moreover have "bindM (get_curtime_ms E) (\<lambda>t. upd_io io (\<lambda>s. s\<lparr>last_read_time := t\<rparr>)) w = Inr ((), w1)"
    using assms(1) by (simp add: get_curtime_ms_def w1_def)
  moreover have "user E (Call_io f io) (w3\<lparr>trace := trace w3 @ [User (Call_io f io)]\<rparr>) = Inr ((), w4)"
    using assms(4) by (simp add: quiet_user_def w4_def)
  moreover have "fd (ios w1 io) = fd (ios w io)" by (simp add: w1_def)
  ultimately have "io_connect_cb E io w = Inr ((), add_w E io Handle_event EVENT_READ w4)"
    using assms(1) sel(3,4)
    by (simp add: io_connect_cb_def connected_def call_io_cb_def w2_def [symmetric])
  then show ?thesis
    by (simp add: add_w_def w4_def w3_def w2_def w1_def clear_event_def armed_def epoll_loop_def)
qed

text \<open>The connect timeout kills established connections. When a plain connection is established
  and its connect callback has run, the connect timer is still armed and still belongs to it, and
  when it fires the connection is closed.\<close>

theorem connect_timer_survives:
  assumes "io \<noteq> NULL" "io_type (ios w io) = IO_TYPE_TCP" "epoll_loop w (ev_loop (ios w io))" "quiet_user E"
    and "connect_cb (ios w io) = User_cb f" "user_cb (close_cb (ios w io))"
    and "0 \<le> ret (os E (trace w @ [Sys Gettimeofday (os E (trace w) Gettimeofday)]) (Getpeername (fd (ios w io))))"
    and "\<not> closed (ios w io)" "write_mutex (ios w io) = Unlocked"
    and "connect_timer (ios w io) = t" "t \<in># armed w (ev_loop (ios w io))" "t \<noteq> NULL"
    and "privdata (tms w t) = io" "Ev_timer t \<notin> set (freed w)"
  shows "\<exists>w1 w2. io_connect_cb E io w = Inr ((), w1) \<and> t \<in># armed w1 (ev_loop (ios w io))
    \<and> connect_timer (ios w1 io) = t \<and> \<not> closed (ios w1 io)
    \<and> connect_timeout_cb E t w1 = Inr ((), w2) \<and> closed (ios w2 io)"
proof -
  obtain w1 where run: "io_connect_cb E io w = Inr ((), w1)"
    and w1: "connect_timer (ios w1 io) = t" "\<not> closed (ios w1 io)" "write_mutex (ios w1 io) = Unlocked"
      "ev_loop (ios w1 io) = ev_loop (ios w io)" "user_cb (close_cb (ios w1 io))"
      "armed w1 (ev_loop (ios w io)) = armed w (ev_loop (ios w io))"
      "epoll_loop w1 (ev_loop (ios w1 io))" "tms w1 = tms w" "freed w1 = freed w"
    using io_connect_cb_plain [OF assms(1-5,7)] assms(3,6,8-10) by auto
  have "io_close E io w1 = Inr ((), closed_world E io w1)"
    using w1 assms(1,4) by (intro io_close_w)
  then have "connect_timeout_cb E t w1 = Inr ((), closed_world E io w1)"
    using w1 assms(12-14) by (simp add: connect_timeout_cb_def)
  then show ?thesis
    using run w1 assms(11) closed_world_io(1) [of E io w1] by auto
qed

definition connect_world :: world where
  "connect_world = conn_world\<lparr>ios := (\<lambda>io. (ios conn_world io)\<lparr>connect_timer := 2, connect_cb := User_cb 0\<rparr>),
     tms := (\<lambda>t. (tms conn_world t)\<lparr>privdata := 4\<rparr>)\<rparr>"

lemma connect_timer_survives_witness:
  "\<exists>w1 w2. io_connect_cb one_byte_env 4 connect_world = Inr ((), w1) \<and> 2 \<in># armed w1 (ev_loop (ios connect_world 4))
    \<and> connect_timer (ios w1 4) = 2 \<and> \<not> closed (ios w1 4)
    \<and> connect_timeout_cb one_byte_env 2 w1 = Inr ((), w2) \<and> closed (ios w2 4)"
proof -
  have "armed connect_world l = armed timers_world l" for l
    by (simp add: armed_def connect_world_def conn_world_def)
  then have "2 \<in># armed connect_world (ev_loop (ios connect_world 4))" by (simp add: timers_world_heap)
  then show ?thesis
    using one_byte_env_ok(1)
    by (intro connect_timer_survives [where f = 0])
      (simp_all add: connect_world_def conn_world_def timers_world_def zero_io_def epoll_loop_def one_byte_env_def)
qed

text \<open>The read timeout. When the read timer of a connection fires, the connection is closed if it
  has been idle for at least its read timeout; otherwise the timer is armed again for a full
  timeout from now, the other timers staying as they were.\<close>

theorem read_timeout_decides:
  assumes "t \<noteq> NULL" "Ev_timer t \<notin> set (freed w)" "privdata (tms w t) = io" "io \<noteq> NULL"
    and "ev_loop (ios w io) = l" "epoll_loop w l" "timers_wf w l" "quiet_user E" "user_cb (close_cb (ios w io))"
    and "\<not> closed (ios w io)" "write_mutex (ios w io) = Unlocked"
    and "destory (tms w t)" "heap_size (timers (loops w l)) < capacity (timers (loops w l))" "t \<notin># armed w l"
  shows "\<exists>w'. read_timeout_cb E t w = Inr ((), w') \<and>
    (if cur_ms (loops w l) - last_read_time (ios w io) < of_int (read_timeout (ios w io))
     then armed w' l = add_mset t (armed w l) \<and> timers_wf w' l
       \<and> next_timeout (tms w' t) = cur_ms (loops w l) + of_int (read_timeout (ios w io))
     else closed (ios w' io) \<and> t \<notin># armed w' l)"
proof (cases "cur_ms (loops w l) - last_read_time (ios w io) < of_int (read_timeout (ios w io))")
  case True
  have l: "l \<noteq> NULL" using assms(6) by (simp add: epoll_loop_def)
  have cap: "0 < capacity (timers (loops w l))" using assms(13) by simp
  obtain w' where "reset_timer t (read_timeout (ios w io)) w = Inr ((), w')" "armed w' l = add_mset t (armed w l)"
    "next_timeout (tms w' t) = cur_ms (loops w l) + of_int (read_timeout (ios w io))" "timers_wf w' l"
    using reset_timer_lemma [of w l t "read_timeout (ios w io)"] assms l cap by auto
  then show ?thesis
    using True assms l by (auto simp: read_timeout_cb_def)
next
  case False
  have l: "l \<noteq> NULL" using assms(6) by (simp add: epoll_loop_def)
  have "read_timeout_cb E t w = Inr ((), closed_world E io w)"
    using False assms l io_close_w [of io w E] by (simp add: read_timeout_cb_def)
  moreover have "t \<notin># armed (closed_world E io w) l"
    using closed_world_timers(2) [of w io E] assms by (auto dest: in_diffD)
  ultimately show ?thesis
    using False closed_world_io(1) [of E io w] by auto
qed


definition idle_world :: world where
  "idle_world = conn_world\<lparr>tms := (\<lambda>t. (tms conn_world t)\<lparr>privdata := 4, destory := True\<rparr>)\<rparr>"

lemma read_timeout_decides_witness:
  "\<exists>w'. read_timeout_cb one_byte_env 3 idle_world = Inr ((), w') \<and> closed (ios w' 4) \<and> 3 \<notin># armed w' 1"
proof -
  have arm: "armed idle_world 1 = {#1, 2#}"
    using timers_world_heap(2) [of 1] by (simp add: armed_def idle_world_def conn_world_def)
  have wf: "timers_wf idle_world 1"
    using conn_world_wf by (simp add: timers_wf_def idle_world_def timer_key_abs)
  have sel: "ev_loop (ios idle_world 4) = 1" "privdata (tms idle_world 3) = 4" "freed idle_world = []"
    "epoll_loop idle_world 1" "user_cb (close_cb (ios idle_world 4))" "\<not> closed (ios idle_world 4)"
    "write_mutex (ios idle_world 4) = Unlocked" "destory (tms idle_world 3)"
    "heap_size (timers (loops idle_world 1)) < capacity (timers (loops idle_world 1))"
    "read_timeout (ios idle_world 4) = 0" "last_read_time (ios idle_world 4) = 0"
    using conn_world_open timers_world_sel
    by (simp_all add: idle_world_def conn_world_def epoll_loop_def zero_io_def timers_world_def)
  show ?thesis
    using read_timeout_decides [of 3 idle_world 4 1 one_byte_env] arm wf sel one_byte_env_ok(1) by auto
qed

lemma io_read_cb_cases_witness:
  "\<exists>w'. io_read_cb one_byte_env 4 (set_io 4 (\<lambda>s. s\<lparr>read_cb := User_cb 0\<rparr>) conn_world) = Inr ((), w') \<and> closed (ios w' 4)"
proof -
  let ?w = "set_io 4 (\<lambda>s. s\<lparr>read_cb := User_cb 0\<rparr>) conn_world"
  have "reads_ok one_byte_env" by (simp add: reads_ok_def one_byte_env_def Let_def)
  moreover have "read_buf (ios ?w 4) = Some \<lparr>base = [0, 0, 0, 0], len = 4, head = 0, tail = 0, maxSize = 4\<rparr>"
    by (simp add: conn_world_def)
  ultimately show ?thesis
    using io_read_cb_cases [of 4 ?w 0 "\<lparr>base = [0, 0, 0, 0], len = 4, head = 0, tail = 0, maxSize = 4\<rparr>" one_byte_env]
      conn_world_open one_byte_env_ok(1)
    by (auto simp: conn_open_def one_byte_env_def Let_def)
qed

subsection \<open>Posted events\<close>

text \<open>Posting from a posted event deadlocks. The loop's mutex is held while posted events run, so an
  event whose callback posts another event to its loop never returns.\<close>

theorem post_in_event_deadlocks:
  assumes "io \<noteq> NULL" "ev_loop (ios w io) = l" "l \<noteq> NULL" "loop_mutex (loops w l) = Unlocked"
    and "0 < length (custom_events (loops w l))" "custom_events (loops w l) ! 0 = ev" "ev \<noteq> NULL"
    and "Ev_user ev \<notin> set (freed w)" "cb (uevents w ev) = User_cb f" "other \<noteq> NULL" "0 < n"
    and "\<And>v. user E (Call_event f ev) v = loop_post_event E l other v"
  shows "pipe_read_cb E io n w = Inl Deadlock"
proof -
  define w1 where "w1 = w\<lparr>loops := (loops w)(l := (loops w l)\<lparr>loop_mutex := Locked\<rparr>)\<rparr>"
  have "run_custom E l 0 w1 = loop_post_event E l other (w1\<lparr>trace := trace w1 @ [User (Call_event f ev)]\<rparr>)"
    using assms by (simp add: run_custom_def w1_def Let_def event_of_def)
  also have "\<dots> = Inl Deadlock"
    using assms(3,10) by (simp add: loop_post_event_def loop_lock_def w1_def)
  finally have "run_custom E l 0 w1 = Inl Deadlock" .
  moreover have "[0..<n] = 0 # [1..<n]" using assms(11) by (simp add: upt_rec)
  moreover have "loop_lock l w = Inr ((), w1)" using assms(3,4) by (simp add: loop_lock_def w1_def)
  ultimately show ?thesis using assms(1,2) by (simp add: pipe_read_cb_def)
qed

text \<open>A wakeup runs old events again. Posted events are not taken out of the array when they have
  run: a byte read from the pipe without a posted event, as a wakeup writes it, calls the event
  that was posted first some time before.\<close>

theorem wakeup_reruns_event:
  assumes "io \<noteq> NULL" "ev_loop (ios w io) = l" "l \<noteq> NULL" "loop_mutex (loops w l) = Unlocked"
    and "0 < length (custom_events (loops w l))" "custom_events (loops w l) ! 0 = ev" "ev \<noteq> NULL"
    and "Ev_user ev \<notin> set (freed w)" "cb (uevents w ev) = User_cb f" "quiet_user E"
    and "custom_events_num (loops w l) = 0"
  shows "\<exists>w'. pipe_read_cb E io 1 w = Inr ((), w') \<and> trace w' = trace w @ [User (Call_event f ev)]
    \<and> custom_events (loops w' l) = custom_events (loops w l)"
  using assms
  by (simp add: pipe_read_cb_def loop_lock_def loop_unlock_def run_custom_def Let_def event_of_def quiet_user_def)

definition post_world :: world where
  "post_world = world0\<lparr>
     loops := (\<lambda>_. zero_loop\<lparr>custom_events := [9, 0]\<rparr>),
     ios := (\<lambda>_. zero_io\<lparr>ev_loop := 1\<rparr>),
     uevents := (\<lambda>_. zero_event\<lparr>ev_loop := 1, cb := User_cb 3\<rparr>)\<rparr>"

definition posting_env :: env where
  "posting_env = sample_env\<lparr>user := (\<lambda>_. loop_post_event sample_env 1 9)\<rparr>"

lemma posting_env_user:
  "user posting_env (Call_event 3 9) = loop_post_event posting_env 1 9"
proof -
  have "syscall posting_env = syscall sample_env" by (simp add: posting_env_def syscall_def fun_eq_iff)
  then have "loop_post_event posting_env 1 9 = loop_post_event sample_env 1 9"
    by (simp only: loop_post_event_def)
  then show ?thesis by (simp add: posting_env_def)
qed

lemma post_in_event_deadlocks_witness: "pipe_read_cb posting_env 2 2 post_world = Inl Deadlock"
proof (rule post_in_event_deadlocks [where l = 1 and ev = 9 and f = 3 and other = 9])
  show "user posting_env (Call_event 3 9) v = loop_post_event posting_env 1 9 v" for v
    by (simp only: posting_env_user)
qed (simp_all add: post_world_def zero_loop_def zero_io_def zero_event_def)

lemma wakeup_reruns_event_witness:
  "\<exists>w'. pipe_read_cb one_byte_env 2 1 post_world = Inr ((), w') \<and> trace w' = [User (Call_event 3 9)]"
  using wakeup_reruns_event [of 2 post_world 1 9 3 one_byte_env] one_byte_env_ok(1)
  by (auto simp: post_world_def zero_loop_def)

end
