(* ===== verification/EventLoop.thy ===== *)
theory EventLoop
  imports IoEvents
begin

section \<open>The event loop: src/event_loop.c and src/event_loop_thread.c\<close>

text \<open>
  A round of the loop waits in the dispatcher, runs due timers and then the pending events. The
  loops of the code may run for ever: they are partial functions whose value \<open>None\<close> stands for not
  returning. The contents of freshly allocated loops are the argument \<open>junk\<close>, because the code leaves
  some fields as malloc gave them.
\<close>

type_synonym 'a lm = "world \<Rightarrow> (fault + 'a \<times> world) option"

definition liftL :: "'a m \<Rightarrow> 'a lm" where
  "liftL m w = Some (m w)"

definition bindL :: "'a lm \<Rightarrow> ('a \<Rightarrow> 'b lm) \<Rightarrow> 'b lm" where
  "bindL m f w = (case m w of None \<Rightarrow> None | Some (Inl e) \<Rightarrow> Some (Inl e) | Some (Inr (a, w')) \<Rightarrow> f a w')"

lemma lm_run [simp]:
  "liftL m w = Some (m w)"
  "bindL k f w = (case k w of None \<Rightarrow> None | Some (Inl e) \<Rightarrow> Some (Inl e) | Some (Inr (a, w')) \<Rightarrow> f a w')"
  by (simp_all add: liftL_def bindL_def)

subsection \<open>Timers\<close>

text \<open>One due timer: the body of the loop of \<open>process_timer\<close>. The constant is UINT32_MAX.\<close>

definition timer_round :: "env \<Rightarrow> ptr \<Rightarrow> ptr \<Rightarrow> unit m" where
  "timer_round E l t = runs [
     with_timer t (\<lambda>s. whenM (repeat s \<noteq> 0xFFFFFFFF) (upd_timer t (\<lambda>s. s\<lparr>repeat := repeat s - 1\<rparr>))),
     with_timer t (\<lambda>s.
       if repeat s = 0 then runs [
         del_timer l t,
         upd_timer t (\<lambda>s. s\<lparr>destory := True\<rparr>),
         event_pending (Ev_timer t)]
       else runs [
         with_loop l (\<lambda>ls. upd_timer t (\<lambda>s. s\<lparr>next_timeout := cur_ms ls + timeout s\<rparr>)),
         on_heap l heap_pop,
         on_heap l (\<lambda>lt h. heap_insert lt h t),
         with_timer t (\<lambda>s. whenM (cb s \<noteq> No_cb) (call_event_cb E (cb s) (Ev_timer t)))])]"

text \<open>The timer at the root of the heap; the cell is read without a look at the size.\<close>

definition root_timer :: "ptr \<Rightarrow> (ptr \<times> event_timer_st) m" where
  "root_timer l = with_loop l (\<lambda>ls. let t = array (timers ls) ! 0 in with_timer t (\<lambda>s. retM (t, s)))"

partial_function (option) process_timer :: "env \<Rightarrow> ptr \<Rightarrow> world \<Rightarrow> (fault + unit \<times> world) option" where
  "process_timer E l w =
     (case root_timer l w of
        Inl e \<Rightarrow> Some (Inl e)
      | Inr (r, w0) \<Rightarrow>
          if next_timeout (snd r) > cur_ms (loops w l) then Some (Inr ((), w))
          else (case timer_round E l (fst r) w of
                  Inl e \<Rightarrow> Some (Inl e)
                | Inr (u, w') \<Rightarrow> process_timer E l w'))"

subsection \<open>Pending events\<close>

definition pending_round :: "env \<Rightarrow> event_ref \<Rightarrow> callback \<Rightarrow> unit m" where
  "pending_round E cur c = whenM (c \<noteq> No_cb) (runs [
     call_event_cb E c cur,
     upd_event cur (pending_update (\<lambda>_. False)),
     with_event cur (\<lambda>e. whenM (destory e) (event_del cur))])"

partial_function (option) pending_loop ::
  "env \<Rightarrow> event_ref option \<Rightarrow> world \<Rightarrow> (fault + unit \<times> world) option" where
  "pending_loop E cur w =
     (case cur of
        None \<Rightarrow> Some (Inr ((), w))
      | Some ev \<Rightarrow> (case with_event ev retM w of
            Inl e \<Rightarrow> Some (Inl e)
          | Inr (e, w0) \<Rightarrow> (case pending_round E ev (cb e) w of
                Inl er \<Rightarrow> Some (Inl er)
              | Inr (u, w') \<Rightarrow> pending_loop E (next_event e) w')))"

definition process_pending_event :: "env \<Rightarrow> ptr \<Rightarrow> unit lm" where
  "process_pending_event E l w =
     (if l = NULL then Some (Inr ((), w))
      else bindL (pending_loop E (loop_pending (loops w l)))
        (\<lambda>_. liftL (upd_loop l (\<lambda>s. s\<lparr>loop_pending := None\<rparr>))) w)"

subsection \<open>Running\<close>

text \<open>The time to block: ten milliseconds, or until the first timer is due. Differences are signed
  64-bit numbers; the result is an int.\<close>

definition blocktime :: "event_loop_st \<Rightarrow> (ptr \<Rightarrow> event_timer_st) \<Rightarrow> int" where
  "blocktime s T =
     (if heap_size (timers s) > 0
      then let min_timeout = sint (next_timeout (T (array (timers s) ! 0)) - cur_ms s)
           in sint (of_int (if min_timeout < 10 then min_timeout else 10) :: u32)
      else 10)"

definition loop_round :: "env \<Rightarrow> ptr \<Rightarrow> unit lm" where
  "loop_round E l =
     bindL (liftL (with_loop l (\<lambda>s. if timers_num s > 0
              then run_then [update_loop_timer E l] (with_loop l (\<lambda>s. readM (\<lambda>w. retM (blocktime s (tms w)))))
              else retM 10)))
       (\<lambda>blocktime_ms.
          if blocktime_ms \<le> 0 then bindL (process_timer E l) (\<lambda>_. process_pending_event E l)
          else bindL (liftL (runs [
                 bindM (disp_run E l blocktime_ms) (\<lambda>_. skip),
                 update_loop_timer E l]))
               (\<lambda>_. process_pending_event E l))"

partial_function (option) event_loop_run :: "env \<Rightarrow> ptr \<Rightarrow> world \<Rightarrow> (fault + int \<times> world) option" where
  "event_loop_run E l w =
     (if l = NULL then Some (Inr (-1, w))
      else if quit (loops w l) then Some (Inr (0, w))
      else (case loop_round E l w of
              None \<Rightarrow> None
            | Some r \<Rightarrow> (case r of Inl e \<Rightarrow> Some (Inl e) | Inr (u, w') \<Rightarrow> event_loop_run E l w')))"

definition event_loop_stop :: "ptr \<Rightarrow> unit m" where
  "event_loop_stop l = whenM (l \<noteq> NULL) (upd_loop l (\<lambda>s. s\<lparr>quit := True\<rparr>))"

definition event_loop_wakeup :: "env \<Rightarrow> ptr \<Rightarrow> int m" where
  "event_loop_wakeup E l =
     (if l = NULL then retM (-1)
      else with_loop l (\<lambda>s. bindM (syscall E (Write (pipe_write_fd s) [0x63])) (\<lambda>_. retM 0)))"

subsection \<open>Set up\<close>

definition event_loop_init_with_name :: "env \<Rightarrow> event_loop_st \<Rightarrow> ptr m" where
  "event_loop_init_with_name E junk = alloc_then E (\<lambda>l.
     bindM (get_curtime_ms E) (\<lambda>t0. bindM (get_curtime_ms E) (\<lambda>t1.
     alloc_then E (\<lambda>a. run_then [
         upd_loop l (\<lambda>_. junk\<lparr>quit := False, start_ms := t0, cur_ms := t1,
           io_array := take 1024 (io_array junk @ replicate 1024 NULL), loop_pending := None, timers := create_heap 1000\<rparr>)]
       (bindM (syscall E Pipe) (\<lambda>p.
        let rfd = fst (ready p ! 0); wfd = fst (ready p ! 1) in
        run_then [
          upd_loop l (\<lambda>s. s\<lparr>pipe_read_fd := rfd, pipe_write_fd := wfd\<rparr>),
          make_noblock_fd E rfd, make_noblock_fd E wfd,
          bindM (epoll_init E) (\<lambda>d. upd_disp l d)]
        (bindM (get_io E l rfd) (\<lambda>io. run_then [
          upd_io io (\<lambda>s. s\<lparr>io_type := IO_TYPE_PIPE\<rparr>),
          bindM (io_add E io Handle_event EVENT_READ) (\<lambda>_. skip),
          upd_io io (\<lambda>s. s\<lparr>read_cb := Pipe_read_cb\<rparr>),
          bindM (disp_add E l rfd EVENT_READ) (\<lambda>_. skip)]
        (alloc_then E (\<lambda>c. run_then [
          upd_loop l (\<lambda>s. s\<lparr>custom_events := take 1024 (custom_events junk @ replicate 1024 NULL), custom_events_num := 0\<rparr>)]
          (retM l)))))))))))"

definition event_loop_init :: "env \<Rightarrow> event_loop_st \<Rightarrow> ptr m" where
  "event_loop_init E junk = event_loop_init_with_name E junk"

text \<open>
  \<open>event_loop_thread_start\<close> waits until the new thread has set its loop; a thread whose loop could not
  be created leaves it waiting for ever. The thread then runs its loop, apart from the others.
\<close>

definition event_loop_thread_start :: "env \<Rightarrow> event_loop_st \<Rightarrow> event_loop_thread_st lm" where
  "event_loop_thread_start E junk =
     bindL (liftL (bindM (malloc E) (\<lambda>name. event_loop_init_with_name E junk))) (\<lambda>l w.
       if l = NULL then None else Some (Inr (\<lparr>eventLoop = l, thread_count = 0\<rparr>, w)))"

primrec start_threads :: "env \<Rightarrow> event_loop_st \<Rightarrow> nat \<Rightarrow> event_loop_thread_st list lm" where
  "start_threads E junk 0 = liftL (retM [])"
| "start_threads E junk (Suc n) =
     bindL (event_loop_thread_start E junk) (\<lambda>th. bindL (start_threads E junk n) (\<lambda>ths. liftL (retM (th # ths))))"

definition thread_pool_start :: "env \<Rightarrow> event_loop_st \<Rightarrow> ptr \<Rightarrow> unit lm" where
  "thread_pool_start E junk p = bindL (liftL (with_pool p (\<lambda>s. retM (thread_number s)))) (\<lambda>n.
     if n \<le> 0 then liftL skip
     else bindL (liftL (bindM (malloc E) (\<lambda>a. if a = NULL then failM Null_deref else skip))) (\<lambda>_.
       bindL (start_threads E junk (nat n)) (\<lambda>ths. liftL (upd_pool p (\<lambda>s. s\<lparr>event_loop_threads := ths\<rparr>)))))"

subsection \<open>Clients and servers\<close>

definition create_client :: "env \<Rightarrow> io_type option \<Rightarrow> bool \<Rightarrow> ptr \<Rightarrow> string \<Rightarrow> string \<Rightarrow> callback \<Rightarrow> callback \<Rightarrow> ptr \<Rightarrow> ptr m" where
  "create_client E ty non_block l addr prt conn_cb cl_cb udata =
     (if l = NULL then retM NULL
      else bindM (create_socket E non_block) (\<lambda>n.
        bindM (get_io E l n) (\<lambda>io.
          if io = NULL then retM NULL
          else run_then [upd_io io (\<lambda>s. s\<lparr>ip := addr, port := prt, connect_cb := conn_cb, close_cb := cl_cb,
                 userdata := udata,
                 io_type := (case ty of None \<Rightarrow> io_type s | Some t \<Rightarrow> t)\<rparr>)]
            (bindM (io_connect E io) (\<lambda>r.
               if r \<noteq> 0 then run_then [free_io E io] (retM NULL) else retM io)))))"

definition create_tcp_client :: "env \<Rightarrow> ptr \<Rightarrow> string \<Rightarrow> string \<Rightarrow> callback \<Rightarrow> callback \<Rightarrow> ptr \<Rightarrow> ptr m" where
  "create_tcp_client E = create_client E None True"

definition create_ssl_client :: "env \<Rightarrow> ptr \<Rightarrow> string \<Rightarrow> string \<Rightarrow> callback \<Rightarrow> callback \<Rightarrow> ptr \<Rightarrow> ptr m" where
  "create_ssl_client E = create_client E (Some IO_TYPE_SSL) False"

text \<open>The chain of set-up calls of a server: the first that fails frees the io.\<close>

definition try_or_free :: "env \<Rightarrow> ptr \<Rightarrow> int m \<Rightarrow> ptr m \<Rightarrow> ptr m" where
  "try_or_free E io m next = bindM m (\<lambda>r. if r < 0 then run_then [free_io E io] (retM NULL) else next)"

definition server_setup :: "env \<Rightarrow> ptr \<Rightarrow> ptr m" where
  "server_setup E io =
     try_or_free E io (io_set_reuse_addr E io)
    (try_or_free E io (io_bind E io)
    (try_or_free E io (io_listen E io)
    (try_or_free E io (io_accept E io) (retM io))))"

definition create_server :: "env \<Rightarrow> event_loop_st \<Rightarrow> io_type \<Rightarrow> ptr \<Rightarrow> string \<Rightarrow> string \<Rightarrow> (string \<times> string) option \<Rightarrow> callback \<Rightarrow> int \<Rightarrow> ptr lm" where
  "create_server E junk ty l addr prt certs acc_cb thread_num =
     (if l = NULL then liftL (retM NULL)
      else bindL (liftL (bindM (create_socket E False) (get_io E l))) (\<lambda>io.
        if io = NULL then liftL (retM NULL)
        else bindL
          (if thread_num > 0
           then bindL (liftL (thread_pool_new E l thread_num)) (\<lambda>p.
                bindL (thread_pool_start E junk p) (\<lambda>_. liftL (upd_io io (\<lambda>s. s\<lparr>threadPool := p\<rparr>))))
           else liftL skip)
          (\<lambda>_. liftL (run_then [
             upd_io io (\<lambda>s. s\<lparr>ip := addr, port := prt, accept_cb := acc_cb, io_type := ty\<rparr>),
             upd_io io (\<lambda>s. case certs of None \<Rightarrow> s | Some (cert, key) \<Rightarrow> s\<lparr>cert_file := cert, key_file := key\<rparr>)]
             (server_setup E io)))))"

definition create_tcp_server :: "env \<Rightarrow> event_loop_st \<Rightarrow> ptr \<Rightarrow> string \<Rightarrow> string \<Rightarrow> callback \<Rightarrow> int \<Rightarrow> ptr lm" where
  "create_tcp_server E junk l addr prt acc_cb n = create_server E junk IO_TYPE_TCP l addr prt None acc_cb n"

definition create_ssl_server ::
  "env \<Rightarrow> event_loop_st \<Rightarrow> ptr \<Rightarrow> string \<Rightarrow> string \<Rightarrow> (string \<times> string) option \<Rightarrow> callback \<Rightarrow> int \<Rightarrow> ptr lm" where
  "create_ssl_server E junk l addr prt certs acc_cb n = create_server E junk IO_TYPE_SSL l addr prt certs acc_cb n"

end
