(* ===== verification/LoopRounds.thy ===== *)
theory LoopRounds
  imports EventLoop
begin

section \<open>What a round of the event loop does\<close>

text \<open>
  Lemmas and properties of \<open>process_timer\<close>, \<open>process_pending_event\<close> and \<open>loop_round\<close>: one due timer,
  all due timers, the pending list, and a whole round; then the cases in which the code fails.
\<close>

subsection \<open>One due timer\<close>

text \<open>The user calls of a history; callbacks that do what they like outside the loop's own state.\<close>

fun user_call_of :: "act \<Rightarrow> user_call list" where
  "user_call_of (User c) = [c]"
| "user_call_of (Sys c r) = []"

definition calls :: "act list \<Rightarrow> user_call list" where
  "calls tr = concat (map user_call_of tr)"

lemma calls_simps [simp]: "calls [] = []" "calls (tr @ tr') = calls tr @ calls tr'"
  "calls (a # tr) = user_call_of a @ calls tr"
  by (simp_all add: calls_def)

definition tame_user :: "env \<Rightarrow> bool" where
  "tame_user E \<longleftrightarrow> (\<forall>c w. \<exists>w'. user E c w = Inr ((), w') \<and> loops w' = loops w \<and> tms w' = tms w
     \<and> freed w' = freed w \<and> (\<forall>ev. event_of w' ev = event_of w ev) \<and> calls (trace w') = calls (trace w))"

fun timer_calls :: "callback \<Rightarrow> ptr \<Rightarrow> user_call list" where
  "timer_calls (User_cb f) t = [Call_timer f t]"
| "timer_calls _ t = []"

text \<open>
  A timer of loop \<open>l\<close> that can be processed: live, with an ordinary callback, and due in the future
  when it is armed again now. The heap holds each such timer once.
\<close>

definition timer_ok :: "world \<Rightarrow> ptr \<Rightarrow> ptr \<Rightarrow> bool" where
  "timer_ok w l t \<longleftrightarrow> Ev_timer t \<notin> set (freed w) \<and> ev_loop (tms w t) = l \<and> user_cb (cb (tms w t))
     \<and> cur_ms (loops w l) < cur_ms (loops w l) + timeout (tms w t)"

definition timers_ready :: "world \<Rightarrow> ptr \<Rightarrow> bool" where
  "timers_ready w l \<longleftrightarrow> l \<noteq> NULL \<and> timers_wf w l
     \<and> (\<forall>t\<in>#armed w l. count (armed w l) t = 1 \<and> timer_ok w l t)"

definition due :: "world \<Rightarrow> ptr \<Rightarrow> ptr \<Rightarrow> bool" where
  "due w l t \<longleftrightarrow> next_timeout (tms w t) \<le> cur_ms (loops w l)"

text \<open>A due timer that was to run once leaves the heap; all others stay.\<close>

definition keeps :: "world \<Rightarrow> ptr \<Rightarrow> ptr \<Rightarrow> bool" where
  "keeps w l t \<longleftrightarrow> \<not> due w l t \<or> repeat (tms w t) \<noteq> 1"

lemma timers_readyD:
  assumes "timers_ready w l" "t \<in># armed w l"
  shows "count (armed w l) t = 1" "timer_ok w l t" "t \<noteq> NULL" "l \<noteq> NULL" "t \<notin># armed w l - {#t#}"
  using assms by (auto simp: timers_ready_def timers_wf_def armed_def heap_wf_def in_diff_count intro: gr0I)

lemma root_in_armed:
  assumes "timers_ready w l" "armed w l \<noteq> {#}"
  shows "heap_size (timers (loops w l)) \<noteq> 0" "array (timers (loops w l)) ! 0 = heap_top (timers (loops w l))"
    "heap_top (timers (loops w l)) \<in># armed w l"
proof -
  have wf: "heap_wf (timer_key w) (timers (loops w l))" using assms(1) by (simp add: timers_ready_def timers_wf_def)
  show "heap_size (timers (loops w l)) \<noteq> 0" using assms(2) wf by (auto simp: armed_def)
  then show "array (timers (loops w l)) ! 0 = heap_top (timers (loops w l))"
    "heap_top (timers (loops w l)) \<in># armed w l"
    using heap_top_mem [OF wf] by (simp_all add: heap_top_def armed_def)
qed

lemma root_timer_run:
  assumes "timers_ready w l" "armed w l \<noteq> {#}"
  shows "root_timer l w = (let t = heap_top (timers (loops w l)) in Inr ((t, tms w t), w))"
  using root_in_armed [OF assms] timers_readyD [OF assms(1) root_in_armed(3) [OF assms]]
  by (simp add: root_timer_def timer_ok_def Let_def)

lemma put_event_user: "put_event (Ev_user p) f w = w\<lparr>uevents := (uevents w)(p := f (uevents w p))\<rparr>"
  by (simp add: put_event_def)

lemma pushed_timer_fields [simp]:
  "next_timeout (tms (pushed ev w) t) = next_timeout (tms w t)" "repeat (tms (pushed ev w) t) = repeat (tms w t)"
  "timeout (tms (pushed ev w) t) = timeout (tms w t)" "cb (tms (pushed ev w) t) = cb (tms w t)"
  "destory (tms (pushed ev w) t) = destory (tms w t)" "ev_loop (tms (pushed ev w) t) = ev_loop (tms w t)"
  by (cases ev; simp add: pushed_def Let_def put_event_user)+

lemma pushed_other_timer: "t' \<noteq> t \<Longrightarrow> tms (pushed (Ev_timer t) w) t' = tms w t'"
  by (simp add: pushed_def Let_def)

lemma oneshot_run:
  assumes "l \<noteq> NULL" "t \<noteq> NULL" "Ev_timer t \<notin> set (freed w)" "ev_loop (tms w t) = l" "repeat (tms w t) = 1"
  shows "\<exists>w1. timer_round E l t w = Inr ((), if pending (tms w t) then w1 else pushed (Ev_timer t) w1)
    \<and> tms w1 = (tms w)(t := destory_update (\<lambda>_. True) (repeat_update (\<lambda>_. 0) (tms w t)))
    \<and> loops w1 = (loops w)(l := (loops w l)\<lparr>timers_num := timers_num (loops w l) - 1,
        timers := heap_pop (timers_compare w) (timers (loops w l))\<rparr>)
    \<and> ios w1 = ios w \<and> uevents w1 = uevents w \<and> freed w1 = freed w \<and> trace w1 = trace w"
proof -
  have cmp: "due_before ((tms w)(t := repeat_update f (tms w t))) = due_before (tms w)" for f
    by (simp add: due_before_def fun_eq_iff)
  define w1 where "w1 = w\<lparr>tms := (tms w)(t := repeat_update (\<lambda>_. 0) (tms w t)),
    loops := (loops w)(l := (loops w l)\<lparr>timers_num := timers_num (loops w l) - 1,
        timers := heap_pop (timers_compare w) (timers (loops w l))\<rparr>),
    tms := (tms w)(t := destory_update (\<lambda>_. True) (repeat_update (\<lambda>_. 0) (tms w t)))\<rparr>"
  have "timer_round E l t w = event_pending (Ev_timer t) w1"
    using assms by (simp add: timer_round_def del_timer_def timers_compare_tms cmp w1_def case_skip)
  also have "\<dots> = Inr ((), if pending (tms w t) then w1 else pushed (Ev_timer t) w1)"
    using assms by (subst event_pending_run) (simp_all add: w1_def)
  finally show ?thesis by (intro exI [of _ w1]) (simp add: w1_def)
qed

text \<open>A due timer that was to run once: off the heap, marked for destruction and pending.\<close>

definition scheduled :: "event_ref \<Rightarrow> event_ref list \<Rightarrow> event_ref list" where
  "scheduled ev xs = (if ev \<in> set xs then xs else ev # xs)"

lemma oneshot_step:
  assumes "timers_ready w l" "armed w l \<noteq> {#}" "t = heap_top (timers (loops w l))" "repeat (tms w t) = 1"
    and "pending_wf w l xs"
  shows "\<exists>w'. timer_round E l t w = Inr ((), w') \<and> timers_ready w' l \<and> armed w' l = armed w l - {#t#}
    \<and> cur_ms (loops w' l) = cur_ms (loops w l) \<and> (\<forall>x. x \<noteq> t \<longrightarrow> tms w' x = tms w x)
    \<and> timers (loops w' l) = heap_pop (timers_compare w) (timers (loops w l))
    \<and> destory (tms w' t) \<and> pending_wf w' l (scheduled (Ev_timer t) xs) \<and> trace w' = trace w
    \<and> (\<forall>ev. cb (event_of w' ev) = cb (event_of w ev))"
proof -
  let ?h = "timers (loops w l)"
  have t: "t \<in># armed w l" using root_in_armed [OF assms(1,2)] assms(3) by simp
  note tD = timers_readyD [OF assms(1) t]
  have live: "Ev_timer t \<notin> set (freed w)" and own: "ev_loop (tms w t) = l"
    using tD(2) by (simp_all add: timer_ok_def)
  obtain w1 where run: "timer_round E l t w = Inr ((), if pending (tms w t) then w1 else pushed (Ev_timer t) w1)"
    and tms1: "tms w1 = (tms w)(t := destory_update (\<lambda>_. True) (repeat_update (\<lambda>_. 0) (tms w t)))"
    and loops1: "loops w1 = (loops w)(l := (loops w l)\<lparr>timers_num := timers_num (loops w l) - 1,
        timers := heap_pop (timers_compare w) ?h\<rparr>)"
    and rest: "ios w1 = ios w" "uevents w1 = uevents w" "freed w1 = freed w" "trace w1 = trace w"
    using oneshot_run [OF tD(4) tD(3) live own assms(4), of E] by blast
  define w' where "w' = (if pending (tms w t) then w1 else pushed (Ev_timer t) w1)"
  have wf: "heap_wf (timer_key w) ?h" using assms(1) by (simp add: timers_ready_def timers_wf_def)
  have heap: "timers (loops w' l) = heap_pop (key_lt (timer_key w)) ?h" "cur_ms (loops w' l) = cur_ms (loops w l)"
    by (simp_all add: w'_def loops1 timers_compare_key)
  have key: "timer_key w' = timer_key w"
    by (auto simp: timer_key_def w'_def tms1)
  have armed: "armed w' l = armed w l - {#t#}"
    using heap_pop_mset [OF wf root_in_armed(1) [OF assms(1,2)]] assms(3) heap by (simp add: armed_def)
  have other: "tms w' x = tms w x" if "x \<noteq> t" for x
    using that by (simp add: w'_def tms1 pushed_other_timer)
  have fr: "freed w' = freed w" by (simp add: w'_def rest)
  have ready: "timers_ready w' l"
    unfolding timers_ready_def
  proof (intro conjI ballI)
    show "l \<noteq> NULL" by (rule tD(4))
    show "timers_wf w' l" using heap_pop_wf [OF wf] by (simp add: timers_wf_def key heap)
    fix x assume "x \<in># armed w' l"
    then have x: "x \<in># armed w l" "x \<noteq> t"
      using tD(5) unfolding armed by (auto dest: in_diffD)
    show "count (armed w' l) x = 1"
      using x timers_readyD(1) [OF assms(1) x(1)] by (simp add: armed)
    show "timer_ok w' l x"
      using timers_readyD(2) [OF assms(1) x(1)] other [OF x(2)] heap(2) fr by (simp add: timer_ok_def)
  qed
  have ev1: "event_of w1 x = (if x = Ev_timer t then (event_of w x)\<lparr>destory := True\<rparr> else event_of w x)" for x
    by (cases x) (auto simp: event_of_def tms1 rest event_st.defs)
  have "is_chain w1 (loop_pending (loops w l)) xs = is_chain w (loop_pending (loops w l)) xs"
    by (rule is_chain_cong) (simp add: ev1)
  then have wf1: "pending_wf w1 l xs"
    using assms(5) by (auto simp: pending_wf_def ev1 loops1 rest split: if_splits)
  have "pending_wf w' l (scheduled (Ev_timer t) xs)"
  proof (cases "pending (tms w t)")
    case True
    then have "Ev_timer t \<in> set xs" using assms(5) own by (simp add: pending_wf_def)
    then show ?thesis using True wf1 by (simp add: w'_def scheduled_def)
  next
    case False
    then have "Ev_timer t \<notin> set xs" using assms(5) by (auto simp: pending_wf_def)
    then show ?thesis
      using False pushed_wf [OF wf1, of "Ev_timer t"] tD(3) live own rest
      by (simp add: w'_def scheduled_def tms1)
  qed
  moreover have "cb (event_of w' x) = cb (event_of w x)" for x
    by (simp add: w'_def event_of_pushed ev1)
  ultimately show ?thesis
    using run ready armed heap other by (auto simp: w'_def tms1 rest timers_compare_key)
qed

text \<open>A due timer that runs again: back on the heap with its new time, and called.\<close>

definition rearmed :: "world \<Rightarrow> ptr \<Rightarrow> ptr \<Rightarrow> event_timer_st" where
  "rearmed w l t = next_timeout_update (\<lambda>_. cur_ms (loops w l) + timeout (tms w t))
     (repeat_update (\<lambda>r. if r = 0xFFFFFFFF then r else r - 1) (tms w t))"

lemma rearmed_fields [simp]:
  "next_timeout (rearmed w l t) = cur_ms (loops w l) + timeout (tms w t)"
  "timeout (rearmed w l t) = timeout (tms w t)" "cb (rearmed w l t) = cb (tms w t)"
  "ev_loop (rearmed w l t) = ev_loop (tms w t)"
  "event_st.truncate (rearmed w l t) = event_st.truncate (tms w t)"
  by (simp_all add: rearmed_def event_st.defs)

lemma repeat_run:
  assumes "l \<noteq> NULL" "t \<noteq> NULL" "Ev_timer t \<notin> set (freed w)" "repeat (tms w t) \<noteq> 1"
  shows "\<exists>w1. timer_round E l t w = (if cb (tms w t) = No_cb then Inr ((), w1)
      else call_event_cb E (cb (tms w t)) (Ev_timer t) w1)
    \<and> tms w1 = (tms w)(t := rearmed w l t)
    \<and> loops w1 = (loops w)(l := (loops w l)\<lparr>timers :=
        heap_insert (timers_compare w1) (heap_pop (timers_compare w1) (timers (loops w l))) t\<rparr>)
    \<and> ios w1 = ios w \<and> uevents w1 = uevents w \<and> freed w1 = freed w \<and> trace w1 = trace w"
proof -
  define T where "T = (tms w)(t := rearmed w l t)"
  define w1 where "w1 = w\<lparr>tms := T, loops := (loops w)(l := (loops w l)\<lparr>timers :=
        heap_insert (due_before T) (heap_pop (due_before T) (timers (loops w l))) t\<rparr>)\<rparr>"
  show ?thesis
  proof (intro exI [of _ w1] conjI)
    show "timer_round E l t w = (if cb (tms w t) = No_cb then Inr ((), w1)
      else call_event_cb E (cb (tms w t)) (Ev_timer t) w1)"
    proof (cases "repeat (tms w t) = 0xFFFFFFFF")
      case True
      then have "rearmed w l t = (tms w t)\<lparr>next_timeout := cur_ms (loops w l) + timeout (tms w t)\<rparr>"
        by (cases "tms w t") (simp add: rearmed_def)
      then show ?thesis
        using assms True by (simp add: timer_round_def timers_compare_tms w1_def T_def case_skip)
    next
      case False
      have "rearmed w l t = (tms w t)\<lparr>repeat := repeat (tms w t) - 1,
          next_timeout := cur_ms (loops w l) + timeout (tms w t)\<rparr>"
        using False by (cases "tms w t") (simp add: rearmed_def)
      moreover have "repeat (tms w t) - 1 \<noteq> 0" using assms(4) by (simp only: right_minus_eq) simp
      ultimately show ?thesis
        using assms False by (simp add: timer_round_def timers_compare_tms w1_def T_def case_skip)
    qed
  qed (simp_all add: w1_def T_def timers_compare_tms)
qed

lemma pending_wf_same:
  assumes "pending_wf w l xs" "loop_pending (loops w' l) = loop_pending (loops w l)"
    and "freed w' = freed w" "\<And>ev. event_of w' ev = event_of w ev"
  shows "pending_wf w' l xs"
proof -
  have "is_chain w' (loop_pending (loops w l)) xs = is_chain w (loop_pending (loops w l)) xs"
    by (rule is_chain_cong) (simp add: assms(4))
  then show ?thesis using assms by (simp add: pending_wf_def)
qed

lemma repeat_step:
  assumes "timers_ready w l" "armed w l \<noteq> {#}" "t = heap_top (timers (loops w l))" "repeat (tms w t) \<noteq> 1"
    and "pending_wf w l xs" "tame_user E"
  shows "\<exists>w'. timer_round E l t w = Inr ((), w') \<and> timers_ready w' l \<and> armed w' l = armed w l
    \<and> cur_ms (loops w' l) = cur_ms (loops w l) \<and> tms w' = (tms w)(t := rearmed w l t)
    \<and> pending_wf w' l xs \<and> calls (trace w') = calls (trace w) @ timer_calls (cb (tms w t)) t
    \<and> (\<forall>ev. cb (event_of w' ev) = cb (event_of w ev))"
proof -
  let ?h = "timers (loops w l)"
  have t: "t \<in># armed w l" using root_in_armed [OF assms(1,2)] assms(3) by simp
  note tD = timers_readyD [OF assms(1) t]
  have live: "Ev_timer t \<notin> set (freed w)" and cbt: "user_cb (cb (tms w t))"
    using tD(2) by (simp_all add: timer_ok_def)
  obtain w1 where run: "timer_round E l t w = (if cb (tms w t) = No_cb then Inr ((), w1)
      else call_event_cb E (cb (tms w t)) (Ev_timer t) w1)"
    and tms1: "tms w1 = (tms w)(t := rearmed w l t)"
    and loops1: "loops w1 = (loops w)(l := (loops w l)\<lparr>timers :=
        heap_insert (timers_compare w1) (heap_pop (timers_compare w1) ?h) t\<rparr>)"
    and rest: "ios w1 = ios w" "uevents w1 = uevents w" "freed w1 = freed w" "trace w1 = trace w"
    using repeat_run [OF tD(4) tD(3) live assms(4), of E] by blast
  have wf: "heap_wf (timer_key w) ?h" using assms(1) by (simp add: timers_ready_def timers_wf_def)
  let ?h1 = "heap_pop (key_lt (timer_key w)) ?h"
  have pop: "heap_pop (timers_compare w1) ?h = ?h1"
    unfolding timers_compare_key
    using tD(5) assms(3)
    by (intro heap_pop_cong [OF wf]) (auto simp: key_lt_def timer_key_def tms1 armed_def)
  have h1: "heap_wf (timer_key w) ?h1" "heap_mset ?h1 = armed w l - {#t#}"
    using heap_pop_wf [OF wf] heap_pop_mset [OF wf root_in_armed(1) [OF assms(1,2)]] assms(3)
    by (simp_all add: armed_def)
  have "heap_wf (timer_key w1) ?h1"
    using h1 tD(5) by (subst heap_wf_cong [where key = "timer_key w"]) (auto simp: timer_key_def tms1)
  then have wf1: "heap_wf (timer_key w1) (timers (loops w1 l))"
    using heap_insert_wf tD(3) pop by (simp add: loops1) (simp add: timers_compare_key)
  have "0 < capacity ?h"
    using heap_wfD(2) [OF wf] root_in_armed(1) [OF assms(1,2)] by linarith
  then have "armed w1 l = add_mset t (armed w l - {#t#})"
    using heap_pop_insert_mset [OF wf] assms(3) by (simp add: armed_def loops1 pop)
  then have armed1: "armed w1 l = armed w l" using t by simp
  have ev1: "event_of w1 x = event_of w x" for x
    by (cases x) (simp_all add: event_of_def tms1 rest)
  have pend1: "pending_wf w1 l xs"
    by (rule pending_wf_same [OF assms(5)]) (simp_all add: ev1 loops1 rest)
  obtain w' where w': "timer_round E l t w = Inr ((), w')" "loops w' = loops w1" "tms w' = tms w1"
    "freed w' = freed w1" "\<forall>ev. event_of w' ev = event_of w1 ev"
    "calls (trace w') = calls (trace w1) @ timer_calls (cb (tms w t)) t"
  proof (cases "cb (tms w t)")
    case (User_cb f)
    obtain w' where "user E (Call_timer f t) (w1\<lparr>trace := trace w1 @ [User (Call_timer f t)]\<rparr>) = Inr ((), w')"
      "loops w' = loops w1" "tms w' = tms w1" "freed w' = freed w1" "\<forall>ev. event_of w' ev = event_of w1 ev"
      "calls (trace w') = calls (trace w1) @ [Call_timer f t]"
      using assms(6) [unfolded tame_user_def, rule_format, of "Call_timer f t"
          "w1\<lparr>trace := trace w1 @ [User (Call_timer f t)]\<rparr>"] by auto
    then show ?thesis using that run User_cb by (simp add: call_event_cb_def)
  qed (use run cbt that in auto)
  have armed': "armed w' l = armed w l" using armed1 w'(2) by (simp add: armed_def)
  have cur: "cur_ms (loops w' l) = cur_ms (loops w l)" by (simp add: w' loops1)
  have "timers_ready w' l"
    unfolding timers_ready_def
  proof (intro conjI ballI)
    show "l \<noteq> NULL" by (rule tD(4))
    show "timers_wf w' l" using wf1 w'(2,3) by (simp add: timers_wf_def timer_key_def [abs_def])
    fix x assume "x \<in># armed w' l"
    then have x: "x \<in># armed w l" using armed' by simp
    show "count (armed w' l) x = 1" using timers_readyD(1) [OF assms(1) x] armed' by simp
    show "timer_ok w' l x"
      using timers_readyD(2) [OF assms(1) x] cur w'(3,4) rest(3)
      by (cases "x = t") (auto simp: timer_ok_def tms1)
  qed
  moreover have "pending_wf w' l xs"
    by (rule pending_wf_same [OF pend1]) (simp_all add: w')
  ultimately show ?thesis
    using w' armed' cur rest(4) tms1 ev1 by auto
qed

subsection \<open>All due timers\<close>

lemma process_timer_step:
  assumes "timers_ready w l" "armed w l \<noteq> {#}" "t = heap_top (timers (loops w l))"
  shows "process_timer E l w =
    (if \<not> due w l t then Some (Inr ((), w))
     else case timer_round E l t w of Inl e \<Rightarrow> Some (Inl e) | Inr (u, w') \<Rightarrow> process_timer E l w')"
  using root_timer_run [OF assms(1,2)] assms(3)
  by (subst process_timer.simps) (simp add: Let_def due_def not_le)

lemma top_not_due:
  assumes "timers_ready w l" "\<not> due w l (heap_top (timers (loops w l)))" "t \<in># armed w l"
  shows "\<not> due w l t"
  using assms heap_top_least [of "timer_key w" "timers (loops w l)" t]
  by (auto simp: timers_ready_def timers_wf_def due_def timer_key_def armed_def)

lemma due_cong: "cur_ms (loops w1 l) = cur_ms (loops w l) \<Longrightarrow> tms w1 x = tms w x \<Longrightarrow>
    due w1 l x = due w l x \<and> keeps w1 l x = keeps w l x \<and> rearmed w1 l x = rearmed w l x"
  by (simp add: due_def keeps_def rearmed_def)

text \<open>What a run of \<open>process_timer\<close> leaves, from \<open>w\<close> with the pending list \<open>xs\<close> to \<open>w'\<close>.\<close>

definition timers_done :: "world \<Rightarrow> ptr \<Rightarrow> event_ref list \<Rightarrow> world \<Rightarrow> bool" where
  "timers_done w l xs w' \<longleftrightarrow>
     armed w' l = {#t \<in># armed w l. keeps w l t#}
     \<and> (\<forall>t\<in>#armed w' l. tms w' t = (if due w l t then rearmed w l t else tms w t))
     \<and> (\<exists>ys. pending_wf w' l ys \<and> set ys = set xs \<union> {Ev_timer t |t. t \<in># armed w l \<and> \<not> keeps w l t})
     \<and> (\<forall>t. t \<in># armed w l \<and> \<not> keeps w l t \<longrightarrow> destory (tms w' t))
     \<and> mset (calls (trace w')) = mset (calls (trace w))
         + (\<Sum>t\<in>#{#t \<in># armed w l. due w l t \<and> keeps w l t#}. mset (timer_calls (cb (tms w t)) t))"

lemma process_timer_lemma:
  assumes "tame_user E"
  shows "timers_ready w l \<Longrightarrow> pending_wf w l xs \<Longrightarrow> \<exists>t\<in>#armed w l. keeps w l t \<Longrightarrow>
    size {#t \<in># armed w l. due w l t#} = n \<Longrightarrow>
    \<exists>w'. process_timer E l w = Some (Inr ((), w')) \<and> timers_ready w' l \<and> cur_ms (loops w' l) = cur_ms (loops w l)
      \<and> timers_done w l xs w' \<and> (\<forall>t. t \<notin># armed w l \<longrightarrow> tms w' t = tms w t)
      \<and> (\<forall>ev. cb (event_of w' ev) = cb (event_of w ev))"
proof (induction n arbitrary: w xs rule: less_induct)
  case (less n)
  note rdy = less.prems(1) and pw = less.prems(2)
  have ne: "armed w l \<noteq> {#}" using less.prems(3) by auto
  define t where "t = heap_top (timers (loops w l))"
  have t: "t \<in># armed w l" using root_in_armed [OF rdy ne] t_def by simp
  note tD = timers_readyD [OF rdy t]
  obtain A where A: "armed w l = add_mset t A" using t by (metis insert_DiffM)
  then have tA: "t \<notin># A" using tD(5) by simp
  show ?case
  proof (cases "due w l t")
    case False
    then have nd: "\<not> due w l x" if "x \<in># armed w l" for x
      using top_not_due [OF rdy] that t_def by blast
    then have eq: "{#x \<in># armed w l. keeps w l x#} = armed w l" "{#x \<in># armed w l. due w l x \<and> keeps w l x#} = {#}"
      by (auto simp: multiset_eq_iff keeps_def intro: count_inI)
    have "timers_done w l xs w"
      unfolding timers_done_def eq using nd pw by (auto simp: keeps_def)
    then show ?thesis
      using False rdy process_timer_step [OF rdy ne t_def] by auto
  next
    case tdue: True
    have count: "size {#x \<in># armed w l. due w l x#} = Suc (size {#x \<in># A. due w l x#})"
      using tdue A by simp
    show ?thesis
    proof (cases "repeat (tms w t) = 1")
      case True
      then have nk: "\<not> keeps w l t" using tdue by (simp add: keeps_def)
      obtain w1 where w1: "timer_round E l t w = Inr ((), w1)" "timers_ready w1 l" "armed w1 l = A"
        "cur_ms (loops w1 l) = cur_ms (loops w l)" "\<forall>x. x \<noteq> t \<longrightarrow> tms w1 x = tms w x"
        "destory (tms w1 t)" "pending_wf w1 l (scheduled (Ev_timer t) xs)" "trace w1 = trace w"
        "\<forall>ev. cb (event_of w1 ev) = cb (event_of w ev)"
        using oneshot_step [OF rdy ne t_def True pw, of E] A by auto
      have same: "due w1 l x = due w l x \<and> keeps w1 l x = keeps w l x \<and> rearmed w1 l x = rearmed w l x \<and> tms w1 x = tms w x"
        if "x \<in># A" for x using that tA w1(4,5) due_cong by metis
      have flt: "{#x \<in># A. due w1 l x#} = {#x \<in># A. due w l x#}" "{#x \<in># A. keeps w1 l x#} = {#x \<in># A. keeps w l x#}"
        "{#x \<in># A. due w1 l x \<and> keeps w1 l x#} = {#x \<in># A. due w l x \<and> keeps w l x#}"
        using same by (auto intro: filter_mset_cong)
      have k1: "\<exists>x\<in>#armed w1 l. keeps w1 l x" using less.prems(3) A nk same w1(3) by auto
      obtain w' where w': "process_timer E l w1 = Some (Inr ((), w'))" "timers_ready w' l"
        "cur_ms (loops w' l) = cur_ms (loops w1 l)" "timers_done w1 l (scheduled (Ev_timer t) xs) w'"
        "\<forall>x. x \<notin># A \<longrightarrow> tms w' x = tms w1 x" "\<forall>ev. cb (event_of w' ev) = cb (event_of w1 ev)"
        using less.IH [OF _ w1(2,7) k1 refl] count flt less.prems(4) w1(3) by auto
      have "(\<Sum>x\<in>#{#x \<in># A. due w l x \<and> keeps w l x#}. mset (timer_calls (cb (tms w1 x)) x))
          = (\<Sum>x\<in>#{#x \<in># A. due w l x \<and> keeps w l x#}. mset (timer_calls (cb (tms w x)) x))"
        using same by (intro arg_cong [where f = sum_mset] image_mset_cong) auto
      moreover have "set (scheduled (Ev_timer t) xs) \<union> {Ev_timer x |x. x \<in># A \<and> \<not> keeps w1 l x}
          = set xs \<union> {Ev_timer x |x. x \<in># armed w l \<and> \<not> keeps w l x}"
        using same nk unfolding A scheduled_def by auto
      then have "\<exists>ys. pending_wf w' l ys \<and> set ys = set xs \<union> {Ev_timer x |x. x \<in># armed w l \<and> \<not> keeps w l x}"
        using w'(4) w1(3) by (simp add: timers_done_def)
      ultimately have "timers_done w l xs w'"
        using w'(4,5) w1(3,6,8) same tA nk unfolding timers_done_def A by (auto simp: flt)
      then show ?thesis
        using w' w1 tdue A process_timer_step [OF rdy ne t_def] by auto
    next
      case False
      then have kt: "keeps w l t" by (simp add: keeps_def)
      obtain w1 where w1: "timer_round E l t w = Inr ((), w1)" "timers_ready w1 l" "armed w1 l = armed w l"
        "cur_ms (loops w1 l) = cur_ms (loops w l)" "tms w1 = (tms w)(t := rearmed w l t)"
        "pending_wf w1 l xs" "calls (trace w1) = calls (trace w) @ timer_calls (cb (tms w t)) t"
        "\<forall>ev. cb (event_of w1 ev) = cb (event_of w ev)"
        using repeat_step [OF rdy ne t_def False pw assms] by auto
      have same: "due w1 l x = due w l x \<and> keeps w1 l x = keeps w l x \<and> rearmed w1 l x = rearmed w l x \<and> tms w1 x = tms w x"
        if "x \<in># A" for x using that tA w1(4,5) due_cong by (metis fun_upd_other)
      have t1: "\<not> due w1 l t" "keeps w1 l t"
        using tD(2) w1(4,5) by (auto simp: due_def keeps_def timer_ok_def)
      have flt: "{#x \<in># A. due w1 l x#} = {#x \<in># A. due w l x#}" "{#x \<in># A. keeps w1 l x#} = {#x \<in># A. keeps w l x#}"
        "{#x \<in># A. due w1 l x \<and> keeps w1 l x#} = {#x \<in># A. due w l x \<and> keeps w l x#}"
        using same by (auto intro: filter_mset_cong)
      have k1: "\<exists>x\<in>#armed w1 l. keeps w1 l x" using t1 t w1(3) by auto
      obtain w' where w': "process_timer E l w1 = Some (Inr ((), w'))" "timers_ready w' l"
        "cur_ms (loops w' l) = cur_ms (loops w1 l)" "timers_done w1 l xs w'"
        "\<forall>x. x \<notin># armed w l \<longrightarrow> tms w' x = tms w1 x" "\<forall>ev. cb (event_of w' ev) = cb (event_of w1 ev)"
        using less.IH [OF _ w1(2,6) k1 refl] count flt less.prems(4) w1(3) t1 A by auto
      have "(\<Sum>x\<in>#{#x \<in># A. due w l x \<and> keeps w l x#}. mset (timer_calls (cb (tms w1 x)) x))
          = (\<Sum>x\<in>#{#x \<in># A. due w l x \<and> keeps w l x#}. mset (timer_calls (cb (tms w x)) x))"
        using same by (intro arg_cong [where f = sum_mset] image_mset_cong) auto
      moreover have "{Ev_timer x |x. x \<in># armed w l \<and> \<not> keeps w1 l x} = {Ev_timer x |x. x \<in># armed w l \<and> \<not> keeps w l x}"
        using same t1 kt unfolding A by auto
      then have "\<exists>ys. pending_wf w' l ys \<and> set ys = set xs \<union> {Ev_timer x |x. x \<in># armed w l \<and> \<not> keeps w l x}"
        using w'(4) w1(3) by (simp add: timers_done_def)
      ultimately have "timers_done w l xs w'"
        using w'(4) w1(3,5,7) same tA kt t1 tdue unfolding timers_done_def A by (auto simp: flt)
      then show ?thesis
        using w' w1 tdue A process_timer_step [OF rdy ne t_def] by auto
    qed
  qed
qed

text \<open>The cells behind the live part of the heap array are null, as the heap operations leave them.\<close>

definition heap_clean :: "heap_st \<Rightarrow> bool" where
  "heap_clean h \<longleftrightarrow> (\<forall>i. heap_size h \<le> i \<and> i < capacity h \<longrightarrow> array h ! i = NULL)"

lemma heapify_down_suffix:
  "i < n \<Longrightarrow> n \<le> j \<Longrightarrow> heapify_down lt n a i ! j = a ! j"
proof (induction lt n a i rule: heapify_down.induct)
  case (1 lt n a i)
  show ?case
    using 1 smaller_child_bounds [of lt a n i]
    by (subst heapify_down.simps) (auto simp: Let_def swap_def)
qed

lemma heap_pop_clean:
  assumes "heap_wf key h" "heap_clean h" "heap_size h \<noteq> 0"
  shows "heap_clean (heap_pop lt h)"
proof -
  let ?n = "heap_size h - 1" and ?a = "move_last (array h) (heap_size h) 0"
  have "?a ! i = NULL" if "?n \<le> i" "i < capacity h" for i
  proof (cases "i = ?n")
    case True
    then show ?thesis using that heap_wfD(1) [OF assms(1)] by (simp add: move_last_def)
  next
    case False
    then show ?thesis
      using that assms(2) by (auto simp: move_last_def heap_clean_def)
  qed
  moreover have "heapify_down lt ?n ?a 0 ! i = ?a ! i" if "?n \<le> i" for i
  proof (cases "?n = 0")
    case True
    then show ?thesis by (simp add: heapify_down.simps smaller_child_def Let_def)
  next
    case False
    then show ?thesis using that by (intro heapify_down_suffix) auto
  qed
  ultimately show ?thesis
    using assms(3) by (simp add: heap_pop_eq heap_clean_def)
qed

lemma process_timer_empty:
  assumes "l \<noteq> NULL" "array (timers (loops w l)) ! 0 = NULL"
  shows "process_timer E l w = Some (Inl Null_deref)"
  using assms by (subst process_timer.simps) (simp add: root_timer_def Let_def)

lemma process_timer_all_fire:
  "timers_ready w l \<Longrightarrow> pending_wf w l xs \<Longrightarrow> heap_clean (timers (loops w l)) \<Longrightarrow> 0 < capacity (timers (loops w l)) \<Longrightarrow>
   \<forall>t\<in>#armed w l. due w l t \<and> repeat (tms w t) = 1 \<Longrightarrow> size (armed w l) = n \<Longrightarrow>
   process_timer E l w = Some (Inl Null_deref)"
proof (induction n arbitrary: w xs)
  case 0
  then have "heap_size (timers (loops w l)) = 0"
    by (simp add: armed_def heap_mset_def timers_ready_def timers_wf_def heap_wf_def)
  then show ?case
    using 0 by (intro process_timer_empty) (auto simp: timers_ready_def heap_clean_def)
next
  case (Suc n)
  have ne: "armed w l \<noteq> {#}" using Suc.prems(6) by auto
  define t where "t = heap_top (timers (loops w l))"
  have t: "t \<in># armed w l" using root_in_armed [OF Suc.prems(1) ne] t_def by simp
  have dt: "due w l t" "repeat (tms w t) = 1" using Suc.prems(5) t by auto
  obtain w1 where w1: "timer_round E l t w = Inr ((), w1)" "timers_ready w1 l" "armed w1 l = armed w l - {#t#}"
    "cur_ms (loops w1 l) = cur_ms (loops w l)" "\<forall>x. x \<noteq> t \<longrightarrow> tms w1 x = tms w x"
    "timers (loops w1 l) = heap_pop (timers_compare w) (timers (loops w l))"
    "pending_wf w1 l (scheduled (Ev_timer t) xs)"
    using oneshot_step [OF Suc.prems(1) ne t_def dt(2) Suc.prems(2), of E] by blast
  have wf: "heap_wf (timer_key w) (timers (loops w l))" using Suc.prems(1) by (simp add: timers_ready_def timers_wf_def)
  have "\<forall>x\<in>#armed w1 l. due w1 l x \<and> repeat (tms w1 x) = 1"
  proof
    fix x assume "x \<in># armed w1 l"
    then have "x \<in># armed w l" "x \<noteq> t"
      using w1(3) timers_readyD(5) [OF Suc.prems(1) t] by (auto dest: in_diffD)
    then show "due w1 l x \<and> repeat (tms w1 x) = 1" using Suc.prems(5) w1(4,5) by (auto simp: due_def)
  qed
  moreover have "heap_clean (timers (loops w1 l))"
    using heap_pop_clean [OF wf Suc.prems(3) root_in_armed(1) [OF Suc.prems(1) ne]] w1(6) by simp
  moreover have "0 < capacity (timers (loops w1 l))" using Suc.prems(4) by (simp add: w1(6) heap_pop_def Let_def)
  ultimately have "process_timer E l w1 = Some (Inl Null_deref)"
    using Suc.IH [OF w1(2,7)] w1(3) t Suc.prems(6) by (simp add: size_Diff_singleton)
  then show ?case
    using dt(1) w1(1) process_timer_step [OF Suc.prems(1) ne t_def] by simp
qed

subsection \<open>The pending list\<close>

fun event_calls :: "callback \<Rightarrow> event_ref \<Rightarrow> user_call list" where
  "event_calls (User_cb f) (Ev_io p) = [Call_io f p]"
| "event_calls (User_cb f) (Ev_timer t) = [Call_timer f t]"
| "event_calls (User_cb f) (Ev_user p) = [Call_event f p]"
| "event_calls _ ev = []"

definition processed :: "event_st \<Rightarrow> event_st" where
  "processed e = (if cb e = No_cb then e else e\<lparr>pending := False, destory := False\<rparr>)"

lemma tame_call:
  assumes "tame_user E" "user_cb c" "c \<noteq> No_cb"
  shows "\<exists>w'. call_event_cb E c ev w = Inr ((), w') \<and> loops w' = loops w \<and> tms w' = tms w \<and> freed w' = freed w
    \<and> (\<forall>ev. event_of w' ev = event_of w ev) \<and> calls (trace w') = calls (trace w) @ event_calls c ev"
proof -
  obtain f where f: "c = User_cb f" using assms(2,3) by (cases c) auto
  define uc where "uc = (case ev of Ev_io p \<Rightarrow> Call_io f p | Ev_timer t \<Rightarrow> Call_timer f t | Ev_user p \<Rightarrow> Call_event f p)"
  have "call_event_cb E c ev w = user E uc (w\<lparr>trace := trace w @ [User uc]\<rparr>)" "event_calls c ev = [uc]"
    by (cases ev; simp add: call_event_cb_def uc_def f)+
  then show ?thesis
    using assms(1) [unfolded tame_user_def, rule_format, of uc "w\<lparr>trace := trace w @ [User uc]\<rparr>"] by auto
qed

lemma put_event_next_timeout [simp]:
  "next_timeout (tms (put_event ev (pending_update f) w) t) = next_timeout (tms w t)"
  "next_timeout (tms (put_event ev (destory_update f) w) t) = next_timeout (tms w t)"
  by (cases ev; simp add: put_event_user)+

lemma pending_round_run:
  assumes "tame_user E" "ev_ptr ev \<noteq> NULL" "ev \<notin> set (freed w)" "user_cb (cb (event_of w ev))"
  shows "\<exists>w'. pending_round E ev (cb (event_of w ev)) w = Inr ((), w') \<and> loops w' = loops w
    \<and> freed w' = (if cb (event_of w ev) \<noteq> No_cb \<and> destory (event_of w ev) then [ev] else []) @ freed w
    \<and> (\<forall>x. event_of w' x = (if x = ev then processed (event_of w x) else event_of w x))
    \<and> calls (trace w') = calls (trace w) @ event_calls (cb (event_of w ev)) ev
    \<and> (\<forall>t. next_timeout (tms w' t) = next_timeout (tms w t))"
proof (cases "cb (event_of w ev) = No_cb")
  case True
  then show ?thesis by (auto simp: pending_round_def processed_def)
next
  case False
  let ?e = "event_of w ev"
  obtain w1 where w1: "call_event_cb E (cb ?e) ev w = Inr ((), w1)" "loops w1 = loops w" "tms w1 = tms w" "freed w1 = freed w"
    "\<forall>ev. event_of w1 ev = event_of w ev" "calls (trace w1) = calls (trace w) @ event_calls (cb ?e) ev"
    using tame_call [OF assms(1,4) False] by blast
  define w2 where "w2 = put_event ev (pending_update (\<lambda>_. False)) w1"
  define w' where "w' = (if destory ?e then (put_event ev (destory_update (\<lambda>_. False)) w2)\<lparr>freed := ev # freed w\<rparr> else w2)"
  have "pending_round E ev (cb ?e) w = Inr ((), w')"
    using False assms(2,3) w1 by (auto simp: pending_round_def event_del_def w2_def w'_def)
  then show ?thesis
    using w1 False by (intro exI [of _ w']) (auto simp: w'_def w2_def processed_def)
qed

definition pending_calls :: "world \<Rightarrow> event_ref list \<Rightarrow> user_call list" where
  "pending_calls w xs = concat (map (\<lambda>ev. event_calls (cb (event_of w ev)) ev) xs)"

definition pending_frees :: "world \<Rightarrow> event_ref list \<Rightarrow> event_ref list" where
  "pending_frees w xs = filter (\<lambda>ev. cb (event_of w ev) \<noteq> No_cb \<and> destory (event_of w ev)) xs"

lemma pending_loop_run:
  assumes "tame_user E"
  shows "is_chain w r xs \<Longrightarrow> distinct xs \<Longrightarrow>
    \<forall>ev\<in>set xs. ev_ptr ev \<noteq> NULL \<and> ev \<notin> set (freed w) \<and> user_cb (cb (event_of w ev)) \<Longrightarrow>
    \<exists>w'. pending_loop E r w = Some (Inr ((), w')) \<and> loops w' = loops w
      \<and> freed w' = rev (pending_frees w xs) @ freed w
      \<and> (\<forall>x. event_of w' x = (if x \<in> set xs then processed (event_of w x) else event_of w x))
      \<and> calls (trace w') = calls (trace w) @ pending_calls w xs
      \<and> (\<forall>t. next_timeout (tms w' t) = next_timeout (tms w t))"
proof (induction xs arbitrary: w r)
  case Nil
  then show ?case by (subst pending_loop.simps) (simp add: pending_calls_def pending_frees_def)
next
  case (Cons ev xs)
  then have r: "r = Some ev" and chain: "is_chain w (next_event (event_of w ev)) xs" and nin: "ev \<notin> set xs"
    by simp_all
  have ev: "ev_ptr ev \<noteq> NULL" "ev \<notin> set (freed w)" "user_cb (cb (event_of w ev))" using Cons.prems by simp_all
  obtain w1 where w1: "pending_round E ev (cb (event_of w ev)) w = Inr ((), w1)" "loops w1 = loops w"
    "freed w1 = (if cb (event_of w ev) \<noteq> No_cb \<and> destory (event_of w ev) then [ev] else []) @ freed w"
    "\<forall>x. event_of w1 x = (if x = ev then processed (event_of w x) else event_of w x)"
    "calls (trace w1) = calls (trace w) @ event_calls (cb (event_of w ev)) ev"
    "\<forall>t. next_timeout (tms w1 t) = next_timeout (tms w t)"
    using pending_round_run [OF assms ev] by blast
  have same: "event_of w1 x = event_of w x" if "x \<in> set xs" for x using w1(4) that nin by auto
  have frees: "pending_frees w1 xs = pending_frees w xs"
    unfolding pending_frees_def by (rule filter_cong) (auto simp: same)
  have callseq: "pending_calls w1 xs = pending_calls w xs"
    by (auto simp: pending_calls_def same intro!: arg_cong [where f = concat])
  have "is_chain w1 (next_event (event_of w ev)) xs"
    using chain is_chain_cong [of xs w1 w] same by simp
  moreover have "\<forall>x\<in>set xs. ev_ptr x \<noteq> NULL \<and> x \<notin> set (freed w1) \<and> user_cb (cb (event_of w1 x))"
    using Cons.prems(3) nin same by (auto simp: w1(3))
  ultimately obtain w' where w': "pending_loop E (next_event (event_of w ev)) w1 = Some (Inr ((), w'))"
    "loops w' = loops w1" "freed w' = rev (pending_frees w1 xs) @ freed w1"
    "\<forall>x. event_of w' x = (if x \<in> set xs then processed (event_of w1 x) else event_of w1 x)"
    "calls (trace w') = calls (trace w1) @ pending_calls w1 xs"
    "\<forall>t. next_timeout (tms w' t) = next_timeout (tms w1 t)"
    using Cons.IH [of w1] Cons.prems(2) by fastforce
  have "pending_loop E r w = pending_loop E (next_event (event_of w ev)) w1"
    using ev w1(1) by (subst pending_loop.simps) (simp add: r)
  moreover have "freed w' = rev (pending_frees w (ev # xs)) @ freed w"
    using w'(3) w1(3) frees by (simp add: pending_frees_def)
  moreover have "calls (trace w') = calls (trace w) @ pending_calls w (ev # xs)"
    using w'(5) w1(5) callseq by (simp add: pending_calls_def)
  moreover have "event_of w' x = (if x \<in> set (ev # xs) then processed (event_of w x) else event_of w x)" for x
    using w'(4) w1(4) nin by simp
  ultimately show ?case using w'(1,2,6) w1(2,6) by auto
qed

lemma process_pending_run:
  assumes "tame_user E" "l \<noteq> NULL" "pending_wf w l xs" "\<forall>ev\<in>set xs. user_cb (cb (event_of w ev))"
  shows "\<exists>w'. process_pending_event E l w = Some (Inr ((), w'))
      \<and> loops w' = (loops w)(l := (loops w l)\<lparr>loop_pending := None\<rparr>)
      \<and> freed w' = rev (pending_frees w xs) @ freed w
      \<and> (\<forall>x. event_of w' x = (if x \<in> set xs then processed (event_of w x) else event_of w x))
      \<and> calls (trace w') = calls (trace w) @ pending_calls w xs
      \<and> (\<forall>t. next_timeout (tms w' t) = next_timeout (tms w t))"
proof -
  have "is_chain w (loop_pending (loops w l)) xs" "distinct xs"
    "\<forall>ev\<in>set xs. ev_ptr ev \<noteq> NULL \<and> ev \<notin> set (freed w) \<and> user_cb (cb (event_of w ev))"
    using assms(3,4) by (auto simp: pending_wf_def)
  from pending_loop_run [OF assms(1) this] show ?thesis
    using assms(2) by (auto simp: process_pending_event_def)
qed

text \<open>C14: Processing a pending list of events of the user. When every listed event has a callback of the
  user or none (so no io with the internal \<open>handle_event\<close> is listed), and these callbacks leave the
  loop's own state alone, the loop returns; every callback is called once, in list order; each event
  with a callback is no longer pending and, if marked for destruction, freed, while an event without
  one stays marked; nothing else changes, and when every event has a callback the loop's list is empty
  and well-formed again.\<close>

theorem process_pending_event_correct:
  assumes "tame_user E" "l \<noteq> NULL" "pending_wf w l xs" "\<forall>ev\<in>set xs. user_cb (cb (event_of w ev))"
  shows "\<exists>w'. process_pending_event E l w = Some (Inr ((), w'))
      \<and> calls (trace w') = calls (trace w) @ concat (map (\<lambda>ev. event_calls (cb (event_of w ev)) ev) xs)
      \<and> set (freed w') = set (freed w) \<union> {ev \<in> set xs. cb (event_of w ev) \<noteq> No_cb \<and> destory (event_of w ev)}
      \<and> (\<forall>ev. event_of w' ev = (if ev \<in> set xs \<and> cb (event_of w ev) \<noteq> No_cb
          then (event_of w ev)\<lparr>pending := False, destory := False\<rparr> else event_of w ev))
      \<and> ((\<forall>ev\<in>set xs. cb (event_of w ev) \<noteq> No_cb) \<longrightarrow> pending_wf w' l [])"
proof -
  obtain w' where w': "process_pending_event E l w = Some (Inr ((), w'))"
      "loops w' = (loops w)(l := (loops w l)\<lparr>loop_pending := None\<rparr>)"
      "freed w' = rev (pending_frees w xs) @ freed w"
      "\<forall>x. event_of w' x = (if x \<in> set xs then processed (event_of w x) else event_of w x)"
      "calls (trace w') = calls (trace w) @ pending_calls w xs"
    using process_pending_run [OF assms] by blast
  have "pending_wf w' l []" if "\<forall>ev\<in>set xs. cb (event_of w ev) \<noteq> No_cb"
    using that assms(3) w'(2,4) by (auto simp: pending_wf_def processed_def)
  then show ?thesis
    using w' by (auto simp: pending_frees_def pending_calls_def processed_def)
qed

text \<open>C13: Processing the timers of the user. When some armed timer stays armed (it is not due or runs
  again), all armed timers are the user's (no timeouts of ios), armed once and due in the future when armed
  again, and their callbacks leave the loop's own state alone, the loop returns: the timers still armed are
  those that were not due and those that run again, the latter called once each and due again one timeout
  from now; every due timer that was to run once is off the heap, marked for destruction
  and on the pending list, and no due timer is left. (When no timer stays, the loop crashes: \<open>process_timer_last_faults\<close> below.)\<close>

theorem process_timer_runs_due:
  assumes "tame_user E" "timers_ready w l" "pending_wf w l xs" "\<exists>t\<in>#armed w l. keeps w l t"
  shows "\<exists>w'. process_timer E l w = Some (Inr ((), w')) \<and> timers_ready w' l
     \<and> armed w' l = {#t \<in># armed w l. keeps w l t#} \<and> (\<forall>t\<in>#armed w' l. \<not> due w' l t)
     \<and> (\<forall>t\<in>#armed w' l. due w l t \<longrightarrow> next_timeout (tms w' t) = cur_ms (loops w l) + timeout (tms w t))
     \<and> (\<exists>ys. pending_wf w' l ys \<and> set ys = set xs \<union> {Ev_timer t |t. t \<in># armed w l \<and> \<not> keeps w l t})
     \<and> (\<forall>t. t \<in># armed w l \<and> \<not> keeps w l t \<longrightarrow> destory (tms w' t))
     \<and> mset (calls (trace w')) = mset (calls (trace w))
         + (\<Sum>t\<in>#{#t \<in># armed w l. due w l t \<and> keeps w l t#}. mset (timer_calls (cb (tms w t)) t))"
proof -
  obtain w' where w': "process_timer E l w = Some (Inr ((), w'))" "timers_ready w' l"
    "cur_ms (loops w' l) = cur_ms (loops w l)" "timers_done w l xs w'"
    using process_timer_lemma [OF assms refl] by blast
  have "\<not> due w' l t" if "t \<in># armed w' l" for t
  proof -
    have t: "t \<in># armed w l" "tms w' t = (if due w l t then rearmed w l t else tms w t)"
      using w'(4) that by (auto simp: timers_done_def)
    have "cur_ms (loops w l) < cur_ms (loops w l) + timeout (tms w t)"
      using timers_readyD(2) [OF assms(2) t(1)] by (simp add: timer_ok_def)
    then show ?thesis using t(2) w'(3) by (auto simp: due_def not_le)
  qed
  then show ?thesis
    using w' unfolding timers_done_def by auto
qed

text \<open>No timer left. When every armed timer is due and was to run once, the loop pops them all,
  reads the null cell at the root of the empty heap and dereferences it.\<close>

theorem process_timer_last_faults:
  assumes "timers_ready w l" "pending_wf w l xs" "heap_clean (timers (loops w l))" "armed w l \<noteq> {#}"
    and "\<forall>t\<in>#armed w l. due w l t \<and> repeat (tms w t) = 1"
  shows "process_timer E l w = Some (Inl Null_deref)"
proof -
  have "heap_size (timers (loops w l)) \<le> capacity (timers (loops w l))"
    using assms(1) by (simp add: timers_ready_def timers_wf_def heap_wf_def)
  then have "0 < capacity (timers (loops w l))" using root_in_armed(1) [OF assms(1,4)] by linarith
  then show ?thesis using process_timer_all_fire [OF assms(1-3) _ assms(5) refl] by blast
qed

subsection \<open>A round of the loop\<close>

lemma count_timer_calls:
  "count (\<Sum>x\<in>#A. mset (timer_calls (g x) x)) (Call_timer f t) = (if g t = User_cb f then count A t else 0)"
proof (induction A)
  case (add x A)
  then show ?case by (cases "g x") auto
qed simp

lemma count_pending_calls:
  "count_list (pending_calls w ys) (Call_timer f t) =
     (if cb (event_of w (Ev_timer t)) = User_cb f then count_list ys (Ev_timer t) else 0)"
proof (induction ys)
  case (Cons ev ys)
  have "count_list (event_calls (cb (event_of w ev)) ev) (Call_timer f t) =
      (if ev = Ev_timer t \<and> cb (event_of w ev) = User_cb f then 1 else 0)"
    by (cases ev; cases "cb (event_of w ev)") auto
  then show ?case using Cons by (simp add: pending_calls_def count_list_append)
qed (simp add: pending_calls_def)

lemma count_list_distinct: "distinct ys \<Longrightarrow> count_list ys y = (if y \<in> set ys then 1 else 0)"
  by (induction ys) auto

lemma loop_round_timers:
  assumes "l \<noteq> NULL" "0 < timers_num (loops w l)" "update_loop_timer E l w = Inr ((), w1)"
    and "blocktime (loops w1 l) (tms w1) \<le> 0"
  shows "loop_round E l w = bindL (process_timer E l) (\<lambda>_. process_pending_event E l) w1"
  using assms by (simp add: loop_round_def del: update_loop_timer_run)

text \<open>C12: A round of the loop calls every due timer, as long as some timer stays armed. When the time to
  block is up, some armed timer is not due or runs again, all armed timers and listed events are the
  user's (no timeouts of ios, no \<open>handle_event\<close>), the timers armed once and due in the future when armed
  again, and the callbacks leave the loop's own state alone, each due timer with a callback \<open>f\<close>
  that is not listed already is called exactly once in the round; a
  timer that was to run once is then off the heap and freed, one that runs again is armed for one timeout
  from now. (A round that leaves no timer crashes: \<open>process_timer_last_faults\<close> above.)\<close>

theorem loop_round_fires_due:
  assumes "0 < timers_num (loops w0 l)" "update_loop_timer E l w0 = Inr ((), w)"
    and "blocktime (loops w l) (tms w) \<le> 0" "tame_user E" "timers_ready w l" "pending_wf w l xs"
    and "\<forall>ev\<in>set xs. user_cb (cb (event_of w ev))" "\<exists>t\<in>#armed w l. keeps w l t"
    and "t \<in># armed w l" "due w l t" "cb (tms w t) = User_cb f" "Ev_timer t \<notin> set xs"
  shows "\<exists>w'. loop_round E l w0 = Some (Inr ((), w'))
    \<and> count_list (calls (trace w')) (Call_timer f t) = count_list (calls (trace w)) (Call_timer f t) + 1
    \<and> (if repeat (tms w t) = 1 then Ev_timer t \<in> set (freed w') \<and> t \<notin># armed w' l
       else t \<in># armed w' l \<and> next_timeout (tms w' t) = cur_ms (loops w l) + timeout (tms w t))"
proof -
  have l: "l \<noteq> NULL" using assms(5) by (simp add: timers_ready_def)
  obtain w1 where w1: "process_timer E l w = Some (Inr ((), w1))" "timers_ready w1 l" "timers_done w l xs w1"
    "\<forall>ev. cb (event_of w1 ev) = cb (event_of w ev)"
    using process_timer_lemma [OF assms(4-6,8) refl] by blast
  obtain ys where ys: "pending_wf w1 l ys" "set ys = set xs \<union> {Ev_timer t |t. t \<in># armed w l \<and> \<not> keeps w l t}"
    using w1(3) by (auto simp: timers_done_def)
  have cbs: "\<forall>ev\<in>set ys. user_cb (cb (event_of w1 ev))"
    using ys(2) assms(7) w1(4) timers_readyD(2) [OF assms(5)] by (auto simp: timer_ok_def)
  obtain w' where w': "process_pending_event E l w1 = Some (Inr ((), w'))"
      "loops w' = (loops w1)(l := (loops w1 l)\<lparr>loop_pending := None\<rparr>)"
      "freed w' = rev (pending_frees w1 ys) @ freed w1"
      "\<forall>x. event_of w' x = (if x \<in> set ys then processed (event_of w1 x) else event_of w1 x)"
      "calls (trace w') = calls (trace w1) @ pending_calls w1 ys"
      "\<forall>t. next_timeout (tms w' t) = next_timeout (tms w1 t)"
    using process_pending_run [OF assms(4) l ys(1) cbs] by blast
  have run: "loop_round E l w0 = Some (Inr ((), w'))"
    using loop_round_timers [OF l assms(1-3)] w1(1) w'(1) by simp
  let ?c = "Call_timer f t"
  have mem: "Ev_timer t \<in> set ys \<longleftrightarrow> \<not> keeps w l t" using ys(2) assms(9,12) by auto
  have "count (mset (calls (trace w1))) ?c = count (mset (calls (trace w))) ?c
      + count {#x \<in># armed w l. due w l x \<and> keeps w l x#} t"
    using w1(3) assms(11) by (simp add: timers_done_def count_timer_calls)
  then have c1: "count_list (calls (trace w1)) ?c = count_list (calls (trace w)) ?c + (if keeps w l t then 1 else 0)"
    using assms(10) timers_readyD(1) [OF assms(5,9)] by (simp add: count_mset)
  have "cb (event_of w1 (Ev_timer t)) = User_cb f"
    using w1(4) assms(11) by (metis event_of_fields(4))
  then have "count_list (pending_calls w1 ys) ?c = (if keeps w l t then 0 else 1)"
    using count_list_distinct [of ys "Ev_timer t"] ys(1) mem by (simp add: count_pending_calls pending_wf_def)
  then have count: "count_list (calls (trace w')) ?c = count_list (calls (trace w)) ?c + 1"
    using w'(5) c1 by (simp add: count_list_append)
  have armed: "armed w' l = {#x \<in># armed w l. keeps w l x#}"
    using w1(3) w'(2) by (simp add: timers_done_def armed_def)
  show ?thesis
  proof (cases "repeat (tms w t) = 1")
    case True
    then have nk: "\<not> keeps w l t" using assms(10) by (simp add: keeps_def)
    then have "destory (tms w1 t)" using w1(3) assms(9) by (simp add: timers_done_def)
    then have "Ev_timer t \<in> set (freed w')"
      using \<open>cb (event_of w1 (Ev_timer t)) = User_cb f\<close> mem nk w'(3) by (simp add: pending_frees_def)
    then show ?thesis using run count True nk armed by simp
  next
    case False
    then have k: "keeps w l t" by (simp add: keeps_def)
    then have "t \<in># armed w1 l" using w1(3) assms(9) by (simp add: timers_done_def)
    then have "tms w1 t = rearmed w l t" using w1(3) assms(10) by (simp add: timers_done_def)
    then have "next_timeout (tms w' t) = cur_ms (loops w l) + timeout (tms w t)" using w'(6) by simp
    then show ?thesis using run count False k armed assms(9) by simp
  qed
qed

text \<open>An event scheduled while the list is processed is lost. When the callback of the only pending
  event \<open>p\<close> schedules another event \<open>q\<close>, the loop forgets \<open>q\<close> although \<open>q\<close> stays marked pending, so
  scheduling it again does nothing.\<close>

theorem scheduled_in_callback_lost:
  assumes "l \<noteq> NULL" "pending_wf w l [Ev_user p]" "cb (uevents w p) = User_cb f" "\<not> destory (uevents w p)"
    and "\<forall>v. user E (Call_event f p) v = event_pending (Ev_user q) v"
    and "q \<noteq> NULL" "q \<noteq> p" "Ev_user q \<notin> set (freed w)" "ev_loop (uevents w q) = l" "\<not> pending (uevents w q)"
  shows "\<exists>w'. process_pending_event E l w = Some (Inr ((), w')) \<and> loop_pending (loops w' l) = None
    \<and> pending (uevents w' q) \<and> event_pending (Ev_user q) w' = Inr ((), w')"
proof -
  have p: "p \<noteq> NULL" "Ev_user p \<notin> set (freed w)" "loop_pending (loops w l) = Some (Ev_user p)"
    "next_event (uevents w p) = None"
    using assms(2) by (auto simp: pending_wf_def event_of_def)
  define w1 where "w1 = pushed (Ev_user q) (w\<lparr>trace := trace w @ [User (Call_event f p)]\<rparr>)"
  have ue: "uevents w1 x = (if x = q then (uevents w q)\<lparr>pending := True, next_event := Some (Ev_user p)\<rparr> else uevents w x)" for x
    using event_of_pushed [of "Ev_user q" "w\<lparr>trace := trace w @ [User (Call_event f p)]\<rparr>" "Ev_user x"] assms(9) p(3)
    by (simp add: w1_def event_of_def)
  define w2 where "w2 = put_event (Ev_user p) (pending_update (\<lambda>_. False)) w1"
  have call: "call_event_cb E (User_cb f) (Ev_user p) w = Inr ((), w1)"
    using assms(5,6,8-10) assms(1) event_pending_run [of "Ev_user q" "w\<lparr>trace := trace w @ [User (Call_event f p)]\<rparr>"]
    by (simp add: call_event_cb_def w1_def event_of_def)
  have fr: "freed w1 = freed w" by (simp add: w1_def)
  have "pending_round E (Ev_user p) (User_cb f) w = Inr ((), w2)"
    using p assms(4,7) call fr ue
    by (simp add: pending_round_def w2_def event_del_def put_event_user event_of_def)
  then have "pending_loop E (Some (Ev_user p)) w = Some (Inr ((), w2))"
    using p assms(3) by (subst pending_loop.simps) (simp add: event_of_def pending_loop.simps [of E None])
  then have run: "process_pending_event E l w
      = Some (Inr ((), w2\<lparr>loops := (loops w2)(l := (loops w2 l)\<lparr>loop_pending := None\<rparr>)\<rparr>))"
    using p(3) assms(1) by (simp add: process_pending_event_def)
  have q: "pending (uevents w2 q)" "freed w2 = freed w" "ev_loop (uevents w2 q) = l"
    using assms(7,9) ue fr by (simp_all add: w2_def put_event_user)
  have "event_pending (Ev_user q) (w2\<lparr>loops := (loops w2)(l := (loops w2 l)\<lparr>loop_pending := None\<rparr>)\<rparr>)
      = Inr ((), w2\<lparr>loops := (loops w2)(l := (loops w2 l)\<lparr>loop_pending := None\<rparr>)\<rparr>)"
    using q assms(1,6,8) by (simp add: event_pending_def event_of_def)
  then show ?thesis using run q(1) by simp
qed

subsection \<open>The hypotheses of these properties can be met\<close>

text \<open>A loop at time \<open>now\<close> with the timers of the given heap: timer 1 runs once and is due at 10, timer 2
  runs for ever and is due at 20.\<close>

definition ticking :: "u64 \<Rightarrow> ptr list \<Rightarrow> nat \<Rightarrow> act list \<Rightarrow> world" where
  "ticking now a n tr = world0\<lparr>
     loops := (\<lambda>l. zero_loop\<lparr>timers := \<lparr>array = a, heap_size = n, capacity = 4\<rparr>, timers_num := 2,
       cur_ms := (if l = 1 then now else 0)\<rparr>),
     tms := (\<lambda>t. zero_timer\<lparr>ev_loop := 1, cb := User_cb 0, timeout := 100,
       repeat := (if t = 1 then 1 else 0xFFFFFFFF), next_timeout := (if t = 1 then 10 else 20)\<rparr>),
     next_ptr := 10, trace := tr\<rparr>"

lemma ticking_sel:
  "timers (loops (ticking now a n tr) l) = \<lparr>array = a, heap_size = n, capacity = 4\<rparr>"
  "cur_ms (loops (ticking now a n tr) l) = (if l = 1 then now else 0)" "timers_num (loops (ticking now a n tr) l) = 2"
  "loop_pending (loops (ticking now a n tr) l) = None" "freed (ticking now a n tr) = []"
  "cb (tms (ticking now a n tr) t) = User_cb 0" "timeout (tms (ticking now a n tr) t) = 100"
  "ev_loop (tms (ticking now a n tr) t) = 1" "repeat (tms (ticking now a n tr) t) = (if t = 1 then 1 else 0xFFFFFFFF)"
  "next_timeout (tms (ticking now a n tr) t) = (if t = 1 then 10 else 20)" "trace (ticking now a n tr) = tr"
  "pending (event_of (ticking now a n tr) ev) = False" "pending (tms (ticking now a n tr) t) = False"
  by (cases ev; simp add: ticking_def zero_loop_def zero_timer_def event_of_def zero_event_def zero_io_def event_st.defs)+

lemma ticking_ready:
  assumes "now \<in> {50, 2005}" "(a, n) \<in> {([1, 2, 0, 0], 2), ([1, 0, 0, 0], 1)}"
  shows "timers_ready (ticking now a n tr) 1" "pending_wf (ticking now a n tr) 1 []"
    "armed (ticking now a n tr) 1 = (if n = 2 then {#1, 2#} else {#1#})"
proof -
  let ?w = "ticking now a n tr"
  show armed: "armed ?w 1 = (if n = 2 then {#1, 2#} else {#1#})"
    using assms(2) by (auto simp: armed_def heap_mset_def ticking_sel numeral_2_eq_2)
  have less: "j = 1" if "0 < j" "j < 2" for j :: nat using that by arith
  have "heap_ordered (timer_key ?w) a n"
    using assms(2) by (auto simp: heap_ordered_def ok_at_def timer_key_def ticking_sel dest!: less)
  moreover have "NULL \<notin># heap_mset (timers (loops ?w 1))"
    using armed by (auto simp: armed_def split: if_splits)
  ultimately have "timers_wf ?w 1"
    using assms(2) by (auto simp: timers_wf_def heap_wf_def ticking_sel)
  then show "timers_ready ?w 1"
    using armed assms(1) by (auto simp: timers_ready_def timer_ok_def ticking_sel split: if_splits)
  show "pending_wf ?w 1 []" by (simp add: pending_wf_def ticking_sel)
qed

lemma sample_env_tame: "tame_user sample_env"
  by (simp add: tame_user_def sample_env_def)

lemma process_timer_runs_due_witness:
  "\<exists>w'. process_timer sample_env 1 (ticking 50 [1, 2, 0, 0] 2 []) = Some (Inr ((), w'))
     \<and> armed w' 1 = {#2#} \<and> calls (trace w') = [Call_timer 0 2]"
proof -
  let ?w = "ticking 50 [1, 2, 0, 0] 2 []"
  note rdy = ticking_ready [of 50 "[1, 2, 0, 0]" 2 "[]"]
  have k: "keeps ?w 1 2" "\<not> keeps ?w 1 1" "due ?w 1 2" "due ?w 1 1" by (simp_all add: keeps_def due_def ticking_sel)
  have "\<exists>t\<in>#armed ?w 1. keeps ?w 1 t" using rdy(3) k by auto
  then show ?thesis
    using process_timer_runs_due [OF sample_env_tame, of ?w 1 "[]"] rdy k by (auto simp: ticking_sel)
qed

lemma process_timer_last_faults_witness:
  "process_timer sample_env 1 (ticking 50 [1, 0, 0, 0] 1 []) = Some (Inl Null_deref)"
proof (rule process_timer_last_faults)
  have cells: "i = 1 \<or> i = 2 \<or> i = 3" if "Suc 0 \<le> i" "i < 4" for i :: nat using that by arith
  show "heap_clean (timers (loops (ticking 50 [1, 0, 0, 0] 1 []) 1))"
    by (auto simp: heap_clean_def ticking_sel dest!: cells)
qed (use ticking_ready [of 50 "[1, 0, 0, 0]" 1 "[]"] in \<open>auto simp: due_def ticking_sel\<close>)

lemma loop_round_fires_due_witness:
  "\<exists>w'. loop_round sample_env 1 (ticking 0 [1, 2, 0, 0] 2 []) = Some (Inr ((), w'))
    \<and> count_list (calls (trace w')) (Call_timer 0 1) = 1 \<and> Ev_timer 1 \<in> set (freed w')"
proof -
  let ?tr = "[Sys Gettimeofday sample_sys]"
  let ?w = "ticking 2005 [1, 2, 0, 0] 2 ?tr"
  note rdy = ticking_ready [of 2005 "[1, 2, 0, 0]" 2 ?tr]
  have step: "update_loop_timer sample_env 1 (ticking 0 [1, 2, 0, 0] 2 []) = Inr ((), ?w)"
    by (simp add: sample_env_def sample_sys_def) (simp add: ticking_def fun_eq_iff)
  have k: "keeps ?w 1 2" "due ?w 1 1" by (simp_all add: keeps_def due_def ticking_sel)
  have block: "blocktime (loops ?w 1) (tms ?w) \<le> 0"
    by (simp add: blocktime_def ticking_sel Let_def)
  have "\<exists>t\<in>#armed ?w 1. keeps ?w 1 t" "1 \<in># armed ?w 1" using rdy(3) k by auto
  then show ?thesis
    using loop_round_fires_due [OF _ step block sample_env_tame, of "[]" 1 0] rdy k by (auto simp: ticking_sel)
qed

lemma process_pending_event_correct_witness:
  "\<exists>w'. process_pending_event sample_env 1 (pushed (Ev_timer 1) (ticking 50 [1, 2, 0, 0] 2 [])) = Some (Inr ((), w'))
    \<and> calls (trace w') = [Call_timer 0 1] \<and> pending_wf w' 1 []"
proof -
  let ?v = "ticking 50 [1, 2, 0, 0] 2 []"
  let ?w = "pushed (Ev_timer 1) ?v"
  have "pending_wf ?v 1 []" by (rule ticking_ready) simp_all
  then have "pending_wf ?w 1 [Ev_timer 1]"
    using pushed_wf [of ?v 1 "[]" "Ev_timer 1"] by (simp add: ticking_sel)
  moreover have "cb (event_of ?w (Ev_timer 1)) = User_cb 0" "trace ?w = []" by (simp_all add: ticking_sel)
  ultimately show ?thesis
    using process_pending_event_correct [OF sample_env_tame, of 1 ?w "[Ev_timer 1]"] by auto
qed

definition scheduling_env :: env where
  "scheduling_env = sample_env\<lparr>user := (\<lambda>_. event_pending (Ev_user 8))\<rparr>"

lemma scheduled_in_callback_lost_witness:
  "\<exists>w'. process_pending_event scheduling_env 1 (pushed (Ev_user 9) post_world) = Some (Inr ((), w'))
    \<and> loop_pending (loops w' 1) = None \<and> pending (uevents w' 8)"
proof -
  let ?w = "pushed (Ev_user 9) post_world"
  have ev: "event_of post_world ev = zero_event\<lparr>ev_loop := (case ev of Ev_timer _ \<Rightarrow> 0 | _ \<Rightarrow> 1),
      cb := (case ev of Ev_user _ \<Rightarrow> User_cb 3 | _ \<Rightarrow> No_cb)\<rparr>" for ev
    by (cases ev) (simp_all add: post_world_def event_of_def zero_event_def zero_io_def zero_timer_def event_st.defs)
  have frl: "freed post_world = []" "loop_pending (loops post_world l) = None" for l
    by (simp_all add: post_world_def zero_loop_def)
  have "pending_wf post_world 1 []" by (simp add: pending_wf_def ev frl zero_event_def)
  then have wf: "pending_wf ?w 1 [Ev_user 9]"
    using pushed_wf [of post_world 1 "[]" "Ev_user 9"] by (simp add: ev frl zero_event_def)
  have ue: "uevents ?w x = event_of ?w (Ev_user x)" for x by (simp add: event_of_def)
  show ?thesis
    using scheduled_in_callback_lost [OF _ wf, of 3 scheduling_env 8]
    by (auto simp: ue event_of_pushed ev frl zero_event_def scheduling_env_def)
qed

end
