(* ===== verification/ServerStart.thy ===== *)
theory ServerStart
  imports EventLoop
begin

section \<open>Running a server: HttpServer::run\<close>

text \<open>
  A server makes a loop, a listening io for each port it is given, whose \<open>userdata\<close> is the server object,
  and runs the loop. The value \<open>None\<close> is a run that does not return. \<open>acc\<close> is the callback \<open>on_accept\<close>; a port
  or a file that is not given is a null string.
\<close>

text \<open>A listening io: whether it could be made.\<close>

definition listen_as :: "ptr \<Rightarrow> ptr lm \<Rightarrow> bool lm" where
  "listen_as this create = bindL create (\<lambda>io.
     if io = NULL then liftL (retM False)
     else liftL (run_then [upd_io io (\<lambda>s. s\<lparr>userdata := this\<rparr>)] (retM True)))"

definition cert_files :: "string option \<Rightarrow> string option \<Rightarrow> (string \<times> string) option" where
  "cert_files cert key =
     (case (cert, key) of (Some c, Some k) \<Rightarrow> Some (c, k) | _ \<Rightarrow> None)"

definition HttpServer_run ::
  "env \<Rightarrow> event_loop_st \<Rightarrow> callback \<Rightarrow> ptr \<Rightarrow> string \<Rightarrow> string option \<Rightarrow> string option \<Rightarrow> string option \<Rightarrow> string option \<Rightarrow> int \<Rightarrow> unit lm" where
  "HttpServer_run E junk acc this addr http_port https_port cert key thread_num =
     bindL (liftL (event_loop_init E junk)) (\<lambda>l.
     bindL (case http_port of None \<Rightarrow> liftL (retM True)
            | Some p \<Rightarrow> listen_as this (create_tcp_server E junk l addr p acc thread_num)) (\<lambda>ok.
     if \<not> ok then liftL skip
     else bindL (case https_port of None \<Rightarrow> liftL (retM True)
            | Some p \<Rightarrow> listen_as this (create_ssl_server E junk l addr p (cert_files cert key) acc thread_num)) (\<lambda>ok.
     if \<not> ok then liftL skip
     else bindL (event_loop_run E l) (\<lambda>_. liftL skip))))"

text \<open>A server whose ports can be opened runs its loop, with both ios pointing to the server object.\<close>

lemma run_serves:
  assumes "event_loop_init E junk w = Inr (l, w0)"
    and "create_tcp_server E junk l addr p acc n w0 = Some (Inr (io, w1))" "io \<noteq> NULL"
    and "create_ssl_server E junk l addr q (cert_files cert key) acc n (w1\<lparr>ios := (ios w1)(io := (ios w1 io)\<lparr>userdata := this\<rparr>)\<rparr>) = Some (Inr (sio, w2))"
      "sio \<noteq> NULL"
  shows "HttpServer_run E junk acc this addr (Some p) (Some q) cert key n w =
    map_option (map_sum (\<lambda>e. e) (\<lambda>r. ((), snd r))) (event_loop_run E l (w2\<lparr>ios := (ios w2)(sio := (ios w2 sio)\<lparr>userdata := this\<rparr>)\<rparr>))"
  using assms
  by (auto simp: HttpServer_run_def listen_as_def upd_io_def split: option.split sum.split)

text \<open>When the second port cannot be opened the run ends at once: the loop never runs, and the first port stays
  open with its io in the dispatcher, so connections to it are taken by the kernel and never served.\<close>

lemma run_gives_up:
  assumes "event_loop_init E junk w = Inr (l, w0)"
    and "create_tcp_server E junk l addr p acc n w0 = Some (Inr (io, w1))" "io \<noteq> NULL"
    and "create_ssl_server E junk l addr q (cert_files cert key) acc n (w1\<lparr>ios := (ios w1)(io := (ios w1 io)\<lparr>userdata := this\<rparr>)\<rparr>) =
      Some (Inr (NULL, w2))"
  shows "HttpServer_run E junk acc this addr (Some p) (Some q) cert key n w = Some (Inr ((), w2))"
  using assms by (simp add: HttpServer_run_def listen_as_def upd_io_def)

end
