(* ===== verification/HttpTypes.thy ===== *)
theory HttpTypes
  imports Prelude
begin

section \<open>Types, tables and character classes of src/http/http_parser.c\<close>

text \<open>
  The enumerations of http_parser.h and http_parser.c, the structure \<open>http_parser\<close>, the tables that
  classify characters and the functions that only read the structure. Text is a list of
  characters. Numeric fields are natural numbers; where the code adds to one, the result is reduced
  to the width of the field. The parser is compiled with its checks (HTTP_PARSER_STRICT is 1).
\<close>

subsection \<open>Enumerations\<close>

datatype http_method =
    HTTP_DELETE | HTTP_GET | HTTP_HEAD | HTTP_POST | HTTP_PUT | HTTP_CONNECT | HTTP_OPTIONS
  | HTTP_TRACE | HTTP_COPY | HTTP_LOCK | HTTP_MKCOL | HTTP_MOVE | HTTP_PROPFIND | HTTP_PROPPATCH
  | HTTP_SEARCH | HTTP_UNLOCK | HTTP_BIND | HTTP_REBIND | HTTP_UNBIND | HTTP_ACL | HTTP_REPORT
  | HTTP_MKACTIVITY | HTTP_CHECKOUT | HTTP_MERGE | HTTP_MSEARCH | HTTP_NOTIFY | HTTP_SUBSCRIBE
  | HTTP_UNSUBSCRIBE | HTTP_PATCH | HTTP_PURGE | HTTP_MKCALENDAR | HTTP_LINK | HTTP_UNLINK
  | HTTP_SOURCE

primrec method_code :: "http_method \<Rightarrow> nat" where
  "method_code HTTP_DELETE = 0"
| "method_code HTTP_GET = 1"
| "method_code HTTP_HEAD = 2"
| "method_code HTTP_POST = 3"
| "method_code HTTP_PUT = 4"
| "method_code HTTP_CONNECT = 5"
| "method_code HTTP_OPTIONS = 6"
| "method_code HTTP_TRACE = 7"
| "method_code HTTP_COPY = 8"
| "method_code HTTP_LOCK = 9"
| "method_code HTTP_MKCOL = 10"
| "method_code HTTP_MOVE = 11"
| "method_code HTTP_PROPFIND = 12"
| "method_code HTTP_PROPPATCH = 13"
| "method_code HTTP_SEARCH = 14"
| "method_code HTTP_UNLOCK = 15"
| "method_code HTTP_BIND = 16"
| "method_code HTTP_REBIND = 17"
| "method_code HTTP_UNBIND = 18"
| "method_code HTTP_ACL = 19"
| "method_code HTTP_REPORT = 20"
| "method_code HTTP_MKACTIVITY = 21"
| "method_code HTTP_CHECKOUT = 22"
| "method_code HTTP_MERGE = 23"
| "method_code HTTP_MSEARCH = 24"
| "method_code HTTP_NOTIFY = 25"
| "method_code HTTP_SUBSCRIBE = 26"
| "method_code HTTP_UNSUBSCRIBE = 27"
| "method_code HTTP_PATCH = 28"
| "method_code HTTP_PURGE = 29"
| "method_code HTTP_MKCALENDAR = 30"
| "method_code HTTP_LINK = 31"
| "method_code HTTP_UNLINK = 32"
| "method_code HTTP_SOURCE = 33"

definition method_strings :: "string list" where
  "method_strings = [
    ''DELETE'', ''GET'', ''HEAD'', ''POST'', ''PUT'', ''CONNECT'',
    ''OPTIONS'', ''TRACE'', ''COPY'', ''LOCK'', ''MKCOL'', ''MOVE'',
    ''PROPFIND'', ''PROPPATCH'', ''SEARCH'', ''UNLOCK'', ''BIND'', ''REBIND'',
    ''UNBIND'', ''ACL'', ''REPORT'', ''MKACTIVITY'', ''CHECKOUT'', ''MERGE'',
    ''M-SEARCH'', ''NOTIFY'', ''SUBSCRIBE'', ''UNSUBSCRIBE'', ''PATCH'', ''PURGE'',
    ''MKCALENDAR'', ''LINK'', ''UNLINK'', ''SOURCE'']"

datatype http_parser_type = HTTP_REQUEST | HTTP_RESPONSE | HTTP_BOTH

datatype http_errno =
    HPE_OK | HPE_CB_message_begin | HPE_CB_url | HPE_CB_header_field | HPE_CB_header_value
  | HPE_CB_headers_complete | HPE_CB_body | HPE_CB_message_complete | HPE_CB_status
  | HPE_CB_chunk_header | HPE_CB_chunk_complete | HPE_INVALID_EOF_STATE | HPE_HEADER_OVERFLOW
  | HPE_CLOSED_CONNECTION | HPE_INVALID_VERSION | HPE_INVALID_STATUS | HPE_INVALID_METHOD
  | HPE_INVALID_URL | HPE_INVALID_HOST | HPE_INVALID_PORT | HPE_INVALID_PATH
  | HPE_INVALID_QUERY_STRING | HPE_INVALID_FRAGMENT | HPE_LF_EXPECTED | HPE_INVALID_HEADER_TOKEN
  | HPE_INVALID_CONTENT_LENGTH | HPE_UNEXPECTED_CONTENT_LENGTH | HPE_INVALID_CHUNK_SIZE
  | HPE_INVALID_CONSTANT | HPE_INVALID_INTERNAL_STATE | HPE_STRICT | HPE_PAUSED | HPE_UNKNOWN
  | HPE_INVALID_TRANSFER_ENCODING

text \<open>The states, numbered from 1 in the order of the source.\<close>

datatype (plugins only: code) state =
    s_dead | s_start_req_or_res | s_res_or_resp_H | s_start_res | s_res_H | s_res_HT | s_res_HTT
  | s_res_HTTP | s_res_http_major | s_res_http_dot | s_res_http_minor | s_res_http_end
  | s_res_first_status_code | s_res_status_code | s_res_status_start | s_res_status
  | s_res_line_almost_done | s_start_req | s_req_method | s_req_spaces_before_url | s_req_schema
  | s_req_schema_slash | s_req_schema_slash_slash | s_req_server_start | s_req_server
  | s_req_server_with_at | s_req_path | s_req_query_string_start | s_req_query_string
  | s_req_fragment_start | s_req_fragment | s_req_http_start | s_req_http_H | s_req_http_HT
  | s_req_http_HTT | s_req_http_HTTP | s_req_http_I | s_req_http_IC | s_req_http_major
  | s_req_http_dot | s_req_http_minor | s_req_http_end | s_req_line_almost_done
  | s_header_field_start | s_header_field | s_header_value_discard_ws
  | s_header_value_discard_ws_almost_done | s_header_value_discard_lws | s_header_value_start
  | s_header_value | s_header_value_lws | s_header_almost_done | s_chunk_size_start
  | s_chunk_size | s_chunk_parameters | s_chunk_size_almost_done | s_headers_almost_done
  | s_headers_done | s_chunk_data | s_chunk_data_almost_done | s_chunk_data_done
  | s_body_identity | s_body_identity_eof | s_message_done

primrec state_code :: "state \<Rightarrow> nat" where
  "state_code s_dead = 1"
| "state_code s_start_req_or_res = 2"
| "state_code s_res_or_resp_H = 3"
| "state_code s_start_res = 4"
| "state_code s_res_H = 5"
| "state_code s_res_HT = 6"
| "state_code s_res_HTT = 7"
| "state_code s_res_HTTP = 8"
| "state_code s_res_http_major = 9"
| "state_code s_res_http_dot = 10"
| "state_code s_res_http_minor = 11"
| "state_code s_res_http_end = 12"
| "state_code s_res_first_status_code = 13"
| "state_code s_res_status_code = 14"
| "state_code s_res_status_start = 15"
| "state_code s_res_status = 16"
| "state_code s_res_line_almost_done = 17"
| "state_code s_start_req = 18"
| "state_code s_req_method = 19"
| "state_code s_req_spaces_before_url = 20"
| "state_code s_req_schema = 21"
| "state_code s_req_schema_slash = 22"
| "state_code s_req_schema_slash_slash = 23"
| "state_code s_req_server_start = 24"
| "state_code s_req_server = 25"
| "state_code s_req_server_with_at = 26"
| "state_code s_req_path = 27"
| "state_code s_req_query_string_start = 28"
| "state_code s_req_query_string = 29"
| "state_code s_req_fragment_start = 30"
| "state_code s_req_fragment = 31"
| "state_code s_req_http_start = 32"
| "state_code s_req_http_H = 33"
| "state_code s_req_http_HT = 34"
| "state_code s_req_http_HTT = 35"
| "state_code s_req_http_HTTP = 36"
| "state_code s_req_http_I = 37"
| "state_code s_req_http_IC = 38"
| "state_code s_req_http_major = 39"
| "state_code s_req_http_dot = 40"
| "state_code s_req_http_minor = 41"
| "state_code s_req_http_end = 42"
| "state_code s_req_line_almost_done = 43"
| "state_code s_header_field_start = 44"
| "state_code s_header_field = 45"
| "state_code s_header_value_discard_ws = 46"
| "state_code s_header_value_discard_ws_almost_done = 47"
| "state_code s_header_value_discard_lws = 48"
| "state_code s_header_value_start = 49"
| "state_code s_header_value = 50"
| "state_code s_header_value_lws = 51"
| "state_code s_header_almost_done = 52"
| "state_code s_chunk_size_start = 53"
| "state_code s_chunk_size = 54"
| "state_code s_chunk_parameters = 55"
| "state_code s_chunk_size_almost_done = 56"
| "state_code s_headers_almost_done = 57"
| "state_code s_headers_done = 58"
| "state_code s_chunk_data = 59"
| "state_code s_chunk_data_almost_done = 60"
| "state_code s_chunk_data_done = 61"
| "state_code s_body_identity = 62"
| "state_code s_body_identity_eof = 63"
| "state_code s_message_done = 64"

definition parsing_header :: "state \<Rightarrow> bool" where
  "parsing_header s \<longleftrightarrow> state_code s \<le> state_code s_headers_done"

datatype header_states =
    h_general | h_C | h_CO | h_CON | h_matching_connection | h_matching_proxy_connection
  | h_matching_content_length | h_matching_transfer_encoding | h_matching_upgrade | h_connection
  | h_content_length | h_content_length_num | h_content_length_ws | h_transfer_encoding
  | h_upgrade | h_matching_transfer_encoding_token_start | h_matching_transfer_encoding_chunked
  | h_matching_transfer_encoding_token | h_matching_connection_token_start
  | h_matching_connection_keep_alive | h_matching_connection_close
  | h_matching_connection_upgrade | h_matching_connection_token | h_transfer_encoding_chunked
  | h_connection_keep_alive | h_connection_close | h_connection_upgrade

datatype http_host_state =
    s_http_host_dead | s_http_userinfo_start | s_http_userinfo | s_http_host_start
  | s_http_host_v6_start | s_http_host | s_http_host_v6 | s_http_host_v6_end
  | s_http_host_v6_zone_start | s_http_host_v6_zone | s_http_host_port_start | s_http_host_port

subsection \<open>Strings of the enumerations\<close>

definition http_status_tab :: "(nat \<times> string) list" where
  "http_status_tab = [
    (100, ''Continue''), (101, ''Switching Protocols''), (102, ''Processing''),
    (200, ''OK''), (201, ''Created''), (202, ''Accepted''),
    (203, ''Non-Authoritative Information''), (204, ''No Content''), (205, ''Reset Content''),
    (206, ''Partial Content''), (207, ''Multi-Status''), (208, ''Already Reported''),
    (226, ''IM Used''), (300, ''Multiple Choices''), (301, ''Moved Permanently''),
    (302, ''Found''), (303, ''See Other''), (304, ''Not Modified''),
    (305, ''Use Proxy''), (307, ''Temporary Redirect''), (308, ''Permanent Redirect''),
    (400, ''Bad Request''), (401, ''Unauthorized''), (402, ''Payment Required''),
    (403, ''Forbidden''), (404, ''Not Found''), (405, ''Method Not Allowed''),
    (406, ''Not Acceptable''), (407, ''Proxy Authentication Required''), (408, ''Request Timeout''),
    (409, ''Conflict''), (410, ''Gone''), (411, ''Length Required''),
    (412, ''Precondition Failed''), (413, ''Payload Too Large''), (414, ''URI Too Long''),
    (415, ''Unsupported Media Type''), (416, ''Range Not Satisfiable''), (417, ''Expectation Failed''),
    (421, ''Misdirected Request''), (422, ''Unprocessable Entity''), (423, ''Locked''),
    (424, ''Failed Dependency''), (426, ''Upgrade Required''), (428, ''Precondition Required''),
    (429, ''Too Many Requests''), (431, ''Request Header Fields Too Large''), (451, ''Unavailable For Legal Reasons''),
    (500, ''Internal Server Error''), (501, ''Not Implemented''), (502, ''Bad Gateway''),
    (503, ''Service Unavailable''), (504, ''Gateway Timeout''), (505, ''HTTP Version Not Supported''),
    (506, ''Variant Also Negotiates''), (507, ''Insufficient Storage''), (508, ''Loop Detected''),
    (510, ''Not Extended''), (511, ''Network Authentication Required'')]"

definition http_status_str :: "nat \<Rightarrow> string" where
  "http_status_str s = (case map_of http_status_tab s of None \<Rightarrow> ''<unknown>'' | Some t \<Rightarrow> t)"

definition http_method_str :: "nat \<Rightarrow> string" where
  "http_method_str m = (if m < length method_strings then method_strings ! m else ''<unknown>'')"

primrec http_strerror_tab :: "http_errno \<Rightarrow> string \<times> string" where
  "http_strerror_tab HPE_OK = (''HPE_OK'', ''success'')"
| "http_strerror_tab HPE_CB_message_begin = (''HPE_CB_message_begin'', ''the on_message_begin callback failed'')"
| "http_strerror_tab HPE_CB_url = (''HPE_CB_url'', ''the on_url callback failed'')"
| "http_strerror_tab HPE_CB_header_field = (''HPE_CB_header_field'', ''the on_header_field callback failed'')"
| "http_strerror_tab HPE_CB_header_value = (''HPE_CB_header_value'', ''the on_header_value callback failed'')"
| "http_strerror_tab HPE_CB_headers_complete = (''HPE_CB_headers_complete'', ''the on_headers_complete callback failed'')"
| "http_strerror_tab HPE_CB_body = (''HPE_CB_body'', ''the on_body callback failed'')"
| "http_strerror_tab HPE_CB_message_complete = (''HPE_CB_message_complete'', ''the on_message_complete callback failed'')"
| "http_strerror_tab HPE_CB_status = (''HPE_CB_status'', ''the on_status callback failed'')"
| "http_strerror_tab HPE_CB_chunk_header = (''HPE_CB_chunk_header'', ''the on_chunk_header callback failed'')"
| "http_strerror_tab HPE_CB_chunk_complete = (''HPE_CB_chunk_complete'', ''the on_chunk_complete callback failed'')"
| "http_strerror_tab HPE_INVALID_EOF_STATE = (''HPE_INVALID_EOF_STATE'', ''stream ended at an unexpected time'')"
| "http_strerror_tab HPE_HEADER_OVERFLOW = (''HPE_HEADER_OVERFLOW'', ''too many header bytes seen; overflow detected'')"
| "http_strerror_tab HPE_CLOSED_CONNECTION = (''HPE_CLOSED_CONNECTION'', ''data received after completed connection: close message'')"
| "http_strerror_tab HPE_INVALID_VERSION = (''HPE_INVALID_VERSION'', ''invalid HTTP version'')"
| "http_strerror_tab HPE_INVALID_STATUS = (''HPE_INVALID_STATUS'', ''invalid HTTP status code'')"
| "http_strerror_tab HPE_INVALID_METHOD = (''HPE_INVALID_METHOD'', ''invalid HTTP method'')"
| "http_strerror_tab HPE_INVALID_URL = (''HPE_INVALID_URL'', ''invalid URL'')"
| "http_strerror_tab HPE_INVALID_HOST = (''HPE_INVALID_HOST'', ''invalid host'')"
| "http_strerror_tab HPE_INVALID_PORT = (''HPE_INVALID_PORT'', ''invalid port'')"
| "http_strerror_tab HPE_INVALID_PATH = (''HPE_INVALID_PATH'', ''invalid path'')"
| "http_strerror_tab HPE_INVALID_QUERY_STRING = (''HPE_INVALID_QUERY_STRING'', ''invalid query string'')"
| "http_strerror_tab HPE_INVALID_FRAGMENT = (''HPE_INVALID_FRAGMENT'', ''invalid fragment'')"
| "http_strerror_tab HPE_LF_EXPECTED = (''HPE_LF_EXPECTED'', ''LF character expected'')"
| "http_strerror_tab HPE_INVALID_HEADER_TOKEN = (''HPE_INVALID_HEADER_TOKEN'', ''invalid character in header'')"
| "http_strerror_tab HPE_INVALID_CONTENT_LENGTH = (''HPE_INVALID_CONTENT_LENGTH'', ''invalid character in content-length header'')"
| "http_strerror_tab HPE_UNEXPECTED_CONTENT_LENGTH = (''HPE_UNEXPECTED_CONTENT_LENGTH'', ''unexpected content-length header'')"
| "http_strerror_tab HPE_INVALID_CHUNK_SIZE = (''HPE_INVALID_CHUNK_SIZE'', ''invalid character in chunk size header'')"
| "http_strerror_tab HPE_INVALID_CONSTANT = (''HPE_INVALID_CONSTANT'', ''invalid constant string'')"
| "http_strerror_tab HPE_INVALID_INTERNAL_STATE = (''HPE_INVALID_INTERNAL_STATE'', ''encountered unexpected internal state'')"
| "http_strerror_tab HPE_STRICT = (''HPE_STRICT'', ''strict mode assertion failed'')"
| "http_strerror_tab HPE_PAUSED = (''HPE_PAUSED'', ''parser is paused'')"
| "http_strerror_tab HPE_UNKNOWN = (''HPE_UNKNOWN'', ''an unknown error occurred'')"
| "http_strerror_tab HPE_INVALID_TRANSFER_ENCODING = (''HPE_INVALID_TRANSFER_ENCODING'', ''request has invalid transfer-encoding'')"

definition http_errno_name :: "http_errno \<Rightarrow> string" where
  "http_errno_name e = fst (http_strerror_tab e)"

definition http_errno_description :: "http_errno \<Rightarrow> string" where
  "http_errno_description e = snd (http_strerror_tab e)"

subsection \<open>Tables\<close>

text \<open>The initialisers give the first 128 characters; the rest of each array is zero.\<close>

abbreviation code :: "char \<Rightarrow> nat" where
  "code \<equiv> of_char"

definition tokens :: "nat list" where
  "tokens = [
    0, 0, 0, 0, 0, 0, 0, 0, 0, 0, 0, 0, 0, 0, 0, 0,
    0, 0, 0, 0, 0, 0, 0, 0, 0, 0, 0, 0, 0, 0, 0, 0,
    32, 33, 0, 35, 36, 37, 38, 39, 0, 0, 42, 43, 0, 45, 46, 0,
    48, 49, 50, 51, 52, 53, 54, 55, 56, 57, 0, 0, 0, 0, 0, 0,
    0, 97, 98, 99, 100, 101, 102, 103, 104, 105, 106, 107, 108, 109, 110, 111,
    112, 113, 114, 115, 116, 117, 118, 119, 120, 121, 122, 0, 0, 0, 94, 95,
    96, 97, 98, 99, 100, 101, 102, 103, 104, 105, 106, 107, 108, 109, 110, 111,
    112, 113, 114, 115, 116, 117, 118, 119, 120, 121, 122, 0, 124, 0, 126, 0]"

definition unhex :: "int list" where
  "unhex = [
    -1, -1, -1, -1, -1, -1, -1, -1, -1, -1, -1, -1, -1, -1, -1, -1,
    -1, -1, -1, -1, -1, -1, -1, -1, -1, -1, -1, -1, -1, -1, -1, -1,
    -1, -1, -1, -1, -1, -1, -1, -1, -1, -1, -1, -1, -1, -1, -1, -1,
    0, 1, 2, 3, 4, 5, 6, 7, 8, 9, -1, -1, -1, -1, -1, -1,
    -1, 10, 11, 12, 13, 14, 15, -1, -1, -1, -1, -1, -1, -1, -1, -1,
    -1, -1, -1, -1, -1, -1, -1, -1, -1, -1, -1, -1, -1, -1, -1, -1,
    -1, 10, 11, 12, 13, 14, 15, -1, -1, -1, -1, -1, -1, -1, -1, -1,
    -1, -1, -1, -1, -1, -1, -1, -1, -1, -1, -1, -1, -1, -1, -1, -1]"

definition normal_url_char :: "nat list" where
  "normal_url_char = [
    0, 0, 0, 0, 246, 255, 255, 127, 255, 255, 255, 255, 255, 255, 255, 127]"

definition unhex_at :: "char \<Rightarrow> int" where
  "unhex_at ch = (if code ch < 128 then unhex ! code ch else 0)"

subsection \<open>Character classes\<close>

abbreviation CR :: char where
  "CR \<equiv> CHR 0x0D"

abbreviation LF :: char where
  "LF \<equiv> CHR 0x0A"

abbreviation NUL :: char where
  "NUL \<equiv> CHR 0x00"

abbreviation TAB :: char where
  "TAB \<equiv> CHR 0x09"

text \<open>Setting the bit 0x20; the value of a digit.\<close>

fun LOWER :: "char \<Rightarrow> char" where
  "LOWER (Char b0 b1 b2 b3 b4 b5 b6 b7) = Char b0 b1 b2 b3 b4 True b6 b7"

definition IS_ALPHA :: "char \<Rightarrow> bool" where
  "IS_ALPHA c \<longleftrightarrow> code (LOWER c) \<ge> code CHR ''a'' \<and> code (LOWER c) \<le> code CHR ''z''"

definition IS_NUM :: "char \<Rightarrow> bool" where
  "IS_NUM c \<longleftrightarrow> code c \<ge> code CHR ''0'' \<and> code c \<le> code CHR ''9''"

definition digit :: "char \<Rightarrow> nat" where
  "digit c = code c - code CHR ''0''"

definition IS_ALPHANUM :: "char \<Rightarrow> bool" where
  "IS_ALPHANUM c \<longleftrightarrow> IS_ALPHA c \<or> IS_NUM c"

definition IS_HEX :: "char \<Rightarrow> bool" where
  "IS_HEX c \<longleftrightarrow> IS_NUM c \<or> code (LOWER c) \<ge> code CHR ''a'' \<and> code (LOWER c) \<le> code CHR ''f''"

definition IS_MARK :: "char \<Rightarrow> bool" where
  "IS_MARK c \<longleftrightarrow> c \<in> set ''-_.!~*'' \<or> c = CHR 0x27 \<or> c \<in> set ''()''"

definition IS_USERINFO_CHAR :: "char \<Rightarrow> bool" where
  "IS_USERINFO_CHAR c \<longleftrightarrow> IS_ALPHANUM c \<or> IS_MARK c \<or> c \<in> set ''%;:&=+$,''"

definition STRICT_TOKEN :: "char \<Rightarrow> char" where
  "STRICT_TOKEN c = (if c = CHR '' '' then NUL else if code c < 128 then char_of (tokens ! code c) else NUL)"

definition TOKEN :: "char \<Rightarrow> char" where
  "TOKEN c = STRICT_TOKEN c"

definition IS_URL_CHAR :: "char \<Rightarrow> bool" where
  "IS_URL_CHAR c \<longleftrightarrow> code c < 128 \<and> bit (normal_url_char ! (code c div 8)) (code c mod 8)"

definition IS_HOST_CHAR :: "char \<Rightarrow> bool" where
  "IS_HOST_CHAR c \<longleftrightarrow> IS_ALPHANUM c \<or> c = CHR ''.'' \<or> c = CHR ''-''"

definition IS_HEADER_CHAR :: "char \<Rightarrow> bool" where
  "IS_HEADER_CHAR ch \<longleftrightarrow> ch = CR \<or> ch = LF \<or> ch = TAB \<or> code ch > 31 \<and> code ch \<noteq> 127"

subsection \<open>The structure\<close>

text \<open>Flags are bits of a byte: the F_ names are their positions.\<close>

abbreviation (input) F_CHUNKED :: nat where "F_CHUNKED \<equiv> 0"

abbreviation (input) F_CONNECTION_KEEP_ALIVE :: nat where "F_CONNECTION_KEEP_ALIVE \<equiv> 1"

abbreviation (input) F_CONNECTION_CLOSE :: nat where "F_CONNECTION_CLOSE \<equiv> 2"

abbreviation (input) F_CONNECTION_UPGRADE :: nat where "F_CONNECTION_UPGRADE \<equiv> 3"

abbreviation (input) F_TRAILING :: nat where "F_TRAILING \<equiv> 4"

abbreviation (input) F_UPGRADE :: nat where "F_UPGRADE \<equiv> 5"

abbreviation (input) F_SKIPBODY :: nat where "F_SKIPBODY \<equiv> 6"

abbreviation (input) F_CONTENTLENGTH :: nat where "F_CONTENTLENGTH \<equiv> 7"

definition ULLONG_MAX :: nat where
  "ULLONG_MAX = 2 ^ 64 - 1"

record http_parser =
  ptype :: http_parser_type
  flags :: byte
  state :: state
  header_state :: header_states
  index :: nat
  uses_transfer_encoding :: bool
  allow_chunked_length :: bool
  lenient_http_headers :: bool
  nread :: nat
  content_length :: nat
  http_major :: nat
  http_minor :: nat
  status_code :: nat
  "method" :: http_method
  http_errno :: http_errno
  upgrade :: bool

definition F_set :: "nat \<Rightarrow> http_parser \<Rightarrow> http_parser" where
  "F_set f ps = ps\<lparr>flags := set_bit f (flags ps)\<rparr>"

definition F_has :: "http_parser \<Rightarrow> nat \<Rightarrow> bool" where
  "F_has ps f = bit (flags ps) f"

definition http_parser_init :: "http_parser_type \<Rightarrow> http_parser" where
  "http_parser_init t = \<lparr>ptype = t, flags = 0,
     state = (case t of HTTP_REQUEST \<Rightarrow> s_start_req | HTTP_RESPONSE \<Rightarrow> s_start_res | HTTP_BOTH \<Rightarrow> s_start_req_or_res),
     header_state = h_general, index = 0, uses_transfer_encoding = False, allow_chunked_length = False,
     lenient_http_headers = False, nread = 0, content_length = 0, http_major = 0, http_minor = 0,
     status_code = 0, method = HTTP_DELETE, http_errno = HPE_OK, upgrade = False\<rparr>"

definition http_message_needs_eof :: "http_parser \<Rightarrow> bool" where
  "http_message_needs_eof ps =
     (if ptype ps = HTTP_REQUEST then False
      else if status_code ps div 100 = 1 \<or> status_code ps = 204 \<or> status_code ps = 304 \<or> F_has ps F_SKIPBODY
      then False
      else if uses_transfer_encoding ps \<and> \<not> F_has ps F_CHUNKED then True
      else if F_has ps F_CHUNKED \<or> content_length ps \<noteq> ULLONG_MAX then False
      else True)"

definition http_should_keep_alive :: "http_parser \<Rightarrow> bool" where
  "http_should_keep_alive ps =
     (if http_major ps > 0 \<and> http_minor ps > 0
      then (if F_has ps F_CONNECTION_CLOSE then False else \<not> http_message_needs_eof ps)
      else (if \<not> F_has ps F_CONNECTION_KEEP_ALIVE then False else \<not> http_message_needs_eof ps))"

text \<open>Pausing is refused (an assertion fails) when the parser is in an error state.\<close>

definition http_parser_pause :: "http_parser \<Rightarrow> bool \<Rightarrow> http_parser option" where
  "http_parser_pause ps paused =
     (if http_errno ps = HPE_OK \<or> http_errno ps = HPE_PAUSED
      then Some (ps\<lparr>nread := nread ps, http_errno := (if paused then HPE_PAUSED else HPE_OK)\<rparr>)
      else None)"

definition http_body_is_final :: "http_parser \<Rightarrow> bool" where
  "http_body_is_final ps \<longleftrightarrow> state ps = s_message_done"

definition http_parser_version :: u32 where
  "http_parser_version = 2 * 0x10000 OR 9 * 0x00100 OR 4 * 0x00001"

subsection \<open>Facts about all characters\<close>

lemma all_chars: "(\<forall>c. P c) \<longleftrightarrow> (\<forall>n\<in>set [0..<256]. P (char_of n))"
proof
  assume A: "\<forall>n\<in>set [0..<256]. P (char_of n)"
  show "\<forall>c. P c"
  proof
    fix c :: char
    have "code c < 256" by (metis of_char_mod_256 mod_less_divisor zero_less_numeral)
    then have "P (char_of (code c))" using A by (intro bspec [OF A]) simp
    then show "P c" by (simp only: char_of_char)
  qed
qed simp

end
