(* ===== verification/HttpUrl.thy ===== *)
theory HttpUrl
  imports HttpTypes
begin

section \<open>URLs: parse_url_char, http_parse_host and http_parser_parse_url\<close>

text \<open>
  The automaton that both the request parser and \<open>http_parser_parse_url\<close> run over a URL, the automaton
  for its host part, and the two functions that turn their runs into offsets and lengths. Offsets
  and lengths are 16-bit numbers in the code. A failed assertion is the value \<open>None\<close>; otherwise the
  result is the returned int with the structure as the code leaves it.
\<close>

text \<open>The cases that several states share by falling through.\<close>

definition parse_server_char :: "char \<Rightarrow> state" where
  "parse_server_char ch =
     (if ch = CHR ''/'' then s_req_path
      else if ch = CHR ''?'' then s_req_query_string_start
      else if ch = CHR ''@'' then s_req_server_with_at
      else if IS_USERINFO_CHAR ch \<or> ch = CHR ''['' \<or> ch = CHR '']'' then s_req_server
      else s_dead)"

definition parse_query_char :: "char \<Rightarrow> state" where
  "parse_query_char ch =
     (if IS_URL_CHAR ch then s_req_query_string
      else if ch = CHR ''?'' then s_req_query_string
      else if ch = CHR ''#'' then s_req_fragment_start
      else s_dead)"

definition parse_url_char :: "state \<Rightarrow> char \<Rightarrow> state" where
  "parse_url_char s ch =
     (if ch = CHR '' '' \<or> ch = CR \<or> ch = LF then s_dead
      else if ch = TAB \<or> ch = CHR 0x0C then s_dead
      else case s of
        s_req_spaces_before_url \<Rightarrow>
          (if ch = CHR ''/'' \<or> ch = CHR ''*'' then s_req_path
           else if IS_ALPHA ch then s_req_schema else s_dead)
      | s_req_schema \<Rightarrow>
          (if IS_ALPHA ch then s else if ch = CHR '':'' then s_req_schema_slash else s_dead)
      | s_req_schema_slash \<Rightarrow> (if ch = CHR ''/'' then s_req_schema_slash_slash else s_dead)
      | s_req_schema_slash_slash \<Rightarrow> (if ch = CHR ''/'' then s_req_server_start else s_dead)
      | s_req_server_with_at \<Rightarrow> (if ch = CHR ''@'' then s_dead else parse_server_char ch)
      | s_req_server_start \<Rightarrow> parse_server_char ch
      | s_req_server \<Rightarrow> parse_server_char ch
      | s_req_path \<Rightarrow>
          (if IS_URL_CHAR ch then s else if ch = CHR ''?'' then s_req_query_string_start
           else if ch = CHR ''#'' then s_req_fragment_start else s_dead)
      | s_req_query_string_start \<Rightarrow> parse_query_char ch
      | s_req_query_string \<Rightarrow> parse_query_char ch
      | s_req_fragment_start \<Rightarrow>
          (if IS_URL_CHAR ch then s_req_fragment else if ch = CHR ''?'' then s_req_fragment
           else if ch = CHR ''#'' then s else s_dead)
      | s_req_fragment \<Rightarrow>
          (if IS_URL_CHAR ch then s else if ch = CHR ''?'' \<or> ch = CHR ''#'' then s else s_dead)
      | _ \<Rightarrow> s_dead)"

subsection \<open>The host part\<close>

definition http_parse_host_char :: "http_host_state \<Rightarrow> char \<Rightarrow> http_host_state" where
  "http_parse_host_char s ch =
     (let v6 = (if IS_HEX ch \<or> ch = CHR '':'' \<or> ch = CHR ''.'' then s_http_host_v6
                else if s = s_http_host_v6 \<and> ch = CHR ''%'' then s_http_host_v6_zone_start
                else s_http_host_dead);
          zone = (if IS_ALPHANUM ch \<or> ch \<in> set ''%.-_~'' then s_http_host_v6_zone else s_http_host_dead);
          v6_end = (if ch = CHR '':'' then s_http_host_port_start else s_http_host_dead);
          userinfo = (if ch = CHR ''@'' then s_http_host_start
                      else if IS_USERINFO_CHAR ch then s_http_userinfo else s_http_host_dead);
          prt = (if IS_NUM ch then s_http_host_port else s_http_host_dead)
      in case s of
        s_http_userinfo \<Rightarrow> userinfo
      | s_http_userinfo_start \<Rightarrow> userinfo
      | s_http_host_start \<Rightarrow>
          (if ch = CHR ''['' then s_http_host_v6_start
           else if IS_HOST_CHAR ch then s_http_host else s_http_host_dead)
      | s_http_host \<Rightarrow> (if IS_HOST_CHAR ch then s_http_host else v6_end)
      | s_http_host_v6_end \<Rightarrow> v6_end
      | s_http_host_v6 \<Rightarrow> (if ch = CHR '']'' then s_http_host_v6_end else v6)
      | s_http_host_v6_start \<Rightarrow> v6
      | s_http_host_v6_zone \<Rightarrow> (if ch = CHR '']'' then s_http_host_v6_end else zone)
      | s_http_host_v6_zone_start \<Rightarrow> zone
      | s_http_host_port \<Rightarrow> prt
      | s_http_host_port_start \<Rightarrow> prt
      | s_http_host_dead \<Rightarrow> s_http_host_dead)"

datatype url_field = UF_SCHEMA | UF_HOST | UF_PORT | UF_PATH | UF_QUERY | UF_FRAGMENT | UF_USERINFO

primrec uf_code :: "url_field \<Rightarrow> nat" where
  "uf_code UF_SCHEMA = 0"
| "uf_code UF_HOST = 1"
| "uf_code UF_PORT = 2"
| "uf_code UF_PATH = 3"
| "uf_code UF_QUERY = 4"
| "uf_code UF_FRAGMENT = 5"
| "uf_code UF_USERINFO = 6"

record http_parser_url =
  field_set :: u16
  url_port :: nat
  field_off :: "url_field \<Rightarrow> nat"
  field_len :: "url_field \<Rightarrow> nat"

definition u16_of :: "nat \<Rightarrow> nat" where
  "u16_of n = n mod 2 ^ 16"

definition uf_has :: "http_parser_url \<Rightarrow> url_field \<Rightarrow> bool" where
  "uf_has u f = bit (field_set u) (uf_code f)"

text \<open>One more character in a field; a field that starts at an offset with a length; marking it present.\<close>

definition uf_more :: "url_field \<Rightarrow> http_parser_url \<Rightarrow> http_parser_url" where
  "uf_more f u = u\<lparr>field_len := (field_len u)(f := u16_of (field_len u f + 1))\<rparr>"

definition uf_at :: "url_field \<Rightarrow> nat \<Rightarrow> http_parser_url \<Rightarrow> http_parser_url" where
  "uf_at f n u = u\<lparr>field_off := (field_off u)(f := u16_of n)\<rparr>"

definition uf_len :: "url_field \<Rightarrow> nat \<Rightarrow> http_parser_url \<Rightarrow> http_parser_url" where
  "uf_len f n u = u\<lparr>field_len := (field_len u)(f := n)\<rparr>"

definition uf_mark :: "url_field \<Rightarrow> http_parser_url \<Rightarrow> http_parser_url" where
  "uf_mark f u = u\<lparr>field_set := set_bit (uf_code f) (field_set u)\<rparr>"

definition http_parser_url_init :: http_parser_url where
  "http_parser_url_init = \<lparr>field_set = 0, url_port = 0, field_off = (\<lambda>_. 0), field_len = (\<lambda>_. 0)\<rparr>"

text \<open>What one character of the host part does to the structure, from state \<open>s\<close> to \<open>new_s\<close> at offset \<open>i\<close>.\<close>

definition host_fields :: "http_host_state \<Rightarrow> http_host_state \<Rightarrow> nat \<Rightarrow> http_parser_url \<Rightarrow> http_parser_url" where
  "host_fields s new_s i u =
     (case new_s of
        s_http_host \<Rightarrow> uf_more UF_HOST (if s \<noteq> s_http_host then uf_at UF_HOST i u else u)
      | s_http_host_v6 \<Rightarrow> uf_more UF_HOST (if s \<noteq> s_http_host_v6 then uf_at UF_HOST i u else u)
      | s_http_host_v6_zone_start \<Rightarrow> uf_more UF_HOST u
      | s_http_host_v6_zone \<Rightarrow> uf_more UF_HOST u
      | s_http_host_port \<Rightarrow>
          uf_more UF_PORT (if s \<noteq> s_http_host_port then uf_mark UF_PORT (uf_len UF_PORT 0 (uf_at UF_PORT i u)) else u)
      | s_http_userinfo \<Rightarrow>
          uf_more UF_USERINFO
            (if s \<noteq> s_http_userinfo then uf_mark UF_USERINFO (uf_len UF_USERINFO 0 (uf_at UF_USERINFO i u)) else u)
      | _ \<Rightarrow> u)"

text \<open>The loop over the characters from offset \<open>i\<close> on; None when the automaton dies.\<close>

fun host_loop :: "nat \<Rightarrow> string \<Rightarrow> http_host_state \<Rightarrow> http_parser_url \<Rightarrow> http_host_state option \<times> http_parser_url" where
  "host_loop i [] s u = (Some s, u)"
| "host_loop i (ch # cs) s u =
     (let new_s = http_parse_host_char s ch
      in if new_s = s_http_host_dead then (None, u)
         else host_loop (i + 1) cs new_s (host_fields s new_s i u))"

definition http_parse_host :: "string \<Rightarrow> http_parser_url \<Rightarrow> bool \<Rightarrow> (int \<times> http_parser_url) option" where
  "http_parse_host buf u found_at =
     (let off = field_off u UF_HOST; buflen = off + field_len u UF_HOST
      in if \<not> uf_has u UF_HOST then None
         else case host_loop off (drop off (take buflen buf))
                (if found_at then s_http_userinfo_start else s_http_host_start) (uf_len UF_HOST 0 u) of
             (None, u) \<Rightarrow> Some (1, u)
           | (Some s, u) \<Rightarrow>
               Some (if s \<in> {s_http_host_start, s_http_host_v6_start, s_http_host_v6, s_http_host_v6_zone_start,
                             s_http_host_v6_zone, s_http_host_port_start, s_http_userinfo, s_http_userinfo_start}
                     then 1 else 0, u))"

subsection \<open>The whole URL\<close>

datatype url_step = Url_dead | Url_skip | Url_field url_field | Url_assert

definition url_field_of :: "state \<Rightarrow> url_step" where
  "url_field_of s = (case s of
      s_dead \<Rightarrow> Url_dead
    | s_req_schema_slash \<Rightarrow> Url_skip
    | s_req_schema_slash_slash \<Rightarrow> Url_skip
    | s_req_server_start \<Rightarrow> Url_skip
    | s_req_query_string_start \<Rightarrow> Url_skip
    | s_req_fragment_start \<Rightarrow> Url_skip
    | s_req_schema \<Rightarrow> Url_field UF_SCHEMA
    | s_req_server_with_at \<Rightarrow> Url_field UF_HOST
    | s_req_server \<Rightarrow> Url_field UF_HOST
    | s_req_path \<Rightarrow> Url_field UF_PATH
    | s_req_query_string \<Rightarrow> Url_field UF_QUERY
    | s_req_fragment \<Rightarrow> Url_field UF_FRAGMENT
    | _ \<Rightarrow> Url_assert)"

text \<open>
  The loop of \<open>http_parser_parse_url\<close> from offset \<open>i\<close> on: the result is the int returned early or,
  at the end, whether an at sign was found.
\<close>

fun url_loop :: "nat \<Rightarrow> string \<Rightarrow> state \<Rightarrow> url_field option \<Rightarrow> bool \<Rightarrow> http_parser_url \<Rightarrow>
    ((int + bool) \<times> http_parser_url) option" where
  "url_loop i [] s old_uf found_at u = Some (Inr found_at, u)"
| "url_loop i (ch # cs) s old_uf found_at u =
     (let s = parse_url_char s ch; found_at = (found_at \<or> s = s_req_server_with_at)
      in case url_field_of s of
           Url_dead \<Rightarrow> Some (Inl 1, u)
         | Url_assert \<Rightarrow> None
         | Url_skip \<Rightarrow> url_loop (i + 1) cs s old_uf found_at u
         | Url_field uf \<Rightarrow>
             if old_uf = Some uf then url_loop (i + 1) cs s old_uf found_at (uf_more uf u)
             else url_loop (i + 1) cs s (Some uf) found_at (uf_mark uf (uf_len uf 1 (uf_at uf i u))))"

text \<open>The digits of the port, in an unsigned long; characters are signed.\<close>

definition schar :: "char \<Rightarrow> int" where
  "schar c = (if code c < 128 then int (code c) else int (code c) - 256)"

fun port_loop :: "string \<Rightarrow> int \<Rightarrow> int option" where
  "port_loop [] v = Some v"
| "port_loop (ch # cs) v =
     (let v = (v * 10 + (schar ch - 48)) mod 2 ^ 64
      in if v > 0xffff then None else port_loop cs v)"

definition parse_port :: "string \<Rightarrow> http_parser_url \<Rightarrow> (int \<times> http_parser_url) option" where
  "parse_port buf u =
     (if uf_has u UF_PORT then
        (let off = field_off u UF_PORT; n = field_len u UF_PORT
         in if off + n > length buf then None
            else case port_loop (take n (drop off buf)) 0 of
                None \<Rightarrow> Some (1, u)
              | Some v \<Rightarrow> Some (0, u\<lparr>url_port := u16_of (nat v)\<rparr>))
      else Some (0, u))"

definition http_parser_parse_url :: "string \<Rightarrow> bool \<Rightarrow> http_parser_url \<Rightarrow> (int \<times> http_parser_url) option" where
  "http_parser_parse_url buf is_connect u =
     (if buf = [] then Some (1, u)
      else
        let u = u\<lparr>url_port := 0, field_set := 0\<rparr>;
            s = (if is_connect then s_req_server_start else s_req_spaces_before_url)
        in case url_loop 0 buf s None False u of
             None \<Rightarrow> None
           | Some (Inl r, u) \<Rightarrow> Some (r, u)
           | Some (Inr found_at, u) \<Rightarrow>
               if uf_has u UF_SCHEMA \<and> \<not> uf_has u UF_HOST then Some (1, u)
               else case (if uf_has u UF_HOST then http_parse_host buf u found_at else Some (0, u)) of
                   None \<Rightarrow> None
                 | Some (r, u) \<Rightarrow>
                     if r \<noteq> 0 then Some (1, u)
                     else if is_connect \<and> field_set u \<noteq> 6 then Some (1, u)
                     else parse_port buf u)"

subsection \<open>No assertion fails and all fields are in the buffer\<close>

lemma uf_code_bound [simp]: "uf_code f < 16"
  by (cases f) simp_all

lemma uf_code_inj [simp]: "uf_code f = uf_code g \<longleftrightarrow> f = g"
  by (cases f; cases g) simp_all

lemma uf_fields [simp]:
  "uf_has (uf_mark f u) g \<longleftrightarrow> g = f \<or> uf_has u g"
  "uf_has (uf_more f u) g = uf_has u g" "uf_has (uf_at f n u) g = uf_has u g" "uf_has (uf_len f n u) g = uf_has u g"
  "field_off (uf_mark f u) = field_off u" "field_len (uf_mark f u) = field_len u"
  "field_off (uf_more f u) = field_off u" "field_off (uf_len f n u) = field_off u"
  "field_len (uf_at f n u) = field_len u"
  "field_len (uf_more f u) g = (if g = f then u16_of (field_len u f + 1) else field_len u g)"
  "field_len (uf_len f n u) g = (if g = f then n else field_len u g)"
  "field_off (uf_at f n u) g = (if g = f then u16_of n else field_off u g)"
  by (auto simp: uf_has_def uf_mark_def uf_more_def uf_at_def uf_len_def bit_set_bit_iff)

lemma u16_of_le [simp]: "u16_of n \<le> n"
  by (simp add: u16_of_def)

lemma u16_of_id: "n < 2 ^ 16 \<Longrightarrow> u16_of n = n"
  by (simp add: u16_of_def)

lemma url_field_of_total: "url_field_of (parse_url_char s ch) \<noteq> Url_assert"
  by (cases s) (auto simp: parse_url_char_def parse_server_char_def parse_query_char_def url_field_of_def)

text \<open>Every present field of a set ends at offset \<open>i\<close> or before.\<close>

definition fields_upto :: "url_field set \<Rightarrow> nat \<Rightarrow> http_parser_url \<Rightarrow> bool" where
  "fields_upto F i u \<longleftrightarrow> (\<forall>f\<in>F. uf_has u f \<longrightarrow> field_off u f + field_len u f \<le> i)"

lemma fields_upto_mono: "fields_upto F i u \<Longrightarrow> i \<le> j \<Longrightarrow> fields_upto F j u"
  by (auto simp: fields_upto_def dest: order.trans)

lemma fields_upto_more: "fields_upto F i u \<Longrightarrow> fields_upto F (i + 1) (uf_more f u)"
  unfolding fields_upto_def
proof (intro ballI impI)
  fix g assume A: "\<forall>f\<in>F. uf_has u f \<longrightarrow> field_off u f + field_len u f \<le> i" "g \<in> F" "uf_has (uf_more f u) g"
  then have "field_off u g + field_len u g \<le> i" by simp
  moreover have "field_len (uf_more f u) g \<le> field_len u g + 1" using u16_of_le [of "field_len u f + 1"] by simp
  ultimately show "field_off (uf_more f u) g + field_len (uf_more f u) g \<le> i + 1" by simp
qed

lemma fields_upto_start:
  assumes "fields_upto F i u" "n \<le> 1"
  shows "fields_upto F (i + n) (uf_mark f (uf_len f n (uf_at f i u)))"
  using assms u16_of_le [of i] by (fastforce simp: fields_upto_def)

lemma url_field_of_host: "url_field_of s = Url_field f \<Longrightarrow> f \<noteq> UF_PORT \<and> f \<noteq> UF_USERINFO"
  by (cases s) (auto simp: url_field_of_def)

lemma url_loop_fields:
  "fields_upto F i u \<Longrightarrow> \<not> uf_has u UF_PORT \<Longrightarrow> \<not> uf_has u UF_USERINFO \<Longrightarrow>
    \<exists>r u'. url_loop i cs s old_uf found_at u = Some (r, u') \<and> fields_upto F (i + length cs) u'
    \<and> (\<forall>e. r = Inl e \<longrightarrow> e = 1) \<and> \<not> uf_has u' UF_PORT \<and> \<not> uf_has u' UF_USERINFO"
proof (induction i cs s old_uf found_at u rule: url_loop.induct)
  case (2 i ch cs s old_uf found_at u)
  let ?s = "parse_url_char s ch" and ?fa = "found_at \<or> parse_url_char s ch = s_req_server_with_at"
  have up: "i + length (ch # cs) = i + 1 + length cs" by simp
  show ?case
  proof (cases "url_field_of ?s")
    case Url_skip
    then show ?thesis
      using 2(1) [OF refl refl Url_skip] fields_upto_mono [OF 2(4), of "i + 1"] 2(5,6) by (simp add: Let_def)
  next
    case (Url_field uf)
    show ?thesis
    proof (cases "old_uf = Some uf")
      case True
      then show ?thesis
        using 2(2) [OF refl refl Url_field True] fields_upto_more [OF 2(4)] Url_field 2(5,6) by (simp add: Let_def)
    next
      case False
      then show ?thesis
        using 2(3) [OF refl refl Url_field False] fields_upto_start [OF 2(4), of 1] Url_field 2(5,6)
          url_field_of_host [OF Url_field] by (auto simp: Let_def)
    qed
  qed (use url_field_of_total 2(4-6) fields_upto_mono in \<open>auto simp: Let_def\<close>)
qed simp

text \<open>The fields that the host automaton fills; before the host proper, its length is still zero.\<close>

definition host_part :: "url_field set" where
  "host_part = {UF_HOST, UF_PORT, UF_USERINFO}"

definition host_inv :: "nat \<Rightarrow> http_host_state \<Rightarrow> http_parser_url \<Rightarrow> bool" where
  "host_inv i s u \<longleftrightarrow> uf_has u UF_HOST \<and> fields_upto host_part i u
     \<and> (s \<in> {s_http_userinfo_start, s_http_userinfo, s_http_host_start, s_http_host_v6_start} \<longrightarrow> field_len u UF_HOST = 0)"

lemma fields_upto_host:
  assumes "fields_upto F i u" "field_len u UF_HOST = 0"
  shows "fields_upto F (i + 1) (uf_more UF_HOST (uf_at UF_HOST i u))"
  using assms u16_of_le [of i] by (fastforce simp: fields_upto_def u16_of_def)

lemma host_char_cases:
  "http_parse_host_char s ch = s_http_host \<Longrightarrow> s = s_http_host_start \<or> s = s_http_host"
  "http_parse_host_char s ch = s_http_host_v6 \<Longrightarrow> s = s_http_host_v6_start \<or> s = s_http_host_v6"
  "http_parse_host_char s ch \<in> {s_http_userinfo_start, s_http_userinfo, s_http_host_start} \<Longrightarrow>
    s = s_http_userinfo_start \<or> s = s_http_userinfo"
  "http_parse_host_char s ch = s_http_host_v6_start \<Longrightarrow> s = s_http_host_start"
  by (cases s; simp add: http_parse_host_char_def Let_def split: if_splits)+

lemma host_fields_inv:
  assumes "host_inv i s u" "n = http_parse_host_char s ch" "n \<noteq> s_http_host_dead"
  shows "host_inv (i + 1) n (host_fields s n i u)"
proof -
  have u: "uf_has u UF_HOST" "fields_upto host_part i u"
    and z: "s \<in> {s_http_userinfo_start, s_http_userinfo, s_http_host_start, s_http_host_v6_start} \<Longrightarrow> field_len u UF_HOST = 0"
    using assms(1) by (auto simp: host_inv_def)
  note cases = host_char_cases [of s ch, folded assms(2)]
  have st: "fields_upto host_part (i + 1) (uf_more f (uf_mark f (uf_len f 0 (uf_at f i u))))" for f
    using fields_upto_more [OF fields_upto_start [OF u(2), of 0 f]] by simp
  have up: "fields_upto host_part (i + 1) u" using fields_upto_mono [OF u(2)] by simp
  show ?thesis
  proof (cases n)
    case s_http_host
    then show ?thesis
      using cases(1) u z fields_upto_host [OF u(2)] fields_upto_more [OF u(2)] by (auto simp: host_inv_def host_fields_def)
  next
    case s_http_host_v6
    then show ?thesis
      using cases(2) u z fields_upto_host [OF u(2)] fields_upto_more [OF u(2)] by (auto simp: host_inv_def host_fields_def)
  next
    case s_http_host_port
    then show ?thesis
      using u st [of UF_PORT] fields_upto_more [OF u(2)] by (auto simp: host_inv_def host_fields_def)
  next
    case s_http_userinfo
    then show ?thesis
      using cases(3) u z st [of UF_USERINFO] fields_upto_more [OF u(2)] by (auto simp: host_inv_def host_fields_def)
  qed (use assms(3) cases(3,4) u z up fields_upto_more [OF u(2)] in \<open>auto simp: host_inv_def host_fields_def\<close>)
qed

lemma host_loop_inv:
  "host_inv i s u \<Longrightarrow> host_loop i cs s u = (r, u') \<Longrightarrow> fields_upto host_part (i + length cs) u' \<and> uf_has u' UF_HOST"
proof (induction i cs s u rule: host_loop.induct)
  case (2 i ch cs s u)
  show ?case
  proof (cases "http_parse_host_char s ch = s_http_host_dead")
    case True
    then show ?thesis
      using 2(2,3) fields_upto_mono [of host_part i u "i + Suc (length cs)"] by (auto simp: Let_def host_inv_def)
  next
    case False
    then show ?thesis
      using 2(1) [OF refl False host_fields_inv [OF 2(2) refl False]] 2(3) by (simp add: Let_def)
  qed
qed (auto simp: host_inv_def)

lemma host_loop_frame:
  "host_loop i cs s u = (r, u') \<Longrightarrow> f \<notin> host_part \<Longrightarrow>
    uf_has u' f = uf_has u f \<and> field_off u' f = field_off u f \<and> field_len u' f = field_len u f"
proof (induction i cs s u rule: host_loop.induct)
  case (2 i ch cs s u)
  have "uf_has (host_fields s n i u) f = uf_has u f \<and> field_off (host_fields s n i u) f = field_off u f
      \<and> field_len (host_fields s n i u) f = field_len u f" for n
    using 2(3) by (cases n) (auto simp: host_fields_def host_part_def)
  then show ?case
    using 2 by (auto simp: Let_def split: if_splits)
qed auto

lemma parse_host_fields:
  assumes "fields_upto UNIV (length buf) u" "uf_has u UF_HOST" "\<not> uf_has u UF_PORT" "\<not> uf_has u UF_USERINFO"
  shows "\<exists>r u'. http_parse_host buf u found_at = Some (r, u') \<and> fields_upto UNIV (length buf) u' \<and> r \<in> {0, 1}"
proof -
  let ?off = "field_off u UF_HOST" and ?n = "field_len u UF_HOST"
  let ?cs = "drop ?off (take (?off + ?n) buf)" and ?s = "if found_at then s_http_userinfo_start else s_http_host_start"
  have bound: "?off + ?n \<le> length buf" using assms by (simp add: fields_upto_def)
  obtain r u' where run: "host_loop ?off ?cs ?s (uf_len UF_HOST 0 u) = (r, u')" by fastforce
  have "host_inv ?off ?s (uf_len UF_HOST 0 u)"
    using assms(2-4) by (auto simp: host_inv_def fields_upto_def host_part_def)
  from host_loop_inv [OF this run] have hp: "fields_upto host_part (?off + ?n) u'" using bound by simp
  have "fields_upto UNIV (length buf) u'"
    unfolding fields_upto_def
  proof (intro ballI impI)
    fix f assume f: "uf_has u' f"
    show "field_off u' f + field_len u' f \<le> length buf"
    proof (cases "f \<in> host_part")
      case True
      then show ?thesis using hp f bound unfolding fields_upto_def by fastforce
    next
      case False
      then have "field_len (uf_len UF_HOST 0 u) f = field_len u f" by (auto simp: host_part_def)
      then show ?thesis
        using host_loop_frame [OF run False] f assms(1) by (simp add: fields_upto_def)
    qed
  qed
  then show ?thesis using run assms(2) by (auto simp: http_parse_host_def Let_def split: option.splits)
qed

text \<open>C21: Parsing a URL never fails an assertion and never points outside the buffer. For every buffer,
  CONNECT or not, and whatever the structure held before, \<open>http_parser_parse_url\<close> returns 0 or 1,
  and when it returns 0 every field it marks as present lies within the buffer.\<close>

theorem parse_url_in_bounds:
  "\<exists>r u'. http_parser_parse_url buf is_connect u = Some (r, u') \<and> r \<in> {0, 1} \<and>
    (r = 0 \<longrightarrow> (\<forall>f. uf_has u' f \<longrightarrow> field_off u' f + field_len u' f \<le> length buf))"
proof (cases "buf = []")
  case True
  then show ?thesis by (simp add: http_parser_parse_url_def)
next
  case False
  let ?u = "u\<lparr>url_port := 0, field_set := 0\<rparr>" and ?s = "if is_connect then s_req_server_start else s_req_spaces_before_url"
  have none: "\<not> uf_has ?u f" for f by (simp add: uf_has_def)
  then have "fields_upto UNIV 0 ?u" by (simp add: fields_upto_def)
  then obtain r v where loop: "url_loop 0 buf ?s None False ?u = Some (r, v)" "fields_upto UNIV (length buf) v"
    "\<forall>e. r = Inl e \<longrightarrow> e = 1" "\<not> uf_has v UF_PORT" "\<not> uf_has v UF_USERINFO"
    using url_loop_fields [of UNIV 0 ?u buf ?s None False] none by auto
  have pp: "\<exists>r v'. parse_port buf w = Some (r, v') \<and> r \<in> {0, 1} \<and>
      (\<forall>f. uf_has v' f \<longrightarrow> field_off v' f + field_len v' f \<le> length buf)"
    if w: "fields_upto UNIV (length buf) w" for w
  proof -
    have "uf_has (w\<lparr>url_port := x\<rparr>) f = uf_has w f" for x f by (simp add: uf_has_def)
    then show ?thesis
      using w by (auto simp: parse_port_def fields_upto_def Let_def split: option.splits)
  qed
  show ?thesis
  proof (cases r)
    case (Inl e)
    then show ?thesis using False loop by (simp add: http_parser_parse_url_def Let_def)
  next
    case (Inr fa)
    obtain r2 w where host: "(if uf_has v UF_HOST then http_parse_host buf v fa else Some (0, v)) = Some (r2, w)"
      "fields_upto UNIV (length buf) w" "r2 \<in> {0, 1}"
      using parse_host_fields [OF loop(2) _ loop(4,5), of fa] loop(2) by (cases "uf_has v UF_HOST") auto
    show ?thesis
      using False loop(1) Inr host pp [OF host(2)] by (auto simp: http_parser_parse_url_def Let_def)
  qed
qed

subsection \<open>Parsing what was put together\<close>

definition uf_seg :: "url_field \<Rightarrow> nat \<Rightarrow> nat \<Rightarrow> http_parser_url \<Rightarrow> http_parser_url" where
  "uf_seg f i n u = uf_mark f (uf_len f n (uf_at f i u))"

lemma uf_seg_fields [simp]:
  "uf_has (uf_seg f i n u) g \<longleftrightarrow> g = f \<or> uf_has u g"
  "field_off (uf_seg f i n u) g = (if g = f then u16_of i else field_off u g)"
  "field_len (uf_seg f i n u) g = (if g = f then n else field_len u g)"
  by (simp_all add: uf_seg_def)

lemma url_port_fields [simp]:
  "url_port (uf_seg f i n u) = url_port u" "url_port (uf_more f u) = url_port u"
  by (simp_all add: uf_seg_def uf_mark_def uf_len_def uf_at_def uf_more_def)

lemma uf_seg_more: "n + 1 < 2 ^ 16 \<Longrightarrow> uf_more f (uf_seg f i n u) = uf_seg f i (n + 1) u"
  by (simp add: uf_seg_def uf_more_def uf_mark_def uf_len_def uf_at_def u16_of_def)

lemma url_run:
  assumes "url_field_of s = Url_field f" "s \<noteq> s_req_server_with_at"
  shows "\<forall>c\<in>set cs. parse_url_char s c = s \<Longrightarrow> n + length cs < 2 ^ 16 \<Longrightarrow>
    url_loop i (cs @ rest) s (Some f) fa (uf_seg f j n u) = url_loop (i + length cs) rest s (Some f) fa (uf_seg f j (n + length cs) u)"
  by (induction cs arbitrary: i n) (simp_all add: assms uf_seg_more Let_def)

text \<open>A field: a first character that enters the state and more that stay in it; a delimiter.\<close>

lemma url_segment:
  assumes "parse_url_char s c = s'" "\<forall>c\<in>set cs. parse_url_char s' c = s'" "url_field_of s' = Url_field f"
    and "s' \<noteq> s_req_server_with_at" "old \<noteq> Some f" "length cs + 1 < 2 ^ 16"
  shows "url_loop i (c # cs @ rest) s old fa u =
    url_loop (i + length (c # cs)) rest s' (Some f) fa (uf_seg f i (length (c # cs)) u)"
  using url_run [OF assms(3,4,2), of 1 "i + 1" rest fa i u] assms by (simp add: Let_def uf_seg_def)

lemma url_delimiter:
  assumes "parse_url_char s c = s'" "url_field_of s' = Url_skip" "s' \<noteq> s_req_server_with_at"
  shows "url_loop i (c # cs) s old fa u = url_loop (i + 1) cs s' old fa u"
  using assms by (simp add: Let_def)

lemma alpha_plain: "IS_ALPHA c \<Longrightarrow> c \<notin> {CHR '' '', CR, LF, TAB, CHR 0x0C, CHR ''/'', CHR ''*''}"
  by (auto simp: IS_ALPHA_def)

lemma url_char_plain: "IS_URL_CHAR c \<Longrightarrow> c \<notin> {CHR '' '', CR, LF, TAB, CHR 0x0C, CHR ''?'', CHR ''#''}"
  by (auto simp: IS_URL_CHAR_def normal_url_char_def)

lemma host_char_plain:
  "IS_HOST_CHAR c \<or> IS_NUM c \<or> c = CHR '':'' \<Longrightarrow> c \<notin> {CHR '' '', CR, LF, TAB, CHR 0x0C, CHR ''/'', CHR ''?'', CHR ''@''}"
  by (auto simp: IS_HOST_CHAR_def IS_ALPHANUM_def IS_NUM_def IS_ALPHA_def)

lemma host_char_userinfo: "IS_HOST_CHAR c \<or> IS_NUM c \<or> c = CHR '':'' \<Longrightarrow> IS_USERINFO_CHAR c"
  by (auto simp: IS_HOST_CHAR_def IS_USERINFO_CHAR_def IS_ALPHANUM_def IS_MARK_def)

lemma url_delims:
  "parse_url_char s_req_schema CHR '':'' = s_req_schema_slash"
  "parse_url_char s_req_schema_slash CHR ''/'' = s_req_schema_slash_slash"
  "parse_url_char s_req_schema_slash_slash CHR ''/'' = s_req_server_start"
  "parse_url_char s_req_spaces_before_url CHR ''/'' = s_req_path"
  "parse_url_char s_req_server CHR ''/'' = s_req_path"
  "parse_url_char s_req_path CHR ''?'' = s_req_query_string_start"
  "parse_url_char s_req_path CHR ''#'' = s_req_fragment_start"
  "parse_url_char s_req_query_string CHR ''#'' = s_req_fragment_start"
  by (simp_all add: parse_url_char_def parse_server_char_def parse_query_char_def IS_ALPHA_def IS_URL_CHAR_def
      normal_url_char_def)

lemma url_chars:
  "IS_ALPHA c \<Longrightarrow> parse_url_char s_req_spaces_before_url c = s_req_schema"
  "IS_ALPHA c \<Longrightarrow> parse_url_char s_req_schema c = s_req_schema"
  "IS_HOST_CHAR c \<or> IS_NUM c \<or> c = CHR '':'' \<Longrightarrow> parse_url_char s_req_server_start c = s_req_server"
  "IS_HOST_CHAR c \<or> IS_NUM c \<or> c = CHR '':'' \<Longrightarrow> parse_url_char s_req_server c = s_req_server"
  "IS_URL_CHAR c \<Longrightarrow> parse_url_char s_req_path c = s_req_path"
  "IS_URL_CHAR c \<Longrightarrow> parse_url_char s_req_query_string_start c = s_req_query_string"
  "IS_URL_CHAR c \<Longrightarrow> parse_url_char s_req_query_string c = s_req_query_string"
  "IS_URL_CHAR c \<Longrightarrow> parse_url_char s_req_fragment_start c = s_req_fragment"
  "IS_URL_CHAR c \<Longrightarrow> parse_url_char s_req_fragment c = s_req_fragment"
  using alpha_plain [of c] url_char_plain [of c] host_char_plain [of c] host_char_userinfo [of c]
  by (simp_all add: parse_url_char_def parse_server_char_def parse_query_char_def)

lemma host_run:
  "\<forall>c\<in>set cs. IS_HOST_CHAR c \<Longrightarrow> field_len u UF_HOST + length cs < 2 ^ 16 \<Longrightarrow>
    host_loop i (cs @ rest) s_http_host u =
    host_loop (i + length cs) rest s_http_host (uf_len UF_HOST (field_len u UF_HOST + length cs) u)"
proof (induction cs arbitrary: i u)
  case Nil
  then show ?case by (simp add: uf_len_def)
next
  case (Cons c cs)
  have "uf_len UF_HOST n (uf_more UF_HOST u) = uf_len UF_HOST n u" for n by (simp add: uf_len_def uf_more_def)
  then show ?case
    using Cons by (simp add: Let_def http_parse_host_char_def host_fields_def u16_of_def)
qed

lemma port_run:
  "\<forall>c\<in>set cs. IS_NUM c \<Longrightarrow> field_len u UF_PORT + length cs < 2 ^ 16 \<Longrightarrow>
    host_loop i cs s_http_host_port u = (Some s_http_host_port, uf_len UF_PORT (field_len u UF_PORT + length cs) u)"
proof (induction cs arbitrary: i u)
  case Nil
  then show ?case by (simp add: uf_len_def)
next
  case (Cons c cs)
  have "uf_len UF_PORT n (uf_more UF_PORT u) = uf_len UF_PORT n u" for n by (simp add: uf_len_def uf_more_def)
  then show ?case
    using Cons by (simp add: Let_def http_parse_host_char_def host_fields_def u16_of_def)
qed

definition decimal :: "string \<Rightarrow> nat" where
  "decimal ds = foldl (\<lambda>n c. n * 10 + digit c) 0 ds"

lemma decimal_mono: "n \<le> foldl (\<lambda>n c. n * 10 + digit c) n ds"
proof (induction ds arbitrary: n)
  case (Cons d ds)
  have "n \<le> n * 10 + digit d" by simp
  then show ?case using Cons [of "n * 10 + digit d"] by simp
qed simp

lemma port_loop_decimal:
  "\<forall>c\<in>set ds. IS_NUM c \<Longrightarrow> foldl (\<lambda>n c. n * 10 + digit c) n ds \<le> 65535 \<Longrightarrow>
    port_loop ds (int n) = Some (int (foldl (\<lambda>n c. n * 10 + digit c) n ds))"
proof (induction ds arbitrary: n)
  case (Cons d ds)
  have "n * 10 + digit d \<le> 65535"
    using Cons.prems(2) decimal_mono [of "n * 10 + digit d" ds] by simp
  moreover have "int n * 10 + (schar d - 48) = int (n * 10 + digit d)"
    using Cons.prems(1) by (auto simp: schar_def digit_def IS_NUM_def)
  ultimately have "(int n * 10 + (schar d - 48)) mod 2 ^ 64 = int (n * 10 + digit d)" "int (n * 10 + digit d) \<le> 65535"
    by simp_all
  then show ?case using Cons.IH [of "n * 10 + digit d"] Cons.prems by (simp add: Let_def)
qed simp

text \<open>URLs with a schema and a host; port, query and fragment may be missing.\<close>

primrec opt_text :: "char \<Rightarrow> string option \<Rightarrow> string" where
  "opt_text c None = []"
| "opt_text c (Some cs) = c # cs"

definition url_text :: "string \<Rightarrow> string \<Rightarrow> string option \<Rightarrow> string \<Rightarrow> string option \<Rightarrow> string option \<Rightarrow> string" where
  "url_text schema host prt path query fragment =
     schema @ ''://'' @ host @ opt_text CHR '':'' prt @ path @ opt_text CHR ''?'' query @ opt_text CHR ''#'' fragment"

definition field_text :: "http_parser_url \<Rightarrow> string \<Rightarrow> url_field \<Rightarrow> string" where
  "field_text u buf f = take (field_len u f) (drop (field_off u f) buf)"

definition url_parts_ok :: "string \<Rightarrow> string \<Rightarrow> string option \<Rightarrow> string \<Rightarrow> string option \<Rightarrow> string option \<Rightarrow> bool" where
  "url_parts_ok schema host prt path query fragment \<longleftrightarrow>
     schema \<noteq> [] \<and> list_all IS_ALPHA schema \<and> host \<noteq> [] \<and> list_all IS_HOST_CHAR host
     \<and> (case prt of None \<Rightarrow> True | Some ds \<Rightarrow> ds \<noteq> [] \<and> list_all IS_NUM ds \<and> decimal ds \<le> 65535)
     \<and> (\<exists>cs. path = CHR ''/'' # cs \<and> list_all IS_URL_CHAR cs)
     \<and> (case query of None \<Rightarrow> True | Some q \<Rightarrow> q \<noteq> [] \<and> list_all IS_URL_CHAR q)
     \<and> (case fragment of None \<Rightarrow> True | Some f \<Rightarrow> f \<noteq> [] \<and> list_all IS_URL_CHAR f)"

definition opt_seg :: "url_field \<Rightarrow> nat \<Rightarrow> string option \<Rightarrow> http_parser_url \<Rightarrow> http_parser_url" where
  "opt_seg f i cs u = (case cs of None \<Rightarrow> u | Some cs \<Rightarrow> uf_seg f (i + 1) (length cs) u)"

lemma opt_seg_fields [simp]:
  "uf_has (opt_seg f i cs u) g \<longleftrightarrow> (g = f \<and> cs \<noteq> None) \<or> uf_has u g"
  "field_off (opt_seg f i cs u) g = (if g = f \<and> cs \<noteq> None then u16_of (i + 1) else field_off u g)"
  "field_len (opt_seg f i cs u) g = (if g = f \<and> cs \<noteq> None then length (the cs) else field_len u g)"
  "url_port (opt_seg f i cs u) = url_port u"
  by (auto simp: opt_seg_def split: option.splits)

lemma url_fragment:
  assumes "s = s_req_path \<and> old = Some UF_PATH \<or> s = s_req_query_string \<and> old = Some UF_QUERY"
    and "case fragment of None \<Rightarrow> True | Some f \<Rightarrow> f \<noteq> [] \<and> list_all IS_URL_CHAR f"
    and "length (opt_text CHR ''#'' fragment) < 2 ^ 16"
  shows "url_loop i (opt_text CHR ''#'' fragment) s old False u = Some (Inr False, opt_seg UF_FRAGMENT i fragment u)"
proof (cases fragment)
  case (Some f)
  then obtain c cs where f: "f = c # cs" "IS_URL_CHAR c" "\<forall>c\<in>set cs. IS_URL_CHAR c"
    using assms(2) by (cases f) (auto simp: list_all_iff)
  have "url_loop i (CHR ''#'' # c # cs) s old False u = url_loop (i + 1) (c # cs) s_req_fragment_start old False u"
    using assms(1) by (intro url_delimiter) (auto simp: url_delims url_field_of_def)
  also have "\<dots> = url_loop (i + 1 + length (c # cs)) [] s_req_fragment (Some UF_FRAGMENT) False
      (uf_seg UF_FRAGMENT (i + 1) (length (c # cs)) u)"
    using url_segment [of s_req_fragment_start c s_req_fragment cs UF_FRAGMENT old "i + 1" "[]" False u] assms f Some
    by (auto simp: url_chars url_field_of_def)
  finally show ?thesis by (simp add: Some f opt_seg_def)
qed (simp add: opt_seg_def)

lemma url_query:
  assumes "case query of None \<Rightarrow> True | Some q \<Rightarrow> q \<noteq> [] \<and> list_all IS_URL_CHAR q"
    and "case fragment of None \<Rightarrow> True | Some f \<Rightarrow> f \<noteq> [] \<and> list_all IS_URL_CHAR f"
    and "length (opt_text CHR ''?'' query @ opt_text CHR ''#'' fragment) < 2 ^ 16"
  shows "url_loop i (opt_text CHR ''?'' query @ opt_text CHR ''#'' fragment) s_req_path (Some UF_PATH) False u =
    Some (Inr False, opt_seg UF_FRAGMENT (i + length (opt_text CHR ''?'' query)) fragment (opt_seg UF_QUERY i query u))"
proof (cases query)
  case None
  then show ?thesis using url_fragment [of s_req_path _ fragment i u] assms by (simp add: opt_seg_def)
next
  case (Some q)
  then obtain c cs where q: "q = c # cs" "IS_URL_CHAR c" "\<forall>c\<in>set cs. IS_URL_CHAR c"
    using assms(1) by (cases q) (auto simp: list_all_iff)
  let ?f = "opt_text CHR ''#'' fragment"
  have "url_loop i (CHR ''?'' # c # cs @ ?f) s_req_path (Some UF_PATH) False u
      = url_loop (i + 1) (c # cs @ ?f) s_req_query_string_start (Some UF_PATH) False u"
    by (intro url_delimiter) (auto simp: url_delims url_field_of_def)
  also have "\<dots> = url_loop (i + 1 + length (c # cs)) ?f s_req_query_string (Some UF_QUERY) False
      (uf_seg UF_QUERY (i + 1) (length (c # cs)) u)"
    using assms(3) q Some by (intro url_segment) (auto simp: url_chars url_field_of_def)
  also have "\<dots> = Some (Inr False, opt_seg UF_FRAGMENT (i + 1 + length (c # cs)) fragment (uf_seg UF_QUERY (i + 1) (length (c # cs)) u))"
    using assms by (intro url_fragment) auto
  finally show ?thesis by (simp add: Some q opt_seg_def)
qed

lemma host_port:
  assumes "host \<noteq> []" "list_all IS_HOST_CHAR host" "field_len u UF_HOST = 0"
    and "case prt of None \<Rightarrow> True | Some ds \<Rightarrow> ds \<noteq> [] \<and> list_all IS_NUM ds"
    and "length (host @ opt_text CHR '':'' prt) < 2 ^ 16"
  shows "\<exists>s. host_loop i (host @ opt_text CHR '':'' prt) s_http_host_start u =
      (Some s, opt_seg UF_PORT (i + length host) prt (uf_len UF_HOST (length host) (uf_at UF_HOST i u)))
    \<and> s = (if prt = None then s_http_host else s_http_host_port)"
proof -
  obtain c cs where h: "host = c # cs" "IS_HOST_CHAR c" "\<forall>c\<in>set cs. IS_HOST_CHAR c"
    using assms(1,2) by (cases host) (auto simp: list_all_iff)
  have nb: "c \<noteq> CHR ''[''" using h(2) by (auto simp: IS_HOST_CHAR_def IS_ALPHANUM_def IS_ALPHA_def IS_NUM_def)
  let ?u = "uf_len UF_HOST (length host) (uf_at UF_HOST i u)"
  have "uf_len UF_HOST n (uf_more UF_HOST v) = uf_len UF_HOST n v" for n v by (simp add: uf_len_def uf_more_def)
  then have start: "host_loop i (host @ rest) s_http_host_start u = host_loop (i + length host) rest s_http_host ?u" for rest
    using h nb assms(3,5) host_run [of cs "uf_more UF_HOST (uf_at UF_HOST i u)" "i + 1" rest]
    by (simp add: Let_def http_parse_host_char_def host_fields_def u16_of_def)
  show ?thesis
  proof (cases prt)
    case None
    then show ?thesis using start [of "[]"] by (simp add: opt_seg_def)
  next
    case (Some ds)
    then obtain d es where ds: "ds = d # es" "IS_NUM d" "\<forall>c\<in>set es. IS_NUM c"
      using assms(4) by (cases ds) (auto simp: list_all_iff)
    have colon: "\<not> IS_HOST_CHAR CHR '':''"
      by (simp add: IS_HOST_CHAR_def IS_ALPHANUM_def IS_ALPHA_def IS_NUM_def)
    define v where "v = uf_mark UF_PORT (uf_len UF_PORT 0 (uf_at UF_PORT (i + length host + 1) ?u))"
    have "host_loop (i + length host) (CHR '':'' # d # es) s_http_host ?u
        = host_loop (i + length host + 2) es s_http_host_port (uf_more UF_PORT v)"
      using colon ds(2) by (simp add: Let_def http_parse_host_char_def host_fields_def v_def)
    also have "\<dots> = (Some s_http_host_port, uf_len UF_PORT (1 + length es) (uf_more UF_PORT v))"
      using port_run [OF ds(3), of "uf_more UF_PORT v" "i + length host + 2"] assms(5) Some ds(1)
      by (simp add: v_def u16_of_def)
    also have "uf_len UF_PORT (1 + length es) (uf_more UF_PORT v) = opt_seg UF_PORT (i + length host) prt ?u"
      by (simp add: Some ds(1) opt_seg_def uf_seg_def v_def uf_len_def uf_more_def uf_mark_def uf_at_def)
    finally show ?thesis using start [of "CHR '':'' # d # es"] Some ds(1) by simp
  qed
qed

lemma url_text_loop:
  fixes schema host prt path query fragment
  defines "hp \<equiv> host @ opt_text CHR '':'' prt"
  assumes "url_parts_ok schema host prt path query fragment"
    and "length (url_text schema host prt path query fragment) < 2 ^ 16"
  shows "url_loop 0 (url_text schema host prt path query fragment) s_req_spaces_before_url None False u =
    (let n = length schema + 3; m = n + length hp; k = m + length path; j = k + length (opt_text CHR ''?'' query)
     in Some (Inr False, opt_seg UF_FRAGMENT j fragment (opt_seg UF_QUERY k query
          (uf_seg UF_PATH m (length path) (uf_seg UF_HOST n (length hp) (uf_seg UF_SCHEMA 0 (length schema) u))))))"
proof -
  let ?q = "opt_text CHR ''?'' query @ opt_text CHR ''#'' fragment"
  note ok = assms(2) [unfolded url_parts_ok_def]
  obtain a as where a: "schema = a # as" "IS_ALPHA a" "\<forall>c\<in>set as. IS_ALPHA c"
    using ok by (cases schema) (auto simp: list_all_iff)
  obtain h hs where h: "hp = h # hs" "IS_HOST_CHAR h" "\<forall>c\<in>set hs. IS_HOST_CHAR c \<or> IS_NUM c \<or> c = CHR '':''"
    using ok by (cases host; cases prt) (auto simp: hp_def list_all_iff)
  obtain cs where p: "path = CHR ''/'' # cs" "\<forall>c\<in>set cs. IS_URL_CHAR c" using ok by (auto simp: list_all_iff)
  have len: "length schema + 3 + length hp + length path + length ?q < 2 ^ 16"
    using assms(3) by (simp add: url_text_def hp_def)
  let ?n = "length schema + 3"
  have "url_loop 0 (schema @ ''://'' @ hp @ path @ ?q) s_req_spaces_before_url None False u
      = url_loop (0 + length (a # as)) (''://'' @ hp @ path @ ?q) s_req_schema (Some UF_SCHEMA) False
          (uf_seg UF_SCHEMA 0 (length (a # as)) u)"
    unfolding a(1) append_Cons using a len
    by (intro url_segment) (auto simp: url_chars url_field_of_def)
  also have "\<dots> = url_loop ?n (hp @ path @ ?q) s_req_server_start (Some UF_SCHEMA) False (uf_seg UF_SCHEMA 0 (length schema) u)"
    by (simp add: a(1) Let_def url_delims url_field_of_def numeral_3_eq_3)
  also have "\<dots> = url_loop (?n + length (h # hs)) (path @ ?q) s_req_server (Some UF_HOST) False
      (uf_seg UF_HOST ?n (length (h # hs)) (uf_seg UF_SCHEMA 0 (length schema) u))"
    unfolding h(1) append_Cons using h len
    by (intro url_segment) (auto simp: url_chars url_field_of_def)
  also have "\<dots> = url_loop (?n + length hp + length (CHR ''/'' # cs)) ?q s_req_path (Some UF_PATH) False
      (uf_seg UF_PATH (?n + length hp) (length (CHR ''/'' # cs)) (uf_seg UF_HOST ?n (length hp) (uf_seg UF_SCHEMA 0 (length schema) u)))"
    unfolding p(1) h(1) [symmetric] append_Cons using p len
    by (intro url_segment) (auto simp: url_chars url_delims url_field_of_def)
  also have "\<dots> = Some (Inr False, opt_seg UF_FRAGMENT (?n + length hp + length path + length (opt_text CHR ''?'' query)) fragment
      (opt_seg UF_QUERY (?n + length hp + length path) query (uf_seg UF_PATH (?n + length hp) (length path)
        (uf_seg UF_HOST ?n (length hp) (uf_seg UF_SCHEMA 0 (length schema) u)))))"
    using url_query [of query fragment "?n + length hp + length path"] ok len p(1) by simp
  finally show ?thesis by (simp add: Let_def url_text_def hp_def)
qed

lemma slice: "buf = a @ x @ b \<Longrightarrow> off = length a \<Longrightarrow> n = length x \<Longrightarrow> take n (drop off buf) = x"
  by simp

lemma parse_port_text:
  assumes "prt = Some ds \<Longrightarrow> ds = take (field_len u UF_PORT) (drop (field_off u UF_PORT) buf)"
    and "uf_has u UF_PORT \<longleftrightarrow> prt \<noteq> None" "case prt of None \<Rightarrow> True | Some ds \<Rightarrow> list_all IS_NUM ds \<and> decimal ds \<le> 65535"
    and "prt \<noteq> None \<Longrightarrow> field_off u UF_PORT + field_len u UF_PORT \<le> length buf"
    and "\<And>cs. prt = Some cs \<Longrightarrow> cs = ds"
  shows "parse_port buf u = Some (0, if prt = None then u else u\<lparr>url_port := decimal ds\<rparr>)"
proof (cases prt)
  case None
  then show ?thesis using assms(2) by (simp add: parse_port_def)
next
  case (Some cs)
  then have "port_loop ds (int 0) = Some (int (decimal ds))"
    using assms(3,5) port_loop_decimal [of ds 0] by (auto simp: decimal_def list_all_iff)
  then show ?thesis
    using assms Some by (auto simp: parse_port_def u16_of_def)
qed

text \<open>C34: Parsing a URL gives its parts back. For a URL below 64 KiB put together from a schema of letters,
  a host name, and possibly a port up to 65535, a path, a query and a fragment of URL characters,
  \<open>http_parser_parse_url\<close> returns 0, each field delimits exactly the part it is named after, absent
  parts are not marked, and the port is the number its digits denote.\<close>

theorem parse_url_roundtrip:
  fixes schema host prt path query fragment
  defines "buf \<equiv> url_text schema host prt path query fragment"
  assumes "url_parts_ok schema host prt path query fragment" "length buf < 2 ^ 16"
  shows "\<exists>u'. http_parser_parse_url buf False u = Some (0, u')
    \<and> uf_has u' UF_SCHEMA \<and> field_text u' buf UF_SCHEMA = schema
    \<and> uf_has u' UF_HOST \<and> field_text u' buf UF_HOST = host
    \<and> uf_has u' UF_PATH \<and> field_text u' buf UF_PATH = path
    \<and> (case prt of None \<Rightarrow> \<not> uf_has u' UF_PORT \<and> url_port u' = 0
       | Some ds \<Rightarrow> uf_has u' UF_PORT \<and> field_text u' buf UF_PORT = ds \<and> url_port u' = decimal ds)
    \<and> (case query of None \<Rightarrow> \<not> uf_has u' UF_QUERY | Some q \<Rightarrow> uf_has u' UF_QUERY \<and> field_text u' buf UF_QUERY = q)
    \<and> (case fragment of None \<Rightarrow> \<not> uf_has u' UF_FRAGMENT
       | Some f \<Rightarrow> uf_has u' UF_FRAGMENT \<and> field_text u' buf UF_FRAGMENT = f)
    \<and> \<not> uf_has u' UF_USERINFO"
proof -
  define hp where "hp = host @ opt_text CHR '':'' prt"
  define n where "n = length schema + 3"
  define m where "m = n + length hp"
  define k where "k = m + length path"
  define j where "j = k + length (opt_text CHR ''?'' query)"
  define z where "z = u\<lparr>url_port := 0, field_set := 0\<rparr>"
  define v where "v = opt_seg UF_FRAGMENT j fragment (opt_seg UF_QUERY k query
          (uf_seg UF_PATH m (length path) (uf_seg UF_HOST n (length hp) (uf_seg UF_SCHEMA 0 (length schema) z))))"
  note ok = assms(2) [unfolded url_parts_ok_def]
  have z: "\<not> uf_has z f" "url_port z = 0" for f by (simp_all add: z_def uf_has_def)
  have len: "j + length (opt_text CHR ''#'' fragment) = length buf"
    by (simp add: j_def k_def m_def n_def hp_def buf_def url_text_def)
  have bounds: "n < 2 ^ 16" "m < 2 ^ 16" "k < 2 ^ 16" "j < 2 ^ 16" "length hp < 2 ^ 16"
    "query \<noteq> None \<Longrightarrow> k + 1 < 2 ^ 16" "fragment \<noteq> None \<Longrightarrow> j + 1 < 2 ^ 16"
    using assms(3) len by (auto simp: m_def k_def j_def)
  have loop: "url_loop 0 buf s_req_spaces_before_url None False z = Some (Inr False, v)"
    using url_text_loop [OF assms(2), of z] assms(3) by (simp add: buf_def v_def Let_def hp_def n_def m_def k_def j_def)
  have buf: "buf = schema @ ''://'' @ hp @ path @ opt_text CHR ''?'' query @ opt_text CHR ''#'' fragment"
    by (simp add: buf_def url_text_def hp_def)
  have v: "uf_has v UF_SCHEMA" "uf_has v UF_HOST" "field_off v UF_HOST = n" "field_len v UF_HOST = length hp"
    "\<not> uf_has v UF_PORT" "url_port v = 0"
    using bounds z by (simp_all add: v_def u16_of_id)
  define w where "w = opt_seg UF_PORT (n + length host) prt (uf_len UF_HOST (length host) (uf_at UF_HOST n (uf_len UF_HOST 0 v)))"
  have "n = length (schema @ ''://'')" "buf = (schema @ ''://'') @ hp @ path @ opt_text CHR ''?'' query @ opt_text CHR ''#'' fragment"
    by (simp_all add: buf n_def)
  then have "drop n (take (n + length hp) buf) = hp" by (simp only: append_take_drop_id take_append drop_append) simp
  then have host: "http_parse_host buf v False = Some (0, w)"
    using host_port [of host "uf_len UF_HOST 0 v" prt n] v ok bounds(5)
    by (auto simp: http_parse_host_def Let_def hp_def w_def split: option.splits)
  define ds where "ds = (case prt of None \<Rightarrow> [] | Some ds \<Rightarrow> ds)"
  have nh: "prt \<noteq> None \<Longrightarrow> n + length host + 1 < 2 ^ 16"
    using bounds(2) by (auto simp: m_def hp_def)
  have split: "buf = [] @ schema @ drop (length schema) buf"
    "buf = (schema @ ''://'') @ host @ (opt_text CHR '':'' prt @ path @ opt_text CHR ''?'' query @ opt_text CHR ''#'' fragment)"
    "buf = (schema @ ''://'' @ hp) @ path @ (opt_text CHR ''?'' query @ opt_text CHR ''#'' fragment)"
    "prt = Some ds' \<Longrightarrow> buf = (schema @ ''://'' @ host @ '':'') @ ds' @ (path @ opt_text CHR ''?'' query @ opt_text CHR ''#'' fragment)"
    "query = Some q \<Longrightarrow> buf = (schema @ ''://'' @ hp @ path @ ''?'') @ q @ opt_text CHR ''#'' fragment"
    "fragment = Some f \<Longrightarrow> buf = (schema @ ''://'' @ hp @ path @ opt_text CHR ''?'' query @ ''#'') @ f @ []" for ds' q f
    by (simp_all add: buf hp_def)
  have offs: "field_off w UF_SCHEMA = 0" "field_len w UF_SCHEMA = length schema"
    "field_off w UF_HOST = n" "field_len w UF_HOST = length host"
    "field_off w UF_PATH = m" "field_len w UF_PATH = length path"
    "prt = Some ds' \<Longrightarrow> field_off w UF_PORT = n + length host + 1 \<and> field_len w UF_PORT = length ds'"
    "query = Some q \<Longrightarrow> field_off w UF_QUERY = k + 1 \<and> field_len w UF_QUERY = length q"
    "fragment = Some f \<Longrightarrow> field_off w UF_FRAGMENT = j + 1 \<and> field_len w UF_FRAGMENT = length f" for ds' q f
    using bounds nh by (simp_all add: w_def v_def u16_of_id)
  have parts: "field_text w buf UF_SCHEMA = schema" "field_text w buf UF_HOST = host" "field_text w buf UF_PATH = path"
    "prt = Some ds' \<Longrightarrow> field_text w buf UF_PORT = ds'" "query = Some q \<Longrightarrow> field_text w buf UF_QUERY = q"
    "fragment = Some f \<Longrightarrow> field_text w buf UF_FRAGMENT = f" for ds' q f
    unfolding field_text_def
    by (rule slice [OF split(1)] slice [OF split(2)] slice [OF split(3)] slice [OF split(4)] slice [OF split(5)] slice [OF split(6)];
        simp add: offs n_def m_def k_def j_def hp_def)+
  have pb: "prt \<noteq> None \<Longrightarrow> field_off w UF_PORT + field_len w UF_PORT \<le> length buf"
    using offs(7) by (auto simp: n_def buf hp_def)
  have port: "parse_port buf w = Some (0, if prt = None then w else w\<lparr>url_port := decimal ds\<rparr>)"
  proof (rule parse_port_text)
    show "prt = Some ds \<Longrightarrow> ds = take (field_len w UF_PORT) (drop (field_off w UF_PORT) buf)"
      using parts(4) by (simp add: field_text_def)
  qed (use ok v(5) pb in \<open>auto simp: w_def ds_def split: option.splits\<close>)
  define u' where "u' = (if prt = None then w else w\<lparr>url_port := decimal ds\<rparr>)"
  have sel: "uf_has u' f = uf_has w f" "field_text u' buf f = field_text w buf f" for f
    by (simp_all add: u'_def uf_has_def field_text_def)
  have has: "uf_has w UF_SCHEMA" "uf_has w UF_HOST" "uf_has w UF_PATH" "uf_has w UF_PORT = (prt \<noteq> None)"
    "uf_has w UF_QUERY = (query \<noteq> None)" "uf_has w UF_FRAGMENT = (fragment \<noteq> None)" "\<not> uf_has w UF_USERINFO"
    using z by (auto simp: w_def v_def)
  have "buf \<noteq> []" by (simp add: buf)
  then have run: "http_parser_parse_url buf False u = Some (0, u')"
    using loop v(1,2) host port by (simp add: http_parser_parse_url_def z_def u'_def)
  have "url_port w = 0" using v(6) by (simp add: w_def uf_len_def uf_at_def)
  then have "url_port u' = (case prt of None \<Rightarrow> 0 | Some ds \<Rightarrow> decimal ds)"
    by (simp add: u'_def ds_def split: option.split)
  then show ?thesis
    using run has parts by (intro exI [of _ u']) (simp add: sel split: option.split)
qed

lemma parse_url_roundtrip_witness:
  "\<exists>u'. http_parser_parse_url (url_text ''http'' ''ab.c'' (Some ''8080'') ''/x'' (Some ''k=v'') (Some ''f'')) False http_parser_url_init = Some (0, u')
    \<and> field_text u' (url_text ''http'' ''ab.c'' (Some ''8080'') ''/x'' (Some ''k=v'') (Some ''f'')) UF_HOST = ''ab.c''
    \<and> url_port u' = 8080"
proof -
  have "url_parts_ok ''http'' ''ab.c'' (Some ''8080'') ''/x'' (Some ''k=v'') (Some ''f'')"
    by (simp add: url_parts_ok_def IS_ALPHA_def IS_HOST_CHAR_def IS_ALPHANUM_def IS_NUM_def IS_URL_CHAR_def
        normal_url_char_def decimal_def digit_def bit_iff_odd)
  then show ?thesis
    using parse_url_roundtrip [of "''http''" "''ab.c''" "Some ''8080''" "''/x''" "Some ''k=v''" "Some ''f''" http_parser_url_init]
    by (auto simp: url_text_def decimal_def digit_def)
qed

subsection \<open>Long URLs\<close>

lemma url_run_wraps:
  assumes "url_field_of s = Url_field f" "s \<noteq> s_req_server_with_at"
  shows "\<forall>c\<in>set cs. parse_url_char s c = s \<Longrightarrow> field_len u f < 2 ^ 16 \<Longrightarrow>
    \<exists>v. url_loop i cs s (Some f) fa u = Some (Inr fa, v) \<and> field_len v f = u16_of (field_len u f + length cs)
      \<and> field_off v = field_off u \<and> field_set v = field_set u"
proof (induction cs arbitrary: i u)
  case (Cons c cs)
  have "u16_of (field_len (uf_more f u) f + length cs) = u16_of (field_len u f + length (c # cs))"
    by (simp add: u16_of_def mod_add_left_eq)
  moreover have "field_set (uf_more f u) = field_set u" by (simp add: uf_more_def)
  ultimately show ?case
    using Cons.IH [of "uf_more f u" "i + 1"] Cons.prems assms by (auto simp: Let_def u16_of_def)
qed (simp add: u16_of_def)

text \<open>Long URLs are cut. Lengths are kept in 16 bits: for a path of any length the call returns 0 and
  reports the length modulo 65536, so that of a path of 65536 characters or more only a part (or
  nothing) is delimited.\<close>

theorem parse_url_length_wraps:
  assumes "list_all IS_URL_CHAR cs"
  shows "\<exists>u'. http_parser_parse_url (CHR ''/'' # cs) False u = Some (0, u')
    \<and> uf_has u' UF_PATH \<and> field_off u' UF_PATH = 0 \<and> field_len u' UF_PATH = length (CHR ''/'' # cs) mod 65536"
proof -
  let ?z = "u\<lparr>url_port := 0, field_set := 0\<rparr>"
  have z: "\<not> uf_has ?z f" for f by (simp add: uf_has_def)
  obtain v where v: "url_loop 1 cs s_req_path (Some UF_PATH) False (uf_seg UF_PATH 0 1 ?z) = Some (Inr False, v)"
    "field_len v UF_PATH = u16_of (1 + length cs)" "field_off v = field_off (uf_seg UF_PATH 0 1 ?z)"
    "field_set v = field_set (uf_seg UF_PATH 0 1 ?z)"
    using url_run_wraps [of s_req_path UF_PATH cs "uf_seg UF_PATH 0 1 ?z" 1 False] assms
    by (auto simp: url_chars url_field_of_def list_all_iff)
  have has: "uf_has v f \<longleftrightarrow> f = UF_PATH" for f
    using z uf_seg_fields(1) [of UF_PATH 0 1 ?z f] by (simp add: uf_has_def v(4))
  have "url_loop 0 (CHR ''/'' # cs) s_req_spaces_before_url None False ?z = Some (Inr False, v)"
    using v(1) by (simp add: Let_def url_delims url_field_of_def uf_seg_def)
  then have "http_parser_parse_url (CHR ''/'' # cs) False u = Some (0, v)"
    using has by (simp add: http_parser_parse_url_def parse_port_def Let_def)
  then show ?thesis using has v(2,3) by (simp add: u16_of_def)
qed

lemma parse_url_length_wraps_witness:
  "\<exists>u'. http_parser_parse_url (CHR ''/'' # replicate 65535 CHR ''a'') False http_parser_url_init = Some (0, u')
    \<and> uf_has u' UF_PATH \<and> field_len u' UF_PATH = 0"
proof -
  have "IS_URL_CHAR CHR ''a''" by (simp add: IS_URL_CHAR_def normal_url_char_def bit_iff_odd)
  then have "list_all IS_URL_CHAR (replicate 65535 CHR ''a'')" by (simp add: list_all_iff)
  from parse_url_length_wraps [OF this, of http_parser_url_init] show ?thesis by auto
qed

lemma parse_url_in_bounds_witness:
  "\<exists>u'. http_parser_parse_url ''/a?b'' False http_parser_url_init = Some (0, u') \<and>
    uf_has u' UF_QUERY \<and> field_off u' UF_QUERY + field_len u' UF_QUERY \<le> length ''/a?b''"
proof -
  have "IS_URL_CHAR CHR ''a''" "IS_URL_CHAR CHR ''b''" by (simp_all add: IS_URL_CHAR_def normal_url_char_def bit_iff_odd)
  then have "\<exists>u'. http_parser_parse_url ''/a?b'' False http_parser_url_init = Some (0, u') \<and> uf_has u' UF_QUERY"
    by (simp add: http_parser_parse_url_def parse_port_def Let_def url_delims url_chars url_field_of_def uf_more_def
        uf_mark_def uf_at_def uf_len_def uf_has_def http_parser_url_init_def bit_simps uf_code_def)
  then show ?thesis using parse_url_in_bounds [of "''/a?b''" False http_parser_url_init] by auto
qed

end
