(* ===== verification/HttpExec.thy ===== *)
theory HttpExec
  imports HttpUrl
begin

section \<open>http_parser_execute\<close>

text \<open>
  The request and response parser as a machine over the bytes of a buffer. A state of the run holds
  the parser, the user's data, the local variables of the function and the marks of the pieces of
  text that callbacks are still owed. There is one function for each \<open>case\<close> of the code; it says how
  the case is left: \<open>Next\<close> (break: on to the next byte), \<open>Again\<close> (goto reexecute), \<open>Err\<close> (goto error),
  \<open>Ret\<close> (return, with the number of bytes consumed), or \<open>Abort\<close> (a failed assertion, or a read past
  the end of a string). A callback may do anything to the parser and to the user's data.
\<close>

subsection \<open>Runs\<close>

datatype mark = M_header_field | M_header_value | M_url | M_body | M_status

record 'u exec =
  parser :: http_parser
  udata :: 'u
  p_state :: state
  l_nread :: nat
  cur :: nat
  xch :: char
  marks :: "mark \<Rightarrow> nat option"

type_synonym 'u http_cb = "http_parser \<Rightarrow> 'u \<Rightarrow> int \<times> http_parser \<times> 'u"
type_synonym 'u http_data_cb = "http_parser \<Rightarrow> string \<Rightarrow> 'u \<Rightarrow> int \<times> http_parser \<times> 'u"

record 'u http_parser_settings =
  on_message_begin :: "'u http_cb option"
  on_url :: "'u http_data_cb option"
  on_status :: "'u http_data_cb option"
  on_header_field :: "'u http_data_cb option"
  on_header_value :: "'u http_data_cb option"
  on_headers_complete :: "'u http_cb option"
  on_body :: "'u http_data_cb option"
  on_message_complete :: "'u http_cb option"
  on_chunk_header :: "'u http_cb option"
  on_chunk_complete :: "'u http_cb option"

definition http_parser_settings_init :: "'u http_parser_settings" where
  "http_parser_settings_init = \<lparr>on_message_begin = None, on_url = None, on_status = None,
     on_header_field = None, on_header_value = None, on_headers_complete = None, on_body = None,
     on_message_complete = None, on_chunk_header = None, on_chunk_complete = None\<rparr>"

text \<open>What does not change in a run: the callbacks, the buffer, the limit, two local constants.\<close>

record 'u run_env =
  settings :: "'u http_parser_settings"
  data :: string
  max_header_size :: nat
  lenient :: bool
  chunked_length_ok :: bool

datatype 'u flow = Next "'u exec" | Again "'u exec" | Err "'u exec" | Ret nat "'u exec" | Abort

subsection \<open>Macros\<close>

definition upd :: "(http_parser \<Rightarrow> http_parser) \<Rightarrow> 'u exec \<Rightarrow> 'u exec" where
  "upd f x = x\<lparr>parser := f (parser x)\<rparr>"

definition update_state :: "state \<Rightarrow> 'u exec \<Rightarrow> 'u exec" where
  "update_state s x = x\<lparr>p_state := s\<rparr>"

definition set_errno :: "http_errno \<Rightarrow> 'u exec \<Rightarrow> 'u exec" where
  "set_errno e x = upd (\<lambda>ps. ps\<lparr>nread := l_nread x, http_errno := e\<rparr>) x"

definition fail :: "http_errno \<Rightarrow> 'u exec \<Rightarrow> 'u flow" where
  "fail e x = Err (set_errno e x)"

definition return :: "nat \<Rightarrow> 'u exec \<Rightarrow> 'u flow" where
  "return n x = Ret n (upd (\<lambda>ps. ps\<lparr>nread := l_nread x, state := p_state x\<rparr>) x)"

definition strict_check :: "bool \<Rightarrow> 'u exec \<Rightarrow> 'u flow \<Rightarrow> 'u flow" where
  "strict_check bad x r = (if bad then fail HPE_STRICT x else r)"

definition set_mark :: "mark \<Rightarrow> 'u exec \<Rightarrow> 'u exec" where
  "set_mark m x = (if marks x m = None then x\<lparr>marks := (marks x)(m := Some (cur x))\<rparr> else x)"

definition count_header_size :: "'u run_env \<Rightarrow> nat \<Rightarrow> ('u exec \<Rightarrow> 'u flow) \<Rightarrow> 'u exec \<Rightarrow> 'u flow" where
  "count_header_size G v k x =
     (let x = x\<lparr>l_nread := (l_nread x + v) mod 2 ^ 32\<rparr>
      in if l_nread x > max_header_size G then fail HPE_HEADER_OVERFLOW x else k x)"

text \<open>After a callback returned: its error, its state, and whether to get out with \<open>er\<close>.\<close>

definition callback_result :: "http_errno \<Rightarrow> nat \<Rightarrow> ('u exec \<Rightarrow> 'u flow) \<Rightarrow> 'u exec \<Rightarrow> int \<times> http_parser \<times> 'u \<Rightarrow> 'u flow" where
  "callback_result e er k x r =
     (let x = x\<lparr>parser := fst (snd r), udata := snd (snd r)\<rparr>;
          x = (if fst r \<noteq> 0 then set_errno e x else x);
          x = update_state (state (parser x)) x
      in if http_errno (parser x) \<noteq> HPE_OK then Ret er x else k x)"

definition callback_notify :: "'u http_cb option \<Rightarrow> http_errno \<Rightarrow> nat \<Rightarrow> ('u exec \<Rightarrow> 'u flow) \<Rightarrow> 'u exec \<Rightarrow> 'u flow" where
  "callback_notify f e er k x =
     (if http_errno (parser x) \<noteq> HPE_OK then Abort
      else case f of None \<Rightarrow> k x
      | Some f \<Rightarrow> let x = upd (\<lambda>ps. ps\<lparr>state := p_state x\<rparr>) x
          in callback_result e er k x (f (parser x) (udata x)))"

primrec data_callback :: "mark \<Rightarrow> 'u http_parser_settings \<Rightarrow> 'u http_data_cb option" where
  "data_callback M_header_field S = on_header_field S"
| "data_callback M_header_value S = on_header_value S"
| "data_callback M_url S = on_url S"
| "data_callback M_body S = on_body S"
| "data_callback M_status S = on_status S"

primrec data_error :: "mark \<Rightarrow> http_errno" where
  "data_error M_header_field = HPE_CB_header_field"
| "data_error M_header_value = HPE_CB_header_value"
| "data_error M_url = HPE_CB_url"
| "data_error M_body = HPE_CB_body"
| "data_error M_status = HPE_CB_status"

definition clear_mark :: "mark \<Rightarrow> 'u exec \<Rightarrow> 'u exec" where
  "clear_mark m x = x\<lparr>marks := (marks x)(m := None)\<rparr>"

text \<open>The text from the mark to the current position and \<open>extra\<close> characters more.\<close>

definition callback_data_len :: "'u run_env \<Rightarrow> mark \<Rightarrow> nat \<Rightarrow> nat \<Rightarrow> ('u exec \<Rightarrow> 'u flow) \<Rightarrow> 'u exec \<Rightarrow> 'u flow" where
  "callback_data_len G m extra er k x =
     (if http_errno (parser x) \<noteq> HPE_OK then Abort
      else case marks x m of None \<Rightarrow> k x
      | Some a \<Rightarrow> (case data_callback m (settings G) of
            None \<Rightarrow> k (clear_mark m x)
          | Some f \<Rightarrow> let x = upd (\<lambda>ps. ps\<lparr>state := p_state x\<rparr>) x
              in callback_result (data_error m) er (\<lambda>x. k (clear_mark m x)) x
                   (f (parser x) (take (cur x - a + extra) (drop a (data G))) (udata x))))"

definition callback_data :: "'u run_env \<Rightarrow> mark \<Rightarrow> ('u exec \<Rightarrow> 'u flow) \<Rightarrow> 'u exec \<Rightarrow> 'u flow" where
  "callback_data G m k x = callback_data_len G m 0 (cur x + 1) k x"

definition callback_data_noadvance :: "'u run_env \<Rightarrow> mark \<Rightarrow> ('u exec \<Rightarrow> 'u flow) \<Rightarrow> 'u exec \<Rightarrow> 'u flow" where
  "callback_data_noadvance G m k x = callback_data_len G m 0 (cur x) k x"

definition start_state :: "http_parser \<Rightarrow> state" where
  "start_state ps = (if ptype ps = HTTP_REQUEST then s_start_req else s_start_res)"

definition new_message :: "http_parser \<Rightarrow> state" where
  "new_message ps = (if http_should_keep_alive ps then start_state ps else s_dead)"

text \<open>A string literal with its final zero.\<close>

definition str_at :: "string \<Rightarrow> nat \<Rightarrow> char" where
  "str_at w i = (if i < length w then w ! i else NUL)"

definition inc_index :: "http_parser \<Rightarrow> http_parser" where
  "inc_index ps = ps\<lparr>index := (index ps + 1) mod 2 ^ 5\<rparr>"

subsection \<open>Start of a message and the status line\<close>

definition do_dead :: "'u run_env \<Rightarrow> 'u exec \<Rightarrow> 'u flow" where
  "do_dead G x = (if xch x = CR \<or> xch x = LF then Next x else fail HPE_CLOSED_CONNECTION x)"

definition begin_message :: "http_parser \<Rightarrow> http_parser" where
  "begin_message ps = ps\<lparr>flags := 0, uses_transfer_encoding := False, content_length := ULLONG_MAX\<rparr>"

definition do_start_req_or_res :: "'u run_env \<Rightarrow> 'u exec \<Rightarrow> 'u flow" where
  "do_start_req_or_res G x =
     (if xch x = CR \<or> xch x = LF then Next x
      else let x = upd begin_message x
        in if xch x = CHR ''H'' then
             callback_notify (on_message_begin (settings G)) HPE_CB_message_begin (cur x + 1) Next
               (update_state s_res_or_resp_H x)
           else Again (update_state s_start_req (upd (\<lambda>ps. ps\<lparr>ptype := HTTP_REQUEST\<rparr>) x)))"

definition do_res_or_resp_H :: "'u run_env \<Rightarrow> 'u exec \<Rightarrow> 'u flow" where
  "do_res_or_resp_H G x =
     (if xch x = CHR ''T'' then Next (update_state s_res_HT (upd (\<lambda>ps. ps\<lparr>ptype := HTTP_RESPONSE\<rparr>) x))
      else if xch x \<noteq> CHR ''E'' then fail HPE_INVALID_CONSTANT x
      else Next (update_state s_req_method
        (upd (\<lambda>ps. ps\<lparr>ptype := HTTP_REQUEST, method := HTTP_HEAD, index := 2\<rparr>) x)))"

definition do_start_res :: "'u run_env \<Rightarrow> 'u exec \<Rightarrow> 'u flow" where
  "do_start_res G x =
     (if xch x = CR \<or> xch x = LF then Next x
      else let x = upd begin_message x
        in if xch x = CHR ''H'' then
             callback_notify (on_message_begin (settings G)) HPE_CB_message_begin (cur x + 1) Next
               (update_state s_res_H x)
           else fail HPE_INVALID_CONSTANT x)"

text \<open>The states that expect one character under the strict check.\<close>

definition do_expect :: "char \<Rightarrow> state \<Rightarrow> 'u exec \<Rightarrow> 'u flow" where
  "do_expect c s x = strict_check (xch x \<noteq> c) x (Next (update_state s x))"

text \<open>Version numbers: a digit, a dot, a digit.\<close>

definition do_http_major :: "state \<Rightarrow> 'u exec \<Rightarrow> 'u flow" where
  "do_http_major s x =
     (if \<not> IS_NUM (xch x) then fail HPE_INVALID_VERSION x
      else Next (update_state s (upd (\<lambda>ps. ps\<lparr>http_major := digit (xch x)\<rparr>) x)))"

definition do_http_dot :: "state \<Rightarrow> 'u exec \<Rightarrow> 'u flow" where
  "do_http_dot s x = (if xch x \<noteq> CHR ''.'' then fail HPE_INVALID_VERSION x else Next (update_state s x))"

definition do_http_minor :: "state \<Rightarrow> 'u exec \<Rightarrow> 'u flow" where
  "do_http_minor s x =
     (if \<not> IS_NUM (xch x) then fail HPE_INVALID_VERSION x
      else Next (update_state s (upd (\<lambda>ps. ps\<lparr>http_minor := digit (xch x)\<rparr>) x)))"

definition do_res_http_end :: "'u run_env \<Rightarrow> 'u exec \<Rightarrow> 'u flow" where
  "do_res_http_end G x =
     (if xch x \<noteq> CHR '' '' then fail HPE_INVALID_VERSION x else Next (update_state s_res_first_status_code x))"

definition do_res_first_status_code :: "'u run_env \<Rightarrow> 'u exec \<Rightarrow> 'u flow" where
  "do_res_first_status_code G x =
     (if \<not> IS_NUM (xch x) then (if xch x = CHR '' '' then Next x else fail HPE_INVALID_STATUS x)
      else Next (update_state s_res_status_code (upd (\<lambda>ps. ps\<lparr>status_code := digit (xch x)\<rparr>) x)))"

definition do_res_status_code :: "'u run_env \<Rightarrow> 'u exec \<Rightarrow> 'u flow" where
  "do_res_status_code G x =
     (if \<not> IS_NUM (xch x) then
        (if xch x = CHR '' '' then Next (update_state s_res_status_start x)
         else if xch x = CR \<or> xch x = LF then Again (update_state s_res_status_start x)
         else fail HPE_INVALID_STATUS x)
      else
        let x = upd (\<lambda>ps. ps\<lparr>status_code := (status_code ps * 10 mod 2 ^ 16 + digit (xch x)) mod 2 ^ 16\<rparr>) x
        in if status_code (parser x) > 999 then fail HPE_INVALID_STATUS x else Next x)"

definition do_res_status_start :: "'u run_env \<Rightarrow> 'u exec \<Rightarrow> 'u flow" where
  "do_res_status_start G x =
     (let x = upd (\<lambda>ps. ps\<lparr>index := 0\<rparr>) (update_state s_res_status (set_mark M_status x))
      in if xch x = CR \<or> xch x = LF then Again x else Next x)"

definition do_res_status :: "'u run_env \<Rightarrow> 'u exec \<Rightarrow> 'u flow" where
  "do_res_status G x =
     (if xch x = CR then callback_data G M_status Next (update_state s_res_line_almost_done x)
      else if xch x = LF then callback_data G M_status Next (update_state s_header_field_start x)
      else Next x)"

subsection \<open>The request line\<close>

definition first_method :: "char \<Rightarrow> http_method option" where
  "first_method c = map_of [
     (CHR ''A'', HTTP_ACL), (CHR ''B'', HTTP_BIND), (CHR ''C'', HTTP_CONNECT), (CHR ''D'', HTTP_DELETE),
     (CHR ''G'', HTTP_GET), (CHR ''H'', HTTP_HEAD), (CHR ''L'', HTTP_LOCK), (CHR ''M'', HTTP_MKCOL),
     (CHR ''N'', HTTP_NOTIFY), (CHR ''O'', HTTP_OPTIONS), (CHR ''P'', HTTP_POST), (CHR ''R'', HTTP_REPORT),
     (CHR ''S'', HTTP_SUBSCRIBE), (CHR ''T'', HTTP_TRACE), (CHR ''U'', HTTP_UNLOCK)] c"

definition do_start_req :: "'u run_env \<Rightarrow> 'u exec \<Rightarrow> 'u flow" where
  "do_start_req G x =
     (if xch x = CR \<or> xch x = LF then Next x
      else let x = upd begin_message x
        in if \<not> IS_ALPHA (xch x) then fail HPE_INVALID_METHOD x
           else let x = upd (\<lambda>ps. ps\<lparr>method := HTTP_DELETE, index := 1\<rparr>) x
             in case first_method (xch x) of
                  None \<Rightarrow> fail HPE_INVALID_METHOD x
                | Some m \<Rightarrow>
                    callback_notify (on_message_begin (settings G)) HPE_CB_message_begin (cur x + 1) Next
                      (update_state s_req_method (upd (\<lambda>ps. ps\<lparr>method := m\<rparr>) x)))"

text \<open>The switch to another method that shares the characters read so far.\<close>

definition method_switch :: "http_method \<Rightarrow> nat \<Rightarrow> char \<Rightarrow> http_method option" where
  "method_switch m i c = map_of [
     ((HTTP_POST, 1, CHR ''U''), HTTP_PUT), ((HTTP_POST, 1, CHR ''A''), HTTP_PATCH),
     ((HTTP_POST, 1, CHR ''R''), HTTP_PROPFIND), ((HTTP_PUT, 2, CHR ''R''), HTTP_PURGE),
     ((HTTP_CONNECT, 1, CHR ''H''), HTTP_CHECKOUT), ((HTTP_CONNECT, 2, CHR ''P''), HTTP_COPY),
     ((HTTP_MKCOL, 1, CHR ''O''), HTTP_MOVE), ((HTTP_MKCOL, 1, CHR ''E''), HTTP_MERGE),
     ((HTTP_MKCOL, 1, CHR ''-''), HTTP_MSEARCH), ((HTTP_MKCOL, 2, CHR ''A''), HTTP_MKACTIVITY),
     ((HTTP_MKCOL, 3, CHR ''A''), HTTP_MKCALENDAR), ((HTTP_SUBSCRIBE, 1, CHR ''E''), HTTP_SEARCH),
     ((HTTP_SUBSCRIBE, 1, CHR ''O''), HTTP_SOURCE), ((HTTP_REPORT, 2, CHR ''B''), HTTP_REBIND),
     ((HTTP_PROPFIND, 4, CHR ''P''), HTTP_PROPPATCH), ((HTTP_LOCK, 1, CHR ''I''), HTTP_LINK),
     ((HTTP_UNLOCK, 2, CHR ''S''), HTTP_UNSUBSCRIBE), ((HTTP_UNLOCK, 2, CHR ''B''), HTTP_UNBIND),
     ((HTTP_UNLOCK, 3, CHR ''I''), HTTP_UNLINK)] (m, i, c)"

definition do_req_method :: "'u run_env \<Rightarrow> 'u exec \<Rightarrow> 'u flow" where
  "do_req_method G x =
     (let c = xch x; m = method (parser x); i = index (parser x); matcher = method_strings ! method_code m
      in if c = NUL then fail HPE_INVALID_METHOD x
         else if i > length matcher then Abort
         else if c = CHR '' '' \<and> str_at matcher i = NUL then Next (update_state s_req_spaces_before_url (upd inc_index x))
         else if c = str_at matcher i then Next (upd inc_index x)
         else if code c \<ge> code CHR ''A'' \<and> code c \<le> code CHR ''Z'' \<or> c = CHR ''-'' then
           (case method_switch m i c of
              None \<Rightarrow> fail HPE_INVALID_METHOD x
            | Some m \<Rightarrow> Next (upd inc_index (upd (\<lambda>ps. ps\<lparr>method := m\<rparr>) x)))
         else fail HPE_INVALID_METHOD x)"

text \<open>A character of the URL, in the states where the URL may not end and where it may.\<close>

definition url_char :: "'u exec \<Rightarrow> 'u flow" where
  "url_char x =
     (let x = update_state (parse_url_char (p_state x) (xch x)) x
      in if p_state x = s_dead then fail HPE_INVALID_URL x else Next x)"

definition do_req_spaces_before_url :: "'u run_env \<Rightarrow> 'u exec \<Rightarrow> 'u flow" where
  "do_req_spaces_before_url G x =
     (if xch x = CHR '' '' then Next x
      else let x = set_mark M_url x
        in url_char (if method (parser x) = HTTP_CONNECT then update_state s_req_server_start x else x))"

definition do_req_schema :: "'u run_env \<Rightarrow> 'u exec \<Rightarrow> 'u flow" where
  "do_req_schema G x =
     (if xch x = CHR '' '' \<or> xch x = CR \<or> xch x = LF then fail HPE_INVALID_URL x else url_char x)"

definition do_req_url :: "'u run_env \<Rightarrow> 'u exec \<Rightarrow> 'u flow" where
  "do_req_url G x =
     (if xch x = CHR '' '' then callback_data G M_url Next (update_state s_req_http_start x)
      else if xch x = CR \<or> xch x = LF then
        callback_data G M_url Next
          (update_state (if xch x = CR then s_req_line_almost_done else s_header_field_start)
            (upd (\<lambda>ps. ps\<lparr>http_major := 0, http_minor := 9\<rparr>) x))
      else url_char x)"

definition do_req_http_start :: "'u run_env \<Rightarrow> 'u exec \<Rightarrow> 'u flow" where
  "do_req_http_start G x =
     (if xch x = CHR '' '' then Next x
      else if xch x = CHR ''H'' then Next (update_state s_req_http_H x)
      else if xch x = CHR ''I'' \<and> method (parser x) = HTTP_SOURCE then Next (update_state s_req_http_I x)
      else fail HPE_INVALID_CONSTANT x)"

definition do_req_http_end :: "'u run_env \<Rightarrow> 'u exec \<Rightarrow> 'u flow" where
  "do_req_http_end G x =
     (if xch x = CR then Next (update_state s_req_line_almost_done x)
      else if xch x = LF then Next (update_state s_header_field_start x)
      else fail HPE_INVALID_VERSION x)"

definition do_req_line_almost_done :: "'u run_env \<Rightarrow> 'u exec \<Rightarrow> 'u flow" where
  "do_req_line_almost_done G x =
     (if xch x \<noteq> LF then fail HPE_LF_EXPECTED x else Next (update_state s_header_field_start x))"

end
