(* ===== verification/HttpHeaders.thy ===== *)
theory HttpHeaders
  imports HttpExec
begin

section \<open>http_parser_execute: header fields and values\<close>

text \<open>
  The cases of header lines. The loops inside \<open>s_header_field\<close> and \<open>s_header_value\<close> run over the rest
  of the buffer; each turn moves the position on.
\<close>

subsection \<open>Field names\<close>

definition field_start_state :: "char \<Rightarrow> header_states" where
  "field_start_state c =
     (if c = CHR ''c'' then h_C
      else if c = CHR ''p'' then h_matching_proxy_connection
      else if c = CHR ''t'' then h_matching_transfer_encoding
      else if c = CHR ''u'' then h_matching_upgrade
      else h_general)"

definition do_header_field_start :: "'u run_env \<Rightarrow> 'u exec \<Rightarrow> 'u flow" where
  "do_header_field_start G x =
     (if xch x = CR then Next (update_state s_headers_almost_done x)
      else if xch x = LF then Again (update_state s_headers_almost_done x)
      else let c = TOKEN (xch x)
        in if c = NUL then fail HPE_INVALID_HEADER_TOKEN x
           else Next (upd (\<lambda>ps. ps\<lparr>index := 0, header_state := field_start_state c\<rparr>)
             (update_state s_header_field (set_mark M_header_field x))))"

text \<open>One more character against a name of which \<open>index\<close> characters matched: mismatch or completion.\<close>

definition match_next :: "string \<Rightarrow> char \<Rightarrow> header_states \<Rightarrow> header_states \<Rightarrow> http_parser \<Rightarrow> http_parser" where
  "match_next w c full other ps =
     (let ps = inc_index ps
      in if index ps > length w \<or> c \<noteq> str_at w (index ps) then ps\<lparr>header_state := other\<rparr>
         else if index ps = length w - 1 then ps\<lparr>header_state := full\<rparr>
         else ps)"

text \<open>One character of a field name, except in the general state; None for a failed assertion.\<close>

definition field_char :: "char \<Rightarrow> char \<Rightarrow> http_parser \<Rightarrow> http_parser option" where
  "field_char c ch ps =
     (case header_state ps of
        h_C \<Rightarrow> Some (inc_index ps\<lparr>header_state := (if c = CHR ''o'' then h_CO else h_general)\<rparr>)
      | h_CO \<Rightarrow> Some (inc_index ps\<lparr>header_state := (if c = CHR ''n'' then h_CON else h_general)\<rparr>)
      | h_CON \<Rightarrow> Some (inc_index ps\<lparr>header_state :=
          (if c = CHR ''n'' then h_matching_connection
           else if c = CHR ''t'' then h_matching_content_length else h_general)\<rparr>)
      | h_matching_connection \<Rightarrow> Some (match_next ''connection'' c h_connection h_general ps)
      | h_matching_proxy_connection \<Rightarrow> Some (match_next ''proxy-connection'' c h_connection h_general ps)
      | h_matching_content_length \<Rightarrow> Some (match_next ''content-length'' c h_content_length h_general ps)
      | h_matching_transfer_encoding \<Rightarrow>
          (let ps = match_next ''transfer-encoding'' c h_transfer_encoding h_general ps
           in Some (if header_state ps = h_transfer_encoding then ps\<lparr>uses_transfer_encoding := True\<rparr> else ps))
      | h_matching_upgrade \<Rightarrow> Some (match_next ''upgrade'' c h_upgrade h_general ps)
      | h_connection \<Rightarrow> Some (if ch \<noteq> CHR '' '' then ps\<lparr>header_state := h_general\<rparr> else ps)
      | h_content_length \<Rightarrow> Some (if ch \<noteq> CHR '' '' then ps\<lparr>header_state := h_general\<rparr> else ps)
      | h_transfer_encoding \<Rightarrow> Some (if ch \<noteq> CHR '' '' then ps\<lparr>header_state := h_general\<rparr> else ps)
      | h_upgrade \<Rightarrow> Some (if ch \<noteq> CHR '' '' then ps\<lparr>header_state := h_general\<rparr> else ps)
      | _ \<Rightarrow> None)"

text \<open>The inner loop of the general state skips token characters before \<open>pe\<close>.\<close>

function skip_tokens :: "string \<Rightarrow> nat \<Rightarrow> nat \<Rightarrow> nat" where
  "skip_tokens d pe i = (if i + 1 < pe \<and> TOKEN (d ! (i + 1)) \<noteq> NUL then skip_tokens d pe (i + 1) else i)"
  by pat_completeness auto
termination
  by (relation "measure (\<lambda>(d, pe, i). pe - i)") auto

declare skip_tokens.simps [simp del]

lemma skip_tokens_le: "i \<le> skip_tokens d pe i"
proof (induction d pe i rule: skip_tokens.induct)
  case (1 d pe i)
  then show ?case by (subst skip_tokens.simps) (auto intro: Suc_leD)
qed

definition field_skip :: "'u run_env \<Rightarrow> nat \<Rightarrow> nat" where
  "field_skip G i = skip_tokens (data G) (i + min (length (data G) - i) (max_header_size G)) i"

function field_loop :: "'u run_env \<Rightarrow> 'u exec \<Rightarrow> 'u exec option" where
  "field_loop G x =
     (if cur x \<ge> length (data G) then Some x
      else
        let x = x\<lparr>xch := data G ! cur x\<rparr>; c = TOKEN (xch x)
        in if c = NUL then Some x
           else if header_state (parser x) = h_general then field_loop G (x\<lparr>cur := field_skip G (cur x) + 1\<rparr>)
           else case field_char c (xch x) (parser x) of
               None \<Rightarrow> None
             | Some ps \<Rightarrow> field_loop G (x\<lparr>parser := ps, cur := cur x + 1\<rparr>))"
  by pat_completeness auto
termination
proof (relation "measure (\<lambda>(G, x). length (data G) - cur x)")
  fix G :: "'u run_env" and x xa :: "'u exec" and c
  assume "\<not> length (data G) \<le> cur x" "xa = x\<lparr>xch := data G ! cur x\<rparr>"
  then show "((G, xa\<lparr>cur := field_skip G (cur xa) + 1\<rparr>), (G, x)) \<in> measure (\<lambda>(G, x). length (data G) - cur x)"
    using skip_tokens_le [of "cur x"] by (simp add: field_skip_def less_Suc_eq_le diff_less_mono2)
qed auto

declare field_loop.simps [simp del]

definition do_header_field :: "'u run_env \<Rightarrow> 'u exec \<Rightarrow> 'u flow" where
  "do_header_field G x =
     (let start = cur x
      in case field_loop G x of
           None \<Rightarrow> Abort
         | Some x \<Rightarrow>
             if cur x = length (data G)
             then count_header_size G (cur x - 1 - start) Next (x\<lparr>cur := cur x - 1\<rparr>)
             else count_header_size G (cur x - start) (\<lambda>x.
               if xch x = CHR '':'' then callback_data G M_header_field Next (update_state s_header_value_discard_ws x)
               else fail HPE_INVALID_HEADER_TOKEN x) x)"

subsection \<open>Field values\<close>

text \<open>The first character of a value.\<close>

definition do_header_value_start :: "'u run_env \<Rightarrow> 'u exec \<Rightarrow> 'u flow" where
  "do_header_value_start G x =
     (let x = upd (\<lambda>ps. ps\<lparr>index := 0\<rparr>) (update_state s_header_value (set_mark M_header_value x));
          ch = xch x; c = LOWER ch;
          goto = (\<lambda>h. Next (upd (\<lambda>ps. ps\<lparr>header_state := h\<rparr>) x))
      in case header_state (parser x) of
           h_upgrade \<Rightarrow> Next (upd (\<lambda>ps. F_set F_UPGRADE ps\<lparr>header_state := h_general\<rparr>) x)
         | h_transfer_encoding \<Rightarrow>
             goto (if c = CHR ''c'' then h_matching_transfer_encoding_chunked else h_matching_transfer_encoding_token)
         | h_matching_transfer_encoding_token_start \<Rightarrow> Next x
         | h_content_length \<Rightarrow>
             (if \<not> IS_NUM ch then fail HPE_INVALID_CONTENT_LENGTH x
              else if F_has (parser x) F_CONTENTLENGTH then fail HPE_UNEXPECTED_CONTENT_LENGTH x
              else Next (upd (\<lambda>ps. (F_set F_CONTENTLENGTH ps)\<lparr>header_state := h_content_length_num, content_length := digit ch\<rparr>) x))
         | h_content_length_ws \<Rightarrow> Next x
         | h_connection \<Rightarrow>
             goto (if c = CHR ''k'' then h_matching_connection_keep_alive
                   else if c = CHR ''c'' then h_matching_connection_close
                   else if c = CHR ''u'' then h_matching_connection_upgrade
                   else h_matching_connection_token)
         | h_matching_connection_token_start \<Rightarrow> Next x
         | _ \<Rightarrow> goto h_general)"

definition do_header_value_discard_ws :: "'u run_env \<Rightarrow> 'u exec \<Rightarrow> 'u flow" where
  "do_header_value_discard_ws G x =
     (if xch x = CHR '' '' \<or> xch x = TAB then Next x
      else if xch x = CR then Next (update_state s_header_value_discard_ws_almost_done x)
      else if xch x = LF then Next (update_state s_header_value_discard_lws x)
      else do_header_value_start G x)"

text \<open>
  What the loop over a value does with a character: go on with a state and a run, or stop with an
  error. A word of a value is compared to \<open>w\<close> with the local state \<open>h_state\<close> of the loop.
\<close>

type_synonym 'u value_step = "('u exec + header_states \<times> 'u exec) option"

definition value_match :: "string \<Rightarrow> char \<Rightarrow> header_states \<Rightarrow> header_states \<Rightarrow> header_states \<Rightarrow> 'u exec \<Rightarrow> 'u value_step" where
  "value_match w c full other h_state x =
     (let x = upd inc_index x; i = index (parser x)
      in Some (Inr (if i > length w \<or> c \<noteq> str_at w i then other else if i = length w - 1 then full else h_state, x)))"

text \<open>The inner loop over ordinary values: up to a line end, a bad character, or \<open>pe\<close>.\<close>

function value_skip :: "'u run_env \<Rightarrow> nat \<Rightarrow> 'u exec \<Rightarrow> 'u exec + 'u exec" where
  "value_skip G pe x =
     (if cur x \<ge> pe then Inr x
      else
        let x = x\<lparr>xch := data G ! cur x\<rparr>
        in if xch x = CR \<or> xch x = LF then Inr (x\<lparr>cur := cur x - 1\<rparr>)
           else if \<not> lenient G \<and> \<not> IS_HEADER_CHAR (xch x) then Inl (set_errno HPE_INVALID_HEADER_TOKEN x)
           else value_skip G pe (x\<lparr>cur := cur x + 1\<rparr>))"
  by pat_completeness auto
termination
  by (relation "measure (\<lambda>(G, pe, x). pe - cur x)") auto

declare value_skip.simps [simp del]

definition value_general :: "'u run_env \<Rightarrow> 'u exec \<Rightarrow> 'u value_step" where
  "value_general G x =
     (case value_skip G (cur x + min (length (data G) - cur x) (max_header_size G)) x of
        Inl x \<Rightarrow> Some (Inl x)
      | Inr x \<Rightarrow> Some (Inr (h_general, if cur x = length (data G) then x\<lparr>cur := cur x - 1\<rparr> else x)))"

definition value_error :: "http_errno \<Rightarrow> header_states \<Rightarrow> 'u exec \<Rightarrow> 'u value_step" where
  "value_error e h_state x = Some (Inl (upd (\<lambda>ps. ps\<lparr>header_state := h_state\<rparr>) (set_errno e x)))"

definition value_content_length :: "'u exec \<Rightarrow> 'u value_step" where
  "value_content_length x =
     (let ch = xch x; h_state = h_content_length_num; n = content_length (parser x)
      in if ch = CHR '' '' then Some (Inr (h_content_length_ws, x))
         else if \<not> IS_NUM ch then value_error HPE_INVALID_CONTENT_LENGTH h_state x
         else if (ULLONG_MAX - 10) div 10 < n then value_error HPE_INVALID_CONTENT_LENGTH h_state x
         else Some (Inr (h_state, upd (\<lambda>ps. ps\<lparr>content_length := (n * 10 + digit ch) mod 2 ^ 64\<rparr>) x)))"

definition value_comma :: "header_states \<Rightarrow> header_states \<Rightarrow> 'u exec \<Rightarrow> 'u value_step" where
  "value_comma h_state start x =
     (if xch x = CHR '','' then Some (Inr (start, upd (\<lambda>ps. ps\<lparr>index := 0\<rparr>) x)) else Some (Inr (h_state, x)))"

definition value_connection_done :: "nat \<Rightarrow> header_states \<Rightarrow> 'u exec \<Rightarrow> 'u value_step" where
  "value_connection_done flag h_state x =
     (if xch x = CHR '','' then
        Some (Inr (h_matching_connection_token_start, upd (\<lambda>ps. ps\<lparr>index := 0\<rparr>) (upd (F_set flag) x)))
      else if xch x \<noteq> CHR '' '' then Some (Inr (h_matching_connection_token, x))
      else Some (Inr (h_state, x)))"

definition value_char :: "'u run_env \<Rightarrow> header_states \<Rightarrow> 'u exec \<Rightarrow> 'u value_step" where
  "value_char G h_state x =
     (let ch = xch x; c = LOWER ch; stay = Some (Inr (h_state, x)); goto = (\<lambda>h. Some (Inr (h, x)))
      in case h_state of
           h_general \<Rightarrow> value_general G x
         | h_connection \<Rightarrow> None
         | h_transfer_encoding \<Rightarrow> None
         | h_content_length \<Rightarrow> (if ch = CHR '' '' then stay else value_content_length x)
         | h_content_length_num \<Rightarrow> value_content_length x
         | h_content_length_ws \<Rightarrow>
             (if ch = CHR '' '' then stay else value_error HPE_INVALID_CONTENT_LENGTH h_state x)
         | h_matching_transfer_encoding_token_start \<Rightarrow>
             (if c = CHR ''c'' then goto h_matching_transfer_encoding_chunked
              else if STRICT_TOKEN c \<noteq> NUL then goto h_matching_transfer_encoding_token
              else if c = CHR '' '' \<or> c = TAB then stay
              else goto h_general)
         | h_matching_transfer_encoding_chunked \<Rightarrow>
             value_match ''chunked'' c h_transfer_encoding_chunked h_matching_transfer_encoding_token h_state x
         | h_matching_transfer_encoding_token \<Rightarrow> value_comma h_state h_matching_transfer_encoding_token_start x
         | h_matching_connection_token_start \<Rightarrow>
             (if c = CHR ''k'' then goto h_matching_connection_keep_alive
              else if c = CHR ''c'' then goto h_matching_connection_close
              else if c = CHR ''u'' then goto h_matching_connection_upgrade
              else if STRICT_TOKEN c \<noteq> NUL then goto h_matching_connection_token
              else if c = CHR '' '' \<or> c = TAB then stay
              else goto h_general)
         | h_matching_connection_keep_alive \<Rightarrow>
             value_match ''keep-alive'' c h_connection_keep_alive h_matching_connection_token h_state x
         | h_matching_connection_close \<Rightarrow>
             value_match ''close'' c h_connection_close h_matching_connection_token h_state x
         | h_matching_connection_upgrade \<Rightarrow>
             value_match ''upgrade'' c h_connection_upgrade h_matching_connection_token h_state x
         | h_matching_connection_token \<Rightarrow> value_comma h_state h_matching_connection_token_start x
         | h_transfer_encoding_chunked \<Rightarrow>
             (if ch \<noteq> CHR '' '' then goto h_matching_transfer_encoding_token else stay)
         | h_connection_keep_alive \<Rightarrow> value_connection_done F_CONNECTION_KEEP_ALIVE h_state x
         | h_connection_close \<Rightarrow> value_connection_done F_CONNECTION_CLOSE h_state x
         | h_connection_upgrade \<Rightarrow> value_connection_done F_CONNECTION_UPGRADE h_state x
         | _ \<Rightarrow> Some (Inr (h_general, update_state s_header_value x)))"

text \<open>The position never moves back over a character that is not a line end.\<close>

lemma value_skip_cur:
  "value_skip G pe x = Inr x' \<Longrightarrow> cur x - 1 \<le> cur x' \<and> (cur x \<ge> pe \<or> data G ! cur x \<notin> {CR, LF} \<longrightarrow> cur x \<le> cur x')"
proof (induction G pe x rule: value_skip.induct)
  case (1 G pe x)
  show ?case
    using 1(2) 1(1) [OF _ refl]
    by (subst (asm) value_skip.simps) (fastforce simp: Let_def split: if_splits)
qed

lemma value_char_cur:
  assumes "value_char G h x = Some (Inr (h', x'))" "cur x < length (data G)" "xch x = data G ! cur x" "xch x \<noteq> CR" "xch x \<noteq> LF"
  shows "cur x \<le> cur x'"
proof (cases "h = h_general")
  case True
  then obtain y where y: "value_skip G (cur x + min (length (data G) - cur x) (max_header_size G)) x = Inr y"
    "x' = (if cur y = length (data G) then y\<lparr>cur := cur y - 1\<rparr> else y)"
    using assms(1) by (auto simp: value_char_def value_general_def Let_def split: sum.splits)
  then show ?thesis
    using value_skip_cur [OF y(1)] assms(2-5) by auto
next
  case False
  then show ?thesis
    using assms(1)
    by (cases h) (auto simp: value_char_def value_content_length_def value_error_def value_match_def value_comma_def
        value_connection_done_def upd_def update_state_def Let_def split: if_splits)
qed

text \<open>The loop over a value that starts at \<open>start\<close>, with its local state.\<close>

definition value_end :: "'u run_env \<Rightarrow> nat \<Rightarrow> header_states \<Rightarrow> 'u exec \<Rightarrow> 'u flow" where
  "value_end G start h_state x =
     (let x = upd (\<lambda>ps. ps\<lparr>header_state := h_state\<rparr>) x;
          x = (if cur x = length (data G) then x\<lparr>cur := cur x - 1\<rparr> else x)
      in count_header_size G (cur x - start) Next x)"

function value_loop :: "'u run_env \<Rightarrow> nat \<Rightarrow> header_states \<Rightarrow> 'u exec \<Rightarrow> 'u flow" where
  "value_loop G start h_state x =
     (if cur x \<ge> length (data G) then value_end G start h_state x
      else
        let x = x\<lparr>xch := data G ! cur x\<rparr>
        in if xch x = CR then
             callback_data G M_header_value (value_end G start h_state)
               (upd (\<lambda>ps. ps\<lparr>header_state := h_state\<rparr>) (update_state s_header_almost_done x))
           else if xch x = LF then
             count_header_size G (cur x - start)
               (\<lambda>x. callback_data_noadvance G M_header_value Again (upd (\<lambda>ps. ps\<lparr>header_state := h_state\<rparr>) x))
               (update_state s_header_almost_done x)
           else if \<not> lenient G \<and> \<not> IS_HEADER_CHAR (xch x) then fail HPE_INVALID_HEADER_TOKEN x
           else case value_char G h_state x of
               None \<Rightarrow> Abort
             | Some r \<Rightarrow> (case r of
                   Inl x \<Rightarrow> Err x
                 | Inr p \<Rightarrow> value_loop G start (fst p) ((snd p)\<lparr>cur := cur (snd p) + 1\<rparr>)))"
  by pat_completeness auto
termination
proof (relation "measure (\<lambda>(G, start, h, x). length (data G) - cur x)")
  fix G :: "'u run_env" and start h and x xa :: "'u exec" and r p
  assume A: "\<not> length (data G) \<le> cur x" "xa = x\<lparr>xch := data G ! cur x\<rparr>" "xch xa \<noteq> CR" "xch xa \<noteq> LF"
    "value_char G h xa = Some r" "r = Inr p"
  have "cur xa \<le> cur (snd p)" using A by (intro value_char_cur [of G h xa "fst p"]) auto
  then show "((G, start, fst p, (snd p)\<lparr>cur := cur (snd p) + 1\<rparr>), (G, start, h, x))
      \<in> measure (\<lambda>(G, start, h, x). length (data G) - cur x)"
    using A(1,2) by auto
qed auto

declare value_loop.simps [simp del]

definition do_header_value :: "'u run_env \<Rightarrow> 'u exec \<Rightarrow> 'u flow" where
  "do_header_value G x = value_loop G (cur x) (header_state (parser x)) x"

subsection \<open>The ends of header lines\<close>

definition do_header_almost_done :: "'u run_env \<Rightarrow> 'u exec \<Rightarrow> 'u flow" where
  "do_header_almost_done G x =
     (if xch x \<noteq> LF then fail HPE_LF_EXPECTED x else Next (update_state s_header_value_lws x))"

text \<open>The flag that a finished value sets.\<close>

definition value_flag :: "http_parser \<Rightarrow> http_parser" where
  "value_flag ps =
     (case header_state ps of
        h_connection_keep_alive \<Rightarrow> F_set F_CONNECTION_KEEP_ALIVE ps
      | h_connection_close \<Rightarrow> F_set F_CONNECTION_CLOSE ps
      | h_transfer_encoding_chunked \<Rightarrow> F_set F_CHUNKED ps
      | h_connection_upgrade \<Rightarrow> F_set F_CONNECTION_UPGRADE ps
      | _ \<Rightarrow> ps)"

definition do_header_value_lws :: "'u run_env \<Rightarrow> 'u exec \<Rightarrow> 'u flow" where
  "do_header_value_lws G x =
     (if xch x = CHR '' '' \<or> xch x = TAB then
        Again (update_state s_header_value_start
          (if header_state (parser x) = h_content_length_num
           then upd (\<lambda>ps. ps\<lparr>header_state := h_content_length_ws\<rparr>) x else x))
      else Again (update_state s_header_field_start (upd value_flag x)))"

definition do_header_value_discard_lws :: "'u run_env \<Rightarrow> 'u exec \<Rightarrow> 'u flow" where
  "do_header_value_discard_lws G x =
     (if xch x = CHR '' '' \<or> xch x = TAB then Next (update_state s_header_value_discard_ws x)
      else if header_state (parser x) = h_content_length then fail HPE_INVALID_CONTENT_LENGTH x
      else callback_data_noadvance G M_header_value Again
        (update_state s_header_field_start (set_mark M_header_value (upd value_flag x))))"

end
