(* ===== verification/HttpMachine.thy ===== *)
theory HttpMachine
  imports HttpHeaders
begin

section \<open>http_parser_execute: end of headers, bodies, and the loop\<close>

text \<open>
  The cases after the last header line, the switch over the states, the loop over the bytes and the
  function itself. The code reexecutes a byte in another state without a bound, and callbacks may
  change the state, so the loops are partial functions: \<open>None\<close> stands for a call that does not return.
\<close>

subsection \<open>End of the headers\<close>

definition do_headers_complete :: "'u run_env \<Rightarrow> ('u exec \<Rightarrow> 'u flow) \<Rightarrow> 'u exec \<Rightarrow> 'u flow" where
  "do_headers_complete G k x =
     (case on_headers_complete (settings G) of None \<Rightarrow> k x
      | Some f \<Rightarrow>
          (let r = f (parser x) (udata x); x = x\<lparr>parser := fst (snd r), udata := snd (snd r)\<rparr>
           in if fst r = 0 then k x
              else if fst r = 2 then k (upd (F_set F_SKIPBODY) (upd (\<lambda>ps. ps\<lparr>upgrade := True\<rparr>) x))
              else if fst r = 1 then k (upd (F_set F_SKIPBODY) x)
              else return (cur x) (set_errno HPE_CB_headers_complete x)))"

definition length_conflict :: "'u run_env \<Rightarrow> http_parser \<Rightarrow> bool" where
  "length_conflict G ps \<longleftrightarrow> uses_transfer_encoding ps \<and> F_has ps F_CONTENTLENGTH \<and>
     (if F_has ps F_CHUNKED then \<not> chunked_length_ok G else \<not> lenient G)"

definition set_upgrade :: "http_parser \<Rightarrow> http_parser" where
  "set_upgrade ps = ps\<lparr>upgrade :=
     (if F_has ps F_UPGRADE \<and> F_has ps F_CONNECTION_UPGRADE
      then ptype ps = HTTP_REQUEST \<or> status_code ps = 101
      else method ps = HTTP_CONNECT)\<rparr>"

definition do_headers_almost_done :: "'u run_env \<Rightarrow> 'u exec \<Rightarrow> 'u flow" where
  "do_headers_almost_done G x = strict_check (xch x \<noteq> LF) x
     (if F_has (parser x) F_TRAILING then
        callback_notify (on_chunk_complete (settings G)) HPE_CB_chunk_complete (cur x) Again (update_state s_message_done x)
      else if length_conflict G (parser x) then fail HPE_UNEXPECTED_CONTENT_LENGTH x
      else do_headers_complete G
        (\<lambda>x. if http_errno (parser x) \<noteq> HPE_OK then return (cur x) x else Again x)
        (upd set_upgrade (update_state s_headers_done x)))"

definition message_complete :: "'u run_env \<Rightarrow> ('u exec \<Rightarrow> 'u flow) \<Rightarrow> 'u exec \<Rightarrow> 'u flow" where
  "message_complete G k x =
     callback_notify (on_message_complete (settings G)) HPE_CB_message_complete (cur x + 1) k
       (update_state (new_message (parser x)) x)"

definition has_body :: "http_parser \<Rightarrow> bool" where
  "has_body ps \<longleftrightarrow> F_has ps F_CHUNKED \<or> content_length ps > 0 \<and> content_length ps \<noteq> ULLONG_MAX"

definition do_headers_done :: "'u run_env \<Rightarrow> 'u exec \<Rightarrow> 'u flow" where
  "do_headers_done G x = strict_check (xch x \<noteq> LF) x
     (let x = (upd (\<lambda>ps. ps\<lparr>nread := 0\<rparr>) x)\<lparr>l_nread := 0\<rparr>; ps = parser x
      in if upgrade ps \<and> (method ps = HTTP_CONNECT \<or> F_has ps F_SKIPBODY \<or> \<not> has_body ps)
         then message_complete G (\<lambda>x. return (cur x + 1) x) x
         else if F_has ps F_SKIPBODY then message_complete G Next x
         else if F_has ps F_CHUNKED then Next (update_state s_chunk_size_start x)
         else if uses_transfer_encoding ps then
           (if ptype ps = HTTP_REQUEST \<and> \<not> lenient G
            then return (cur x) (set_errno HPE_INVALID_TRANSFER_ENCODING x)
            else Next (update_state s_body_identity_eof x))
         else if content_length ps = 0 then message_complete G Next x
         else if content_length ps \<noteq> ULLONG_MAX then Next (update_state s_body_identity x)
         else if \<not> http_message_needs_eof ps then message_complete G Next x
         else Next (update_state s_body_identity_eof x))"

subsection \<open>Bodies\<close>

text \<open>Taking as much of the body as the buffer has; the position stays on the last byte taken.\<close>

definition take_body :: "'u run_env \<Rightarrow> 'u exec \<Rightarrow> 'u exec" where
  "take_body G x =
     (let to_read = min (content_length (parser x)) (length (data G) - cur x)
      in (upd (\<lambda>ps. ps\<lparr>content_length := content_length ps - to_read\<rparr>) (set_mark M_body x))\<lparr>cur := cur x + to_read - 1\<rparr>)"

definition do_body_identity :: "'u run_env \<Rightarrow> 'u exec \<Rightarrow> 'u flow" where
  "do_body_identity G x =
     (if content_length (parser x) = 0 \<or> content_length (parser x) = ULLONG_MAX then Abort
      else let x = take_body G x
        in if content_length (parser x) = 0
           then callback_data_len G M_body 1 (cur x) Again (update_state s_message_done x)
           else Next x)"

definition do_body_identity_eof :: "'u run_env \<Rightarrow> 'u exec \<Rightarrow> 'u flow" where
  "do_body_identity_eof G x = Next ((set_mark M_body x)\<lparr>cur := length (data G) - 1\<rparr>)"

definition do_message_done :: "'u run_env \<Rightarrow> 'u exec \<Rightarrow> 'u flow" where
  "do_message_done G x = message_complete G (\<lambda>x. if upgrade (parser x) then return (cur x + 1) x else Next x) x"

text \<open>The cases of chunks assert that the message is chunked.\<close>

definition assert_chunked :: "'u exec \<Rightarrow> 'u flow \<Rightarrow> 'u flow" where
  "assert_chunked x r = (if F_has (parser x) F_CHUNKED then r else Abort)"

definition do_chunk_size_start :: "'u run_env \<Rightarrow> 'u exec \<Rightarrow> 'u flow" where
  "do_chunk_size_start G x =
     (if l_nread x \<noteq> 1 then Abort
      else assert_chunked x
        (let v = unhex_at (xch x)
         in if v = -1 then fail HPE_INVALID_CHUNK_SIZE x
            else Next (update_state s_chunk_size (upd (\<lambda>ps. ps\<lparr>content_length := nat v\<rparr>) x))))"

definition do_chunk_size :: "'u run_env \<Rightarrow> 'u exec \<Rightarrow> 'u flow" where
  "do_chunk_size G x = assert_chunked x
     (let v = unhex_at (xch x); n = content_length (parser x)
      in if xch x = CR then Next (update_state s_chunk_size_almost_done x)
         else if v = -1 then
           (if xch x = CHR '';'' \<or> xch x = CHR '' '' then Next (update_state s_chunk_parameters x)
            else fail HPE_INVALID_CHUNK_SIZE x)
         else if (ULLONG_MAX - 16) div 16 < n then fail HPE_INVALID_CONTENT_LENGTH x
         else Next (upd (\<lambda>ps. ps\<lparr>content_length := (n * 16 + nat v) mod 2 ^ 64\<rparr>) x))"

definition do_chunk_parameters :: "'u run_env \<Rightarrow> 'u exec \<Rightarrow> 'u flow" where
  "do_chunk_parameters G x = assert_chunked x
     (if xch x = CR then Next (update_state s_chunk_size_almost_done x) else Next x)"

definition do_chunk_size_almost_done :: "'u run_env \<Rightarrow> 'u exec \<Rightarrow> 'u flow" where
  "do_chunk_size_almost_done G x = assert_chunked x (strict_check (xch x \<noteq> LF) x
     (let x = (upd (\<lambda>ps. ps\<lparr>nread := 0\<rparr>) x)\<lparr>l_nread := 0\<rparr>;
          x = (if content_length (parser x) = 0 then update_state s_header_field_start (upd (F_set F_TRAILING) x)
               else update_state s_chunk_data x)
      in callback_notify (on_chunk_header (settings G)) HPE_CB_chunk_header (cur x + 1) Next x))"

definition do_chunk_data :: "'u run_env \<Rightarrow> 'u exec \<Rightarrow> 'u flow" where
  "do_chunk_data G x = assert_chunked x
     (if content_length (parser x) = 0 \<or> content_length (parser x) = ULLONG_MAX then Abort
      else let x = take_body G x
        in Next (if content_length (parser x) = 0 then update_state s_chunk_data_almost_done x else x))"

definition do_chunk_data_almost_done :: "'u run_env \<Rightarrow> 'u exec \<Rightarrow> 'u flow" where
  "do_chunk_data_almost_done G x = assert_chunked x
     (if content_length (parser x) \<noteq> 0 then Abort
      else strict_check (xch x \<noteq> CR) x (callback_data G M_body Next (update_state s_chunk_data_done x)))"

definition do_chunk_data_done :: "'u run_env \<Rightarrow> 'u exec \<Rightarrow> 'u flow" where
  "do_chunk_data_done G x = assert_chunked x (strict_check (xch x \<noteq> LF) x
     (let x = (upd (\<lambda>ps. ps\<lparr>nread := 0\<rparr>) x)\<lparr>l_nread := 0\<rparr>
      in callback_notify (on_chunk_complete (settings G)) HPE_CB_chunk_complete (cur x + 1) Next
           (update_state s_chunk_size_start x)))"

subsection \<open>The switch and the loop\<close>

definition exec_state :: "'u run_env \<Rightarrow> 'u exec \<Rightarrow> 'u flow" where
  "exec_state G x = (case p_state x of
      s_dead \<Rightarrow> do_dead G x
    | s_start_req_or_res \<Rightarrow> do_start_req_or_res G x
    | s_res_or_resp_H \<Rightarrow> do_res_or_resp_H G x
    | s_start_res \<Rightarrow> do_start_res G x
    | s_res_H \<Rightarrow> do_expect CHR ''T'' s_res_HT x
    | s_res_HT \<Rightarrow> do_expect CHR ''T'' s_res_HTT x
    | s_res_HTT \<Rightarrow> do_expect CHR ''P'' s_res_HTTP x
    | s_res_HTTP \<Rightarrow> do_expect CHR ''/'' s_res_http_major x
    | s_res_http_major \<Rightarrow> do_http_major s_res_http_dot x
    | s_res_http_dot \<Rightarrow> do_http_dot s_res_http_minor x
    | s_res_http_minor \<Rightarrow> do_http_minor s_res_http_end x
    | s_res_http_end \<Rightarrow> do_res_http_end G x
    | s_res_first_status_code \<Rightarrow> do_res_first_status_code G x
    | s_res_status_code \<Rightarrow> do_res_status_code G x
    | s_res_status_start \<Rightarrow> do_res_status_start G x
    | s_res_status \<Rightarrow> do_res_status G x
    | s_res_line_almost_done \<Rightarrow> do_expect LF s_header_field_start x
    | s_start_req \<Rightarrow> do_start_req G x
    | s_req_method \<Rightarrow> do_req_method G x
    | s_req_spaces_before_url \<Rightarrow> do_req_spaces_before_url G x
    | s_req_schema \<Rightarrow> do_req_schema G x
    | s_req_schema_slash \<Rightarrow> do_req_schema G x
    | s_req_schema_slash_slash \<Rightarrow> do_req_schema G x
    | s_req_server_start \<Rightarrow> do_req_schema G x
    | s_req_server \<Rightarrow> do_req_url G x
    | s_req_server_with_at \<Rightarrow> do_req_url G x
    | s_req_path \<Rightarrow> do_req_url G x
    | s_req_query_string_start \<Rightarrow> do_req_url G x
    | s_req_query_string \<Rightarrow> do_req_url G x
    | s_req_fragment_start \<Rightarrow> do_req_url G x
    | s_req_fragment \<Rightarrow> do_req_url G x
    | s_req_http_start \<Rightarrow> do_req_http_start G x
    | s_req_http_H \<Rightarrow> do_expect CHR ''T'' s_req_http_HT x
    | s_req_http_HT \<Rightarrow> do_expect CHR ''T'' s_req_http_HTT x
    | s_req_http_HTT \<Rightarrow> do_expect CHR ''P'' s_req_http_HTTP x
    | s_req_http_HTTP \<Rightarrow> do_expect CHR ''/'' s_req_http_major x
    | s_req_http_I \<Rightarrow> do_expect CHR ''C'' s_req_http_IC x
    | s_req_http_IC \<Rightarrow> do_expect CHR ''E'' s_req_http_HTTP x
    | s_req_http_major \<Rightarrow> do_http_major s_req_http_dot x
    | s_req_http_dot \<Rightarrow> do_http_dot s_req_http_minor x
    | s_req_http_minor \<Rightarrow> do_http_minor s_req_http_end x
    | s_req_http_end \<Rightarrow> do_req_http_end G x
    | s_req_line_almost_done \<Rightarrow> do_req_line_almost_done G x
    | s_header_field_start \<Rightarrow> do_header_field_start G x
    | s_header_field \<Rightarrow> do_header_field G x
    | s_header_value_discard_ws \<Rightarrow> do_header_value_discard_ws G x
    | s_header_value_discard_ws_almost_done \<Rightarrow> do_expect LF s_header_value_discard_lws x
    | s_header_value_discard_lws \<Rightarrow> do_header_value_discard_lws G x
    | s_header_value_start \<Rightarrow> do_header_value_start G x
    | s_header_value \<Rightarrow> do_header_value G x
    | s_header_value_lws \<Rightarrow> do_header_value_lws G x
    | s_header_almost_done \<Rightarrow> do_header_almost_done G x
    | s_chunk_size_start \<Rightarrow> do_chunk_size_start G x
    | s_chunk_size \<Rightarrow> do_chunk_size G x
    | s_chunk_parameters \<Rightarrow> do_chunk_parameters G x
    | s_chunk_size_almost_done \<Rightarrow> do_chunk_size_almost_done G x
    | s_headers_almost_done \<Rightarrow> do_headers_almost_done G x
    | s_headers_done \<Rightarrow> do_headers_done G x
    | s_chunk_data \<Rightarrow> do_chunk_data G x
    | s_chunk_data_almost_done \<Rightarrow> do_chunk_data_almost_done G x
    | s_chunk_data_done \<Rightarrow> do_chunk_data_done G x
    | s_body_identity \<Rightarrow> do_body_identity G x
    | s_body_identity_eof \<Rightarrow> do_body_identity_eof G x
    | s_message_done \<Rightarrow> do_message_done G x)"

partial_function (option) reexecute :: "'u run_env \<Rightarrow> 'u exec \<Rightarrow> 'u flow option" where
  "reexecute G x =
     (case exec_state G x of
        Again x \<Rightarrow> reexecute G x
      | Next x \<Rightarrow> Some (Next x) | Err x \<Rightarrow> Some (Err x) | Ret n x \<Rightarrow> Some (Ret n x) | Abort \<Rightarrow> Some Abort)"

text \<open>After the last byte: at most one piece of text is owed, and delivered.\<close>

definition exec_end :: "'u run_env \<Rightarrow> 'u exec \<Rightarrow> 'u flow" where
  "exec_end G x =
     (if length (filter (\<lambda>m. marks x m \<noteq> None) [M_header_field, M_header_value, M_url, M_body, M_status]) > 1
      then Abort
      else callback_data_noadvance G M_header_field
          (callback_data_noadvance G M_header_value
            (callback_data_noadvance G M_url
              (callback_data_noadvance G M_body
                (callback_data_noadvance G M_status (return (length (data G))))))) x)"

definition exec_error :: "'u exec \<Rightarrow> 'u flow" where
  "exec_error x = return (cur x) (if http_errno (parser x) = HPE_OK then set_errno HPE_UNKNOWN x else x)"

partial_function (option) exec_bytes :: "'u run_env \<Rightarrow> 'u exec \<Rightarrow> 'u flow option" where
  "exec_bytes G x =
     (if cur x = length (data G) then Some (exec_end G x)
      else
        (let x = x\<lparr>xch := data G ! cur x\<rparr>
         in case (if parsing_header (p_state x) then count_header_size G 1 Next x else Next x) of
              Next x \<Rightarrow>
                (case reexecute G x of None \<Rightarrow> None
                 | Some r \<Rightarrow>
                     (case r of Next x \<Rightarrow> exec_bytes G (x\<lparr>cur := cur x + 1\<rparr>)
                      | Err x \<Rightarrow> Some (exec_error x)
                      | Again x \<Rightarrow> Some Abort | Ret n x \<Rightarrow> Some (Ret n x) | Abort \<Rightarrow> Some Abort))
            | Err x \<Rightarrow> Some (exec_error x)
            | Again x \<Rightarrow> Some Abort | Ret n x \<Rightarrow> Some (Ret n x) | Abort \<Rightarrow> Some Abort))"

text \<open>The marks at the start: the text of a piece goes on in a new buffer.\<close>

definition first_marks :: "state \<Rightarrow> mark \<Rightarrow> nat option" where
  "first_marks s m = (case m of
      M_header_field \<Rightarrow> if s = s_header_field then Some 0 else None
    | M_header_value \<Rightarrow> if s = s_header_value then Some 0 else None
    | M_url \<Rightarrow> if s \<in> {s_req_path, s_req_schema, s_req_schema_slash, s_req_schema_slash_slash, s_req_server_start,
          s_req_server, s_req_server_with_at, s_req_query_string_start, s_req_query_string,
          s_req_fragment_start, s_req_fragment} then Some 0 else None
    | M_body \<Rightarrow> None
    | M_status \<Rightarrow> if s = s_res_status then Some 0 else None)"

definition start_run :: "http_parser \<Rightarrow> 'u \<Rightarrow> 'u exec" where
  "start_run ps u = \<lparr>parser = ps, udata = u, p_state = state ps, l_nread = nread ps, cur = 0, xch = NUL,
     marks = first_marks (state ps)\<rparr>"

definition run_env_of :: "'u http_parser_settings \<Rightarrow> nat \<Rightarrow> http_parser \<Rightarrow> string \<Rightarrow> 'u run_env" where
  "run_env_of S limit ps d = \<lparr>settings = S, data = d, max_header_size = limit,
     lenient = lenient_http_headers ps, chunked_length_ok = allow_chunked_length ps\<rparr>"

text \<open>
  The call: the outcome is \<open>Ret\<close> with the number of bytes and the final parser and user data, or
  \<open>Abort\<close>. The limit is the static variable that \<open>http_parser_set_max_header_size\<close> sets.
\<close>

definition http_parser_execute ::
  "'u http_parser_settings \<Rightarrow> nat \<Rightarrow> http_parser \<Rightarrow> 'u \<Rightarrow> string \<Rightarrow> 'u flow option" where
  "http_parser_execute S limit ps u d =
     (let G = run_env_of S limit ps d; x = start_run ps u
      in if http_errno ps \<noteq> HPE_OK then Some (Ret 0 x)
         else if d = [] then
           Some (if state ps = s_body_identity_eof
                 then callback_notify (on_message_complete S) HPE_CB_message_complete 0 (Ret 0) x
                 else if state ps \<in> {s_dead, s_start_req_or_res, s_start_res, s_start_req} then Ret 0 x
                 else Ret 1 (set_errno HPE_INVALID_EOF_STATE x))
         else exec_bytes G x)"

definition http_parser_set_max_header_size :: "u32 \<Rightarrow> nat" where
  "http_parser_set_max_header_size n = unat n"

end
