(* ===== verification/HttpSafe.thy ===== *)
theory HttpSafe
  imports HttpMachine
begin

section \<open>Safety and termination of the HTTP parser\<close>

text \<open>
  What holds of the parser between two bytes, and that every case of the machine keeps it: no
  assertion of the code fails, no text is read past the end of a string, the position stays in the
  buffer, and the jumps back to the switch come to an end. The callbacks may fail and may do
  anything to the user's data, but they leave the parser alone.
\<close>

named_theorems http_ok

subsection \<open>Callbacks that leave the parser alone\<close>

definition keeps_cb :: "'u http_cb option \<Rightarrow> bool" where
  "keeps_cb f \<longleftrightarrow> (\<forall>g ps u. f = Some g \<longrightarrow> fst (snd (g ps u)) = ps)"

definition keeps_data_cb :: "'u http_data_cb option \<Rightarrow> bool" where
  "keeps_data_cb f \<longleftrightarrow> (\<forall>g ps t u. f = Some g \<longrightarrow> fst (snd (g ps t u)) = ps)"

definition keeps_parser :: "'u http_parser_settings \<Rightarrow> bool" where
  "keeps_parser S \<longleftrightarrow> keeps_cb (on_message_begin S) \<and> keeps_cb (on_headers_complete S) \<and>
     keeps_cb (on_message_complete S) \<and> keeps_cb (on_chunk_header S) \<and> keeps_cb (on_chunk_complete S) \<and>
     (\<forall>m. keeps_data_cb (data_callback m S))"

lemma all_marks: "(\<forall>m. P m) \<longleftrightarrow> P M_header_field \<and> P M_header_value \<and> P M_url \<and> P M_body \<and> P M_status"
  by (metis mark.exhaust)

text \<open>After a callback the parser holds the current state and the user's data may be new.\<close>

definition sync :: "'u \<Rightarrow> 'u exec \<Rightarrow> 'u exec" where
  "sync u x = x\<lparr>parser := (parser x)\<lparr>state := p_state x\<rparr>, udata := u\<rparr>"

subsection \<open>What holds between two bytes\<close>

text \<open>The piece of text that a state is in the middle of.\<close>

definition state_mark :: "state \<Rightarrow> mark option" where
  "state_mark s =
     (if s = s_header_field then Some M_header_field
      else if s = s_header_value then Some M_header_value
      else if s \<in> {s_req_path, s_req_schema, s_req_schema_slash, s_req_schema_slash_slash, s_req_server_start,
          s_req_server, s_req_server_with_at, s_req_query_string_start, s_req_query_string,
          s_req_fragment_start, s_req_fragment} then Some M_url
      else if s \<in> {s_chunk_data, s_chunk_data_almost_done, s_body_identity, s_body_identity_eof} then Some M_body
      else if s = s_res_status then Some M_status
      else None)"

definition marks_ok :: "state \<Rightarrow> nat \<Rightarrow> (mark \<Rightarrow> nat option) \<Rightarrow> bool" where
  "marks_ok s c mk \<longleftrightarrow> (\<forall>m a. mk m = Some a \<longrightarrow> state_mark s = Some m \<and> a \<le> c)"

definition field_states :: "header_states set" where
  "field_states = {h_general, h_C, h_CO, h_CON, h_matching_connection, h_matching_proxy_connection,
     h_matching_content_length, h_matching_transfer_encoding, h_matching_upgrade,
     h_connection, h_content_length, h_transfer_encoding, h_upgrade}"

text \<open>What a state asks of the parser; \<open>k\<close> is the header count at the start of a chunk.\<close>

definition state_ok :: "nat \<Rightarrow> state \<Rightarrow> nat \<Rightarrow> http_parser \<Rightarrow> bool" where
  "state_ok k s n ps =
     (if s = s_req_method then index ps \<le> length (method_strings ! method_code (method ps))
      else if s = s_header_field then header_state ps \<in> field_states
      else if s = s_header_value then header_state ps \<notin> {h_connection, h_transfer_encoding}
      else if s = s_chunk_size_start then F_has ps F_CHUNKED \<and> n = k
      else if s \<in> {s_chunk_size, s_chunk_parameters, s_chunk_size_almost_done} then
        F_has ps F_CHUNKED \<and> content_length ps < ULLONG_MAX
      else if s = s_chunk_data then F_has ps F_CHUNKED \<and> 0 < content_length ps \<and> content_length ps < ULLONG_MAX
      else if s = s_chunk_data_almost_done then F_has ps F_CHUNKED \<and> content_length ps = 0
      else if s = s_chunk_data_done then F_has ps F_CHUNKED
      else if s = s_body_identity then 0 < content_length ps \<and> content_length ps < ULLONG_MAX
      else True)"

definition parser_ok :: "nat \<Rightarrow> http_parser \<Rightarrow> bool" where
  "parser_ok limit ps \<longleftrightarrow> http_errno ps \<noteq> HPE_OK \<or>
     state_ok 0 (state ps) (nread ps) ps \<and> nread ps \<le> limit \<and> content_length ps \<le> ULLONG_MAX"

definition run_ok :: "nat \<Rightarrow> 'u run_env \<Rightarrow> 'u exec \<Rightarrow> bool" where
  "run_ok k G x \<longleftrightarrow> http_errno (parser x) = HPE_OK \<and> l_nread x \<le> max_header_size G \<and>
     content_length (parser x) \<le> ULLONG_MAX \<and> marks_ok (p_state x) (cur x) (marks x) \<and>
     state_ok k (p_state x) (l_nread x) (parser x)"

text \<open>How often a state may still jump back to the switch with the same byte.\<close>

definition again_rank :: "state \<Rightarrow> nat" where
  "again_rank s =
     (if s \<in> {s_header_value_lws, s_header_value_discard_lws} then 3
      else if s \<in> {s_header_field_start, s_res_status_code} then 2
      else if s \<in> {s_start_req_or_res, s_res_status_start, s_headers_almost_done, s_header_value, s_body_identity} then 1
      else 0)"

definition flow_ok :: "'u run_env \<Rightarrow> nat \<Rightarrow> nat \<Rightarrow> 'u flow \<Rightarrow> bool" where
  "flow_ok G c r f = (case f of
      Next y \<Rightarrow> run_ok 0 G y \<and> c \<le> cur y \<and> cur y < length (data G)
    | Again y \<Rightarrow> run_ok 1 G y \<and> c \<le> cur y \<and> cur y < length (data G) \<and> again_rank (p_state y) < r
    | Err y \<Rightarrow> cur y \<le> length (data G)
    | Ret n y \<Rightarrow> n \<le> length (data G) \<and>
        (http_errno (parser y) \<noteq> HPE_OK \<or> upgrade (parser y) \<and> parser_ok (max_header_size G) (parser y))
    | Abort \<Rightarrow> False)"

lemma flow_ok_simps [simp]:
  "flow_ok G c r (Next y) \<longleftrightarrow> run_ok 0 G y \<and> c \<le> cur y \<and> cur y < length (data G)"
  "flow_ok G c r (Again y) \<longleftrightarrow> run_ok 1 G y \<and> c \<le> cur y \<and> cur y < length (data G) \<and> again_rank (p_state y) < r"
  "flow_ok G c r (Err y) \<longleftrightarrow> cur y \<le> length (data G)"
  "flow_ok G c r (Ret n y) \<longleftrightarrow> n \<le> length (data G) \<and>
     (http_errno (parser y) \<noteq> HPE_OK \<or> upgrade (parser y) \<and> parser_ok (max_header_size G) (parser y))"
  "\<not> flow_ok G c r Abort"
  by (simp_all add: flow_ok_def)

text \<open>How a run ends: with a return; without an error all bytes were taken, unless the protocol changes.\<close>

definition ends_ok :: "'u run_env \<Rightarrow> 'u flow \<Rightarrow> bool" where
  "ends_ok G f \<longleftrightarrow> (\<exists>n y. f = Ret n y \<and> n \<le> length (data G) \<and> parser_ok (max_header_size G) (parser y) \<and>
     (http_errno (parser y) = HPE_OK \<longrightarrow> n = length (data G) \<or> upgrade (parser y)))"

lemma ends_ok_error: "n \<le> length (data G) \<Longrightarrow> http_errno (parser y) \<noteq> HPE_OK \<Longrightarrow> ends_ok G (Ret n y)"
  by (simp add: ends_ok_def parser_ok_def)

text \<open>What holds when the bytes are used up, in between the last callbacks.\<close>

definition end_ok :: "'u run_env \<Rightarrow> 'u exec \<Rightarrow> bool" where
  "end_ok G x \<longleftrightarrow> http_errno (parser x) = HPE_OK \<and> l_nread x \<le> max_header_size G \<and>
     content_length (parser x) \<le> ULLONG_MAX \<and> cur x = length (data G) \<and> state_ok 0 (p_state x) (l_nread x) (parser x)"

subsection \<open>The macros\<close>

lemma exec_macro_simps [simp]:
  "parser (upd f x) = f (parser x)" "p_state (upd f x) = p_state x" "cur (upd f x) = cur x"
  "marks (upd f x) = marks x" "l_nread (upd f x) = l_nread x" "xch (upd f x) = xch x" "udata (upd f x) = udata x"
  "parser (update_state s x) = parser x" "p_state (update_state s x) = s" "cur (update_state s x) = cur x"
  "marks (update_state s x) = marks x" "l_nread (update_state s x) = l_nread x" "xch (update_state s x) = xch x"
  "udata (update_state s x) = udata x"
  "parser (set_mark m x) = parser x" "p_state (set_mark m x) = p_state x" "cur (set_mark m x) = cur x"
  "l_nread (set_mark m x) = l_nread x" "xch (set_mark m x) = xch x" "udata (set_mark m x) = udata x"
  "marks (set_mark m x) = (if marks x m = None then (marks x)(m := Some (cur x)) else marks x)"
  "parser (clear_mark m x) = parser x" "p_state (clear_mark m x) = p_state x" "cur (clear_mark m x) = cur x"
  "l_nread (clear_mark m x) = l_nread x" "xch (clear_mark m x) = xch x" "udata (clear_mark m x) = udata x"
  "marks (clear_mark m x) = (marks x)(m := None)"
  "parser (sync u x) = (parser x)\<lparr>state := p_state x\<rparr>" "p_state (sync u x) = p_state x" "cur (sync u x) = cur x"
  "l_nread (sync u x) = l_nread x" "xch (sync u x) = xch x" "udata (sync u x) = u" "marks (sync u x) = marks x"
  "http_errno (parser (set_errno e x)) = e" "cur (set_errno e x) = cur x" "udata (set_errno e x) = udata x"
  by (simp_all add: upd_def update_state_def set_mark_def clear_mark_def sync_def set_errno_def)

lemma state_ok_sync [simp]: "state_ok k s n (ps\<lparr>state := t\<rparr>) = state_ok k s n ps"
  by (simp add: state_ok_def F_has_def)

lemma state_ok_nread: "state_ok k s n (ps\<lparr>nread := m\<rparr>) = state_ok k s n ps"
  by (simp add: state_ok_def F_has_def)

lemma state_ok_count: "s \<noteq> s_chunk_size_start \<Longrightarrow> state_ok k s n ps = state_ok 0 s 0 ps"
  by (cases s) (simp_all add: state_ok_def)

lemma run_ok_sync [simp]: "run_ok k G (sync u x) = run_ok k G x"
  by (simp add: run_ok_def)

lemma marks_ok_none: "state_mark s = None \<Longrightarrow> marks_ok s c mk \<longleftrightarrow> mk = (\<lambda>_. None)"
  by (auto simp: marks_ok_def fun_eq_iff split: option.splits)

lemma marks_ok_empty [simp]: "marks_ok s c (\<lambda>_. None)"
  by (simp add: marks_ok_def)

lemma marks_ok_state: "marks_ok s c mk \<Longrightarrow> mk m = Some a \<Longrightarrow> state_mark s = Some m"
  by (simp add: marks_ok_def)

lemma marks_ok_clear: "marks_ok s c mk \<Longrightarrow> state_mark s = Some m \<Longrightarrow> mk(m := None) = (\<lambda>_. None)"
proof (rule ext)
  fix m' assume "marks_ok s c mk" "state_mark s = Some m"
  then show "(mk(m := None)) m' = None" unfolding marks_ok_def by (metis fun_upd_apply not_None_eq option.inject)
qed

lemma marks_ok_mono: "marks_ok s c mk \<Longrightarrow> state_mark t = state_mark s \<Longrightarrow> c \<le> c' \<Longrightarrow> marks_ok t c' mk"
  by (fastforce simp: marks_ok_def)

lemma marks_ok_set:
  assumes "marks_ok s c mk" "state_mark s = Some m \<or> mk = (\<lambda>_. None)" "state_mark t = Some m" "c \<le> c'"
  shows "marks_ok t c' (if mk m = None then mk(m := Some c) else mk)"
proof (cases "mk = (\<lambda>_. None)")
  case True
  then show ?thesis using assms(3,4) by (simp add: marks_ok_def)
next
  case False
  then obtain m' a where a: "mk m' = Some a" by (auto simp: fun_eq_iff)
  then have "mk m \<noteq> None" using assms(1,2) False by (auto simp: marks_ok_def)
  then show ?thesis using marks_ok_mono [OF assms(1) _ assms(4)] assms(2,3) False by auto
qed

lemma marks_ok_single: "state_mark t = Some m \<Longrightarrow> c \<le> c' \<Longrightarrow> marks_ok t c' ((\<lambda>_. None)(m := Some c))"
  by (auto simp: marks_ok_def split: if_splits)

lemma flow_ok_fail [simp]: "flow_ok G c r (fail e x) \<longleftrightarrow> cur x \<le> length (data G)"
  by (simp add: fail_def)

lemma flow_ok_return_error [simp]:
  "http_errno (parser x) \<noteq> HPE_OK \<Longrightarrow> flow_ok G c r (return n x) \<longleftrightarrow> n \<le> length (data G)"
  by (simp add: return_def)

lemma flow_ok_strict_check [simp]:
  "flow_ok G c r (strict_check bad x f) \<longleftrightarrow> (if bad then cur x \<le> length (data G) else flow_ok G c r f)"
  by (simp add: strict_check_def)

lemma flow_ok_count:
  assumes "cur x \<le> length (data G)"
    and "\<And>n. n \<le> max_header_size G \<Longrightarrow> n = (l_nread x + v) mod 2 ^ 32 \<Longrightarrow> flow_ok G c r (k (x\<lparr>l_nread := n\<rparr>))"
  shows "flow_ok G c r (count_header_size G v k x)"
  using assms by (simp add: count_header_size_def Let_def)

lemma callback_result_keeps:
  "fst (snd p) = (parser x)\<lparr>state := p_state x\<rparr> \<Longrightarrow> http_errno (parser x) = HPE_OK \<Longrightarrow> fst p = 0 \<Longrightarrow>
     callback_result e er k (upd (\<lambda>ps. ps\<lparr>state := p_state x\<rparr>) x) p = k (sync (snd (snd p)) x)"
  by (simp add: callback_result_def Let_def sync_def upd_def update_state_def)

lemma callback_notify_cases:
  assumes "keeps_cb f" "http_errno (parser x) = HPE_OK" "e \<noteq> HPE_OK"
  obtains u where "callback_notify f e er k x = k (sync u x)"
  | "callback_notify f e er k x = k x"
  | z where "callback_notify f e er k x = Ret er z" "http_errno (parser z) \<noteq> HPE_OK"
proof (cases f)
  case None
  then show ?thesis using that(2) assms by (simp add: callback_notify_def)
next
  case (Some g)
  define p where "p = g ((parser x)\<lparr>state := p_state x\<rparr>) (udata x)"
  have E: "callback_notify f e er k x = callback_result e er k (upd (\<lambda>ps. ps\<lparr>state := p_state x\<rparr>) x) p"
    using Some assms(2) by (simp add: callback_notify_def Let_def p_def)
  have P: "fst (snd p) = (parser x)\<lparr>state := p_state x\<rparr>" using assms(1) Some by (auto simp: keeps_cb_def p_def)
  show ?thesis
  proof (cases "fst p = 0")
    case True
    then show ?thesis using that(1) callback_result_keeps [OF P assms(2)] E by simp
  next
    case False
    then show ?thesis using that(3) assms(3) E by (simp add: callback_result_def Let_def)
  qed
qed

lemma flow_ok_notify:
  assumes "keeps_cb f" "http_errno (parser x) = HPE_OK" "e \<noteq> HPE_OK" "er \<le> length (data G)"
    and k: "\<And>u. flow_ok G c r (k (sync u x))" "flow_ok G c r (k x)"
  shows "flow_ok G c r (callback_notify f e er k x)"
  by (cases rule: callback_notify_cases [OF assms(1-3), of er k]) (use assms(4-6) in simp_all)

lemma callback_data_cases:
  assumes "keeps_data_cb (data_callback m (settings G))" "http_errno (parser x) = HPE_OK"
  obtains u where "callback_data_len G m extra er k x = k (clear_mark m (sync u x))"
  | "callback_data_len G m extra er k x = k (clear_mark m x)"
  | z where "callback_data_len G m extra er k x = Ret er z" "http_errno (parser z) \<noteq> HPE_OK"
proof (cases "marks x m")
  case None
  then have "clear_mark m x = x" by (simp add: clear_mark_def fun_upd_idem)
  then show ?thesis using that(2) assms(2) None by (simp add: callback_data_len_def)
next
  case S: (Some a)
  show ?thesis
  proof (cases "data_callback m (settings G)")
    case None
    then show ?thesis using that(2) assms(2) S by (simp add: callback_data_len_def)
  next
    case (Some g)
    define p where "p = g ((parser x)\<lparr>state := p_state x\<rparr>) (take (cur x - a + extra) (drop a (data G))) (udata x)"
    have E: "callback_data_len G m extra er k x =
        callback_result (data_error m) er (\<lambda>x. k (clear_mark m x)) (upd (\<lambda>ps. ps\<lparr>state := p_state x\<rparr>) x) p"
      using Some S assms(2) by (simp add: callback_data_len_def Let_def p_def)
    have P: "fst (snd p) = (parser x)\<lparr>state := p_state x\<rparr>" using assms(1) Some by (auto simp: keeps_data_cb_def p_def)
    show ?thesis
    proof (cases "fst p = 0")
      case True
      then show ?thesis using that(1) callback_result_keeps [OF P assms(2)] E by simp
    next
      case False
      have "data_error m \<noteq> HPE_OK" by (cases m) simp_all
      then show ?thesis using that(3) False E by (simp add: callback_result_def Let_def)
    qed
  qed
qed

lemma flow_ok_data:
  assumes "keeps_data_cb (data_callback m (settings G))" "http_errno (parser x) = HPE_OK" "er \<le> length (data G)"
    and k: "\<And>u. flow_ok G c r (k (clear_mark m (sync u x)))" "flow_ok G c r (k (clear_mark m x))"
  shows "flow_ok G c r (callback_data_len G m extra er k x)"
  using callback_data_cases [OF assms(1,2)] by (cases rule: callback_data_cases [OF assms(1,2), of extra er k]) (use assms(3-5) in simp_all)

subsection \<open>The cases of the start of a message\<close>

definition case_ok :: "'u run_env \<Rightarrow> state \<Rightarrow> ('u exec \<Rightarrow> 'u flow) \<Rightarrow> bool" where
  "case_ok G s f \<longleftrightarrow> (\<forall>x. run_ok 1 G x \<longrightarrow> cur x < length (data G) \<longrightarrow> p_state x = s \<longrightarrow>
     flow_ok G (cur x) (again_rank s) (f x))"

lemma case_okI:
  "(\<And>x. run_ok 1 G x \<Longrightarrow> cur x < length (data G) \<Longrightarrow> p_state x = s \<Longrightarrow> flow_ok G (cur x) (again_rank s) (f x)) \<Longrightarrow>
     case_ok G s f"
  by (simp add: case_ok_def)

lemmas run_defs = run_ok_def state_ok_def state_mark_def again_rank_def

lemma F_simps [simp]:
  "n < 8 \<Longrightarrow> F_has (F_set n ps) m \<longleftrightarrow> m = n \<or> F_has ps m"
  "http_errno (F_set n ps) = http_errno ps" "content_length (F_set n ps) = content_length ps"
  by (auto simp: F_has_def F_set_def bit_set_bit_iff)

lemma keeps_parserD:
  "keeps_parser S \<Longrightarrow> keeps_cb (on_message_begin S)" "keeps_parser S \<Longrightarrow> keeps_cb (on_headers_complete S)"
  "keeps_parser S \<Longrightarrow> keeps_cb (on_message_complete S)" "keeps_parser S \<Longrightarrow> keeps_cb (on_chunk_header S)"
  "keeps_parser S \<Longrightarrow> keeps_cb (on_chunk_complete S)" "keeps_parser S \<Longrightarrow> keeps_data_cb (on_url S)"
  "keeps_parser S \<Longrightarrow> keeps_data_cb (on_status S)" "keeps_parser S \<Longrightarrow> keeps_data_cb (on_header_field S)"
  "keeps_parser S \<Longrightarrow> keeps_data_cb (on_header_value S)" "keeps_parser S \<Longrightarrow> keeps_data_cb (on_body S)"
  by (auto simp: keeps_parser_def dest: spec [of _ M_url] spec [of _ M_status] spec [of _ M_header_field]
      spec [of _ M_header_value] spec [of _ M_body])

lemma inc_index_simps [simp]:
  "index (inc_index ps) = (index ps + 1) mod 32" "http_errno (inc_index ps) = http_errno ps"
  "content_length (inc_index ps) = content_length ps" "header_state (inc_index ps) = header_state ps"
  "method (inc_index ps) = method ps" "F_has (inc_index ps) n = F_has ps n"
  by (simp_all add: inc_index_def F_has_def)

lemma str_at_in: "str_at w i \<noteq> NUL \<Longrightarrow> i < length w"
  by (simp add: str_at_def split: if_splits)

lemma method_string_len: "length (method_strings ! method_code m) \<le> 11"
  by (cases m) (simp_all add: method_strings_def)

lemma do_dead_ok [http_ok]: "case_ok G s_dead (do_dead G)"
  by (rule case_okI) (simp add: do_dead_def run_defs marks_ok_none)

lemma do_expect_ok [http_ok]:
  "state_mark s = None \<Longrightarrow> state_mark t = None \<Longrightarrow> state_ok 0 t = (\<lambda>n ps. True) \<Longrightarrow> case_ok G s (do_expect c t)"
  by (rule case_okI) (simp add: do_expect_def run_ok_def marks_ok_none)

lemma do_http_digit_ok [http_ok]:
  assumes "state_mark s = None" "state_mark t = None" "state_ok 0 t = (\<lambda>n ps. True)"
  shows "case_ok G s (do_http_major t)" "case_ok G s (do_http_minor t)" "case_ok G s (do_http_dot t)"
  by (rule case_okI; use assms in \<open>simp add: do_http_major_def do_http_minor_def do_http_dot_def run_ok_def marks_ok_none\<close>)+

subsection \<open>The loop over a field name\<close>

lemma match_next_simps [simp]:
  "http_errno (match_next w c full other ps) = http_errno ps" "content_length (match_next w c full other ps) = content_length ps"
  by (simp_all add: match_next_def Let_def)

lemma match_next_states: "header_state (match_next w c full other ps) \<in> {header_state ps, full, other}"
  by (simp add: match_next_def Let_def)

lemma field_char_ok:
  assumes "header_state ps \<in> field_states" "header_state ps \<noteq> h_general"
  shows "\<exists>ps'. field_char c ch ps = Some ps' \<and> header_state ps' \<in> field_states \<and> http_errno ps' = http_errno ps \<and>
    content_length ps' = content_length ps"
proof -
  have M: "header_state (match_next w c full h_general ps) \<in> field_states" if "full \<in> field_states" for w full
    using match_next_states [of w c full h_general ps] that assms(1) by (auto simp: field_states_def)
  have F: "{h_general, h_C, h_CO, h_CON, h_matching_connection, h_matching_content_length, h_connection, h_content_length,
      h_transfer_encoding, h_upgrade} \<subseteq> field_states"
    by (simp add: field_states_def)
  show ?thesis
    using assms M F by (cases "header_state ps") (simp_all add: field_char_def Let_def, simp_all add: field_states_def)
qed

lemma skip_tokens_lt: "i < n \<Longrightarrow> pe \<le> n \<Longrightarrow> skip_tokens d pe i < n"
proof (induction d pe i rule: skip_tokens.induct)
  case (1 d pe i)
  then show ?case by (subst skip_tokens.simps) auto
qed

lemma field_skip_lt: "i < length (data G) \<Longrightarrow> i \<le> field_skip G i \<and> field_skip G i < length (data G)"
  by (simp add: field_skip_def skip_tokens_le skip_tokens_lt)

lemma field_loop_ok:
  assumes "header_state (parser x) \<in> field_states" "cur x \<le> length (data G)"
  shows "\<exists>y. field_loop G x = Some y \<and> header_state (parser y) \<in> field_states \<and> cur x \<le> cur y \<and> cur y \<le> length (data G) \<and>
    http_errno (parser y) = http_errno (parser x) \<and> content_length (parser y) = content_length (parser x) \<and>
    marks y = marks x \<and> l_nread y = l_nread x \<and> p_state y = p_state x"
  using assms
proof (induction G x rule: field_loop.induct)
  case (1 G x)
  show ?case
  proof (cases "cur x \<ge> length (data G)")
    case True
    then show ?thesis using 1(3,4) by (subst field_loop.simps) simp
  next
    case F: False
    let ?x = "x\<lparr>xch := data G ! cur x\<rparr>"
    show ?thesis
    proof (cases "TOKEN (xch ?x) = NUL")
      case True
      then show ?thesis using F 1(3,4) by (subst field_loop.simps) (simp add: Let_def)
    next
      case T: False
      show ?thesis
      proof (cases "header_state (parser ?x) = h_general")
        case True
        have L: "cur x \<le> field_skip G (cur x)" "field_skip G (cur x) < length (data G)"
          using field_skip_lt [of "cur x" G] F by simp_all
        obtain y where y: "field_loop G (?x\<lparr>cur := field_skip G (cur ?x) + 1\<rparr>) = Some y \<and> header_state (parser y) \<in> field_states \<and>
            field_skip G (cur x) + 1 \<le> cur y \<and> cur y \<le> length (data G) \<and>
            http_errno (parser y) = http_errno (parser x) \<and> content_length (parser y) = content_length (parser x) \<and>
            marks y = marks x \<and> l_nread y = l_nread x \<and> p_state y = p_state x"
          using 1(1) [OF F refl refl T True] 1(3) L by auto
        then show ?thesis using F T True L by (subst field_loop.simps) (simp add: Let_def)
      next
        case H: False
        then obtain ps where ps: "field_char (TOKEN (xch ?x)) (xch ?x) (parser ?x) = Some ps" "header_state ps \<in> field_states"
          "http_errno ps = http_errno (parser x)" "content_length ps = content_length (parser x)"
          using field_char_ok [of "parser ?x"] 1(3) by auto
        obtain y where y: "field_loop G (?x\<lparr>parser := ps, cur := cur ?x + 1\<rparr>) = Some y \<and> header_state (parser y) \<in> field_states \<and>
            cur x + 1 \<le> cur y \<and> cur y \<le> length (data G) \<and>
            http_errno (parser y) = http_errno (parser x) \<and> content_length (parser y) = content_length (parser x) \<and>
            marks y = marks x \<and> l_nread y = l_nread x \<and> p_state y = p_state x"
          using 1(2) [OF F refl refl T H ps(1)] ps F by auto
        then show ?thesis using F T H ps(1) by (subst field_loop.simps) (simp add: Let_def)
      qed
    qed
  qed
qed

subsection \<open>The loop over a value\<close>

abbreviation value_states :: "header_states set" where
  "value_states \<equiv> - {h_connection, h_transfer_encoding}"

lemma value_skip_ok:
  assumes "cur x \<le> pe" "pe \<le> length (data G)"
  shows "case value_skip G pe x of Inl y \<Rightarrow> cur y \<le> length (data G)
     | Inr y \<Rightarrow> cur y \<le> pe \<and> parser y = parser x \<and> marks y = marks x \<and> l_nread y = l_nread x \<and> p_state y = p_state x"
  using assms
proof (induction G pe x rule: value_skip.induct)
  case (1 G pe x)
  show ?case
  proof (cases "cur x \<ge> pe \<or> data G ! cur x \<in> {CR, LF} \<or> \<not> lenient G \<and> \<not> IS_HEADER_CHAR (data G ! cur x)")
    case True
    then show ?thesis using 1(2,3) by (subst value_skip.simps) (auto simp: Let_def split: sum.split)
  next
    case False
    then show ?thesis
      using 1(1) [OF _ refl] 1(2,3) by (subst value_skip.simps) (simp add: Let_def cong: sum.case_cong)
  qed
qed

definition same_run :: "'u exec \<Rightarrow> 'u exec \<Rightarrow> bool" where
  "same_run x y \<longleftrightarrow> http_errno (parser y) = http_errno (parser x) \<and> marks y = marks x \<and> l_nread y = l_nread x \<and>
     p_state y = p_state x \<and> cur x \<le> cur y"

lemma value_general_ok:
  assumes "cur x < length (data G)" "xch x = data G ! cur x" "xch x \<noteq> CR" "xch x \<noteq> LF"
  shows "case value_general G x of None \<Rightarrow> False | Some (Inl y) \<Rightarrow> cur y \<le> length (data G)
     | Some (Inr (h, y)) \<Rightarrow> h = h_general \<and> same_run x y \<and> cur y < length (data G) \<and> parser y = parser x"
proof -
  let ?pe = "cur x + min (length (data G) - cur x) (max_header_size G)"
  have "?pe \<le> length (data G)" using assms(1) by simp
  from value_skip_ok [OF _ this, of x]
  have *: "case value_skip G ?pe x of Inl y \<Rightarrow> cur y \<le> length (data G)
     | Inr y \<Rightarrow> cur y \<le> ?pe \<and> parser y = parser x \<and> marks y = marks x \<and> l_nread y = l_nread x \<and> p_state y = p_state x"
    by simp
  show ?thesis
  proof (cases "value_skip G ?pe x")
    case (Inl y)
    then show ?thesis using * by (simp add: value_general_def)
  next
    case (Inr y)
    then have "cur x \<le> cur y" using value_skip_cur [OF Inr] assms(2-4) by simp
    then show ?thesis using * Inr assms(1) by (auto simp: value_general_def same_run_def)
  qed
qed

lemma value_char_ok:
  assumes "cur x < length (data G)" "xch x = data G ! cur x" "xch x \<noteq> CR" "xch x \<noteq> LF"
    and h: "h \<in> value_states" and L: "content_length (parser x) \<le> ULLONG_MAX" "p_state x = s_header_value"
  shows "case value_char G h x of None \<Rightarrow> False | Some (Inl y) \<Rightarrow> cur y \<le> length (data G)
     | Some (Inr (h', y)) \<Rightarrow> h' \<in> value_states \<and> same_run x y \<and> cur y < length (data G) \<and>
         content_length (parser y) \<le> ULLONG_MAX"
proof (cases "h = h_general")
  case True
  then show ?thesis
    using value_general_ok [OF assms(1-4)] L by (auto simp: value_char_def Let_def split: option.splits sum.splits)
next
  case False
  have "n mod 2 ^ 64 \<le> ULLONG_MAX" for n using mod_less_divisor [of "2 ^ 64" n] by (simp add: ULLONG_MAX_def)
  then show ?thesis
    using False assms h L
    by (cases h) (simp_all add: value_char_def value_content_length_def value_error_def value_match_def value_comma_def
        value_connection_done_def same_run_def Let_def)
qed

lemma value_end_ok:
  assumes "http_errno (parser x) = HPE_OK" "l_nread x \<le> max_header_size G" "content_length (parser x) \<le> ULLONG_MAX"
    "marks_ok (p_state x) c (marks x)" "h \<in> value_states" "p_state x \<in> {s_header_value, s_header_almost_done}"
    "c \<le> cur x" "cur x \<le> length (data G)" "c < length (data G)"
  shows "flow_ok G c r (value_end G start h x)"
  unfolding value_end_def Let_def
  by (rule flow_ok_count) (use assms marks_ok_mono [OF assms(4) refl] in \<open>auto simp: run_ok_def state_ok_def\<close>)

subsection \<open>Facts about the parts of the cases\<close>

lemma first_method_len: "first_method c = Some m \<Longrightarrow> Suc 0 \<le> length (method_strings ! method_code m)"
  by (auto simp: first_method_def method_strings_def split: if_splits)

lemma method_switch_prefix:
  "method_switch m i c = Some m' \<Longrightarrow>
     i < length (method_strings ! method_code m') \<and> i < 31 \<and>
     take i (method_strings ! method_code m') = take i (method_strings ! method_code m) \<and>
     method_strings ! method_code m' ! i = c"
  by (auto simp: method_switch_def method_strings_def split: if_splits)

lemma url_state_mark: "s \<in> {s_req_path, s_req_schema, s_req_schema_slash, s_req_schema_slash_slash, s_req_server_start,
     s_req_server, s_req_server_with_at, s_req_query_string_start, s_req_query_string,
     s_req_fragment_start, s_req_fragment} \<Longrightarrow> state_mark s = Some M_url"
  by (auto simp: state_mark_def)

lemma parse_url_char_states: "parse_url_char s c = s_dead \<or> state_mark (parse_url_char s c) = Some M_url"
proof -
  have "parse_url_char s c \<in> {s_dead, s_req_path, s_req_schema, s_req_schema_slash, s_req_schema_slash_slash, s_req_server_start,
     s_req_server, s_req_server_with_at, s_req_query_string_start, s_req_query_string, s_req_fragment_start, s_req_fragment}"
    by (cases s) (simp_all add: parse_url_char_def parse_server_char_def parse_query_char_def)
  then show ?thesis using url_state_mark by blast
qed

lemma url_state_ok: "state_mark s = Some M_url \<Longrightarrow> state_ok k s n ps"
  by (auto simp: state_ok_def state_mark_def split: if_splits)

lemma value_flag_simps [simp]:
  "http_errno (value_flag ps) = http_errno ps" "content_length (value_flag ps) = content_length ps"
  by (simp_all add: value_flag_def split: header_states.split)

lemma new_message_simps [simp]:
  "state_mark (new_message ps) = None" "state_ok k (new_message ps) n qs"
  by (simp_all add: new_message_def start_state_def state_mark_def state_ok_def)

lemma run_okD:
  assumes "run_ok k G x" "state_mark (p_state x) = None"
  shows "http_errno (parser x) = HPE_OK" "l_nread x \<le> max_header_size G" "content_length (parser x) \<le> ULLONG_MAX"
    "marks x = (\<lambda>_. None)"
  using assms by (simp_all add: run_ok_def marks_ok_none)

lemma set_upgrade_simps [simp]:
  "http_errno (set_upgrade ps) = http_errno ps" "content_length (set_upgrade ps) = content_length ps"
  by (simp_all add: set_upgrade_def)

lemma assert_chunked_ok [simp]: "F_has (parser x) F_CHUNKED \<Longrightarrow> assert_chunked x r = r"
  by (simp add: assert_chunked_def)

lemma chunk_size_small: "n \<le> (ULLONG_MAX - 16) div 16 \<Longrightarrow> v \<le> 15 \<Longrightarrow> n * 16 + v < ULLONG_MAX"
  by (simp add: ULLONG_MAX_def)

lemma unhex_range: "unhex_at c \<noteq> -1 \<Longrightarrow> 0 \<le> unhex_at c \<and> nat (unhex_at c) \<le> 15"
proof -
  have "\<forall>v\<in>set unhex. v \<noteq> -1 \<longrightarrow> 0 \<le> v \<and> v \<le> 15" by (simp add: unhex_def)
  moreover have "length unhex = 128" by (simp add: unhex_def)
  ultimately have "unhex_at c \<noteq> -1 \<Longrightarrow> 0 \<le> unhex_at c \<and> unhex_at c \<le> 15"
    by (simp add: unhex_at_def) (metis nth_mem)
  then show "unhex_at c \<noteq> -1 \<Longrightarrow> 0 \<le> unhex_at c \<and> nat (unhex_at c) \<le> 15" by auto
qed

lemma take_body_simps [simp]:
  "http_errno (parser (take_body G x)) = http_errno (parser x)" "p_state (take_body G x) = p_state x"
  "l_nread (take_body G x) = l_nread x" "F_has (parser (take_body G x)) n = F_has (parser x) n"
  "content_length (parser (take_body G x)) = content_length (parser x) - min (content_length (parser x)) (length (data G) - cur x)"
  by (simp_all add: take_body_def Let_def F_has_def)

lemma take_body_ok:
  assumes "cur x < length (data G)" "0 < content_length (parser x)" "marks_ok s (cur x) (marks x)" "state_mark s = Some M_body"
  shows "cur x \<le> cur (take_body G x)" "cur (take_body G x) < length (data G)"
    "state_mark t = Some M_body \<Longrightarrow> marks_ok t (cur (take_body G x)) (marks (take_body G x))"
proof -
  show C: "cur x \<le> cur (take_body G x)" "cur (take_body G x) < length (data G)"
    using assms(1,2) by (auto simp: take_body_def Let_def)
  show "state_mark t = Some M_body \<Longrightarrow> marks_ok t (cur (take_body G x)) (marks (take_body G x))"
    using marks_ok_set [OF assms(3) disjI1 [OF assms(4)] _ C(1)] by (simp add: take_body_def Let_def)
qed

lemma case_okD: "case_ok G s f \<Longrightarrow> run_ok 1 G x \<Longrightarrow> cur x < length (data G) \<Longrightarrow> p_state x = s \<Longrightarrow>
    flow_ok G (cur x) (again_rank s) (f x)"
  by (simp add: case_ok_def)

text \<open>
  The contract of the parser with its callbacks: they leave the parser alone. Under it every state of
  the machine keeps the invariant.
\<close>

locale parser_callbacks =
  fixes G :: "'u run_env"
  assumes keeps: "keeps_parser (settings G)"
begin

lemmas keeps_facts = keeps_parserD [OF keeps]

lemmas case_intros = case_okI flow_ok_notify flow_ok_data flow_ok_count

lemma do_start_ok [http_ok]:
  "case_ok G s_start_req_or_res (do_start_req_or_res G)"
  "case_ok G s_start_res (do_start_res G)"
  by (auto simp: do_start_req_or_res_def do_start_res_def begin_message_def Let_def run_defs marks_ok_none keeps_facts
      intro!: case_intros)

lemma do_res_or_resp_H_ok [http_ok]: "case_ok G s_res_or_resp_H (do_res_or_resp_H G)"
  by (auto simp: do_res_or_resp_H_def run_defs marks_ok_none method_strings_def intro!: case_intros)

lemma do_res_http_end_ok [http_ok]: "case_ok G s_res_http_end (do_res_http_end G)"
  by (auto simp: do_res_http_end_def run_defs marks_ok_none intro!: case_intros)

lemma do_res_first_status_code_ok [http_ok]: "case_ok G s_res_first_status_code (do_res_first_status_code G)"
  by (auto simp: do_res_first_status_code_def run_defs marks_ok_none intro!: case_intros)

lemma do_res_status_code_ok [http_ok]: "case_ok G s_res_status_code (do_res_status_code G)"
  by (auto simp: do_res_status_code_def Let_def run_defs marks_ok_none intro!: case_intros)

lemma do_res_status_start_ok [http_ok]: "case_ok G s_res_status_start (do_res_status_start G)"
  by (auto simp: do_res_status_start_def Let_def run_defs marks_ok_none intro!: case_intros) (auto simp: marks_ok_def state_mark_def)

lemma do_res_status_ok [http_ok]: "case_ok G s_res_status (do_res_status G)"
  by (auto simp: do_res_status_def callback_data_def Let_def run_defs marks_ok_none keeps_facts
      dest!: marks_ok_clear [of s_res_status] intro!: case_intros intro: marks_ok_mono)

subsection \<open>The cases of the request line\<close>

lemma do_start_req_ok [http_ok]: "case_ok G s_start_req (do_start_req G)"
  by (auto simp: do_start_req_def begin_message_def Let_def run_defs marks_ok_none keeps_facts first_method_len
      intro!: case_intros split: option.split)

lemma do_req_method_ok [http_ok]: "case_ok G s_req_method (do_req_method G)"
proof (rule case_okI)
  fix x :: "'u exec" assume A: "run_ok 1 G x" "cur x < length (data G)" "p_state x = s_req_method"
  let ?m = "\<lambda>m. method_strings ! method_code m"
  have next_index: "(index (parser x) + 1) mod 32 \<le> length (?m m)" if "index (parser x) < length (?m m)" for m
    using that method_string_len [of m] by simp
  have "index (parser x) < length (?m (method (parser x)))" if "xch x = str_at (?m (method (parser x))) (index (parser x))" "xch x \<noteq> NUL"
    using that by (metis str_at_in)
  moreover have "index (parser x) < length (?m m)" if "method_switch (method (parser x)) (index (parser x)) (xch x) = Some m" for m
    using method_switch_prefix [OF that] by simp
  moreover have "index (parser x) \<le> length (?m (method (parser x)))" using A(1,3) by (simp add: run_defs)
  ultimately show "flow_ok G (cur x) (again_rank s_req_method) (do_req_method G x)"
    using A next_index
    by (simp add: do_req_method_def Let_def run_ok_def marks_ok_none state_mark_def state_ok_def split: option.split)
qed

lemma do_req_line_ok [http_ok]:
  "case_ok G s_req_http_start (do_req_http_start G)"
  "case_ok G s_req_http_end (do_req_http_end G)"
  "case_ok G s_req_line_almost_done (do_req_line_almost_done G)"
  by (auto simp: do_req_http_start_def do_req_http_end_def do_req_line_almost_done_def run_defs marks_ok_none intro!: case_intros)

lemma url_char_ok:
  assumes "run_ok 1 G x" "cur x < length (data G)" "parser y = parser x" "l_nread y = l_nread x" "cur y = cur x"
    and M: "\<And>t. state_mark t = Some M_url \<Longrightarrow> marks_ok t (cur x) (marks y)"
  shows "flow_ok G (cur x) r (url_char y)"
proof (cases "parse_url_char (p_state y) (xch y) = s_dead")
  case True
  then show ?thesis using assms by (simp add: url_char_def Let_def)
next
  case False
  then have "state_mark (parse_url_char (p_state y) (xch y)) = Some M_url" using parse_url_char_states by blast
  then show ?thesis using assms False by (simp add: url_char_def Let_def run_ok_def url_state_ok)
qed

lemma do_req_spaces_before_url_ok [http_ok]: "case_ok G s_req_spaces_before_url (do_req_spaces_before_url G)"
proof (rule case_okI)
  fix x :: "'u exec" assume A: "run_ok 1 G x" "cur x < length (data G)" "p_state x = s_req_spaces_before_url"
  then have N: "marks x = (\<lambda>_. None)" by (simp add: run_defs marks_ok_none)
  have "flow_ok G (cur x) r (url_char (set_mark M_url x))"
    "flow_ok G (cur x) r (url_char (update_state s (set_mark M_url x)))" for s r
    by (rule url_char_ok [OF A(1,2)]; simp add: N marks_ok_single)+
  then show "flow_ok G (cur x) (again_rank s_req_spaces_before_url) (do_req_spaces_before_url G x)"
    using A N by (simp add: do_req_spaces_before_url_def Let_def run_defs)
qed

lemma in_url_char_ok:
  assumes "run_ok 1 G x" "cur x < length (data G)" "state_mark (p_state x) = Some M_url"
  shows "flow_ok G (cur x) r (url_char x)"
  using assms by (intro url_char_ok [of x]) (auto simp: run_ok_def marks_ok_def)

lemma do_req_schema_ok [http_ok]: "state_mark s = Some M_url \<Longrightarrow> case_ok G s (do_req_schema G)"
  by (rule case_okI) (simp add: do_req_schema_def in_url_char_ok)

lemma do_req_url_ok [http_ok]: "state_mark s = Some M_url \<Longrightarrow> case_ok G s (do_req_url G)"
proof (rule case_okI)
  fix x :: "'u exec" assume A: "state_mark s = Some M_url" "run_ok 1 G x" "cur x < length (data G)" "p_state x = s"
  have "marks_ok s (cur x) (marks x)" using A by (simp add: run_ok_def)
  from marks_ok_clear [OF this A(1)] have N: "(marks x)(M_url := None) = (\<lambda>_. None)" .
  have R: "http_errno (parser x) = HPE_OK" "l_nread x \<le> max_header_size G" "content_length (parser x) \<le> ULLONG_MAX"
    using A(2) by (simp_all add: run_ok_def)
  have U: "flow_ok G (cur x) (again_rank s) (url_char x)" using A in_url_char_ok by blast
  show "flow_ok G (cur x) (again_rank s) (do_req_url G x)"
    unfolding do_req_url_def callback_data_def
    using A(3) N R U by (auto simp: run_defs marks_ok_none keeps_facts intro!: flow_ok_data)
qed


subsection \<open>The cases of header lines\<close>

lemma do_header_field_start_ok [http_ok]: "case_ok G s_header_field_start (do_header_field_start G)"
  by (auto simp: do_header_field_start_def field_start_state_def field_states_def Let_def run_defs marks_ok_none marks_ok_single
      intro!: case_intros)

lemma do_header_field_ok [http_ok]: "case_ok G s_header_field (do_header_field G)"
proof (rule case_okI)
  fix x :: "'u exec" assume A: "run_ok 1 G x" "cur x < length (data G)" "p_state x = s_header_field"
  have R: "http_errno (parser x) = HPE_OK" "l_nread x \<le> max_header_size G" "content_length (parser x) \<le> ULLONG_MAX"
    "marks_ok s_header_field (cur x) (marks x)" "header_state (parser x) \<in> field_states"
    using A by (simp_all add: run_defs)
  obtain y where y: "field_loop G x = Some y" "header_state (parser y) \<in> field_states" "cur x \<le> cur y" "cur y \<le> length (data G)"
    "http_errno (parser y) = http_errno (parser x)" "content_length (parser y) = content_length (parser x)"
    "marks y = marks x" "l_nread y = l_nread x" "p_state y = p_state x"
    using field_loop_ok [OF R(5)] A(2) by (metis less_imp_le)
  have C: "(marks x)(M_header_field := None) = (\<lambda>_. None)"
    by (rule marks_ok_clear [OF R(4)]) (simp add: state_mark_def)
  have M: "marks_ok s_header_field c (marks x)" if "cur x \<le> c" for c
    using marks_ok_mono [OF R(4) refl that] .
  show "flow_ok G (cur x) (again_rank s_header_field) (do_header_field G x)"
    unfolding do_header_field_def callback_data_def Let_def
    using A R y C M
    by (auto simp: y(1) run_defs marks_ok_none keeps_facts intro!: flow_ok_data flow_ok_count)
qed

lemma value_loop_ok:
  assumes "http_errno (parser x) = HPE_OK" "l_nread x \<le> max_header_size G" "content_length (parser x) \<le> ULLONG_MAX"
    "marks_ok s_header_value c (marks x)" "h \<in> value_states" "p_state x = s_header_value"
    "c \<le> cur x" "cur x \<le> length (data G)" "c < length (data G)"
  shows "flow_ok G c 1 (value_loop G start h x)"
  using assms
proof (induction "length (data G) - cur x" arbitrary: x h rule: less_induct)
  case less
  note A = less.prems
  have C: "(marks x)(M_header_value := None) = (\<lambda>_. None)"
    by (rule marks_ok_clear [OF A(4)]) (simp add: state_mark_def)
  let ?x = "x\<lparr>xch := data G ! cur x\<rparr>"
  consider "cur x \<ge> length (data G)" | "cur x < length (data G)" "xch ?x = CR" | "cur x < length (data G)" "xch ?x = LF"
    | "cur x < length (data G)" "xch ?x \<noteq> CR" "xch ?x \<noteq> LF" "\<not> lenient G \<and> \<not> IS_HEADER_CHAR (xch ?x)"
    | "cur x < length (data G)" "xch ?x \<noteq> CR" "xch ?x \<noteq> LF" "\<not> (\<not> lenient G \<and> \<not> IS_HEADER_CHAR (xch ?x))"
    by linarith
  then show ?case
  proof cases
    case 1
    then show ?thesis using A by (subst value_loop.simps) (simp add: value_end_ok)
  next
    case 2
    then show ?thesis
      using A C
      by (subst value_loop.simps) (auto simp: Let_def callback_data_def keeps_facts marks_ok_none state_mark_def intro!: flow_ok_data value_end_ok)
  next
    case 3
    then show ?thesis
      using A C
      by (subst value_loop.simps)
        (auto simp: Let_def callback_data_noadvance_def keeps_facts marks_ok_none run_defs intro!: flow_ok_data flow_ok_count)
  next
    case 4
    then show ?thesis using A by (subst value_loop.simps) (simp add: Let_def)
  next
    case 5
    have V: "case value_char G h ?x of None \<Rightarrow> False | Some (Inl y) \<Rightarrow> cur y \<le> length (data G)
     | Some (Inr (h', y)) \<Rightarrow> h' \<in> value_states \<and> same_run ?x y \<and> cur y < length (data G) \<and>
         content_length (parser y) \<le> ULLONG_MAX"
      by (rule value_char_ok) (use A 5 in simp_all)
    show ?thesis
    proof (cases "\<exists>h' y. value_char G h ?x = Some (Inr (h', y))")
      case False
      then show ?thesis using 5 V by (subst value_loop.simps) (auto simp: Let_def split: option.splits sum.splits)
    next
      case True
      then obtain h' y where y: "value_char G h ?x = Some (Inr (h', y))" by blast
      have "flow_ok G c 1 (value_loop G start h' (y\<lparr>cur := cur y + 1\<rparr>))"
        by (rule less.hyps) (use V y A 5(1) in \<open>auto simp: same_run_def\<close>)
      then show ?thesis using 5 y by (subst value_loop.simps) (simp add: Let_def)
    qed
  qed
qed

lemma do_header_value_ok [http_ok]: "case_ok G s_header_value (do_header_value G)"
  by (rule case_okI) (auto simp: do_header_value_def run_defs intro!: value_loop_ok [unfolded One_nat_def])

lemma do_header_value_start_flow:
  assumes "run_ok 1 G x" "cur x < length (data G)" "state_mark (p_state x) = None"
  shows "flow_ok G (cur x) r (do_header_value_start G x)"
proof -
  have R: "http_errno (parser x) = HPE_OK" "l_nread x \<le> max_header_size G" "content_length (parser x) \<le> ULLONG_MAX"
    "marks x = (\<lambda>_. None)"
    using assms by (simp_all add: run_ok_def marks_ok_none)
  have M: "marks_ok s_header_value (cur x) ((\<lambda>_. None)(M_header_value := Some (cur x)))"
    by (rule marks_ok_single) (simp_all add: state_mark_def)
  have D: "IS_NUM c \<Longrightarrow> digit c \<le> ULLONG_MAX" for c by (auto simp: IS_NUM_def digit_def ULLONG_MAX_def)
  show ?thesis
    using R M D assms(2)
    by (cases "header_state (parser x)") (simp_all add: do_header_value_start_def Let_def run_ok_def state_ok_def)
qed

lemma do_header_value_starts_ok [http_ok]:
  "case_ok G s_header_value_start (do_header_value_start G)"
  "case_ok G s_header_value_discard_ws (do_header_value_discard_ws G)"
proof -
  show "case_ok G s_header_value_start (do_header_value_start G)"
    by (rule case_okI) (simp add: do_header_value_start_flow state_mark_def)
  show "case_ok G s_header_value_discard_ws (do_header_value_discard_ws G)"
    by (rule case_okI) (auto simp: do_header_value_discard_ws_def do_header_value_start_flow state_mark_def run_defs marks_ok_none)
qed

lemma do_header_ends_ok [http_ok]:
  "case_ok G s_header_almost_done (do_header_almost_done G)"
  "case_ok G s_header_value_lws (do_header_value_lws G)"
  "case_ok G s_header_value_discard_lws (do_header_value_discard_lws G)"
  by (auto simp: do_header_almost_done_def do_header_value_lws_def do_header_value_discard_lws_def callback_data_noadvance_def run_defs marks_ok_none
      keeps_facts intro!: case_intros)

subsection \<open>The cases of the end of the headers and of bodies\<close>

lemma message_complete_ok:
  assumes "http_errno (parser x) = HPE_OK" "cur x < length (data G)"
    and "\<And>y. http_errno (parser y) = HPE_OK \<Longrightarrow> cur y = cur x \<Longrightarrow> l_nread y = l_nread x \<Longrightarrow> marks y = marks x \<Longrightarrow>
      upgrade (parser y) = upgrade (parser x) \<Longrightarrow> content_length (parser y) = content_length (parser x) \<Longrightarrow>
      p_state y = new_message (parser x) \<Longrightarrow> flow_ok G c r (k y)"
  shows "flow_ok G c r (message_complete G k x)"
  unfolding message_complete_def
  by (rule flow_ok_notify) (use assms in \<open>simp_all add: keeps_facts\<close>)

lemma return_ok:
  assumes "http_errno (parser y) = HPE_OK" "upgrade (parser y)" "l_nread y \<le> max_header_size G"
    "content_length (parser y) \<le> ULLONG_MAX" "p_state y = new_message ps" "n \<le> length (data G)"
  shows "flow_ok G c r (return n y)"
  using assms by (simp add: return_def parser_ok_def state_ok_nread)

lemma do_headers_done_ok [http_ok]: "case_ok G s_headers_done (do_headers_done G)"
proof (rule case_okI)
  fix x :: "'u exec" assume A: "run_ok 1 G x" "cur x < length (data G)" "p_state x = s_headers_done"
  have R: "http_errno (parser x) = HPE_OK" "l_nread x \<le> max_header_size G" "content_length (parser x) \<le> ULLONG_MAX"
    "marks x = (\<lambda>_. None)"
    using run_okD [OF A(1)] A(3) by (simp_all add: state_mark_def)
  have N: "flow_ok G (cur x) r (message_complete G Next y)"
    if "cur y = cur x" "http_errno (parser y) = HPE_OK" "l_nread y = 0" "content_length (parser y) \<le> ULLONG_MAX" "marks y = (\<lambda>_. None)" for y r
    by (rule message_complete_ok) (use that A(2) in \<open>simp_all add: run_ok_def marks_ok_none\<close>)
  have U: "flow_ok G (cur x) r (message_complete G (\<lambda>x. return (Suc (cur x)) x) y)"
    if "cur y = cur x" "http_errno (parser y) = HPE_OK" "l_nread y = 0" "content_length (parser y) \<le> ULLONG_MAX" "upgrade (parser y)" for y r
    by (rule message_complete_ok) (use that A(2) in \<open>auto intro!: return_ok\<close>)
  show "flow_ok G (cur x) (again_rank s_headers_done) (do_headers_done G x)"
    using A R by (simp add: do_headers_done_def Let_def N U run_defs marks_ok_none has_body_def)
qed

lemma do_message_done_ok [http_ok]: "case_ok G s_message_done (do_message_done G)"
proof (rule case_okI)
  fix x :: "'u exec" assume A: "run_ok 1 G x" "cur x < length (data G)" "p_state x = s_message_done"
  have R: "http_errno (parser x) = HPE_OK" "l_nread x \<le> max_header_size G" "content_length (parser x) \<le> ULLONG_MAX"
    "marks x = (\<lambda>_. None)"
    using run_okD [OF A(1)] A(3) by (simp_all add: state_mark_def)
  show "flow_ok G (cur x) (again_rank s_message_done) (do_message_done G x)"
    unfolding do_message_done_def
    by (rule message_complete_ok) (use A(2) R in \<open>auto simp: run_ok_def marks_ok_none intro!: return_ok\<close>)
qed

subsection \<open>The cases of bodies\<close>

lemma do_body_identity_eof_ok [http_ok]: "case_ok G s_body_identity_eof (do_body_identity_eof G)"
proof (rule case_okI)
  fix x :: "'u exec" assume A: "run_ok 1 G x" "cur x < length (data G)" "p_state x = s_body_identity_eof"
  have "marks_ok s_body_identity_eof (length (data G) - 1) (marks (set_mark M_body x))"
    using A marks_ok_set [of s_body_identity_eof "cur x" "marks x" M_body s_body_identity_eof "length (data G) - 1"]
    by (auto simp: run_defs)
  then show "flow_ok G (cur x) (again_rank s_body_identity_eof) (do_body_identity_eof G x)"
    using A by (auto simp: do_body_identity_eof_def run_defs)
qed

lemma do_body_identity_ok [http_ok]: "case_ok G s_body_identity (do_body_identity G)"
proof (rule case_okI)
  fix x :: "'u exec" assume A: "run_ok 1 G x" "cur x < length (data G)" "p_state x = s_body_identity"
  have R: "http_errno (parser x) = HPE_OK" "l_nread x \<le> max_header_size G" "0 < content_length (parser x)"
    "content_length (parser x) < ULLONG_MAX" "marks_ok s_body_identity (cur x) (marks x)"
    using A by (simp_all add: run_defs)
  have M: "state_mark s_body_identity = Some M_body" by (simp add: state_mark_def)
  note T = take_body_ok [OF A(2) R(3,5) M] 
  have C: "(marks (take_body G x))(M_body := None) = (\<lambda>_. None)"
    by (rule marks_ok_clear [OF T(3) M]) (rule M)
  show "flow_ok G (cur x) (again_rank s_body_identity) (do_body_identity G x)"
    unfolding do_body_identity_def Let_def
    using A R T(1,2) T(3) [OF M] C
    by (auto simp: keeps_facts marks_ok_none run_defs intro!: flow_ok_data)
qed

lemma do_headers_complete_ok:
  assumes "http_errno (parser x) = HPE_OK" "cur x < length (data G)"
    and "\<And>f u. \<lbrakk>http_errno (f (parser x)) = HPE_OK; content_length (f (parser x)) = content_length (parser x)\<rbrakk> \<Longrightarrow>
      flow_ok G c r (k ((upd f x)\<lparr>udata := u\<rparr>))"
  shows "flow_ok G c r (do_headers_complete G k x)"
proof (cases "on_headers_complete (settings G)")
  case None
  have "(upd (\<lambda>ps. ps) x)\<lparr>udata := udata x\<rparr> = x" by (simp add: upd_def)
  from assms(3) [of "\<lambda>ps. ps" "udata x", unfolded this]
  show ?thesis using None assms(1) by (simp add: do_headers_complete_def)
next
  case (Some f)
  let ?p = "f (parser x) (udata x)"
  have P: "fst (snd ?p) = parser x" using keeps Some by (auto simp: keeps_parser_def keeps_cb_def)
  have "x\<lparr>udata := u\<rparr> = (upd (\<lambda>ps. ps) x)\<lparr>udata := u\<rparr>"
    "upd (F_set 6) (x\<lparr>udata := u\<rparr>) = (upd (F_set 6) x)\<lparr>udata := u\<rparr>"
    "upd (F_set 6) (upd (\<lambda>ps. ps\<lparr>upgrade := True\<rparr>) (x\<lparr>udata := u\<rparr>)) =
       (upd (\<lambda>ps. F_set 6 (ps\<lparr>upgrade := True\<rparr>)) x)\<lparr>udata := u\<rparr>" for u
    by (simp_all add: upd_def)
  note E = this [of "snd (snd ?p)"]
  have X: "x\<lparr>parser := fst (snd ?p), udata := snd (snd ?p)\<rparr> = x\<lparr>udata := snd (snd ?p)\<rparr>"
    by (simp add: P)
  show ?thesis
    unfolding do_headers_complete_def Let_def Some option.case X
    using assms(1,2) assms(3) [of "\<lambda>ps. ps" "snd (snd ?p)", folded E(1)] assms(3) [of "F_set 6" "snd (snd ?p)", folded E(2)]
      assms(3) [of "\<lambda>ps. F_set 6 (ps\<lparr>upgrade := True\<rparr>)" "snd (snd ?p)", folded E(3)]
    by simp
qed

lemma do_headers_almost_done_ok [http_ok]: "case_ok G s_headers_almost_done (do_headers_almost_done G)"
proof (rule case_okI)
  fix x :: "'u exec" assume A: "run_ok 1 G x" "cur x < length (data G)" "p_state x = s_headers_almost_done"
  have R: "http_errno (parser x) = HPE_OK" "l_nread x \<le> max_header_size G" "content_length (parser x) \<le> ULLONG_MAX"
    "marks x = (\<lambda>_. None)"
    using run_okD [OF A(1)] A(3) by (simp_all add: state_mark_def)
  show "flow_ok G (cur x) (again_rank s_headers_almost_done) (do_headers_almost_done G x)"
    unfolding do_headers_almost_done_def
    using A(2) R
    by (auto simp: keeps_facts run_defs intro!: flow_ok_notify do_headers_complete_ok)
qed

lemma do_chunk_size_start_ok [http_ok]: "case_ok G s_chunk_size_start (do_chunk_size_start G)"
proof (rule case_okI)
  fix x :: "'u exec" assume A: "run_ok 1 G x" "cur x < length (data G)" "p_state x = s_chunk_size_start"
  have "nat (unhex_at (xch x)) < ULLONG_MAX" if "unhex_at (xch x) \<noteq> -1"
    using unhex_range [OF that] unfolding ULLONG_MAX_def by simp
  then show "flow_ok G (cur x) (again_rank s_chunk_size_start) (do_chunk_size_start G x)"
    using A by (auto simp: do_chunk_size_start_def Let_def run_defs marks_ok_none F_has_def)
qed

lemma do_chunk_size_ok [http_ok]: "case_ok G s_chunk_size (do_chunk_size G)"
proof (rule case_okI)
  fix x :: "'u exec" assume A: "run_ok 1 G x" "cur x < length (data G)" "p_state x = s_chunk_size"
  have "(content_length (parser x) * 16 + nat (unhex_at (xch x))) mod 18446744073709551616 < ULLONG_MAX"
    if "unhex_at (xch x) \<noteq> -1" "\<not> (ULLONG_MAX - 16) div 16 < content_length (parser x)"
    using chunk_size_small [of "content_length (parser x)" "nat (unhex_at (xch x))"] unhex_range [OF that(1)] that(2)
    by (intro le_less_trans [OF mod_less_eq_dividend]) simp
  then show "flow_ok G (cur x) (again_rank s_chunk_size) (do_chunk_size G x)"
    using A by (auto simp: do_chunk_size_def Let_def run_defs marks_ok_none F_has_def)
qed

lemma do_chunk_line_ok [http_ok]:
  "case_ok G s_chunk_parameters (do_chunk_parameters G)"
  "case_ok G s_chunk_size_almost_done (do_chunk_size_almost_done G)"
  "case_ok G s_chunk_data_done (do_chunk_data_done G)"
  by (auto simp: do_chunk_parameters_def do_chunk_size_almost_done_def do_chunk_data_done_def Let_def run_defs marks_ok_none keeps_facts F_has_def
      assert_chunked_def intro!: case_intros)

lemma do_chunk_data_ok [http_ok]: "case_ok G s_chunk_data (do_chunk_data G)"
proof (rule case_okI)
  fix x :: "'u exec" assume A: "run_ok 1 G x" "cur x < length (data G)" "p_state x = s_chunk_data"
  have R: "0 < content_length (parser x)" "marks_ok s_chunk_data (cur x) (marks x)"
    using A by (simp_all add: run_defs)
  have M: "state_mark s_chunk_data = Some M_body" "state_mark s_chunk_data_almost_done = Some M_body"
    by (simp_all add: state_mark_def)
  note T = take_body_ok [OF A(2) R M(1)]
  show "flow_ok G (cur x) (again_rank s_chunk_data) (do_chunk_data G x)"
    using A T(1,2) T(3) [OF M(1)] T(3) [OF M(2)] by (auto simp: do_chunk_data_def Let_def run_defs)
qed

lemma do_chunk_data_almost_done_ok [http_ok]: "case_ok G s_chunk_data_almost_done (do_chunk_data_almost_done G)"
  by (auto simp: do_chunk_data_almost_done_def callback_data_def run_defs marks_ok_none keeps_facts F_has_def
      dest!: marks_ok_clear [of s_chunk_data_almost_done] intro!: case_intros)

subsection \<open>The switch\<close>

lemma exec_state_ok:
  assumes "run_ok 1 G x" "cur x < length (data G)"
  shows "flow_ok G (cur x) (again_rank (p_state x)) (exec_state G x)"
proof -
  note D = case_okD [OF _ assms]
  have N: "state_mark t = None" "state_ok 0 t = (\<lambda>n ps. True)"
    if "t \<in> {s_res_H, s_res_HT, s_res_HTT, s_res_HTTP, s_res_http_major, s_res_http_dot, s_res_http_minor, s_res_http_end,
      s_res_line_almost_done, s_header_field_start, s_req_http_H, s_req_http_HT, s_req_http_HTT, s_req_http_HTTP, s_req_http_I,
      s_req_http_IC, s_req_http_major, s_req_http_dot, s_req_http_minor, s_req_http_end,
      s_header_value_discard_ws_almost_done, s_header_value_discard_lws}" for t
    using that by (auto simp: state_mark_def state_ok_def fun_eq_iff)
  have U: "state_mark s = Some M_url" if "s \<in> {s_req_schema, s_req_schema_slash, s_req_schema_slash_slash, s_req_server_start}" for s
    using that by (auto simp: state_mark_def)
  show ?thesis
    by (cases "p_state x") (simp_all add: D http_ok N U url_state_mark exec_state_def)
qed

subsection \<open>The loops\<close>

lemma reexecute_ok:
  assumes "run_ok 1 G x" "cur x < length (data G)"
  shows "\<exists>r. reexecute G x = Some r \<and> flow_ok G (cur x) 0 r"
  using assms
proof (induction "again_rank (p_state x)" arbitrary: x rule: less_induct)
  case less
  have F: "flow_ok G (cur x) (again_rank (p_state x)) (exec_state G x)" by (rule exec_state_ok [OF less.prems])
  show ?case
  proof (cases "exec_state G x")
    case (Again y)
    then have y: "run_ok 1 G y" "cur x \<le> cur y" "cur y < length (data G)" "again_rank (p_state y) < again_rank (p_state x)"
      using F by auto
    obtain r where "reexecute G y = Some r" "flow_ok G (cur y) 0 r" using less.hyps y by blast
    then show ?thesis using Again y(2) by (subst reexecute.simps) (auto simp: flow_ok_def split: flow.splits)
  qed (use F in \<open>subst reexecute.simps, simp\<close>)+
qed

lemma ends_ok_data:
  assumes "\<And>y. end_ok G y \<Longrightarrow> ends_ok G (k y)" "end_ok G x"
  shows "ends_ok G (callback_data_noadvance G m k x)"
proof -
  have K: "keeps_data_cb (data_callback m (settings G))" "http_errno (parser x) = HPE_OK"
    using keeps assms(2) by (simp_all add: keeps_parser_def end_ok_def)
  have "end_ok G (clear_mark m x)" "end_ok G (clear_mark m (sync u x))" for u
    using assms(2) by (simp_all add: end_ok_def)
  then show ?thesis
    unfolding callback_data_noadvance_def
    by (cases rule: callback_data_cases [OF K, of 0 "cur x" k]) (use assms in \<open>simp_all add: ends_ok_error end_ok_def\<close>)
qed

lemma exec_end_ok:
  assumes "run_ok 0 G x" "cur x = length (data G)"
  shows "ends_ok G (exec_end G x)"
proof -
  have R: "ends_ok G (return (length (data G)) y)" if "end_ok G y" for y
    using that by (simp add: end_ok_def ends_ok_def return_def parser_ok_def state_ok_nread)
  have "marks_ok (p_state x) (cur x) (marks x)" using assms(1) by (simp add: run_ok_def)
  then have one: "state_mark (p_state x) \<noteq> Some m \<Longrightarrow> marks x m = None" for m
    using marks_ok_state by fastforce
  have "length (filter (\<lambda>m. marks x m \<noteq> None) [M_header_field, M_header_value, M_url, M_body, M_status]) \<le> 1"
  proof (cases "state_mark (p_state x)")
    case None
    then show ?thesis by (simp add: one)
  next
    case (Some m)
    then show ?thesis by (cases m) (simp_all add: one)
  qed
  then show ?thesis
    unfolding exec_end_def
    by (simp add: not_less del: filter.simps) (intro ends_ok_data R; use assms in \<open>simp add: run_ok_def end_ok_def\<close>)
qed

lemma count_start_ok:
  assumes "run_ok 0 G x" "cur x < length (data G)"
  shows "case (if parsing_header (p_state x) then count_header_size G 1 Next x else Next x) of
      Next y \<Rightarrow> run_ok 1 G y \<and> cur y = cur x | Err y \<Rightarrow> cur y = cur x | _ \<Rightarrow> False"
proof (cases "p_state x = s_chunk_size_start")
  case True
  then show ?thesis using assms by (simp add: count_header_size_def Let_def run_defs parsing_header_def fail_def F_has_def)
next
  case False
  have "state_ok (Suc 0) (p_state x) n (parser x) = state_ok 0 (p_state x) (l_nread x) (parser x)" for n
    using state_ok_count [OF False] by metis
  then show ?thesis
    using assms by (simp add: count_header_size_def Let_def run_ok_def fail_def)
qed

lemma exec_error_ok: "cur y \<le> length (data G) \<Longrightarrow> ends_ok G (exec_error y)"
  by (auto simp: exec_error_def return_def intro!: ends_ok_error)

lemma exec_bytes_ok:
  assumes "run_ok 0 G x" "cur x \<le> length (data G)"
  shows "\<exists>f. exec_bytes G x = Some f \<and> ends_ok G f"
  using assms
proof (induction "length (data G) - cur x" arbitrary: x rule: less_induct)
  case less
  show ?case
  proof (cases "cur x = length (data G)")
    case True
    then show ?thesis using exec_end_ok [OF less.prems(1)] by (subst exec_bytes.simps) simp
  next
    case False
    let ?x = "x\<lparr>xch := data G ! cur x\<rparr>"
    let ?f = "if parsing_header (p_state ?x) then count_header_size G 1 Next ?x else Next ?x"
    have L: "cur x < length (data G)" using False less.prems(2) by simp
    have C: "case ?f of Next y \<Rightarrow> run_ok 1 G y \<and> cur y = cur ?x | Err y \<Rightarrow> cur y = cur ?x | _ \<Rightarrow> False"
      by (rule count_start_ok) (use less.prems(1) L in \<open>simp_all add: run_ok_def\<close>)
    show ?thesis
    proof (cases ?f)
      case (Next y)
      then have y: "run_ok 1 G y" "cur y = cur x" using C by simp_all
      obtain r where r: "reexecute G y = Some r" "flow_ok G (cur y) 0 r" using reexecute_ok y L by metis
      show ?thesis
      proof (cases r)
        case (Next z)
        have "\<exists>f. exec_bytes G (z\<lparr>cur := cur z + 1\<rparr>) = Some f \<and> ends_ok G f"
        proof (rule less.hyps)
          show "run_ok 0 G (z\<lparr>cur := cur z + 1\<rparr>)"
            using r(2) Next marks_ok_mono [of "p_state z" "cur z" "marks z" "p_state z" "cur z + 1"] by (simp add: run_ok_def)
        qed (use r(2) Next y(2) L in auto)
        then show ?thesis using False \<open>?f = Next y\<close> r(1) Next by (subst exec_bytes.simps) (simp add: Let_def)
      next
        case (Err z)
        then show ?thesis using False \<open>?f = Next y\<close> r exec_error_ok [of z] by (subst exec_bytes.simps) (simp add: Let_def)
      next
        case (Ret n z)
        then show ?thesis using False \<open>?f = Next y\<close> r by (subst exec_bytes.simps) (auto simp: Let_def ends_ok_def parser_ok_def)
      qed (use r(2) in simp_all)
    next
      case (Err y)
      then show ?thesis using C False exec_error_ok [of y] L by (subst exec_bytes.simps) (simp add: Let_def)
    qed (use C in simp_all)
  qed
qed

end

subsection \<open>The whole call\<close>

lemma keeps_init: "keeps_parser http_parser_settings_init"
  by (simp add: keeps_parser_def keeps_cb_def keeps_data_cb_def all_marks http_parser_settings_init_def)

interpretation no_callbacks: parser_callbacks "run_env_of http_parser_settings_init limit ps d" for limit ps d
  by unfold_locales (simp add: run_env_of_def keeps_init)

lemma marks_ok_first: "marks_ok s 0 (first_marks s)"
  by (auto simp: marks_ok_def first_marks_def state_mark_def split: mark.splits if_splits)

lemma parser_ok_init: "parser_ok limit (http_parser_init t)"
  by (cases t) (simp_all add: parser_ok_def http_parser_init_def state_ok_def ULLONG_MAX_def)

lemma execute_ok:
  assumes "keeps_parser S" "parser_ok limit ps"
  shows "\<exists>n x. http_parser_execute S limit ps u d = Some (Ret n x) \<and> n \<le> max 1 (length d) \<and>
    parser_ok limit (parser x) \<and>
    (http_errno (parser x) = HPE_OK \<longrightarrow> n = length d \<or> upgrade (parser x))"
proof -
  let ?G = "run_env_of S limit ps d" and ?x = "start_run ps u"
  have P: "parser ?x = ps" "l_nread ?x = nread ps" "p_state ?x = state ps" "cur ?x = 0" "marks ?x = first_marks (state ps)"
    "udata ?x = u"
    by (simp_all add: start_run_def)
  have G: "settings ?G = S" "max_header_size ?G = limit" "data ?G = d" by (simp_all add: run_env_of_def)
  consider "http_errno ps \<noteq> HPE_OK" | "http_errno ps = HPE_OK" "d = []" | "http_errno ps = HPE_OK" "d \<noteq> []" by blast
  then show ?thesis
  proof cases
    case 1
    then show ?thesis by (simp add: http_parser_execute_def P parser_ok_def)
  next
    case 2
    have K: "keeps_cb (on_message_complete S)" "http_errno (parser ?x) = HPE_OK"
      using assms(1) 2(1) by (simp_all add: keeps_parser_def P)
    show ?thesis
    proof (cases "state ps = s_body_identity_eof")
      case True
      then show ?thesis
        by (cases rule: callback_notify_cases [OF K, of HPE_CB_message_complete 0 "Ret 0"])
          (use 2 assms(2) in \<open>simp_all add: http_parser_execute_def Let_def P parser_ok_def\<close>)
    next
      case False
      then show ?thesis using 2 assms(2) by (simp add: http_parser_execute_def Let_def P parser_ok_def)
    qed
  next
    case 3
    have "run_ok 0 ?G ?x"
      using 3(1) assms(2) marks_ok_first by (simp add: run_ok_def P G parser_ok_def)
    then obtain f where f: "exec_bytes ?G ?x = Some f" "ends_ok ?G f"
      using parser_callbacks.exec_bytes_ok [of ?G ?x] assms(1) by (auto simp: parser_callbacks_def G P)
    then obtain n y where "f = Ret n y" "n \<le> length d" "parser_ok limit (parser y)" "http_errno (parser y) = HPE_OK \<longrightarrow> n = length d \<or> upgrade (parser y)"
      by (auto simp: ends_ok_def G)
    then show ?thesis using f(1) 3 by (auto simp: http_parser_execute_def Let_def)
  qed
qed

text \<open>C9: The parser never breaks its own assertions and always returns. With callbacks that leave the
  parser alone (they may fail, and may do anything to the user's data), a call on a parser in a
  well-formed state, on any bytes and with any header limit, returns; it never fails an assertion and
  never reads past the end of a method name or the buffer. It reports at most the bytes it was given
  (one for an unexpected end of input), leaves a well-formed parser, and without an error it has taken
  all the bytes unless the connection changes protocol.\<close>
theorem http_parser_execute_safe:
  assumes "keeps_parser S" "parser_ok limit ps"
  shows "\<exists>n x. http_parser_execute S limit ps u d = Some (Ret n x) \<and> n \<le> max 1 (length d) \<and>
    parser_ok limit (parser x) \<and>
    (http_errno (parser x) = HPE_OK \<longrightarrow> n = length d \<or> upgrade (parser x))"
  using assms by (rule execute_ok)

theorem http_parser_execute_safe_witness:
  "\<exists>n x. http_parser_execute http_parser_settings_init 81920 (http_parser_init HTTP_BOTH) () ''HTTP/1.1 200'' = Some (Ret n x) \<and>
    n \<le> max 1 (length ''HTTP/1.1 200'') \<and> parser_ok 81920 (parser x) \<and>
    (http_errno (parser x) = HPE_OK \<longrightarrow> n = length ''HTTP/1.1 200'' \<or> upgrade (parser x))"
  by (rule http_parser_execute_safe [OF keeps_init parser_ok_init])

end
