(* ===== verification/HttpRun.thy ===== *)
theory HttpRun
  imports HttpSafe
begin

section \<open>Running the HTTP parser over a buffer\<close>

text \<open>
  Lemmas that carry a run over a buffer one byte at a time, for callbacks that accept everything
  (return 0 and leave the parser alone), and what the parser makes of methods, body bytes and sizes.
\<close>

subsection \<open>Callbacks that accept everything\<close>

definition accepts_cb :: "'u http_cb option \<Rightarrow> bool" where
  "accepts_cb f \<longleftrightarrow> (\<forall>g ps u. f = Some g \<longrightarrow> fst (g ps u) = 0 \<and> fst (snd (g ps u)) = ps)"

definition accepts_data_cb :: "'u http_data_cb option \<Rightarrow> bool" where
  "accepts_data_cb f \<longleftrightarrow> (\<forall>g ps t u. f = Some g \<longrightarrow> fst (g ps t u) = 0 \<and> fst (snd (g ps t u)) = ps)"

definition accepts :: "'u http_parser_settings \<Rightarrow> bool" where
  "accepts S \<longleftrightarrow> accepts_cb (on_message_begin S) \<and> accepts_cb (on_headers_complete S) \<and>
     accepts_cb (on_message_complete S) \<and> accepts_cb (on_chunk_header S) \<and> accepts_cb (on_chunk_complete S) \<and>
     (\<forall>m. accepts_data_cb (data_callback m S))"

lemma acceptsD:
  assumes "accepts S"
  shows "accepts_cb (on_message_begin S)" "accepts_cb (on_headers_complete S)" "accepts_cb (on_message_complete S)"
    "accepts_cb (on_chunk_header S)" "accepts_cb (on_chunk_complete S)" "accepts_data_cb (data_callback m S)"
    "accepts_data_cb (on_url S)" "accepts_data_cb (on_status S)" "accepts_data_cb (on_header_field S)"
    "accepts_data_cb (on_header_value S)" "accepts_data_cb (on_body S)"
  using assms by (cases m; simp add: accepts_def all_marks)+

lemma accepts_keeps: "accepts S \<Longrightarrow> keeps_parser S"
  by (simp add: accepts_def keeps_parser_def accepts_cb_def accepts_data_cb_def keeps_cb_def keeps_data_cb_def)

text \<open>What a callback makes of the run.\<close>

definition after_notify :: "'u http_cb option \<Rightarrow> 'u exec \<Rightarrow> 'u exec" where
  "after_notify f x = (case f of None \<Rightarrow> x
     | Some g \<Rightarrow> sync (snd (snd (g ((parser x)\<lparr>state := p_state x\<rparr>) (udata x)))) x)"

definition after_data :: "'u run_env \<Rightarrow> mark \<Rightarrow> nat \<Rightarrow> 'u exec \<Rightarrow> 'u exec" where
  "after_data G m extra x = (case marks x m of None \<Rightarrow> x
     | Some a \<Rightarrow> clear_mark m (case data_callback m (settings G) of None \<Rightarrow> x
         | Some g \<Rightarrow> sync (snd (snd (g ((parser x)\<lparr>state := p_state x\<rparr>)
             (take (cur x - a + extra) (drop a (data G))) (udata x)))) x))"

lemma callback_notify_accepts:
  assumes "accepts_cb f" "http_errno (parser x) = HPE_OK"
  shows "callback_notify f e er k x = k (after_notify f x)"
proof (cases f)
  case None
  then show ?thesis using assms by (simp add: callback_notify_def after_notify_def)
next
  case (Some g)
  then have "fst (g ((parser x)\<lparr>state := p_state x\<rparr>) (udata x)) = 0"
    "fst (snd (g ((parser x)\<lparr>state := p_state x\<rparr>) (udata x))) = (parser x)\<lparr>state := p_state x\<rparr>"
    using assms(1) by (auto simp: accepts_cb_def)
  then show ?thesis
    using Some assms(2) callback_result_keeps [OF _ assms(2), of "g ((parser x)\<lparr>state := p_state x\<rparr>) (udata x)"]
    by (simp add: callback_notify_def after_notify_def Let_def)
qed

lemma callback_data_accepts:
  assumes "accepts_data_cb (data_callback m (settings G))" "http_errno (parser x) = HPE_OK"
  shows "callback_data_len G m extra er k x = k (after_data G m extra x)"
proof (cases "marks x m")
  case None
  then show ?thesis using assms by (simp add: callback_data_len_def after_data_def)
next
  case S: (Some a)
  show ?thesis
  proof (cases "data_callback m (settings G)")
    case None
    then show ?thesis using assms S by (simp add: callback_data_len_def after_data_def)
  next
    case (Some g)
    let ?p = "g ((parser x)\<lparr>state := p_state x\<rparr>) (take (cur x - a + extra) (drop a (data G))) (udata x)"
    have "fst ?p = 0" "fst (snd ?p) = (parser x)\<lparr>state := p_state x\<rparr>"
      using assms(1) Some by (auto simp: accepts_data_cb_def)
    then show ?thesis
      using Some S assms(2) callback_result_keeps [OF _ assms(2), of ?p "data_error m" er "\<lambda>x. k (clear_mark m x)"]
      by (simp add: callback_data_len_def after_data_def Let_def)
  qed
qed

lemma after_simps [simp]:
  "http_errno (parser (after_notify f x)) = http_errno (parser x)" "p_state (after_notify f x) = p_state x"
  "cur (after_notify f x) = cur x" "marks (after_notify f x) = marks x" "l_nread (after_notify f x) = l_nread x"
  "http_errno (parser (after_data G m e x)) = http_errno (parser x)" "p_state (after_data G m e x) = p_state x"
  "cur (after_data G m e x) = cur x" "l_nread (after_data G m e x) = l_nread x"
  "marks (after_data G m e x) = (marks x)(m := None)"
  by (auto simp: after_notify_def after_data_def split: option.split)

lemma run_env_of_simps [simp]:
  "settings (run_env_of S limit ps d) = S" "data (run_env_of S limit ps d) = d"
  "max_header_size (run_env_of S limit ps d) = limit" "lenient (run_env_of S limit ps d) = lenient_http_headers ps"
  "chunked_length_ok (run_env_of S limit ps d) = allow_chunked_length ps"
  by (simp_all add: run_env_of_def)

lemma start_run_simps [simp]:
  "parser (start_run ps u) = ps" "udata (start_run ps u) = u" "p_state (start_run ps u) = state ps"
  "l_nread (start_run ps u) = nread ps" "cur (start_run ps u) = 0" "marks (start_run ps u) = first_marks (state ps)"
  by (simp_all add: start_run_def)

lemma http_parser_execute_run:
  "http_errno ps = HPE_OK \<Longrightarrow> d \<noteq> [] \<Longrightarrow>
     http_parser_execute S limit ps u d = exec_bytes (run_env_of S limit ps d) (start_run ps u)"
  by (simp add: http_parser_execute_def Let_def)

lemma after_parser_simps [simp]:
  "header_state (parser (after_notify f x)) = header_state (parser x)" "header_state (parser (after_data G m e x)) = header_state (parser x)"
  "uses_transfer_encoding (parser (after_notify f x)) = uses_transfer_encoding (parser x)"
  "uses_transfer_encoding (parser (after_data G m e x)) = uses_transfer_encoding (parser x)"
  "flags (parser (after_notify f x)) = flags (parser x)" "flags (parser (after_data G m e x)) = flags (parser x)"
  "content_length (parser (after_notify f x)) = content_length (parser x)"
  "content_length (parser (after_data G m e x)) = content_length (parser x)"
  "method (parser (after_notify f x)) = method (parser x)" "method (parser (after_data G m e x)) = method (parser x)"
  "index (parser (after_notify f x)) = index (parser x)" "index (parser (after_data G m e x)) = index (parser x)"
  "ptype (parser (after_notify f x)) = ptype (parser x)" "ptype (parser (after_data G m e x)) = ptype (parser x)"
  "upgrade (parser (after_notify f x)) = upgrade (parser x)" "upgrade (parser (after_data G m e x)) = upgrade (parser x)"
  "F_has (parser (after_notify f x)) = F_has (parser x)" "F_has (parser (after_data G m e x)) = F_has (parser x)"
  by (auto simp: after_notify_def after_data_def F_has_def fun_eq_iff split: option.split)

subsection \<open>Single bytes\<close>

definition counts :: "'u run_env \<Rightarrow> 'u exec \<Rightarrow> bool" where
  "counts G x \<longleftrightarrow> (parsing_header (p_state x) \<longrightarrow> l_nread x < max_header_size G \<and> l_nread x + 1 < 2 ^ 32)"

definition take_byte :: "'u run_env \<Rightarrow> 'u exec \<Rightarrow> 'u exec" where
  "take_byte G x = x\<lparr>xch := data G ! cur x, l_nread := (if parsing_header (p_state x) then l_nread x + 1 else l_nread x)\<rparr>"

lemma take_byte_simps [simp]:
  "parser (take_byte G x) = parser x" "p_state (take_byte G x) = p_state x" "cur (take_byte G x) = cur x"
  "marks (take_byte G x) = marks x" "udata (take_byte G x) = udata x" "xch (take_byte G x) = data G ! cur x"
  "l_nread (take_byte G x) = (if parsing_header (p_state x) then l_nread x + 1 else l_nread x)"
  by (simp_all add: take_byte_def)

lemma exec_bytes_count:
  assumes "cur x < length (data G)" "counts G x"
  shows "exec_bytes G x = (case reexecute G (take_byte G x) of None \<Rightarrow> None
     | Some r \<Rightarrow> (case r of Next x \<Rightarrow> exec_bytes G (x\<lparr>cur := cur x + 1\<rparr>)
                      | Err x \<Rightarrow> Some (exec_error x)
                      | Again x \<Rightarrow> Some Abort | Ret n x \<Rightarrow> Some (Ret n x) | Abort \<Rightarrow> Some Abort))"
  using assms
  by (subst exec_bytes.simps, cases "parsing_header (p_state x)")
    (simp_all add: Let_def counts_def count_header_size_def take_byte_def)

lemma exec_bytes_next:
  assumes "cur x < length (data G)" "counts G x" "exec_state G (take_byte G x) = Next y"
  shows "exec_bytes G x = exec_bytes G (y\<lparr>cur := cur y + 1\<rparr>)"
  using assms by (simp add: exec_bytes_count reexecute.simps)

lemma exec_bytes_error:
  assumes "cur x < length (data G)" "counts G x" "exec_state G (take_byte G x) = Err y"
  shows "exec_bytes G x = Some (exec_error y)"
  using assms by (simp add: exec_bytes_count reexecute.simps)

lemma exec_bytes_again:
  assumes "cur x < length (data G)" "counts G x" "exec_state G (take_byte G x) = Again y" "exec_state G y = Next z"
  shows "exec_bytes G x = exec_bytes G (z\<lparr>cur := cur z + 1\<rparr>)"
  using assms by (simp add: exec_bytes_count reexecute.simps [of G "take_byte G x"] reexecute.simps [of G y])

lemma exec_bytes_again_return:
  assumes "cur x < length (data G)" "counts G x" "exec_state G (take_byte G x) = Again y" "exec_state G y = return n z"
  shows "exec_bytes G x = Some (return n z)"
  using assms by (simp add: exec_bytes_count return_def reexecute.simps [of G "take_byte G x"] reexecute.simps [of G y])

lemma exec_bytes_end: "cur x = length (data G) \<Longrightarrow> exec_bytes G x = Some (exec_end G x)"
  by (simp add: exec_bytes.simps)

lemma exec_end_empty:
  "http_errno (parser x) = HPE_OK \<Longrightarrow> marks x = (\<lambda>_. None) \<Longrightarrow> exec_end G x = return (length (data G)) x"
  by (simp add: exec_end_def callback_data_noadvance_def callback_data_len_def)

lemma exec_end_mark:
  assumes "accepts (settings G)" "http_errno (parser x) = HPE_OK" "marks x = (\<lambda>_. None)(m := Some a)"
  shows "exec_end G x = return (length (data G)) (after_data G m 0 x)"
proof -
  have N: "callback_data_noadvance G m' k y = k (after_data G m' 0 y)" if "http_errno (parser y) = HPE_OK" for m' k and y
    using callback_data_accepts [OF acceptsD(6) [OF assms(1)] that] by (simp add: callback_data_noadvance_def)
  have E: "after_data G m' 0 y = y" if "marks y m' = None" for m' and y
    using that by (simp add: after_data_def)
  show ?thesis
    using assms(2,3) by (cases m) (simp_all add: exec_end_def N E)
qed

subsection \<open>Methods\<close>

abbreviation method_string :: "http_method \<Rightarrow> string" where
  "method_string m \<equiv> method_strings ! method_code m"

definition method_step :: "http_method \<Rightarrow> nat \<Rightarrow> char \<Rightarrow> http_method option" where
  "method_step m i c = (if c = NUL then None else if c = str_at (method_string m) i then Some m else method_switch m i c)"

fun method_run :: "http_method \<Rightarrow> nat \<Rightarrow> string \<Rightarrow> http_method option" where
  "method_run m i [] = Some m"
| "method_run m i (c # cs) = (case method_step m i c of None \<Rightarrow> None | Some m' \<Rightarrow> method_run m' (i + 1) cs)"

lemma method_step_prefix:
  assumes "method_step m i c = Some m'"
  shows "i < length (method_string m')" "take (i + 1) (method_string m') = take i (method_string m) @ [c]"
proof -
  have *: "i < length (method_string m') \<and> take i (method_string m') = take i (method_string m) \<and> method_string m' ! i = c"
  proof (cases "c = str_at (method_string m) i")
    case True
    then have "m' = m" "c \<noteq> NUL" using assms by (simp_all add: method_step_def split: if_splits)
    moreover have "i < length (method_string m)" using True \<open>c \<noteq> NUL\<close> str_at_in by metis
    ultimately show ?thesis using True by (simp add: str_at_def)
  next
    case False
    then have "method_switch m i c = Some m'" using assms by (simp add: method_step_def split: if_splits)
    then show ?thesis using method_switch_prefix by blast
  qed
  then show "i < length (method_string m')" "take (i + 1) (method_string m') = take i (method_string m) @ [c]"
    by (simp_all add: take_Suc_conv_app_nth)
qed

lemma method_run_prefix:
  "method_run m i cs = Some m' \<Longrightarrow> i \<le> length (method_string m) \<Longrightarrow>
     i + length cs \<le> length (method_string m') \<and> take (i + length cs) (method_string m') = take i (method_string m) @ cs"
proof (induction cs arbitrary: m i)
  case (Cons c cs)
  then obtain n where n: "method_step m i c = Some n" "method_run n (i + 1) cs = Some m'" by (auto split: option.splits)
  then show ?case using Cons.IH [OF n(2)] method_step_prefix [OF n(1)] by simp
qed simp

lemma method_run_all: "\<exists>c cs n. method_string m = c # cs \<and> first_method c = Some n \<and> method_run n 1 cs = Some m"
  by (cases m) (simp_all add: method_strings_def first_method_def method_step_def method_switch_def str_at_def)

lemma method_run_of: "method_string m = c # cs \<Longrightarrow> \<exists>n. first_method c = Some n \<and> method_run n 1 cs = Some m"
  using method_run_all [of m] by auto

lemma first_method_first: "first_method c = Some m \<Longrightarrow> IS_ALPHA c \<and> method_string m ! 0 = c"
  by (auto simp: first_method_def method_strings_def IS_ALPHA_def split: if_splits)

lemma method_switch_letter: "method_switch m i c = Some n \<Longrightarrow> code c \<ge> 65 \<and> code c \<le> 90 \<or> c = CHR ''-''"
  by (auto simp: method_switch_def split: if_splits)

lemma do_req_method_step:
  assumes "index (parser x) \<le> length (method_string (method (parser x)))" "xch x \<noteq> CHR '' ''"
  shows "do_req_method G x = (case method_step (method (parser x)) (index (parser x)) (xch x) of
      None \<Rightarrow> fail HPE_INVALID_METHOD x
    | Some m \<Rightarrow> Next (upd inc_index (upd (\<lambda>ps. ps\<lparr>method := m\<rparr>) x)))"
proof -
  have "(upd (\<lambda>ps. ps\<lparr>method := method (parser x)\<rparr>) x) = x" by (simp add: upd_def)
  then show ?thesis
    using assms method_switch_letter [of "method (parser x)" "index (parser x)" "xch x"]
    by (auto simp: do_req_method_def Let_def method_step_def split: option.split)
qed

lemma method_string_chars: "c \<in> set (method_string m) \<Longrightarrow> c \<noteq> CHR '' '' \<and> c \<noteq> NUL"
  by (cases m) (auto simp: method_strings_def)

lemma blank_ends_method:
  assumes "index (parser x) \<le> length (method_string (method (parser x)))" "xch x = CHR '' ''"
  shows "do_req_method G x = (if index (parser x) = length (method_string (method (parser x)))
    then Next (update_state s_req_spaces_before_url (upd inc_index x)) else fail HPE_INVALID_METHOD x)"
proof (cases "index (parser x) = length (method_string (method (parser x)))")
  case True
  then show ?thesis using assms(2) by (simp add: do_req_method_def Let_def str_at_def)
next
  case False
  then have "str_at (method_string (method (parser x))) (index (parser x)) \<in> set (method_string (method (parser x)))"
    using assms(1) by (simp add: str_at_def)
  from method_string_chars [OF this] show ?thesis
    using False assms by (auto simp: do_req_method_def Let_def)
qed

lemma drop_ConsD: "drop i d = c # r \<Longrightarrow> i < length d \<and> d ! i = c \<and> drop (i + 1) d = r"
  by (metis Suc_eq_plus1 drop_eq_Nil drop_Suc list.distinct(1) list.sel(3) not_le nth_via_drop tl_drop)

lemma exec_method:
  assumes "http_errno (parser x) = HPE_OK" "p_state x = s_req_method" "marks x = (\<lambda>_. None)"
    "index (parser x) \<le> length (method_string (method (parser x)))"
    "drop (cur x) (data G) = cs @ '' ''" "\<forall>c\<in>set cs. c \<noteq> CHR '' ''"
    "l_nread x + length cs < max_header_size G" "max_header_size G < 2 ^ 32"
  shows "\<exists>n y. exec_bytes G x = Some (Ret n y) \<and>
    (case method_run (method (parser x)) (index (parser x)) cs of
       Some m \<Rightarrow> if index (parser x) + length cs = length (method_string m)
         then http_errno (parser y) = HPE_OK \<and> state (parser y) = s_req_spaces_before_url \<and> method (parser y) = m
         else http_errno (parser y) = HPE_INVALID_METHOD
     | None \<Rightarrow> http_errno (parser y) = HPE_INVALID_METHOD)"
  using assms
proof (induction cs arbitrary: x)
  case Nil
  let ?x = "take_byte G x"
  have L: "cur x < length (data G)" "data G ! cur x = CHR '' ''" "length (data G) = cur x + 1"
    using drop_ConsD [of "cur x" "data G" "CHR '' ''" "[]"] Nil.prems(5) by auto
  have C: "counts G x" using Nil.prems by (simp add: counts_def parsing_header_def)
  have E: "exec_state G ?x = do_req_method G ?x" using Nil.prems(2) by (simp add: exec_state_def)
  show ?case
  proof (cases "index (parser x) = length (method_string (method (parser x)))")
    case True
    let ?y = "update_state s_req_spaces_before_url (upd inc_index ?x)"
    have "exec_bytes G x = exec_bytes G (?y\<lparr>cur := cur ?y + 1\<rparr>)"
      using exec_bytes_next [OF L(1) C, of ?y] E L(2) True Nil.prems(4) by (simp add: blank_ends_method)
    also have "\<dots> = Some (return (length (data G)) (?y\<lparr>cur := cur ?y + 1\<rparr>))"
      using L(3) Nil.prems(1,3) by (simp add: exec_bytes_end exec_end_empty)
    finally show ?thesis using True Nil.prems(1) by (simp add: return_def)
  next
    case False
    then have "exec_bytes G x = Some (exec_error (set_errno HPE_INVALID_METHOD ?x))"
      using exec_bytes_error [OF L(1) C] E L(2) Nil.prems(4) by (simp add: blank_ends_method fail_def)
    then show ?thesis using False by (simp add: exec_error_def return_def)
  qed
next
  case (Cons c cs)
  let ?x = "take_byte G x"
  have L: "cur x < length (data G)" "data G ! cur x = c" "drop (cur x + 1) (data G) = cs @ '' ''"
    using drop_ConsD [of "cur x" "data G" c "cs @ '' ''"] Cons.prems(5) by auto
  have C: "counts G x" using Cons.prems by (simp add: counts_def parsing_header_def)
  have E: "exec_state G ?x = (case method_step (method (parser x)) (index (parser x)) c of
      None \<Rightarrow> fail HPE_INVALID_METHOD ?x
    | Some m \<Rightarrow> Next (upd inc_index (upd (\<lambda>ps. ps\<lparr>method := m\<rparr>) ?x)))"
    using Cons.prems(2,4,6) L(2) by (simp add: exec_state_def do_req_method_step)
  show ?case
  proof (cases "method_step (method (parser x)) (index (parser x)) c")
    case None
    then have "exec_bytes G x = Some (exec_error (set_errno HPE_INVALID_METHOD ?x))"
      using exec_bytes_error [OF L(1) C] E by (simp add: fail_def)
    then show ?thesis using None by (simp add: exec_error_def return_def)
  next
    case (Some m)
    let ?y = "upd inc_index (upd (\<lambda>ps. ps\<lparr>method := m\<rparr>) ?x)"
    let ?z = "?y\<lparr>cur := cur ?y + 1\<rparr>"
    have "exec_bytes G x = exec_bytes G ?z" using exec_bytes_next [OF L(1) C, of ?y] E Some by simp
    moreover have I: "index (parser ?z) = index (parser x) + 1" "index (parser x) + 1 \<le> length (method_string m)"
      using method_step_prefix(1) [OF Some] method_string_len [of m] by simp_all
    moreover have "\<exists>n y. exec_bytes G ?z = Some (Ret n y) \<and>
      (case method_run (method (parser ?z)) (index (parser ?z)) cs of
       Some m \<Rightarrow> if index (parser ?z) + length cs = length (method_string m)
         then http_errno (parser y) = HPE_OK \<and> state (parser y) = s_req_spaces_before_url \<and> method (parser y) = m
         else http_errno (parser y) = HPE_INVALID_METHOD
     | None \<Rightarrow> http_errno (parser y) = HPE_INVALID_METHOD)"
      by (rule Cons.IH) (use Cons.prems L(3) I in \<open>simp_all add: parsing_header_def\<close>)
    ultimately show ?thesis using Some by (simp cong: option.case_cong)
  qed
qed

text \<open>C25: The parser knows exactly the methods of its table. A request parser that is given a word without
  blanks or line ends and then a blank is at the URL, with that method, if the word is one of the 34
  method names (in capitals); otherwise it stops with \<open>HPE_INVALID_METHOD\<close>. The character-by-character
  switching between methods that share a prefix neither misses a name nor lets another word through.\<close>
theorem method_recognised:
  assumes "accepts S" "s \<noteq> []" "\<forall>c\<in>set s. c \<notin> {CHR '' '', CR, LF}" "length s < limit" "limit < 2 ^ 32"
  shows "\<exists>n x. http_parser_execute S limit (http_parser_init HTTP_REQUEST) u (s @ '' '') = Some (Ret n x) \<and>
    (if \<exists>m. s = method_string m
     then http_errno (parser x) = HPE_OK \<and> state (parser x) = s_req_spaces_before_url \<and> method_string (method (parser x)) = s
     else http_errno (parser x) = HPE_INVALID_METHOD)"
proof -
  obtain c cs where s: "s = c # cs" using assms(2) by (cases s) auto
  let ?G = "run_env_of S limit (http_parser_init HTTP_REQUEST) (s @ '' '')"
  let ?x = "start_run (http_parser_init HTTP_REQUEST) u"
  have P: "http_errno (http_parser_init HTTP_REQUEST) = HPE_OK" "nread (http_parser_init HTTP_REQUEST) = 0"
    "state (http_parser_init HTTP_REQUEST) = s_start_req" "first_marks s_start_req = (\<lambda>_. None)"
    by (auto simp: http_parser_init_def first_marks_def fun_eq_iff split: mark.split)
  have X: "http_parser_execute S limit (http_parser_init HTTP_REQUEST) u (s @ '' '') = exec_bytes ?G ?x"
    using P(1) by (simp add: http_parser_execute_run)
  let ?y = "take_byte ?G ?x"
  have C: "cur ?x < length (data ?G)" "counts ?G ?x" using assms(4) by (simp_all add: P counts_def s)
  have B: "begin_message (http_parser_init HTTP_REQUEST) = (http_parser_init HTTP_REQUEST)\<lparr>content_length := ULLONG_MAX\<rparr>"
    by (simp add: begin_message_def http_parser_init_def)
  have c: "data ?G ! 0 = c" "c \<noteq> CR" "c \<noteq> LF" "c \<noteq> CHR '' ''" using assms(3) by (auto simp: s)
  show ?thesis
  proof (cases "IS_ALPHA c \<and> first_method c \<noteq> None")
    case False
    then have "first_method c = None" using first_method_first by (cases "first_method c") auto
    then have "s \<noteq> method_string m" for m using method_run_of [of m c cs] s by auto
    then have "\<nexists>m. s = method_string m" by blast
    moreover have "\<exists>z. exec_state ?G ?y = Err z \<and> http_errno (parser z) = HPE_INVALID_METHOD"
      using False c by (auto simp: exec_state_def P do_start_req_def Let_def fail_def)
    ultimately show ?thesis
      using exec_bytes_error [OF C] by (auto simp: X exec_error_def return_def)
  next
    case True
    then obtain m where m: "first_method c = Some m" "IS_ALPHA c" by auto
    let ?z = "after_notify (on_message_begin S) (update_state s_req_method (upd (\<lambda>ps. ps\<lparr>method := m\<rparr>)
      (upd (\<lambda>ps. ps\<lparr>method := HTTP_DELETE, index := 1\<rparr>) (upd begin_message ?y))))"
    have A: "accepts_cb (on_message_begin S)" using assms(1) by (simp add: acceptsD)
    have E: "exec_state ?G ?y = Next ?z"
      using c m A by (simp add: exec_state_def P do_start_req_def Let_def callback_notify_accepts B)
    let ?v = "?z\<lparr>cur := cur ?z + 1\<rparr>"
    have V: "http_errno (parser ?v) = HPE_OK" "p_state ?v = s_req_method" "marks ?v = (\<lambda>_. None)" "cur ?v = 1" "l_nread ?v = 1"
      by (simp_all add: P B parsing_header_def)
    have M: "method (parser ?v) = m" "index (parser ?v) = 1"
      by (simp_all add: after_notify_def split: option.split)
    have "\<exists>n y. exec_bytes ?G ?v = Some (Ret n y) \<and>
      (case method_run (method (parser ?v)) (index (parser ?v)) cs of
       Some m \<Rightarrow> if index (parser ?v) + length cs = length (method_string m)
         then http_errno (parser y) = HPE_OK \<and> state (parser y) = s_req_spaces_before_url \<and> method (parser y) = m
         else http_errno (parser y) = HPE_INVALID_METHOD
     | None \<Rightarrow> http_errno (parser y) = HPE_INVALID_METHOD)"
      by (rule exec_method [OF V(1-3)]) (use M V assms(3-5) first_method_len [OF m(1)] in \<open>simp_all add: s\<close>)
    then obtain n y where y: "exec_bytes ?G ?x = Some (Ret n y)"
      "case method_run m 1 cs of
       Some m \<Rightarrow> if 1 + length cs = length (method_string m)
         then http_errno (parser y) = HPE_OK \<and> state (parser y) = s_req_spaces_before_url \<and> method (parser y) = m
         else http_errno (parser y) = HPE_INVALID_METHOD
     | None \<Rightarrow> http_errno (parser y) = HPE_INVALID_METHOD"
      unfolding exec_bytes_next [OF C E] M by blast
    have "(\<exists>m'. s = method_string m') \<longleftrightarrow> (\<exists>m'. method_run m 1 cs = Some m' \<and> s = method_string m')"
      using method_run_of [of _ c cs] m(1) s by (metis option.inject)
    moreover have "method_run m 1 cs = Some m' \<Longrightarrow> s = method_string m' \<longleftrightarrow> 1 + length cs = length (method_string m')" for m'
      using method_run_prefix [of m 1 cs m'] first_method_len [OF m(1)] first_method_first [OF m(1)] s
      by (cases "method_string m") auto
    ultimately show ?thesis
      using y by (cases "method_run m 1 cs") (auto simp: X split: if_splits)
  qed
qed

lemma accepts_init: "accepts http_parser_settings_init"
  by (simp add: accepts_def accepts_cb_def accepts_data_cb_def all_marks http_parser_settings_init_def)

theorem method_recognised_witness:
  "\<exists>n x. http_parser_execute http_parser_settings_init 81920 (http_parser_init HTTP_REQUEST) () (''PROPPATCH'' @ '' '') = Some (Ret n x) \<and>
    (if \<exists>m. ''PROPPATCH'' = method_string m
     then http_errno (parser x) = HPE_OK \<and> state (parser x) = s_req_spaces_before_url \<and> method_string (method (parser x)) = ''PROPPATCH''
     else http_errno (parser x) = HPE_INVALID_METHOD)"
  by (rule method_recognised [OF accepts_init]) simp_all

end
