(* ===== verification/HttpBody.thy ===== *)
theory HttpBody
  imports HttpRun
begin

section \<open>Bodies and their sizes\<close>

text \<open>
  What the parser does with the bytes of a body of a given length, and how it reads the two numbers
  that say how long a body or a chunk is.
\<close>

subsection \<open>A body of a given length\<close>

text \<open>Feeding the parser one buffer after another, as long as each is taken whole and without error.\<close>

fun http_feed :: "'u http_parser_settings \<Rightarrow> nat \<Rightarrow> http_parser \<Rightarrow> 'u \<Rightarrow> string list \<Rightarrow> (http_parser \<times> 'u) option" where
  "http_feed S limit ps u [] = Some (ps, u)"
| "http_feed S limit ps u (d # ds) = (case http_parser_execute S limit ps u d of
      Some (Ret n x) \<Rightarrow>
        (if n = length d \<and> http_errno (parser x) = HPE_OK then http_feed S limit (parser x) (udata x) ds else None)
    | _ \<Rightarrow> None)"

text \<open>Callbacks that collect the body and count the messages.\<close>

definition collect_body :: "(string \<times> nat) http_data_cb" where
  "collect_body ps t u = (0, ps, (fst u @ t, snd u))"

definition count_message :: "(string \<times> nat) http_cb" where
  "count_message ps u = (0, ps, (fst u, snd u + 1))"

definition body_parser :: "http_parser \<Rightarrow> bool" where
  "body_parser ps \<longleftrightarrow> http_errno ps = HPE_OK \<and> state ps = s_body_identity \<and> 0 < content_length ps \<and> content_length ps < ULLONG_MAX"

definition after_body :: "nat \<Rightarrow> http_parser \<Rightarrow> http_parser" where
  "after_body n ps = ps\<lparr>content_length := content_length ps - n,
     state := (if n = content_length ps then new_message (ps\<lparr>content_length := 0\<rparr>) else s_body_identity)\<rparr>"

lemma new_message_state [simp]: "new_message (ps\<lparr>state := s\<rparr>) = new_message ps"
  by (simp add: new_message_def start_state_def http_should_keep_alive_def http_message_needs_eof_def F_has_def)

lemma new_message_content [simp]:
  "new_message (ps\<lparr>state := s, content_length := n\<rparr>) = new_message (ps\<lparr>content_length := n\<rparr>)"
  by (simp add: new_message_def start_state_def http_should_keep_alive_def http_message_needs_eof_def F_has_def)

lemma body_call:
  assumes S: "accepts S" "on_body S = Some collect_body" "on_message_complete S = Some count_message"
    and ps: "body_parser ps" "d \<noteq> []" "length d \<le> content_length ps"
  shows "\<exists>x. http_parser_execute S limit ps (b, k) d = Some (Ret (length d) x) \<and> parser x = after_body (length d) ps \<and>
    udata x = (b @ d, if length d = content_length ps then k + 1 else k)"
proof -
  let ?G = "run_env_of S limit ps d" and ?x = "start_run ps (b, k)"
  have P: "http_errno ps = HPE_OK" "state ps = s_body_identity" "0 < content_length ps" "content_length ps < ULLONG_MAX"
    using ps(1) by (simp_all add: body_parser_def)
  have M: "marks ?x = (\<lambda>_. None)" by (auto simp: P first_marks_def fun_eq_iff split: mark.split)
  have X: "http_parser_execute S limit ps (b, k) d = exec_bytes ?G ?x"
    using P ps(2) by (simp add: http_parser_execute_run)
  have C: "cur ?x < length (data ?G)" "counts ?G ?x" using ps(2) by (simp_all add: counts_def P parsing_header_def)
  let ?y = "take_byte ?G ?x"
  let ?t = "take_body ?G ?y"
  have T: "cur ?t = length d - 1" "p_state ?t = s_body_identity" "parser ?t = ps\<lparr>content_length := content_length ps - length d\<rparr>"
    "marks ?t = (\<lambda>_. None)(M_body := Some 0)" "udata ?t = (b, k)" "l_nread ?t = nread ps"
    using ps(3) M by (simp_all add: take_body_def Let_def P parsing_header_def)
  have L: "length d - 1 + 1 = length d" using ps(2) by simp
  show ?thesis
  proof (cases "length d = content_length ps")
    case False
    then have E: "exec_state ?G ?y = Next ?t"
      using P ps by (simp add: exec_state_def do_body_identity_def Let_def T)
    let ?z = "?t\<lparr>cur := cur ?t + 1\<rparr>"
    have "exec_bytes ?G ?x = exec_bytes ?G ?z" by (rule exec_bytes_next [OF C E])
    also have "\<dots> = Some (return (length d) (after_data ?G M_body 0 ?z))"
      using T L S(1) P by (simp add: exec_bytes_end exec_end_mark)
    finally show ?thesis
      using False T L S(2) by (simp add: X return_def after_data_def collect_body_def sync_def clear_mark_def upd_def after_body_def)
  next
    case True
    let ?s = "after_data ?G M_body 1 (update_state s_message_done ?t)"
    have s: "parser ?s = ps\<lparr>content_length := 0, state := s_message_done\<rparr>" "p_state ?s = s_message_done" "cur ?s = length d - 1"
      "udata ?s = (b @ d, k)" "marks ?s = (\<lambda>_. None)" "l_nread ?s = nread ps"
      using T L S(2) True by (simp_all add: after_data_def collect_body_def)
    have E: "exec_state ?G ?y = Again ?s"
      using P ps True S(1) T by (simp add: exec_state_def do_body_identity_def Let_def callback_data_accepts acceptsD)
    let ?e = "after_notify (Some count_message) (update_state (new_message (ps\<lparr>content_length := 0\<rparr>)) ?s)"
    have e: "parser ?e = ps\<lparr>content_length := 0, state := new_message (ps\<lparr>content_length := 0\<rparr>)\<rparr>"
      "p_state ?e = new_message (ps\<lparr>content_length := 0\<rparr>)" "cur ?e = length d - 1" "udata ?e = (b @ d, k + 1)"
      "marks ?e = (\<lambda>_. None)" "l_nread ?e = nread ps"
      using s by (simp_all add: after_notify_def count_message_def)
    have A: "accepts_cb (Some count_message)" by (simp add: accepts_cb_def count_message_def)
    have E2: "exec_state ?G ?s = (if upgrade ps then return (length d) ?e else Next ?e)"
      using s e P L S(1,3)
      by (simp add: exec_state_def do_message_done_def message_complete_def callback_notify_accepts A)
    have R: "exec_bytes ?G ?x = Some (return (length d) ?e) \<or> exec_bytes ?G ?x = Some (return (length d) (?e\<lparr>cur := cur ?e + 1\<rparr>))"
    proof (cases "upgrade ps")
      case True
      then show ?thesis using exec_bytes_again_return [OF C E] E2 by simp
    next
      case False
      then have "exec_bytes ?G ?x = exec_bytes ?G (?e\<lparr>cur := cur ?e + 1\<rparr>)"
        using exec_bytes_again [OF C E] E2 by simp
      also have "\<dots> = Some (return (length d) (?e\<lparr>cur := cur ?e + 1\<rparr>))"
        using e P L by (simp add: exec_bytes_end exec_end_empty)
      finally show ?thesis by simp
    qed
    then show ?thesis
      using True e by (auto simp: X return_def after_body_def)
  qed
qed

text \<open>A body of known length is delivered whole, whatever the buffers. While a parser reads a body
  with \<open>n\<close> bytes left, any sequence of non-empty buffers with \<open>n\<close> bytes together is taken without
  error; \<open>on_body\<close> gets exactly these bytes, in order; \<open>on_message_complete\<close> is called once, at the end;
  and the parser is then ready for the next message (or closed, when the connection is not kept alive).\<close>
theorem body_delivered:
  assumes "accepts S" "on_body S = Some collect_body" "on_message_complete S = Some count_message"
    and "body_parser ps" "[] \<notin> set ds" "length (concat ds) = content_length ps"
  shows "http_feed S limit ps (b, k) ds =
    Some (ps\<lparr>content_length := 0, state := new_message (ps\<lparr>content_length := 0\<rparr>)\<rparr>, (b @ concat ds, k + 1))"
  using assms(4-6)
proof (induction ds arbitrary: ps b)
  case Nil
  then show ?case by (simp add: body_parser_def)
next
  case (Cons d ds)
  have ps: "body_parser ps" "d \<noteq> []" "length d \<le> content_length ps" using Cons.prems by auto
  obtain x where x: "http_parser_execute S limit ps (b, k) d = Some (Ret (length d) x)" "parser x = after_body (length d) ps"
    "udata x = (b @ d, if length d = content_length ps then k + 1 else k)"
    using body_call [OF assms(1-3) ps] by blast
  have O: "http_errno (after_body (length d) ps) = HPE_OK"
    using ps(1) by (simp add: after_body_def body_parser_def)
  show ?case
  proof (cases "length d = content_length ps")
    case True
    then have "ds = []" using Cons.prems by (cases ds) auto
    then show ?thesis using x O True by (simp add: after_body_def)
  next
    case False
    then have "body_parser (after_body (length d) ps)" using ps by (auto simp: after_body_def body_parser_def)
    from Cons.IH [OF this, of "b @ d"]
    show ?thesis using x O False Cons.prems by (simp add: after_body_def)
  qed
qed

theorem body_delivered_witness:
  "http_feed (http_parser_settings_init\<lparr>on_body := Some collect_body, on_message_complete := Some count_message\<rparr>) 81920
     ((http_parser_init HTTP_REQUEST)\<lparr>state := s_body_identity, content_length := 5\<rparr>) ([], 0) [''he'', ''llo''] =
   Some ((http_parser_init HTTP_REQUEST)\<lparr>state := s_body_identity, content_length := 5\<rparr>
       \<lparr>content_length := 0, state := new_message ((http_parser_init HTTP_REQUEST)\<lparr>state := s_body_identity, content_length := 5\<rparr>\<lparr>content_length := 0\<rparr>)\<rparr>,
     ([] @ concat [''he'', ''llo''], 0 + 1))"
proof (rule body_delivered)
  show "accepts (http_parser_settings_init\<lparr>on_body := Some collect_body, on_message_complete := Some count_message\<rparr>)"
    by (simp add: accepts_def accepts_cb_def accepts_data_cb_def all_marks http_parser_settings_init_def collect_body_def count_message_def)
qed (simp_all add: body_parser_def http_parser_init_def ULLONG_MAX_def)

subsection \<open>Reading a length\<close>

definition digits_value :: "nat \<Rightarrow> string \<Rightarrow> nat" where
  "digits_value n ds = foldl (\<lambda>v c. v * 10 + digit c) n ds"

lemma digits_value_simps [simp]:
  "digits_value n [] = n" "digits_value n (c # ds) = digits_value (n * 10 + digit c) ds"
  by (simp_all add: digits_value_def)

lemma digits_value_ge: "n \<le> digits_value n ds"
proof (induction ds arbitrary: n)
  case (Cons c ds)
  show ?case using Cons [of "n * 10 + digit c"] by simp
qed simp

text \<open>A run of digits is refused exactly when the number reaches \<open>length_limit\<close>.\<close>

definition length_limit :: nat where
  "length_limit = 2 ^ 64 - 6"

definition fits :: "nat \<Rightarrow> string \<Rightarrow> bool" where
  "fits n ds \<longleftrightarrow> ds = [] \<or> digits_value n ds < length_limit"

lemma IS_NUM_facts:
  assumes "IS_NUM c"
  shows "digit c \<le> 9" "c \<noteq> CHR '' ''" "c \<noteq> CR" "c \<noteq> LF" "IS_HEADER_CHAR c"
  using assms by (auto simp: IS_NUM_def digit_def IS_HEADER_CHAR_def)

lemma fits_Cons: "IS_NUM c \<Longrightarrow> fits n (c # ds) \<longleftrightarrow> n \<le> (ULLONG_MAX - 10) div 10 \<and> fits (n * 10 + digit c) ds"
  using IS_NUM_facts(1) [of c] digits_value_ge [of "n * 10 + digit c" ds]
  by (cases ds) (auto simp: fits_def length_limit_def ULLONG_MAX_def)

lemma value_loop_digits:
  assumes "drop (cur x) (data G) = ds" "\<forall>c\<in>set ds. IS_NUM c" "content_length (parser x) < length_limit" "cur x \<le> length (data G)"
  shows "\<exists>y. if fits (content_length (parser x)) ds
    then value_loop G start h_content_length_num x = value_end G start h_content_length_num y \<and>
      parser y = (parser x)\<lparr>content_length := digits_value (content_length (parser x)) ds\<rparr> \<and> p_state y = p_state x \<and>
      marks y = marks x \<and> cur y = length (data G) \<and> l_nread y = l_nread x \<and> udata y = udata x
    else value_loop G start h_content_length_num x = Err y \<and> http_errno (parser y) = HPE_INVALID_CONTENT_LENGTH"
  using assms
proof (induction ds arbitrary: x)
  case Nil
  then have "value_loop G start h_content_length_num x = value_end G start h_content_length_num x" by (simp add: value_loop.simps)
  then show ?case using Nil by (intro exI [of _ x]) (simp add: fits_def)
next
  case (Cons c ds)
  have c: "cur x < length (data G)" "data G ! cur x = c" "drop (cur x + 1) (data G) = ds" "IS_NUM c"
    using drop_ConsD [OF Cons.prems(1)] Cons.prems(2) by simp_all
  let ?n = "content_length (parser x)"
  let ?x = "x\<lparr>xch := c\<rparr>"
  show ?case
  proof (cases "?n \<le> (ULLONG_MAX - 10) div 10")
    case False
    then have "value_loop G start h_content_length_num x =
        Err (upd (\<lambda>ps. ps\<lparr>header_state := h_content_length_num\<rparr>) (set_errno HPE_INVALID_CONTENT_LENGTH ?x))"
      using c IS_NUM_facts [OF c(4)]
      by (simp add: value_loop.simps Let_def value_char_def value_content_length_def value_error_def not_le)
    then show ?thesis using False by (simp add: fits_Cons c(4))
  next
    case True
    have N: "?n * 10 + digit c < length_limit" using True IS_NUM_facts(1) [OF c(4)] by (simp add: ULLONG_MAX_def length_limit_def)
    then have W: "(?n * 10 + digit c) mod 2 ^ 64 = ?n * 10 + digit c" by (simp add: length_limit_def)
    let ?y = "upd (\<lambda>ps. ps\<lparr>content_length := ?n * 10 + digit c\<rparr>) ?x"
    let ?z = "?y\<lparr>cur := cur ?y + 1\<rparr>"
    have "value_loop G start h_content_length_num x = value_loop G start h_content_length_num ?z"
      using True c IS_NUM_facts [OF c(4)] W
      by (subst value_loop.simps) (simp add: Let_def value_char_def value_content_length_def upd_def)
    moreover have "\<exists>y. if fits (content_length (parser ?z)) ds
      then value_loop G start h_content_length_num ?z = value_end G start h_content_length_num y \<and>
        parser y = (parser ?z)\<lparr>content_length := digits_value (content_length (parser ?z)) ds\<rparr> \<and> p_state y = p_state ?z \<and>
        marks y = marks ?z \<and> cur y = length (data G) \<and> l_nread y = l_nread ?z \<and> udata y = udata ?z
      else value_loop G start h_content_length_num ?z = Err y \<and> http_errno (parser y) = HPE_INVALID_CONTENT_LENGTH"
      by (rule Cons.IH) (use c N Cons.prems(2) in simp_all)
    ultimately show ?thesis using True by (simp add: fits_Cons c(4) cong: if_cong)
  qed
qed

lemma exec_value_digits:
  assumes S: "accepts (settings G)"
    and x: "http_errno (parser x) = HPE_OK" "p_state x = s_header_value" "header_state (parser x) = h_content_length_num"
      "marks x = (\<lambda>_. None)(M_header_value := Some a)" "content_length (parser x) < length_limit" "cur x \<le> length (data G)"
    and ds: "drop (cur x) (data G) = ds" "\<forall>c\<in>set ds. IS_NUM c"
    and n: "l_nread x + length ds \<le> max_header_size G" "max_header_size G < 2 ^ 32"
  shows "\<exists>n y. exec_bytes G x = Some (Ret n y) \<and>
    (if fits (content_length (parser x)) ds
     then http_errno (parser y) = HPE_OK \<and> content_length (parser y) = digits_value (content_length (parser x)) ds \<and>
       flags (parser y) = flags (parser x) \<and> state (parser y) = s_header_value
     else http_errno (parser y) = HPE_INVALID_CONTENT_LENGTH)"
proof -
  have D: "http_errno (parser (after_data G M_header_value 0 y)) = http_errno (parser y) \<and>
      content_length (parser (after_data G M_header_value 0 y)) = content_length (parser y) \<and>
      flags (parser (after_data G M_header_value 0 y)) = flags (parser y)" for y
    by (simp add: after_data_def split: option.split)
  show ?thesis
  proof (cases ds)
    case Nil
    then have L: "cur x = length (data G)" using ds(1) x(6) by simp
    then have "exec_bytes G x = Some (return (length (data G)) (after_data G M_header_value 0 x))"
      using S x by (simp add: exec_bytes_end exec_end_mark)
    then show ?thesis using Nil x(1,2) D [of x] by (simp add: return_def fits_def)
  next
    case (Cons c cs)
    have L: "cur x < length (data G)" using ds(1) Cons x(6) by (metis drop_eq_Nil le_neq_implies_less list.distinct(1))
    have C: "counts G x" using n Cons by (simp add: counts_def)
    let ?x = "take_byte G x"
    have E: "exec_state G ?x = value_loop G (cur x) h_content_length_num ?x"
      using x by (simp add: exec_state_def do_header_value_def)
    obtain y where y: "if fits (content_length (parser ?x)) ds
      then value_loop G (cur x) h_content_length_num ?x = value_end G (cur x) h_content_length_num y \<and>
        parser y = (parser ?x)\<lparr>content_length := digits_value (content_length (parser ?x)) ds\<rparr> \<and> p_state y = p_state ?x \<and>
        marks y = marks ?x \<and> cur y = length (data G) \<and> l_nread y = l_nread ?x \<and> udata y = udata ?x
      else value_loop G (cur x) h_content_length_num ?x = Err y \<and> http_errno (parser y) = HPE_INVALID_CONTENT_LENGTH"
      using value_loop_digits [of ?x G ds "cur x"] ds x by auto
    show ?thesis
    proof (cases "fits (content_length (parser x)) ds")
      case False
      then show ?thesis using exec_bytes_error [OF L C, of y] E y by (simp add: exec_error_def return_def)
    next
      case True
      let ?l = "length (data G)"
      have len: "?l = cur x + length ds" using ds(1) L by (metis add.commute diff_add_inverse2 le_add_diff_inverse length_drop less_imp_le_nat)
      let ?z = "(upd (\<lambda>ps. ps\<lparr>header_state := h_content_length_num\<rparr>) y)\<lparr>cur := ?l - 1, l_nread := l_nread x + length ds\<rparr>"
      have F: "value_end G (cur x) h_content_length_num y = Next ?z"
        using y True n Cons len x(2)
        by (simp add: value_end_def Let_def count_header_size_def parsing_header_def)
      have "exec_bytes G x = exec_bytes G (?z\<lparr>cur := cur ?z + 1\<rparr>)"
        by (rule exec_bytes_next [OF L C]) (use E y True F in simp)
      also have "\<dots> = Some (return ?l (after_data G M_header_value 0 (?z\<lparr>cur := cur ?z + 1\<rparr>)))"
        using S x y True L by (simp add: exec_bytes_end exec_end_mark)
      finally show ?thesis
        using True y x D [of "?z\<lparr>cur := cur ?z + 1\<rparr>"] by (simp add: return_def)
    qed
  qed
qed

text \<open>C27: A Content-Length is read exactly or refused. At the value of a Content-Length header, a run of
  digits is taken as the number it denotes, with no loss and with the flag that one was seen, when the
  number is below 18446744073709551610; a larger one is refused with \<open>HPE_INVALID_CONTENT_LENGTH\<close>
  before it can wrap around in 64 bits; and a second Content-Length header of the same message is
  refused with \<open>HPE_UNEXPECTED_CONTENT_LENGTH\<close>.\<close>
theorem content_length_read:
  assumes "accepts S" "http_errno ps = HPE_OK" "state ps = s_header_value_discard_ws" "header_state ps = h_content_length"
    and "ds \<noteq> []" "\<forall>c\<in>set ds. IS_NUM c" "nread ps + length ds \<le> limit" "limit < 2 ^ 32"
  shows "\<exists>n x. http_parser_execute S limit ps u ds = Some (Ret n x) \<and>
    (if F_has ps F_CONTENTLENGTH then http_errno (parser x) = HPE_UNEXPECTED_CONTENT_LENGTH
     else if digits_value 0 ds < 18446744073709551610
     then http_errno (parser x) = HPE_OK \<and> state (parser x) = s_header_value \<and>
       content_length (parser x) = digits_value 0 ds \<and> F_has (parser x) F_CONTENTLENGTH
     else http_errno (parser x) = HPE_INVALID_CONTENT_LENGTH)"
proof -
  obtain c cs where ds: "ds = c # cs" using assms(5) by (cases ds) auto
  let ?G = "run_env_of S limit ps ds" and ?x = "start_run ps u"
  have X: "http_parser_execute S limit ps u ds = exec_bytes ?G ?x"
    using assms(2,5) by (simp add: http_parser_execute_run)
  have c: "IS_NUM c" using assms(6) ds by simp
  have M: "first_marks s_header_value_discard_ws = (\<lambda>_. None)" by (auto simp: first_marks_def fun_eq_iff split: mark.split)
  have C: "cur ?x < length (data ?G)" "counts ?G ?x" using assms(7,8) by (simp_all add: counts_def ds)
  let ?y = "take_byte ?G ?x"
  let ?z = "upd (\<lambda>ps. F_set F_CONTENTLENGTH ps\<lparr>header_state := h_content_length_num, content_length := digit c\<rparr>)
    (upd (\<lambda>ps. ps\<lparr>index := 0\<rparr>) (update_state s_header_value (set_mark M_header_value ?y)))"
  have c0: "ds ! 0 = c" "c \<noteq> TAB" using c by (auto simp: ds IS_NUM_def)
  have E: "exec_state ?G ?y = (if F_has ps F_CONTENTLENGTH
      then fail HPE_UNEXPECTED_CONTENT_LENGTH (upd (\<lambda>ps. ps\<lparr>index := 0\<rparr>) (update_state s_header_value (set_mark M_header_value ?y)))
      else Next ?z)"
    using IS_NUM_facts [OF c] c c0 assms(3,4)
    by (simp add: exec_state_def do_header_value_discard_ws_def do_header_value_start_def Let_def F_has_def)
  show ?thesis
  proof (cases "F_has ps F_CONTENTLENGTH")
    case True
    then show ?thesis using exec_bytes_error [OF C] E by (simp add: X fail_def exec_error_def return_def)
  next
    case False
    let ?v = "?z\<lparr>cur := cur ?z + 1\<rparr>"
    have R: "exec_bytes ?G ?x = exec_bytes ?G ?v" by (rule exec_bytes_next [OF C]) (use E False in simp)
    have V: "content_length (parser ?v) = digit c" "F_has (parser ?v) F_CONTENTLENGTH" "http_errno (parser ?v) = HPE_OK"
      "header_state (parser ?v) = h_content_length_num"
      using assms(2) by (simp_all add: F_set_def F_has_def bit_set_bit_iff)
    have "\<exists>n y. exec_bytes ?G ?v = Some (Ret n y) \<and>
      (if fits (content_length (parser ?v)) cs
       then http_errno (parser y) = HPE_OK \<and> content_length (parser y) = digits_value (content_length (parser ?v)) cs \<and>
         flags (parser y) = flags (parser ?v) \<and> state (parser y) = s_header_value
       else http_errno (parser y) = HPE_INVALID_CONTENT_LENGTH)"
      by (rule exec_value_digits [of _ _ 0])
        (use assms IS_NUM_facts(1) [OF c] V M in \<open>simp_all add: ds length_limit_def parsing_header_def\<close>)
    then obtain n y where y: "exec_bytes ?G ?x = Some (Ret n y)"
      "if fits (digit c) cs
       then http_errno (parser y) = HPE_OK \<and> content_length (parser y) = digits_value (digit c) cs \<and>
         flags (parser y) = flags (parser ?v) \<and> state (parser y) = s_header_value
       else http_errno (parser y) = HPE_INVALID_CONTENT_LENGTH"
      unfolding R V(1) by blast
    have "fits (digit c) cs \<longleftrightarrow> digits_value 0 ds < 18446744073709551610"
      using IS_NUM_facts(1) [OF c] by (cases cs) (simp_all add: fits_def ds length_limit_def)
    moreover have "F_has (parser y) F_CONTENTLENGTH" if "flags (parser y) = flags (parser ?v)"
      using V(2) that by (simp add: F_has_def)
    moreover have "digits_value (digit c) cs = digits_value 0 ds" by (simp add: ds)
    ultimately show ?thesis unfolding X using y False by (auto split: if_splits)
  qed
qed

theorem content_length_read_witness:
  "\<exists>n x. http_parser_execute http_parser_settings_init 81920
      ((http_parser_init HTTP_REQUEST)\<lparr>state := s_header_value_discard_ws, header_state := h_content_length\<rparr>) () ''1024'' = Some (Ret n x) \<and>
    (if F_has ((http_parser_init HTTP_REQUEST)\<lparr>state := s_header_value_discard_ws, header_state := h_content_length\<rparr>) F_CONTENTLENGTH
     then http_errno (parser x) = HPE_UNEXPECTED_CONTENT_LENGTH
     else if digits_value 0 ''1024'' < 18446744073709551610
     then http_errno (parser x) = HPE_OK \<and> state (parser x) = s_header_value \<and>
       content_length (parser x) = digits_value 0 ''1024'' \<and> F_has (parser x) F_CONTENTLENGTH
     else http_errno (parser x) = HPE_INVALID_CONTENT_LENGTH)"
  by (rule content_length_read [OF accepts_init]) (simp_all add: http_parser_init_def IS_NUM_def)

text \<open>Chunk sizes are hexadecimal.\<close>

definition hex_digit :: "char \<Rightarrow> nat" where
  "hex_digit c = (if IS_NUM c then code c - code CHR ''0'' else code (LOWER c) - code CHR ''a'' + 10)"

definition hex_value :: "nat \<Rightarrow> string \<Rightarrow> nat" where
  "hex_value n hs = foldl (\<lambda>v c. v * 16 + hex_digit c) n hs"

lemma hex_value_simps [simp]:
  "hex_value n [] = n" "hex_value n (c # hs) = hex_value (n * 16 + hex_digit c) hs"
  by (simp_all add: hex_value_def)

lemma hex_value_ge: "n \<le> hex_value n hs"
proof (induction hs arbitrary: n)
  case (Cons c hs)
  show ?case using Cons [of "n * 16 + hex_digit c"] by simp
qed simp

lemma LOWER_code: "code (LOWER c) = code c \<or> code (LOWER c) = code c + 32"
  by (cases c) (simp add: of_char_def)

lemma unhex_hex:
  assumes "IS_HEX c"
  shows "unhex_at c = int (hex_digit c)" "hex_digit c < 16" "c \<noteq> CR"
proof -
  have "unhex_at c = int (hex_digit c) \<and> hex_digit c < 16 \<and> c \<noteq> CR"
  proof (cases "IS_NUM c")
    case True
    then have "code c \<in> {48, 49, 50, 51, 52, 53, 54, 55, 56, 57}" by (simp add: IS_NUM_def) arith
    then show ?thesis using True by (auto simp: unhex_at_def unhex_def hex_digit_def)
  next
    case False
    then have "code (LOWER c) \<in> {97, 98, 99, 100, 101, 102}" using assms by (simp add: IS_HEX_def) arith
    then show ?thesis using False LOWER_code [of c] by (auto simp: unhex_at_def unhex_def hex_digit_def)
  qed
  then show "unhex_at c = int (hex_digit c)" "hex_digit c < 16" "c \<noteq> CR" by simp_all
qed

definition hex_fits :: "nat \<Rightarrow> string \<Rightarrow> bool" where
  "hex_fits n hs \<longleftrightarrow> hs = [] \<or> hex_value n hs < 2 ^ 64 - 16"

lemma hex_fits_Cons: "IS_HEX c \<Longrightarrow> hex_fits n (c # hs) \<longleftrightarrow> n \<le> (ULLONG_MAX - 16) div 16 \<and> hex_fits (n * 16 + hex_digit c) hs"
  using unhex_hex [of c] hex_value_ge [of "n * 16 + hex_digit c" hs]
  by (cases hs) (auto simp: hex_fits_def ULLONG_MAX_def)

lemma exec_chunk_size:
  assumes x: "http_errno (parser x) = HPE_OK" "p_state x = s_chunk_size" "F_has (parser x) F_CHUNKED"
      "marks x = (\<lambda>_. None)" "content_length (parser x) < 2 ^ 64 - 16"
    and hs: "drop (cur x) (data G) = hs" "\<forall>c\<in>set hs. IS_HEX c" "cur x \<le> length (data G)"
    and n: "l_nread x + length hs \<le> max_header_size G" "max_header_size G < 2 ^ 32"
  shows "\<exists>n y. exec_bytes G x = Some (Ret n y) \<and>
    (if hex_fits (content_length (parser x)) hs
     then http_errno (parser y) = HPE_OK \<and> content_length (parser y) = hex_value (content_length (parser x)) hs \<and>
       state (parser y) = s_chunk_size
     else http_errno (parser y) = HPE_INVALID_CONTENT_LENGTH)"
  using assms
proof (induction hs arbitrary: x)
  case Nil
  then have "exec_bytes G x = Some (return (length (data G)) x)" by (simp add: exec_bytes_end exec_end_empty)
  then show ?case using Nil by (simp add: hex_fits_def return_def)
next
  case (Cons c hs)
  have c: "cur x < length (data G)" "data G ! cur x = c" "drop (cur x + 1) (data G) = hs" "IS_HEX c"
    using drop_ConsD [OF Cons.prems(6)] Cons.prems(7) by simp_all
  have C: "counts G x" using Cons.prems(9,10) by (simp add: counts_def)
  let ?x = "take_byte G x" and ?n = "content_length (parser x)"
  let ?y = "upd (\<lambda>ps. ps\<lparr>content_length := ?n * 16 + hex_digit c\<rparr>) ?x"
  have E: "exec_state G ?x = (if (ULLONG_MAX - 16) div 16 < ?n then fail HPE_INVALID_CONTENT_LENGTH ?x else Next ?y)"
  proof -
    have "(?n * 16 + hex_digit c) mod 2 ^ 64 = ?n * 16 + hex_digit c" if "?n \<le> (ULLONG_MAX - 16) div 16"
      using that unhex_hex(2) [OF c(4)] by (simp add: ULLONG_MAX_def)
    then show ?thesis
      using Cons.prems(2,3) c unhex_hex [OF c(4)]
      by (simp add: exec_state_def do_chunk_size_def Let_def upd_def not_less)
  qed
  show ?case
  proof (cases "?n \<le> (ULLONG_MAX - 16) div 16")
    case False
    then show ?thesis
      using exec_bytes_error [OF c(1) C, of "set_errno HPE_INVALID_CONTENT_LENGTH ?x"] E
      by (simp add: hex_fits_Cons c(4) fail_def exec_error_def return_def)
  next
    case True
    let ?z = "?y\<lparr>cur := cur ?y + 1\<rparr>"
    have N: "content_length (parser ?z) < 2 ^ 64 - 16" using True unhex_hex(2) [OF c(4)] by (simp add: ULLONG_MAX_def)
    have "exec_bytes G x = exec_bytes G ?z" by (rule exec_bytes_next [OF c(1) C]) (use E True in simp)
    moreover have "\<exists>n y. exec_bytes G ?z = Some (Ret n y) \<and>
      (if hex_fits (content_length (parser ?z)) hs
       then http_errno (parser y) = HPE_OK \<and> content_length (parser y) = hex_value (content_length (parser ?z)) hs \<and>
         state (parser y) = s_chunk_size
       else http_errno (parser y) = HPE_INVALID_CONTENT_LENGTH)"
      by (rule Cons.IH [OF _ _ _ _ N]) (use Cons.prems c in \<open>simp_all add: parsing_header_def F_has_def\<close>)
    ultimately show ?thesis using True by (simp add: hex_fits_Cons c(4) cong: if_cong)
  qed
qed

text \<open>A chunk size is read exactly or refused. At the start of a chunk, a run of hexadecimal digits (in
  either case) is taken as the number it denotes when that is below 18446744073709551600, and refused
  with \<open>HPE_INVALID_CONTENT_LENGTH\<close> otherwise: it never wraps around in 64 bits.\<close>
theorem chunk_size_read:
  assumes "http_errno ps = HPE_OK" "state ps = s_chunk_size_start" "F_has ps F_CHUNKED" "nread ps = 0"
    and "hs \<noteq> []" "\<forall>c\<in>set hs. IS_HEX c" "length hs \<le> limit" "limit < 2 ^ 32"
  shows "\<exists>n x. http_parser_execute S limit ps u hs = Some (Ret n x) \<and>
    (if hex_value 0 hs < 18446744073709551600
     then http_errno (parser x) = HPE_OK \<and> state (parser x) = s_chunk_size \<and> content_length (parser x) = hex_value 0 hs
     else http_errno (parser x) = HPE_INVALID_CONTENT_LENGTH)"
proof -
  obtain c cs where hs: "hs = c # cs" using assms(5) by (cases hs) auto
  let ?G = "run_env_of S limit ps hs" and ?x = "start_run ps u"
  have X: "http_parser_execute S limit ps u hs = exec_bytes ?G ?x"
    using assms(1,5) by (simp add: http_parser_execute_run)
  have c: "IS_HEX c" using assms(6) hs by simp
  have M: "first_marks s_chunk_size_start = (\<lambda>_. None)" by (auto simp: first_marks_def fun_eq_iff split: mark.split)
  have C: "cur ?x < length (data ?G)" "counts ?G ?x" using assms(4,7,8) by (simp_all add: counts_def hs)
  let ?y = "update_state s_chunk_size (upd (\<lambda>ps. ps\<lparr>content_length := hex_digit c\<rparr>) (take_byte ?G ?x))"
  let ?v = "?y\<lparr>cur := cur ?y + 1\<rparr>"
  have "exec_state ?G (take_byte ?G ?x) = Next ?y"
    using assms(2-4) unhex_hex [OF c] hs
    by (simp add: exec_state_def do_chunk_size_start_def Let_def parsing_header_def)
  then have R: "exec_bytes ?G ?x = exec_bytes ?G ?v" by (rule exec_bytes_next [OF C])
  have V: "content_length (parser ?v) = hex_digit c" by simp
  have "\<exists>n y. exec_bytes ?G ?v = Some (Ret n y) \<and>
      (if hex_fits (content_length (parser ?v)) cs
       then http_errno (parser y) = HPE_OK \<and> content_length (parser y) = hex_value (content_length (parser ?v)) cs \<and>
         state (parser y) = s_chunk_size
       else http_errno (parser y) = HPE_INVALID_CONTENT_LENGTH)"
    by (rule exec_chunk_size)
      (use assms unhex_hex(2) [OF c] M in \<open>simp_all add: hs parsing_header_def F_has_def\<close>)
  then obtain n y where y: "exec_bytes ?G ?x = Some (Ret n y)"
    "if hex_fits (hex_digit c) cs
     then http_errno (parser y) = HPE_OK \<and> content_length (parser y) = hex_value (hex_digit c) cs \<and> state (parser y) = s_chunk_size
     else http_errno (parser y) = HPE_INVALID_CONTENT_LENGTH"
    unfolding R V by blast
  have "hex_value (hex_digit c) cs = hex_value 0 hs" by (simp add: hs)
  moreover have "hex_fits (hex_digit c) cs \<longleftrightarrow> hex_value (hex_digit c) cs < 18446744073709551600"
    using unhex_hex(2) [OF c] by (cases cs) (simp_all add: hex_fits_def)
  ultimately show ?thesis unfolding X using y by (auto split: if_splits)
qed

theorem chunk_size_read_witness:
  "\<exists>n x. http_parser_execute http_parser_settings_init 81920
      ((http_parser_init HTTP_RESPONSE)\<lparr>state := s_chunk_size_start, flags := 1\<rparr>) () ''1aF'' = Some (Ret n x) \<and>
    (if hex_value 0 ''1aF'' < 18446744073709551600
     then http_errno (parser x) = HPE_OK \<and> state (parser x) = s_chunk_size \<and> content_length (parser x) = hex_value 0 ''1aF''
     else http_errno (parser x) = HPE_INVALID_CONTENT_LENGTH)"
  by (rule chunk_size_read) (simp_all add: http_parser_init_def F_has_def IS_HEX_def IS_NUM_def)

text \<open>Any byte from 128 up is taken for a chunk size of zero. The table of hexadecimal digits has only
  128 entries written out; C fills the rest with 0 instead of -1, so such a byte at the start of a chunk
  is not refused but begins a chunk of size 0, the last one of a message.\<close>
theorem chunk_size_high_byte:
  assumes "http_errno ps = HPE_OK" "state ps = s_chunk_size_start" "F_has ps F_CHUNKED" "nread ps = 0"
    and "128 \<le> code c" "0 < limit"
  shows "\<exists>n x. http_parser_execute S limit ps u [c] = Some (Ret n x) \<and> n = 1 \<and> http_errno (parser x) = HPE_OK \<and>
    state (parser x) = s_chunk_size \<and> content_length (parser x) = 0"
proof -
  let ?G = "run_env_of S limit ps [c]" and ?x = "start_run ps u"
  have X: "http_parser_execute S limit ps u [c] = exec_bytes ?G ?x"
    using assms(1) by (simp add: http_parser_execute_run)
  have M: "first_marks s_chunk_size_start = (\<lambda>_. None)" by (auto simp: first_marks_def fun_eq_iff split: mark.split)
  have C: "cur ?x < length (data ?G)" "counts ?G ?x" using assms(4,6) by (simp_all add: counts_def)
  let ?y = "update_state s_chunk_size (upd (\<lambda>ps. ps\<lparr>content_length := 0\<rparr>) (take_byte ?G ?x))"
  have "exec_state ?G (take_byte ?G ?x) = Next ?y"
    using assms(2-5) by (simp add: exec_state_def do_chunk_size_start_def Let_def parsing_header_def unhex_at_def)
  then have "exec_bytes ?G ?x = exec_bytes ?G (?y\<lparr>cur := cur ?y + 1\<rparr>)" by (rule exec_bytes_next [OF C])
  also have "\<dots> = Some (return 1 (?y\<lparr>cur := cur ?y + 1\<rparr>))"
    using M assms(1,2) by (simp add: exec_bytes_end exec_end_empty)
  finally show ?thesis using assms(1) by (simp add: X return_def)
qed

theorem chunk_size_high_byte_witness:
  "\<exists>n x. http_parser_execute http_parser_settings_init 81920
      ((http_parser_init HTTP_RESPONSE)\<lparr>state := s_chunk_size_start, flags := 1\<rparr>) () [CHR 0xFF] = Some (Ret n x) \<and> n = 1 \<and>
    http_errno (parser x) = HPE_OK \<and> state (parser x) = s_chunk_size \<and> content_length (parser x) = 0"
  by (rule chunk_size_high_byte) (simp_all add: http_parser_init_def F_has_def)

text \<open>A message with both lengths is refused before anyone sees it. When the headers end and both a
  Transfer-Encoding and a Content-Length were seen, a parser that was not told to be lenient stops at
  that line end with \<open>HPE_UNEXPECTED_CONTENT_LENGTH\<close>, whatever follows; no callback is called, so
  \<open>on_headers_complete\<close> never sees the message.\<close>
theorem length_conflict_refused:
  assumes "http_errno ps = HPE_OK" "state ps = s_headers_almost_done" "\<not> F_has ps F_TRAILING"
    and "uses_transfer_encoding ps" "F_has ps F_CONTENTLENGTH" "\<not> lenient_http_headers ps" "\<not> allow_chunked_length ps"
    and "nread ps < limit" "limit < 2 ^ 32"
  shows "\<exists>x. http_parser_execute S limit ps u (LF # d) = Some (Ret 0 x) \<and>
    http_errno (parser x) = HPE_UNEXPECTED_CONTENT_LENGTH \<and> udata x = u"
proof -
  let ?G = "run_env_of S limit ps (LF # d)" and ?x = "start_run ps u"
  have X: "http_parser_execute S limit ps u (LF # d) = exec_bytes ?G ?x"
    using assms(1) by (simp add: http_parser_execute_run)
  have C: "cur ?x < length (data ?G)" "counts ?G ?x" using assms(8,9) by (simp_all add: counts_def)
  have "exec_state ?G (take_byte ?G ?x) = Err (set_errno HPE_UNEXPECTED_CONTENT_LENGTH (take_byte ?G ?x))"
    using assms(2-7)
    by (simp add: exec_state_def do_headers_almost_done_def length_conflict_def strict_check_def fail_def)
  from exec_bytes_error [OF C this] show ?thesis
    by (simp add: X exec_error_def return_def set_errno_def)
qed

theorem length_conflict_refused_witness:
  "\<exists>x. http_parser_execute http_parser_settings_init 81920
      ((http_parser_init HTTP_REQUEST)\<lparr>state := s_headers_almost_done, flags := 0x81, uses_transfer_encoding := True\<rparr>) ()
      (LF # ''5'') = Some (Ret 0 x) \<and>
    http_errno (parser x) = HPE_UNEXPECTED_CONTENT_LENGTH \<and> udata x = ()"
  by (rule length_conflict_refused) (simp_all add: http_parser_init_def F_has_def)

end
