(* ===== verification/HttpFields.thy ===== *)
theory HttpFields
  imports HttpRun "HOL-Library.Sublist"
begin

section \<open>Header names\<close>

text \<open>
  Which header names the parser gives a meaning to: the automaton that runs over the characters of a
  name agrees with comparing the whole name, whatever its letter case.
\<close>

subsection \<open>The automaton over a name\<close>

definition name_step :: "http_parser \<Rightarrow> char \<Rightarrow> http_parser" where
  "name_step ps c = (if header_state ps = h_general then ps else the (field_char c c ps))"

text \<open>What the state says of the characters \<open>p\<close> read so far.\<close>

definition special_names :: "string set" where
  "special_names = {''connection'', ''proxy-connection'', ''content-length'', ''transfer-encoding'', ''upgrade''}"

definition name_inv :: "string \<Rightarrow> http_parser \<Rightarrow> bool" where
  "name_inv p ps \<longleftrightarrow>
     (case header_state ps of
        h_C \<Rightarrow> p = ''c'' \<and> index ps = 0
      | h_CO \<Rightarrow> p = ''co'' \<and> index ps = 1
      | h_CON \<Rightarrow> p = ''con'' \<and> index ps = 2
      | h_matching_connection \<Rightarrow> p = take (index ps + 1) ''connection'' \<and> 3 \<le> index ps \<and> index ps < 9
      | h_matching_proxy_connection \<Rightarrow> p = take (index ps + 1) ''proxy-connection'' \<and> index ps < 15
      | h_matching_content_length \<Rightarrow> p = take (index ps + 1) ''content-length'' \<and> 3 \<le> index ps \<and> index ps < 13
      | h_matching_transfer_encoding \<Rightarrow> p = take (index ps + 1) ''transfer-encoding'' \<and> index ps < 16
      | h_matching_upgrade \<Rightarrow> p = take (index ps + 1) ''upgrade'' \<and> index ps < 6
      | h_connection \<Rightarrow> p = ''connection'' \<or> p = ''proxy-connection''
      | h_content_length \<Rightarrow> p = ''content-length''
      | h_transfer_encoding \<Rightarrow> p = ''transfer-encoding''
      | h_upgrade \<Rightarrow> p = ''upgrade''
      | h_general \<Rightarrow> (\<forall>w\<in>special_names. \<not> prefix p w)
      | _ \<Rightarrow> False)"

lemma prefix_takeD: "prefix (take n w) w' \<Longrightarrow> j < n \<Longrightarrow> j < length w \<Longrightarrow> w' ! j = w ! j"
  by (auto simp: prefix_def nth_append)

lemma prefix_snoc_take: "prefix (take n w @ [c]) w' \<Longrightarrow> prefix (take n w) w'"
  by (auto simp: prefix_def)

lemma match_next_inv:
  assumes p: "p = take (index ps + 1) w" "index ps + 1 < length w" "length w < 30"
    and others: "\<And>w'. w' \<in> special_names \<Longrightarrow> w' \<noteq> w \<Longrightarrow> \<not> prefix p w'"
    and m: "header_state ps = m" "m \<noteq> full" "full \<noteq> h_general" "m \<noteq> h_general"
  shows "let qs = match_next w c full h_general ps in
    (header_state qs = h_general \<and> (\<forall>w'\<in>special_names. \<not> prefix (p @ [c]) w') \<and> \<not> prefix w (p @ [c])) \<or>
    (header_state qs = full \<and> p @ [c] = w) \<or>
    (header_state qs = m \<and> index qs = index ps + 1 \<and> p @ [c] = take (index qs + 1) w \<and> index qs + 1 < length w)"
proof -
  let ?i = "index ps + 1"
  have I: "index (inc_index ps) = ?i" using p by simp
  have S: "str_at w ?i = w ! ?i" using p(2) by (simp add: str_at_def)
  have T: "take (?i + 1) w = p @ [w ! ?i]" using p by (simp add: take_Suc_conv_app_nth)
  show ?thesis
  proof (cases "c = w ! ?i")
    case False
    have "\<not> prefix (p @ [c]) w'" if "w' \<in> special_names" for w'
    proof (cases "w' = w")
      case True
      have "prefix (p @ [c]) w \<Longrightarrow> take (?i + 1) w = p @ [c]"
        using p by (metis One_nat_def append_eq_conv_conj length_append_singleton length_take min.absorb4 prefix_def Suc_eq_plus1)
      then show ?thesis using False T True by auto
    next
      case F: False
      then show ?thesis using others [OF that] by (auto simp: prefix_def)
    qed
    moreover have "\<not> prefix w (p @ [c])"
    proof
      assume "prefix w (p @ [c])"
      moreover have "length (p @ [c]) \<le> length w" using p by simp
      ultimately have "w = p @ [c]" by (metis prefix_length_prefix prefix_order.antisym prefix_order.refl)
      then show False using False p by (metis length_take min.absorb4 nth_append_length)
    qed
    ultimately show ?thesis using False I S p by (simp add: match_next_def Let_def)
  next
    case True
    then show ?thesis
      using I S T p m by (auto simp: match_next_def Let_def inc_index_def)
  qed
qed

lemma special_differ:
  "w \<in> special_names \<Longrightarrow> w' \<in> special_names \<Longrightarrow> w \<noteq> w' \<Longrightarrow>
     w' ! 0 \<noteq> w ! 0 \<or> w' ! 3 \<noteq> w ! 3 \<and> (w = ''connection'' \<or> w = ''content-length'')"
  unfolding special_names_def by (elim insertE emptyE; simp)

lemma special_prefix: "w \<in> special_names \<Longrightarrow> w' \<in> special_names \<Longrightarrow> prefix w w' \<Longrightarrow> w = w'"
  unfolding special_names_def by (elim insertE emptyE; simp)

lemma special_nonempty: "w \<in> special_names \<Longrightarrow> w \<noteq> []"
  by (auto simp: special_names_def)

lemma match_next_name:
  assumes inv: "name_inv p ps" and w: "w \<in> special_names" "p = take (index ps + 1) w" "index ps + 1 < length w" "length w < 30"
    and h: "header_state ps = m" "m \<noteq> full" "full \<noteq> h_general" "m \<noteq> h_general"
    and long: "3 \<le> index ps \<or> w \<noteq> ''connection'' \<and> w \<noteq> ''content-length''"
    and states: "\<And>qs. header_state qs = full \<Longrightarrow> name_inv w qs"
      "\<And>qs. header_state qs = m \<Longrightarrow> index qs = index ps + 1 \<Longrightarrow> index qs + 1 < length w \<Longrightarrow> name_inv (take (index qs + 1) w) qs"
  shows "name_inv (p @ [c]) (match_next w c full h_general ps)"
proof -
  have others: "\<not> prefix p w'" if "w' \<in> special_names" "w' \<noteq> w" for w'
  proof
    assume "prefix p w'"
    then have "prefix (take (index ps + 1) w) w'" using w(2) by simp
    from prefix_takeD [OF this, of 0] prefix_takeD [OF this, of 3]
    show False using special_differ [OF w(1) that(1)] that(2) w(3) long special_nonempty [OF w(1)] by auto
  qed
  have "name_inv q qs" if "header_state qs = h_general" "\<forall>w'\<in>special_names. \<not> prefix q w'" for q qs
    using that by (simp add: name_inv_def)
  then show ?thesis
    using match_next_inv [OF w(2-4) others h, of c] states w(2) by (auto simp: Let_def)
qed

lemma name_step_inv:
  assumes "name_inv p ps" "c \<noteq> CHR '' ''"
  shows "name_inv (p @ [c]) (name_step ps c)"
proof (cases "header_state ps")
  case h_general
  then show ?thesis using assms by (auto simp: name_inv_def name_step_def dest: append_prefixD)
next
  case h_matching_connection
  then have "name_inv (p @ [c]) (match_next ''connection'' c h_connection h_general ps)"
    by (intro match_next_name [OF assms(1)]) (use assms(1) in \<open>auto simp: name_inv_def special_names_def\<close>)
  then show ?thesis using h_matching_connection by (simp add: name_step_def field_char_def)
next
  case h_matching_proxy_connection
  then have "name_inv (p @ [c]) (match_next ''proxy-connection'' c h_connection h_general ps)"
    by (intro match_next_name [OF assms(1)]) (use assms(1) in \<open>auto simp: name_inv_def special_names_def\<close>)
  then show ?thesis using h_matching_proxy_connection by (simp add: name_step_def field_char_def)
next
  case h_matching_content_length
  then have "name_inv (p @ [c]) (match_next ''content-length'' c h_content_length h_general ps)"
    by (intro match_next_name [OF assms(1)]) (use assms(1) in \<open>auto simp: name_inv_def special_names_def\<close>)
  then show ?thesis using h_matching_content_length by (simp add: name_step_def field_char_def)
next
  case h_matching_transfer_encoding
  then have "name_inv (p @ [c]) (match_next ''transfer-encoding'' c h_transfer_encoding h_general ps)"
    by (intro match_next_name [OF assms(1)]) (use assms(1) in \<open>auto simp: name_inv_def special_names_def\<close>)
  moreover have "name_inv q (qs\<lparr>uses_transfer_encoding := True\<rparr>) = name_inv q qs" for q qs
    by (simp add: name_inv_def cong: header_states.case_cong)
  ultimately show ?thesis using h_matching_transfer_encoding by (simp add: name_step_def field_char_def Let_def)
next
  case h_matching_upgrade
  then have "name_inv (p @ [c]) (match_next ''upgrade'' c h_upgrade h_general ps)"
    by (intro match_next_name [OF assms(1)]) (use assms(1) in \<open>auto simp: name_inv_def special_names_def\<close>)
  then show ?thesis using h_matching_upgrade by (simp add: name_step_def field_char_def)
qed (use assms in \<open>auto simp: name_inv_def name_step_def field_char_def special_names_def inc_index_def\<close>)

text \<open>Hence the state tells the whole name.\<close>

lemma name_inv_class:
  assumes "name_inv p ps"
  shows "header_state ps = h_connection \<longleftrightarrow> p = ''connection'' \<or> p = ''proxy-connection''"
    "header_state ps = h_content_length \<longleftrightarrow> p = ''content-length''"
    "header_state ps = h_transfer_encoding \<longleftrightarrow> p = ''transfer-encoding''"
    "header_state ps = h_upgrade \<longleftrightarrow> p = ''upgrade''"
proof -
  have strict: "p \<notin> special_names" if "p = take (index ps + 1) w" "index ps + 1 < length w" "w \<in> special_names" for w
  proof
    assume "p \<in> special_names"
    then have "p = w" using special_prefix [OF _ that(3)] that(1) take_is_prefix by metis
    then show False using that(1,2) by (metis length_take min.absorb4 less_irrefl)
  qed
  have S: "header_state ps \<in> {h_connection, h_content_length, h_transfer_encoding, h_upgrade}" if p: "p \<in> special_names"
  proof (rule ccontr)
    assume N: "header_state ps \<notin> {h_connection, h_content_length, h_transfer_encoding, h_upgrade}"
    show False
    proof (cases "header_state ps")
      case h_matching_connection
      then show False using assms strict [of "''connection''"] p by (simp add: name_inv_def special_names_def)
    next
      case h_matching_proxy_connection
      then show False using assms strict [of "''proxy-connection''"] p by (simp add: name_inv_def special_names_def)
    next
      case h_matching_content_length
      then show False using assms strict [of "''content-length''"] p by (simp add: name_inv_def special_names_def)
    next
      case h_matching_transfer_encoding
      then show False using assms strict [of "''transfer-encoding''"] p by (simp add: name_inv_def special_names_def)
    next
      case h_matching_upgrade
      then show False using assms strict [of "''upgrade''"] p by (simp add: name_inv_def special_names_def)
    next
      case h_general
      then show False using assms p by (auto simp: name_inv_def)
    qed (use assms p N in \<open>simp_all add: name_inv_def special_names_def\<close>)
  qed
  have P: "header_state ps = h_connection \<longrightarrow> p = ''connection'' \<or> p = ''proxy-connection''"
    "header_state ps = h_content_length \<longrightarrow> p = ''content-length''"
    "header_state ps = h_transfer_encoding \<longrightarrow> p = ''transfer-encoding''"
    "header_state ps = h_upgrade \<longrightarrow> p = ''upgrade''"
    using assms by (auto simp: name_inv_def)
  have M: "''connection'' \<in> special_names" "''proxy-connection'' \<in> special_names" "''content-length'' \<in> special_names"
    "''transfer-encoding'' \<in> special_names" "''upgrade'' \<in> special_names"
    by (simp_all add: special_names_def)
  show "header_state ps = h_connection \<longleftrightarrow> p = ''connection'' \<or> p = ''proxy-connection''"
    "header_state ps = h_content_length \<longleftrightarrow> p = ''content-length''"
    "header_state ps = h_transfer_encoding \<longleftrightarrow> p = ''transfer-encoding''"
    "header_state ps = h_upgrade \<longleftrightarrow> p = ''upgrade''"
    using S [of] P M by auto
qed

lemma match_next_te [simp]: "uses_transfer_encoding (match_next w c full other ps) = uses_transfer_encoding ps"
  by (simp add: match_next_def Let_def inc_index_def)

lemma match_next_not_te:
  "header_state ps \<noteq> h_transfer_encoding \<Longrightarrow> full \<noteq> h_transfer_encoding \<Longrightarrow>
     header_state (match_next w c full h_general ps) \<noteq> h_transfer_encoding"
  by (simp add: match_next_def Let_def)

lemma name_step_te:
  assumes "name_inv p ps" "c \<noteq> CHR '' ''"
  shows "uses_transfer_encoding (name_step ps c) \<longleftrightarrow>
    uses_transfer_encoding ps \<or> header_state (name_step ps c) = h_transfer_encoding"
  using assms
  by (cases "header_state ps") (auto simp: name_inv_def name_step_def field_char_def Let_def inc_index_def match_next_not_te)

definition name_run :: "http_parser \<Rightarrow> string \<Rightarrow> http_parser" where
  "name_run ps cs = foldl name_step ps cs"

lemma name_run_inv:
  assumes "name_inv p ps" "uses_transfer_encoding ps \<longleftrightarrow> t \<or> prefix ''transfer-encoding'' p" "\<forall>c\<in>set cs. c \<noteq> CHR '' ''"
  shows "name_inv (p @ cs) (name_run ps cs)"
    "uses_transfer_encoding (name_run ps cs) \<longleftrightarrow> t \<or> prefix ''transfer-encoding'' (p @ cs)"
proof -
  have "name_inv (p @ cs) (name_run ps cs) \<and>
    (uses_transfer_encoding (name_run ps cs) \<longleftrightarrow> t \<or> prefix ''transfer-encoding'' (p @ cs))"
    using assms
  proof (induction cs arbitrary: p ps)
    case (Cons c cs)
    have N: "name_inv (p @ [c]) (name_step ps c)" using Cons.prems by (intro name_step_inv) simp_all
    have "uses_transfer_encoding (name_step ps c) \<longleftrightarrow> t \<or> prefix ''transfer-encoding'' (p @ [c])"
      using name_step_te [OF Cons.prems(1)] Cons.prems(2,3) name_inv_class(3) [OF N]
      by (auto simp: prefix_snoc)
    from Cons.IH [OF N this] Cons.prems(3) show ?case by (simp add: name_run_def)
  qed (simp add: name_run_def)
  then show "name_inv (p @ cs) (name_run ps cs)"
    "uses_transfer_encoding (name_run ps cs) \<longleftrightarrow> t \<or> prefix ''transfer-encoding'' (p @ cs)" by blast+
qed

lemma name_run_errno:
  assumes "name_inv p ps" "\<forall>c\<in>set cs. c \<noteq> CHR '' ''"
  shows "http_errno (name_run ps cs) = http_errno ps"
  using assms
proof (induction cs arbitrary: p ps)
  case (Cons c cs)
  have "http_errno (name_step ps c) = http_errno ps"
    using Cons.prems by (cases "header_state ps") (auto simp: name_inv_def name_step_def field_char_def Let_def)
  then show ?case using Cons.IH [OF name_step_inv [OF Cons.prems(1)]] Cons.prems(2) by (simp add: name_run_def)
qed (simp add: name_run_def)

lemma name_start:
  assumes "header_state ps = field_start_state c" "index ps = 0"
  shows "name_inv [c] ps"
  using assms by (auto simp: name_inv_def field_start_state_def special_names_def split: if_splits)

subsection \<open>The loop over the bytes of a name\<close>

lemma token_blank: "TOKEN c \<noteq> CHR '' ''"
proof -
  have T: "32 \<notin> set (take 32 tokens)" "32 \<notin> set (drop 33 tokens)" "\<forall>v\<in>set tokens. v < 128" "length tokens = 128"
    by (simp_all add: tokens_def)
  have "tokens ! i \<noteq> 32 \<and> tokens ! i < 128" if "i < 128" "i \<noteq> 32" for i
  proof -
    have "tokens ! i \<in> set (take 32 tokens)" if "i < 32"
      using that T(4) by (metis in_set_conv_nth length_take min.absorb4 nth_take numeral_less_iff semiring_norm(76,78,81))
    moreover have "tokens ! i \<in> set (drop 33 tokens)" if "i > 32"
    proof -
      have "tokens ! i = drop 33 tokens ! (i - 33)" using that \<open>i < 128\<close> T(4) by simp
      moreover have "i - 33 < length (drop 33 tokens)" using that \<open>i < 128\<close> T(4) by simp
      ultimately show ?thesis by (metis nth_mem)
    qed
    ultimately show ?thesis using T that by (metis nth_mem linorder_neqE_nat)
  qed
  then have *: "code c < 128 \<Longrightarrow> code c \<noteq> 32 \<Longrightarrow> tokens ! code c \<noteq> 32 \<and> tokens ! code c < 128" by blast
  show ?thesis
  proof
    assume A: "TOKEN c = CHR '' ''"
    then have c: "c \<noteq> CHR '' ''" "code c < 128" "char_of (tokens ! code c) = CHR '' ''"
      by (auto simp: TOKEN_def STRICT_TOKEN_def split: if_splits)
    have B: "code CHR '' '' = 32" by simp
    have "code c \<noteq> 32" using c(1) B by (metis of_char_eq_iff)
    moreover have "tokens ! code c mod 256 = 32" using arg_cong [OF c(3), of code] B by simp
    ultimately show False using * c(2) by fastforce
  qed
qed

lemma field_char_ch:
  assumes "ch \<noteq> CHR '' ''" "c \<noteq> CHR '' ''"
  shows "field_char c ch ps = field_char c c ps"
  using assms by (cases "header_state ps") (simp_all add: field_char_def)

lemma name_run_general: "header_state ps = h_general \<Longrightarrow> name_run ps cs = ps"
  by (induction cs) (simp_all add: name_run_def name_step_def)

lemma field_char_step:
  assumes "name_inv p ps" "header_state ps \<noteq> h_general" "ch \<noteq> CHR '' ''" "c \<noteq> CHR '' ''"
  shows "field_char c ch ps = Some (name_step ps c)"
  using assms by (cases "header_state ps") (simp_all add: name_inv_def name_step_def field_char_def Let_def)

lemma skip_tokens_stop: "i < j \<Longrightarrow> TOKEN (d ! j) = NUL \<Longrightarrow> skip_tokens d pe i < j"
proof (induction d pe i rule: skip_tokens.induct)
  case (1 d pe i)
  show ?case
  proof (cases "i + 1 < pe \<and> TOKEN (d ! (i + 1)) \<noteq> NUL")
    case True
    then have "i + 1 < j" using 1(2,3) by (metis Suc_eq_plus1 Suc_lessI)
    then show ?thesis using 1(1) [OF True] 1(3) True by (subst skip_tokens.simps) simp
  next
    case False
    then show ?thesis using 1(2) by (subst skip_tokens.simps) auto
  qed
qed

lemma char_of_0: "char_of (0::nat) = NUL"
  by (simp add: char_of_def)

lemma TOKEN_colon: "TOKEN CHR '':'' = NUL" "TOKEN c \<noteq> NUL \<Longrightarrow> c \<noteq> CHR '' ''"
  by (auto simp: TOKEN_def STRICT_TOKEN_def tokens_def char_of_0)

lemma skip_tokens_end: "i < pe \<Longrightarrow> skip_tokens d pe i < pe"
proof (induction d pe i rule: skip_tokens.induct)
  case (1 d pe i)
  then show ?case by (subst skip_tokens.simps) auto
qed

text \<open>The loop runs to the end of the buffer or to a byte that is no token character.\<close>

lemma field_loop_run:
  assumes "drop (cur x) (data G) = cs @ r" "cur x \<le> length (data G)" "\<forall>c\<in>set cs. TOKEN c \<noteq> NUL" "r \<noteq> [] \<Longrightarrow> TOKEN (hd r) = NUL"
    and "name_inv p (parser x)" "r = [] \<Longrightarrow> 0 < max_header_size G"
  shows "\<exists>y. field_loop G x = Some y \<and> parser y = name_run (parser x) (map TOKEN cs) \<and> cur y = cur x + length cs \<and>
    (r \<noteq> [] \<longrightarrow> xch y = hd r) \<and> p_state y = p_state x \<and> marks y = marks x \<and> l_nread y = l_nread x \<and> udata y = udata x"
  using assms(1-5)
proof (induction "length cs" arbitrary: x cs p rule: less_induct)
  case less
  have len: "length (data G) = cur x + length cs + length r"
    using arg_cong [OF less.prems(1), of length] less.prems(2) by simp
  show ?case
  proof (cases cs)
    case Nil
    show ?thesis
    proof (cases r)
      case Nil
      then have "cur x = length (data G)" using len \<open>cs = []\<close> by simp
      then show ?thesis using Nil \<open>cs = []\<close> by (subst field_loop.simps) (simp add: name_run_def)
    next
      case (Cons d ds)
      have c: "cur x < length (data G)" "data G ! cur x = d"
        using drop_ConsD [of "cur x" "data G" d ds] less.prems(1) Nil Cons by simp_all
      then show ?thesis using Nil Cons less.prems(4) by (subst field_loop.simps) (simp add: Let_def name_run_def)
    qed
  next
    case (Cons c ds)
    have c: "cur x < length (data G)" "data G ! cur x = c" "TOKEN c \<noteq> NUL"
      using drop_ConsD [of "cur x" "data G" c "ds @ r"] less.prems(1,3) Cons by simp_all
    let ?x = "x\<lparr>xch := c\<rparr>"
    show ?thesis
    proof (cases "header_state (parser x) = h_general")
      case True
      let ?k = "field_skip G (cur x)"
      have k: "cur x \<le> ?k" "?k < cur x + length cs"
      proof -
        show "cur x \<le> ?k" by (simp add: field_skip_def skip_tokens_le)
        show "?k < cur x + length cs"
        proof (cases r)
          case Nil
          have "?k < cur x + min (length (data G) - cur x) (max_header_size G)"
            unfolding field_skip_def by (rule skip_tokens_end) (use c(1) assms(6) Nil in simp)
          then show ?thesis using len Nil by simp
        next
          case (Cons d ds)
          then have "data G ! (cur x + length cs) = d"
            using less.prems(1) c(1) by (metis less_imp_le nth_append_length nth_drop)
          then show ?thesis
            using skip_tokens_stop [of "cur x" "cur x + length cs" "data G"] less.prems(4) Cons \<open>cs = _\<close> by (simp add: field_skip_def)
        qed
      qed
      let ?ds = "drop (?k + 1 - cur x) cs"
      let ?z = "?x\<lparr>cur := ?k + 1\<rparr>"
      have D: "drop (?k + 1) (data G) = ?ds @ r"
      proof -
        have "drop (?k + 1) (data G) = drop (?k + 1 - cur x) (drop (cur x) (data G))" using k(1) by simp
        then show ?thesis using less.prems(1) k by simp
      qed
      have L: "cur ?z + length ?ds = cur x + length cs" using k by simp
      have IH: "\<exists>y. field_loop G ?z = Some y \<and> parser y = name_run (parser ?z) (map TOKEN ?ds) \<and> cur y = cur ?z + length ?ds \<and>
        (r \<noteq> [] \<longrightarrow> xch y = hd r) \<and> p_state y = p_state ?z \<and> marks y = marks ?z \<and> l_nread y = l_nread ?z \<and> udata y = udata ?z"
      proof (rule less.hyps)
        show "length ?ds < length cs" using k Cons by simp
        show "\<forall>c\<in>set ?ds. TOKEN c \<noteq> NUL" using less.prems(3) by (meson in_set_dropD)
        show "cur ?z \<le> length (data G)" using k(2) len by simp
      qed (use D less.prems(4,5) in simp_all)
      have "field_loop G x = field_loop G ?z" using c True by (subst field_loop.simps) (simp add: Let_def)
      then show ?thesis using IH [unfolded L] True by (simp add: name_run_general)
    next
      case False
      have F: "field_char (TOKEN c) c (parser x) = Some (name_step (parser x) (TOKEN c))"
        by (rule field_char_step [OF less.prems(5) False]) (use c(3) TOKEN_colon token_blank in auto)
      let ?z = "?x\<lparr>parser := name_step (parser x) (TOKEN c), cur := cur x + 1\<rparr>"
      have "\<exists>y. field_loop G ?z = Some y \<and> parser y = name_run (parser ?z) (map TOKEN ds) \<and> cur y = cur ?z + length ds \<and>
        (r \<noteq> [] \<longrightarrow> xch y = hd r) \<and> p_state y = p_state ?z \<and> marks y = marks ?z \<and> l_nread y = l_nread ?z \<and> udata y = udata ?z"
        by (rule less.hyps [of _ _ "p @ [TOKEN c]"])
          (use Cons less.prems drop_ConsD [of "cur x" "data G" c "ds @ r"] name_step_inv token_blank in auto)
      moreover have "field_loop G x = field_loop G ?z" using c False F by (subst field_loop.simps) (simp add: Let_def)
      ultimately show ?thesis using Cons by (simp add: name_run_def)
    qed
  qed
qed

lemma field_loop_tokens:
  assumes "drop (cur x) (data G) = cs @ CHR '':'' # r" "\<forall>c\<in>set cs. TOKEN c \<noteq> NUL"
    and "name_inv p (parser x)"
  shows "\<exists>y. field_loop G x = Some y \<and> parser y = name_run (parser x) (map TOKEN cs) \<and> cur y = cur x + length cs \<and>
    xch y = CHR '':'' \<and> p_state y = p_state x \<and> marks y = marks x \<and> l_nread y = l_nread x \<and> udata y = udata x"
proof -
  have "cur x \<le> length (data G)" using arg_cong [OF assms(1), of length] by simp
  from field_loop_run [OF assms(1) this assms(2) _ assms(3)] show ?thesis by (simp add: TOKEN_colon)
qed

text \<open>C26: Header names are recognised exactly. For a name of token characters followed by a colon at the
  start of a header line, the parser goes on to the value having noticed a Connection, Content-Length,
  Transfer-Encoding or Upgrade header exactly when the name, in lower case, is that word (or
  proxy-connection). But \<open>uses_transfer_encoding\<close> is already set by a name that only begins with
  transfer-encoding.\<close>
theorem header_name_recognised:
  assumes "accepts S" "http_errno ps = HPE_OK" "state ps = s_header_field_start"
    and "name \<noteq> []" "\<forall>c\<in>set name. TOKEN c \<noteq> NUL" "nread ps + length name + 1 \<le> limit" "limit < 2 ^ 32"
  shows "\<exists>x. http_parser_execute S limit ps u (name @ '':'') = Some (Ret (length name + 1) x) \<and>
    http_errno (parser x) = HPE_OK \<and> state (parser x) = s_header_value_discard_ws \<and>
    (header_state (parser x) = h_connection \<longleftrightarrow> map TOKEN name = ''connection'' \<or> map TOKEN name = ''proxy-connection'') \<and>
    (header_state (parser x) = h_content_length \<longleftrightarrow> map TOKEN name = ''content-length'') \<and>
    (header_state (parser x) = h_transfer_encoding \<longleftrightarrow> map TOKEN name = ''transfer-encoding'') \<and>
    (header_state (parser x) = h_upgrade \<longleftrightarrow> map TOKEN name = ''upgrade'') \<and>
    (uses_transfer_encoding (parser x) \<longleftrightarrow>
       uses_transfer_encoding ps \<or> prefix ''transfer-encoding'' (map TOKEN name))"
proof -
  obtain c cs where name: "name = c # cs" using assms(4) by (cases name) auto
  let ?G = "run_env_of S limit ps (name @ '':'')" and ?x = "start_run ps u"
  have X: "http_parser_execute S limit ps u (name @ '':'') = exec_bytes ?G ?x"
    using assms(2) by (simp add: http_parser_execute_run)
  have M: "first_marks s_header_field_start = (\<lambda>_. None)" by (auto simp: first_marks_def fun_eq_iff split: mark.split)
  have c: "TOKEN c \<noteq> NUL" "c \<noteq> CR" "c \<noteq> LF" using assms(5) by (auto simp: name TOKEN_def STRICT_TOKEN_def tokens_def char_of_0)
  have C: "cur ?x < length (data ?G)" "counts ?G ?x" using assms(6,7) by (simp_all add: counts_def name)
  let ?p = "ps\<lparr>index := 0, header_state := field_start_state (TOKEN c)\<rparr>"
  let ?y = "upd (\<lambda>ps. ps\<lparr>index := 0, header_state := field_start_state (TOKEN c)\<rparr>)
    (update_state s_header_field (set_mark M_header_field (take_byte ?G ?x)))"
  let ?v = "?y\<lparr>cur := cur ?y + 1\<rparr>"
  have "exec_state ?G (take_byte ?G ?x) = Next ?y"
    using assms(3) c by (simp add: exec_state_def do_header_field_start_def Let_def name)
  then have R: "exec_bytes ?G ?x = exec_bytes ?G ?v" by (rule exec_bytes_next [OF C])
  have N: "name_inv [TOKEN c] ?p" by (rule name_start) simp_all
  have P: "header_state (parser ?v) = field_start_state (TOKEN c)" "parser ?v = ?p" by simp_all
  have "\<exists>w. field_loop ?G (take_byte ?G ?v) = Some w \<and> parser w = name_run (parser (take_byte ?G ?v)) (map TOKEN cs) \<and>
      cur w = cur (take_byte ?G ?v) + length cs \<and> xch w = CHR '':'' \<and> p_state w = p_state (take_byte ?G ?v) \<and>
      marks w = marks (take_byte ?G ?v) \<and> l_nread w = l_nread (take_byte ?G ?v) \<and> udata w = udata (take_byte ?G ?v)"
    by (rule field_loop_tokens [of _ _ _ "[]" "[TOKEN c]"]) (use N assms(5) in \<open>simp_all add: name\<close>)
  then obtain w where w: "field_loop ?G (take_byte ?G ?v) = Some w" "parser w = name_run ?p (map TOKEN cs)"
    "cur w = length cs + 1" "xch w = CHR '':''" "p_state w = s_header_field" "marks w = (\<lambda>_. None)(M_header_field := Some 0)"
    "l_nread w = nread ps + 2"
    using M assms(3) by (auto simp: name parsing_header_def)
  have run: "name_inv (map TOKEN name) (parser w)"
    "uses_transfer_encoding (parser w) \<longleftrightarrow> uses_transfer_encoding ps \<or> prefix ''transfer-encoding'' (map TOKEN name)"
    using name_run_inv [OF N, of "uses_transfer_encoding ps" "map TOKEN cs"] token_blank by (auto simp: w(2) name)
  have e: "http_errno (parser w) = HPE_OK"
    using assms(2) name_run_errno [OF N] token_blank by (simp add: w(2))
  let ?w = "w\<lparr>l_nread := nread ps + 2 + length cs\<rparr>"
  let ?f = "after_data ?G M_header_field 0 (update_state s_header_value_discard_ws ?w)"
  have C2: "cur ?v < length (data ?G)" "counts ?G ?v" using assms(6,7) by (simp_all add: counts_def name parsing_header_def assms(3))
  have A: "accepts_data_cb (on_header_field S)" using assms(1) by (simp add: acceptsD)
  have len: "length name = length cs + 1" by (simp add: name)
  have "exec_state ?G (take_byte ?G ?v) = Next ?f"
    using w e A assms(6,7) len
    by (simp add: exec_state_def do_header_field_def Let_def count_header_size_def callback_data_def callback_data_accepts)
  then have "exec_bytes ?G ?v = exec_bytes ?G (?f\<lparr>cur := cur ?f + 1\<rparr>)" by (rule exec_bytes_next [OF C2])
  also have "\<dots> = Some (return (length name + 1) (?f\<lparr>cur := cur ?f + 1\<rparr>))"
    using w e len by (simp add: exec_bytes_end exec_end_empty)
  finally show ?thesis
    using run name_inv_class [OF run(1)] e by (simp add: X R return_def)
qed

theorem header_name_recognised_witness:
  "\<exists>x. http_parser_execute http_parser_settings_init 81920
      ((http_parser_init HTTP_REQUEST)\<lparr>state := s_header_field_start\<rparr>) () (''Transfer-EncodingX'' @ '':'') =
        Some (Ret (length ''Transfer-EncodingX'' + 1) x) \<and>
    http_errno (parser x) = HPE_OK \<and> state (parser x) = s_header_value_discard_ws \<and>
    (header_state (parser x) = h_connection \<longleftrightarrow> map TOKEN ''Transfer-EncodingX'' = ''connection'' \<or> map TOKEN ''Transfer-EncodingX'' = ''proxy-connection'') \<and>
    (header_state (parser x) = h_content_length \<longleftrightarrow> map TOKEN ''Transfer-EncodingX'' = ''content-length'') \<and>
    (header_state (parser x) = h_transfer_encoding \<longleftrightarrow> map TOKEN ''Transfer-EncodingX'' = ''transfer-encoding'') \<and>
    (header_state (parser x) = h_upgrade \<longleftrightarrow> map TOKEN ''Transfer-EncodingX'' = ''upgrade'') \<and>
    (uses_transfer_encoding (parser x) \<longleftrightarrow>
       uses_transfer_encoding ((http_parser_init HTTP_REQUEST)\<lparr>state := s_header_field_start\<rparr>) \<or>
       prefix ''transfer-encoding'' (map TOKEN ''Transfer-EncodingX''))"
  by (rule header_name_recognised [OF accepts_init])
    (simp_all add: http_parser_init_def TOKEN_def STRICT_TOKEN_def tokens_def char_of_def)

end
