(* ===== verification/HttpStages.thy ===== *)
theory HttpStages
  imports HttpFields HttpBody
begin

section \<open>Stages of a message\<close>

text \<open>
  What a client of the HTTP parser sees of a message is a sequence of events, one for each callback.
  The contract of such a client is a locale: its callbacks accept everything and change its data as a
  function of the event. Under it the parser is carried through a message stage by stage; each lemma
  takes a run from one stage to the next and says which events were delivered.
\<close>

subsection \<open>Events and their clients\<close>

datatype http_event = E_begin | E_url string | E_status nat string | E_field string | E_value string
  | E_headers | E_body string | E_complete http_method

primrec text_event :: "mark \<Rightarrow> http_parser \<Rightarrow> string \<Rightarrow> http_event" where
  "text_event M_header_field ps t = E_field t"
| "text_event M_header_value ps t = E_value t"
| "text_event M_url ps t = E_url t"
| "text_event M_body ps t = E_body t"
| "text_event M_status ps t = E_status (status_code ps) t"

definition notified :: "'u http_cb option \<Rightarrow> http_parser \<Rightarrow> 'u \<Rightarrow> 'u" where
  "notified f ps u = (case f of None \<Rightarrow> u | Some g \<Rightarrow> snd (snd (g ps u)))"

definition notified_text :: "'u http_data_cb option \<Rightarrow> http_parser \<Rightarrow> string \<Rightarrow> 'u \<Rightarrow> 'u" where
  "notified_text f ps t u = (case f of None \<Rightarrow> u | Some g \<Rightarrow> snd (snd (g ps t u)))"

lemma udata_after_notify: "udata (after_notify f x) = notified f ((parser x)\<lparr>state := p_state x\<rparr>) (udata x)"
  by (simp add: after_notify_def notified_def split: option.split)

lemma udata_after_data:
  "marks x m = Some a \<Longrightarrow> udata (after_data G m e x) =
     notified_text (data_callback m (settings G)) ((parser x)\<lparr>state := p_state x\<rparr>)
       (take (cur x - a + e) (drop a (data G))) (udata x)"
  by (simp add: after_data_def notified_text_def clear_mark_def split: option.split)

subsection \<open>Stages\<close>

text \<open>What the parser knows of the message: the fields of its structure that callbacks do not change.\<close>

record head =
  h_type :: http_parser_type
  h_method :: http_method
  h_status :: nat
  h_major :: nat
  h_minor :: nat
  h_flags :: byte
  h_length :: nat
  h_te :: bool
  h_lenient :: bool

definition head_of :: "http_parser \<Rightarrow> head" where
  "head_of ps = \<lparr>h_type = ptype ps, h_method = method ps, h_status = status_code ps, h_major = http_major ps,
     h_minor = http_minor ps, h_flags = flags ps, h_length = content_length ps, h_te = uses_transfer_encoding ps,
     h_lenient = lenient_http_headers ps\<rparr>"

lemma head_of_after [simp]:
  "head_of (parser (after_notify f x)) = head_of (parser x)" "head_of (parser (after_data G m e x)) = head_of (parser x)"
  "head_of (ps\<lparr>index := i\<rparr>) = head_of ps" "head_of (ps\<lparr>header_state := h\<rparr>) = head_of ps" "head_of (ps\<lparr>state := s\<rparr>) = head_of ps"
  "head_of (ps\<lparr>index := i, header_state := h\<rparr>) = head_of ps" "head_of (ps\<lparr>method := k, index := i\<rparr>) = head_of (ps\<lparr>method := k\<rparr>)"
  "head_of (ps\<lparr>nread := n\<rparr>) = head_of ps" "head_of (inc_index ps) = head_of ps" "head_of (ps\<lparr>upgrade := b\<rparr>) = head_of ps"
  by (auto simp: head_of_def after_notify_def after_data_def inc_index_def split: option.split)

lemma head_of_update [simp]:
  "head_of (ps\<lparr>ptype := t\<rparr>) = (head_of ps)\<lparr>h_type := t\<rparr>" "head_of (ps\<lparr>method := m\<rparr>) = (head_of ps)\<lparr>h_method := m\<rparr>"
  "head_of (ps\<lparr>status_code := n\<rparr>) = (head_of ps)\<lparr>h_status := n\<rparr>" "head_of (ps\<lparr>flags := f\<rparr>) = (head_of ps)\<lparr>h_flags := f\<rparr>"
  "head_of (ps\<lparr>http_major := n\<rparr>) = (head_of ps)\<lparr>h_major := n\<rparr>" "head_of (ps\<lparr>http_minor := n\<rparr>) = (head_of ps)\<lparr>h_minor := n\<rparr>"
  "head_of (ps\<lparr>content_length := n\<rparr>) = (head_of ps)\<lparr>h_length := n\<rparr>"
  "head_of (begin_message ps) = (head_of ps)\<lparr>h_flags := 0, h_length := ULLONG_MAX, h_te := False\<rparr>"
  "http_errno (begin_message ps) = http_errno ps"
  by (simp_all add: head_of_def begin_message_def)

lemma head_of_fields:
  assumes "head_of ps = w"
  shows "ptype ps = h_type w" "method ps = h_method w" "status_code ps = h_status w" "flags ps = h_flags w"
    "http_major ps = h_major w" "http_minor ps = h_minor w" "content_length ps = h_length w" "uses_transfer_encoding ps = h_te w"
    "lenient_http_headers ps = h_lenient w"
  using assms by (auto simp: head_of_def)

text \<open>
  A run at a byte of the headers: in a state, with what it knows of the message, the client's data, the
  rest \<open>p\<close> of the headers and the rest \<open>q\<close> of the buffer. The headers left fit into the limit.
\<close>

definition run_at :: "'u http_parser_settings \<Rightarrow> 'u run_env \<Rightarrow> state \<Rightarrow> head \<Rightarrow> 'u \<Rightarrow> (mark \<Rightarrow> nat option) \<Rightarrow>
    string \<Rightarrow> string \<Rightarrow> 'u exec \<Rightarrow> bool" where
  "run_at S G s w u M p q x \<longleftrightarrow> settings G = S \<and> \<not> lenient G \<and> max_header_size G < 2 ^ 32 \<and>
     p_state x = s \<and> drop (cur x) (data G) = p @ q \<and> cur x \<le> length (data G) \<and> udata x = u \<and>
     marks x = M \<and> l_nread x + length p \<le> max_header_size G \<and>
     http_errno (parser x) = HPE_OK \<and> head_of (parser x) = w"

abbreviation stage :: "'u http_parser_settings \<Rightarrow> 'u run_env \<Rightarrow> state \<Rightarrow> head \<Rightarrow> 'u \<Rightarrow> string \<Rightarrow> string \<Rightarrow> 'u exec \<Rightarrow> bool" where
  "stage S G s w u p q x \<equiv> run_at S G s w u (\<lambda>_. None) p q x"

definition reaches :: "'u run_env \<Rightarrow> 'u exec \<Rightarrow> ('u exec \<Rightarrow> bool) \<Rightarrow> bool" where
  "reaches G x P \<longleftrightarrow> (\<exists>y. exec_bytes G x = exec_bytes G y \<and> P y)"

lemma reaches_trans: "reaches G x P \<Longrightarrow> (\<And>y. P y \<Longrightarrow> reaches G y Q) \<Longrightarrow> reaches G x Q"
  by (fastforce simp: reaches_def)

lemma reaches_refl: "P x \<Longrightarrow> reaches G x P"
  by (auto simp: reaches_def)

lemma reaches_by: "exec_bytes G x = exec_bytes G y \<Longrightarrow> reaches G y P \<Longrightarrow> reaches G x P"
  by (auto simp: reaches_def)

lemma drop_appendD: "drop a d = t @ r \<Longrightarrow> drop (a + length t) d = r"
  by (metis add.commute append_eq_conv_conj drop_drop)

lemma stageD:
  assumes "run_at S G s w u M p q x"
  shows "settings G = S" "\<not> lenient G" "max_header_size G < 2 ^ 32" "p_state x = s" "drop (cur x) (data G) = p @ q"
    "cur x \<le> length (data G)" "udata x = u" "marks x = M" "l_nread x + length p \<le> max_header_size G"
    "http_errno (parser x) = HPE_OK" "head_of (parser x) = w"
  using assms by (simp_all add: run_at_def)

lemma stage_byte:
  assumes "run_at S G s w u M (c # p) q x" "parsing_header s"
  shows "cur x < length (data G)" "data G ! cur x = c" "drop (Suc (cur x)) (data G) = p @ q" "counts G x"
    "l_nread (take_byte G x) = l_nread x + 1" "l_nread x + 1 + length p \<le> max_header_size G"
  using assms drop_ConsD [of "cur x" "data G" c "p @ q"] by (auto simp: run_at_def counts_def)

lemma stage_step:
  assumes "run_at S G s w u M (c # p) q x" "parsing_header s"
    and "exec_state G (take_byte G x) = Next y" "cur y = cur x" "l_nread y = l_nread x + 1"
    and "p_state y = t" "udata y = u'" "marks y = M'" "http_errno (parser y) = HPE_OK" "head_of (parser y) = w'"
  shows "reaches G x (run_at S G t w' u' M' p q)"
proof -
  note b = stage_byte [OF assms(1,2)]
  have "exec_bytes G x = exec_bytes G (y\<lparr>cur := cur y + 1\<rparr>)" by (rule exec_bytes_next [OF b(1,4) assms(3)])
  moreover have "run_at S G t w' u' M' p q (y\<lparr>cur := cur y + 1\<rparr>)"
    using assms b by (auto simp: run_at_def)
  ultimately show ?thesis by (auto simp: reaches_def)
qed

lemma simple_step:
  assumes "run_at S G s w u M (c # p) q x" "parsing_header s"
    and "\<And>y. p_state y = s \<Longrightarrow> xch y = c \<Longrightarrow> head_of (parser y) = w \<Longrightarrow> exec_state G y = Next (update_state t (upd f y))"
    and "\<And>ps. head_of ps = w \<Longrightarrow> head_of (f ps) = w'" "\<And>ps. http_errno (f ps) = http_errno ps"
  shows "reaches G x (run_at S G t w' u M p q)"
proof (rule stage_step [OF assms(1,2)])
  show "exec_state G (take_byte G x) = Next (update_state t (upd f (take_byte G x)))"
    by (rule assms(3)) (use stageD [OF assms(1)] stage_byte(2) [OF assms(1,2)] in simp_all)
qed (use stageD [OF assms(1)] assms(4,5) stage_byte(5) [OF assms(1,2)] in simp_all)

lemma upd_id [simp]: "upd (\<lambda>ps. ps) x = x"
  by (simp add: upd_def)

lemma parsing_states [simp]:
  "parsing_header s_req_http_start" "parsing_header s_req_http_H" "parsing_header s_req_http_HT" "parsing_header s_req_http_HTT"
  "parsing_header s_req_http_HTTP" "parsing_header s_req_http_major" "parsing_header s_req_http_dot"
  "parsing_header s_req_http_minor" "parsing_header s_req_http_end" "parsing_header s_req_line_almost_done"
  "parsing_header s_header_field_start" "parsing_header s_header_field" "parsing_header s_header_value_discard_ws"
  "parsing_header s_header_value" "parsing_header s_header_almost_done" "parsing_header s_header_value_lws"
  "parsing_header s_headers_almost_done" "parsing_header s_req_spaces_before_url" "parsing_header s_req_method"
  "parsing_header s_start_req" "parsing_header s_start_req_or_res" "parsing_header s_res_or_resp_H" "parsing_header s_res_HT"
  "parsing_header s_res_HTT" "parsing_header s_res_HTTP" "parsing_header s_res_http_major" "parsing_header s_res_http_dot"
  "parsing_header s_res_http_minor" "parsing_header s_res_http_end" "parsing_header s_res_first_status_code"
  "parsing_header s_res_status_code" "parsing_header s_res_status_start" "parsing_header s_res_status"
  "parsing_header s_res_line_almost_done" "parsing_header s_headers_done"
  "parsing_header s_res_H"
  by (simp_all add: parsing_header_def)

text \<open>A step that reads one character and only moves on; one that records a digit.\<close>

lemma move_step:
  assumes "stage S G s w u (c # p) q x" "parsing_header s"
    and "\<And>y. p_state y = s \<Longrightarrow> xch y = c \<Longrightarrow> exec_state G y = Next (update_state t y)"
  shows "reaches G x (stage S G t w u p q)"
  by (rule simple_step [OF assms(1,2), where f = "\<lambda>ps. ps"]) (simp_all add: assms(3))

subsection \<open>The version\<close>

definition with_version :: "head \<Rightarrow> head" where
  "with_version w = w\<lparr>h_major := 1, h_minor := 1\<rparr>"

lemma exec_expects:
  assumes "stage S G s w u (c # p) q x"
    and "(s, c, t) \<in> {(s_req_http_H, CHR ''T'', s_req_http_HT), (s_req_http_HT, CHR ''T'', s_req_http_HTT),
      (s_req_http_HTT, CHR ''P'', s_req_http_HTTP), (s_req_http_HTTP, CHR ''/'', s_req_http_major),
      (s_req_http_dot, CHR ''.'', s_req_http_minor), (s_req_http_start, CHR ''H'', s_req_http_H),
      (s_req_http_end, CR, s_req_line_almost_done), (s_req_line_almost_done, LF, s_header_field_start),
      (s_res_H, CHR ''T'', s_res_HT), (s_res_HT, CHR ''T'', s_res_HTT), (s_res_HTT, CHR ''P'', s_res_HTTP), (s_res_HTTP, CHR ''/'', s_res_http_major),
      (s_res_http_dot, CHR ''.'', s_res_http_minor), (s_res_http_end, CHR '' '', s_res_first_status_code),
      (s_res_line_almost_done, LF, s_header_field_start)}"
  shows "reaches G x (stage S G t w u p q)"
  by (rule move_step [OF assms(1)])
    (use assms(2) in \<open>auto simp: exec_state_def do_expect_def strict_check_def do_req_http_start_def do_http_dot_def
      do_req_http_end_def do_req_line_almost_done_def do_res_http_end_def\<close>)

lemma exec_version_digits:
  assumes "stage S G s w u (CHR ''1'' # p) q x"
  shows "s \<in> {s_req_http_major, s_res_http_major} \<Longrightarrow>
      reaches G x (stage S G (if s = s_req_http_major then s_req_http_dot else s_res_http_dot) (w\<lparr>h_major := 1\<rparr>) u p q)"
    "s \<in> {s_req_http_minor, s_res_http_minor} \<Longrightarrow>
      reaches G x (stage S G (if s = s_req_http_minor then s_req_http_end else s_res_http_end) (w\<lparr>h_minor := 1\<rparr>) u p q)"
proof -
  have N: "IS_NUM CHR ''1''" "digit CHR ''1'' = 1" by (simp_all add: IS_NUM_def digit_def)
  show "reaches G x (stage S G (if s = s_req_http_major then s_req_http_dot else s_res_http_dot) (w\<lparr>h_major := 1\<rparr>) u p q)"
    if "s \<in> {s_req_http_major, s_res_http_major}"
    by (rule simple_step [OF assms, where f = "\<lambda>ps. ps\<lparr>http_major := 1\<rparr>"])
      (use that N in \<open>auto simp: exec_state_def do_http_major_def\<close>)
  show "reaches G x (stage S G (if s = s_req_http_minor then s_req_http_end else s_res_http_end) (w\<lparr>h_minor := 1\<rparr>) u p q)"
    if "s \<in> {s_req_http_minor, s_res_http_minor}"
    by (rule simple_step [OF assms, where f = "\<lambda>ps. ps\<lparr>http_minor := 1\<rparr>"])
      (use that N in \<open>auto simp: exec_state_def do_http_minor_def\<close>)
qed

lemma exec_version:
  assumes "stage S G s_req_http_start w u (''HTTP/1.1'' @ [CR, LF] @ p) q x"
  shows "reaches G x (stage S G s_header_field_start (with_version w) u p q)"
proof -
  have "reaches G x (stage S G s_req_http_H w u (''TTP/1.1'' @ [CR, LF] @ p) q)"
    by (rule exec_expects) (use assms in simp_all)
  then have "reaches G x (stage S G s_req_http_HT w u (''TP/1.1'' @ [CR, LF] @ p) q)"
    by (rule reaches_trans) (rule exec_expects, auto)
  then have "reaches G x (stage S G s_req_http_HTT w u (''P/1.1'' @ [CR, LF] @ p) q)"
    by (rule reaches_trans) (rule exec_expects, auto)
  then have "reaches G x (stage S G s_req_http_HTTP w u (''/1.1'' @ [CR, LF] @ p) q)"
    by (rule reaches_trans) (rule exec_expects, auto)
  then have "reaches G x (stage S G s_req_http_major w u (''1.1'' @ [CR, LF] @ p) q)"
    by (rule reaches_trans) (rule exec_expects, auto)
  then have "reaches G x (stage S G s_req_http_dot (w\<lparr>h_major := 1\<rparr>) u (''.1'' @ [CR, LF] @ p) q)"
    by (rule reaches_trans) (use exec_version_digits(1) in fastforce)
  then have "reaches G x (stage S G s_req_http_minor (w\<lparr>h_major := 1\<rparr>) u (''1'' @ [CR, LF] @ p) q)"
    by (rule reaches_trans) (rule exec_expects, auto)
  then have "reaches G x (stage S G s_req_http_end (with_version w) u ([CR, LF] @ p) q)"
    by (rule reaches_trans) (use exec_version_digits(2) in \<open>fastforce simp: with_version_def\<close>)
  then have "reaches G x (stage S G s_req_line_almost_done (with_version w) u (LF # p) q)"
    by (rule reaches_trans) (rule exec_expects, auto)
  then show ?thesis by (rule reaches_trans) (rule exec_expects, auto)
qed

subsection \<open>The method\<close>

lemma exec_method_run:
  assumes "stage S G s_req_method w u (cs @ CHR '' '' # p) q x" "index (parser x) \<le> length (method_string (h_method w))"
    and "method_run (h_method w) (index (parser x)) cs = Some m" "index (parser x) + length cs = length (method_string m)"
    and "CHR '' '' \<notin> set cs"
  shows "reaches G x (stage S G s_req_spaces_before_url (w\<lparr>h_method := m\<rparr>) u p q)"
  using assms
proof (induction cs arbitrary: x w)
  case Nil
  have st: "stage S G s_req_method w u (CHR '' '' # p) q x" using Nil.prems(1) by simp
  note b = stageD [OF st] stage_byte(2,5) [OF st parsing_states(19)]
  have M: "method (parser x) = h_method w" "h_method w = m" using b(11) Nil.prems(3) by (auto simp: head_of_def)
  show ?case
  proof (rule stage_step [OF st parsing_states(19)])
    show "exec_state G (take_byte G x) = Next (update_state s_req_spaces_before_url (upd inc_index (take_byte G x)))"
      using Nil.prems(4) b(4,12) M by (simp add: exec_state_def blank_ends_method)
  qed (use b M in \<open>auto simp: inc_index_def head_of_def\<close>)
next
  case (Cons c cs)
  have st: "stage S G s_req_method w u (c # cs @ CHR '' '' # p) q x" using Cons.prems(1) by simp
  note b = stageD [OF st] stage_byte(2,5) [OF st parsing_states(19)]
  have M: "method (parser x) = h_method w" "c \<noteq> CHR '' ''" using b(11) Cons.prems(5) by (auto simp: head_of_def)
  obtain n where n: "method_step (h_method w) (index (parser x)) c = Some n" "method_run n (index (parser x) + 1) cs = Some m"
    using Cons.prems(3) by (auto split: option.splits)
  have I: "index (parser x) + 1 \<le> length (method_string n)" "index (parser x) + 1 < 32"
    using method_step_prefix(1) [OF n(1)] method_string_len [of n] by simp_all
  let ?y = "upd inc_index (upd (\<lambda>ps. ps\<lparr>method := n\<rparr>) (take_byte G x))"
  let ?z = "?y\<lparr>cur := cur ?y + 1\<rparr>"
  have E: "exec_state G (take_byte G x) = Next ?y"
    using Cons.prems(2,5) b(4,12) n(1) M by (simp add: exec_state_def do_req_method_step)
  have "exec_bytes G x = exec_bytes G ?z"
    using stage_byte(1,4) [OF st parsing_states(19)] E by (rule exec_bytes_next)
  moreover have "stage S G s_req_method (w\<lparr>h_method := n\<rparr>) u (cs @ CHR '' '' # p) q ?z"
    using b stage_byte [OF st parsing_states(19)] by (auto simp: run_at_def inc_index_def head_of_def)
  then have "reaches G ?z (stage S G s_req_spaces_before_url (w\<lparr>h_method := n, h_method := m\<rparr>) u p q)"
    by (rule Cons.IH) (use n I Cons.prems(4,5) in \<open>simp_all add: inc_index_def\<close>)
  ultimately show ?case by (auto intro: reaches_by)
qed

subsection \<open>The URL\<close>

definition url_ends :: "state set" where
  "url_ends = {s_req_server, s_req_server_with_at, s_req_path, s_req_query_string_start, s_req_query_string,
     s_req_fragment_start, s_req_fragment}"

definition url_states :: "state set" where
  "url_states = url_ends \<union> {s_req_schema, s_req_schema_slash, s_req_schema_slash_slash, s_req_server_start}"

definition plain_url :: "string \<Rightarrow> bool" where
  "plain_url url \<longleftrightarrow> url \<noteq> [] \<and> foldl parse_url_char s_req_spaces_before_url url \<in> url_ends"

lemma parse_url_char_next: "parse_url_char s c \<in> url_states \<or> parse_url_char s c = s_dead"
  by (cases s) (simp_all add: parse_url_char_def parse_server_char_def parse_query_char_def url_states_def url_ends_def)

lemma parse_url_dead: "foldl parse_url_char s_dead cs = s_dead"
  by (induction cs) (simp_all add: parse_url_char_def)

lemma parse_url_blank: "parse_url_char s c \<noteq> s_dead \<Longrightarrow> c \<noteq> CHR '' '' \<and> c \<noteq> CR \<and> c \<noteq> LF"
  by (auto simp: parse_url_char_def)

lemma url_states_exec:
  "s \<in> url_states \<Longrightarrow> parsing_header s"
  "p_state y \<in> url_states \<Longrightarrow> xch y \<noteq> CHR '' '' \<Longrightarrow> xch y \<noteq> CR \<Longrightarrow> xch y \<noteq> LF \<Longrightarrow> exec_state G y = url_char y"
  "p_state y \<in> url_ends \<Longrightarrow> xch y = CHR '' '' \<Longrightarrow>
    exec_state G y = callback_data G M_url Next (update_state s_req_http_start y)"
  by (auto simp: url_states_def url_ends_def parsing_header_def exec_state_def do_req_schema_def do_req_url_def)

lemma url_foldl_step:
  assumes "foldl parse_url_char s (c # cs) \<in> url_ends"
  shows "parse_url_char s c \<in> url_states" "parse_url_char s c \<noteq> s_dead" "c \<noteq> CHR '' ''" "c \<noteq> CR" "c \<noteq> LF"
proof -
  have "parse_url_char s c \<noteq> s_dead" using assms parse_url_dead [of cs] by (auto simp: url_ends_def)
  then show "parse_url_char s c \<in> url_states" "parse_url_char s c \<noteq> s_dead" "c \<noteq> CHR '' ''" "c \<noteq> CR" "c \<noteq> LF"
    using parse_url_char_next [of s c] parse_url_blank [of s c] by auto
qed

lemma exec_url_chars:
  assumes "run_at S G s w u M (cs @ p) q x" "s \<in> url_states" "foldl parse_url_char s cs \<in> url_ends"
  shows "reaches G x (\<lambda>y. run_at S G (foldl parse_url_char s cs) w u M p q y \<and> cur y = cur x + length cs)"
  using assms
proof (induction cs arbitrary: x s)
  case Nil
  then show ?case by (intro reaches_refl) simp
next
  case (Cons c cs)
  have st: "run_at S G s w u M (c # cs @ p) q x" using Cons.prems(1) by simp
  note h = url_states_exec(1) [OF Cons.prems(2)]
  note b = stageD [OF st] stage_byte [OF st h]
  note c = url_foldl_step [OF Cons.prems(3)]
  let ?y = "update_state (parse_url_char s c) (take_byte G x)"
  let ?z = "?y\<lparr>cur := cur ?y + 1\<rparr>"
  have "exec_state G (take_byte G x) = url_char (take_byte G x)"
    by (rule url_states_exec(2)) (use b c Cons.prems(2) in simp_all)
  then have E: "exec_state G (take_byte G x) = Next ?y"
    using b c by (simp add: url_char_def Let_def)
  have "exec_bytes G x = exec_bytes G ?z"
    using stage_byte(1,4) [OF st h] E by (rule exec_bytes_next)
  moreover have "run_at S G (parse_url_char s c) w u M (cs @ p) q ?z"
    using b by (auto simp: run_at_def)
  then have "reaches G ?z (\<lambda>y. run_at S G (foldl parse_url_char (parse_url_char s c) cs) w u M p q y \<and> cur y = cur ?z + length cs)"
    by (rule Cons.IH) (use c(1) Cons.prems(3) in simp_all)
  ultimately show ?case by (auto intro: reaches_by)
qed

lemma first_letter_H: "method_string m = CHR ''H'' # cs \<longleftrightarrow> m = HTTP_HEAD \<and> cs = ''EAD''"
  by (cases m) (auto simp: method_strings_def)

definition begin_head :: "http_parser_type \<Rightarrow> head \<Rightarrow> head" where
  "begin_head t w = w\<lparr>h_type := t, h_flags := 0, h_length := ULLONG_MAX, h_te := False\<rparr>"

lemma head_type_id: "h_type w = t \<Longrightarrow> w\<lparr>h_type := t\<rparr> = w"
  by (cases w) simp

subsection \<open>Header names\<close>

lemma name_step_head:
  assumes "name_inv p ps"
  shows "head_of (name_step ps c) = (head_of ps)\<lparr>h_te := uses_transfer_encoding (name_step ps c)\<rparr>"
  using assms
  by (cases "header_state ps")
    (simp_all add: name_inv_def name_step_def field_char_def match_next_def Let_def head_of_def inc_index_def)

lemma name_run_head:
  assumes "name_inv p ps" "\<forall>c\<in>set cs. c \<noteq> CHR '' ''"
  shows "head_of (name_run ps cs) = (head_of ps)\<lparr>h_te := uses_transfer_encoding (name_run ps cs)\<rparr>"
  using assms
proof (induction cs arbitrary: p ps)
  case Nil
  then show ?case by (simp add: name_run_def head_of_def)
next
  case (Cons c cs)
  have "head_of (name_run (name_step ps c) cs) =
      (head_of (name_step ps c))\<lparr>h_te := uses_transfer_encoding (name_run (name_step ps c) cs)\<rparr>"
    by (rule Cons.IH [OF name_step_inv [OF Cons.prems(1)]]) (use Cons.prems(2) in auto)
  then show ?case using name_step_head [OF Cons.prems(1), of c] by (simp add: name_run_def)
qed

lemma name_inv_after [simp]: "name_inv p (parser (after_data G m e x)) = name_inv p (parser x)"
  by (simp add: name_inv_def cong: header_states.case_cong)

subsection \<open>Header values\<close>

definition value_text :: "string \<Rightarrow> bool" where
  "value_text v \<longleftrightarrow> v \<noteq> [] \<and> hd v \<notin> {CHR '' '', TAB} \<and> (\<forall>c\<in>set v. IS_HEADER_CHAR c \<and> c \<noteq> CR \<and> c \<noteq> LF)"

text \<open>Where the loop over a value stands when it meets the line end.\<close>

definition value_stop :: "header_states \<Rightarrow> nat \<Rightarrow> 'u exec \<Rightarrow> 'u exec" where
  "value_stop h n x = x\<lparr>xch := CR, p_state := s_header_almost_done, parser := (parser x)\<lparr>header_state := h\<rparr>, cur := n\<rparr>"

lemma value_stop_simps [simp]:
  "value_stop h n (x\<lparr>xch := c\<rparr>) = value_stop h n x" "value_stop h n (x\<lparr>cur := k\<rparr>) = value_stop h n x"
  "parser (value_stop h n x) = (parser x)\<lparr>header_state := h\<rparr>" "p_state (value_stop h n x) = s_header_almost_done"
  "cur (value_stop h n x) = n" "marks (value_stop h n x) = marks x" "udata (value_stop h n x) = udata x"
  "l_nread (value_stop h n x) = l_nread x"
  "value_stop h n (x\<lparr>xch := c, cur := k\<rparr>) = value_stop h n x" "value_stop h n (x\<lparr>xch := c, cur := k, parser := ps\<rparr>) = value_stop h n (x\<lparr>parser := ps\<rparr>)"
  by (simp_all add: value_stop_def)

lemma value_loop_CR:
  "cur x < length (data G) \<Longrightarrow> data G ! cur x = CR \<Longrightarrow>
    value_loop G start h x = callback_data G M_header_value (value_end G start h) (value_stop h (cur x) x)"
  by (subst value_loop.simps) (simp add: Let_def value_stop_def upd_def update_state_def)

lemma value_skip_run:
  assumes "drop (cur x) (data G) = cs @ CR # r" "\<forall>c\<in>set cs. IS_HEADER_CHAR c \<and> c \<noteq> CR \<and> c \<noteq> LF"
    and "cur x + length cs < pe"
  shows "value_skip G pe x = Inr (x\<lparr>cur := cur x + length cs - 1, xch := CR\<rparr>)"
  using assms
proof (induction cs arbitrary: x)
  case Nil
  then show ?case using drop_ConsD [of "cur x" "data G" CR r] by (subst value_skip.simps) (simp add: Let_def)
next
  case (Cons c cs)
  have c: "cur x < length (data G)" "data G ! cur x = c" "drop (cur x + 1) (data G) = cs @ CR # r"
    using drop_ConsD [of "cur x" "data G" c "cs @ CR # r"] Cons.prems(1) by simp_all
  let ?x = "x\<lparr>xch := c, cur := cur x + 1\<rparr>"
  have "value_skip G pe ?x = Inr (?x\<lparr>cur := cur ?x + length cs - 1, xch := CR\<rparr>)"
    by (rule Cons.IH) (use c Cons.prems(2,3) in simp_all)
  then show ?case using c Cons.prems(2,3) by (subst value_skip.simps) (simp add: Let_def)
qed

lemma value_loop_general:
  assumes "drop (cur x) (data G) = cs @ CR # r" "\<forall>c\<in>set cs. IS_HEADER_CHAR c \<and> c \<noteq> CR \<and> c \<noteq> LF"
    and "length cs < max_header_size G"
  shows "value_loop G start h_general x =
    callback_data G M_header_value (value_end G start h_general) (value_stop h_general (cur x + length cs) x)"
proof (cases cs)
  case Nil
  then show ?thesis using value_loop_CR [of x G start h_general] drop_ConsD [of "cur x" "data G" CR r] assms(1) by simp
next
  case (Cons c ds)
  have c: "cur x < length (data G)" "data G ! cur x = c"
    using drop_ConsD [of "cur x" "data G" c "ds @ CR # r"] assms(1) Cons by simp_all
  have D: "drop (cur x + length cs) (data G) = CR # r" using assms(1) by (rule drop_appendD)
  note e = drop_ConsD [OF D]
  let ?x = "x\<lparr>xch := c\<rparr>" and ?pe = "cur x + min (length (data G) - cur x) (max_header_size G)"
  have "value_skip G ?pe ?x = Inr (?x\<lparr>cur := cur ?x + length cs - 1, xch := CR\<rparr>)"
    by (rule value_skip_run [OF _ assms(2)]) (use assms(1,3) e in \<open>simp_all add: less_diff_conv2 less_diff_conv add.commute\<close>)
  then have "value_char G h_general ?x = Some (Inr (h_general, ?x\<lparr>cur := cur x + length cs - 1, xch := CR\<rparr>))"
    using e by (auto simp: value_char_def value_general_def)
  then have "value_loop G start h_general x = value_loop G start h_general (?x\<lparr>xch := CR, cur := cur x + length cs\<rparr>)"
    using c assms(2) Cons by (subst value_loop.simps) (simp add: Let_def)
  then show ?thesis using e value_loop_CR [of "?x\<lparr>xch := CR, cur := cur x + length cs\<rparr>" G start h_general] by simp
qed

lemma value_loop_number:
  assumes "drop (cur x) (data G) = ds @ CR # r" "\<forall>c\<in>set ds. IS_NUM c" "fits (content_length (parser x)) ds"
  shows "value_loop G start h_content_length_num x =
    callback_data G M_header_value (value_end G start h_content_length_num)
      (value_stop h_content_length_num (cur x + length ds)
        (upd (\<lambda>ps. ps\<lparr>content_length := digits_value (content_length ps) ds\<rparr>) x))"
  using assms
proof (induction ds arbitrary: x)
  case Nil
  then show ?case
    using value_loop_CR [of x G start h_content_length_num] drop_ConsD [of "cur x" "data G" CR r] by (simp add: upd_def)
next
  case (Cons c ds)
  have c: "cur x < length (data G)" "data G ! cur x = c" "drop (cur x + 1) (data G) = ds @ CR # r" "IS_NUM c"
    using drop_ConsD [of "cur x" "data G" c "ds @ CR # r"] Cons.prems(1,2) by simp_all
  let ?n = "content_length (parser x)" and ?x = "x\<lparr>xch := c\<rparr>"
  have F: "?n \<le> (ULLONG_MAX - 10) div 10" "fits (?n * 10 + digit c) ds" using Cons.prems(3) fits_Cons [OF c(4)] by simp_all
  have W: "(?n * 10 + digit c) mod 2 ^ 64 = ?n * 10 + digit c"
    using F(1) IS_NUM_facts(1) [OF c(4)] by (simp add: ULLONG_MAX_def)
  let ?z = "?x\<lparr>parser := (parser x)\<lparr>content_length := ?n * 10 + digit c\<rparr>, cur := cur x + 1\<rparr>"
  have "value_loop G start h_content_length_num x = value_loop G start h_content_length_num ?z"
    using c IS_NUM_facts [OF c(4)] W F(1)
    by (subst value_loop.simps) (simp add: Let_def value_char_def value_content_length_def upd_def)
  also have "\<dots> = callback_data G M_header_value (value_end G start h_content_length_num)
      (value_stop h_content_length_num (cur ?z + length ds)
        (upd (\<lambda>ps. ps\<lparr>content_length := digits_value (content_length ps) ds\<rparr>) ?z))"
    by (rule Cons.IH) (use c F Cons.prems(2) in simp_all)
  finally show ?case by (simp add: upd_def)
qed

subsection \<open>What follows the headers\<close>

text \<open>A head whose message ends by its length, on a connection that stays open.\<close>

definition framed :: "head \<Rightarrow> bool" where
  "framed w \<longleftrightarrow> h_method w \<noteq> HTTP_CONNECT \<and> h_major w = 1 \<and> h_minor w = 1 \<and> \<not> h_te w \<and>
     (h_type w = HTTP_REQUEST \<or> h_length w \<noteq> ULLONG_MAX) \<and> (h_flags w = 0 \<or> h_flags w = set_bit F_CONTENTLENGTH 0)"

definition no_body :: "head \<Rightarrow> bool" where
  "no_body w \<longleftrightarrow> h_length w = 0 \<or> h_length w = ULLONG_MAX"

definition ready :: "head \<Rightarrow> state" where
  "ready w = (if h_type w = HTTP_REQUEST then s_start_req else s_start_res)"

lemma framed_flags:
  assumes "framed w" "head_of ps = w" "f < 7"
  shows "\<not> F_has ps f"
proof -
  have "f \<in> {0, 1, 2, 3, 4, 5, 6}" using assms(3) by auto
  then have "\<not> bit (set_bit F_CONTENTLENGTH (0::byte)) f" by auto
  then show ?thesis using assms(1) head_of_fields(4) [OF assms(2)] by (auto simp: framed_def F_has_def)
qed

lemma framed_new_message:
  assumes "framed w" "head_of ps = w\<lparr>h_length := n\<rparr>" "h_type w = HTTP_REQUEST \<or> n \<noteq> ULLONG_MAX"
  shows "new_message ps = ready w"
proof -
  have W: "framed (w\<lparr>h_length := n\<rparr>)" using assms(1,3) by (simp add: framed_def)
  have "\<not> F_has ps 0" "\<not> F_has ps 2" "\<not> F_has ps 6" using framed_flags [OF W assms(2)] by simp_all
  then show ?thesis
    using W head_of_fields [OF assms(2)] assms(3)
    by (auto simp: new_message_def start_state_def ready_def http_should_keep_alive_def http_message_needs_eof_def framed_def)
qed

lemma exec_finish:
  assumes "stage S G s w u [] [] x"
  shows "exec_bytes G x = Some (return (length (data G)) x)"
  using stageD [OF assms] by (simp add: exec_bytes_end exec_end_empty)

text \<open>A status code of three digits.\<close>

definition status_text :: "string \<Rightarrow> bool" where
  "status_text c \<longleftrightarrow> length c = 3 \<and> (\<forall>d\<in>set c. IS_NUM d)"

end
