(* ===== verification/HttpClients.thy ===== *)
theory HttpClients
  imports HttpStages
begin

section \<open>Clients of the HTTP parser\<close>

text \<open>
  The contract of a client as a locale, and the runs through request lines, status lines, header lines,
  the end of the headers and bodies, with the events that the client gets.
\<close>

subsection \<open>Clients\<close>

locale event_client =
  fixes S :: "'u http_parser_settings" and act :: "http_event \<Rightarrow> 'u \<Rightarrow> 'u"
  assumes S_accepts: "accepts S"
    and on_begin: "notified (on_message_begin S) ps u = act E_begin u"
    and on_headers: "notified (on_headers_complete S) ps u = act E_headers u"
    and on_complete: "notified (on_message_complete S) ps u = act (E_complete (method ps)) u"
    and on_text: "notified_text (data_callback m S) ps t u = act (text_event m ps t) u"
begin

text \<open>A piece of text from its mark to the current byte is delivered as one event.\<close>

lemma deliver_text:
  assumes "marks x m = Some a" "settings G = S" "drop a (data G) = t @ r" "cur x + e = a + length t" "a \<le> cur x"
  shows "udata (after_data G m e x) = act (text_event m ((parser x)\<lparr>state := p_state x\<rparr>) t) (udata x)"
proof -
  have "cur x - a + e = length t" using assms(4,5) by arith
  then show ?thesis using assms by (simp add: udata_after_data on_text)
qed

lemma exec_url:
  assumes st: "stage S G s_req_spaces_before_url w u (url @ CHR '' '' # p) q x" and "plain_url url" "h_method w \<noteq> HTTP_CONNECT"
  shows "reaches G x (stage S G s_req_http_start w (act (E_url url) u) p q)"
proof -
  obtain c cs where url: "url = c # cs" using assms(2) by (cases url) (auto simp: plain_url_def)
  have st: "stage S G s_req_spaces_before_url w u (c # cs @ CHR '' '' # p) q x" using st url by simp
  note b = stageD [OF st] stage_byte [OF st parsing_states(18)]
  have F: "foldl parse_url_char s_req_spaces_before_url (c # cs) \<in> url_ends" using assms(2) by (simp add: plain_url_def url)
  note c = url_foldl_step [OF F]
  let ?s = "parse_url_char s_req_spaces_before_url c" and ?M = "(\<lambda>_. None)(M_url := Some (cur x))"
  let ?y = "update_state ?s (set_mark M_url (take_byte G x))"
  have "exec_state G (take_byte G x) = Next ?y"
    using b c assms(3)
    by (auto simp: exec_state_def do_req_spaces_before_url_def url_char_def Let_def head_of_def)
  then have "exec_bytes G x = exec_bytes G (?y\<lparr>cur := cur ?y + 1\<rparr>)" by (intro exec_bytes_next) (use b in simp_all)
  moreover have "run_at S G ?s w u ?M (cs @ CHR '' '' # p) q (?y\<lparr>cur := cur ?y + 1\<rparr>)"
    using b by (auto simp: run_at_def)
  then have "reaches G (?y\<lparr>cur := cur ?y + 1\<rparr>)
      (\<lambda>y. run_at S G (foldl parse_url_char ?s cs) w u ?M (CHR '' '' # p) q y \<and> cur y = cur x + length url)"
    using exec_url_chars [of S G ?s w u ?M cs "CHR '' '' # p" q] c(1) F by (fastforce simp: url)
  ultimately have "reaches G x (\<lambda>y. run_at S G (foldl parse_url_char ?s cs) w u ?M (CHR '' '' # p) q y \<and> cur y = cur x + length url)"
    by (rule reaches_by)
  then show ?thesis
  proof (rule reaches_trans)
    fix y
    assume "run_at S G (foldl parse_url_char ?s cs) w u ?M (CHR '' '' # p) q y \<and> cur y = cur x + length url"
    then have y: "run_at S G (foldl parse_url_char ?s cs) w u ?M (CHR '' '' # p) q y" "cur y = cur x + length url" by simp_all
    have U: "foldl parse_url_char ?s cs \<in> url_ends" using F by simp
    then have h: "parsing_header (foldl parse_url_char ?s cs)" by (intro url_states_exec(1)) (simp add: url_states_def)
    note d = stageD [OF y(1)] stage_byte [OF y(1) h]
    let ?z = "after_data G M_url 0 (update_state s_req_http_start (take_byte G y))"
    have "exec_state G (take_byte G y) = callback_data G M_url Next (update_state s_req_http_start (take_byte G y))"
      by (rule url_states_exec(3)) (use d U in simp_all)
    then have E: "exec_state G (take_byte G y) = Next ?z"
      using d S_accepts by (simp add: callback_data_def callback_data_accepts acceptsD)
    have D: "drop (cur x) (data G) = url @ CHR '' '' # p @ q" using b(5) by (simp add: url)
    show "reaches G y (stage S G s_req_http_start w (act (E_url url) u) p q)"
    proof (rule stage_step [OF y(1) h E])
      show "udata ?z = act (E_url url) u"
        using deliver_text [of "update_state s_req_http_start (take_byte G y)" M_url "cur x" G url "CHR '' '' # p @ q" 0] d y(2) D
        by simp
    qed (use d h in simp_all)
  qed
qed

lemma exec_start:
  assumes st: "stage S G s w u (method_string m @ CHR '' '' # p) q x"
    and s: "s = s_start_req \<and> h_type w = HTTP_REQUEST \<or> s = s_start_req_or_res \<and> m \<noteq> HTTP_HEAD"
  shows "reaches G x (stage S G s_req_spaces_before_url (begin_head HTTP_REQUEST w\<lparr>h_method := m\<rparr>) (act E_begin u) p q)"
proof -
  obtain c cs n where m: "method_string m = c # cs" "first_method c = Some n" "method_run n 1 cs = Some m"
    using method_run_all by blast
  have st: "stage S G s w u (c # cs @ CHR '' '' # p) q x" using st m(1) by simp
  have h: "parsing_header s" using s by auto
  note b = stageD [OF st] stage_byte [OF st h]
  have c: "IS_ALPHA c" "c \<noteq> CR" "c \<noteq> LF" "s = s_start_req_or_res \<Longrightarrow> c \<noteq> CHR ''H''" "CHR '' '' \<notin> set cs" "c \<noteq> CHR '' ''"
    using first_method_first [OF m(2)] method_string_chars [of _ m] m(1) s
    by (auto simp: IS_ALPHA_def first_letter_H)
  let ?A = "\<lambda>x. after_notify (on_message_begin S) (update_state s_req_method (upd (\<lambda>ps. ps\<lparr>method := n\<rparr>)
      (upd (\<lambda>ps. ps\<lparr>method := HTTP_DELETE, index := 1\<rparr>) (upd begin_message x))))"
  have R: "exec_state G y = Next (?A y)" if "p_state y = s_start_req" "xch y = c" "http_errno (parser y) = HPE_OK" for y
    using that c m(2) b(1) S_accepts
    by (simp add: exec_state_def do_start_req_def Let_def begin_message_def callback_notify_accepts acceptsD)
  let ?v = "if s = s_start_req then take_byte G x
    else update_state s_start_req (upd (\<lambda>ps. ps\<lparr>ptype := HTTP_REQUEST\<rparr>) (upd begin_message (take_byte G x)))"
  let ?y = "?A ?v"
  have "exec_bytes G x = exec_bytes G (?y\<lparr>cur := cur ?y + 1\<rparr>)"
  proof (cases "s = s_start_req")
    case True
    then show ?thesis using R [of "take_byte G x"] b by (intro exec_bytes_next) simp_all
  next
    case False
    then have "exec_state G (take_byte G x) = Again ?v"
      using s b c by (simp add: exec_state_def do_start_req_or_res_def Let_def)
    then show ?thesis by (rule exec_bytes_again [OF b(12,15)]) (use R [of ?v] False b in \<open>simp add: begin_message_def\<close>)
  qed
  moreover have "stage S G s_req_method (begin_head HTTP_REQUEST w\<lparr>h_method := n\<rparr>) (act E_begin u) (cs @ CHR '' '' # p) q
      (?y\<lparr>cur := cur ?y + 1\<rparr>)"
    using b s h by (auto simp: run_at_def udata_after_notify on_begin begin_head_def head_type_id)
  then have "reaches G (?y\<lparr>cur := cur ?y + 1\<rparr>)
      (stage S G s_req_spaces_before_url (begin_head HTTP_REQUEST w\<lparr>h_method := n, h_method := m\<rparr>) (act E_begin u) p q)"
    by (rule exec_method_run)
      (use m c first_method_len [OF m(2)] method_run_prefix [OF m(3)] in \<open>auto simp: after_notify_def split: option.split\<close>)
  ultimately show ?thesis by (auto intro: reaches_by)
qed

text \<open>The name of a header line is delivered when its colon is read: from inside the name, whose part \<open>pre\<close>
  has been read, and from its first byte.\<close>

lemma exec_name_rest:
  assumes v: "run_at S G s_header_field w u ((\<lambda>_. None)(M_header_field := Some a)) (cs @ CHR '':'' # p) q v"
    and t: "drop a (data G) = t @ CHR '':'' # p @ q" "cur v + length cs = a + length t" "a \<le> cur v"
    and N: "name_inv pre (parser v)" "\<forall>c\<in>set cs. TOKEN c \<noteq> NUL" "h_te w \<longleftrightarrow> prefix ''transfer-encoding'' pre"
  shows "reaches G v (\<lambda>y. stage S G s_header_value_discard_ws (w\<lparr>h_te := prefix ''transfer-encoding'' (pre @ map TOKEN cs)\<rparr>)
    (act (E_field t) u) p q y \<and> name_inv (pre @ map TOKEN cs) (parser y))"
proof -
  let ?w = "w\<lparr>h_te := prefix ''transfer-encoding'' (pre @ map TOKEN cs)\<rparr>" and ?M = "(\<lambda>_. None)(M_header_field := Some a)"
  note d = stageD [OF v]
  have C: "cur v < length (data G)" "counts G v" "l_nread (take_byte G v) = l_nread v + 1"
    using arg_cong [OF d(5), of length] d(3,4,9) by (auto simp: counts_def)
  obtain y where y: "field_loop G (take_byte G v) = Some y" "parser y = name_run (parser v) (map TOKEN cs)"
    "cur y = cur v + length cs" "xch y = CHR '':''" "p_state y = s_header_field" "marks y = ?M"
    "l_nread y = l_nread v + 1" "udata y = u"
    using field_loop_tokens [of "take_byte G v" G cs "p @ q" pre] d N C by auto
  have cs: "\<forall>c\<in>set (map TOKEN cs). c \<noteq> CHR '' ''" using token_blank by auto
  have ute: "uses_transfer_encoding (parser v) \<longleftrightarrow> False \<or> prefix ''transfer-encoding'' pre" using N(3) d(11) by (auto simp: head_of_def)
  have run: "name_inv (pre @ map TOKEN cs) (parser y)"
      "uses_transfer_encoding (parser y) \<longleftrightarrow> prefix ''transfer-encoding'' (pre @ map TOKEN cs)"
    using name_run_inv [OF N(1) ute cs] by (simp_all add: y(2))
  have e: "http_errno (parser y) = HPE_OK" "head_of (parser y) = ?w"
    using name_run_errno [OF N(1) cs] name_run_head [OF N(1) cs] d(10,11) run(2) by (auto simp: y(2))
  let ?z = "update_state s_header_value_discard_ws (y\<lparr>l_nread := l_nread v + 1 + length cs\<rparr>)"
  let ?f = "after_data G M_header_field 0 ?z"
  have L: "drop (cur y) (data G) = CHR '':'' # p @ q" using drop_appendD [of "cur v" "data G" cs] d(5) y(3) by simp
  note l = drop_ConsD [OF L]
  have E: "exec_state G (take_byte G v) = Next ?f"
    using y l d(3,9) C e S_accepts d(1,4)
    by (simp add: exec_state_def do_header_field_def Let_def count_header_size_def callback_data_def callback_data_accepts acceptsD)
  have "exec_bytes G v = exec_bytes G (?f\<lparr>cur := cur ?f + 1\<rparr>)" by (rule exec_bytes_next [OF C(1,2) E])
  moreover have "udata ?f = act (E_field t) u"
    using deliver_text [of ?z M_header_field a G t "CHR '':'' # p @ q" 0] y t d(1) by simp
  then have "stage S G s_header_value_discard_ws ?w (act (E_field t) u) p q (?f\<lparr>cur := cur ?f + 1\<rparr>)"
    using d y e l by (simp add: run_at_def)
  moreover have "name_inv (pre @ map TOKEN cs) (parser (?f\<lparr>cur := cur ?f + 1\<rparr>))"
    using run(1) by simp
  ultimately show ?thesis unfolding reaches_def by blast
qed

lemma exec_name_first:
  assumes st: "stage S G s_header_field_start w u (c # p) q x" and c: "TOKEN c \<noteq> NUL"
  shows "reaches G x (\<lambda>v. run_at S G s_header_field w u ((\<lambda>_. None)(M_header_field := Some (cur x))) p q v \<and> cur v = cur x + 1 \<and>
    name_inv [TOKEN c] (parser v) \<and> l_nread v = l_nread x + 1)"
proof -
  note b = stageD [OF st] stage_byte [OF st parsing_states(11)]
  have c: "c \<noteq> CR" "c \<noteq> LF" using c by (auto simp: TOKEN_def STRICT_TOKEN_def tokens_def char_of_0)
  let ?y = "upd (\<lambda>ps. ps\<lparr>index := 0, header_state := field_start_state (TOKEN c)\<rparr>)
    (update_state s_header_field (set_mark M_header_field (take_byte G x)))"
  have "exec_state G (take_byte G x) = Next ?y"
    using b c assms(2) by (simp add: exec_state_def do_header_field_start_def Let_def)
  then have "exec_bytes G x = exec_bytes G (?y\<lparr>cur := cur ?y + 1\<rparr>)" by (rule exec_bytes_next [OF b(12,15)])
  moreover have "name_inv [TOKEN c] (parser (?y\<lparr>cur := cur ?y + 1\<rparr>))" by (rule name_start) simp_all
  moreover have "run_at S G s_header_field w u ((\<lambda>_. None)(M_header_field := Some (cur x))) p q (?y\<lparr>cur := cur ?y + 1\<rparr>)"
    using b by (auto simp: run_at_def)
  ultimately show ?thesis using b(16) unfolding reaches_def by (intro exI [of _ "?y\<lparr>cur := cur ?y + 1\<rparr>"]) simp
qed

lemma exec_name:
  assumes st: "stage S G s_header_field_start w u (name @ CHR '':'' # p) q x"
    and name: "name \<noteq> []" "\<forall>c\<in>set name. TOKEN c \<noteq> NUL" "\<not> h_te w"
  shows "reaches G x (\<lambda>y. stage S G s_header_value_discard_ws (w\<lparr>h_te := prefix ''transfer-encoding'' (map TOKEN name)\<rparr>) (act (E_field name) u) p q y \<and>
    name_inv (map TOKEN name) (parser y))"
proof -
  obtain c cs where n: "name = c # cs" using name(1) by (cases name) auto
  have st: "stage S G s_header_field_start w u (c # cs @ CHR '':'' # p) q x" using st n by simp
  have D: "drop (cur x) (data G) = name @ CHR '':'' # p @ q" using stageD(5) [OF st] by (simp add: n)
  have T: "h_te w \<longleftrightarrow> prefix ''transfer-encoding'' [TOKEN c]" using name(3) by simp
  show ?thesis
    using exec_name_first [OF st]
  proof (rule reaches_trans)
    show "TOKEN c \<noteq> NUL" using name(2) n by simp
    fix v
    assume v: "run_at S G s_header_field w u ((\<lambda>_. None)(M_header_field := Some (cur x))) (cs @ CHR '':'' # p) q v \<and> cur v = cur x + 1 \<and>
      name_inv [TOKEN c] (parser v) \<and> l_nread v = l_nread x + 1"
    show "reaches G v (\<lambda>y. stage S G s_header_value_discard_ws (w\<lparr>h_te := prefix ''transfer-encoding'' (map TOKEN name)\<rparr>) (act (E_field name) u) p q y \<and>
        name_inv (map TOKEN name) (parser y))"
      using exec_name_rest [of G w u "cur x" cs p q v name "[TOKEN c]"] v D T name(2) by (simp add: n)
  qed
qed

lemma exec_header_name:
  assumes "stage S G s_header_field_start w u (name @ CHR '':'' # p) q x"
    and "name \<noteq> []" "\<forall>c\<in>set name. TOKEN c \<noteq> NUL" "\<not> prefix ''transfer-encoding'' (map TOKEN name)" "\<not> h_te w"
  shows "reaches G x (\<lambda>y. stage S G s_header_value_discard_ws w (act (E_field name) u) p q y \<and>
    name_inv (map TOKEN name) (parser y))"
proof -
  have "w\<lparr>h_te := False\<rparr> = w" using assms(5) by (cases w) simp
  then show ?thesis using exec_name [OF assms(1-3,5)] assms(4) by simp
qed

text \<open>From inside a value to the character after its line, for a loop that takes the rest of the value.\<close>

lemma exec_value_rest:
  assumes st: "run_at S G s_header_value w u ((\<lambda>_. None)(M_header_value := Some a)) (cs @ CR # LF # p) q x"
    and loop: "value_loop G (cur x) (header_state (parser x)) (take_byte G x) =
      callback_data G M_header_value (value_end G (cur x) h) (value_stop h (cur x + length cs) (upd f (take_byte G x)))"
    and f: "http_errno (f (parser x)) = HPE_OK" "head_of (f (parser x)) = w'"
    and v: "drop a (data G) = v @ CR # r" "cur x + length cs = a + length v" "a \<le> cur x"
  shows "reaches G x (\<lambda>y. stage S G s_header_value_lws w' (act (E_value v) u) p q y \<and> header_state (parser y) = h)"
proof -
  note d = stageD [OF st]
  have D: "drop (cur x) (data G) = cs @ CR # LF # p @ q" using d(5) by simp
  note e = drop_appendD [OF D]
  have L: "cur x < length (data G)" using drop_ConsD [OF e] by simp
  have C: "counts G x" using d(3,9) by (simp add: counts_def)
  let ?s = "value_stop h (cur x + length cs) (upd f (take_byte G x))"
  let ?y = "(after_data G M_header_value 0 ?s)\<lparr>l_nread := l_nread x + 1 + length cs\<rparr>"
  have P: "header_state (parser ?s) = h" "http_errno (parser ?s) = HPE_OK" "head_of (parser ?s) = w'" "p_state ?s = s_header_almost_done"
    "cur ?s = cur x + length cs" "marks ?s = (\<lambda>_. None)(M_header_value := Some a)" "udata ?s = u" "l_nread ?s = l_nread x + 1"
    using d f by simp_all
  have U: "upd (\<lambda>ps. ps\<lparr>header_state := h\<rparr>) (after_data G M_header_value 0 ?s) = after_data G M_header_value 0 ?s"
    using P(1) by (simp add: upd_def)
  have E: "exec_state G (take_byte G x) = Next ?y"
    using loop d P U drop_ConsD [OF e] S_accepts
    by (simp add: exec_state_def do_header_value_def callback_data_def callback_data_accepts acceptsD value_end_def Let_def
        count_header_size_def)
  have "exec_bytes G x = exec_bytes G (?y\<lparr>cur := cur ?y + 1\<rparr>)" by (rule exec_bytes_next [OF L C E])
  moreover have "udata ?y = act (E_value v) u"
    using deliver_text [of ?s M_header_value a G v "CR # r" 0] P v d(1) by simp
  then have T: "stage S G s_header_almost_done w' (act (E_value v) u) (LF # p) q (?y\<lparr>cur := cur ?y + 1\<rparr>)"
    using d P drop_ConsD [OF e] by (simp add: run_at_def)
  note b = stageD [OF T] stage_byte [OF T parsing_states(15)]
  let ?z = "update_state s_header_value_lws (take_byte G (?y\<lparr>cur := cur ?y + 1\<rparr>))"
  have "exec_state G (take_byte G (?y\<lparr>cur := cur ?y + 1\<rparr>)) = Next ?z"
    using b P by (simp add: exec_state_def do_header_almost_done_def)
  then have "exec_bytes G (?y\<lparr>cur := cur ?y + 1\<rparr>) = exec_bytes G (?z\<lparr>cur := cur ?z + 1\<rparr>)"
    by (rule exec_bytes_next [OF b(12,15)])
  moreover have "stage S G s_header_value_lws w' (act (E_value v) u) p q (?z\<lparr>cur := cur ?z + 1\<rparr>)"
    using b P by (simp add: run_at_def)
  moreover have "header_state (parser (?z\<lparr>cur := cur ?z + 1\<rparr>)) = h" using P(1) by simp
  ultimately show ?thesis unfolding reaches_def by metis
qed

lemma exec_blank:
  assumes st: "stage S G s_header_value_discard_ws w u (CHR '' '' # p) q x"
  shows "reaches G x (\<lambda>y. stage S G s_header_value_discard_ws w u p q y \<and> parser y = parser x)"
proof -
  note b = stageD [OF st] stage_byte [OF st parsing_states(13)]
  let ?y = "take_byte G x"
  have "exec_state G ?y = Next ?y" using b by (simp add: exec_state_def do_header_value_discard_ws_def)
  then have "exec_bytes G x = exec_bytes G (?y\<lparr>cur := cur ?y + 1\<rparr>)" by (rule exec_bytes_next [OF b(12,15)])
  moreover have "stage S G s_header_value_discard_ws w u p q (?y\<lparr>cur := cur ?y + 1\<rparr>)"
    using b by (simp add: run_at_def)
  ultimately show ?thesis unfolding reaches_def by force
qed

text \<open>The first character of a value, for a header without a meaning and for a Content-Length.\<close>

lemma exec_value_first:
  assumes st: "stage S G s_header_value_discard_ws w u (c # p) q x" and c: "c \<notin> {CHR '' '', TAB, CR, LF}"
    and start: "do_header_value_start G (take_byte G x) = Next (upd f (update_state s_header_value (set_mark M_header_value (take_byte G x))))"
    and f: "http_errno (f (parser x)) = HPE_OK" "head_of (f (parser x)) = w'"
  shows "reaches G x (\<lambda>y. run_at S G s_header_value w' u ((\<lambda>_. None)(M_header_value := Some (cur x))) p q y \<and>
    parser y = f (parser x) \<and> cur y = cur x + 1)"
proof -
  note b = stageD [OF st] stage_byte [OF st parsing_states(13)]
  let ?y = "upd f (update_state s_header_value (set_mark M_header_value (take_byte G x)))"
  have "exec_state G (take_byte G x) = Next ?y"
    using b c start by (simp add: exec_state_def do_header_value_discard_ws_def)
  then have "exec_bytes G x = exec_bytes G (?y\<lparr>cur := cur ?y + 1\<rparr>)" by (rule exec_bytes_next [OF b(12,15)])
  moreover have "run_at S G s_header_value w' u ((\<lambda>_. None)(M_header_value := Some (cur x))) p q (?y\<lparr>cur := cur ?y + 1\<rparr>)"
    using b f by (simp add: run_at_def)
  ultimately show ?thesis unfolding reaches_def using b by force
qed

text \<open>A value, for what its first character does (\<open>f\<close>) and a loop that takes the rest (\<open>g\<close>).\<close>

lemma exec_value:
  assumes st: "stage S G s_header_value_discard_ws w u (CHR '' '' # v @ CR # LF # p) q x" and v: "value_text v"
    and start: "\<And>y. p_state y = s_header_value_discard_ws \<Longrightarrow> parser y = parser x \<Longrightarrow> xch y = hd v \<Longrightarrow>
      do_header_value_start G y = Next (upd f (update_state s_header_value (set_mark M_header_value y)))"
    and f: "http_errno (f (parser x)) = HPE_OK" "head_of (f (parser x)) = w'"
    and loop: "\<And>y. drop (cur y) (data G) = tl v @ CR # LF # p @ q \<Longrightarrow> parser y = f (parser x) \<Longrightarrow> length v < max_header_size G \<Longrightarrow>
      value_loop G (cur y) (header_state (f (parser x))) y = callback_data G M_header_value
        (value_end G (cur y) h) (value_stop h (cur y + length (tl v)) (upd g y))"
    and g: "http_errno (g (f (parser x))) = HPE_OK" "head_of (g (f (parser x))) = w''"
  shows "reaches G x (\<lambda>y. stage S G s_header_value_lws w'' (act (E_value v) u) p q y \<and> header_state (parser y) = h)"
  using exec_blank [OF st]
proof (rule reaches_trans)
  fix x'
  assume x': "stage S G s_header_value_discard_ws w u (v @ CR # LF # p) q x' \<and> parser x' = parser x"
  obtain c cs where c: "v = c # cs" using v by (cases v) (auto simp: value_text_def)
  have st: "stage S G s_header_value_discard_ws w u (c # cs @ CR # LF # p) q x'" using x' c by simp
  have V: "c \<notin> {CHR '' '', TAB, CR, LF}" using v by (auto simp: c value_text_def)
  note b = stageD [OF st] stage_byte(2) [OF st parsing_states(13)]
  have "reaches G x' (\<lambda>y. run_at S G s_header_value w' u ((\<lambda>_. None)(M_header_value := Some (cur x'))) (cs @ CR # LF # p) q y \<and>
      parser y = f (parser x') \<and> cur y = cur x' + 1)"
    by (rule exec_value_first [OF st V]) (use start b(4,12) x' f c in simp_all)
  then show "reaches G x' (\<lambda>y. stage S G s_header_value_lws w'' (act (E_value v) u) p q y \<and> header_state (parser y) = h)"
  proof (rule reaches_trans)
    fix y
    assume "run_at S G s_header_value w' u ((\<lambda>_. None)(M_header_value := Some (cur x'))) (cs @ CR # LF # p) q y \<and>
      parser y = f (parser x') \<and> cur y = cur x' + 1"
    then have y: "run_at S G s_header_value w' u ((\<lambda>_. None)(M_header_value := Some (cur x'))) (cs @ CR # LF # p) q y"
      "parser y = f (parser x)" "cur y = cur x' + 1" using x' by simp_all
    note d = stageD [OF y(1)]
    show "reaches G y (\<lambda>y. stage S G s_header_value_lws w'' (act (E_value v) u) p q y \<and> header_state (parser y) = h)"
    proof (rule exec_value_rest [OF y(1), where f = g])
      show "value_loop G (cur y) (header_state (parser y)) (take_byte G y) = callback_data G M_header_value
          (value_end G (cur y) h) (value_stop h (cur y + length cs) (upd g (take_byte G y)))"
        using loop [of "take_byte G y"] y(2) d(5,9) c by simp
      show "drop (cur x') (data G) = v @ CR # LF # p @ q" using b(5) by (simp add: c)
    qed (use d y c g in simp_all)
  qed
qed

lemma exec_value_plain:
  assumes st: "stage S G s_header_value_discard_ws w u (CHR '' '' # v @ CR # LF # p) q x" and v: "value_text v"
    and name: "name_inv n (parser x)" "n \<notin> special_names"
  shows "reaches G x (\<lambda>y. stage S G s_header_value_lws w (act (E_value v) u) p q y \<and> header_state (parser y) = h_general)"
proof (rule exec_value [OF st v, where f = "\<lambda>ps. ps\<lparr>index := 0, header_state := h_general\<rparr>" and g = "\<lambda>ps. ps"])
  have H: "header_state (parser x) \<notin> {h_upgrade, h_transfer_encoding, h_content_length, h_connection}"
    using name_inv_class [OF name(1)] name(2) by (auto simp: special_names_def)
  show "do_header_value_start G y =
      Next (upd (\<lambda>ps. ps\<lparr>index := 0, header_state := h_general\<rparr>) (update_state s_header_value (set_mark M_header_value y)))"
    if "parser y = parser x" for y
    using that H name(1) by (cases "header_state (parser x)") (simp_all add: do_header_value_start_def Let_def upd_def name_inv_def)
  have "\<forall>c\<in>set (tl v). IS_HEADER_CHAR c \<and> c \<noteq> CR \<and> c \<noteq> LF" using v by (cases v) (auto simp: value_text_def)
  then show "value_loop G (cur y) (header_state ((parser x)\<lparr>index := 0, header_state := h_general\<rparr>)) y = callback_data G M_header_value
      (value_end G (cur y) h_general) (value_stop h_general (cur y + length (tl v)) (upd (\<lambda>ps. ps) y))"
    if "drop (cur y) (data G) = tl v @ CR # LF # p @ q" "length v < max_header_size G" for y
    using value_loop_general [of y G "tl v" "LF # p @ q" "cur y"] that by simp
qed (use stageD [OF st] in simp_all)

lemma digits_value_text: "v \<noteq> [] \<Longrightarrow> \<forall>c\<in>set v. IS_NUM c \<Longrightarrow> value_text v"
  by (cases v) (auto simp: value_text_def IS_NUM_def IS_HEADER_CHAR_def)

lemma exec_value_length:
  assumes st: "stage S G s_header_value_discard_ws w u (CHR '' '' # v @ CR # LF # p) q x"
    and v: "v \<noteq> []" "\<forall>c\<in>set v. IS_NUM c" "digits_value 0 v < length_limit"
    and h: "header_state (parser x) = h_content_length" "\<not> bit (h_flags w) F_CONTENTLENGTH"
  shows "reaches G x (\<lambda>y. stage S G s_header_value_lws
      (w\<lparr>h_flags := set_bit F_CONTENTLENGTH (h_flags w), h_length := digits_value 0 v\<rparr>) (act (E_value v) u) p q y \<and>
    header_state (parser y) = h_content_length_num)"
proof -
  obtain c cs where c: "v = c # cs" using v(1) by (cases v) auto
  note b = stageD [OF st]
  have N: "IS_NUM c" "\<forall>c\<in>set cs. IS_NUM c" using v(2) by (simp_all add: c)
  let ?f = "\<lambda>ps. (F_set F_CONTENTLENGTH ps)\<lparr>index := 0, header_state := h_content_length_num, content_length := digit c\<rparr>"
  have F: "fits (digit c) cs" using v(3) by (cases cs) (simp_all add: c fits_def)
  have C: "\<not> F_has (parser x) F_CONTENTLENGTH" using h(2) b(11) by (auto simp: F_has_def head_of_def)
  show ?thesis
  proof (rule exec_value [OF st digits_value_text [OF v(1,2)], where f = ?f
        and g = "\<lambda>ps. ps\<lparr>content_length := digits_value (content_length ps) cs\<rparr>"])
    show "do_header_value_start G y = Next (upd ?f (update_state s_header_value (set_mark M_header_value y)))"
      if "parser y = parser x" "xch y = hd v" for y
      using that C N(1) h(1) by (simp add: do_header_value_start_def Let_def upd_def F_has_def F_set_def c)
    show "value_loop G (cur y) (header_state (?f (parser x))) y = callback_data G M_header_value
          (value_end G (cur y) h_content_length_num) (value_stop h_content_length_num (cur y + length (tl v))
            (upd (\<lambda>ps. ps\<lparr>content_length := digits_value (content_length ps) cs\<rparr>) y))"
      if "drop (cur y) (data G) = tl v @ CR # LF # p @ q" "parser y = ?f (parser x)" for y
      using value_loop_number [of y G cs "LF # p @ q" "cur y"] that N(2) F c by simp
    show "head_of (?f (parser x)) = w\<lparr>h_flags := set_bit F_CONTENTLENGTH (h_flags w), h_length := digit c\<rparr>"
      using b(11) by (auto simp: F_set_def head_of_def)
  qed (use b c in \<open>auto simp: F_set_def head_of_def\<close>)
qed

text \<open>A new line that does not begin with a blank is a new header.\<close>

lemma exec_line:
  assumes st: "stage S G s_header_value_lws w u (c # p) q x" and c: "c \<noteq> CHR '' ''" "c \<noteq> TAB"
    and h: "header_state (parser x) \<in> {h_general, h_content_length_num}"
  shows "reaches G x (stage S G s_header_field_start w u (c # p) q)"
proof -
  note b = stageD [OF st] stage_byte [OF st parsing_states(16)]
  let ?y = "update_state s_header_field_start x"
  have E: "exec_state G (take_byte G x) = Again (take_byte G ?y)"
    using b c h by (auto simp: exec_state_def do_header_value_lws_def value_flag_def upd_def take_byte_def update_state_def)
  have "exec_bytes G x = exec_bytes G ?y"
    using b exec_bytes_count [of x G] exec_bytes_count [of ?y G] reexecute.simps [of G "take_byte G x"] E
    by (simp add: counts_def)
  moreover have "stage S G s_header_field_start w u (c # p) q ?y" using b by (simp add: run_at_def)
  ultimately show ?thesis by (auto simp: reaches_def)
qed

lemma message_complete_run:
  assumes "settings G = S" "http_errno (parser x) = HPE_OK"
  shows "message_complete G k x = k (after_notify (on_message_complete S) (update_state (new_message (parser x)) x))"
  using assms S_accepts by (simp add: message_complete_def callback_notify_accepts acceptsD)

text \<open>The blank line: the headers are announced; a message without a body is then complete.\<close>

lemma exec_headers_end:
  assumes st: "stage S G s_header_field_start w u [CR, LF] q x" and w: "framed w"
  shows "reaches G x (\<lambda>y. \<not> upgrade (parser y) \<and> l_nread y = 0 \<and>
    (if no_body w then stage S G (ready w) w (act (E_complete (h_method w)) (act E_headers u)) [] q y
     else stage S G s_body_identity w (act E_headers u) [] q y))"
proof (rule reaches_trans)
  show "reaches G x (stage S G s_headers_almost_done w u [LF] q)"
    by (rule move_step [OF st]) (simp_all add: exec_state_def do_header_field_start_def)
next
  fix x
  assume st: "stage S G s_headers_almost_done w u [LF] q x"
  note b = stageD [OF st] stage_byte [OF st parsing_states(17)]
  have fl: "\<not> F_has ps f" if "f < 7" "head_of ps = w" for ps f using framed_flags [OF w that(2,1)] .
  note hf = head_of_fields [OF b(11)]
  let ?h = "upd set_upgrade (update_state s_headers_done (take_byte G x))"
  let ?y = "?h\<lparr>udata := notified (on_headers_complete S) (parser ?h) (udata ?h)\<rparr>"
  have H: "do_headers_complete G k z = k (z\<lparr>udata := notified (on_headers_complete S) (parser z) (udata z)\<rparr>)" for k z
    using acceptsD(2) [OF S_accepts] b(1)
    by (auto simp: do_headers_complete_def notified_def accepts_cb_def Let_def split: option.split)
  have N: "\<not> length_conflict G (parser x)" using w hf by (simp add: length_conflict_def framed_def)
  have E: "exec_state G (take_byte G x) = Again ?y"
    using b fl [of 4] N
    by (simp add: exec_state_def do_headers_almost_done_def strict_check_def H set_upgrade_def)
  have Y: "parser ?y = set_upgrade (parser x)" "\<not> upgrade (set_upgrade (parser x))" "udata ?y = act E_headers u"
    using b fl [of 3] hf(2) w on_headers by (simp_all add: set_upgrade_def framed_def)
  let ?z = "(upd (\<lambda>ps. ps\<lparr>nread := 0\<rparr>) ?y)\<lparr>l_nread := 0\<rparr>"
  have Z: "\<not> upgrade (parser ?z)" "head_of (parser ?z) = w" "http_errno (parser ?z) = HPE_OK" "p_state ?z = s_headers_done"
    "xch ?y = LF" "cur ?z = cur x" "marks ?z = (\<lambda>_. None)" "udata ?z = act E_headers u" "l_nread ?z = 0"
    using b Y by (simp_all add: set_upgrade_def)
  note zf = head_of_fields [OF Z(2)]
  let ?c = "after_notify (on_message_complete S) (update_state (new_message (parser ?z)) ?z)"
  have M: "h_type w = HTTP_REQUEST \<or> h_length w \<noteq> ULLONG_MAX" using w by (simp add: framed_def)
  have S: "exec_state G ?y = Next (if no_body w then ?c else update_state s_body_identity ?z)"
  proof -
    have "exec_state G ?y = do_headers_done G ?y" by (simp add: exec_state_def)
    also have "\<dots> = (if content_length (parser ?z) = 0 then message_complete G Next ?z
        else if content_length (parser ?z) \<noteq> ULLONG_MAX then Next (update_state s_body_identity ?z)
        else message_complete G Next ?z)"
      using Z fl [OF _ Z(2)] zf w by (auto simp: do_headers_done_def strict_check_def Let_def framed_def http_message_needs_eof_def)
    also have "\<dots> = Next (if no_body w then ?c else update_state s_body_identity ?z)"
      using message_complete_run [of G ?z Next] b(1) Z(3) zf(7) by (simp add: no_body_def ULLONG_MAX_def)
    finally show ?thesis .
  qed
  let ?e = "if no_body w then ?c else update_state s_body_identity ?z"
  have "exec_bytes G x = exec_bytes G (?e\<lparr>cur := cur ?e + 1\<rparr>)"
    by (rule exec_bytes_again [OF b(12,15) E S])
  moreover have "\<not> upgrade (parser (?e\<lparr>cur := cur ?e + 1\<rparr>))" "l_nread (?e\<lparr>cur := cur ?e + 1\<rparr>) = 0" using Z by simp_all
  moreover have "if no_body w then stage S G (ready w) w (act (E_complete (h_method w)) (act E_headers u)) [] q (?e\<lparr>cur := cur ?e + 1\<rparr>)
     else stage S G s_body_identity w (act E_headers u) [] q (?e\<lparr>cur := cur ?e + 1\<rparr>)"
    using b Z zf framed_new_message [OF w, of "parser ?z" "h_length w"] M
    by (simp add: run_at_def udata_after_notify on_complete)
  ultimately show "reaches G x (\<lambda>y. \<not> upgrade (parser y) \<and> l_nread y = 0 \<and>
    (if no_body w then stage S G (ready w) w (act (E_complete (h_method w)) (act E_headers u)) [] q y
     else stage S G s_body_identity w (act E_headers u) [] q y))"
    unfolding reaches_def by blast
qed

text \<open>A body that is in the buffer as a whole.\<close>

lemma exec_body:
  assumes st: "stage S G s_body_identity w u [] (t @ q) x" and w: "framed w" "h_length w = length t" "t \<noteq> []" "length t < ULLONG_MAX"
    and up: "\<not> upgrade (parser x)"
  shows "reaches G x (\<lambda>y. stage S G (ready w) (w\<lparr>h_length := 0\<rparr>) (act (E_complete (h_method w)) (act (E_body t) u)) [] q y \<and> l_nread y = l_nread x)"
proof -
  note b = stageD [OF st]
  note hf = head_of_fields [OF b(11)]
  have L: "cur x < length (data G)" "length t \<le> length (data G) - cur x"
  proof -
    show "cur x < length (data G)" using b(5) w(3) by (metis append_is_Nil_conv append_Nil drop_eq_Nil not_le)
    show "length t \<le> length (data G) - cur x" using arg_cong [OF b(5), of length] by simp
  qed
  have C: "counts G x" using b(4) by (simp add: counts_def parsing_header_def)
  let ?t = "take_body G (take_byte G x)"
  have T: "cur ?t = cur x + length t - 1" "p_state ?t = s_body_identity" "parser ?t = (parser x)\<lparr>content_length := 0\<rparr>"
    "marks ?t = (\<lambda>_. None)(M_body := Some (cur x))" "udata ?t = u" "l_nread ?t = l_nread x"
    using b L hf w by (simp_all add: take_body_def Let_def parsing_header_def)
  let ?s = "after_data G M_body 1 (update_state s_message_done ?t)"
  have E: "exec_state G (take_byte G x) = Again ?s"
    using b hf w T S_accepts
    by (simp add: exec_state_def do_body_identity_def Let_def callback_data_accepts acceptsD)
  have U: "udata ?s = act (E_body t) u"
    using deliver_text [of "update_state s_message_done ?t" M_body "cur x" G t q 1] T b w(3)
    by (cases t) simp_all
  have P: "head_of (parser ?s) = w\<lparr>h_length := 0\<rparr>" "http_errno (parser ?s) = HPE_OK" "\<not> upgrade (parser ?s)"
    using b T up by simp_all
  let ?c = "after_notify (on_message_complete S) (update_state (new_message (parser ?s)) ?s)"
  have "exec_state G ?s = Next ?c"
    using b(1) P T by (simp add: exec_state_def do_message_done_def message_complete_run)
  from exec_bytes_again [OF L(1) C E this]
  have "exec_bytes G x = exec_bytes G (?c\<lparr>cur := cur ?c + 1\<rparr>)" .
  moreover have "stage S G (ready w) (w\<lparr>h_length := 0\<rparr>) (act (E_complete (h_method w)) (act (E_body t) u)) [] q (?c\<lparr>cur := cur ?c + 1\<rparr>)
      \<and> l_nread (?c\<lparr>cur := cur ?c + 1\<rparr>) = l_nread x"
    using b P T U L w(3) framed_new_message [OF w(1) P(1)] head_of_fields(2) [OF P(1)] drop_appendD [of "cur x" "data G" t q]
    by (auto simp: run_at_def udata_after_notify on_complete ULLONG_MAX_def)
  ultimately show ?thesis by (auto simp: reaches_def)
qed

text \<open>The status line of a response.\<close>

lemma exec_response_start:
  assumes st: "stage S G s w u (''HTTP/1.1 '' @ p) q x" and s: "s = s_start_res \<and> h_type w = HTTP_RESPONSE \<or> s = s_start_req_or_res"
  shows "reaches G x (stage S G s_res_first_status_code (with_version (begin_head HTTP_RESPONSE w)) (act E_begin u) p q)"
proof -
  let ?B = "w\<lparr>h_flags := 0, h_length := ULLONG_MAX, h_te := False\<rparr>" and ?u = "act E_begin u"
  have st: "stage S G s w u (CHR ''H'' # ''TTP/1.1 '' @ p) q x" using st by simp
  have h: "parsing_header s" using s by (auto simp: parsing_header_def)
  note b = stageD [OF st] stage_byte [OF st h]
  let ?t = "if s = s_start_res then s_res_H else s_res_or_resp_H"
  let ?y = "after_notify (on_message_begin S) (update_state ?t (upd begin_message (take_byte G x)))"
  have "exec_state G (take_byte G x) = Next ?y"
    using s b S_accepts
    by (auto simp: exec_state_def do_start_res_def do_start_req_or_res_def Let_def callback_notify_accepts acceptsD)
  then have "reaches G x (stage S G ?t ?B ?u (''TTP/1.1 '' @ p) q)"
    by (rule stage_step [OF st h]) (use b h in \<open>simp_all add: udata_after_notify on_begin\<close>)
  then have "reaches G x (stage S G s_res_HT (begin_head HTTP_RESPONSE w) ?u (''TP/1.1 '' @ p) q)"
  proof (rule reaches_trans)
    fix y
    assume "stage S G ?t ?B ?u (''TTP/1.1 '' @ p) q y"
    then have y: "stage S G ?t ?B ?u (CHR ''T'' # ''TP/1.1 '' @ p) q y" by simp
    show "reaches G y (stage S G s_res_HT (begin_head HTTP_RESPONSE w) ?u (''TP/1.1 '' @ p) q)"
    proof (cases "s = s_start_res")
      case True
      then have "begin_head HTTP_RESPONSE w = ?B" using s by (simp add: begin_head_def head_type_id)
      then show ?thesis using y True by (intro exec_expects [of S G s_res_H]) simp_all
    next
      case False
      then have y: "stage S G s_res_or_resp_H ?B ?u (CHR ''T'' # ''TP/1.1 '' @ p) q y" using y by simp
      show ?thesis
        by (rule simple_step [OF y, where f = "\<lambda>ps. ps\<lparr>ptype := HTTP_RESPONSE\<rparr>"])
          (simp_all add: exec_state_def do_res_or_resp_H_def begin_head_def)
    qed
  qed
  then have "reaches G x (stage S G s_res_HTT (begin_head HTTP_RESPONSE w) ?u (''P/1.1 '' @ p) q)"
    by (rule reaches_trans) (rule exec_expects, auto)
  then have "reaches G x (stage S G s_res_HTTP (begin_head HTTP_RESPONSE w) ?u (''/1.1 '' @ p) q)"
    by (rule reaches_trans) (rule exec_expects, auto)
  then have "reaches G x (stage S G s_res_http_major (begin_head HTTP_RESPONSE w) ?u (''1.1 '' @ p) q)"
    by (rule reaches_trans) (rule exec_expects, auto)
  then have "reaches G x (stage S G s_res_http_dot (begin_head HTTP_RESPONSE w\<lparr>h_major := 1\<rparr>) ?u (''.1 '' @ p) q)"
    by (rule reaches_trans) (use exec_version_digits(1) [of S G s_res_http_major] in simp)
  then have "reaches G x (stage S G s_res_http_minor (begin_head HTTP_RESPONSE w\<lparr>h_major := 1\<rparr>) ?u (''1 '' @ p) q)"
    by (rule reaches_trans) (rule exec_expects, auto)
  then have "reaches G x (stage S G s_res_http_end (with_version (begin_head HTTP_RESPONSE w)) ?u (CHR '' '' # p) q)"
    by (rule reaches_trans) (use exec_version_digits(2) [of S G s_res_http_minor] in \<open>simp add: with_version_def\<close>)
  then show ?thesis
    by (rule reaches_trans) (rule exec_expects, auto)
qed

lemma exec_status_digit:
  assumes st: "stage S G s_res_status_code w u (d # p) q x" and d: "IS_NUM d" "h_status w \<le> 99"
  shows "reaches G x (stage S G s_res_status_code (w\<lparr>h_status := h_status w * 10 + digit d\<rparr>) u p q)"
proof -
  note b = stageD [OF st] stage_byte [OF st parsing_states(31)]
  have N: "digit d \<le> 9" using d(1) by (simp add: IS_NUM_facts)
  have M: "(h_status w * 10 mod 2 ^ 16 + digit d) mod 2 ^ 16 = h_status w * 10 + digit d" using d(2) N by simp
  let ?y = "upd (\<lambda>ps. ps\<lparr>status_code := h_status w * 10 + digit d\<rparr>) (take_byte G x)"
  have "exec_state G (take_byte G x) = Next ?y"
    using b d N M head_of_fields(3) [OF b(11)]
    by (simp add: exec_state_def do_res_status_code_def Let_def upd_def)
  then show ?thesis by (rule stage_step [OF st parsing_states(31)]) (use b in simp_all)
qed

lemma exec_status_code:
  assumes st: "stage S G s_res_first_status_code w u (c @ CHR '' '' # p) q x" and c: "status_text c"
  shows "reaches G x (stage S G s_res_status_start (w\<lparr>h_status := digits_value 0 c\<rparr>) u p q)"
proof -
  obtain d e f where "c = [d, e, f]" using c by (auto simp: status_text_def length_Suc_conv numeral_3_eq_3)
  then have d: "c = [d, e, f]" "IS_NUM d" "IS_NUM e" "IS_NUM f" using c by (auto simp: status_text_def)
  have n: "digit d \<le> 9" "digit e \<le> 9" using d by (simp_all add: IS_NUM_facts)
  have st: "stage S G s_res_first_status_code w u (d # e # f # CHR '' '' # p) q x" using st d by simp
  have "reaches G x (stage S G s_res_status_code (w\<lparr>h_status := digit d\<rparr>) u (e # f # CHR '' '' # p) q)"
    by (rule simple_step [OF st, where f = "\<lambda>ps. ps\<lparr>status_code := digit d\<rparr>"])
      (use d in \<open>simp_all add: exec_state_def do_res_first_status_code_def\<close>)
  then have "reaches G x (stage S G s_res_status_code (w\<lparr>h_status := digit d * 10 + digit e\<rparr>) u (f # CHR '' '' # p) q)"
    by (rule reaches_trans) (drule exec_status_digit [OF _ d(3)], use n in simp_all)
  then have "reaches G x (stage S G s_res_status_code (w\<lparr>h_status := digits_value 0 c\<rparr>) u (CHR '' '' # p) q)"
    by (rule reaches_trans) (drule exec_status_digit [OF _ d(4)], use n d(1) in simp_all)
  then show ?thesis
  proof (rule reaches_trans)
    fix y
    assume "stage S G s_res_status_code (w\<lparr>h_status := digits_value 0 c\<rparr>) u (CHR '' '' # p) q y"
    then show "reaches G y (stage S G s_res_status_start (w\<lparr>h_status := digits_value 0 c\<rparr>) u p q)"
      by (rule move_step) (auto simp: exec_state_def do_res_status_code_def IS_NUM_def)
  qed
qed

lemma exec_reason_chars:
  assumes "run_at S G s_res_status w u M (cs @ p) q x" "\<forall>c\<in>set cs. c \<noteq> CR \<and> c \<noteq> LF"
  shows "reaches G x (\<lambda>y. run_at S G s_res_status w u M p q y \<and> cur y = cur x + length cs)"
  using assms
proof (induction cs arbitrary: x)
  case Nil
  then show ?case by (intro reaches_refl) simp
next
  case (Cons c cs)
  have st: "run_at S G s_res_status w u M (c # cs @ p) q x" using Cons.prems(1) by simp
  note b = stageD [OF st] stage_byte [OF st parsing_states(33)]
  let ?y = "take_byte G x"
  have "exec_state G ?y = Next ?y" using b Cons.prems(2) by (simp add: exec_state_def do_res_status_def)
  then have "exec_bytes G x = exec_bytes G (?y\<lparr>cur := cur ?y + 1\<rparr>)" by (rule exec_bytes_next [OF b(12,15)])
  moreover have "run_at S G s_res_status w u M (cs @ p) q (?y\<lparr>cur := cur ?y + 1\<rparr>)"
    using b by (simp add: run_at_def)
  then have "reaches G (?y\<lparr>cur := cur ?y + 1\<rparr>) (\<lambda>y. run_at S G s_res_status w u M p q y \<and> cur y = cur (?y\<lparr>cur := cur ?y + 1\<rparr>) + length cs)"
    by (rule Cons.IH) (use Cons.prems(2) in simp)
  ultimately show ?case by (auto intro: reaches_by)
qed

lemma exec_reason:
  assumes st: "stage S G s_res_status_start w u (t @ CR # LF # p) q x" and t: "t \<noteq> []" "\<forall>c\<in>set t. c \<noteq> CR \<and> c \<noteq> LF"
  shows "reaches G x (stage S G s_header_field_start w (act (E_status (h_status w) t) u) p q)"
proof -
  obtain c cs where c: "t = c # cs" using t(1) by (cases t) auto
  have st: "stage S G s_res_status_start w u (c # cs @ CR # LF # p) q x" using st c by simp
  note b = stageD [OF st] stage_byte [OF st parsing_states(32)]
  let ?M = "(\<lambda>_. None)(M_status := Some (cur x))"
  let ?y = "upd (\<lambda>ps. ps\<lparr>index := 0\<rparr>) (update_state s_res_status (set_mark M_status (take_byte G x)))"
  have "exec_state G (take_byte G x) = Next ?y" using b t(2) c by (simp add: exec_state_def do_res_status_start_def Let_def)
  then have "exec_bytes G x = exec_bytes G (?y\<lparr>cur := cur ?y + 1\<rparr>)" by (rule exec_bytes_next [OF b(12,15)])
  moreover have "run_at S G s_res_status w u ?M (cs @ CR # LF # p) q (?y\<lparr>cur := cur ?y + 1\<rparr>)"
    using b by (auto simp: run_at_def)
  then have "reaches G (?y\<lparr>cur := cur ?y + 1\<rparr>) (\<lambda>y. run_at S G s_res_status w u ?M (CR # LF # p) q y \<and> cur y = cur x + length t)"
    using exec_reason_chars [of G w u ?M cs "CR # LF # p" q] t(2) by (fastforce simp: c)
  ultimately have "reaches G x (\<lambda>y. run_at S G s_res_status w u ?M (CR # LF # p) q y \<and> cur y = cur x + length t)"
    by (rule reaches_by)
  then have "reaches G x (stage S G s_res_line_almost_done w (act (E_status (h_status w) t) u) (LF # p) q)"
  proof (rule reaches_trans)
    fix y
    assume "run_at S G s_res_status w u ?M (CR # LF # p) q y \<and> cur y = cur x + length t"
    then have y: "run_at S G s_res_status w u ?M (CR # LF # p) q y" "cur y = cur x + length t" by simp_all
    note d = stageD [OF y(1)] stage_byte [OF y(1) parsing_states(33)]
    let ?r = "update_state s_res_line_almost_done (take_byte G y)"
    have E: "exec_state G (take_byte G y) = Next (after_data G M_status 0 ?r)"
      using d S_accepts by (simp add: exec_state_def do_res_status_def callback_data_def callback_data_accepts acceptsD)
    have D: "drop (cur x) (data G) = t @ CR # LF # p @ q" using b(5) by (simp add: c)
    show "reaches G y (stage S G s_res_line_almost_done w (act (E_status (h_status w) t) u) (LF # p) q)"
    proof (rule stage_step [OF y(1) parsing_states(33) E])
      show "udata (after_data G M_status 0 ?r) = act (E_status (h_status w) t) u"
        using deliver_text [of ?r M_status "cur x" G t "CR # LF # p @ q" 0] d y(2) D head_of_fields(3) [OF d(11)] by simp
    qed (use d in simp_all)
  qed
  then show ?thesis by (rule reaches_trans) (rule exec_expects, auto)
qed

end

end
