(* ===== verification/HttpRoundtrip.thy ===== *)
theory HttpRoundtrip
  imports HttpClients
begin

section \<open>Messages are parsed back\<close>

text \<open>
  Requests and responses as text, the events they stand for, and the theorems that the parser turns the
  text into these events, for any client and any number of requests in one buffer.
\<close>

subsection \<open>Numbers\<close>

definition digit_char :: "nat \<Rightarrow> char" where
  "digit_char n = char_of (48 + n)"

fun dec :: "nat \<Rightarrow> string" where
  "dec n = (if n < 10 then [digit_char n] else dec (n div 10) @ [digit_char (n mod 10)])"

declare dec.simps [simp del]

lemma digit_char: "n < 10 \<Longrightarrow> IS_NUM (digit_char n) \<and> digit (digit_char n) = n"
  by (simp add: digit_char_def IS_NUM_def digit_def)

lemma digits_value_append: "digits_value n (xs @ ys) = digits_value (digits_value n xs) ys"
  by (simp add: digits_value_def)

lemma dec_digits: "dec n \<noteq> []" "c \<in> set (dec n) \<Longrightarrow> IS_NUM c" "digits_value 0 (dec n) = n"
proof -
  have "dec n \<noteq> [] \<and> (\<forall>c\<in>set (dec n). IS_NUM c) \<and> digits_value 0 (dec n) = n"
  proof (induction n rule: dec.induct)
    case (1 n)
    then show ?case
      using digit_char [of "n mod 10"] digit_char [of n]
      by (subst (1 2 3) dec.simps) (auto simp: digits_value_append)
  qed
  then show "dec n \<noteq> []" "c \<in> set (dec n) \<Longrightarrow> IS_NUM c" "digits_value 0 (dec n) = n" by auto
qed

subsection \<open>Texts and their events\<close>

type_synonym header = "string \<times> string"

definition CRLF :: string where
  "CRLF = [CR, LF]"

definition header_line :: "header \<Rightarrow> string" where
  "header_line h = fst h @ '': '' @ snd h @ CRLF"

definition length_header :: "string \<Rightarrow> header" where
  "length_header b = (''Content-Length'', dec (length b))"

text \<open>The lines of a message: headers without a meaning to the parser, and the length of the body.\<close>

definition lines_text :: "header list \<Rightarrow> string option \<Rightarrow> string" where
  "lines_text hs b = concat (map header_line hs) @ (case b of None \<Rightarrow> [] | Some t \<Rightarrow> header_line (length_header t)) @ CRLF"

definition body_text :: "string option \<Rightarrow> string" where
  "body_text b = (case b of None \<Rightarrow> [] | Some t \<Rightarrow> t)"

record request =
  rq_method :: http_method
  rq_url :: string
  rq_headers :: "header list"
  rq_body :: "string option"

definition request_head :: "request \<Rightarrow> string" where
  "request_head r = method_string (rq_method r) @ '' '' @ rq_url r @ '' HTTP/1.1'' @ CRLF @ lines_text (rq_headers r) (rq_body r)"

definition request_text :: "request \<Rightarrow> string" where
  "request_text r = request_head r @ body_text (rq_body r)"

definition response_head :: "string \<Rightarrow> string \<Rightarrow> header list \<Rightarrow> string \<Rightarrow> string" where
  "response_head sc reason hs b = ''HTTP/1.1 '' @ sc @ '' '' @ reason @ CRLF @ lines_text hs (Some b)"

definition response_text :: "string \<Rightarrow> string \<Rightarrow> header list \<Rightarrow> string \<Rightarrow> string" where
  "response_text sc reason hs b = response_head sc reason hs b @ b"

definition header_events :: "header \<Rightarrow> http_event list" where
  "header_events h = [E_field (fst h), E_value (snd h)]"

definition lines_events :: "header list \<Rightarrow> string option \<Rightarrow> http_event list" where
  "lines_events hs b = concat (map header_events hs) @ (case b of None \<Rightarrow> [] | Some t \<Rightarrow> header_events (length_header t))"

definition body_events :: "string option \<Rightarrow> http_event list" where
  "body_events b = (if body_text b = [] then [] else [E_body (body_text b)])"

definition request_events :: "request \<Rightarrow> http_event list" where
  "request_events r = [E_begin, E_url (rq_url r)] @ lines_events (rq_headers r) (rq_body r) @ [E_headers] @
     body_events (rq_body r) @ [E_complete (rq_method r)]"

definition response_events :: "http_method \<Rightarrow> string \<Rightarrow> string \<Rightarrow> header list \<Rightarrow> string \<Rightarrow> http_event list" where
  "response_events m sc reason hs b = [E_begin, E_status (digits_value 0 sc) reason] @ lines_events hs (Some b) @
     [E_headers] @ body_events (Some b) @ [E_complete m]"

definition plain_header :: "header \<Rightarrow> bool" where
  "plain_header h \<longleftrightarrow> fst h \<noteq> [] \<and> (\<forall>c\<in>set (fst h). TOKEN c \<noteq> NUL) \<and> map TOKEN (fst h) \<notin> special_names \<and>
     \<not> prefix ''transfer-encoding'' (map TOKEN (fst h)) \<and> value_text (snd h)"

definition plain_body :: "string option \<Rightarrow> bool" where
  "plain_body b \<longleftrightarrow> length (body_text b) < 2 ^ 31"

definition plain_request :: "request \<Rightarrow> bool" where
  "plain_request r \<longleftrightarrow> rq_method r \<noteq> HTTP_CONNECT \<and> plain_url (rq_url r) \<and> (\<forall>h\<in>set (rq_headers r). plain_header h) \<and>
     plain_body (rq_body r)"

text \<open>What the parser knows after the lines.\<close>

definition lines_head :: "string option \<Rightarrow> head \<Rightarrow> head" where
  "lines_head b w = (case b of None \<Rightarrow> w
     | Some t \<Rightarrow> w\<lparr>h_flags := set_bit F_CONTENTLENGTH (h_flags w), h_length := length t\<rparr>)"

text \<open>What it knows after the lines of a request, when it knew \<open>w\<close> before.\<close>

definition request_known :: "request \<Rightarrow> head \<Rightarrow> head \<Rightarrow> bool" where
  "request_known r w h \<longleftrightarrow> framed h \<and> h_type h = HTTP_REQUEST \<and> h_method h = rq_method r \<and> h_lenient h = h_lenient w \<and>
     h_length h = (case rq_body r of None \<Rightarrow> ULLONG_MAX | Some t \<Rightarrow> length t)"

lemma first_token: "n \<noteq> [] \<Longrightarrow> \<forall>c\<in>set n. TOKEN c \<noteq> NUL \<Longrightarrow>
    \<exists>c cs. n = c # cs \<and> c \<noteq> CHR '' '' \<and> c \<noteq> TAB \<and> c \<noteq> CR \<and> c \<noteq> LF"
  by (cases n) (auto simp: TOKEN_def STRICT_TOKEN_def tokens_def char_of_0)

lemma length_header_name:
  "map TOKEN ''Content-Length'' = ''content-length''" "\<forall>c\<in>set ''Content-Length''. TOKEN c \<noteq> NUL"
  by (simp_all add: TOKEN_def STRICT_TOKEN_def tokens_def char_of_def bit_0)

subsection \<open>Running over the lines\<close>

context event_client
begin

lemma exec_value_line:
  assumes st: "stage S G s_header_value_discard_ws w u (CHR '' '' # v @ CR # LF # c # p) q x" "name_inv n (parser x)"
    and v: "n \<notin> special_names" "value_text v" and c: "c \<noteq> CHR '' ''" "c \<noteq> TAB"
  shows "reaches G x (stage S G s_header_field_start w (act (E_value v) u) (c # p) q)"
proof -
  have "reaches G x (\<lambda>y. stage S G s_header_value_lws w (act (E_value v) u) (c # p) q y \<and> header_state (parser y) = h_general)"
    by (rule exec_value_plain [where n = n]) (use st v in simp_all)
  then show ?thesis
    by (rule reaches_trans) (elim conjE, drule exec_line, use c in simp_all)
qed

lemma exec_header_line:
  assumes st: "stage S G s_header_field_start w u (header_line h @ c # p) q x"
    and h: "plain_header h" "\<not> h_te w" and c: "c \<noteq> CHR '' ''" "c \<noteq> TAB"
  shows "reaches G x (stage S G s_header_field_start w (fold act (header_events h) u) (c # p) q)"
proof -
  let ?n = "map TOKEN (fst h)"
  have "stage S G s_header_field_start w u (fst h @ CHR '':'' # CHR '' '' # snd h @ CR # LF # c # p) q x"
    using st by (simp add: header_line_def CRLF_def)
  then have "reaches G x (\<lambda>y. stage S G s_header_value_discard_ws w (act (E_field (fst h)) u) (CHR '' '' # snd h @ CR # LF # c # p) q y \<and>
      name_inv ?n (parser y))"
    by (rule exec_header_name) (use h in \<open>simp_all add: plain_header_def\<close>)
  then show ?thesis
    by (rule reaches_trans) (elim conjE, drule exec_value_line [where n = ?n], use h(1) c in \<open>simp_all add: plain_header_def header_events_def\<close>)
qed

lemma exec_length_line:
  assumes st: "stage S G s_header_field_start w u (header_line (length_header b) @ c # p) q x"
    and w: "\<not> bit (h_flags w) F_CONTENTLENGTH" "\<not> h_te w" "length b < 2 ^ 31" and c: "c \<noteq> CHR '' ''" "c \<noteq> TAB"
  shows "reaches G x (stage S G s_header_field_start (lines_head (Some b) w) (fold act (header_events (length_header b)) u) (c # p) q)"
proof -
  let ?n = "''Content-Length''" and ?v = "dec (length b)"
  have "stage S G s_header_field_start w u (?n @ CHR '':'' # CHR '' '' # ?v @ CR # LF # c # p) q x"
    using st by (simp add: header_line_def length_header_def CRLF_def)
  then have "reaches G x (\<lambda>y. stage S G s_header_value_discard_ws w (act (E_field ?n) u) (CHR '' '' # ?v @ CR # LF # c # p) q y \<and>
      name_inv (map TOKEN ?n) (parser y))"
    by (rule exec_header_name) (use w length_header_name in simp_all)
  then have "reaches G x (\<lambda>y. stage S G s_header_value_lws (lines_head (Some b) w) (act (E_value ?v) (act (E_field ?n) u)) (c # p) q y \<and>
      header_state (parser y) = h_content_length_num)"
  proof (rule reaches_trans)
    fix y
    assume y: "stage S G s_header_value_discard_ws w (act (E_field ?n) u) (CHR '' '' # ?v @ CR # LF # c # p) q y \<and>
      name_inv (map TOKEN ?n) (parser y)"
    have "header_state (parser y) = h_content_length"
      using name_inv_class(2) [of "map TOKEN ?n" "parser y"] y length_header_name(1) by simp
    then show "reaches G y (\<lambda>y. stage S G s_header_value_lws (lines_head (Some b) w) (act (E_value ?v) (act (E_field ?n) u)) (c # p) q y \<and>
        header_state (parser y) = h_content_length_num)"
      using exec_value_length [where w = w and v = ?v and x = y and p = "c # p"] y dec_digits [where n = "length b"] w
      by (simp add: lines_head_def length_limit_def)
  qed
  then show ?thesis
    by (rule reaches_trans) (elim conjE, drule exec_line, use c in \<open>simp_all add: header_events_def length_header_def\<close>)
qed

lemma exec_plain_lines:
  assumes st: "stage S G s_header_field_start w u (concat (map header_line hs) @ c # p) q x"
    and w: "\<forall>h\<in>set hs. plain_header h" "\<not> h_te w" and c: "c \<noteq> CHR '' ''" "c \<noteq> TAB"
  shows "reaches G x (stage S G s_header_field_start w (fold act (concat (map header_events hs)) u) (c # p) q)"
  using st w(1)
proof (induction hs arbitrary: u x)
  case Nil
  then show ?case by (intro reaches_refl) simp
next
  case (Cons h hs)
  obtain d r where d: "concat (map header_line hs) @ c # p = d # r" "d \<noteq> CHR '' ''" "d \<noteq> TAB"
  proof (cases hs)
    case Nil
    then show ?thesis using that c by simp
  next
    case (Cons k ks)
    then obtain e es where "fst k = e # es" "e \<noteq> CHR '' ''" "e \<noteq> TAB"
      using Cons.prems(2) first_token [of "fst k"] by (auto simp: plain_header_def)
    then show ?thesis using that Cons by (auto simp: header_line_def)
  qed
  have "stage S G s_header_field_start w u (header_line h @ d # r) q x" using Cons.prems(1) by (simp flip: d(1))
  then have "reaches G x (stage S G s_header_field_start w (fold act (header_events h) u) (d # r) q)"
    by (rule exec_header_line) (use Cons.prems(2) w d in simp_all)
  then show ?case
    by (rule reaches_trans) (drule Cons.IH [unfolded d(1)], use Cons.prems(2) in simp_all)
qed

lemma exec_lines:
  assumes st: "stage S G s_header_field_start w u (lines_text hs b) q x"
    and w: "\<forall>h\<in>set hs. plain_header h" "plain_body b" "h_flags w = 0" "\<not> h_te w"
  shows "reaches G x (stage S G s_header_field_start (lines_head b w) (fold act (lines_events hs b) u) CRLF q)"
proof -
  obtain c p where c: "(case b of None \<Rightarrow> [] | Some t \<Rightarrow> header_line (length_header t)) @ CRLF = c # p" "c \<noteq> CHR '' ''" "c \<noteq> TAB"
    by (cases b) (auto simp: CRLF_def header_line_def length_header_def)
  let ?u = "fold act (concat (map header_events hs)) u"
  have "reaches G x (stage S G s_header_field_start w ?u (c # p) q)"
    by (rule exec_plain_lines) (use st w c in \<open>simp_all add: lines_text_def\<close>)
  then show ?thesis
  proof (rule reaches_trans)
    fix y
    assume y: "stage S G s_header_field_start w ?u (c # p) q y"
    show "reaches G y (stage S G s_header_field_start (lines_head b w) (fold act (lines_events hs b) u) CRLF q)"
    proof (cases b)
      case None
      then show ?thesis using y by (intro reaches_refl) (simp add: lines_events_def lines_head_def flip: c(1))
    next
      case (Some t)
      then have "stage S G s_header_field_start w ?u (header_line (length_header t) @ CR # [LF]) q y"
        using y by (simp add: CRLF_def flip: c(1))
      from exec_length_line [OF this] Some w show ?thesis
        by (simp add: lines_events_def CRLF_def plain_body_def body_text_def)
    qed
  qed
qed

subsection \<open>Whole messages\<close>

lemma stage_split:
  "stage S G s w u p q x \<Longrightarrow> l_nread x = 0 \<Longrightarrow> p @ q = p' @ q' \<Longrightarrow> length p' \<le> max_header_size G \<Longrightarrow> stage S G s w u p' q' x"
  by (simp add: run_at_def)

lemma exec_end_and_body:
  assumes st: "stage S G s_header_field_start w u CRLF (body_text b @ q) x"
    and w: "framed w" "plain_body b" "h_length w = (case b of None \<Rightarrow> ULLONG_MAX | Some t \<Rightarrow> length t)"
  shows "reaches G x (\<lambda>y. stage S G (ready w) (if no_body w then w else w\<lparr>h_length := 0\<rparr>)
    (fold act ([E_headers] @ body_events b @ [E_complete (h_method w)]) u) [] q y \<and> l_nread y = 0)"
proof -
  have st: "stage S G s_header_field_start w u [CR, LF] (body_text b @ q) x" using st by (simp add: CRLF_def)
  have B: "no_body w \<longleftrightarrow> body_text b = []"
    using w(2,3) by (cases b) (auto simp: no_body_def body_text_def plain_body_def ULLONG_MAX_def)
  show ?thesis
    using exec_headers_end [OF st w(1)]
  proof (rule reaches_trans)
    fix y
    assume y: "\<not> upgrade (parser y) \<and> l_nread y = 0 \<and>
      (if no_body w then stage S G (ready w) w (act (E_complete (h_method w)) (act E_headers u)) [] (body_text b @ q) y
       else stage S G s_body_identity w (act E_headers u) [] (body_text b @ q) y)"
    show "reaches G y (\<lambda>y. stage S G (ready w) (if no_body w then w else w\<lparr>h_length := 0\<rparr>)
      (fold act ([E_headers] @ body_events b @ [E_complete (h_method w)]) u) [] q y \<and> l_nread y = 0)"
    proof (cases "no_body w")
      case True
      then show ?thesis using y B by (intro reaches_refl) (simp add: body_events_def)
    next
      case False
      then have "h_length w = length (body_text b)" "length (body_text b) < ULLONG_MAX" "body_text b \<noteq> []"
        using w(2,3) B by (cases b; simp add: body_text_def plain_body_def ULLONG_MAX_def)+
      then show ?thesis
        using exec_body [of G w "act E_headers u" "body_text b" q y] y False w(1) by (simp add: body_events_def)
    qed
  qed
qed

text \<open>The request line; the head of a request, up to its blank line.\<close>

lemma exec_request_line:
  assumes st: "stage S G s w u (method_string m @ '' '' @ url @ '' HTTP/1.1'' @ CRLF @ p) q x"
    and r: "m \<noteq> HTTP_CONNECT" "plain_url url"
    and s: "s = s_start_req \<and> h_type w = HTTP_REQUEST \<or> s = s_start_req_or_res \<and> m \<noteq> HTTP_HEAD"
  shows "reaches G x (stage S G s_header_field_start (with_version (begin_head HTTP_REQUEST w\<lparr>h_method := m\<rparr>))
    (act (E_url url) (act E_begin u)) p q)"
proof -
  let ?w = "begin_head HTTP_REQUEST w\<lparr>h_method := m\<rparr>"
  have "stage S G s w u (method_string m @ CHR '' '' # url @ CHR '' '' # ''HTTP/1.1'' @ CRLF @ p) q x"
    using st by simp
  then have "reaches G x (stage S G s_req_spaces_before_url ?w (act E_begin u) (url @ CHR '' '' # ''HTTP/1.1'' @ CRLF @ p) q)"
    using s by (rule exec_start)
  then have "reaches G x (stage S G s_req_http_start ?w (act (E_url url) (act E_begin u)) (''HTTP/1.1'' @ CRLF @ p) q)"
    by (rule reaches_trans) (rule exec_url, use r in simp_all)
  then show ?thesis
    by (rule reaches_trans) (rule exec_version, simp add: CRLF_def)
qed

lemma exec_request_head:
  assumes st: "stage S G s w u (request_head r) q x" and r: "plain_request r"
    and s: "s = s_start_req \<and> h_type w = HTTP_REQUEST \<or> s = s_start_req_or_res \<and> rq_method r \<noteq> HTTP_HEAD"
  shows "\<exists>h. request_known r w h \<and> reaches G x (stage S G s_header_field_start h
    (fold act ([E_begin, E_url (rq_url r)] @ lines_events (rq_headers r) (rq_body r)) u) CRLF q)"
proof -
  let ?m = "rq_method r" and ?L = "lines_text (rq_headers r) (rq_body r)"
  let ?w = "begin_head HTTP_REQUEST w\<lparr>h_method := ?m\<rparr>"
  let ?h = "lines_head (rq_body r) (with_version ?w)"
  note R = r [unfolded plain_request_def]
  have "reaches G x (stage S G s_header_field_start (with_version ?w) (act (E_url (rq_url r)) (act E_begin u)) ?L q)"
    by (rule exec_request_line) (use st R s in \<open>simp_all add: request_head_def\<close>)
  then have "reaches G x (stage S G s_header_field_start ?h
      (fold act (lines_events (rq_headers r) (rq_body r)) (act (E_url (rq_url r)) (act E_begin u))) CRLF q)"
    by (rule reaches_trans) (rule exec_lines, use R in \<open>simp_all add: with_version_def begin_head_def\<close>)
  moreover have "request_known r w ?h"
    using R by (auto simp: request_known_def lines_head_def with_version_def begin_head_def framed_def split: option.split)
  ultimately show ?thesis by (intro exI [of _ ?h]) simp
qed

lemma exec_request:
  assumes st: "stage S G s w u (request_head r) (body_text (rq_body r) @ q) x" and r: "plain_request r"
    and s: "s = s_start_req \<and> h_type w = HTTP_REQUEST \<or> s = s_start_req_or_res \<and> rq_method r \<noteq> HTTP_HEAD"
  shows "reaches G x (\<lambda>y. \<exists>w'. stage S G s_start_req w' (fold act (request_events r) u) [] q y \<and> l_nread y = 0 \<and>
    h_type w' = HTTP_REQUEST \<and> h_lenient w' = h_lenient w)"
proof -
  let ?q = "body_text (rq_body r) @ q" and ?u = "fold act ([E_begin, E_url (rq_url r)] @ lines_events (rq_headers r) (rq_body r)) u"
  obtain h where h: "request_known r w h" "reaches G x (stage S G s_header_field_start h ?u CRLF ?q)"
    using exec_request_head [OF assms] by blast
  note H = h(1) [unfolded request_known_def]
  show ?thesis
    using h(2)
  proof (rule reaches_trans)
    fix y
    assume y: "stage S G s_header_field_start h ?u CRLF ?q y"
    have "reaches G y (\<lambda>y. stage S G (ready h) (if no_body h then h else h\<lparr>h_length := 0\<rparr>)
        (fold act ([E_headers] @ body_events (rq_body r) @ [E_complete (h_method h)]) ?u) [] q y \<and> l_nread y = 0)"
      by (rule exec_end_and_body [OF y]) (use H r in \<open>simp_all add: plain_request_def\<close>)
    then show "reaches G y (\<lambda>y. \<exists>w'. stage S G s_start_req w' (fold act (request_events r) u) [] q y \<and> l_nread y = 0 \<and>
        h_type w' = HTTP_REQUEST \<and> h_lenient w' = h_lenient w)"
      by (rule reaches_trans, intro reaches_refl exI [of _ "if no_body h then h else h\<lparr>h_length := 0\<rparr>"])
        (use H in \<open>simp_all add: request_events_def ready_def\<close>)
  qed
qed

lemma exec_requests:
  assumes "stage S G s_start_req w u [] (concat (map request_text rs)) x" "l_nread x = 0" "h_type w = HTTP_REQUEST"
    and "\<forall>r\<in>set rs. plain_request r \<and> length (request_head r) \<le> max_header_size G"
  shows "reaches G x (\<lambda>y. \<exists>w'. stage S G s_start_req w' (fold act (concat (map request_events rs)) u) [] [] y \<and> l_nread y = 0 \<and>
    h_type w' = HTTP_REQUEST \<and> h_lenient w' = h_lenient w)"
  using assms
proof (induction rs arbitrary: x w u)
  case Nil
  then show ?case by (intro reaches_refl) auto
next
  case (Cons r rs)
  have "stage S G s_start_req w u (request_head r) (body_text (rq_body r) @ concat (map request_text rs)) x"
    by (rule stage_split [OF Cons.prems(1)]) (use Cons.prems in \<open>simp_all add: request_text_def [of r]\<close>)
  then have "reaches G x (\<lambda>y. \<exists>w'. stage S G s_start_req w' (fold act (request_events r) u) [] (concat (map request_text rs)) y \<and>
      l_nread y = 0 \<and> h_type w' = HTTP_REQUEST \<and> h_lenient w' = h_lenient w)"
    by (rule exec_request) (use Cons.prems in simp_all)
  then show ?case
    by (rule reaches_trans) (elim exE conjE, drule Cons.IH, use Cons.prems in simp_all)
qed

text \<open>The status line; the head of a response, up to its blank line.\<close>

lemma exec_status_line:
  assumes st: "stage S G s w u (''HTTP/1.1 '' @ sc @ '' '' @ reason @ CRLF @ p) q x"
    and s: "s = s_start_res \<and> h_type w = HTTP_RESPONSE \<or> s = s_start_req_or_res"
    and r: "status_text sc" "reason \<noteq> []" "\<forall>c\<in>set reason. c \<noteq> CR \<and> c \<noteq> LF"
  shows "reaches G x (stage S G s_header_field_start (with_version (begin_head HTTP_RESPONSE w)\<lparr>h_status := digits_value 0 sc\<rparr>)
    (act (E_status (digits_value 0 sc) reason) (act E_begin u)) p q)"
proof -
  let ?w = "with_version (begin_head HTTP_RESPONSE w)"
  let ?s = "?w\<lparr>h_status := digits_value 0 sc\<rparr>"
  have "stage S G s w u (''HTTP/1.1 '' @ sc @ CHR '' '' # reason @ CR # LF # p) q x"
    using st by (simp add: CRLF_def)
  then have "reaches G x (stage S G s_res_first_status_code ?w (act E_begin u) (sc @ CHR '' '' # reason @ CR # LF # p) q)"
    using s by (rule exec_response_start)
  then have "reaches G x (stage S G s_res_status_start ?s (act E_begin u) (reason @ CR # LF # p) q)"
    by (rule reaches_trans) (rule exec_status_code, use r(1) in simp_all)
  then have "reaches G x (stage S G s_header_field_start ?s (act (E_status (h_status ?s) reason) (act E_begin u)) p q)"
    by (rule reaches_trans) (rule exec_reason, use r(2,3) in simp_all)
  then show ?thesis by simp
qed

lemma exec_response_head:
  assumes st: "stage S G s w u (response_head sc reason hs b) q x"
    and s: "s = s_start_res \<and> h_type w = HTTP_RESPONSE \<or> s = s_start_req_or_res"
    and r: "status_text sc" "reason \<noteq> []" "\<forall>c\<in>set reason. c \<noteq> CR \<and> c \<noteq> LF" "\<forall>h\<in>set hs. plain_header h" "length b < 2 ^ 31"
      "h_method w \<noteq> HTTP_CONNECT"
  shows "\<exists>h. framed h \<and> h_length h = length b \<and> h_method h = h_method w \<and> h_type h = HTTP_RESPONSE \<and> h_lenient h = h_lenient w \<and>
    reaches G x (stage S G s_header_field_start h
      (fold act ([E_begin, E_status (digits_value 0 sc) reason] @ lines_events hs (Some b)) u) CRLF q)"
proof -
  let ?s = "with_version (begin_head HTTP_RESPONSE w)\<lparr>h_status := digits_value 0 sc\<rparr>"
  let ?h = "lines_head (Some b) ?s"
  have "reaches G x (stage S G s_header_field_start ?s (act (E_status (digits_value 0 sc) reason) (act E_begin u)) (lines_text hs (Some b)) q)"
    by (rule exec_status_line) (use st s r in \<open>simp_all add: response_head_def\<close>)
  then have "reaches G x (stage S G s_header_field_start ?h
      (fold act (lines_events hs (Some b)) (act (E_status (digits_value 0 sc) reason) (act E_begin u))) CRLF q)"
    by (rule reaches_trans)
      (rule exec_lines, use r(4,5) in \<open>simp_all add: with_version_def begin_head_def plain_body_def body_text_def\<close>)
  moreover have "framed ?h" "h_length ?h = length b" "h_method ?h = h_method w" "h_type ?h = HTTP_RESPONSE" "h_lenient ?h = h_lenient w"
    using r(5,6) by (auto simp: ULLONG_MAX_def lines_head_def with_version_def begin_head_def framed_def)
  ultimately show ?thesis by (intro exI [of _ ?h]) simp
qed

lemma exec_response:
  assumes st: "stage S G s w u (response_head sc reason hs b) (b @ q) x"
    and s: "s = s_start_res \<and> h_type w = HTTP_RESPONSE \<or> s = s_start_req_or_res"
    and r: "status_text sc" "reason \<noteq> []" "\<forall>c\<in>set reason. c \<noteq> CR \<and> c \<noteq> LF" "\<forall>h\<in>set hs. plain_header h" "length b < 2 ^ 31"
      "h_method w \<noteq> HTTP_CONNECT"
  shows "reaches G x (\<lambda>y. \<exists>w'. stage S G s_start_res w' (fold act (response_events (h_method w) sc reason hs b) u) [] q y \<and>
    l_nread y = 0 \<and> h_type w' = HTTP_RESPONSE \<and> h_lenient w' = h_lenient w \<and> h_method w' = h_method w)"
proof -
  let ?u = "fold act ([E_begin, E_status (digits_value 0 sc) reason] @ lines_events hs (Some b)) u"
  obtain h where h: "framed h" "h_length h = length b" "h_method h = h_method w" "h_type h = HTTP_RESPONSE" "h_lenient h = h_lenient w"
    "reaches G x (stage S G s_header_field_start h ?u CRLF (body_text (Some b) @ q))"
    using exec_response_head [OF assms] by (auto simp: body_text_def)
  show ?thesis
    using h(6)
  proof (rule reaches_trans)
    fix y
    assume y: "stage S G s_header_field_start h ?u CRLF (body_text (Some b) @ q) y"
    have "reaches G y (\<lambda>y. stage S G (ready h) (if no_body h then h else h\<lparr>h_length := 0\<rparr>)
        (fold act ([E_headers] @ body_events (Some b) @ [E_complete (h_method h)]) ?u) [] q y \<and> l_nread y = 0)"
      by (rule exec_end_and_body [OF y h(1)]) (use h r(5) in \<open>simp_all add: plain_body_def body_text_def\<close>)
    then show "reaches G y (\<lambda>y. \<exists>w'. stage S G s_start_res w' (fold act (response_events (h_method w) sc reason hs b) u) [] q y \<and>
        l_nread y = 0 \<and> h_type w' = HTTP_RESPONSE \<and> h_lenient w' = h_lenient w \<and> h_method w' = h_method w)"
      by (rule reaches_trans, intro reaches_refl exI [of _ "if no_body h then h else h\<lparr>h_length := 0\<rparr>"])
        (use h in \<open>simp_all add: response_events_def ready_def\<close>)
  qed
qed

text \<open>A parser that waits for a message, and what a call makes of it.\<close>

lemma stage_start:
  assumes "http_errno ps = HPE_OK" "nread ps = 0" "\<not> lenient_http_headers ps" "limit < 2 ^ 32"
    and "state ps \<in> {s_start_req, s_start_res, s_start_req_or_res}" "d \<noteq> []"
  shows "stage S (run_env_of S limit ps d) (state ps) (head_of ps) u [] d (start_run ps u)" "l_nread (start_run ps u) = 0"
    "http_parser_execute S limit ps u d = exec_bytes (run_env_of S limit ps d) (start_run ps u)"
proof -
  have "first_marks (state ps) = (\<lambda>_. None)" using assms(5) by (auto simp: first_marks_def fun_eq_iff split: mark.split)
  then show "stage S (run_env_of S limit ps d) (state ps) (head_of ps) u [] d (start_run ps u)" "l_nread (start_run ps u) = 0"
    using assms(1-4) by (simp_all add: run_at_def)
  show "http_parser_execute S limit ps u d = exec_bytes (run_env_of S limit ps d) (start_run ps u)"
    using assms(1,6) by (rule http_parser_execute_run)
qed

lemma reaches_result:
  assumes "reaches G x (\<lambda>y. \<exists>w'. stage S G s w' u [] [] y \<and> l_nread y = 0 \<and> P w')"
  shows "\<exists>y. exec_bytes G x = Some (Ret (length (data G)) y) \<and> http_errno (parser y) = HPE_OK \<and> state (parser y) = s \<and>
    nread (parser y) = 0 \<and> udata y = u \<and> P (head_of (parser y))"
proof -
  obtain y w' where y: "exec_bytes G x = exec_bytes G y" "stage S G s w' u [] [] y" "l_nread y = 0" "P w'"
    using assms by (auto simp: reaches_def)
  have "exec_bytes G x = Some (return (length (data G)) y)" using y(1) exec_finish [OF y(2)] by simp
  then show ?thesis
    using stageD [OF y(2)] y(3,4)
    by (intro exI [of _ "upd (\<lambda>ps. ps\<lparr>nread := l_nread y, state := p_state y\<rparr>) y"]) (simp add: return_def)
qed

end

definition awaits_request :: "http_parser \<Rightarrow> bool" where
  "awaits_request ps \<longleftrightarrow> http_errno ps = HPE_OK \<and> nread ps = 0 \<and> \<not> lenient_http_headers ps \<and>
     (state ps = s_start_req \<and> ptype ps = HTTP_REQUEST \<or> state ps = s_start_req_or_res)"

definition awaits_response :: "http_parser \<Rightarrow> bool" where
  "awaits_response ps \<longleftrightarrow> http_errno ps = HPE_OK \<and> nread ps = 0 \<and> \<not> lenient_http_headers ps \<and> method ps \<noteq> HTTP_CONNECT \<and>
     (state ps = s_start_res \<and> ptype ps = HTTP_RESPONSE \<or> state ps = s_start_req_or_res)"

lemma awaits_init: "awaits_request (http_parser_init HTTP_BOTH)" "awaits_response (http_parser_init HTTP_BOTH)"
  by (simp_all add: awaits_request_def awaits_response_def http_parser_init_def)

context event_client
begin

lemma request_run:
  assumes ps: "awaits_request ps" and limit: "limit < 2 ^ 32" and rs: "rs \<noteq> []"
    and r: "\<forall>r\<in>set rs. plain_request r \<and> length (request_head r) \<le> limit"
      "state ps = s_start_req_or_res \<Longrightarrow> rq_method (hd rs) \<noteq> HTTP_HEAD"
  shows "\<exists>x. http_parser_execute S limit ps u (concat (map request_text rs)) = Some (Ret (length (concat (map request_text rs))) x) \<and>
    awaits_request (parser x) \<and> state (parser x) = s_start_req \<and> udata x = fold act (concat (map request_events rs)) u"
proof -
  obtain r0 rs' where rs': "rs = r0 # rs'" using rs by (cases rs) auto
  let ?d = "concat (map request_text rs)"
  let ?G = "run_env_of S limit ps ?d" and ?x = "start_run ps u" and ?q = "concat (map request_text rs')"
  have P: "http_errno ps = HPE_OK" "nread ps = 0" "\<not> lenient_http_headers ps" "state ps \<in> {s_start_req, s_start_res, s_start_req_or_res}"
    "state ps = s_start_req \<and> ptype ps = HTTP_REQUEST \<or> state ps = s_start_req_or_res"
    using ps by (auto simp: awaits_request_def)
  have D: "?d \<noteq> []" "?d = request_head r0 @ body_text (rq_body r0) @ ?q" by (simp_all add: rs' request_text_def request_head_def)
  note st = stage_start [OF P(1-3) limit P(4) D(1), of u]
  have "stage S ?G (state ps) (head_of ps) u (request_head r0) (body_text (rq_body r0) @ ?q) ?x"
    by (rule stage_split [OF st(1,2)]) (use D r(1) in \<open>simp_all add: rs'\<close>)
  then have "reaches ?G ?x (\<lambda>y. \<exists>w'. stage S ?G s_start_req w' (fold act (request_events r0) u) [] ?q y \<and> l_nread y = 0 \<and>
      h_type w' = HTTP_REQUEST \<and> h_lenient w' = h_lenient (head_of ps))"
    by (rule exec_request) (use r P(5) in \<open>auto simp: rs' head_of_def\<close>)
  then have "reaches ?G ?x (\<lambda>y. \<exists>w'. stage S ?G s_start_req w' (fold act (concat (map request_events rs)) u) [] [] y \<and> l_nread y = 0 \<and>
      h_type w' = HTTP_REQUEST \<and> h_lenient w' = h_lenient (head_of ps))"
    by (rule reaches_trans) (elim exE conjE, drule exec_requests, use r in \<open>simp_all add: rs'\<close>)
  from reaches_result [OF this] show ?thesis
    unfolding st(3) using P(3) by (auto simp: awaits_request_def head_of_def)
qed

lemma response_run:
  assumes ps: "awaits_response ps" and limit: "limit < 2 ^ 32" "length (response_head sc reason hs b) \<le> limit"
    and r: "status_text sc" "reason \<noteq> []" "\<forall>c\<in>set reason. c \<noteq> CR \<and> c \<noteq> LF" "\<forall>h\<in>set hs. plain_header h" "length b < 2 ^ 31"
  shows "\<exists>x. http_parser_execute S limit ps u (response_text sc reason hs b) = Some (Ret (length (response_text sc reason hs b)) x) \<and>
    awaits_response (parser x) \<and> state (parser x) = s_start_res \<and> udata x = fold act (response_events (method ps) sc reason hs b) u"
proof -
  let ?d = "response_text sc reason hs b"
  let ?G = "run_env_of S limit ps ?d" and ?x = "start_run ps u"
  have P: "http_errno ps = HPE_OK" "nread ps = 0" "\<not> lenient_http_headers ps" "state ps \<in> {s_start_req, s_start_res, s_start_req_or_res}"
    "state ps = s_start_res \<and> ptype ps = HTTP_RESPONSE \<or> state ps = s_start_req_or_res" "method ps \<noteq> HTTP_CONNECT"
    using ps by (auto simp: awaits_response_def)
  have D: "?d \<noteq> []" "?d = response_head sc reason hs b @ b @ []" by (simp_all add: response_text_def response_head_def)
  note st = stage_start [OF P(1-3) limit(1) P(4) D(1), of u]
  have "stage S ?G (state ps) (head_of ps) u (response_head sc reason hs b) (b @ []) ?x"
    by (rule stage_split [OF st(1,2)]) (use D limit(2) in simp_all)
  then have "reaches ?G ?x (\<lambda>y. \<exists>w'. stage S ?G s_start_res w' (fold act (response_events (h_method (head_of ps)) sc reason hs b) u) [] [] y \<and>
      l_nread y = 0 \<and> h_type w' = HTTP_RESPONSE \<and> h_lenient w' = h_lenient (head_of ps) \<and> h_method w' = h_method (head_of ps))"
    by (rule exec_response) (use r P(5,6) in \<open>auto simp: head_of_def\<close>)
  from reaches_result [OF this] show ?thesis
    unfolding st(3) using P(3,6) by (auto simp: awaits_response_def head_of_def)
qed

end

subsection \<open>A client that records events\<close>

definition note_cb :: "(http_parser \<Rightarrow> http_event) \<Rightarrow> (http_event list) http_cb" where
  "note_cb e ps u = (0, ps, u @ [e ps])"

definition note_data :: "(http_parser \<Rightarrow> string \<Rightarrow> http_event) \<Rightarrow> (http_event list) http_data_cb" where
  "note_data e ps t u = (0, ps, u @ [e ps t])"

definition recorder :: "(http_event list) http_parser_settings" where
  "recorder = http_parser_settings_init\<lparr>on_message_begin := Some (note_cb (\<lambda>_. E_begin)), on_url := Some (note_data (\<lambda>_. E_url)),
     on_status := Some (note_data (\<lambda>ps. E_status (status_code ps))),
     on_header_field := Some (note_data (\<lambda>_. E_field)), on_header_value := Some (note_data (\<lambda>_. E_value)),
     on_headers_complete := Some (note_cb (\<lambda>_. E_headers)), on_body := Some (note_data (\<lambda>_. E_body)),
     on_message_complete := Some (note_cb (\<lambda>ps. E_complete (method ps)))\<rparr>"

interpretation recorded: event_client recorder "\<lambda>e u. u @ [e]"
proof
  show "accepts recorder"
    by (simp add: accepts_def accepts_cb_def accepts_data_cb_def all_marks recorder_def http_parser_settings_init_def
        note_cb_def note_data_def)
  show "notified_text (data_callback m recorder) ps t u = u @ [text_event m ps t]" for m ps t u
    by (cases m) (simp_all add: notified_text_def recorder_def http_parser_settings_init_def note_data_def)
qed (simp_all add: notified_def recorder_def http_parser_settings_init_def note_cb_def)

lemma fold_snoc: "fold (\<lambda>e u. u @ [e]) es u = u @ es"
  by (induction es arbitrary: u) simp_all

text \<open>C1: Requests are parsed back. Any sequence of requests printed one after the other into one buffer (any
  method but CONNECT, any URL the URL machine accepts, any number of headers that the parser gives no
  meaning to, and possibly a Content-Length and a body of that length) is taken whole and without an
  error; the callbacks get exactly the parts that were printed, in order; and the parser then awaits
  the next request.\<close>
theorem requests_parsed_back:
  assumes "awaits_request ps" "limit < 2 ^ 32" "rs \<noteq> []"
    and "\<forall>r\<in>set rs. plain_request r \<and> length (request_head r) \<le> limit"
    and "state ps = s_start_req_or_res \<Longrightarrow> rq_method (hd rs) \<noteq> HTTP_HEAD"
  shows "\<exists>x. http_parser_execute recorder limit ps es (concat (map request_text rs)) =
      Some (Ret (length (concat (map request_text rs))) x) \<and>
    awaits_request (parser x) \<and> state (parser x) = s_start_req \<and> udata x = es @ concat (map request_events rs)"
  using recorded.request_run [OF assms, of es] by (simp add: fold_snoc)

text \<open>Responses are parsed back. A response printed from a status code of three digits, a reason, headers
  that the parser gives no meaning to, and a body with its Content-Length is taken whole and without an
  error by a parser that awaits one; the callbacks get the status, the headers and the body, in order.\<close>
theorem response_parsed_back:
  assumes "awaits_response ps" "limit < 2 ^ 32" "length (response_head sc reason hs b) \<le> limit"
    and "status_text sc" "reason \<noteq> []" "\<forall>c\<in>set reason. c \<noteq> CR \<and> c \<noteq> LF" "\<forall>h\<in>set hs. plain_header h" "length b < 2 ^ 31"
  shows "\<exists>x. http_parser_execute recorder limit ps es (response_text sc reason hs b) =
      Some (Ret (length (response_text sc reason hs b)) x) \<and>
    awaits_response (parser x) \<and> state (parser x) = s_start_res \<and> udata x = es @ response_events (method ps) sc reason hs b"
  using recorded.response_run [OF assms, of es] by (simp add: fold_snoc)

definition sample_request :: "http_method \<Rightarrow> string option \<Rightarrow> request" where
  "sample_request m b = \<lparr>rq_method = m, rq_url = ''/a'', rq_headers = [(''Host'', ''b'')], rq_body = b\<rparr>"

lemma sample_header: "plain_header (''Host'', ''b'')"
proof -
  have T: "map TOKEN ''Host'' = ''host''" "\<forall>c\<in>set ''Host''. TOKEN c \<noteq> NUL"
    by (simp_all add: TOKEN_def STRICT_TOKEN_def tokens_def char_of_def bit_0)
  show ?thesis
    unfolding plain_header_def fst_conv snd_conv T(1) using T(2)
    by (simp add: special_names_def value_text_def IS_HEADER_CHAR_def)
qed

lemma sample_plain:
  assumes "m \<noteq> HTTP_CONNECT" "b = None \<or> b = Some ''xyz''"
  shows "plain_request (sample_request m b)" "length (request_head (sample_request m b)) \<le> 81920"
proof -
  have "IS_URL_CHAR CHR ''a''" by (simp add: IS_URL_CHAR_def normal_url_char_def bit_iff_odd)
  then have "plain_url ''/a''" by (simp add: plain_url_def url_ends_def url_delims url_chars)
  then show "plain_request (sample_request m b)"
    using assms sample_header by (auto simp: plain_request_def sample_request_def plain_body_def body_text_def)
  have "length (method_string m) \<le> 16" by (cases m) (simp_all add: method_strings_def)
  moreover have "length (dec (Suc (Suc (Suc 0)))) = 1" by (simp add: dec.simps)
  ultimately show "length (request_head (sample_request m b)) \<le> 81920"
    using assms(2) by (auto simp: request_head_def sample_request_def lines_text_def header_line_def length_header_def CRLF_def)
qed

theorem requests_parsed_back_witness:
  "\<exists>x. http_parser_execute recorder 81920 (http_parser_init HTTP_BOTH) []
      (concat (map request_text [sample_request HTTP_POST (Some ''xyz''), sample_request HTTP_GET None])) =
      Some (Ret (length (concat (map request_text [sample_request HTTP_POST (Some ''xyz''), sample_request HTTP_GET None]))) x) \<and>
    awaits_request (parser x) \<and> state (parser x) = s_start_req \<and>
    udata x = [] @ concat (map request_events [sample_request HTTP_POST (Some ''xyz''), sample_request HTTP_GET None])"
  by (rule requests_parsed_back [OF awaits_init(1)]) (use sample_plain in \<open>auto simp: sample_request_def\<close>)

theorem response_parsed_back_witness:
  "\<exists>x. http_parser_execute recorder 81920 (http_parser_init HTTP_BOTH) [] (response_text ''200'' ''OK'' [(''Host'', ''b'')] ''xyz'') =
      Some (Ret (length (response_text ''200'' ''OK'' [(''Host'', ''b'')] ''xyz'')) x) \<and>
    awaits_response (parser x) \<and> state (parser x) = s_start_res \<and>
    udata x = [] @ response_events (method (http_parser_init HTTP_BOTH)) ''200'' ''OK'' [(''Host'', ''b'')] ''xyz''"
proof (rule response_parsed_back [OF awaits_init(2)])
  have "length (dec (Suc (Suc (Suc 0)))) = 1" by (simp add: dec.simps)
  then show "length (response_head ''200'' ''OK'' [(''Host'', ''b'')] ''xyz'') \<le> 81920"
    by (simp add: response_head_def lines_text_def header_line_def length_header_def CRLF_def)
qed (use sample_header in \<open>simp_all add: status_text_def IS_NUM_def\<close>)

end
