(* ===== verification/HttpUpgrade.thy ===== *)
theory HttpUpgrade
  imports HttpRoundtrip
begin

section \<open>Messages that upgrade the connection\<close>

text \<open>
  The two headers that the parser gives a meaning to for an upgrade, the end of such a message, and the
  runs over whole upgrade requests and responses: the parser stops behind the blank line and leaves the
  rest of the buffer to the other protocol.
\<close>

subsection \<open>The headers of an upgrade\<close>

definition with_flag :: "nat \<Rightarrow> head \<Rightarrow> head" where
  "with_flag f w = w\<lparr>h_flags := set_bit f (h_flags w)\<rparr>"

lemma head_of_F_set [simp]: "head_of (F_set f ps) = with_flag f (head_of ps)" "http_errno (F_set f ps) = http_errno ps"
  by (simp_all add: F_set_def with_flag_def head_of_def)

text \<open>The loop over the rest of a word, \<open>upgrade\<close> or \<open>chunked\<close>, which both have seven letters.\<close>

lemma value_loop_word:
  assumes word: "\<And>y. value_char G hm y = value_match word (LOWER (xch y)) hf other hm y" "length word = 7" "hm \<noteq> h_general"
    and "drop (cur x) (data G) = cs @ CR # r" "map LOWER cs = drop (index (parser x) + 1) word" "cs \<noteq> []"
    and "\<forall>c\<in>set cs. IS_HEADER_CHAR c \<and> c \<noteq> CR \<and> c \<noteq> LF"
  shows "value_loop G start hm x =
    callback_data G M_header_value (value_end G start hf)
      (value_stop hf (cur x + length cs) (upd (\<lambda>ps. ps\<lparr>index := 6\<rparr>) x))"
  using assms(4-)
proof (induction cs arbitrary: x)
  case (Cons c cs)
  have c: "cur x < length (data G)" "data G ! cur x = c" "drop (cur x + 1) (data G) = cs @ CR # r"
    using drop_ConsD [of "cur x" "data G" c "cs @ CR # r"] Cons.prems(1) by simp_all
  let ?i = "index (parser x)" and ?x = "x\<lparr>xch := c\<rparr>"
  have L: "length cs = 5 - ?i" "?i < 6"
    using arg_cong [OF Cons.prems(2), of length] word(2) by simp_all
  have w: "LOWER c = word ! (?i + 1)" "map LOWER cs = drop (?i + 2) word"
    using drop_ConsD [OF Cons.prems(2) [symmetric, unfolded list.map]] by (simp_all add: eval_nat_numeral)
  let ?z = "upd inc_index ?x"
  have I: "index (parser ?z) = ?i + 1" using L(2) by (simp add: inc_index_def)
  let ?h = "if ?i = 5 then hf else hm"
  have S: "str_at word (?i + 1) = LOWER c" using w(1) L(2) word(2) by (simp add: str_at_def)
  have "value_char G hm ?x = Some (Inr (?h, ?z))"
    using I S L(2) by (simp add: word value_match_def Let_def)
  then have V: "value_loop G start hm x = value_loop G start ?h (?z\<lparr>cur := cur x + 1\<rparr>)"
    using c Cons.prems(4) by (subst value_loop.simps) (simp add: Let_def)
  show ?case
  proof (cases cs)
    case Nil
    then have i: "?i = 5" using L by simp
    have D: "drop (cur x + 1) (data G) = CR # r" using c(3) Nil by simp
    note e = drop_ConsD [OF D]
    have "inc_index (parser x) = (parser x)\<lparr>index := 6\<rparr>" using i by (simp add: inc_index_def)
    then show ?thesis
      using V i e value_loop_CR [of "?z\<lparr>cur := cur x + 1\<rparr>" G start hf] Nil
      by (simp add: upd_def value_stop_def)
  next
    case (Cons d ds)
    then have i: "?i \<noteq> 5" using L by simp
    have "value_loop G start hm (?z\<lparr>cur := cur x + 1\<rparr>) =
      callback_data G M_header_value (value_end G start hf)
        (value_stop hf (cur (?z\<lparr>cur := cur x + 1\<rparr>) + length cs) (upd (\<lambda>ps. ps\<lparr>index := 6\<rparr>) (?z\<lparr>cur := cur x + 1\<rparr>)))"
      by (rule Cons.IH) (use c(3) w(2) I Cons Cons.prems(4) in simp_all)
    then show ?thesis using V i by (simp add: upd_def value_stop_def inc_index_def)
  qed
qed simp

text \<open>
  A header that the parser accepts here: one without a meaning, an \<open>Upgrade\<close>, or a \<open>Connection\<close> that asks
  for it; what the parser knows after it.
\<close>

definition good_name :: "string \<Rightarrow> bool" where
  "good_name n \<longleftrightarrow> n \<noteq> [] \<and> (\<forall>c\<in>set n. TOKEN c \<noteq> NUL) \<and> \<not> prefix ''transfer-encoding'' (map TOKEN n)"

definition up_header :: "header \<Rightarrow> bool" where
  "up_header h \<longleftrightarrow> good_name (fst h) \<and> value_text (snd h) \<and>
     (map TOKEN (fst h) = ''connection'' \<longrightarrow> map LOWER (snd h) = ''upgrade'') \<and>
     map TOKEN (fst h) \<notin> {''proxy-connection'', ''content-length'', ''transfer-encoding''}"

definition named :: "string \<Rightarrow> header \<Rightarrow> bool" where
  "named n h \<longleftrightarrow> map TOKEN (fst h) = n"

definition note_header :: "header \<Rightarrow> head \<Rightarrow> head" where
  "note_header h w =
     (if named ''upgrade'' h then with_flag F_UPGRADE w
      else if named ''connection'' h then with_flag F_CONNECTION_UPGRADE w
      else w)"

lemma with_flag_simps [simp]:
  "h_te (with_flag f w) = h_te w" "h_method (with_flag f w) = h_method w" "h_type (with_flag f w) = h_type w"
  "h_status (with_flag f w) = h_status w" "h_major (with_flag f w) = h_major w" "h_minor (with_flag f w) = h_minor w"
  "h_length (with_flag f w) = h_length w" "h_lenient (with_flag f w) = h_lenient w"
  "h_flags (with_flag f w) = set_bit f (h_flags w)"
  by (simp_all add: with_flag_def)

context event_client
begin

lemma exec_value_upgrade:
  assumes st: "stage S G s_header_value_discard_ws w u (CHR '' '' # v @ CR # LF # p) q x" and v: "value_text v"
    and h: "header_state (parser x) = h_upgrade"
  shows "reaches G x (\<lambda>y. stage S G s_header_value_lws (with_flag F_UPGRADE w) (act (E_value v) u) p q y \<and>
    header_state (parser y) = h_general)"
proof (rule exec_value [OF st v, where f = "\<lambda>ps. F_set F_UPGRADE (ps\<lparr>index := 0\<rparr>)\<lparr>header_state := h_general\<rparr>" and g = "\<lambda>ps. ps"])
  show "do_header_value_start G y = Next (upd (\<lambda>ps. F_set F_UPGRADE (ps\<lparr>index := 0\<rparr>)\<lparr>header_state := h_general\<rparr>)
      (update_state s_header_value (set_mark M_header_value y)))"
    if "parser y = parser x" for y
    using that h by (simp add: do_header_value_start_def Let_def upd_def)
  have "\<forall>c\<in>set (tl v). IS_HEADER_CHAR c \<and> c \<noteq> CR \<and> c \<noteq> LF" using v by (cases v) (auto simp: value_text_def)
  then show "value_loop G (cur y) (header_state (F_set F_UPGRADE ((parser x)\<lparr>index := 0\<rparr>)\<lparr>header_state := h_general\<rparr>)) y =
      callback_data G M_header_value (value_end G (cur y) h_general) (value_stop h_general (cur y + length (tl v)) (upd (\<lambda>ps. ps) y))"
    if "drop (cur y) (data G) = tl v @ CR # LF # p @ q" "length v < max_header_size G" for y
    using value_loop_general [of y G "tl v" "LF # p @ q" "cur y"] that by simp
qed (use stageD [OF st] in simp_all)

lemma exec_value_connection:
  assumes st: "stage S G s_header_value_discard_ws w u (CHR '' '' # v @ CR # LF # p) q x" and v: "value_text v" "map LOWER v = ''upgrade''"
    and h: "header_state (parser x) = h_connection"
  shows "reaches G x (\<lambda>y. stage S G s_header_value_lws w (act (E_value v) u) p q y \<and> header_state (parser y) = h_connection_upgrade)"
proof (rule exec_value [OF st v(1), where f = "\<lambda>ps. ps\<lparr>index := 0, header_state := h_matching_connection_upgrade\<rparr>"
      and g = "\<lambda>ps. ps\<lparr>index := 6\<rparr>"])
  obtain c cs where c: "v = c # cs" "LOWER c = CHR ''u''" "map LOWER cs = ''pgrade''" using v(2) by (cases v) auto
  show "do_header_value_start G y = Next (upd (\<lambda>ps. ps\<lparr>index := 0, header_state := h_matching_connection_upgrade\<rparr>)
      (update_state s_header_value (set_mark M_header_value y)))"
    if "parser y = parser x" "xch y = hd v" for y
    using that h c by (simp add: do_header_value_start_def Let_def upd_def)
  have "\<forall>c\<in>set cs. IS_HEADER_CHAR c \<and> c \<noteq> CR \<and> c \<noteq> LF" "cs \<noteq> []" using v(1) c by (auto simp: value_text_def)
  then show "value_loop G (cur y) (header_state ((parser x)\<lparr>index := 0, header_state := h_matching_connection_upgrade\<rparr>)) y =
      callback_data G M_header_value (value_end G (cur y) h_connection_upgrade)
        (value_stop h_connection_upgrade (cur y + length (tl v)) (upd (\<lambda>ps. ps\<lparr>index := 6\<rparr>) y))"
    if "drop (cur y) (data G) = tl v @ CR # LF # p @ q" "parser y = (parser x)\<lparr>index := 0, header_state := h_matching_connection_upgrade\<rparr>" for y
    using value_loop_word [of G h_matching_connection_upgrade "''upgrade''" h_connection_upgrade h_matching_connection_token y cs "LF # p @ q" "cur y"] that c
    by (simp add: value_char_def)
qed (use stageD [OF st] in simp_all)

lemma exec_line_flag:
  assumes st: "stage S G s_header_value_lws w u (c # p) q x" and c: "c \<noteq> CHR '' ''" "c \<noteq> TAB"
    and h: "value_flag (parser x) = F_set f (parser x)"
  shows "reaches G x (stage S G s_header_field_start (with_flag f w) u (c # p) q)"
proof -
  note b = stageD [OF st] stage_byte [OF st parsing_states(16)]
  let ?y = "update_state s_header_field_start (upd (F_set f) x)"
  have E: "exec_state G (take_byte G x) = Again (take_byte G ?y)"
    using b c h by (auto simp: exec_state_def do_header_value_lws_def upd_def take_byte_def update_state_def)
  have "exec_bytes G x = exec_bytes G ?y"
    using b exec_bytes_count [of x G] exec_bytes_count [of ?y G] reexecute.simps [of G "take_byte G x"] E
    by (simp add: counts_def)
  moreover have "stage S G s_header_field_start (with_flag f w) u (c # p) q ?y" using b by (simp add: run_at_def)
  ultimately show ?thesis by (auto simp: reaches_def)
qed

lemma exec_up_header:
  assumes st: "stage S G s_header_field_start w u (header_line h @ c # p) q x"
    and h: "up_header h" "\<not> h_te w" and c: "c \<noteq> CHR '' ''" "c \<noteq> TAB"
  shows "reaches G x (stage S G s_header_field_start (note_header h w) (fold act (header_events h) u) (c # p) q)"
proof -
  let ?n = "map TOKEN (fst h)" and ?u = "act (E_field (fst h)) u"
  have "stage S G s_header_field_start w u (fst h @ CHR '':'' # CHR '' '' # snd h @ CR # LF # c # p) q x"
    using st by (simp add: header_line_def CRLF_def)
  then have "reaches G x (\<lambda>y. stage S G s_header_value_discard_ws w ?u (CHR '' '' # snd h @ CR # LF # c # p) q y \<and>
      name_inv ?n (parser y))"
    by (rule exec_header_name) (use h in \<open>simp_all add: up_header_def good_name_def\<close>)
  then show ?thesis
  proof (rule reaches_trans)
    fix y
    assume "stage S G s_header_value_discard_ws w ?u (CHR '' '' # snd h @ CR # LF # c # p) q y \<and> name_inv ?n (parser y)"
    then have y: "stage S G s_header_value_discard_ws w ?u (CHR '' '' # snd h @ CR # LF # c # p) q y" "name_inv ?n (parser y)"
      by simp_all
    have v: "value_text (snd h)" using h(1) by (simp add: up_header_def)
    consider "?n = ''upgrade''" | "?n = ''connection''" "map LOWER (snd h) = ''upgrade''" | "?n \<notin> special_names"
      using h(1) by (auto simp: up_header_def special_names_def)
    then show "reaches G y (stage S G s_header_field_start (note_header h w) (fold act (header_events h) u) (c # p) q)"
    proof cases
      case 1
      then have "header_state (parser y) = h_upgrade" using name_inv_class(4) [OF y(2)] by simp
      from exec_value_upgrade [OF y(1) v this] show ?thesis
        by (rule reaches_trans) (elim conjE, drule exec_line, use 1 c in \<open>simp_all add: header_events_def note_header_def named_def\<close>)
    next
      case 2
      then have "header_state (parser y) = h_connection" using name_inv_class(1) [OF y(2)] by simp
      from exec_value_connection [OF y(1) v 2(2) this] show ?thesis
        by (rule reaches_trans) (elim conjE, drule exec_line_flag [where f = F_CONNECTION_UPGRADE], use 2 c in \<open>simp_all add: value_flag_def header_events_def note_header_def named_def\<close>)
    next
      case 3
      from exec_value_plain [OF y(1) v y(2) this] show ?thesis
        by (rule reaches_trans) (elim conjE, drule exec_line, use 3 c in \<open>simp_all add: header_events_def note_header_def named_def special_names_def\<close>)
    qed
  qed
qed

end

lemma note_header_simps [simp]:
  "h_te (note_header h w) = h_te w" "h_method (note_header h w) = h_method w" "h_type (note_header h w) = h_type w"
  "h_status (note_header h w) = h_status w" "h_major (note_header h w) = h_major w" "h_minor (note_header h w) = h_minor w"
  "h_length (note_header h w) = h_length w" "h_lenient (note_header h w) = h_lenient w"
  by (simp_all add: note_header_def)

lemma note_headers_simps [simp]:
  "h_te (fold note_header hs w) = h_te w" "h_method (fold note_header hs w) = h_method w" "h_type (fold note_header hs w) = h_type w"
  "h_status (fold note_header hs w) = h_status w" "h_major (fold note_header hs w) = h_major w"
  "h_minor (fold note_header hs w) = h_minor w" "h_length (fold note_header hs w) = h_length w"
  "h_lenient (fold note_header hs w) = h_lenient w"
  by (induction hs arbitrary: w) simp_all

lemma bit_note_header: "bit (h_flags (note_header h w)) n \<longleftrightarrow>
    bit (h_flags w) n \<or> n = F_UPGRADE \<and> named ''upgrade'' h \<or> n = F_CONNECTION_UPGRADE \<and> named ''connection'' h"
  by (auto simp: note_header_def named_def bit_set_bit_iff)

text \<open>The flags after the headers.\<close>

lemma bit_note_headers: "bit (h_flags (fold note_header hs w)) n \<longleftrightarrow> bit (h_flags w) n \<or>
    n = F_UPGRADE \<and> (\<exists>h\<in>set hs. named ''upgrade'' h) \<or> n = F_CONNECTION_UPGRADE \<and> (\<exists>h\<in>set hs. named ''connection'' h)"
proof (induction hs arbitrary: w)
  case (Cons h hs)
  then show ?case using bit_note_header [of h w n] by (simp only: fold_simps list.set bex_simps) blast
qed simp

context event_client
begin

lemma exec_up_lines:
  assumes st: "stage S G s_header_field_start w u (lines_text hs b) q x"
    and w: "\<forall>h\<in>set hs. up_header h" "plain_body b" "\<not> bit (h_flags w) F_CONTENTLENGTH" "\<not> h_te w"
  shows "reaches G x (stage S G s_header_field_start (lines_head b (fold note_header hs w)) (fold act (lines_events hs b) u) CRLF q)"
  using st w(1,3,4)
proof (induction hs arbitrary: u w x)
  case Nil
  then show ?case
    using w(2) exec_length_line [of G w u "the b" CR "[LF]" q x]
    by (cases b) (auto simp: lines_text_def lines_events_def lines_head_def CRLF_def plain_body_def body_text_def intro: reaches_refl)
next
  case (Cons h hs)
  obtain c p where c: "lines_text hs b = c # p" "c \<noteq> CHR '' ''" "c \<noteq> TAB"
  proof (cases hs)
    case Nil
    then show ?thesis using that by (cases b) (auto simp: lines_text_def CRLF_def header_line_def length_header_def)
  next
    case (Cons k ks)
    then obtain d ds where "fst k = d # ds" "d \<noteq> CHR '' ''" "d \<noteq> TAB"
      using Cons.prems(2) first_token [of "fst k"] by (auto simp: up_header_def good_name_def)
    then show ?thesis using that Cons by (auto simp: lines_text_def header_line_def)
  qed
  have "stage S G s_header_field_start w u (header_line h @ c # p) q x"
    using Cons.prems(1) by (simp add: lines_text_def flip: c(1))
  then have "reaches G x (stage S G s_header_field_start (note_header h w) (fold act (header_events h) u) (c # p) q)"
    by (rule exec_up_header) (use Cons.prems c in simp_all)
  then show ?case
    by (rule reaches_trans) (drule Cons.IH [unfolded c(1)], use Cons.prems in \<open>simp_all add: lines_events_def bit_note_header\<close>)
qed

end

subsection \<open>The end of an upgrade\<close>

text \<open>A head that upgrades the connection: it has both headers and no body.\<close>

definition upgrading :: "head \<Rightarrow> bool" where
  "upgrading w \<longleftrightarrow> bit (h_flags w) F_UPGRADE \<and> bit (h_flags w) F_CONNECTION_UPGRADE \<and> \<not> bit (h_flags w) F_CHUNKED \<and>
     \<not> bit (h_flags w) F_TRAILING \<and> \<not> h_te w \<and> no_body w \<and> (h_type w = HTTP_REQUEST \<or> h_status w = 101)"

context event_client
begin

lemma exec_upgrade_end:
  assumes st: "stage S G s_header_field_start w u CRLF q x" and w: "upgrading w"
  shows "\<exists>n y. exec_bytes G x = Some (Ret n y) \<and> n + length q = length (data G) \<and> upgrade (parser y) \<and> http_errno (parser y) = HPE_OK \<and>
    udata y = act (E_complete (h_method w)) (act E_headers u)"
proof -
  have "reaches G x (stage S G s_headers_almost_done w u [LF] q)"
    by (rule move_step [OF st [unfolded CRLF_def]]) (simp_all add: exec_state_def do_header_field_start_def)
  then obtain x' where x': "exec_bytes G x = exec_bytes G x'" "stage S G s_headers_almost_done w u [LF] q x'"
    by (auto simp: reaches_def)
  note b = stageD [OF x'(2)] stage_byte [OF x'(2) parsing_states(17)]
  note hf = head_of_fields [OF b(11)]
  let ?h = "upd set_upgrade (update_state s_headers_done (take_byte G x'))"
  let ?y = "?h\<lparr>udata := notified (on_headers_complete S) (parser ?h) (udata ?h)\<rparr>"
  have H: "do_headers_complete G k z = k (z\<lparr>udata := notified (on_headers_complete S) (parser z) (udata z)\<rparr>)" for k z
    using acceptsD(2) [OF S_accepts] b(1)
    by (auto simp: do_headers_complete_def notified_def accepts_cb_def Let_def split: option.split)
  have U: "upgrade (set_upgrade (parser x'))" using w hf by (auto simp: upgrading_def set_upgrade_def F_has_def)
  have E: "exec_state G (take_byte G x') = Again ?y"
    using b w hf by (simp add: exec_state_def do_headers_almost_done_def strict_check_def H set_upgrade_def upgrading_def F_has_def
        length_conflict_def)
  let ?z = "(upd (\<lambda>ps. ps\<lparr>nread := 0\<rparr>) ?y)\<lparr>l_nread := 0\<rparr>"
  let ?c = "after_notify (on_message_complete S) (update_state (new_message (parser ?z)) ?z)"
  have Z: "upgrade (parser ?z)" "\<not> has_body (parser ?z)" "http_errno (parser ?z) = HPE_OK"
    using U b w hf by (auto simp: set_upgrade_def has_body_def F_has_def upgrading_def no_body_def)
  have "exec_state G ?y = do_headers_done G ?y" by (simp add: exec_state_def)
  also have "\<dots> = return (cur ?c + 1) ?c"
    using Z b message_complete_run [of G ?z "\<lambda>x. return (cur x + 1) x"] by (simp add: do_headers_done_def strict_check_def Let_def)
  finally have R: "exec_bytes G x = Some (return (cur ?c + 1) ?c)"
    using exec_bytes_again_return [OF b(12,15) E] x'(1) by simp
  have "udata ?c = act (E_complete (h_method w)) (act E_headers u)"
    using b Z hf on_headers on_complete by (simp add: udata_after_notify set_upgrade_def)
  moreover have "cur ?c + 1 + length q = length (data G)"
    using b(12) arg_cong [OF b(14), of length] by (simp only: length_drop append_Nil) simp
  ultimately show ?thesis
    using R Z by (intro exI conjI, simp only: return_def) simp_all
qed

end

subsection \<open>Whole messages\<close>

definition upgrade_headers_in :: "header list \<Rightarrow> bool" where
  "upgrade_headers_in hs \<longleftrightarrow> (\<forall>h\<in>set hs. up_header h) \<and> (\<exists>h\<in>set hs. named ''upgrade'' h) \<and> (\<exists>h\<in>set hs. named ''connection'' h)"

definition upgrade_request :: "request \<Rightarrow> bool" where
  "upgrade_request r \<longleftrightarrow> rq_method r \<noteq> HTTP_CONNECT \<and> plain_url (rq_url r) \<and> upgrade_headers_in (rq_headers r) \<and> body_text (rq_body r) = []"

lemma upgrading_lines:
  assumes "upgrade_headers_in hs" "body_text b = []" "h_flags w = 0" "\<not> h_te w" "h_length w = ULLONG_MAX"
    and "h_type w = HTTP_REQUEST \<or> h_status w = 101"
  shows "upgrading (lines_head b (fold note_header hs w))" "h_method (lines_head b (fold note_header hs w)) = h_method w"
  using assms
  by (auto simp: upgrading_def lines_head_def upgrade_headers_in_def bit_note_headers bit_set_bit_iff no_body_def body_text_def
      split: option.split)

context event_client
begin

lemma upgrade_request_run:
  assumes ps: "awaits_request ps" and limit: "limit < 2 ^ 32" "length (request_head r) \<le> limit"
    and r: "upgrade_request r" "state ps = s_start_req_or_res \<Longrightarrow> rq_method r \<noteq> HTTP_HEAD"
  shows "\<exists>x. http_parser_execute S limit ps u (request_head r @ q) = Some (Ret (length (request_head r)) x) \<and>
    http_errno (parser x) = HPE_OK \<and> upgrade (parser x) \<and> udata x = fold act (request_events r) u"
proof -
  let ?d = "request_head r @ q" and ?m = "rq_method r" and ?L = "lines_text (rq_headers r) (rq_body r)"
  let ?G = "run_env_of S limit ps ?d" and ?x = "start_run ps u"
  let ?w = "with_version (begin_head HTTP_REQUEST (head_of ps)\<lparr>h_method := ?m\<rparr>)"
  let ?h = "lines_head (rq_body r) (fold note_header (rq_headers r) ?w)" and ?u = "fold act [E_begin, E_url (rq_url r)] u"
  have P: "http_errno ps = HPE_OK" "nread ps = 0" "\<not> lenient_http_headers ps" "state ps \<in> {s_start_req, s_start_res, s_start_req_or_res}"
    "state ps = s_start_req \<and> ptype ps = HTTP_REQUEST \<or> state ps = s_start_req_or_res"
    using ps by (auto simp: awaits_request_def)
  note R = r(1) [unfolded upgrade_request_def]
  have D: "?d \<noteq> []" by (simp add: request_head_def)
  note st = stage_start [OF P(1-3) limit(1) P(4) D, of u]
  have "stage S ?G (state ps) (head_of ps) u (request_head r) q ?x" by (rule stage_split [OF st(1,2)]) (use limit(2) in simp_all)
  then have "reaches ?G ?x (stage S ?G s_header_field_start ?w (act (E_url (rq_url r)) (act E_begin u)) ?L q)"
    by (intro exec_request_line) (use R P(5) r(2) in \<open>auto simp: request_head_def head_of_def\<close>)
  then have "reaches ?G ?x (stage S ?G s_header_field_start ?h (fold act (lines_events (rq_headers r) (rq_body r)) ?u) CRLF q)"
    by (rule reaches_trans)
      (rule exec_up_lines, use R in \<open>simp_all add: upgrade_headers_in_def plain_body_def with_version_def begin_head_def\<close>)
  then obtain y where y: "exec_bytes ?G ?x = exec_bytes ?G y"
    "stage S ?G s_header_field_start ?h (fold act (lines_events (rq_headers r) (rq_body r)) ?u) CRLF q y"
    by (auto simp: reaches_def)
  have H: "upgrading ?h" "h_method ?h = ?m"
    using upgrading_lines [of "rq_headers r" "rq_body r" ?w] R by (simp_all add: with_version_def begin_head_def)
  from exec_upgrade_end [OF y(2) H(1)] y(1) show ?thesis
    unfolding st(3) using R H(2) by (auto simp: request_events_def body_events_def)
qed

lemma upgrade_response_run:
  assumes ps: "awaits_response ps" and limit: "limit < 2 ^ 32" "length (response_head ''101'' reason hs []) \<le> limit"
    and r: "reason \<noteq> []" "\<forall>c\<in>set reason. c \<noteq> CR \<and> c \<noteq> LF" "upgrade_headers_in hs"
  shows "\<exists>x. http_parser_execute S limit ps u (response_head ''101'' reason hs [] @ q) =
      Some (Ret (length (response_head ''101'' reason hs [])) x) \<and>
    http_errno (parser x) = HPE_OK \<and> upgrade (parser x) \<and> udata x = fold act (response_events (method ps) ''101'' reason hs []) u"
proof -
  let ?R = "response_head ''101'' reason hs []"
  let ?d = "?R @ q" and ?L = "lines_text hs (Some [])"
  let ?G = "run_env_of S limit ps ?d" and ?x = "start_run ps u"
  let ?w = "with_version (begin_head HTTP_RESPONSE (head_of ps))\<lparr>h_status := digits_value 0 ''101''\<rparr>"
  let ?h = "lines_head (Some []) (fold note_header hs ?w)" and ?u = "fold act [E_begin, E_status (digits_value 0 ''101'') reason] u"
  have P: "http_errno ps = HPE_OK" "nread ps = 0" "\<not> lenient_http_headers ps" "state ps \<in> {s_start_req, s_start_res, s_start_req_or_res}"
    "state ps = s_start_res \<and> ptype ps = HTTP_RESPONSE \<or> state ps = s_start_req_or_res"
    using ps by (auto simp: awaits_response_def)
  have c: "status_text ''101''" "digits_value 0 ''101'' = 101"
    by (simp_all add: status_text_def IS_NUM_def digits_value_def digit_def)
  have D: "?d \<noteq> []" by (simp add: response_head_def)
  note st = stage_start [OF P(1-3) limit(1) P(4) D, of u]
  have "stage S ?G (state ps) (head_of ps) u ?R q ?x" by (rule stage_split [OF st(1,2)]) (use limit(2) in simp_all)
  then have "reaches ?G ?x (stage S ?G s_header_field_start ?w ?u ?L q)"
    using exec_status_line [of ?G "state ps" "head_of ps" u "''101''" reason ?L q ?x] r P(5) c(1)
    by (auto simp: response_head_def head_of_def)
  then have "reaches ?G ?x (stage S ?G s_header_field_start ?h (fold act (lines_events hs (Some [])) ?u) CRLF q)"
    by (rule reaches_trans)
      (rule exec_up_lines, use r in \<open>simp_all add: upgrade_headers_in_def plain_body_def body_text_def with_version_def begin_head_def\<close>)
  then obtain y where y: "exec_bytes ?G ?x = exec_bytes ?G y"
    "stage S ?G s_header_field_start ?h (fold act (lines_events hs (Some [])) ?u) CRLF q y"
    by (auto simp: reaches_def)
  have H: "upgrading ?h" "h_method ?h = method ps"
    using upgrading_lines [OF r(3), of "Some []" ?w] c(2) by (simp_all add: with_version_def begin_head_def body_text_def head_of_def)
  from exec_upgrade_end [OF y(2) H(1)] y(1) show ?thesis
    unfolding st(3) using H(2) by (auto simp: response_events_def body_events_def body_text_def)
qed

end

end
