(* ===== verification/HttpChunked.thy ===== *)
theory HttpChunked
  imports HttpUpgrade
begin

section \<open>Chunked bodies\<close>

text \<open>
  Messages whose body comes in chunks: the header that announces them, a chunk with its size in
  hexadecimal, the last chunk, and the runs over whole requests and responses. A client of such messages
  does nothing at the borders of the chunks.
\<close>

subsection \<open>Texts and events\<close>

definition te_header :: "header \<Rightarrow> bool" where
  "te_header h \<longleftrightarrow> map TOKEN (fst h) = ''transfer-encoding'' \<and> map LOWER (snd h) = ''chunked'' \<and> value_text (snd h)"

text \<open>A chunk is the text of its size and its data.\<close>

type_synonym chunk = "string \<times> string"

definition chunk_ok :: "nat \<Rightarrow> chunk \<Rightarrow> bool" where
  "chunk_ok limit c \<longleftrightarrow> fst c \<noteq> [] \<and> (\<forall>h\<in>set (fst c). IS_HEX h) \<and> hex_value 0 (fst c) = length (snd c) \<and> snd c \<noteq> [] \<and>
     length (snd c) < 2 ^ 32 \<and> length (fst c) + 2 \<le> limit"

definition chunk_text :: "chunk \<Rightarrow> string" where
  "chunk_text c = fst c @ CRLF @ snd c @ CRLF"

definition chunks_text :: "chunk list \<Rightarrow> string" where
  "chunks_text cs = concat (map chunk_text cs) @ ''0'' @ CRLF @ CRLF"

definition chunks_events :: "chunk list \<Rightarrow> http_event list" where
  "chunks_events cs = map (\<lambda>c. E_body (snd c)) cs"

text \<open>A head of a chunked message, and what it becomes in the last chunk.\<close>

definition chunked :: "head \<Rightarrow> bool" where
  "chunked w \<longleftrightarrow> h_method w \<noteq> HTTP_CONNECT \<and> h_major w = 1 \<and> h_minor w = 1 \<and> h_te w \<and> h_flags w = 1"

lemma chunked_flags:
  assumes "chunked w" "head_of ps = w"
  shows "F_has ps F_CHUNKED" "f \<noteq> 0 \<Longrightarrow> \<not> F_has ps f"
  using assms head_of_fields(4) [OF assms(2)] by (auto simp: chunked_def F_has_def bit_1_iff)

lemma chunked_length [simp]: "chunked (w\<lparr>h_length := n\<rparr>) = chunked w"
  by (simp add: chunked_def)

lemma chunked_new_message:
  assumes "chunked w" "head_of ps = with_flag F_TRAILING (w\<lparr>h_length := n\<rparr>)"
  shows "new_message ps = ready w"
proof -
  have f: "F_has ps f \<longleftrightarrow> f = 0 \<or> f = 4" if "f < 7" for f
    using assms head_of_fields(4) [OF assms(2)] that by (auto simp: chunked_def F_has_def bit_1_iff bit_set_bit_iff)
  show ?thesis
    using assms(1) head_of_fields [OF assms(2)] f
    by (auto simp: new_message_def start_state_def ready_def http_should_keep_alive_def http_message_needs_eof_def chunked_def)
qed

subsection \<open>Clients of chunked messages\<close>

locale chunk_client = event_client +
  assumes on_chunk_header: "notified (on_chunk_header S) ps u = u"
    and on_chunk_complete: "notified (on_chunk_complete S) ps u = u"
begin

text \<open>A byte of a line, and a byte of a body.\<close>

lemma line_byte:
  assumes "stage S G s w u (c # p) q x" "parsing_header s" "exec_state G (take_byte G x) = Next y" "cur y = cur x" "p_state y = t"
    and "udata y = u" "marks y = (\<lambda>_. None)" "http_errno (parser y) = HPE_OK" "head_of (parser y) = w'" "\<not> upgrade (parser y)"
    and "l_nread y \<le> l_nread x + 1"
  shows "reaches G x (\<lambda>z. stage S G t w' u p q z \<and> \<not> upgrade (parser z) \<and> l_nread z = l_nread y)"
proof -
  note b = stageD [OF assms(1)] stage_byte [OF assms(1,2)]
  have "exec_bytes G x = exec_bytes G (y\<lparr>cur := cur y + 1\<rparr>)" by (rule exec_bytes_next [OF b(12,15) assms(3)])
  moreover have "stage S G t w' u p q (y\<lparr>cur := cur y + 1\<rparr>)"
    using assms b by (auto simp: run_at_def)
  ultimately show ?thesis using assms(10) by (auto simp: reaches_def intro!: exI [of _ "y\<lparr>cur := cur y + 1\<rparr>"])
qed

lemma body_byte:
  assumes "run_at S G s w u M [] (c # q) x" "\<not> parsing_header s"
  shows "cur x < length (data G)" "data G ! cur x = c" "drop (Suc (cur x)) (data G) = q" "counts G x"
    "l_nread (take_byte G x) = l_nread x"
  using assms drop_ConsD [of "cur x" "data G" c q] by (auto simp: run_at_def counts_def)

lemma not_parsing [simp]:
  "\<not> parsing_header s_chunk_data" "\<not> parsing_header s_chunk_data_almost_done" "\<not> parsing_header s_chunk_data_done"
  "parsing_header s_chunk_size_start" "parsing_header s_chunk_size" "parsing_header s_chunk_size_almost_done"
  by (simp_all add: parsing_header_def)

text \<open>The header.\<close>

lemma exec_value_chunked:
  assumes st: "stage S G s_header_value_discard_ws w u (CHR '' '' # v @ CR # LF # p) q x" and v: "value_text v" "map LOWER v = ''chunked''"
    and h: "header_state (parser x) = h_transfer_encoding"
  shows "reaches G x (\<lambda>y. stage S G s_header_value_lws w (act (E_value v) u) p q y \<and> header_state (parser y) = h_transfer_encoding_chunked)"
proof (rule exec_value [OF st v(1), where f = "\<lambda>ps. ps\<lparr>index := 0, header_state := h_matching_transfer_encoding_chunked\<rparr>"
      and g = "\<lambda>ps. ps\<lparr>index := 6\<rparr>"])
  obtain c cs where c: "v = c # cs" "LOWER c = CHR ''c''" "map LOWER cs = ''hunked''" using v(2) by (cases v) auto
  show "do_header_value_start G y = Next (upd (\<lambda>ps. ps\<lparr>index := 0, header_state := h_matching_transfer_encoding_chunked\<rparr>)
      (update_state s_header_value (set_mark M_header_value y)))"
    if "parser y = parser x" "xch y = hd v" for y
    using that h c by (simp add: do_header_value_start_def Let_def upd_def)
  have "\<forall>c\<in>set cs. IS_HEADER_CHAR c \<and> c \<noteq> CR \<and> c \<noteq> LF" "cs \<noteq> []" using v(1) c by (auto simp: value_text_def)
  then show "value_loop G (cur y) (header_state ((parser x)\<lparr>index := 0, header_state := h_matching_transfer_encoding_chunked\<rparr>)) y =
      callback_data G M_header_value (value_end G (cur y) h_transfer_encoding_chunked)
        (value_stop h_transfer_encoding_chunked (cur y + length (tl v)) (upd (\<lambda>ps. ps\<lparr>index := 6\<rparr>) y))"
    if "drop (cur y) (data G) = tl v @ CR # LF # p @ q"
      "parser y = (parser x)\<lparr>index := 0, header_state := h_matching_transfer_encoding_chunked\<rparr>" for y
    using value_loop_word [of G h_matching_transfer_encoding_chunked "''chunked''" h_transfer_encoding_chunked
        h_matching_transfer_encoding_token y cs "LF # p @ q" "cur y"] that c
    by (simp add: value_char_def)
qed (use stageD [OF st] in simp_all)

lemma exec_te_header:
  assumes st: "stage S G s_header_field_start w u (header_line h @ c # p) q x"
    and h: "te_header h" "\<not> h_te w" and c: "c \<noteq> CHR '' ''" "c \<noteq> TAB"
  shows "reaches G x (stage S G s_header_field_start (with_flag F_CHUNKED (w\<lparr>h_te := True\<rparr>)) (fold act (header_events h) u) (c # p) q)"
proof -
  let ?u = "act (E_field (fst h)) u" and ?w = "w\<lparr>h_te := True\<rparr>"
  have n: "fst h \<noteq> []" "\<forall>c\<in>set (fst h). TOKEN c \<noteq> NUL" "map TOKEN (fst h) = ''transfer-encoding''"
  proof -
    show "map TOKEN (fst h) = ''transfer-encoding''" using h(1) by (simp add: te_header_def)
    then show "fst h \<noteq> []" by auto
    have "TOKEN ` set (fst h) = set ''transfer-encoding''" using \<open>map TOKEN (fst h) = _\<close> by (metis set_map)
    moreover have "NUL \<notin> set ''transfer-encoding''" by simp
    ultimately show "\<forall>c\<in>set (fst h). TOKEN c \<noteq> NUL" by (metis imageI)
  qed
  have "stage S G s_header_field_start w u (fst h @ CHR '':'' # CHR '' '' # snd h @ CR # LF # c # p) q x"
    using st by (simp add: header_line_def CRLF_def)
  from exec_name [OF this n(1,2) h(2)]
  have "reaches G x (\<lambda>y. stage S G s_header_value_discard_ws ?w ?u (CHR '' '' # snd h @ CR # LF # c # p) q y \<and>
      header_state (parser y) = h_transfer_encoding)"
    by (rule reaches_trans) (use n(3) name_inv_class(3) in \<open>auto intro!: reaches_refl\<close>)
  then have "reaches G x (\<lambda>y. stage S G s_header_value_lws ?w (act (E_value (snd h)) ?u) (c # p) q y \<and>
      header_state (parser y) = h_transfer_encoding_chunked)"
    by (rule reaches_trans) (elim conjE, drule exec_value_chunked, use h(1) in \<open>simp_all add: te_header_def\<close>)
  then show ?thesis
    by (rule reaches_trans) (elim conjE, drule exec_line_flag [where f = F_CHUNKED], use c in \<open>simp_all add: value_flag_def header_events_def\<close>)
qed

text \<open>The blank line.\<close>

lemma exec_chunked_end:
  assumes st: "stage S G s_header_field_start w u CRLF q x" and w: "chunked w"
  shows "reaches G x (\<lambda>y. stage S G s_chunk_size_start w (act E_headers u) [] q y \<and> \<not> upgrade (parser y) \<and> l_nread y = 0)"
proof (rule reaches_trans)
  show "reaches G x (stage S G s_headers_almost_done w u [LF] q)"
    by (rule move_step [OF st [unfolded CRLF_def]]) (simp_all add: exec_state_def do_header_field_start_def)
next
  fix x
  assume st: "stage S G s_headers_almost_done w u [LF] q x"
  note b = stageD [OF st] stage_byte [OF st parsing_states(17)]
  note hf = head_of_fields [OF b(11)]
  note fl = chunked_flags [OF w]
  let ?h = "upd set_upgrade (update_state s_headers_done (take_byte G x))"
  let ?y = "?h\<lparr>udata := notified (on_headers_complete S) (parser ?h) (udata ?h)\<rparr>"
  have H: "do_headers_complete G k z = k (z\<lparr>udata := notified (on_headers_complete S) (parser z) (udata z)\<rparr>)" for k z
    using acceptsD(2) [OF S_accepts] b(1)
    by (auto simp: do_headers_complete_def notified_def accepts_cb_def Let_def split: option.split)
  have E: "exec_state G (take_byte G x) = Again ?y"
    using b fl(2) [OF b(11), of 4] fl(2) [OF b(11), of 7]
    by (simp add: exec_state_def do_headers_almost_done_def strict_check_def H set_upgrade_def length_conflict_def)
  let ?z = "(upd (\<lambda>ps. ps\<lparr>nread := 0\<rparr>) ?y)\<lparr>l_nread := 0\<rparr>"
  have Z: "\<not> upgrade (parser ?z)" "head_of (parser ?z) = w" "http_errno (parser ?z) = HPE_OK"
    using b fl(2) [OF b(11), of 3] hf(2) w by (simp_all add: set_upgrade_def chunked_def)
  let ?e = "update_state s_chunk_size_start ?z"
  have "exec_state G ?y = do_headers_done G ?y" by (simp add: exec_state_def)
  also have "\<dots> = Next ?e"
    using Z(1) b fl(1) [OF Z(2)] fl(2) [OF Z(2), of 6] by (simp add: do_headers_done_def strict_check_def Let_def)
  finally have "exec_bytes G x = exec_bytes G (?e\<lparr>cur := cur ?e + 1\<rparr>)" by (rule exec_bytes_again [OF b(12,15) E])
  moreover have "stage S G s_chunk_size_start w (act E_headers u) [] q (?e\<lparr>cur := cur ?e + 1\<rparr>)"
    using b Z on_headers by (simp add: run_at_def)
  ultimately show "reaches G x (\<lambda>y. stage S G s_chunk_size_start w (act E_headers u) [] q y \<and> \<not> upgrade (parser y) \<and> l_nread y = 0)"
    using Z(1) by (auto simp: reaches_def intro!: exI [of _ "?e\<lparr>cur := cur ?e + 1\<rparr>"])
qed

text \<open>The line with the size of a chunk.\<close>

lemma exec_size_digits:
  assumes "stage S G s_chunk_size w u (hs @ p) q x" "chunked w" "\<not> upgrade (parser x)" "\<forall>h\<in>set hs. IS_HEX h" "hex_value (h_length w) hs < 2 ^ 32"
  shows "reaches G x (\<lambda>y. stage S G s_chunk_size (w\<lparr>h_length := hex_value (h_length w) hs\<rparr>) u p q y \<and> \<not> upgrade (parser y))"
  using assms
proof (induction hs arbitrary: w x)
  case Nil
  then show ?case by (intro reaches_refl) simp
next
  case (Cons h hs)
  have st: "stage S G s_chunk_size w u (h # hs @ p) q x" using Cons.prems(1) by simp
  note b = stageD [OF st] stage_byte [OF st not_parsing(5)]
  note hf = head_of_fields [OF b(11)]
  have h: "unhex_at h = int (hex_digit h)" "hex_digit h < 16" "h \<noteq> CR" using unhex_hex [of h] Cons.prems(4) by simp_all
  let ?n = "h_length w * 16 + hex_digit h"
  have "hex_value ?n hs < 2 ^ 32" using Cons.prems(5) by simp
  then have n: "?n < 2 ^ 32" using hex_value_ge [of ?n hs] by simp
  let ?y = "upd (\<lambda>ps. ps\<lparr>content_length := ?n\<rparr>) (take_byte G x)"
  have "exec_state G (take_byte G x) = Next ?y"
    using b h n hf chunked_flags(1) [OF Cons.prems(2) b(11)]
    by (simp add: exec_state_def do_chunk_size_def assert_chunked_def Let_def upd_def ULLONG_MAX_def)
  then have "reaches G x (\<lambda>y. stage S G s_chunk_size (w\<lparr>h_length := ?n\<rparr>) u (hs @ p) q y \<and> \<not> upgrade (parser y) \<and> l_nread y = l_nread ?y)"
    by (rule line_byte [OF st not_parsing(5)]) (use b Cons.prems(3) in simp_all)
  then show ?case
  proof (rule reaches_trans)
    fix y
    assume y: "stage S G s_chunk_size (w\<lparr>h_length := ?n\<rparr>) u (hs @ p) q y \<and> \<not> upgrade (parser y) \<and> l_nread y = l_nread ?y"
    show "reaches G y (\<lambda>y. stage S G s_chunk_size (w\<lparr>h_length := hex_value (h_length w) (h # hs)\<rparr>) u p q y \<and> \<not> upgrade (parser y))"
      using Cons.IH [of "w\<lparr>h_length := ?n\<rparr>" y] y Cons.prems(2,4,5) by simp
  qed
qed

lemma exec_size_line:
  assumes st: "stage S G s_chunk_size_start w u (hs @ CRLF) q x" and w: "chunked w" "\<not> upgrade (parser x)" "l_nread x = 0"
    and hs: "hs \<noteq> []" "\<forall>h\<in>set hs. IS_HEX h" "hex_value 0 hs < 2 ^ 32"
  shows "reaches G x (\<lambda>y. \<not> upgrade (parser y) \<and> l_nread y = 0 \<and>
    (if hex_value 0 hs = 0 then stage S G s_header_field_start (with_flag F_TRAILING (w\<lparr>h_length := 0\<rparr>)) u [] q y
     else stage S G s_chunk_data (w\<lparr>h_length := hex_value 0 hs\<rparr>) u [] q y))"
proof -
  obtain c cs where c: "hs = c # cs" using hs(1) by (cases hs) auto
  let ?w = "w\<lparr>h_length := hex_value 0 hs\<rparr>"
  have st: "stage S G s_chunk_size_start w u (c # cs @ CRLF) q x" using st c by simp
  note b = stageD [OF st] stage_byte [OF st not_parsing(4)]
  have h: "unhex_at c = int (hex_digit c)" using unhex_hex [of c] hs(2) c by simp
  let ?y = "update_state s_chunk_size (upd (\<lambda>ps. ps\<lparr>content_length := hex_digit c\<rparr>) (take_byte G x))"
  have "exec_state G (take_byte G x) = Next ?y"
    using b h w(3) chunked_flags(1) [OF w(1) b(11)] by (simp add: exec_state_def do_chunk_size_start_def assert_chunked_def Let_def)
  then have "reaches G x (\<lambda>y. stage S G s_chunk_size (w\<lparr>h_length := hex_digit c\<rparr>) u (cs @ CRLF) q y \<and> \<not> upgrade (parser y) \<and> l_nread y = l_nread ?y)"
    by (rule line_byte [OF st not_parsing(4)]) (use b w(2) in simp_all)
  then have "reaches G x (\<lambda>y. stage S G s_chunk_size ?w u [CR, LF] q y \<and> \<not> upgrade (parser y))"
    by (rule reaches_trans)
      (elim conjE, drule exec_size_digits, use w(1) hs(2,3) in \<open>simp_all add: c CRLF_def\<close>)
  then have "reaches G x (\<lambda>y. stage S G s_chunk_size_almost_done ?w u [LF] q y \<and> \<not> upgrade (parser y))"
  proof (rule reaches_trans)
    fix y
    assume y: "stage S G s_chunk_size ?w u [CR, LF] q y \<and> \<not> upgrade (parser y)"
    then have st: "stage S G s_chunk_size ?w u [CR, LF] q y" ..
    note d = stageD [OF st] stage_byte [OF st not_parsing(5)]
    have "exec_state G (take_byte G y) = Next (update_state s_chunk_size_almost_done (take_byte G y))"
      using d chunked_flags(1) [OF _ d(11)] w(1) by (simp add: exec_state_def do_chunk_size_def assert_chunked_def Let_def)
    then have "reaches G y (\<lambda>z. stage S G s_chunk_size_almost_done ?w u [LF] q z \<and> \<not> upgrade (parser z) \<and>
        l_nread z = l_nread (update_state s_chunk_size_almost_done (take_byte G y)))"
      by (rule line_byte [OF st not_parsing(5)]) (use d y in simp_all)
    then show "reaches G y (\<lambda>y. stage S G s_chunk_size_almost_done ?w u [LF] q y \<and> \<not> upgrade (parser y))"
      by (auto simp: reaches_def)
  qed
  then show ?thesis
  proof (rule reaches_trans)
    fix y
    assume y: "stage S G s_chunk_size_almost_done ?w u [LF] q y \<and> \<not> upgrade (parser y)"
    then have st: "stage S G s_chunk_size_almost_done ?w u [LF] q y" ..
    note d = stageD [OF st] stage_byte [OF st not_parsing(6)]
    let ?n = "hex_value 0 hs"
    let ?t = "if ?n = 0 then s_header_field_start else s_chunk_data" and ?v = "if ?n = 0 then with_flag F_TRAILING ?w else ?w"
    let ?a = "(upd (\<lambda>ps. ps\<lparr>nread := 0\<rparr>) (take_byte G y))\<lparr>l_nread := 0\<rparr>"
    let ?b = "update_state ?t (upd (if ?n = 0 then F_set F_TRAILING else (\<lambda>ps. ps)) ?a)"
    let ?z = "after_notify (on_chunk_header S) ?b"
    have u: "\<not> upgrade (parser ?z)" using y by (simp add: F_set_def)
    have "exec_state G (take_byte G y) = Next ?z"
      using d chunked_flags(1) [OF _ d(11)] w(1) S_accepts head_of_fields(7) [OF d(11)]
      by (simp add: exec_state_def do_chunk_size_almost_done_def assert_chunked_def strict_check_def Let_def callback_notify_accepts acceptsD)
    then have "reaches G y (\<lambda>z. stage S G ?t ?v u [] q z \<and> \<not> upgrade (parser z) \<and> l_nread z = l_nread ?z)"
      by (rule line_byte [OF st not_parsing(6)]) (use d u in \<open>simp_all add: udata_after_notify on_chunk_header\<close>)
    then show "reaches G y (\<lambda>y. \<not> upgrade (parser y) \<and> l_nread y = 0 \<and>
      (if ?n = 0 then stage S G s_header_field_start (with_flag F_TRAILING (w\<lparr>h_length := 0\<rparr>)) u [] q y
       else stage S G s_chunk_data ?w u [] q y))"
      by (rule reaches_trans) (auto intro!: reaches_refl)
  qed
qed

text \<open>The data of a chunk.\<close>

lemma exec_chunk_data:
  assumes st: "stage S G s_chunk_data w u [] (t @ CRLF @ q) x" and w: "chunked w" "h_length w = length t" "t \<noteq> []" "length t < ULLONG_MAX"
    and up: "\<not> upgrade (parser x)" "l_nread x = 0"
  shows "reaches G x (\<lambda>y. stage S G s_chunk_size_start (w\<lparr>h_length := 0\<rparr>) (act (E_body t) u) [] q y \<and> \<not> upgrade (parser y) \<and> l_nread y = 0)"
proof -
  note b = stageD [OF st]
  note hf = head_of_fields [OF b(11)]
  let ?w = "w\<lparr>h_length := 0\<rparr>" and ?M = "(\<lambda>_. None)(M_body := Some (cur x))"
  have L: "cur x < length (data G)" "length t \<le> length (data G) - cur x"
  proof -
    show "cur x < length (data G)" using b(5) w(3) by (metis append_is_Nil_conv append_Nil drop_eq_Nil not_le)
    show "length t \<le> length (data G) - cur x" using arg_cong [OF b(5), of length] by simp
  qed
  have C: "counts G x" using b(4) by (simp add: counts_def)
  let ?t = "update_state s_chunk_data_almost_done (take_body G (take_byte G x))"
  have T: "cur ?t = cur x + length t - 1" "parser ?t = (parser x)\<lparr>content_length := 0\<rparr>" "marks ?t = ?M" "udata ?t = u" "l_nread ?t = 0"
    using b L hf w up by (simp_all add: take_body_def Let_def)
  have E: "exec_state G (take_byte G x) = Next ?t"
    using b hf w T chunked_flags(1) [OF w(1) b(11)] by (simp add: exec_state_def do_chunk_data_def assert_chunked_def Let_def)
  let ?x1 = "?t\<lparr>cur := cur ?t + 1\<rparr>"
  have c1: "cur ?x1 = cur x + length t" using T(1) w(3) by (cases t) simp_all
  have x1: "run_at S G s_chunk_data_almost_done ?w u ?M [] (CR # LF # q) ?x1"
    using b T L c1 drop_appendD [of "cur x" "data G" t "CRLF @ q"] by (simp add: run_at_def CRLF_def)
  note d = stageD [OF x1] body_byte [OF x1 not_parsing(2)]
  let ?v = "update_state s_chunk_data_done (take_byte G ?x1)"
  let ?y = "after_data G M_body 0 ?v"
  have "exec_state G (take_byte G ?x1) = Next ?y"
    using d(1,4,10,13) chunked_flags(1) [OF _ d(11)] w(1) head_of_fields(7) [OF d(11)] S_accepts
    by (simp add: exec_state_def do_chunk_data_almost_done_def assert_chunked_def strict_check_def callback_data_def callback_data_accepts acceptsD)
  from exec_bytes_next [OF d(12,15) this]
  have E2: "exec_bytes G ?x1 = exec_bytes G (?y\<lparr>cur := cur ?y + 1\<rparr>)" .
  have U: "udata ?y = act (E_body t) u"
    using deliver_text [of ?v M_body "cur x" G t "CRLF @ q" 0] T c1 b(1,5) by simp
  let ?x2 = "?y\<lparr>cur := cur ?y + 1\<rparr>"
  have x2: "stage S G s_chunk_data_done ?w (act (E_body t) u) [] (LF # q) ?x2"
    using d U by (auto simp: run_at_def)
  note e = stageD [OF x2] body_byte [OF x2 not_parsing(3)]
  let ?z = "after_notify (on_chunk_complete S) (update_state s_chunk_size_start ((upd (\<lambda>ps. ps\<lparr>nread := 0\<rparr>) (take_byte G ?x2))\<lparr>l_nread := 0\<rparr>))"
  have "exec_state G (take_byte G ?x2) = Next ?z"
    using e(1,4,10,13) chunked_flags(1) [OF _ e(11)] w(1) S_accepts
    by (simp add: exec_state_def do_chunk_data_done_def assert_chunked_def strict_check_def Let_def callback_notify_accepts acceptsD)
  from exec_bytes_next [OF e(12,15) this]
  have "exec_bytes G x = exec_bytes G (?z\<lparr>cur := cur ?z + 1\<rparr>)"
    using exec_bytes_next [OF L(1) C E] E2 by simp
  moreover have "stage S G s_chunk_size_start ?w (act (E_body t) u) [] q (?z\<lparr>cur := cur ?z + 1\<rparr>)"
    using e by (simp add: run_at_def udata_after_notify on_chunk_complete)
  moreover have "\<not> upgrade (parser (?z\<lparr>cur := cur ?z + 1\<rparr>))" "l_nread (?z\<lparr>cur := cur ?z + 1\<rparr>) = 0" using T(2) up by simp_all
  ultimately show ?thesis unfolding reaches_def by blast
qed

text \<open>The last chunk, and the blank line behind it.\<close>

lemma exec_chunks_end:
  assumes st: "stage S G s_header_field_start (with_flag F_TRAILING (w\<lparr>h_length := 0\<rparr>)) u [] (CRLF @ q) x" and w: "chunked w"
    and x: "\<not> upgrade (parser x)" "l_nread x = 0" "2 \<le> max_header_size G"
  shows "reaches G x (\<lambda>y. stage S G (ready w) (with_flag F_TRAILING (w\<lparr>h_length := 0\<rparr>)) (act (E_complete (h_method w)) u) [] q y \<and> l_nread y = 2)"
proof -
  let ?w = "with_flag F_TRAILING (w\<lparr>h_length := 0\<rparr>)"
  have st: "stage S G s_header_field_start ?w u [CR, LF] q x" by (rule stage_split [OF st x(2)]) (use x(3) in \<open>simp_all add: CRLF_def\<close>)
  note b = stageD [OF st] stage_byte [OF st parsing_states(11)]
  let ?v = "update_state s_headers_almost_done (take_byte G x)"
  have "exec_state G (take_byte G x) = Next ?v" using b by (simp add: exec_state_def do_header_field_start_def)
  then have "reaches G x (\<lambda>y. stage S G s_headers_almost_done ?w u [LF] q y \<and> \<not> upgrade (parser y) \<and> l_nread y = l_nread ?v)"
    by (rule line_byte [OF st parsing_states(11)]) (use b x in simp_all)
  then show ?thesis
  proof (rule reaches_trans)
    fix y
    assume y: "stage S G s_headers_almost_done ?w u [LF] q y \<and> \<not> upgrade (parser y) \<and> l_nread y = l_nread ?v"
    then have st: "stage S G s_headers_almost_done ?w u [LF] q y" by simp
    note d = stageD [OF st] stage_byte [OF st parsing_states(17)]
    have f: "F_has (parser y) F_TRAILING" using head_of_fields(4) [OF d(11)] by (simp add: F_has_def bit_set_bit_iff)
    let ?m = "after_notify (on_chunk_complete S) (update_state s_message_done (take_byte G y))"
    have E: "exec_state G (take_byte G y) = Again ?m"
      using d f S_accepts
      by (simp add: exec_state_def do_headers_almost_done_def strict_check_def callback_notify_accepts acceptsD)
    have P: "head_of (parser ?m) = ?w" "http_errno (parser ?m) = HPE_OK" "\<not> upgrade (parser ?m)" using d y by simp_all
    let ?c = "after_notify (on_message_complete S) (update_state (new_message (parser ?m)) ?m)"
    have "exec_state G ?m = Next ?c"
      using d(1) P by (simp add: exec_state_def do_message_done_def message_complete_run)
    from exec_bytes_again [OF d(12,15) E this]
    have "exec_bytes G y = exec_bytes G (?c\<lparr>cur := cur ?c + 1\<rparr>)" .
    moreover have "stage S G (ready w) ?w (act (E_complete (h_method w)) u) [] q (?c\<lparr>cur := cur ?c + 1\<rparr>) \<and> l_nread (?c\<lparr>cur := cur ?c + 1\<rparr>) = 2"
      using d P y b(16) x(2) chunked_new_message [OF w P(1)] head_of_fields(2) [OF P(1)]
      by (simp add: run_at_def udata_after_notify on_complete on_chunk_complete)
    ultimately show "reaches G y (\<lambda>y. stage S G (ready w) ?w (act (E_complete (h_method w)) u) [] q y \<and> l_nread y = 2)"
      by (auto simp: reaches_def)
  qed
qed

lemma exec_chunks:
  assumes "stage S G s_chunk_size_start w u [] (chunks_text cs @ q) x" "chunked w" "\<not> upgrade (parser x)" "l_nread x = 0"
    and "\<forall>c\<in>set cs. chunk_ok (max_header_size G) c" "3 \<le> max_header_size G"
  shows "reaches G x (\<lambda>y. stage S G (ready w) (with_flag F_TRAILING (w\<lparr>h_length := 0\<rparr>))
    (act (E_complete (h_method w)) (fold act (chunks_events cs) u)) [] q y \<and> l_nread y = 2)"
  using assms(1-5)
proof (induction cs arbitrary: w u x)
  case Nil
  have "stage S G s_chunk_size_start w u (''0'' @ CRLF) (CRLF @ q) x"
    by (rule stage_split [OF Nil.prems(1,4)]) (use assms(6) in \<open>simp_all add: chunks_text_def CRLF_def\<close>)
  from exec_size_line [OF this Nil.prems(2-4)]
  have "reaches G x (\<lambda>y. \<not> upgrade (parser y) \<and> l_nread y = 0 \<and>
      stage S G s_header_field_start (with_flag F_TRAILING (w\<lparr>h_length := 0\<rparr>)) u [] (CRLF @ q) y)"
    by (simp add: IS_HEX_def IS_NUM_def hex_digit_def)
  then show ?case
    by (rule reaches_trans) (elim conjE, drule exec_chunks_end, use Nil.prems(2) assms(6) in \<open>simp_all add: chunks_events_def\<close>)
next
  case (Cons c cs)
  note c = Cons.prems(5) [THEN bspec, of c, simplified, unfolded chunk_ok_def]
  have "stage S G s_chunk_size_start w u (fst c @ CRLF) (snd c @ CRLF @ chunks_text cs @ q) x"
    by (rule stage_split [OF Cons.prems(1,4)]) (use c in \<open>simp_all add: chunks_text_def chunk_text_def CRLF_def\<close>)
  from exec_size_line [OF this Cons.prems(2-4)] c
  have "reaches G x (\<lambda>y. \<not> upgrade (parser y) \<and> l_nread y = 0 \<and>
      stage S G s_chunk_data (w\<lparr>h_length := length (snd c)\<rparr>) u [] (snd c @ CRLF @ chunks_text cs @ q) y)"
    by simp
  then have "reaches G x (\<lambda>y. stage S G s_chunk_size_start (w\<lparr>h_length := 0\<rparr>) (act (E_body (snd c)) u) [] (chunks_text cs @ q) y \<and>
      \<not> upgrade (parser y) \<and> l_nread y = 0)"
    by (rule reaches_trans) (elim conjE, drule exec_chunk_data, use c Cons.prems(2) in \<open>simp_all add: ULLONG_MAX_def\<close>)
  then show ?case
  proof (rule reaches_trans)
    fix y
    assume y: "stage S G s_chunk_size_start (w\<lparr>h_length := 0\<rparr>) (act (E_body (snd c)) u) [] (chunks_text cs @ q) y \<and>
      \<not> upgrade (parser y) \<and> l_nread y = 0"
    show "reaches G y (\<lambda>y. stage S G (ready w) (with_flag F_TRAILING (w\<lparr>h_length := 0\<rparr>))
        (act (E_complete (h_method w)) (fold act (chunks_events (c # cs)) u)) [] q y \<and> l_nread y = 2)"
      using Cons.IH [of "w\<lparr>h_length := 0\<rparr>" "act (E_body (snd c)) u" y] y Cons.prems(2,5) by (simp add: chunks_events_def ready_def)
  qed
qed

end

subsection \<open>Whole messages\<close>

text \<open>The lines of a message with the header \<open>h\<close> that announces chunks, and its events after the first line.\<close>

definition chunked_lines :: "header list \<Rightarrow> header \<Rightarrow> string" where
  "chunked_lines hs h = concat (map header_line hs) @ header_line h @ CRLF"

definition chunked_events :: "header list \<Rightarrow> header \<Rightarrow> chunk list \<Rightarrow> http_method \<Rightarrow> http_event list" where
  "chunked_events hs h cs m = concat (map header_events (hs @ [h])) @ [E_headers] @ chunks_events cs @ [E_complete m]"

definition chunked_request_head :: "http_method \<Rightarrow> string \<Rightarrow> header list \<Rightarrow> header \<Rightarrow> string" where
  "chunked_request_head m url hs h = method_string m @ '' '' @ url @ '' HTTP/1.1'' @ CRLF @ chunked_lines hs h"

definition chunked_response_head :: "string \<Rightarrow> string \<Rightarrow> header list \<Rightarrow> header \<Rightarrow> string" where
  "chunked_response_head sc reason hs h = ''HTTP/1.1 '' @ sc @ '' '' @ reason @ CRLF @ chunked_lines hs h"

context chunk_client
begin

lemma exec_chunked_message:
  assumes st: "stage S G s_header_field_start w u (chunked_lines hs h) (chunks_text cs @ q) x"
    and w: "h_method w \<noteq> HTTP_CONNECT" "h_major w = 1" "h_minor w = 1" "\<not> h_te w" "h_flags w = 0"
    and r: "\<forall>h\<in>set hs. plain_header h" "te_header h" "\<forall>c\<in>set cs. chunk_ok (max_header_size G) c" "3 \<le> max_header_size G"
  shows "reaches G x (\<lambda>y. \<exists>w'. stage S G (ready w) w' (fold act (chunked_events hs h cs (h_method w)) u) [] q y \<and> l_nread y = 2)"
proof -
  let ?w = "with_flag F_CHUNKED (w\<lparr>h_te := True\<rparr>)" and ?u = "fold act (concat (map header_events (hs @ [h]))) u"
  have C: "chunked ?w" "ready ?w = ready w" using w by (simp_all add: chunked_def ready_def)
  obtain c p where c: "header_line h @ CRLF = c # p" "c \<noteq> CHR '' ''" "c \<noteq> TAB"
  proof -
    obtain d ds where "fst h = d # ds" "TOKEN d = CHR ''t''" using r(2) by (cases "fst h") (auto simp: te_header_def)
    then show ?thesis
      using that first_token [of "[d]"] by (auto simp: header_line_def)
  qed
  have "stage S G s_header_field_start w u (concat (map header_line hs) @ c # p) (chunks_text cs @ q) x"
    using st by (simp add: chunked_lines_def flip: c(1))
  then have "reaches G x (stage S G s_header_field_start w (fold act (concat (map header_events hs)) u) (c # p) (chunks_text cs @ q))"
    by (rule exec_plain_lines) (use w r c in simp_all)
  then have "reaches G x (stage S G s_header_field_start ?w ?u CRLF (chunks_text cs @ q))"
    unfolding c(1) [symmetric] CRLF_def
    by (rule reaches_trans) (drule exec_te_header, use w r in simp_all)
  then have "reaches G x (\<lambda>y. stage S G s_chunk_size_start ?w (act E_headers ?u) [] (chunks_text cs @ q) y \<and> \<not> upgrade (parser y) \<and> l_nread y = 0)"
    by (rule reaches_trans) (rule exec_chunked_end, use C in simp_all)
  then show ?thesis
  proof (rule reaches_trans)
    fix y
    assume y: "stage S G s_chunk_size_start ?w (act E_headers ?u) [] (chunks_text cs @ q) y \<and> \<not> upgrade (parser y) \<and> l_nread y = 0"
    then have "reaches G y (\<lambda>y. stage S G (ready ?w) (with_flag F_TRAILING (?w\<lparr>h_length := 0\<rparr>))
        (act (E_complete (h_method ?w)) (fold act (chunks_events cs) (act E_headers ?u))) [] q y \<and> l_nread y = 2)"
      by (intro exec_chunks) (use C r in simp_all)
    then show "reaches G y (\<lambda>y. \<exists>w'. stage S G (ready w) w' (fold act (chunked_events hs h cs (h_method w)) u) [] q y \<and> l_nread y = 2)"
      by (rule reaches_trans) (auto simp: C(2) chunked_events_def intro!: reaches_refl)
  qed
qed

lemma chunked_result:
  assumes "reaches G x (\<lambda>y. \<exists>w'. stage S G s w' u [] [] y \<and> l_nread y = 2)"
  shows "\<exists>y. exec_bytes G x = Some (Ret (length (data G)) y) \<and> http_errno (parser y) = HPE_OK \<and> state (parser y) = s \<and> udata y = u"
proof -
  obtain y w' where y: "exec_bytes G x = exec_bytes G y" "stage S G s w' u [] [] y"
    using assms by (auto simp: reaches_def)
  have "exec_bytes G x = Some (return (length (data G)) y)" using y(1) exec_finish [OF y(2)] by simp
  then show ?thesis
    using stageD [OF y(2)]
    by (intro exI [of _ "upd (\<lambda>ps. ps\<lparr>nread := l_nread y, state := p_state y\<rparr>) y"]) (simp add: return_def)
qed

lemma chunked_request_run:
  assumes ps: "awaits_request ps" and limit: "limit < 2 ^ 32" "length (chunked_request_head m url hs h) \<le> limit"
    and r: "m \<noteq> HTTP_CONNECT" "plain_url url" "\<forall>h\<in>set hs. plain_header h" "te_header h" "\<forall>c\<in>set cs. chunk_ok limit c"
      "state ps = s_start_req_or_res \<Longrightarrow> m \<noteq> HTTP_HEAD"
  shows "\<exists>x. http_parser_execute S limit ps u (chunked_request_head m url hs h @ chunks_text cs) =
      Some (Ret (length (chunked_request_head m url hs h @ chunks_text cs)) x) \<and>
    http_errno (parser x) = HPE_OK \<and> state (parser x) = s_start_req \<and>
    udata x = fold act ([E_begin, E_url url] @ chunked_events hs h cs m) u"
proof -
  let ?d = "chunked_request_head m url hs h @ chunks_text cs"
  let ?G = "run_env_of S limit ps ?d" and ?x = "start_run ps u"
  let ?w = "with_version (begin_head HTTP_REQUEST (head_of ps)\<lparr>h_method := m\<rparr>)"
  have P: "http_errno ps = HPE_OK" "nread ps = 0" "\<not> lenient_http_headers ps" "state ps \<in> {s_start_req, s_start_res, s_start_req_or_res}"
    "state ps = s_start_req \<and> ptype ps = HTTP_REQUEST \<or> state ps = s_start_req_or_res"
    using ps by (auto simp: awaits_request_def)
  have D: "?d \<noteq> []" by (simp add: chunked_request_head_def)
  note st = stage_start [OF P(1-3) limit(1) P(4) D, of u]
  have "stage S ?G (state ps) (head_of ps) u (chunked_request_head m url hs h) (chunks_text cs @ []) ?x"
    by (rule stage_split [OF st(1,2)]) (use limit(2) in simp_all)
  then have "reaches ?G ?x (stage S ?G s_header_field_start ?w (act (E_url url) (act E_begin u)) (chunked_lines hs h) (chunks_text cs @ []))"
    by (intro exec_request_line) (use r P(5) in \<open>auto simp: chunked_request_head_def head_of_def\<close>)
  then have "reaches ?G ?x (\<lambda>y. \<exists>w'. stage S ?G s_start_req w' (fold act ([E_begin, E_url url] @ chunked_events hs h cs m) u) [] [] y \<and> l_nread y = 2)"
  proof (rule reaches_trans)
    fix y
    assume y: "stage S ?G s_header_field_start ?w (act (E_url url) (act E_begin u)) (chunked_lines hs h) (chunks_text cs @ []) y"
    have "3 \<le> limit" using limit(2) by (simp add: chunked_request_head_def CRLF_def)
    then show "reaches ?G y (\<lambda>y. \<exists>w'. stage S ?G s_start_req w' (fold act ([E_begin, E_url url] @ chunked_events hs h cs m) u) [] [] y \<and> l_nread y = 2)"
      using exec_chunked_message [OF y] r by (simp add: with_version_def begin_head_def ready_def)
  qed
  from chunked_result [OF this] show ?thesis unfolding st(3) by simp
qed

lemma chunked_response_run:
  assumes ps: "awaits_response ps" and limit: "limit < 2 ^ 32" "length (chunked_response_head sc reason hs h) \<le> limit"
    and r: "status_text sc" "reason \<noteq> []" "\<forall>c\<in>set reason. c \<noteq> CR \<and> c \<noteq> LF" "\<forall>h\<in>set hs. plain_header h" "te_header h"
      "\<forall>c\<in>set cs. chunk_ok limit c"
  shows "\<exists>x. http_parser_execute S limit ps u (chunked_response_head sc reason hs h @ chunks_text cs) =
      Some (Ret (length (chunked_response_head sc reason hs h @ chunks_text cs)) x) \<and>
    http_errno (parser x) = HPE_OK \<and> state (parser x) = s_start_res \<and>
    udata x = fold act ([E_begin, E_status (digits_value 0 sc) reason] @ chunked_events hs h cs (method ps)) u"
proof -
  let ?d = "chunked_response_head sc reason hs h @ chunks_text cs"
  let ?G = "run_env_of S limit ps ?d" and ?x = "start_run ps u"
  let ?w = "with_version (begin_head HTTP_RESPONSE (head_of ps))\<lparr>h_status := digits_value 0 sc\<rparr>"
  let ?u = "act (E_status (digits_value 0 sc) reason) (act E_begin u)"
  have P: "http_errno ps = HPE_OK" "nread ps = 0" "\<not> lenient_http_headers ps" "state ps \<in> {s_start_req, s_start_res, s_start_req_or_res}"
    "state ps = s_start_res \<and> ptype ps = HTTP_RESPONSE \<or> state ps = s_start_req_or_res" "method ps \<noteq> HTTP_CONNECT"
    using ps by (auto simp: awaits_response_def)
  have D: "?d \<noteq> []" by (simp add: chunked_response_head_def)
  note st = stage_start [OF P(1-3) limit(1) P(4) D, of u]
  have "stage S ?G (state ps) (head_of ps) u (chunked_response_head sc reason hs h) (chunks_text cs @ []) ?x"
    by (rule stage_split [OF st(1,2)]) (use limit(2) in simp_all)
  then have "reaches ?G ?x (stage S ?G s_header_field_start ?w ?u (chunked_lines hs h) (chunks_text cs @ []))"
    by (intro exec_status_line) (use r P(5) in \<open>auto simp: chunked_response_head_def head_of_def\<close>)
  then have "reaches ?G ?x (\<lambda>y. \<exists>w'. stage S ?G s_start_res w'
      (fold act ([E_begin, E_status (digits_value 0 sc) reason] @ chunked_events hs h cs (method ps)) u) [] [] y \<and> l_nread y = 2)"
  proof (rule reaches_trans)
    fix y
    assume y: "stage S ?G s_header_field_start ?w ?u (chunked_lines hs h) (chunks_text cs @ []) y"
    have "3 \<le> limit" using limit(2) by (simp add: chunked_response_head_def CRLF_def)
    then show "reaches ?G y (\<lambda>y. \<exists>w'. stage S ?G s_start_res w'
        (fold act ([E_begin, E_status (digits_value 0 sc) reason] @ chunked_events hs h cs (method ps)) u) [] [] y \<and> l_nread y = 2)"
      using exec_chunked_message [OF y] r P(6) by (simp add: with_version_def begin_head_def ready_def head_of_def)
  qed
  from chunked_result [OF this] show ?thesis unfolding st(3) by simp
qed

end

subsection \<open>A client that records events\<close>

interpretation recorded_chunks: chunk_client recorder "\<lambda>e u. u @ [e]"
  by unfold_locales (simp_all add: notified_def recorder_def http_parser_settings_init_def)

text \<open>C23: Chunked requests are parsed back. A request with any number of plain headers and, in any case of
  letters, \<open>Transfer-Encoding: chunked\<close>, followed by any number of chunks, with their sizes in hexadecimal
  of either case and with any leading zeros, and the last chunk, is taken whole and without an error; the
  callbacks get the parts that were printed and the data of each chunk, in order; and the parser then
  awaits a request.\<close>
theorem chunked_parsed_back:
  assumes "awaits_request ps" "limit < 2 ^ 32" "length (chunked_request_head m url hs h) \<le> limit"
    and "m \<noteq> HTTP_CONNECT" "plain_url url" "\<forall>h\<in>set hs. plain_header h" "te_header h" "\<forall>c\<in>set cs. chunk_ok limit c"
    and "state ps = s_start_req_or_res \<Longrightarrow> m \<noteq> HTTP_HEAD"
  shows "\<exists>x. http_parser_execute recorder limit ps es (chunked_request_head m url hs h @ chunks_text cs) =
      Some (Ret (length (chunked_request_head m url hs h @ chunks_text cs)) x) \<and>
    http_errno (parser x) = HPE_OK \<and> state (parser x) = s_start_req \<and>
    udata x = es @ [E_begin, E_url url] @ chunked_events hs h cs m"
  using recorded_chunks.chunked_request_run [OF assms, of es] by (simp add: fold_snoc)

definition sample_te :: header where
  "sample_te = (''TRANSFER-encoding'', ''Chunked'')"

lemma sample_te_header: "te_header sample_te"
  by (simp add: te_header_def sample_te_def value_text_def IS_HEADER_CHAR_def TOKEN_def STRICT_TOKEN_def tokens_def char_of_def bit_0)

definition sample_chunks :: "chunk list" where
  "sample_chunks = [(''3'', ''abc''), (''00b'', ''hello world'')]"

lemma sample_chunks_ok: "\<forall>c\<in>set sample_chunks. chunk_ok 81920 c"
  by (simp add: sample_chunks_def chunk_ok_def IS_HEX_def IS_NUM_def hex_digit_def)

lemma sample_te_length: "length (concat (map header_line [(''Host'', ''b'')])) + length (header_line sample_te) \<le> 100"
  by (simp add: sample_te_def header_line_def CRLF_def)

lemma chunked_parsed_back_witness:
  "\<exists>x. http_parser_execute recorder 81920 (http_parser_init HTTP_BOTH) []
      (chunked_request_head HTTP_POST ''/a'' [(''Host'', ''b'')] sample_te @ chunks_text sample_chunks) =
      Some (Ret (length (chunked_request_head HTTP_POST ''/a'' [(''Host'', ''b'')] sample_te @ chunks_text sample_chunks)) x) \<and>
    http_errno (parser x) = HPE_OK \<and> state (parser x) = s_start_req \<and>
    udata x = [] @ [E_begin, E_url ''/a''] @ chunked_events [(''Host'', ''b'')] sample_te sample_chunks HTTP_POST"
proof (rule chunked_parsed_back [OF awaits_init(1)])
  show "plain_url ''/a''" using sample_plain(1) [of HTTP_POST None] by (simp add: plain_request_def sample_request_def)
  show "length (chunked_request_head HTTP_POST ''/a'' [(''Host'', ''b'')] sample_te) \<le> 81920"
    using sample_te_length by (simp add: chunked_request_head_def chunked_lines_def CRLF_def method_strings_def)
qed (use sample_header sample_te_header sample_chunks_ok in simp_all)

end
