(* ===== verification/StdMap.thy ===== *)
theory StdMap
  imports HttpChunked "HOL-Library.List_Lexorder" "HOL-Library.Char_ord"
begin

section \<open>Ordered maps and strings of the C++ library\<close>

text \<open>
  What the C++ classes use of \<open>std::map\<close> and \<open>std::string\<close>. A map is the list of its entries in the
  order of an iteration, by key; keys are strings compared byte by byte. The contract that the classes
  rely on is a locale, interpreted on these lists.
\<close>

subsection \<open>The contract of a map\<close>

locale ordered_map =
  fixes empty :: 'm and put :: "'k::linorder \<Rightarrow> 'v \<Rightarrow> 'm \<Rightarrow> 'm" and find :: "'m \<Rightarrow> 'k \<Rightarrow> 'v option"
    and entries :: "'m \<Rightarrow> ('k \<times> 'v) list" and invar :: "'m \<Rightarrow> bool"
  assumes invar_empty: "invar empty" and invar_put: "invar m \<Longrightarrow> invar (put k v m)"
    and find_empty: "find empty k = None"
    and find_put: "invar m \<Longrightarrow> find (put k v m) k' = (if k' = k then Some v else find m k')"
    and entries_sorted: "invar m \<Longrightarrow> sorted_wrt (<) (map fst (entries m))"
    and entries_find: "invar m \<Longrightarrow> (k, v) \<in> set (entries m) \<longleftrightarrow> find m k = Some v"
begin

definition put_all :: "('k \<times> 'v) list \<Rightarrow> 'm \<Rightarrow> 'm" where
  "put_all kvs m = fold (\<lambda>(k, v). put k v) kvs m"

lemma invar_put_all: "invar m \<Longrightarrow> invar (put_all kvs m)"
  by (induction kvs arbitrary: m) (auto simp: put_all_def invar_put)

lemma find_put_all:
  "invar m \<Longrightarrow> find (put_all kvs m) k = (case map_of (rev kvs) k of None \<Rightarrow> find m k | Some v \<Rightarrow> Some v)"
proof (induction kvs arbitrary: m)
  case (Cons kv kvs)
  then show ?case
    by (cases kv) (auto simp: put_all_def find_put invar_put map_add_def split: option.split)
qed (simp add: put_all_def)

text \<open>Two maps with the same lookups iterate in the same way.\<close>

lemma entries_unique:
  assumes "invar m" "invar m'" "\<And>k. find m k = find m' k"
  shows "entries m = entries m'"
proof -
  have S: "set (entries m) = set (entries m')" using assms entries_find by auto
  have D: "distinct (map fst (entries m))" "distinct (map fst (entries m'))" "sorted (map fst (entries m))" "sorted (map fst (entries m'))"
    using entries_sorted assms(1,2) by (auto simp: strict_sorted_iff)
  have "map fst (entries m) = map fst (entries m')"
    using D S by (intro sorted_distinct_set_unique) auto
  moreover have "map snd (entries m) = map snd (entries m')"
  proof (rule nth_equalityI)
    have L: "length (entries m) = length (entries m')" using calculation by (metis length_map)
    then show "length (map snd (entries m)) = length (map snd (entries m'))" by simp
    fix i
    assume "i < length (map snd (entries m))"
    then have i: "i < length (entries m)" "i < length (entries m')" using L by simp_all
    have K: "fst (entries m ! i) = fst (entries m' ! i)" using calculation i by (metis nth_map)
    have "find m (fst (entries m ! i)) = Some (snd (entries m ! i))"
      using entries_find [OF assms(1)] nth_mem [OF i(1)] by (metis prod.collapse)
    moreover have "find m' (fst (entries m' ! i)) = Some (snd (entries m' ! i))"
      using entries_find [OF assms(2)] nth_mem [OF i(2)] by (metis prod.collapse)
    ultimately show "map snd (entries m) ! i = map snd (entries m') ! i"
      using assms(3) K i by simp
  qed
  ultimately show ?thesis by (metis zip_map_fst_snd)
qed

end

subsection \<open>Maps as sorted lists\<close>

fun map_put :: "'k::linorder \<Rightarrow> 'v \<Rightarrow> ('k \<times> 'v) list \<Rightarrow> ('k \<times> 'v) list" where
  "map_put k v [] = [(k, v)]"
| "map_put k v ((l, w) # m) =
     (if k < l then (k, v) # (l, w) # m else if k = l then (k, v) # m else (l, w) # map_put k v m)"

definition sorted_map :: "('k::linorder \<times> 'v) list \<Rightarrow> bool" where
  "sorted_map m \<longleftrightarrow> sorted_wrt (<) (map fst m)"

lemma map_put_keys: "fst ` set (map_put k v m) = insert k (fst ` set m)"
  by (induction k v m rule: map_put.induct) (simp_all add: insert_commute)

lemma map_put_sorted: "sorted_map m \<Longrightarrow> sorted_map (map_put k v m)"
proof (induction m)
  case (Cons e m)
  obtain l w where e: "e = (l, w)" by (cases e)
  show ?case using Cons map_put_keys [of k v m] by (auto simp: sorted_map_def e)
qed (simp add: sorted_map_def)

lemma map_of_put: "map_of (map_put k v m) = (map_of m)(k \<mapsto> v)"
  by (induction m) (auto simp: fun_eq_iff)

interpretation std: ordered_map "[]" map_put map_of "\<lambda>m. m" sorted_map
proof
  show "((k, v) \<in> set m) = (map_of m k = Some v)" if "sorted_map m" for m :: "('k::linorder \<times> 'v) list" and k v
    using that by (intro map_of_eq_Some_iff [symmetric]) (simp add: sorted_map_def strict_sorted_iff)
qed (simp_all add: map_put_sorted map_of_put, simp_all add: sorted_map_def)

subsection \<open>Strings\<close>

text \<open>\<open>c_str\<close> ends at the first zero; \<open>strcasecmp\<close> ignores the case of ASCII letters.\<close>

definition c_str :: "string \<Rightarrow> string" where
  "c_str s = takeWhile (\<lambda>c. c \<noteq> NUL) s"

definition to_lower :: "char \<Rightarrow> char" where
  "to_lower c = (if code CHR ''A'' \<le> code c \<and> code c \<le> code CHR ''Z'' then char_of (code c + 32) else c)"

definition strcaseeq :: "string \<Rightarrow> string \<Rightarrow> bool" where
  "strcaseeq s t \<longleftrightarrow> map to_lower (c_str s) = map to_lower (c_str t)"

text \<open>\<open>%d\<close> of a length: the low 32 bits as a signed number.\<close>

definition fmt_d :: "nat \<Rightarrow> string" where
  "fmt_d n = (let i = sint (of_nat n :: 32 word) in if i < 0 then CHR ''-'' # dec (nat (- i)) else dec (nat i))"

lemma fmt_d_small: "n < 2 ^ 31 \<Longrightarrow> fmt_d n = dec n"
  by (simp add: fmt_d_def Let_def sint_uint unsigned_of_nat take_bit_nat_eq_self signed_take_bit_eq_if_positive bit_iff_odd
      signed_take_bit_int_eq_self take_bit_int_eq_self)

end
