(* ===== verification/HttpObjects.thy ===== *)
theory HttpObjects
  imports StdMap
begin

section \<open>Messages, routes and the parser object: HttpMessage, HttpRouter, HttpParser\<close>

text \<open>
  The C++ classes around the HTTP parser: requests and responses, the table of routes, and the object
  whose callbacks collect a message. Members that a constructor leaves uninitialised have arbitrary
  values. The parser object points to a request and a response; they are part of its state here, since
  nothing else changes them while a message is read. The C structure \<open>http_parser\<close> of the object is
  passed beside it, as the callbacks get it.
\<close>

subsection \<open>Requests and responses\<close>

record url_st =
  u_scheme :: string
  u_host :: string
  u_port :: int
  u_path :: string

record HttpRequest =
  req_url :: string
  req_u :: url_st
  req_method :: http_method
  req_headers :: "header list"
  req_body :: string
  req_status_code :: nat
  req_retry :: int
  req_timeout :: int

record HttpResponse =
  resp_headers :: "header list"
  resp_body :: string
  resp_status_code :: nat

definition HttpRequest_new :: "HttpRequest \<Rightarrow> HttpRequest" where
  "HttpRequest_new mem = mem\<lparr>req_url := [], req_headers := [], req_body := []\<rparr>"

definition HttpResponse_new :: "HttpResponse \<Rightarrow> HttpResponse" where
  "HttpResponse_new mem = mem\<lparr>resp_headers := [], resp_body := []\<rparr>"

definition HttpResponse_dump :: "string \<Rightarrow> HttpResponse \<Rightarrow> string" where
  "HttpResponse_dump prfx resp =
     prfx @ concat (map (\<lambda>it. fst it @ '': '' @ snd it @ CRLF) (resp_headers resp)) @
     ''Content-Length: '' @ fmt_d (length (resp_body resp)) @ CRLF @ CRLF @ resp_body resp"

definition HTTP_HEADER :: string where
  "HTTP_HEADER = ''HTTP/1.1 200 OK'' @ CRLF"

definition WS_HEADER :: string where
  "WS_HEADER = ''HTTP/1.1 101 Switching Protocols'' @ CRLF"

subsection \<open>Routes\<close>

type_synonym handle_func = "HttpRequest \<Rightarrow> HttpResponse \<Rightarrow> HttpRequest \<times> HttpResponse"
type_synonym HttpRouter = "(string \<times> handle_func) list"

definition addRouter :: "string \<Rightarrow> handle_func \<Rightarrow> HttpRouter \<Rightarrow> HttpRouter" where
  "addRouter path func m_path2func = map_put (c_str path) func m_path2func"

definition HttpRouter_get :: "string \<Rightarrow> handle_func \<Rightarrow> HttpRouter \<Rightarrow> HttpRouter" where
  "HttpRouter_get path func R = addRouter (''GET_'' @ c_str path) func R"

definition HttpRouter_post :: "string \<Rightarrow> handle_func \<Rightarrow> HttpRouter \<Rightarrow> HttpRouter" where
  "HttpRouter_post path func R = addRouter (''POST_'' @ c_str path) func R"

definition HttpRouter_put :: "string \<Rightarrow> handle_func \<Rightarrow> HttpRouter \<Rightarrow> HttpRouter" where
  "HttpRouter_put path func R = addRouter (''PUT_'' @ c_str path) func R"

definition HttpRouter_del :: "string \<Rightarrow> handle_func \<Rightarrow> HttpRouter \<Rightarrow> HttpRouter" where
  "HttpRouter_del path func R = addRouter (''DELETE_'' @ c_str path) func R"

definition getHandleFunc :: "http_method \<Rightarrow> string \<Rightarrow> HttpRouter \<Rightarrow> handle_func option" where
  "getHandleFunc m path R =
     (if m = HTTP_GET then map_of R (''GET_'' @ c_str path)
      else if m = HTTP_POST then map_of R (''POST_'' @ c_str path)
      else if m = HTTP_PUT then map_of R (''PUT_'' @ c_str path)
      else if m = HTTP_DELETE then map_of R (''DELETE_'' @ c_str path)
      else None)"

subsection \<open>The parser object\<close>

datatype http_parser_state = HP_START_REQ_OR_RES | HP_MESSAGE_BEGIN | HP_URL | HP_STATUS | HP_HEADER_FIELD | HP_HEADER_VALUE
  | HP_HEADERS_COMPLETE | HP_CHUNK_HEADER | HP_BODY | HP_CHUNK_COMPLETE | HP_MESSAGE_COMPLETE | HP_ERROR

datatype HTTP_PARSER_TYPE = HTTP_PARSER_REQUEST | HTTP_PARSER_RESPONSE

record HttpParser =
  hp_url :: string
  hp_method :: http_method
  hp_header_field :: string
  hp_header_value :: string
  hp_headers :: "header list"
  hp_req :: HttpRequest
  hp_resp :: HttpResponse
  hp_type :: HTTP_PARSER_TYPE
  hp_state :: http_parser_state

definition HttpParser_new :: "HTTP_PARSER_TYPE \<Rightarrow> HttpParser \<Rightarrow> HttpParser" where
  "HttpParser_new t mem = mem\<lparr>hp_url := [], hp_header_field := [], hp_header_value := [], hp_headers := [],
     hp_type := t, hp_state := HP_START_REQ_OR_RES\<rparr>"

definition handle_header :: "HttpParser \<Rightarrow> HttpParser" where
  "handle_header hp =
     (if hp_header_field hp \<noteq> [] then
        let f = hp_header_field hp; v = hp_header_value hp;
            hp = (case hp_type hp of
                    HTTP_PARSER_REQUEST \<Rightarrow> hp\<lparr>hp_req := (hp_req hp)\<lparr>req_headers := map_put f v (req_headers (hp_req hp))\<rparr>\<rparr>
                  | HTTP_PARSER_RESPONSE \<Rightarrow> hp\<lparr>hp_resp := (hp_resp hp)\<lparr>resp_headers := map_put f v (resp_headers (hp_resp hp))\<rparr>\<rparr>)
        in hp\<lparr>hp_headers := map_put f v (hp_headers hp), hp_header_field := [], hp_header_value := []\<rparr>
      else hp)"

definition hp_on_url :: "HttpParser http_data_cb" where
  "hp_on_url ps at hp = (0, ps, hp\<lparr>hp_url := hp_url hp @ at, hp_state := HP_URL\<rparr>)"

definition hp_on_status :: "HttpParser http_data_cb" where
  "hp_on_status ps at hp =
     (let hp = hp\<lparr>hp_state := HP_STATUS\<rparr>
      in (0, ps, case hp_type hp of
            HTTP_PARSER_REQUEST \<Rightarrow> hp\<lparr>hp_req := (hp_req hp)\<lparr>req_status_code := status_code ps\<rparr>\<rparr>
          | HTTP_PARSER_RESPONSE \<Rightarrow> hp\<lparr>hp_resp := (hp_resp hp)\<lparr>resp_status_code := status_code ps\<rparr>\<rparr>))"

definition hp_on_header_field :: "HttpParser http_data_cb" where
  "hp_on_header_field ps at hp =
     (let hp = handle_header hp in (0, ps, hp\<lparr>hp_header_field := hp_header_field hp @ at, hp_state := HP_HEADER_FIELD\<rparr>))"

definition hp_on_header_value :: "HttpParser http_data_cb" where
  "hp_on_header_value ps at hp = (0, ps, hp\<lparr>hp_header_value := hp_header_value hp @ at, hp_state := HP_HEADER_VALUE\<rparr>)"

definition hp_on_body :: "HttpParser http_data_cb" where
  "hp_on_body ps at hp =
     (let hp = (case hp_type hp of
            HTTP_PARSER_REQUEST \<Rightarrow> hp\<lparr>hp_req := (hp_req hp)\<lparr>req_body := req_body (hp_req hp) @ at\<rparr>\<rparr>
          | HTTP_PARSER_RESPONSE \<Rightarrow> hp\<lparr>hp_resp := (hp_resp hp)\<lparr>resp_body := resp_body (hp_resp hp) @ at\<rparr>\<rparr>)
      in (0, ps, hp\<lparr>hp_state := HP_BODY\<rparr>))"

definition hp_on_message_begin :: "HttpParser http_cb" where
  "hp_on_message_begin ps hp = (0, ps, hp\<lparr>hp_state := HP_MESSAGE_BEGIN\<rparr>)"

definition hp_on_headers_complete :: "HttpParser http_cb" where
  "hp_on_headers_complete ps hp = (0, ps, (handle_header hp)\<lparr>hp_state := HP_MESSAGE_COMPLETE\<rparr>)"

definition hp_on_message_complete :: "HttpParser http_cb" where
  "hp_on_message_complete ps hp = (0, ps, hp\<lparr>hp_state := HP_MESSAGE_COMPLETE, hp_method := method ps\<rparr>)"

definition hp_on_chunk :: "HttpParser http_cb" where
  "hp_on_chunk ps hp = (0, ps, hp)"

definition HttpParser_cbs :: "HttpParser http_parser_settings" where
  "HttpParser_cbs = \<lparr>on_message_begin = Some hp_on_message_begin, on_url = Some hp_on_url, on_status = Some hp_on_status,
     on_header_field = Some hp_on_header_field, on_header_value = Some hp_on_header_value,
     on_headers_complete = Some hp_on_headers_complete, on_body = Some hp_on_body,
     on_message_complete = Some hp_on_message_complete, on_chunk_header = Some hp_on_chunk,
     on_chunk_complete = Some hp_on_chunk\<rparr>"

definition HTTP_MAX_HEADER_SIZE :: nat where
  "HTTP_MAX_HEADER_SIZE = 80 * 1024"

text \<open>The number of bytes taken, or \<open>None\<close> for a call that does not return normally.\<close>

definition HttpParser_feedRecvData :: "http_parser \<Rightarrow> HttpParser \<Rightarrow> string \<Rightarrow> (nat \<times> http_parser \<times> HttpParser) option" where
  "HttpParser_feedRecvData ps hp d =
     (case http_parser_execute HttpParser_cbs HTTP_MAX_HEADER_SIZE ps hp d of
        Some (Ret n x) \<Rightarrow> Some (n, parser x, udata x) | _ \<Rightarrow> None)"

definition isComplete :: "HttpParser \<Rightarrow> bool" where
  "isComplete hp \<longleftrightarrow> hp_state hp = HP_MESSAGE_COMPLETE"

subsection \<open>The parser object as a client\<close>

fun hp_act :: "http_event \<Rightarrow> HttpParser \<Rightarrow> HttpParser" where
  "hp_act E_begin hp = hp\<lparr>hp_state := HP_MESSAGE_BEGIN\<rparr>"
| "hp_act (E_url t) hp = hp\<lparr>hp_url := hp_url hp @ t, hp_state := HP_URL\<rparr>"
| "hp_act (E_status c t) hp =
     (case hp_type hp of
        HTTP_PARSER_REQUEST \<Rightarrow> hp\<lparr>hp_state := HP_STATUS, hp_req := (hp_req hp)\<lparr>req_status_code := c\<rparr>\<rparr>
      | HTTP_PARSER_RESPONSE \<Rightarrow> hp\<lparr>hp_state := HP_STATUS, hp_resp := (hp_resp hp)\<lparr>resp_status_code := c\<rparr>\<rparr>)"
| "hp_act (E_field t) hp =
     (let hp = handle_header hp in hp\<lparr>hp_header_field := hp_header_field hp @ t, hp_state := HP_HEADER_FIELD\<rparr>)"
| "hp_act (E_value t) hp = hp\<lparr>hp_header_value := hp_header_value hp @ t, hp_state := HP_HEADER_VALUE\<rparr>"
| "hp_act E_headers hp = (handle_header hp)\<lparr>hp_state := HP_MESSAGE_COMPLETE\<rparr>"
| "hp_act (E_body t) hp =
     (case hp_type hp of
        HTTP_PARSER_REQUEST \<Rightarrow> hp\<lparr>hp_req := (hp_req hp)\<lparr>req_body := req_body (hp_req hp) @ t\<rparr>, hp_state := HP_BODY\<rparr>
      | HTTP_PARSER_RESPONSE \<Rightarrow> hp\<lparr>hp_resp := (hp_resp hp)\<lparr>resp_body := resp_body (hp_resp hp) @ t\<rparr>, hp_state := HP_BODY\<rparr>)"
| "hp_act (E_complete m) hp = hp\<lparr>hp_state := HP_MESSAGE_COMPLETE, hp_method := m\<rparr>"

lemmas hp_callbacks = hp_on_url_def hp_on_status_def hp_on_header_field_def hp_on_header_value_def hp_on_body_def
  hp_on_message_begin_def hp_on_headers_complete_def hp_on_message_complete_def hp_on_chunk_def

interpretation hp: event_client HttpParser_cbs hp_act
proof
  show "accepts HttpParser_cbs"
    by (simp add: accepts_def accepts_cb_def accepts_data_cb_def all_marks HttpParser_cbs_def hp_callbacks Let_def)
  show "notified_text (data_callback m HttpParser_cbs) ps t u = hp_act (text_event m ps t) u" for m ps t u
    by (cases m) (simp_all add: notified_text_def HttpParser_cbs_def hp_callbacks Let_def split: HTTP_PARSER_TYPE.split)
qed (simp_all add: notified_def HttpParser_cbs_def hp_callbacks)

interpretation hp_callbacks: parser_callbacks "run_env_of HttpParser_cbs limit ps d" for limit ps d
  by unfold_locales (simp add: accepts_keeps hp.S_accepts)

end
