(* ===== verification/HttpCollect.thy ===== *)
theory HttpCollect
  imports HttpObjects
begin

section \<open>What the parser object collects\<close>

text \<open>
  The state of the parser object after the events of a request or of a response, and the runs of
  \<open>feedRecvData\<close> over whole messages, over chunked responses and over a request that arrives in two pieces.
\<close>

subsection \<open>Headers\<close>

abbreviation put_headers :: "header list \<Rightarrow> header list \<Rightarrow> header list" where
  "put_headers \<equiv> std.put_all"

definition message_headers :: "header list \<Rightarrow> string option \<Rightarrow> header list" where
  "message_headers hs b = hs @ (case b of None \<Rightarrow> [] | Some t \<Rightarrow> [length_header t])"

text \<open>No header is half read.\<close>

definition hp_clear :: "HttpParser \<Rightarrow> bool" where
  "hp_clear hp \<longleftrightarrow> hp_header_field hp = [] \<and> hp_header_value hp = []"

definition hp_put :: "header list \<Rightarrow> HttpParser \<Rightarrow> HttpParser" where
  "hp_put hs hp =
     (case hp_type hp of
        HTTP_PARSER_REQUEST \<Rightarrow> hp\<lparr>hp_req := (hp_req hp)\<lparr>req_headers := put_headers hs (req_headers (hp_req hp))\<rparr>,
            hp_headers := put_headers hs (hp_headers hp)\<rparr>
      | HTTP_PARSER_RESPONSE \<Rightarrow> hp\<lparr>hp_resp := (hp_resp hp)\<lparr>resp_headers := put_headers hs (resp_headers (hp_resp hp))\<rparr>,
            hp_headers := put_headers hs (hp_headers hp)\<rparr>)"

lemma hp_put_simps [simp]:
  "hp_type (hp_put hs hp) = hp_type hp" "hp_header_field (hp_put hs hp) = hp_header_field hp"
  "hp_header_value (hp_put hs hp) = hp_header_value hp"
  by (simp_all add: hp_put_def split: HTTP_PARSER_TYPE.split)

lemma put_headers_simps [simp]: "put_headers [] m = m" "put_headers (h # hs) m = put_headers hs (map_put (fst h) (snd h) m)"
  by (simp_all add: std.put_all_def split_beta)

text \<open>With the events of the headers \<open>hs\<close> the object has all of them, the last one still in its buffers.\<close>

lemma hp_lines:
  assumes "hp_clear hp" "\<forall>h\<in>set hs. fst h \<noteq> []"
  shows "handle_header (fold hp_act (concat (map header_events hs)) hp)\<lparr>hp_state := s\<rparr> = (hp_put hs hp)\<lparr>hp_state := s\<rparr>"
proof -
  have "handle_header (fold hp_act (concat (map header_events hs)) hp)\<lparr>hp_state := s\<rparr> = (hp_put hs (handle_header hp))\<lparr>hp_state := s\<rparr>"
    if "hp_header_field hp = [] \<longrightarrow> hp_header_value hp = []" for hp
    using that assms(2)
  proof (induction hs arbitrary: hp)
    case Nil
    then show ?case by (simp add: hp_put_def split: HTTP_PARSER_TYPE.split)
  next
    case (Cons h hs)
    let ?hp = "(handle_header hp)\<lparr>hp_header_field := fst h, hp_header_value := snd h, hp_state := HP_HEADER_VALUE\<rparr>"
    have E: "fold hp_act (header_events h) hp = ?hp"
      using Cons.prems(1) by (cases "hp_header_field hp = []") (simp_all add: header_events_def handle_header_def Let_def)
    have H: "(hp_put hs (handle_header ?hp))\<lparr>hp_state := s\<rparr> = (hp_put (h # hs) (handle_header hp))\<lparr>hp_state := s\<rparr>"
    proof -
      have N: "hp_header_field (handle_header hp) = []" "hp_header_value (handle_header hp) = []"
        using Cons.prems(1) by (simp_all add: handle_header_def Let_def)
      show ?thesis
        using N Cons.prems(2)
        by (cases "handle_header hp"; cases "hp_type (handle_header hp)") (simp_all add: hp_put_def handle_header_def Let_def)
    qed
    have "fold hp_act (concat (map header_events (h # hs))) hp = fold hp_act (concat (map header_events hs)) ?hp"
      using E by simp
    then show ?case using Cons.IH [of ?hp] Cons.prems(2) H by simp
  qed
  from this [of hp] show ?thesis using assms(1) by (simp add: hp_clear_def handle_header_def)
qed

lemma lines_events_headers: "lines_events hs b = concat (map header_events (message_headers hs b))"
  by (simp add: lines_events_def message_headers_def split: option.split)

lemma hp_headers_done:
  assumes "hp_clear hp" "\<forall>h\<in>set hs. fst h \<noteq> []"
  shows "fold hp_act (lines_events hs b @ [E_headers]) hp = (hp_put (message_headers hs b) hp)\<lparr>hp_state := HP_MESSAGE_COMPLETE\<rparr>"
proof -
  have "\<forall>h\<in>set (message_headers hs b). fst h \<noteq> []"
    using assms(2) by (auto simp: message_headers_def length_header_def split: option.splits)
  from hp_lines [OF assms(1) this] show ?thesis by (simp add: lines_events_headers)
qed

subsection \<open>Whole messages\<close>

definition request_into :: "request \<Rightarrow> HttpRequest \<Rightarrow> HttpRequest" where
  "request_into r q = q\<lparr>req_headers := put_headers (message_headers (rq_headers r) (rq_body r)) (req_headers q),
     req_body := req_body q @ body_text (rq_body r)\<rparr>"

definition collected :: "request \<Rightarrow> HttpParser \<Rightarrow> HttpParser" where
  "collected r hp = hp\<lparr>hp_url := hp_url hp @ rq_url r, hp_method := rq_method r,
     hp_headers := put_headers (message_headers (rq_headers r) (rq_body r)) (hp_headers hp),
     hp_req := request_into r (hp_req hp), hp_state := HP_MESSAGE_COMPLETE\<rparr>"

text \<open>After the headers of a request, before its body.\<close>

definition head_collected :: "request \<Rightarrow> HttpParser \<Rightarrow> HttpParser" where
  "head_collected r hp = hp\<lparr>hp_url := hp_url hp @ rq_url r,
     hp_headers := put_headers (message_headers (rq_headers r) (rq_body r)) (hp_headers hp),
     hp_req := (hp_req hp)\<lparr>req_headers := put_headers (message_headers (rq_headers r) (rq_body r)) (req_headers (hp_req hp))\<rparr>,
     hp_state := HP_MESSAGE_COMPLETE\<rparr>"

definition head_events :: "request \<Rightarrow> http_event list" where
  "head_events r = [E_begin, E_url (rq_url r)] @ lines_events (rq_headers r) (rq_body r) @ [E_headers]"

definition hp_idle :: "HttpParser \<Rightarrow> bool" where
  "hp_idle hp \<longleftrightarrow> hp_clear hp \<and> hp_type hp = HTTP_PARSER_REQUEST"

lemma plain_request_names: "plain_request r \<Longrightarrow> \<forall>h\<in>set (rq_headers r). fst h \<noteq> []"
  by (auto simp: plain_request_def plain_header_def)

lemma hp_act_head:
  assumes "hp_idle hp" "\<forall>h\<in>set (rq_headers r). fst h \<noteq> []"
  shows "fold hp_act (head_events r) hp = head_collected r hp"
proof -
  have "hp_clear (hp\<lparr>hp_url := hp_url hp @ rq_url r, hp_state := HP_URL\<rparr>)" using assms(1) by (simp add: hp_idle_def hp_clear_def)
  from hp_headers_done [OF this assms(2), of "rq_body r"] assms(1) show ?thesis
    by (simp add: head_events_def head_collected_def hp_put_def hp_idle_def)
qed

lemma hp_act_body:
  assumes "hp_type hp = HTTP_PARSER_REQUEST"
  shows "fold hp_act (body_events b @ [E_complete m]) hp =
    hp\<lparr>hp_req := (hp_req hp)\<lparr>req_body := req_body (hp_req hp) @ body_text b\<rparr>, hp_state := HP_MESSAGE_COMPLETE, hp_method := m\<rparr>"
  using assms by (simp add: body_events_def)

lemma request_events_split: "request_events r = head_events r @ body_events (rq_body r) @ [E_complete (rq_method r)]"
  by (simp add: request_events_def head_events_def)

lemma hp_act_request:
  assumes "hp_idle hp" "\<forall>h\<in>set (rq_headers r). fst h \<noteq> []"
  shows "fold hp_act (request_events r) hp = collected r hp"
proof -
  have "fold hp_act (request_events r) hp = fold hp_act (body_events (rq_body r) @ [E_complete (rq_method r)]) (head_collected r hp)"
    using hp_act_head [OF assms] by (simp add: request_events_split)
  also have "\<dots> = collected r hp"
    using assms(1) by (subst hp_act_body) (simp_all add: head_collected_def collected_def request_into_def hp_idle_def)
  finally show ?thesis .
qed

lemma collected_idle [simp]: "hp_idle hp \<Longrightarrow> hp_idle (collected r hp)"
  by (simp add: hp_idle_def hp_clear_def collected_def)

lemma feed_request:
  assumes "awaits_request ps" "hp_idle hp" "plain_request r" "length (request_head r) \<le> HTTP_MAX_HEADER_SIZE"
    and "state ps = s_start_req_or_res \<Longrightarrow> rq_method r \<noteq> HTTP_HEAD"
  shows "\<exists>ps'. HttpParser_feedRecvData ps hp (request_text r) = Some (length (request_text r), ps', collected r hp) \<and>
    awaits_request ps' \<and> state ps' = s_start_req"
  using hp.request_run [of ps HTTP_MAX_HEADER_SIZE "[r]" hp] assms hp_act_request [OF assms(2) plain_request_names [OF assms(3)]]
  by (auto simp: HttpParser_feedRecvData_def HTTP_MAX_HEADER_SIZE_def)

subsection \<open>Chunked responses\<close>

interpretation hp_chunks: chunk_client HttpParser_cbs hp_act
  by unfold_locales (simp_all add: notified_def HttpParser_cbs_def hp_on_chunk_def)

definition chunks_data :: "chunk list \<Rightarrow> string" where
  "chunks_data cs = concat (map snd cs)"

text \<open>The status, the headers and the data of all chunks.\<close>

definition chunked_collected :: "nat \<Rightarrow> header list \<Rightarrow> chunk list \<Rightarrow> http_method \<Rightarrow> HttpParser \<Rightarrow> HttpParser" where
  "chunked_collected sc hs cs m hp = hp\<lparr>hp_method := m, hp_headers := put_headers hs (hp_headers hp),
     hp_resp := (hp_resp hp)\<lparr>resp_headers := put_headers hs (resp_headers (hp_resp hp)),
       resp_body := resp_body (hp_resp hp) @ chunks_data cs, resp_status_code := sc\<rparr>,
     hp_state := HP_MESSAGE_COMPLETE\<rparr>"

lemma hp_act_chunks:
  assumes "hp_type hp = HTTP_PARSER_RESPONSE"
  shows "(fold hp_act (chunks_events cs) hp)\<lparr>hp_state := s\<rparr> =
    hp\<lparr>hp_resp := (hp_resp hp)\<lparr>resp_body := resp_body (hp_resp hp) @ chunks_data cs\<rparr>, hp_state := s\<rparr>"
  using assms by (induction cs arbitrary: hp) (simp_all add: chunks_events_def chunks_data_def)

lemma hp_act_chunked:
  assumes "hp_clear hp" "hp_type hp = HTTP_PARSER_RESPONSE" "\<forall>h\<in>set hs. fst h \<noteq> []" "fst h \<noteq> []"
  shows "fold hp_act ([E_begin, E_status sc reason] @ chunked_events hs h cs m) hp = chunked_collected sc (hs @ [h]) cs m hp"
proof -
  let ?s = "hp\<lparr>hp_state := HP_STATUS, hp_resp := (hp_resp hp)\<lparr>resp_status_code := sc\<rparr>\<rparr>"
  let ?h = "(hp_put (hs @ [h]) ?s)\<lparr>hp_state := HP_MESSAGE_COMPLETE\<rparr>"
  have "hp_clear ?s" using assms(1) by (simp add: hp_clear_def)
  from hp_lines [OF this, of "hs @ [h]" HP_MESSAGE_COMPLETE] assms(2-4)
  have "fold hp_act ([E_begin, E_status sc reason] @ concat (map header_events (hs @ [h])) @ [E_headers]) hp = ?h"
    by (simp add: case_HTTP_PARSER_TYPE_def)
  then have "fold hp_act ([E_begin, E_status sc reason] @ chunked_events hs h cs m) hp = fold hp_act (chunks_events cs @ [E_complete m]) ?h"
    by (simp add: chunked_events_def)
  also have "\<dots> = ((fold hp_act (chunks_events cs) ?h)\<lparr>hp_state := HP_MESSAGE_COMPLETE\<rparr>)\<lparr>hp_method := m\<rparr>" by simp
  also have "\<dots> = chunked_collected sc (hs @ [h]) cs m hp"
    by (subst hp_act_chunks) (use assms(2) in \<open>simp_all add: chunked_collected_def hp_put_def\<close>)
  finally show ?thesis .
qed

lemma te_header_named: "te_header h \<Longrightarrow> fst h \<noteq> []"
  by (auto simp: te_header_def)

lemma feed_chunked_response:
  assumes "awaits_response ps" "hp_clear hp" "hp_type hp = HTTP_PARSER_RESPONSE"
    and "length (chunked_response_head sc reason hs h) \<le> HTTP_MAX_HEADER_SIZE"
    and "status_text sc" "reason \<noteq> []" "\<forall>c\<in>set reason. c \<noteq> CR \<and> c \<noteq> LF" "\<forall>h\<in>set hs. plain_header h" "te_header h"
      "\<forall>c\<in>set cs. chunk_ok HTTP_MAX_HEADER_SIZE c"
  shows "\<exists>ps'. HttpParser_feedRecvData ps hp (chunked_response_head sc reason hs h @ chunks_text cs) =
      Some (length (chunked_response_head sc reason hs h @ chunks_text cs), ps',
        chunked_collected (digits_value 0 sc) (hs @ [h]) cs (method ps) hp) \<and>
    http_errno ps' = HPE_OK \<and> state ps' = s_start_res"
proof -
  have "\<forall>h\<in>set hs. fst h \<noteq> []" using assms(8) by (auto simp: plain_header_def)
  note act = hp_act_chunked [OF assms(2,3) this te_header_named [OF assms(9)]]
  have "HTTP_MAX_HEADER_SIZE < 2 ^ 32" by (simp add: HTTP_MAX_HEADER_SIZE_def)
  from hp_chunks.chunked_response_run [OF assms(1) this assms(4-10), of hp] show ?thesis
    unfolding act by (auto simp: HttpParser_feedRecvData_def)
qed

subsection \<open>A request in two pieces\<close>

context event_client
begin

lemma head_run:
  assumes ps: "awaits_request ps" and limit: "limit < 2 ^ 32" "length (request_head r) \<le> limit"
    and r: "plain_request r" "body_text (rq_body r) \<noteq> []" "state ps = s_start_req_or_res \<Longrightarrow> rq_method r \<noteq> HTTP_HEAD"
  shows "\<exists>x. http_parser_execute S limit ps u (request_head r) = Some (Ret (length (request_head r)) x) \<and>
    http_errno (parser x) = HPE_OK \<and> state (parser x) = s_body_identity \<and> nread (parser x) = 0 \<and>
    \<not> upgrade (parser x) \<and> \<not> lenient_http_headers (parser x) \<and> framed (head_of (parser x)) \<and>
    h_type (head_of (parser x)) = HTTP_REQUEST \<and> h_method (head_of (parser x)) = rq_method r \<and>
    h_length (head_of (parser x)) = length (body_text (rq_body r)) \<and>
    udata x = fold act (head_events r) u"
proof -
  let ?d = "request_head r"
  let ?G = "run_env_of S limit ps ?d" and ?x = "start_run ps u"
  have P: "http_errno ps = HPE_OK" "nread ps = 0" "\<not> lenient_http_headers ps" "state ps \<in> {s_start_req, s_start_res, s_start_req_or_res}"
    "state ps = s_start_req \<and> ptype ps = HTTP_REQUEST \<or> state ps = s_start_req_or_res"
    using ps by (auto simp: awaits_request_def)
  have D: "?d \<noteq> []" by (simp add: request_head_def)
  note st = stage_start [OF P(1-3) limit(1) P(4) D, of u]
  have "stage S ?G (state ps) (head_of ps) u ?d [] ?x" by (rule stage_split [OF st(1,2)]) (use limit(2) in simp_all)
  then obtain h where h: "request_known r (head_of ps) h" "reaches ?G ?x (stage S ?G s_header_field_start h
      (fold act ([E_begin, E_url (rq_url r)] @ lines_events (rq_headers r) (rq_body r)) u) [CR, LF] [])"
    using exec_request_head [of ?G "state ps" "head_of ps" u r "[]" ?x] r P(5) by (auto simp: head_of_def CRLF_def)
  note H = h(1) [unfolded request_known_def]
  have B: "\<not> no_body h" using H r by (cases "rq_body r") (auto simp: no_body_def body_text_def plain_request_def plain_body_def ULLONG_MAX_def)
  have "reaches ?G ?x (\<lambda>y. \<not> upgrade (parser y) \<and> l_nread y = 0 \<and> stage S ?G s_body_identity h (fold act (head_events r) u) [] [] y)"
    using h(2)
  proof (rule reaches_trans)
    fix y
    assume "stage S ?G s_header_field_start h (fold act ([E_begin, E_url (rq_url r)] @ lines_events (rq_headers r) (rq_body r)) u) [CR, LF] [] y"
    from exec_headers_end [OF this] show
      "reaches ?G y (\<lambda>y. \<not> upgrade (parser y) \<and> l_nread y = 0 \<and> stage S ?G s_body_identity h (fold act (head_events r) u) [] [] y)"
      using H B by (simp add: head_events_def)
  qed
  then obtain y where y: "exec_bytes ?G ?x = exec_bytes ?G y" "\<not> upgrade (parser y)" "l_nread y = 0"
    "stage S ?G s_body_identity h (fold act (head_events r) u) [] [] y"
    by (auto simp: reaches_def)
  have L: "h_length h = length (body_text (rq_body r))" using H r by (cases "rq_body r") (auto simp: body_text_def)
  have "exec_bytes ?G ?x = Some (return (length (data ?G)) y)" using y(1) exec_finish [OF y(4)] by simp
  then show ?thesis
    unfolding st(3)
    using stageD [OF y(4)] y(2,3) H L P(3)
    by (intro exI [of _ "upd (\<lambda>ps. ps\<lparr>nread := l_nread y, state := p_state y\<rparr>) y"]) (auto simp: return_def head_of_def)
qed

lemma tail_run:
  assumes ps: "http_errno ps = HPE_OK" "state ps = s_body_identity" "nread ps = 0" "\<not> upgrade ps" "\<not> lenient_http_headers ps"
      "framed (head_of ps)" "h_type (head_of ps) = HTTP_REQUEST" "h_length (head_of ps) = length t"
    and t: "t \<noteq> []" "length t < ULLONG_MAX" and limit: "limit < 2 ^ 32"
  shows "\<exists>x. http_parser_execute S limit ps u t = Some (Ret (length t) x) \<and> awaits_request (parser x) \<and>
    udata x = fold act [E_body t, E_complete (h_method (head_of ps))] u"
proof -
  let ?G = "run_env_of S limit ps t" and ?x = "start_run ps u"
  have X: "http_parser_execute S limit ps u t = exec_bytes ?G ?x" using ps(1) t(1) by (rule http_parser_execute_run)
  have "first_marks s_body_identity = (\<lambda>_. None)" by (auto simp: first_marks_def fun_eq_iff split: mark.split)
  then have st: "stage S ?G s_body_identity (head_of ps) u [] (t @ []) ?x"
    using ps limit by (simp add: run_at_def)
  have up: "\<not> upgrade (parser ?x)" using ps(4) by simp
  have "reaches ?G ?x (\<lambda>y. \<exists>w'. stage S ?G s_start_req w' (fold act [E_body t, E_complete (h_method (head_of ps))] u) [] [] y \<and>
      l_nread y = 0 \<and> (h_type w' = HTTP_REQUEST \<and> h_lenient w' = lenient_http_headers ps))"
    using exec_body [OF st ps(6,8) t up]
    by (rule reaches_trans, intro reaches_refl exI [of _ "(head_of ps)\<lparr>h_length := 0\<rparr>"])
      (use ps in \<open>auto simp: ready_def head_of_def\<close>)
  from reaches_result [OF this] show ?thesis
    unfolding X using ps(5) by (auto simp: awaits_request_def head_of_def)
qed

end

end
