(* ===== verification/WsFrame.thy ===== *)
theory WsFrame
  imports Prelude
begin

section \<open>WebSocket frames: src/http/ws_util.c and the frame building of the parser class\<close>

text \<open>
  \<open>ws_calc_frame_size\<close> and \<open>build_ws_frame\<close> of ws_util.c, and \<open>buildFrame\<close> of
  WebSocketParser.cpp with its byte-order helpers. A payload is a byte list, so the C pair
  of a pointer and a length is one value. Lengths go through 64-bit words where the code
  shifts them. Random mask bytes are an argument.
\<close>

datatype ws_opcode = WS_OPCODE_CONTINUE | WS_OPCODE_TEXT | WS_OPCODE_BINARY
  | WS_OPCODE_CLOSE | WS_OPCODE_PING | WS_OPCODE_PONG

primrec ws_opcode_code :: "ws_opcode \<Rightarrow> byte" where
  "ws_opcode_code WS_OPCODE_CONTINUE = 0x0"
| "ws_opcode_code WS_OPCODE_TEXT = 0x1"
| "ws_opcode_code WS_OPCODE_BINARY = 0x2"
| "ws_opcode_code WS_OPCODE_CLOSE = 0x8"
| "ws_opcode_code WS_OPCODE_PING = 0x9"
| "ws_opcode_code WS_OPCODE_PONG = 0xA"

definition ws_calc_frame_size :: "int \<Rightarrow> bool \<Rightarrow> int" where
  "ws_calc_frame_size data_len has_mask =
     (let frame_size = 2;
          frame_size = (if data_len < 126 then frame_size
                        else if data_len \<le> 65535 then frame_size + 2
                        else frame_size + 8);
          frame_size = (if has_mask then frame_size + 4 else frame_size)
      in frame_size + data_len)"

definition xor_mask :: "byte list \<Rightarrow> byte list \<Rightarrow> byte list" where
  "xor_mask key data = map2 (\<lambda>i b. b XOR key ! (i mod 4)) [0..<length data] data"

definition len_byte :: "nat \<Rightarrow> u64 \<Rightarrow> byte" where
  "len_byte shift len = ucast (drop_bit shift len AND 0xFF)"

definition build_ws_frame ::
  "byte list \<Rightarrow> byte list \<Rightarrow> bool \<Rightarrow> ws_opcode \<Rightarrow> bool \<Rightarrow> byte list" where
  "build_ws_frame data key has_mask opcode fin =
     (let data_len = length data;
          len64 = (of_nat data_len :: u64);
          first = (if fin then 0x80 else 0x00) OR (ws_opcode_code opcode AND 0x0F);
          mbit = (if has_mask then 0x80 else 0x00);
          header =
            (if data_len < 126 then [first, mbit OR ucast (len64 AND 0x7F)]
             else if data_len \<le> 65535 then
               [first, mbit OR 0x7E, len_byte 8 len64, len_byte 0 len64]
             else
               [first, mbit OR 0x7F,
                0, len_byte 56 len64, len_byte 48 len64, len_byte 40 len64,
                len_byte 24 len64, len_byte 16 len64, len_byte 8 len64, len_byte 0 len64])
      in if has_mask then header @ take 4 key @ xor_mask key data
         else header @ data)"

text \<open>
  \<open>ws_hton\<close> and \<open>ws_ntoh\<close> swap the bytes of an object in memory, end to end, on a
  little-endian machine; objects of odd length are left alone. \<open>le_bytes\<close> and \<open>le_val\<close>
  are the little-endian memory image of an integer.
\<close>

definition ws_hton :: "byte list \<Rightarrow> byte list" where
  "ws_hton mem = (if odd (length mem) then mem else rev mem)"

definition ws_ntoh :: "byte list \<Rightarrow> byte list" where
  "ws_ntoh mem = (if odd (length mem) then mem else rev mem)"

fun le_bytes :: "nat \<Rightarrow> nat \<Rightarrow> byte list" where
  "le_bytes 0 n = []"
| "le_bytes (Suc k) n = of_nat (n mod 256) # le_bytes k (n div 256)"

fun le_val :: "byte list \<Rightarrow> nat" where
  "le_val [] = 0"
| "le_val (b # bs) = unat b + 256 * le_val bs"

definition MAX_FRAME_SIZE :: nat where
  "MAX_FRAME_SIZE = 4 * 1024 * 1024"

datatype ws_fault = Buffer_overrun

text \<open>
  \<open>buildFrame\<close> returns null (\<open>Inr None\<close>) for a payload above the limit. The send buffer
  has \<open>MAX_FRAME_SIZE\<close> bytes for header, mask and payload together; writing past it is
  the fault.
\<close>

definition buildFrame :: "byte list \<Rightarrow> ws_opcode \<Rightarrow> byte list \<Rightarrow> ws_fault + byte list option" where
  "buildFrame data opcode key =
     (let len = length data in
      if len > MAX_FRAME_SIZE then Inr None
      else
        let plen = (if len > 65535 then 127 else if len > 125 then 126 else of_nat len :: byte);
            fh = [0x80 OR ws_opcode_code opcode, 0x80 OR plen];
            ext = (if plen = 126 then ws_hton (le_bytes 2 len)
                   else if plen = 127 then ws_hton (le_bytes 8 len) else []);
            frame = fh @ ext @ take 4 key @ xor_mask key data
        in if length frame > MAX_FRAME_SIZE then Inl Buffer_overrun else Inr (Some frame))"

subsection \<open>Lemmas\<close>

lemma length_xor_mask [simp]: "length (xor_mask key data) = length data"
  by (simp add: xor_mask_def)

lemma nth_xor_mask: "i < length data \<Longrightarrow> xor_mask key data ! i = data ! i XOR key ! (i mod 4)"
  by (simp add: xor_mask_def)

lemma xor_mask_involution [simp]: "xor_mask key (xor_mask key data) = data"
  by (rule nth_equalityI) (simp_all add: nth_xor_mask xor.assoc)

lemma length_le_bytes [simp]: "length (le_bytes k n) = k"
  by (induction k arbitrary: n) simp_all

lemma le_val_le_bytes: "n < 256 ^ k \<Longrightarrow> le_val (le_bytes k n) = n"
proof (induction k arbitrary: n)
  case (Suc k)
  have "n div 256 < 256 ^ k" using Suc.prems by (simp add: less_mult_imp_div_less mult.commute)
  moreover have "unat (of_nat (n mod 256) :: byte) = n mod 256"
    by (simp add: unsigned_of_nat take_bit_eq_mod)
  ultimately show ?case using Suc.IH by simp
qed simp

lemma unat_len_byte: "unat (len_byte s (of_nat n)) = n mod 2 ^ 64 div 2 ^ s mod 256"
  unfolding len_byte_def unat_low_byte
  by (simp only: unat_drop_bit_eq unsigned_of_nat drop_bit_eq_div [where 'a = nat] take_bit_eq_mod) simp

lemma ws_opcode_code_small: "ws_opcode_code opcode AND 0x0F = ws_opcode_code opcode"
  by (cases opcode) simp_all

text \<open>The length that the header announces: the low seven bits of the second byte.\<close>

lemma seven_bits: "n < 128 \<Longrightarrow> unat (ucast ((of_nat n :: u64) AND 0x7F) :: byte) = n"
  unfolding unat_low_seven by (simp add: unsigned_of_nat take_bit_eq_mod)

lemma build_ws_frame_length:
  "length key = 4 \<Longrightarrow>
   int (length (build_ws_frame data key has_mask opcode fin)) =
   ws_calc_frame_size (int (length data)) has_mask"
  by (simp add: build_ws_frame_def ws_calc_frame_size_def Let_def)

end
