(* ===== verification/WsParser.thy ===== *)
theory WsParser
  imports WsFrame
begin

section \<open>The WebSocket frame parser: feedRecvData of src/http/WebSocketParser.cpp\<close>

text \<open>
  The parser keeps the received bytes in \<open>m_buffer\<close> and calls \<open>onMessage\<close> for every
  complete frame. \<open>next_frame\<close> is one round of the loop up to the callback; its result says
  whether the loop returns for want of data, reads or writes past the buffer, or has a frame
  of which \<open>n\<close> bytes are consumed. Sizes are \<open>size_t\<close>: their sums wrap at 64 bits, written
  out as \<open>size_add\<close>. The payload of a masked frame is touched by the unmasking, that of an unmasked one
  by the string that is made for the callback: with a length that wraps, the first goes past the buffer and
  the second does too or throws \<open>length_error\<close>, both \<open>Buffer_overrun\<close> here. Without a callback the code never drops the frame it has found and
  goes round for ever, so the loop is a partial function.
\<close>

record ws_frame_header_st =
  fh_opcode :: byte
  fh_reserved :: byte
  fh_fin :: bool
  fh_payload_len :: byte
  fh_mask :: bool

definition ws_frame_header :: "byte list \<Rightarrow> ws_frame_header_st" where
  "ws_frame_header buf =
     \<lparr>fh_opcode = buf ! 0 AND 0x0F, fh_reserved = drop_bit 4 (buf ! 0) AND 0x07,
      fh_fin = bit (buf ! 0) 7,
      fh_payload_len = buf ! 1 AND 0x7F, fh_mask = bit (buf ! 1) 7\<rparr>"

datatype frame_scan = Need_more | Overrun | Complete byte "byte list" nat

text \<open>Offset of the data after the length field, and the payload length it announces.\<close>

definition payload_field :: "byte list \<Rightarrow> (nat \<times> nat) option" where
  "payload_field buf =
     (let plen = fh_payload_len (ws_frame_header buf) in
      if plen < 126 then Some (2, unat plen)
      else if plen = 126 then
        (if length buf < 2 + 2 then None
         else Some (4, le_val (ws_ntoh (take 2 (drop 2 buf)))))
      else
        (if length buf < 2 + 8 then None
         else Some (10, le_val (ws_ntoh (take 8 (drop 2 buf))))))"

definition next_frame :: "byte list \<Rightarrow> frame_scan" where
  "next_frame buf =
     (if length buf < 2 then Need_more
      else let fh = ws_frame_header buf in
        case payload_field buf of
          None \<Rightarrow> Need_more
        | Some (offset, payload_len) \<Rightarrow>
            if length buf < size_add offset payload_len then Need_more
            else if fh_mask fh then
              (if length buf < size_add (size_add offset payload_len) 4 then Need_more
               else if length buf < offset + 4 + payload_len then Overrun
               else let key = take 4 (drop offset buf)
                    in Complete (fh_opcode fh)
                         (xor_mask key (take payload_len (drop (offset + 4) buf)))
                         (offset + 4 + payload_len))
            else if length buf < offset + payload_len then Overrun
            else Complete (fh_opcode fh) (take payload_len (drop offset buf)) (offset + payload_len))"

partial_function (option) feed_loop ::
  "bool \<Rightarrow> byte list \<Rightarrow> (byte \<times> byte list) list \<Rightarrow>
   (ws_fault + (byte \<times> byte list) list \<times> byte list) option" where
  "feed_loop onMessage buf out =
     (case next_frame buf of
        Need_more \<Rightarrow> Some (Inr (out, buf))
      | Overrun \<Rightarrow>
          if onMessage \<or> fh_mask (ws_frame_header buf) then Some (Inl Buffer_overrun)
          else feed_loop onMessage buf out
      | Complete opcode msg n \<Rightarrow>
          if onMessage then feed_loop onMessage (drop n buf) (out @ [(opcode, msg)])
          else feed_loop onMessage (take (n - length msg) buf @ msg @ drop n buf) out)"

definition ws_feedRecvData ::
  "bool \<Rightarrow> byte list \<Rightarrow> byte list \<Rightarrow> (ws_fault + (byte \<times> byte list) list \<times> byte list) option" where
  "ws_feedRecvData onMessage m_buffer data = feed_loop onMessage (m_buffer @ data) []"

subsection \<open>Scanning one frame\<close>

lemma ws_frame_header_append: "2 \<le> length buf \<Longrightarrow> ws_frame_header (buf @ d) = ws_frame_header buf"
  by (cases buf; cases "tl buf") (simp_all add: ws_frame_header_def)

lemma payload_field_append:
  "2 \<le> length buf \<Longrightarrow> payload_field buf = Some r \<Longrightarrow> payload_field (buf @ d) = Some r"
  by (auto simp: payload_field_def Let_def ws_frame_header_append split: if_splits)

lemma payload_field_offset:
  "2 \<le> length buf \<Longrightarrow> payload_field buf = Some (off, len) \<Longrightarrow> 2 \<le> off \<and> off \<le> 10 \<and> off \<le> length buf"
  by (auto simp: payload_field_def Let_def split: if_splits)

lemma le_val_bound: "le_val bs < 256 ^ length bs"
proof (induction bs)
  case (Cons b bs)
  have "unat b + 256 * le_val bs < 256 + 256 * le_val bs" by simp
  also have "\<dots> \<le> 256 * 256 ^ length bs" using Cons by (metis mult_Suc_right mult_le_mono2 Suc_leI)
  finally show ?case by simp
qed simp

lemma payload_field_bound:
  assumes "payload_field buf = Some (off, len)"
  shows "len < 2 ^ 64"
proof -
  have "le_val (ws_ntoh (take k (drop 2 buf))) < 2 ^ 64" if "k \<le> 8" for k
  proof -
    have "le_val (ws_ntoh (take k (drop 2 buf))) < 256 ^ length (ws_ntoh (take k (drop 2 buf)))"
      by (rule le_val_bound)
    also have "\<dots> \<le> 256 ^ 8"
      using that by (intro power_increasing) (auto simp: ws_ntoh_def)
    finally show ?thesis by simp
  qed
  moreover have "unat (fh_payload_len (ws_frame_header buf)) < 2 ^ 64"
    by (rule less_trans [OF unat_byte_less]) simp
  ultimately show ?thesis
    using assms by (auto simp: payload_field_def Let_def split: if_splits)
qed



text \<open>Number of mask bytes, and the end of a frame.\<close>

definition mask_len :: "byte list \<Rightarrow> nat" where
  "mask_len buf = (if fh_mask (ws_frame_header buf) then 4 else 0)"

lemma next_frame_exact:
  assumes "2 \<le> length buf" "payload_field buf = Some (off, len)" "off + 4 + len < 2 ^ 64"
  shows "next_frame buf =
    (if length buf < off + mask_len buf + len then Need_more
     else let data = take len (drop (off + mask_len buf) buf)
          in Complete (fh_opcode (ws_frame_header buf))
               (if fh_mask (ws_frame_header buf) then xor_mask (take 4 (drop off buf)) data else data)
               (off + mask_len buf + len))"
proof -
  have "size_add off len = off + len" "size_add (off + len) 4 = off + len + 4"
    using assms(3) by (simp_all add: size_add_exact)
  then show ?thesis
    using assms(1,2) by (simp add: next_frame_def mask_len_def Let_def)
qed

lemma next_frame_wraps:
  assumes "2 \<le> length buf" "payload_field buf = Some (off, len)" "2 ^ 64 \<le> off + 4 + len"
    and "length buf < 2 ^ 63"
  shows "next_frame buf =
    (if off + len < 2 ^ 64 \<or> length buf < off + mask_len buf + len - 2 ^ 64 then Need_more else Overrun)"
proof -
  note bound = payload_field_bound [OF assms(2)] and off = payload_field_offset [OF assms(1,2)]
  show ?thesis
  proof (cases "off + len < 2 ^ 64")
    case True
    then have "size_add off len = off + len" by (rule size_add_exact)
    then show ?thesis using True assms by (simp add: next_frame_def Let_def)
  next
    case False
    have off10: "off \<le> 10" and "off \<le> length buf" using off by simp_all
    then have fits: "\<not> length buf < off + len - 2 ^ 64"
      using False bound by (simp add: not_less)
    have "size_add off len = off + len - 2 ^ 64"
      using False bound off by (intro size_add_wrap) simp_all
    moreover have "size_add (off + len - 2 ^ 64) 4 = off + len - 2 ^ 64 + 4"
      using False bound off10 by (intro size_add_exact) simp
    ultimately show ?thesis
      using False assms(1,2,4) fits by (simp add: next_frame_def mask_len_def Let_def)
  qed
qed

lemma next_frame_parts:
  assumes "next_frame buf \<noteq> Need_more"
  obtains off len where "2 \<le> length buf" "payload_field buf = Some (off, len)"
  using assms by (auto simp: next_frame_def Let_def split: if_splits option.splits)

lemma take_drop_prefix: "n + k \<le> length xs \<Longrightarrow> take k (drop n (xs @ ys)) = take k (drop n xs)"
  by simp

lemma mask_len_append: "2 \<le> length buf \<Longrightarrow> mask_len (buf @ d) = mask_len buf"
  by (simp add: mask_len_def ws_frame_header_append)

lemma next_frame_append:
  assumes "next_frame buf \<noteq> Need_more" "length buf + length d < 2 ^ 63"
  shows "next_frame (buf @ d) = next_frame buf"
proof -
  obtain off plen where len: "2 \<le> length buf" and pf: "payload_field buf = Some (off, plen)"
    using next_frame_parts [OF assms(1)] .
  note pf' = payload_field_append [OF len pf, of d]
  have len': "2 \<le> length (buf @ d)" using len by simp
  have ml: "mask_len buf = 0 \<or> mask_len buf = 4" "fh_mask (ws_frame_header buf) \<Longrightarrow> mask_len buf = 4"
    by (auto simp: mask_len_def)
  show ?thesis
  proof (cases "off + 4 + plen < 2 ^ 64")
    case True
    have le: "off + mask_len buf + plen \<le> length buf"
      using assms(1) by (auto simp: next_frame_exact [OF len pf True] split: if_splits)
    have "take 4 (drop off (buf @ d)) = take 4 (drop off buf)" if "fh_mask (ws_frame_header buf)"
      using le ml(2) [OF that] by simp
    then show ?thesis
      using le
      by (simp del: take_append drop_append
          add: take_drop_prefix next_frame_exact [OF len pf True] next_frame_exact [OF len' pf' True]
          ws_frame_header_append mask_len_append len Let_def)
  next
    case False
    have lb: "length buf < 2 ^ 63" using assms(2) by linarith
    have "\<not> (off + plen < 2 ^ 64 \<or> length buf < off + mask_len buf + plen - 2 ^ 64)"
      using assms(1) next_frame_wraps [OF len pf _ lb] False by (auto split: if_splits)
    then show ?thesis
      using False assms(2) next_frame_wraps [OF len pf _ lb] next_frame_wraps [OF len' pf']
      by (simp add: mask_len_append len)
  qed
qed

lemma next_frame_length:
  assumes "next_frame buf = Complete opcode msg n" "length buf < 2 ^ 63"
  shows "2 \<le> n \<and> n \<le> length buf \<and> length msg \<le> n"
proof -
  obtain off plen where len: "2 \<le> length buf" and pf: "payload_field buf = Some (off, plen)"
    using next_frame_parts [of buf] assms(1) by auto
  show ?thesis
  proof (cases "off + 4 + plen < 2 ^ 64")
    case True
    then show ?thesis
      using assms(1) payload_field_offset [OF len pf]
      by (auto simp: next_frame_exact [OF len pf True] Let_def split: if_splits)
  next
    case False
    then show ?thesis
      using assms next_frame_wraps [OF len pf _ assms(2)] by (auto split: if_splits)
  qed
qed


lemma xor_mask_append_frame:
  "length key = 4 \<Longrightarrow> take 4 (key @ xs) = key"
  by simp

subsection \<open>The loop\<close>

declare feed_loop.simps [code]

lemma feed_loop_stop: "next_frame buf = Need_more \<Longrightarrow> feed_loop h buf out = Some (Inr (out, buf))"
  by (subst feed_loop.simps) simp

lemma feed_loop_step:
  "next_frame buf = Complete opcode msg n \<Longrightarrow>
   feed_loop True buf out = feed_loop True (drop n buf) (out @ [(opcode, msg)])"
  by (subst feed_loop.simps) simp

lemma feed_loop_overrun: "next_frame buf = Overrun \<Longrightarrow> feed_loop True buf out = Some (Inl Buffer_overrun)"
  by (subst feed_loop.simps) simp

text \<open>With a callback the loop ends: every round drops at least the two header bytes.\<close>

lemma feed_loop_returns: "length buf < 2 ^ 63 \<Longrightarrow> \<exists>r. feed_loop True buf out = Some r"
proof (induction "length buf" arbitrary: buf out rule: less_induct)
  case less
  show ?case
  proof (cases "next_frame buf")
    case (Complete opcode msg n)
    then have "2 \<le> n \<and> n \<le> length buf" using next_frame_length less.prems by blast
    then have "length (drop n buf) < length buf" by auto
    then show ?thesis using less.hyps less.prems by (simp add: feed_loop_step [OF Complete])
  qed (auto simp: feed_loop_stop feed_loop_overrun)
qed

text \<open>The messages found so far are a prefix of the result.\<close>

primrec prepend :: "'a list \<Rightarrow> ws_fault + 'a list \<times> byte list \<Rightarrow> ws_fault + 'a list \<times> byte list" where
  "prepend out (Inl f) = Inl f"
| "prepend out (Inr r) = Inr (out @ fst r, snd r)"

lemma feed_loop_out:
  "length buf < 2 ^ 63 \<Longrightarrow> feed_loop True buf out = map_option (prepend out) (feed_loop True buf [])"
proof (induction "length buf" arbitrary: buf out rule: less_induct)
  case less
  show ?case
  proof (cases "next_frame buf")
    case (Complete opcode msg n)
    then have "2 \<le> n \<and> n \<le> length buf" using next_frame_length less.prems by blast
    then have lt: "length (drop n buf) < length buf" "length (drop n buf) < 2 ^ 63"
      using less.prems by auto
    obtain r where r: "feed_loop True (drop n buf) [] = Some r"
      using feed_loop_returns [OF lt(2)] by blast
    show ?thesis
      unfolding feed_loop_step [OF Complete]
      using less.hyps [OF lt(1) lt(2), of "out @ [(opcode, msg)]"]
        less.hyps [OF lt(1) lt(2), of "[] @ [(opcode, msg)]"] r
      by (cases r) simp_all
  qed (simp_all add: feed_loop_stop feed_loop_overrun)
qed

lemma feed_loop_rest:
  "length buf < 2 ^ 63 \<Longrightarrow> feed_loop True buf out = Some (Inr (msgs, rest)) \<Longrightarrow>
   next_frame rest = Need_more \<and> length rest \<le> length buf"
proof (induction "length buf" arbitrary: buf out rule: less_induct)
  case less
  show ?case
  proof (cases "next_frame buf")
    case (Complete opcode msg n)
    then have "2 \<le> n \<and> n \<le> length buf" using next_frame_length less.prems by blast
    then have lt: "length (drop n buf) < length buf" "length (drop n buf) < 2 ^ 63"
      using less.prems by auto
    show ?thesis
      using less.hyps [OF lt less.prems(2) [unfolded feed_loop_step [OF Complete]]] by auto
  qed (use less.prems in \<open>auto simp: feed_loop_stop feed_loop_overrun\<close>)
qed

text \<open>Data that arrives later is parsed as if it had been there from the start.\<close>

lemma feed_loop_append:
  "length buf + length d < 2 ^ 63 \<Longrightarrow>
   feed_loop True (buf @ d) out =
   (case feed_loop True buf out of
      Some (Inr (msgs, rest)) \<Rightarrow> feed_loop True (rest @ d) msgs
    | r \<Rightarrow> r)"
proof (induction "length buf" arbitrary: buf out rule: less_induct)
  case less
  show ?case
  proof (cases "next_frame buf")
    case Need_more
    then show ?thesis by (simp add: feed_loop_stop)
  next
    case Overrun
    then have "next_frame (buf @ d) = Overrun" using next_frame_append less.prems by simp
    then show ?thesis using Overrun by (simp add: feed_loop_overrun)
  next
    case (Complete opcode msg n)
    have n: "2 \<le> n \<and> n \<le> length buf" using next_frame_length Complete less.prems by simp
    have "next_frame (buf @ d) = Complete opcode msg n"
      using next_frame_append Complete less.prems by simp
    then have "feed_loop True (buf @ d) out = feed_loop True (drop n buf @ d) (out @ [(opcode, msg)])"
      using n by (simp add: feed_loop_step)
    moreover have "length (drop n buf) < length buf" "length (drop n buf) + length d < 2 ^ 63"
      using n less.prems by auto
    ultimately show ?thesis
      using less.hyps by (simp add: feed_loop_step [OF Complete])
  qed
qed


subsection \<open>Frames of the client library, parsed back\<close>

lemma next_frame_of_parts:
  assumes "payload_field (h @ k @ body @ rest) = Some (length h, length body)"
    and "2 \<le> length h" "length h + 4 + length body < 2 ^ 64"
    and "length k = (if fh_mask (ws_frame_header h) then 4 else 0)"
  shows "next_frame (h @ k @ body @ rest) =
    Complete (fh_opcode (ws_frame_header h))
      (if fh_mask (ws_frame_header h) then xor_mask k body else body) (length (h @ k @ body))"
proof -
  have hd: "ws_frame_header (h @ k @ body @ rest) = ws_frame_header h"
    using ws_frame_header_append [OF assms(2)] .
  have ml: "mask_len (h @ k @ body @ rest) = length k"
    using assms(4) by (simp add: mask_len_def hd)
  have len: "2 \<le> length (h @ k @ body @ rest)" using assms(2) by simp
  show ?thesis
    unfolding next_frame_exact [OF len assms(1,3)] ml hd
    using assms(4) by simp
qed

lemma mask_bit_len:
  "((if m then 0x80 else 0x00) OR ucast ((y::u64) AND 0x7F) :: byte) AND 0x7F = ucast (y AND 0x7F)"
  by (rule byte_eqI) (auto simp: byte_bits)

lemma mask_bit_seven:
  "bit ((if m then 0x80 else 0x00) OR ucast ((y::u64) AND 0x7F) :: byte) 7 = m"
  by (auto simp: byte_bits)

lemma first_byte_opcode:
  "((if fin then 0x80 else 0x00) OR (ws_opcode_code opcode AND 0x0F)) AND 0x0F = ws_opcode_code opcode"
  by (cases opcode) simp_all

lemma len_field_2:
  "n < 65536 \<Longrightarrow> le_val (rev [len_byte 8 (of_nat n), len_byte 0 (of_nat n)]) = n"
  by (simp add: unat_len_byte)

lemma base_256_digits:
  "n < 2 ^ 32 \<Longrightarrow>
   n mod 256 + 256 * (n div 256 mod 256 + 256 * (n div 65536 mod 256 + 256 * (n div 16777216 mod 256))) = (n::nat)"
proof -
  assume n: "n < 2 ^ 32"
  have "n div 16777216 mod 256 = n div 16777216"
    using n by (intro mod_less) simp
  moreover have "n div 65536 = n div 65536 mod 256 + 256 * (n div 16777216)"
    using div_mult2_eq [of n 65536 256] mod_mult_div_eq [of "n div 65536" 256] by simp
  moreover have "n div 256 = n div 256 mod 256 + 256 * (n div 65536)"
    using div_mult2_eq [of n 256 256] mod_mult_div_eq [of "n div 256" 256] by simp
  moreover have "n = n mod 256 + 256 * (n div 256)"
    using mod_mult_div_eq [of n 256] by simp
  ultimately show ?thesis by presburger
qed

lemma len_byte_digits:
  assumes "n < 2 ^ 32"
  shows "unat (len_byte 0 (of_nat n)) = n mod 256" "unat (len_byte 8 (of_nat n)) = n div 256 mod 256"
    "unat (len_byte 16 (of_nat n)) = n div 65536 mod 256"
    "unat (len_byte 24 (of_nat n)) = n div 16777216 mod 256"
    "unat (len_byte 40 (of_nat n)) = 0" "unat (len_byte 48 (of_nat n)) = 0"
    "unat (len_byte 56 (of_nat n)) = 0"
proof -
  have m: "n mod 2 ^ 64 = n" using assms by (intro mod_less) simp
  show "unat (len_byte 0 (of_nat n)) = n mod 256" "unat (len_byte 8 (of_nat n)) = n div 256 mod 256"
    "unat (len_byte 16 (of_nat n)) = n div 65536 mod 256"
    "unat (len_byte 24 (of_nat n)) = n div 16777216 mod 256"
    "unat (len_byte 40 (of_nat n)) = 0" "unat (len_byte 48 (of_nat n)) = 0"
    "unat (len_byte 56 (of_nat n)) = 0"
    unfolding unat_len_byte m using assms by simp_all
qed

lemma len_field_8:
  assumes "n < 2 ^ 32"
  shows "le_val (rev [0, len_byte 56 (of_nat n), len_byte 48 (of_nat n), len_byte 40 (of_nat n),
    len_byte 24 (of_nat n), len_byte 16 (of_nat n), len_byte 8 (of_nat n), len_byte 0 (of_nat n)]) = n"
proof -
  have "le_val (rev [0, len_byte 56 (of_nat n), len_byte 48 (of_nat n), len_byte 40 (of_nat n),
      len_byte 24 (of_nat n), len_byte 16 (of_nat n), len_byte 8 (of_nat n), len_byte 0 (of_nat n)])
    = n mod 256 + 256 * (n div 256 mod 256 + 256 * (n div 65536 mod 256 + 256 * (n div 16777216 mod 256)))"
    by (simp only: rev.simps append.simps le_val.simps len_byte_digits [OF assms] unsigned_0
        mult_0_right add_0_right)
  then show ?thesis
    by (simp only: base_256_digits [OF assms])
qed

lemma next_frame_build_ws_frame:
  assumes "length key = 4" "length data < 2 ^ 31"
  shows "next_frame (build_ws_frame data key has_mask opcode fin @ rest) =
    Complete (ws_opcode_code opcode) data (length (build_ws_frame data key has_mask opcode fin))"
proof -
  define n where "n = length data"
  define b0 where "b0 = (if fin then 0x80 else 0x00) OR (ws_opcode_code opcode AND 0x0F)"
  define mbit where "mbit = (if has_mask then 0x80 else 0x00 :: byte)"
  define k where "k = (if has_mask then key else [])"
  define body where "body = (if has_mask then xor_mask key data else data)"
  have op: "b0 AND 0x0F = ws_opcode_code opcode"
    unfolding b0_def by (rule first_byte_opcode)
  have lb: "length body = n" by (simp add: body_def n_def)
  have res: "next_frame (h @ k @ body @ rest) = Complete (ws_opcode_code opcode) data (length (h @ k @ body))"
    if "payload_field (h @ k @ body @ rest) = Some (length h, n)" "2 \<le> length h" "length h \<le> 10"
      "h ! 0 = b0" "bit (h ! 1) 7 = has_mask" for h
  proof -
    have "fh_opcode (ws_frame_header h) = ws_opcode_code opcode" "fh_mask (ws_frame_header h) = has_mask"
      using that(4,5) op by (simp_all add: ws_frame_header_def)
    moreover have "length h + 4 + length body < 2 ^ 64"
      using that(3) assms(2) lb by (simp add: n_def)
    ultimately show ?thesis
      using next_frame_of_parts [of h k body rest] that(1,2) lb assms(1)
      by (auto simp: k_def body_def)
  qed
  consider (small) "n < 126" | (medium) "126 \<le> n" "n \<le> 65535" | (large) "65535 < n"
    by linarith
  then show ?thesis
  proof cases
    case small
    define h where "h = [b0, mbit OR ucast ((of_nat n :: u64) AND 0x7F)]"
    have "build_ws_frame data key has_mask opcode fin = h @ k @ body"
      using small assms(1)
      by (simp add: build_ws_frame_def Let_def h_def k_def body_def b0_def mbit_def n_def)
    moreover have "(mbit OR ucast ((of_nat n :: u64) AND 0x7F)) AND 0x7F = (ucast ((of_nat n :: u64) AND 0x7F) :: byte)"
      unfolding mbit_def by (rule mask_bit_len)
    moreover have "unat (ucast ((of_nat n :: u64) AND 0x7F) :: byte) = n"
      using small by (intro seven_bits) simp
    ultimately show ?thesis
      using res [of h] small mask_bit_seven [of has_mask "of_nat n"]
      by (simp add: h_def mbit_def payload_field_def ws_frame_header_def Let_def word_less_nat_alt)
  next
    case medium
    define h where "h = [b0, mbit OR 0x7E, len_byte 8 (of_nat n), len_byte 0 (of_nat n)]"
    have "build_ws_frame data key has_mask opcode fin = h @ k @ body"
      using medium assms(1)
      by (simp add: build_ws_frame_def Let_def h_def k_def body_def b0_def mbit_def n_def)
    then show ?thesis
      using res [of h] medium len_field_2 [of n]
      by (simp add: h_def mbit_def payload_field_def ws_frame_header_def Let_def ws_ntoh_def)
  next
    case large
    define h where "h = [b0, mbit OR 0x7F, 0, len_byte 56 (of_nat n), len_byte 48 (of_nat n),
      len_byte 40 (of_nat n), len_byte 24 (of_nat n), len_byte 16 (of_nat n), len_byte 8 (of_nat n),
      len_byte 0 (of_nat n)]"
    have "build_ws_frame data key has_mask opcode fin = h @ k @ body"
      using large assms(1)
      by (simp add: build_ws_frame_def Let_def h_def k_def body_def b0_def mbit_def n_def)
    moreover have "n < 2 ^ 32" using assms(2) by (simp add: n_def)
    ultimately show ?thesis
      using res [of h] len_field_8 [of n]
      by (simp add: h_def mbit_def payload_field_def ws_frame_header_def Let_def ws_ntoh_def)
  qed
qed


text \<open>Frames of the server-side channel and of \<open>buildFrame\<close> have the same shape.\<close>

lemma le_bytes_digits: "le_bytes k n = map (\<lambda>i. of_nat (n div 256 ^ i mod 256)) [0..<k]"
proof (induction k arbitrary: n)
  case (Suc k)
  have "le_bytes (Suc k) n = of_nat (n div 256 ^ 0 mod 256) # map (\<lambda>i. of_nat (n div 256 ^ Suc i mod 256)) [0..<k]"
    using Suc by (simp add: div_mult2_eq)
  also have "\<dots> = map (\<lambda>i. of_nat (n div 256 ^ i mod 256)) (0 # map Suc [0..<k])"
    by (simp add: comp_def)
  finally show ?case by (simp only: map_Suc_upt upt_conv_Cons zero_less_Suc)
qed simp

lemma len_byte_of_nat:
  assumes "n < 2 ^ 64"
  shows "len_byte s (of_nat n) = of_nat (n div 2 ^ s mod 256)"
proof -
  have "n mod 2 ^ 64 = n" using assms by simp
  then show ?thesis
    unfolding word_unat_eq_iff unat_len_byte by (simp add: unsigned_of_nat take_bit_eq_mod)
qed

lemma high_byte_zero: "n < 2 ^ 32 \<Longrightarrow> 32 \<le> s \<Longrightarrow> len_byte s (of_nat n) = 0"
proof -
  assume a: "n < 2 ^ 32" "32 \<le> s"
  have "n < 2 ^ s" using a by (meson less_le_trans one_le_numeral power_increasing)
  moreover have "n < 2 ^ 64" using a by simp
  ultimately show ?thesis by (simp add: len_byte_of_nat)
qed

lemma le_bytes_two: "n < 65536 \<Longrightarrow> rev (le_bytes 2 n) = [len_byte 8 (of_nat n), len_byte 0 (of_nat n)]"
  by (simp add: le_bytes_digits len_byte_of_nat upt_rec)

lemma le_bytes_eight:
  assumes "n < 2 ^ 32"
  shows "rev (le_bytes 8 n) = [0, len_byte 56 (of_nat n), len_byte 48 (of_nat n), len_byte 40 (of_nat n),
    len_byte 24 (of_nat n), len_byte 16 (of_nat n), len_byte 8 (of_nat n), len_byte 0 (of_nat n)]"
proof -
  have up: "[0..<8] = [0, 1, 2, 3, 4, 5, 6, 7::nat]" by (simp add: upt_rec)
  have "len_byte 32 (of_nat n) = 0" using high_byte_zero assms by simp
  moreover have "len_byte 56 (of_nat n) = 0 \<and> len_byte 48 (of_nat n) = 0 \<and> len_byte 40 (of_nat n) = 0"
    using high_byte_zero assms by simp
  moreover have "rev (le_bytes 8 n) = [len_byte 56 (of_nat n), len_byte 48 (of_nat n), len_byte 40 (of_nat n),
    len_byte 32 (of_nat n), len_byte 24 (of_nat n), len_byte 16 (of_nat n), len_byte 8 (of_nat n), len_byte 0 (of_nat n)]"
    using assms by (simp add: le_bytes_digits up len_byte_of_nat)
  ultimately show ?thesis by simp
qed

definition buildFrame_overhead :: "nat \<Rightarrow> nat" where
  "buildFrame_overhead len = (if len > 65535 then 14 else if len > 125 then 8 else 6)"

lemma buildFrame_is_build_ws_frame:
  assumes "length key = 4" "length data \<le> MAX_FRAME_SIZE"
  shows "buildFrame data opcode key =
    (if length data + buildFrame_overhead (length data) > MAX_FRAME_SIZE then Inl Buffer_overrun
     else Inr (Some (build_ws_frame data key True opcode True)))"
proof -
  have n: "length data < 2 ^ 32" using assms(2) by (simp add: MAX_FRAME_SIZE_def)
  consider (small) "length data < 126" | (medium) "125 < length data" "length data \<le> 65535"
    | (large) "65535 < length data" by linarith
  then show ?thesis
  proof cases
    case small
    have "ucast ((of_nat (length data) :: u64) AND 0x7F) = (of_nat (length data) :: byte)"
      using seven_bits [of "length data"] small by (simp add: word_unat_eq_iff unsigned_of_nat take_bit_eq_mod)
    moreover have "(of_nat (length data) :: byte) \<noteq> 126" "(of_nat (length data) :: byte) \<noteq> 127"
      using small by (simp_all add: word_unat_eq_iff unsigned_of_nat take_bit_eq_mod)
    ultimately show ?thesis
      using small assms by (simp add: buildFrame_def build_ws_frame_def buildFrame_overhead_def Let_def
          ws_opcode_code_small)
  next
    case medium
    then show ?thesis
      using assms le_bytes_two [of "length data"]
      by (simp add: buildFrame_def build_ws_frame_def buildFrame_overhead_def Let_def
          ws_opcode_code_small ws_hton_def)
  next
    case large
    then show ?thesis
      using assms le_bytes_eight [OF n]
      by (simp add: buildFrame_def build_ws_frame_def buildFrame_overhead_def Let_def
          ws_opcode_code_small ws_hton_def)
  qed
qed

subsection \<open>Without a callback\<close>

lemma payload_field_prefix:
  assumes "2 \<le> length buf" "payload_field buf = Some (off, len)"
  shows "payload_field (take off buf @ x) = Some (off, len)"
proof -
  have off: "2 \<le> off" "off \<le> length buf" using payload_field_offset [OF assms] by simp_all
  have hd: "ws_frame_header (take off buf) = ws_frame_header buf"
    using off by (simp add: ws_frame_header_def)
  have "payload_field (take off buf) = Some (off, len)"
    using assms off by (auto simp: payload_field_def Let_def hd take_drop split: if_splits)
  then show ?thesis by (rule payload_field_append [rotated]) (use off in simp)
qed

lemma next_frame_remask:
  assumes "next_frame buf = Complete opcode msg n" "length buf < 2 ^ 63"
  shows "\<exists>msg'. next_frame (take (n - length msg) buf @ msg @ drop n buf) = Complete opcode msg' n"
proof -
  obtain off len where len: "2 \<le> length buf" and pf: "payload_field buf = Some (off, len)"
    using next_frame_parts [of buf] assms(1) by auto
  have off: "2 \<le> off" "off \<le> length buf" using payload_field_offset [OF len pf] by simp_all
  show ?thesis
  proof (cases "off + 4 + len < 2 ^ 64")
    case True
    let ?m = "mask_len buf"
    from assms(1) have le: "off + ?m + len \<le> length buf" and n: "n = off + ?m + len"
      and op: "opcode = fh_opcode (ws_frame_header buf)"
      by (auto simp: next_frame_exact [OF len pf True] Let_def split: if_splits)
    from assms(1) le have lm: "length msg = len"
      by (auto simp: next_frame_exact [OF len pf True] Let_def split: if_splits)
    let ?b = "take (n - length msg) buf @ msg @ drop n buf"
    have b: "?b = take off buf @ (take ?m (drop off buf) @ msg @ drop n buf)"
      by (simp add: n lm take_add)
    have pf': "payload_field ?b = Some (off, len)"
      unfolding b by (rule payload_field_prefix [OF len pf])
    have hd: "ws_frame_header ?b = ws_frame_header buf"
      using off unfolding b by (simp add: ws_frame_header_def nth_append)
    have lb: "length ?b = length buf" "2 \<le> length ?b" using le n lm len by simp_all
    have ml: "mask_len ?b = ?m" by (simp add: mask_len_def hd)
    show ?thesis
      unfolding next_frame_exact [OF lb(2) pf' True] ml hd
      using le n op lb(1) by (simp add: Let_def del: length_append)
  next
    case False
    then show ?thesis
      using assms next_frame_wraps [OF len pf _ assms(2)] by (auto split: if_splits)
  qed
qed

lemma feed_loop_no_callback:
  assumes "feed_loop h buf out = Some r"
  shows "\<not> h \<longrightarrow> length buf < 2 ^ 63 \<longrightarrow> (\<forall>opcode msg n. next_frame buf \<noteq> Complete opcode msg n)"
  using assms
proof (rule feed_loop.raw_induct [rotated])
  fix f :: "bool \<Rightarrow> byte list \<Rightarrow> (byte \<times> byte list) list \<Rightarrow>
     (ws_fault + (byte \<times> byte list) list \<times> byte list) option"
  fix onMessage buf out r
  assume IH: "\<And>h buf out r. f h buf out = Some r \<Longrightarrow>
    \<not> h \<longrightarrow> length buf < 2 ^ 63 \<longrightarrow> (\<forall>opcode msg n. next_frame buf \<noteq> Complete opcode msg n)"
  assume eq: "(case next_frame buf of
        Need_more \<Rightarrow> Some (Inr (out, buf))
      | Overrun \<Rightarrow>
          if onMessage \<or> fh_mask (ws_frame_header buf) then Some (Inl Buffer_overrun)
          else f onMessage buf out
      | Complete opcode msg n \<Rightarrow>
          if onMessage then f onMessage (drop n buf) (out @ [(opcode, msg)])
          else f onMessage (take (n - length msg) buf @ msg @ drop n buf) out) = Some r"
  show "\<not> onMessage \<longrightarrow> length buf < 2 ^ 63 \<longrightarrow> (\<forall>opcode msg n. next_frame buf \<noteq> Complete opcode msg n)"
  proof (intro impI allI notI)
    fix opcode msg n
    assume a: "\<not> onMessage" "length buf < 2 ^ 63" "next_frame buf = Complete opcode msg n"
    obtain off len where lb: "2 \<le> length buf" and pf: "payload_field buf = Some (off, len)"
      using next_frame_parts [of buf] a(3) by auto
    let ?b = "take (n - length msg) buf @ msg @ drop n buf"
    have "f onMessage ?b out = Some r" using eq a by simp
    moreover obtain msg' where "next_frame ?b = Complete opcode msg' n"
      using next_frame_remask [OF a(3,2)] by blast
    moreover have "length ?b = length buf"
      using next_frame_length [OF a(3,2)] by auto
    ultimately show False using IH [of onMessage ?b out r] a by metis
  qed
qed


subsection \<open>Properties\<close>

text \<open>What the sender encodes: payload, mask, mask flag, opcode, fin flag.\<close>

type_synonym ws_send = "byte list \<times> byte list \<times> bool \<times> ws_opcode \<times> bool"

fun ws_encode :: "ws_send \<Rightarrow> byte list" where
  "ws_encode (data, key, has_mask, opcode, fin) = build_ws_frame data key has_mask opcode fin"

fun ws_message :: "ws_send \<Rightarrow> byte \<times> byte list" where
  "ws_message (data, key, has_mask, opcode, fin) = (ws_opcode_code opcode, data)"

fun ws_sendable :: "ws_send \<Rightarrow> bool" where
  "ws_sendable (data, key, has_mask, opcode, fin) \<longleftrightarrow> length key = 4 \<and> length data < 2 ^ 31"

lemma feed_loop_frames:
  "\<forall>s\<in>set sends. ws_sendable s \<Longrightarrow>
   feed_loop True (concat (map ws_encode sends) @ rest) out
   = feed_loop True rest (out @ map ws_message sends)"
proof (induction sends arbitrary: out)
  case (Cons s sends)
  obtain data key has_mask opcode fin where s: "s = (data, key, has_mask, opcode, fin)"
    by (cases s)
  have "next_frame (ws_encode s @ concat (map ws_encode sends) @ rest) =
    Complete (ws_opcode_code opcode) data (length (ws_encode s))"
    using Cons.prems by (simp add: s next_frame_build_ws_frame)
  then have "feed_loop True (ws_encode s @ concat (map ws_encode sends) @ rest) out =
    feed_loop True (concat (map ws_encode sends) @ rest) (out @ [ws_message s])"
    by (simp add: feed_loop_step s)
  then show ?case using Cons by simp
qed simp

text \<open>C19: Round trip of a stream. Any sequence of frames written by build_ws_frame, with any
  masks, opcodes and fin flags, is parsed back into exactly the payloads and opcodes that were
  sent, in order; bytes of a frame still incomplete stay in the buffer.\<close>

theorem ws_stream_roundtrip:
  assumes "\<forall>s\<in>set sends. ws_sendable s" "next_frame rest = Need_more"
  shows "ws_feedRecvData True [] (concat (map ws_encode sends) @ rest) = Some (Inr (map ws_message sends, rest))"
  using assms by (simp add: ws_feedRecvData_def feed_loop_frames feed_loop_stop)

lemma ws_stream_roundtrip_witness:
  "ws_feedRecvData True []
     (concat (map ws_encode [([104, 105], [1, 2, 3, 4], True, WS_OPCODE_TEXT, True),
        ([], [0, 0, 0, 0], False, WS_OPCODE_PING, False)]) @ [0x81])
   = Some (Inr (map ws_message [([104, 105], [1, 2, 3, 4], True, WS_OPCODE_TEXT, True),
        ([], [0, 0, 0, 0], False, WS_OPCODE_PING, False)], [0x81]))"
  by (rule ws_stream_roundtrip) (simp_all add: next_frame_def)

text \<open>C20: Chunking. Feeding two chunks one after the other delivers the same messages, leaves
  the same buffer and overruns in the same cases as feeding them at once, wherever the stream
  is cut (buffers below half the address space).\<close>

theorem ws_feed_chunks:
  assumes "length m_buffer + length d1 + length d2 < 2 ^ 63"
  shows "ws_feedRecvData True m_buffer (d1 @ d2) =
    (case ws_feedRecvData True m_buffer d1 of
       Some (Inr (msgs, rest)) \<Rightarrow> map_option (prepend msgs) (ws_feedRecvData True rest d2)
     | r \<Rightarrow> r)"
proof -
  have lb: "length (m_buffer @ d1) < 2 ^ 63" using assms by simp
  have "length rest + length d2 < 2 ^ 63"
    if "feed_loop True (m_buffer @ d1) [] = Some (Inr (msgs, rest))" for msgs rest
    using feed_loop_rest [OF lb that] assms by simp
  then have "feed_loop True (rest @ d2) msgs = map_option (prepend msgs) (feed_loop True (rest @ d2) [])"
    if "feed_loop True (m_buffer @ d1) [] = Some (Inr (msgs, rest))" for msgs rest
    using feed_loop_out [of "rest @ d2" msgs] that by simp
  then show ?thesis
    using feed_loop_append [of "m_buffer @ d1" d2 "[]"] assms
    by (auto simp: ws_feedRecvData_def split: option.splits sum.splits prod.splits)
qed

lemma ws_feed_chunks_witness:
  "ws_feedRecvData True [] ([0x81] @ [0x01, 65]) =
    (case ws_feedRecvData True [] [0x81] of
       Some (Inr (msgs, rest)) \<Rightarrow> map_option (prepend msgs) (ws_feedRecvData True rest [0x01, 65])
     | r \<Rightarrow> r)"
  by (rule ws_feed_chunks) simp

text \<open>The length checks wrap. An unmasked frame that announces the largest 64-bit
  length passes the checks of the code, which then touches memory past its buffer, whatever
  the opcode is and whatever follows in the stream.\<close>

theorem ws_feed_length_wraps:
  assumes "length rest < 2 ^ 63"
  shows "ws_feedRecvData True [] (b # 0x7F # replicate 8 0xFF @ rest) = Some (Inl Buffer_overrun)"
proof -
  have "replicate 8 (0xFF :: byte) = [0xFF, 0xFF, 0xFF, 0xFF, 0xFF, 0xFF, 0xFF, 0xFF]"
    by (simp add: replicate_eqI list_eq_iff_nth_eq less_eight nth_Cons')
  then have ev: "le_val (replicate 8 0xFF) = 2 ^ 64 - 1" by simp
  have pf: "payload_field (b # 0x7F # replicate 8 0xFF @ rest) = Some (10, 2 ^ 64 - 1)"
    using ev by (simp add: payload_field_def ws_frame_header_def Let_def ws_ntoh_def)
  have "size_add 10 (2 ^ 64 - 1) = 9" by (simp add: size_add_def)
  then have "next_frame (b # 0x7F # replicate 8 0xFF @ rest) = Overrun"
    using pf assms by (simp add: next_frame_def ws_frame_header_def Let_def)
  then show ?thesis by (simp add: ws_feedRecvData_def feed_loop_overrun)
qed

lemma ws_feed_length_wraps_witness:
  "ws_feedRecvData True [] (0x82 # 0x7F # replicate 8 0xFF @ [1, 2]) = Some (Inl Buffer_overrun)"
  by (rule ws_feed_length_wraps) simp

text \<open>What buildFrame returns, on every branch. Above the limit it returns null. Below it,
  the frame is the one of build_ws_frame with the fin and mask bits set, so the parser reads
  the payload back, and it fits the send buffer unless the payload is within 14 bytes of the
  limit, where the code writes past the buffer.\<close>

theorem buildFrame_cases:
  assumes "length key = 4"
  shows "buildFrame data opcode key =
    (if MAX_FRAME_SIZE < length data then Inr None
     else if MAX_FRAME_SIZE - 14 < length data then Inl Buffer_overrun
     else Inr (Some (build_ws_frame data key True opcode True)))"
proof (cases "MAX_FRAME_SIZE < length data")
  case True
  then show ?thesis by (simp add: buildFrame_def)
next
  case False
  then show ?thesis
    using buildFrame_is_build_ws_frame [OF assms, of data opcode]
    by (auto simp: buildFrame_overhead_def MAX_FRAME_SIZE_def)
qed

lemma buildFrame_cases_witness:
  "buildFrame [104, 105] WS_OPCODE_TEXT [1, 2, 3, 4] =
     Inr (Some (build_ws_frame [104, 105] [1, 2, 3, 4] True WS_OPCODE_TEXT True))"
proof -
  have "length [1, 2, 3, 4 :: byte] = 4" "length [104, 105 :: byte] = 2" by simp_all
  then show ?thesis
    using buildFrame_cases [of "[1, 2, 3, 4]" "[104, 105]" WS_OPCODE_TEXT]
    by (simp only: MAX_FRAME_SIZE_def) simp
qed

text \<open>Without a message callback, a buffer that starts with a complete frame makes
  feedRecvData loop for ever: the frame is never removed.\<close>

theorem ws_feed_no_callback_diverges:
  assumes "ws_sendable s" "length (ws_encode s @ rest) < 2 ^ 63"
  shows "ws_feedRecvData False [] (ws_encode s @ rest) = None"
proof (rule ccontr)
  assume "ws_feedRecvData False [] (ws_encode s @ rest) \<noteq> None"
  then obtain r where "feed_loop False (ws_encode s @ rest) [] = Some r"
    by (auto simp: ws_feedRecvData_def)
  then have "\<forall>opcode msg n. next_frame (ws_encode s @ rest) \<noteq> Complete opcode msg n"
    using feed_loop_no_callback assms(2) by blast
  moreover obtain data key has_mask opcode fin where "s = (data, key, has_mask, opcode, fin)"
    by (cases s)
  ultimately show False using assms(1) next_frame_build_ws_frame by simp
qed

lemma ws_feed_no_callback_diverges_witness:
  "ws_feedRecvData False [] (ws_encode ([65], [1, 2, 3, 4], True, WS_OPCODE_TEXT, True) @ []) = None"
  by (rule ws_feed_no_callback_diverges) (simp_all add: build_ws_frame_def)

end
