(* ===== verification/Base64.thy ===== *)
theory Base64
  imports Prelude
begin

section \<open>Base64 encoding: src/base64.c\<close>

text \<open>
  \<open>base64_encode\<close> collects the input in a three-byte array and emits four characters
  whenever it is full; the rest of the input is padded with zero bytes and \<open>=\<close> signs. The
  loop is \<open>encode_loop\<close> with the array, its fill count and the output so far as its state.
  The decoder is the specification: it reads groups of four characters of the standard
  alphabet, with padding in the last group only.
\<close>

definition base64_chars :: string where
  "base64_chars =
    ''ABCDEFGHIJKLMNOPQRSTUVWXYZ'' @ ''abcdefghijklmnopqrstuvwxyz'' @ ''0123456789+/''"

definition char_array_4 :: "byte list \<Rightarrow> byte list" where
  "char_array_4 c3 =
     [drop_bit 2 (c3 ! 0 AND 0xfc),
      push_bit 4 (c3 ! 0 AND 0x03) + drop_bit 4 (c3 ! 1 AND 0xf0),
      push_bit 2 (c3 ! 1 AND 0x0f) + drop_bit 6 (c3 ! 2 AND 0xc0),
      c3 ! 2 AND 0x3f]"

definition b64_char :: "byte \<Rightarrow> char" where
  "b64_char b = base64_chars ! unat b"

fun encode_loop :: "byte list \<Rightarrow> byte list \<Rightarrow> nat \<Rightarrow> string \<Rightarrow> byte list \<times> nat \<times> string" where
  "encode_loop [] c3 i out = (c3, i, out)"
| "encode_loop (b # input) c3 i out =
     (let c3 = c3[i := b]; i = i + 1
      in if i = 3 then encode_loop input c3 0 (out @ map b64_char (char_array_4 c3))
         else encode_loop input c3 i out)"

definition zero_fill :: "byte list \<Rightarrow> nat \<Rightarrow> byte list" where
  "zero_fill c3 i = fold (\<lambda>j c. c[j := 0]) [i..<3] c3"

definition base64_encode :: "byte list \<Rightarrow> string" where
  "base64_encode input =
     (case encode_loop input (replicate 3 0) 0 [] of (c3, i, out) \<Rightarrow>
        if i \<noteq> 0
        then out @ map b64_char (take (i + 1) (char_array_4 (zero_fill c3 i))) @ replicate (3 - i) CHR ''=''
        else out)"

subsection \<open>The encoder in groups of three\<close>

fun encode_groups :: "byte list \<Rightarrow> string" where
  "encode_groups [] = []"
| "encode_groups [a] = map b64_char (take 2 (char_array_4 [a, 0, 0])) @ ''==''"
| "encode_groups [a, b] = map b64_char (take 3 (char_array_4 [a, b, 0])) @ ''=''"
| "encode_groups (a # b # c # input) = map b64_char (char_array_4 [a, b, c]) @ encode_groups input"

lemma length_three: "length c3 = 3 \<Longrightarrow> \<exists>x y z. c3 = [x, y, z]"
  by (auto simp: length_Suc_conv numeral_3_eq_3)

lemma encode_loop_out:
  "encode_loop input c3 i out = (case encode_loop input c3 i [] of (c, j, o') \<Rightarrow> (c, j, out @ o'))"
proof (induction input arbitrary: c3 i out)
  case (Cons b input)
  show ?case
    by (cases "i + 1 = 3")
      (use Cons [of _ _ "out @ _"] Cons [of _ _ "map b64_char (char_array_4 (c3[i := b]))"]
         Cons [of _ _ out] in \<open>auto simp: Let_def split: prod.splits\<close>)
qed simp

lemma base64_encode_groups: "base64_encode input = encode_groups input"
proof -
  have "(case encode_loop input c3 0 [] of (c3, i, out) \<Rightarrow>
        if i \<noteq> 0
        then out @ map b64_char (take (i + 1) (char_array_4 (zero_fill c3 i))) @ replicate (3 - i) CHR ''=''
        else out) = encode_groups input" if "length c3 = 3" for c3
    using that
  proof (induction input arbitrary: c3 rule: encode_groups.induct)
    case (4 a b c input)
    obtain x y z where "c3 = [x, y, z]" using length_three [OF 4(2)] by blast
    then show ?case
      using 4(1) [of "[a, b, c]"]
      by (simp add: numeral_2_eq_2 encode_loop_out [of _ _ _ "map b64_char _"] split: prod.splits if_splits)
  qed (auto dest!: length_three simp: zero_fill_def numeral_2_eq_2 upt_rec char_array_4_def)
  then show ?thesis by (simp add: base64_encode_def)
qed

subsection \<open>The decoder as specification\<close>

definition b64_value :: "char \<Rightarrow> byte option" where
  "b64_value ch = map_of (zip base64_chars (map of_nat [0..<64])) ch"

definition byte0 :: "byte \<Rightarrow> byte \<Rightarrow> byte" where
  "byte0 p q = push_bit 2 p OR drop_bit 4 q"

definition byte1 :: "byte \<Rightarrow> byte \<Rightarrow> byte" where
  "byte1 q r = push_bit 4 q OR drop_bit 2 r"

definition byte2 :: "byte \<Rightarrow> byte \<Rightarrow> byte" where
  "byte2 r s = push_bit 6 r OR s"

fun b64_decode :: "string \<Rightarrow> byte list option" where
  "b64_decode [] = Some []"
| "b64_decode (a # b # c # d # rest) =
     (case (b64_value a, b64_value b) of
        (Some p, Some q) \<Rightarrow>
          (case (b64_value c, b64_value d) of
             (Some r, Some s) \<Rightarrow>
               map_option (\<lambda>bs. byte0 p q # byte1 q r # byte2 r s # bs) (b64_decode rest)
           | (Some r, None) \<Rightarrow> if d = CHR ''='' \<and> rest = [] then Some [byte0 p q, byte1 q r] else None
           | (None, None) \<Rightarrow> if c = CHR ''='' \<and> d = CHR ''='' \<and> rest = [] then Some [byte0 p q] else None
           | _ \<Rightarrow> None)
      | _ \<Rightarrow> None)"
| "b64_decode _ = None"

lemma base64_chars_distinct: "distinct base64_chars" and base64_chars_length: "length base64_chars = 64"
  by (simp_all add: base64_chars_def)

lemma b64_value_char: "unat b < 64 \<Longrightarrow> b64_value (b64_char b) = Some b"
  using map_of_zip_nth [of base64_chars "map (of_nat :: nat \<Rightarrow> byte) [0..<64]" "unat b"]
  by (simp add: b64_value_def b64_char_def base64_chars_distinct base64_chars_length del: map_of_eq_Some_iff)

lemma b64_value_pad: "b64_value CHR ''='' = None"
  unfolding b64_value_def map_of_zip_is_None [of base64_chars "map (of_nat :: nat \<Rightarrow> byte) [0..<64]",
      unfolded base64_chars_length, simplified]
  by (simp add: base64_chars_def)

lemma b64_char_in: "unat b < 64 \<Longrightarrow> b64_char b \<in> set base64_chars"
  by (simp add: b64_char_def base64_chars_length)

lemma sextet_bound: "bit b 6 = False \<Longrightarrow> bit b 7 = False \<Longrightarrow> unat (b::byte) < 64"
proof -
  assume "bit b 6 = False" "bit b 7 = False"
  then have "b = take_bit 6 b"
    by (intro byte_eqI) (auto simp: bit_simps)
  then have "unat b = take_bit 6 (unat b)"
    by (metis unsigned_take_bit_eq)
  then show ?thesis
    using take_bit_nat_less_exp [of 6 "unat b"] by simp
qed

lemma sum_or_1: "push_bit 4 (x AND 0x03) + drop_bit 4 (y AND 0xf0) = push_bit 4 (x AND 0x03) OR drop_bit 4 ((y::byte) AND 0xf0)"
  by (rule disjunctive_add_eq_or, rule byte_eqI) (auto simp: byte_bits)

lemma sum_or_2: "push_bit 2 (x AND 0x0f) + drop_bit 6 (y AND 0xc0) = push_bit 2 (x AND 0x0f) OR drop_bit 6 ((y::byte) AND 0xc0)"
  by (rule disjunctive_add_eq_or, rule byte_eqI) (auto simp: byte_bits)

lemma char_array_4_or:
  "char_array_4 [a, b, c] =
     [drop_bit 2 (a AND 0xfc),
      push_bit 4 (a AND 0x03) OR drop_bit 4 (b AND 0xf0),
      push_bit 2 (b AND 0x0f) OR drop_bit 6 (c AND 0xc0),
      c AND 0x3f]"
proof -
  have "[a, b, c] ! 0 = a" "[a, b, c] ! 1 = b" "[a, b, c] ! 2 = c"
    by (simp_all add: numeral_2_eq_2)
  then show ?thesis by (simp only: char_array_4_def sum_or_1 sum_or_2)
qed

lemma char_array_4_sextets: "v \<in> set (char_array_4 [a, b, c]) \<Longrightarrow> unat v < 64"
  unfolding char_array_4_or by (rule sextet_bound) (auto simp: byte_bits)

lemma decode_group:
  assumes "char_array_4 [a, b, c] = [p, q, r, s]"
  shows "byte0 p q = a" and "byte1 q r = b" and "byte2 r s = c"
proof -
  have eqs: "p = drop_bit 2 (a AND 0xfc)"
    "q = push_bit 4 (a AND 0x03) OR drop_bit 4 (b AND 0xf0)"
    "r = push_bit 2 (b AND 0x0f) OR drop_bit 6 (c AND 0xc0)"
    "s = c AND 0x3f"
    using assms unfolding char_array_4_or list.inject by (blast dest: sym)+
  show "byte0 p q = a" unfolding byte0_def eqs by (rule byte_eqI) (auto simp: byte_bits)
  show "byte1 q r = b" unfolding byte1_def eqs by (rule byte_eqI) (auto simp: byte_bits)
  show "byte2 r s = c" unfolding byte2_def eqs by (rule byte_eqI) (auto simp: byte_bits)
qed

lemma char_array_4_ex: "\<exists>p q r s. char_array_4 c3 = [p, q, r, s]"
  by (simp add: char_array_4_def)

lemma decode_encode_groups: "b64_decode (encode_groups input) = Some input"
proof (induction input rule: encode_groups.induct)
  case (2 a)
  obtain p q r s where c4: "char_array_4 [a, 0, 0] = [p, q, r, s]" using char_array_4_ex by blast
  have "unat p < 64" "unat q < 64" using char_array_4_sextets [of _ a 0 0] c4 by auto
  then show ?case
    using c4 decode_group [OF c4] by (simp add: b64_value_char b64_value_pad numeral_2_eq_2)
next
  case (3 a b)
  obtain p q r s where c4: "char_array_4 [a, b, 0] = [p, q, r, s]" using char_array_4_ex by blast
  have "unat p < 64" "unat q < 64" "unat r < 64" using char_array_4_sextets [of _ a b 0] c4 by auto
  then show ?case
    using c4 decode_group [OF c4] by (simp add: b64_value_char b64_value_pad numeral_3_eq_3)
next
  case (4 a b c input)
  obtain p q r s where c4: "char_array_4 [a, b, c] = [p, q, r, s]" using char_array_4_ex by blast
  have "unat p < 64" "unat q < 64" "unat r < 64" "unat s < 64"
    using char_array_4_sextets [of _ a b c] c4 by auto
  then show ?case
    using c4 decode_group [OF c4] 4 by (simp add: b64_value_char)
qed simp

lemma length_encode_groups: "length (encode_groups input) = 4 * ((length input + 2) div 3)"
proof (induction input rule: encode_groups.induct)
  case (4 a b c input)
  have "length (char_array_4 [a, b, c]) = 4" by (simp add: char_array_4_def)
  moreover have "(length (a # b # c # input) + 2) div 3 = (length input + 2) div 3 + 1" by simp
  ultimately show ?case using 4 by simp
qed (simp_all add: char_array_4_def)

lemma set_encode_groups: "set (encode_groups input) \<subseteq> set base64_chars \<union> {CHR ''=''}"
proof (induction input rule: encode_groups.induct)
  case (2 a)
  then show ?case using char_array_4_sextets [of _ a 0 0] by (auto intro!: b64_char_in dest!: in_set_takeD)
next
  case (3 a b)
  then show ?case using char_array_4_sextets [of _ a b 0] by (auto intro!: b64_char_in dest!: in_set_takeD)
next
  case (4 a b c input)
  then show ?case using char_array_4_sextets [of _ a b c] by (auto intro!: b64_char_in)
qed simp

subsection \<open>What the encoder guarantees\<close>

text \<open>C35: decoding the output of \<open>base64_encode\<close> by the rules of the standard alphabet gives
  the input back, for every input length and padding.\<close>

theorem base64_roundtrip: "b64_decode (base64_encode input) = Some input"
  by (simp add: base64_encode_groups decode_encode_groups)

text \<open>The output has four characters for each started group of three bytes, all of them
  from the alphabet or the padding sign, so a 16-byte key fits the 32-byte buffer of
  \<open>WebSocketClient::sendHttpRequest\<close> with room for its terminating zero.\<close>

theorem base64_output:
  "length (base64_encode input) = 4 * ((length input + 2) div 3)
   \<and> set (base64_encode input) \<subseteq> set base64_chars \<union> {CHR ''=''}"
  using set_encode_groups [of input] by (simp add: base64_encode_groups length_encode_groups)

end
