(* ===== verification/HttpServe.thy ===== *)
theory HttpServe
  imports HttpCollect WsParser Base64
begin

section \<open>The HTTP server side: HttpHandle and its use in HttpServer\<close>

text \<open>
  A handle serves one connection: it feeds what it receives to its HTTP parser, calls the routed function
  when a message is complete, writes the dumped response, and after an upgrade to WebSocket feeds the
  frame parser and answers its messages. What the handle does to the outside is a list of actions:
  the data given to \<open>io_send_data\<close>, the calls of the WebSocket service, and the closing of the
  connection. The writes of the connection succeed here (what \<open>io_write\<close> does with others is in
  \<open>IoWrite\<close>), so none of them closes it. The cryptographic functions of OpenSSL are parameters. Closing the connection from within
  a message calls the close callback, which deletes the handle that is still running; that is the
  outcome \<open>Use_after_free\<close>, with the actions before it.
\<close>

subsection \<open>Bytes and characters\<close>

definition bytes_of :: "string \<Rightarrow> byte list" where
  "bytes_of s = map (\<lambda>c. of_nat (code c)) s"

definition text_of :: "byte list \<Rightarrow> string" where
  "text_of bs = map (\<lambda>b. char_of (unat b)) bs"

lemma text_of_bytes [simp]: "text_of (bytes_of s) = s"
proof -
  have "char_of (unat (of_nat (code c) :: byte)) = c" for c
    by (simp add: unat_of_nat)
  then show ?thesis by (induction s) (simp_all add: text_of_def bytes_of_def)
qed

lemma length_bytes_text [simp]: "length (bytes_of s) = length s" "length (text_of bs) = length bs"
  by (simp_all add: bytes_of_def text_of_def)

lemma bytes_of_append [simp]: "bytes_of (s @ t) = bytes_of s @ bytes_of t"
  by (simp add: bytes_of_def)

subsection \<open>The accept key\<close>

definition ws_guid :: string where
  "ws_guid = ''258EAFA5-E914-47DA-95CA-C5AB0DC85B11''"

definition ws_encode_key :: "(string \<Rightarrow> byte list) \<Rightarrow> (byte list \<Rightarrow> string) \<Rightarrow> string \<Rightarrow> string" where
  "ws_encode_key SHA1 EVP_EncodeBlock key =
     (let concatenated = take 127 (c_str key @ ws_guid);
          base64_output = EVP_EncodeBlock (SHA1 concatenated)
      in take 31 (c_str base64_output))"

subsection \<open>Handles\<close>

datatype SERVICE_TYPE = SERVICE_HTTP | SERVICE_WEBSOCKET

datatype handle_action = Io_send string | Ws_onopen HttpRequest | Ws_onmessage string ws_opcode | Ws_onclose | Io_close

datatype handle_fault = Parser_fault | No_return | Frame_overrun | Use_after_free "handle_action list"

record HttpHandle =
  hh_router :: HttpRouter
  hh_ps :: http_parser
  hh_parser :: HttpParser
  hh_wsBuffer :: "byte list"
  hh_wsService :: bool
  hh_serviceType :: SERVICE_TYPE
  hh_actions :: "handle_action list"

abbreviation m_request :: "HttpHandle \<Rightarrow> HttpRequest" where
  "m_request h \<equiv> hp_req (hh_parser h)"

abbreviation m_response :: "HttpHandle \<Rightarrow> HttpResponse" where
  "m_response h \<equiv> hp_resp (hh_parser h)"

definition act_on :: "handle_action \<Rightarrow> HttpHandle \<Rightarrow> HttpHandle" where
  "act_on a h = h\<lparr>hh_actions := hh_actions h @ [a]\<rparr>"

text \<open>\<open>on_accept\<close>: a new handle with its parser, request and response; \<open>mem\<close> is what the members hold
  that no constructor sets.\<close>

definition HttpHandle_new :: "HttpParser \<Rightarrow> HttpRouter \<Rightarrow> bool \<Rightarrow> HttpHandle" where
  "HttpHandle_new mem router service =
     \<lparr>hh_router = router, hh_ps = http_parser_init HTTP_BOTH,
      hh_parser = (HttpParser_new HTTP_PARSER_REQUEST mem)\<lparr>hp_req := HttpRequest_new (hp_req mem), hp_resp := HttpResponse_new (hp_resp mem)\<rparr>,
      hh_wsBuffer = [], hh_wsService = service, hh_serviceType = SERVICE_HTTP, hh_actions = []\<rparr>"

definition invokeHttpFunc :: "HttpHandle \<Rightarrow> HttpHandle option" where
  "invokeHttpFunc h =
     (case getHandleFunc (hp_method (hh_parser h)) (hp_url (hh_parser h)) (hh_router h) of
        None \<Rightarrow> None
      | Some func \<Rightarrow>
          let r = func (m_request h) (m_response h)
          in Some (h\<lparr>hh_parser := (hh_parser h)\<lparr>hp_req := fst r, hp_resp := snd r\<rparr>\<rparr>))"

definition sendHttpResponse :: "HttpHandle \<Rightarrow> HttpHandle" where
  "sendHttpResponse h =
     (case hh_serviceType h of
        SERVICE_HTTP \<Rightarrow>
          (case invokeHttpFunc h of
             None \<Rightarrow> h
           | Some h \<Rightarrow> act_on (Io_send (HttpResponse_dump HTTP_HEADER (m_response h))) h)
      | SERVICE_WEBSOCKET \<Rightarrow> act_on (Io_send (HttpResponse_dump WS_HEADER (m_response h))) h)"

definition isUpgradeWSProtocol :: "HttpHandle \<Rightarrow> bool" where
  "isUpgradeWSProtocol h \<longleftrightarrow>
     list_ex (\<lambda>it. strcaseeq (fst it) ''Upgrade'' \<and> strcaseeq (snd it) ''websocket'') (req_headers (m_request h))"

definition put_response :: "string \<Rightarrow> string \<Rightarrow> HttpHandle \<Rightarrow> HttpHandle" where
  "put_response k v h =
     h\<lparr>hh_parser := (hh_parser h)\<lparr>hp_resp := (m_response h)\<lparr>resp_headers := map_put k v (resp_headers (m_response h))\<rparr>\<rparr>\<rparr>"

definition upgradeWSProtocol :: "(string \<Rightarrow> string) \<Rightarrow> HttpHandle \<Rightarrow> HttpHandle" where
  "upgradeWSProtocol encode_key h =
     (let h = h\<lparr>hh_parser := (hh_parser h)\<lparr>hp_resp := (m_response h)\<lparr>resp_status_code := 101\<rparr>\<rparr>\<rparr>;
          h = put_response ''Upgrade'' ''websocket'' (put_response ''Connection'' ''Upgrade'' h);
          h = (case map_of (req_headers (m_request h)) ''Sec-WebSocket-Key'' of
                 None \<Rightarrow> h | Some key \<Rightarrow> put_response ''Sec-WebSocket-Accept'' (encode_key key) h);
          h = (case map_of (req_headers (m_request h)) ''Sec-WebSocket-Protocl'' of
                 None \<Rightarrow> h | Some p \<Rightarrow> put_response ''Sec-WebSocket-Protocl'' p h)
      in sendHttpResponse (h\<lparr>hh_serviceType := SERVICE_WEBSOCKET\<rparr>))"

definition switchWSProtocol :: "(string \<Rightarrow> string) \<Rightarrow> HttpHandle \<Rightarrow> HttpHandle" where
  "switchWSProtocol encode_key h =
     (let h = upgradeWSProtocol encode_key h
      in if hh_wsService h then act_on (Ws_onopen (m_request h)) h else h)"

text \<open>A frame that \<open>WebSocketChannel::sendFrame\<close> writes; it never masks, and it is final.\<close>

definition sendFrame :: "byte list \<Rightarrow> byte list \<Rightarrow> ws_opcode \<Rightarrow> handle_action" where
  "sendFrame key msg opcode = Io_send (text_of (build_ws_frame msg key False opcode True))"

text \<open>The \<open>onMessage\<close> of the frame parser. \<open>close\<close> runs the close callback and with it the destructor.\<close>

definition onMessage :: "byte \<times> byte list \<Rightarrow> HttpHandle \<Rightarrow> handle_fault + HttpHandle" where
  "onMessage m h =
     (let opcode = fst m; msg = snd m
      in if opcode = ws_opcode_code WS_OPCODE_TEXT then
           Inr (if hh_wsService h then act_on (Ws_onmessage (text_of msg) WS_OPCODE_TEXT) h else h)
         else if opcode = ws_opcode_code WS_OPCODE_BINARY then
           Inr (if hh_wsService h then act_on (Ws_onmessage (text_of msg) WS_OPCODE_BINARY) h else h)
         else if opcode = ws_opcode_code WS_OPCODE_CLOSE then
           Inl (Use_after_free (hh_actions h @ [sendFrame [0, 0, 0, 0] msg WS_OPCODE_CLOSE, Io_close] @
             (if hh_wsService h then [Ws_onclose] else [])))
         else if opcode = ws_opcode_code WS_OPCODE_PING then
           Inr (act_on (sendFrame [0, 0, 0, 0] [] WS_OPCODE_PONG) h)
         else Inr h)"

fun onMessages :: "(byte \<times> byte list) list \<Rightarrow> HttpHandle \<Rightarrow> handle_fault + HttpHandle" where
  "onMessages [] h = Inr h"
| "onMessages (m # ms) h = (case onMessage m h of Inl e \<Rightarrow> Inl e | Inr h \<Rightarrow> onMessages ms h)"

text \<open>What the handle does with received data; \<open>-1\<close> when the parser stops early.\<close>

definition HttpHandle_feedRecvData :: "(string \<Rightarrow> string) \<Rightarrow> HttpHandle \<Rightarrow> string \<Rightarrow> handle_fault + int \<times> HttpHandle" where
  "HttpHandle_feedRecvData encode_key h d =
     (case hh_serviceType h of
        SERVICE_HTTP \<Rightarrow>
          (case HttpParser_feedRecvData (hh_ps h) (hh_parser h) d of
             None \<Rightarrow> Inl Parser_fault
           | Some r \<Rightarrow>
               let h = h\<lparr>hh_ps := fst (snd r), hh_parser := snd (snd r)\<rparr>
               in if fst r \<noteq> length d then Inr (-1, h)
                  else Inr (int (length d),
                    if isComplete (hh_parser h)
                    then (if isUpgradeWSProtocol h then switchWSProtocol encode_key h else sendHttpResponse h)
                    else h))
      | SERVICE_WEBSOCKET \<Rightarrow>
          (case ws_feedRecvData True (hh_wsBuffer h) (bytes_of d) of
             None \<Rightarrow> Inl No_return
           | Some (Inl e) \<Rightarrow> Inl Frame_overrun
           | Some (Inr (msgs, rest)) \<Rightarrow>
               (case onMessages msgs (h\<lparr>hh_wsBuffer := rest\<rparr>) of Inl e \<Rightarrow> Inl e | Inr h \<Rightarrow> Inr (int (length d), h))))"

text \<open>The read callback of the server: the connection is closed when not all bytes were taken.\<close>

definition on_recv :: "(string \<Rightarrow> string) \<Rightarrow> HttpHandle \<Rightarrow> string \<Rightarrow> handle_fault + HttpHandle" where
  "on_recv encode_key h d =
     (case HttpHandle_feedRecvData encode_key h d of
        Inl e \<Rightarrow> Inl e
      | Inr r \<Rightarrow> Inr (if fst r \<noteq> int (length d) then act_on Io_close (snd r) else snd r))"

subsection \<open>Serving requests\<close>

definition handle_idle :: "HttpHandle \<Rightarrow> bool" where
  "handle_idle h \<longleftrightarrow> hh_serviceType h = SERVICE_HTTP \<and> awaits_request (hh_ps h) \<and> hp_idle (hh_parser h) \<and> \<not> isUpgradeWSProtocol h"

definition fits_request :: "HttpHandle \<Rightarrow> request \<Rightarrow> bool" where
  "fits_request h r \<longleftrightarrow> plain_request r \<and> length (request_head r) \<le> HTTP_MAX_HEADER_SIZE \<and>
     (state (hh_ps h) = s_start_req_or_res \<longrightarrow> rq_method r \<noteq> HTTP_HEAD)"

lemma map_put_set: "set (map_put k v m) \<subseteq> insert (k, v) (set m)"
  by (induction k v m rule: map_put.induct) auto

lemma put_headers_set: "set (put_headers hs m) \<subseteq> set hs \<union> set m"
proof (induction hs arbitrary: m)
  case (Cons h hs)
  then show ?case using map_put_set [of "fst h" "snd h" m] by fastforce
qed simp

text \<open>A name that is the upgrade name for \<open>strcasecmp\<close> is so for the parser.\<close>

lemma tokens_lower:
  assumes "n < 128" "tokens ! n \<noteq> 0"
  shows "tokens ! n = (if 65 \<le> n \<and> n \<le> 90 then n + 32 else n)"
proof -
  have "list_all (\<lambda>(n, v). v \<noteq> 0 \<longrightarrow> v = (if 65 \<le> n \<and> n \<le> 90 then n + 32 else n)) (enumerate 0 tokens)"
    by (simp add: tokens_def)
  moreover have "length tokens = 128" by (simp add: tokens_def)
  then have "(n, tokens ! n) \<in> set (enumerate 0 tokens)" using assms(1) by (simp add: in_set_enumerate_eq)
  ultimately show ?thesis using assms(2) unfolding list_all_iff by fastforce
qed

lemma token_lower: "TOKEN c \<noteq> NUL \<Longrightarrow> TOKEN c = to_lower c"
proof -
  assume A: "TOKEN c \<noteq> NUL"
  then have c: "c \<noteq> CHR '' ''" "code c < 128" "TOKEN c = char_of (tokens ! code c)"
    by (auto simp: TOKEN_def STRICT_TOKEN_def split: if_splits)
  have "tokens ! code c \<noteq> 0"
  proof
    assume "tokens ! code c = 0"
    then have "TOKEN c = NUL" using c(3) by (simp add: char_of_0)
    then show False using A by simp
  qed
  from tokens_lower [OF c(2) this] show "TOKEN c = to_lower c" using c(3) by (simp add: to_lower_def)
qed

lemma plain_header_not_upgrade:
  assumes "plain_header h"
  shows "\<not> strcaseeq (fst h) ''Upgrade''"
proof
  assume U: "strcaseeq (fst h) ''Upgrade''"
  have T: "\<forall>c\<in>set (fst h). TOKEN c \<noteq> NUL" using assms by (simp add: plain_header_def)
  then have "\<forall>c\<in>set (fst h). c \<noteq> NUL" by (auto simp: TOKEN_def STRICT_TOKEN_def tokens_def char_of_0)
  then have "c_str (fst h) = fst h" by (simp add: c_str_def takeWhile_eq_all_conv)
  moreover have "map to_lower (c_str ''Upgrade'') = ''upgrade''" by (simp add: to_lower_def c_str_def char_of_def bit_0)
  moreover have "map TOKEN (fst h) = map to_lower (fst h)" using T token_lower by simp
  ultimately have "map TOKEN (fst h) = ''upgrade''" using U unfolding strcaseeq_def by (metis (no_types))
  then show False using assms by (simp add: plain_header_def special_names_def)
qed

lemma request_not_upgrade:
  assumes "plain_request r" "\<not> list_ex (\<lambda>it. strcaseeq (fst it) ''Upgrade'' \<and> P it) m"
  shows "\<not> list_ex (\<lambda>it. strcaseeq (fst it) ''Upgrade'' \<and> P it) (put_headers (message_headers (rq_headers r) (rq_body r)) m)"
proof -
  have "\<not> strcaseeq (fst h) ''Upgrade''" if "h \<in> set (message_headers (rq_headers r) (rq_body r))" for h
  proof -
    have "\<not> strcaseeq ''Content-Length'' ''Upgrade''" by (simp add: strcaseeq_def c_str_def)
    moreover have "fst h = ''Content-Length'' \<or> plain_header h"
      using that assms(1) by (auto simp: message_headers_def length_header_def plain_request_def split: option.splits)
    ultimately show ?thesis using plain_header_not_upgrade by metis
  qed
  then show ?thesis
    using assms(2) put_headers_set [of "message_headers (rq_headers r) (rq_body r)" m] by (auto simp: list_ex_iff)
qed

text \<open>What is done for a request when the handle has collected \<open>url\<close>, a request and a response.\<close>

definition answer :: "HttpRouter \<Rightarrow> http_method \<Rightarrow> string \<Rightarrow> HttpRequest \<Rightarrow> HttpResponse \<Rightarrow> handle_action list" where
  "answer R m url req resp =
     (case getHandleFunc m url R of
        None \<Rightarrow> []
      | Some func \<Rightarrow> [Io_send (HttpResponse_dump HTTP_HEADER (snd (func req resp)))])"

lemma sendHttpResponse_answer:
  assumes "hh_serviceType h = SERVICE_HTTP"
  shows "hh_actions (sendHttpResponse h) = hh_actions h @
      answer (hh_router h) (hp_method (hh_parser h)) (hp_url (hh_parser h)) (m_request h) (m_response h)"
    "hh_router (sendHttpResponse h) = hh_router h" "hh_ps (sendHttpResponse h) = hh_ps h"
    "hh_serviceType (sendHttpResponse h) = SERVICE_HTTP" "hp_url (hh_parser (sendHttpResponse h)) = hp_url (hh_parser h)"
    "hp_header_field (hh_parser (sendHttpResponse h)) = hp_header_field (hh_parser h)"
    "hp_header_value (hh_parser (sendHttpResponse h)) = hp_header_value (hh_parser h)"
    "hp_type (hh_parser (sendHttpResponse h)) = hp_type (hh_parser h)"
  using assms
  by (simp_all add: sendHttpResponse_def invokeHttpFunc_def answer_def act_on_def Let_def split: option.split)

lemma feed_served:
  assumes h: "handle_idle h" and r: "fits_request h r"
  shows "\<exists>ps. HttpHandle_feedRecvData ek h (request_text r) =
      Inr (int (length (request_text r)), sendHttpResponse (h\<lparr>hh_ps := ps, hh_parser := collected r (hh_parser h)\<rparr>)) \<and>
    awaits_request ps \<and> state ps = s_start_req"
proof -
  obtain ps where ps: "HttpParser_feedRecvData (hh_ps h) (hh_parser h) (request_text r) =
      Some (length (request_text r), ps, collected r (hh_parser h))" "awaits_request ps" "state ps = s_start_req"
    using feed_request [of "hh_ps h" "hh_parser h" r] h r by (auto simp: handle_idle_def fits_request_def)
  have "\<not> isUpgradeWSProtocol (h\<lparr>hh_ps := ps, hh_parser := collected r (hh_parser h)\<rparr>)"
    using request_not_upgrade [of r _ "req_headers (m_request h)"] h r
    by (simp add: isUpgradeWSProtocol_def collected_def request_into_def handle_idle_def fits_request_def)
  moreover have "isComplete (collected r (hh_parser h))" by (simp add: isComplete_def collected_def)
  ultimately show ?thesis
    using ps h by (intro exI [of _ ps]) (simp add: HttpHandle_feedRecvData_def handle_idle_def)
qed

lemma new_handle_idle: "handle_idle (HttpHandle_new mem R service)"
  by (simp add: handle_idle_def HttpHandle_new_def awaits_init hp_idle_def hp_clear_def HttpParser_new_def
      isUpgradeWSProtocol_def HttpRequest_new_def)

end
