(* ===== verification/HttpRoutes.thy ===== *)
theory HttpRoutes
  imports HttpObjects
begin

section \<open>What the router promises\<close>

text \<open>
  The contract between the router and the handle that asks it: the table finds, for a method and a path,
  the function registered last for them. It is stated for any table, proved once for a sequence of
  registrations, and discharged for \<open>HttpRouter\<close>, whose keys are the path behind a prefix for the method.
\<close>

locale route_table =
  fixes empty_table :: 't
    and enter :: "'m \<Rightarrow> 'p \<Rightarrow> 'f \<Rightarrow> 't \<Rightarrow> 't"
    and look :: "'m \<Rightarrow> 'p \<Rightarrow> 't \<Rightarrow> 'f option"
    and name :: "'p \<Rightarrow> 'n"
    and routable :: "'m \<Rightarrow> bool"
  assumes look_empty: "look m p empty_table = None"
    and look_enter: "routable m \<Longrightarrow> look m' p' (enter m p f t) = (if m' = m \<and> name p' = name p then Some f else look m' p' t)"
begin

definition enter_all :: "('m \<times> 'p \<times> 'f) list \<Rightarrow> 't \<Rightarrow> 't" where
  "enter_all rs t = fold (\<lambda>(m, p, f). enter m p f) rs t"

lemma look_enter_all:
  assumes "\<forall>r\<in>set rs. routable (fst r)"
  shows "look m p (enter_all rs t) =
    (case map_of (rev (map (\<lambda>(m, p, f). ((m, name p), f)) rs)) (m, name p) of None \<Rightarrow> look m p t | Some f \<Rightarrow> Some f)"
  using assms
proof (induction rs arbitrary: t)
  case (Cons r rs)
  obtain m' p' f where r: "r = (m', p', f)" by (cases r)
  show ?case
    using Cons.IH [of "enter m' p' f t"] Cons.prems
    by (auto simp: r enter_all_def look_enter map_add_def split: option.splits)
qed (simp add: enter_all_def)

lemma look_all:
  "\<forall>r\<in>set rs. routable (fst r) \<Longrightarrow>
   look m p (enter_all rs empty_table) = map_of (rev (map (\<lambda>(m, p, f). ((m, name p), f)) rs)) (m, name p)"
  by (simp add: look_enter_all look_empty split: option.split)

end

definition routable_method :: "http_method \<Rightarrow> bool" where
  "routable_method m \<longleftrightarrow> m \<in> {HTTP_GET, HTTP_POST, HTTP_PUT, HTTP_DELETE}"

text \<open>The registration for a method, by the member function of its name.\<close>

definition HttpRouter_add :: "http_method \<Rightarrow> string \<Rightarrow> handle_func \<Rightarrow> HttpRouter \<Rightarrow> HttpRouter" where
  "HttpRouter_add m path func R =
     (if m = HTTP_GET then HttpRouter_get path func R
      else if m = HTTP_POST then HttpRouter_post path func R
      else if m = HTTP_PUT then HttpRouter_put path func R
      else if m = HTTP_DELETE then HttpRouter_del path func R
      else R)"

lemma c_str_c_str [simp]: "c_str (c_str s) = c_str s"
  by (simp add: c_str_def)

lemma c_str_keys:
  "c_str (CHR ''G'' # s) = CHR ''G'' # c_str s" "c_str (CHR ''P'' # s) = CHR ''P'' # c_str s"
  "c_str (CHR ''D'' # s) = CHR ''D'' # c_str s" "c_str (CHR ''E'' # s) = CHR ''E'' # c_str s"
  "c_str (CHR ''T'' # s) = CHR ''T'' # c_str s" "c_str (CHR ''O'' # s) = CHR ''O'' # c_str s"
  "c_str (CHR ''S'' # s) = CHR ''S'' # c_str s" "c_str (CHR ''U'' # s) = CHR ''U'' # c_str s"
  "c_str (CHR ''L'' # s) = CHR ''L'' # c_str s" "c_str (CHR ''_'' # s) = CHR ''_'' # c_str s"
  by (simp_all add: c_str_def)

lemma getHandleFunc_add:
  assumes "routable_method m"
  shows "getHandleFunc m' path' (HttpRouter_add m path func R) =
    (if m' = m \<and> c_str path' = c_str path then Some func else getHandleFunc m' path' R)"
  using assms
  by (auto simp: routable_method_def HttpRouter_add_def HttpRouter_get_def HttpRouter_post_def HttpRouter_put_def
      HttpRouter_del_def addRouter_def getHandleFunc_def map_of_put c_str_keys)

interpretation routes: route_table "[]" HttpRouter_add getHandleFunc c_str routable_method
  by unfold_locales (simp add: getHandleFunc_def, rule getHandleFunc_add)

abbreviation register_all :: "(http_method \<times> string \<times> handle_func) list \<Rightarrow> HttpRouter" where
  "register_all rs \<equiv> fold (\<lambda>(m, p, f). HttpRouter_add m p f) rs []"

text \<open>C22: The router is a table by method and path. After any sequence of registrations, a lookup finds the
  function registered last for this method and this path (both up to the first zero character), and no
  other; routes of different methods or paths do not disturb each other, although all share one map of
  prefixed strings.\<close>
theorem router_dispatch:
  assumes "\<forall>r\<in>set rs. routable_method (fst r)"
  shows "getHandleFunc m path (register_all rs) =
    map_of (rev (map (\<lambda>(m, p, f). ((m, c_str p), f)) rs)) (m, c_str path)"
  using routes.look_all [OF assms] by (simp add: routes.enter_all_def)

lemma router_dispatch_witness:
  "getHandleFunc HTTP_PUT ''/a'' (register_all [(HTTP_GET, ''/a'', \<lambda>q p. (q, p)), (HTTP_PUT, ''/a'', \<lambda>q p. (q, p)),
      (HTTP_PUT, ''/a'', \<lambda>q p. (q, p\<lparr>resp_body := ''x''\<rparr>)), (HTTP_PUT, ''/b'', \<lambda>q p. (q, p))]) =
    Some (\<lambda>q p. (q, p\<lparr>resp_body := ''x''\<rparr>))"
  by (subst router_dispatch) (simp_all add: routable_method_def c_str_def)

end
