(* ===== verification/HttpServing.thy ===== *)
theory HttpServing
  imports HttpServe HttpRoutes
begin

section \<open>What the server answers\<close>

text \<open>
  The handle of a connection over whole exchanges: a sequence of requests, a request whose body arrives
  after its head, what the parser object of a client gets from the bytes of a response, and the messages
  of an upgraded connection.
\<close>

subsection \<open>A sequence of requests\<close>

fun recv_all :: "(string \<Rightarrow> string) \<Rightarrow> string list \<Rightarrow> HttpHandle \<Rightarrow> handle_fault + HttpHandle" where
  "recv_all ek [] h = Inr h"
| "recv_all ek (d # ds) h = (case on_recv ek h d of Inl e \<Rightarrow> Inl e | Inr h \<Rightarrow> recv_all ek ds h)"

text \<open>What is sent for requests that come one after the other, when \<open>url\<close>, a request and a response have
  been collected before.\<close>

fun answers :: "HttpRouter \<Rightarrow> request list \<Rightarrow> string \<Rightarrow> HttpRequest \<Rightarrow> HttpResponse \<Rightarrow> handle_action list" where
  "answers R [] url q p = []"
| "answers R (r # rs) url q p =
     (let url = url @ rq_url r; q = request_into r q
      in case getHandleFunc (rq_method r) url R of
           None \<Rightarrow> answers R rs url q p
         | Some func \<Rightarrow> Io_send (HttpResponse_dump HTTP_HEADER (snd (func q p))) #
             answers R rs url (fst (func q p)) (snd (func q p)))"

text \<open>No function of the table turns a request into one that asks for an upgrade.\<close>

definition asks_upgrade :: "HttpRequest \<Rightarrow> bool" where
  "asks_upgrade q \<longleftrightarrow> list_ex (\<lambda>it. strcaseeq (fst it) ''Upgrade'' \<and> strcaseeq (snd it) ''websocket'') (req_headers q)"

definition plain_routes :: "HttpRouter \<Rightarrow> bool" where
  "plain_routes R \<longleftrightarrow> (\<forall>r\<in>set R. \<forall>q p. \<not> asks_upgrade q \<longrightarrow> \<not> asks_upgrade (fst (snd r q p)))"

lemma plain_routes_found:
  "plain_routes R \<Longrightarrow> getHandleFunc m url R = Some func \<Longrightarrow> \<not> asks_upgrade q \<Longrightarrow> \<not> asks_upgrade (fst (func q p))"
  by (auto simp: plain_routes_def getHandleFunc_def split: if_splits dest!: map_of_SomeD)

lemma isUpgrade_asks: "isUpgradeWSProtocol h = asks_upgrade (m_request h)"
  by (simp add: isUpgradeWSProtocol_def asks_upgrade_def)

lemma request_into_asks: "plain_request r \<Longrightarrow> \<not> asks_upgrade q \<Longrightarrow> \<not> asks_upgrade (request_into r q)"
  using request_not_upgrade by (simp add: asks_upgrade_def request_into_def)

lemma sendHttpResponse_request:
  assumes "hh_serviceType h = SERVICE_HTTP" "plain_routes (hh_router h)" "\<not> asks_upgrade (m_request h)"
  shows "\<not> asks_upgrade (m_request (sendHttpResponse h))"
  using assms plain_routes_found
  by (auto simp: sendHttpResponse_def invokeHttpFunc_def act_on_def Let_def split: option.split)

lemma sendHttpResponse_idle:
  assumes "hh_serviceType h = SERVICE_HTTP" "plain_routes (hh_router h)" "\<not> asks_upgrade (m_request h)"
    and "awaits_request (hh_ps h)" "hp_idle (hh_parser h)"
  shows "handle_idle (sendHttpResponse h)"
  using sendHttpResponse_answer [OF assms(1)] sendHttpResponse_request [OF assms(1-3)] assms(4,5)
  by (simp add: handle_idle_def isUpgrade_asks hp_idle_def hp_clear_def)

lemma recv_served:
  assumes h: "handle_idle h" "plain_routes (hh_router h)" and r: "fits_request h r"
  shows "\<exists>ps. on_recv ek h (request_text r) = Inr (sendHttpResponse (h\<lparr>hh_ps := ps, hh_parser := collected r (hh_parser h)\<rparr>)) \<and>
    state ps = s_start_req \<and> handle_idle (sendHttpResponse (h\<lparr>hh_ps := ps, hh_parser := collected r (hh_parser h)\<rparr>))"
proof -
  obtain ps where ps: "HttpHandle_feedRecvData ek h (request_text r) =
      Inr (int (length (request_text r)), sendHttpResponse (h\<lparr>hh_ps := ps, hh_parser := collected r (hh_parser h)\<rparr>))"
    "awaits_request ps" "state ps = s_start_req"
    using feed_served [OF h(1) r, of ek] by auto
  have "\<not> asks_upgrade (request_into r (m_request h))"
    using request_into_asks h(1) r by (simp add: handle_idle_def isUpgrade_asks fits_request_def)
  then have "handle_idle (sendHttpResponse (h\<lparr>hh_ps := ps, hh_parser := collected r (hh_parser h)\<rparr>))"
    using h ps(2) by (intro sendHttpResponse_idle) (simp_all add: handle_idle_def, simp add: collected_def)
  then show ?thesis using ps by (auto simp: on_recv_def)
qed

lemma serve_all:
  assumes "handle_idle h" "plain_routes (hh_router h)"
    and "\<forall>r\<in>set rs. plain_request r \<and> length (request_head r) \<le> HTTP_MAX_HEADER_SIZE"
    and "state (hh_ps h) = s_start_req_or_res \<Longrightarrow> rs \<noteq> [] \<Longrightarrow> rq_method (hd rs) \<noteq> HTTP_HEAD"
  shows "\<exists>h'. recv_all ek (map request_text rs) h = Inr h' \<and> handle_idle h' \<and>
    hh_actions h' = hh_actions h @ answers (hh_router h) rs (hp_url (hh_parser h)) (m_request h) (m_response h)"
  using assms
proof (induction rs arbitrary: h)
  case (Cons r rs)
  have "fits_request h r" using Cons.prems by (simp add: fits_request_def)
  from recv_served [OF Cons.prems(1,2) this, of ek]
  obtain ps where ps: "on_recv ek h (request_text r) = Inr (sendHttpResponse (h\<lparr>hh_ps := ps, hh_parser := collected r (hh_parser h)\<rparr>))"
    "state ps = s_start_req" "handle_idle (sendHttpResponse (h\<lparr>hh_ps := ps, hh_parser := collected r (hh_parser h)\<rparr>))"
    by auto
  let ?h = "h\<lparr>hh_ps := ps, hh_parser := collected r (hh_parser h)\<rparr>"
  have T: "hh_serviceType ?h = SERVICE_HTTP" using Cons.prems(1) by (simp add: handle_idle_def)
  obtain h' where h': "recv_all ek (map request_text rs) (sendHttpResponse ?h) = Inr h'" "handle_idle h'"
    "hh_actions h' = hh_actions (sendHttpResponse ?h) @ answers (hh_router h) rs (hp_url (hh_parser (sendHttpResponse ?h)))
      (m_request (sendHttpResponse ?h)) (m_response (sendHttpResponse ?h))"
    using Cons.IH [OF ps(3)] Cons.prems ps(2) sendHttpResponse_answer(2,3) [OF T] by auto
  have "answers (hh_router h) (r # rs) (hp_url (hh_parser h)) (m_request h) (m_response h) =
      answer (hh_router h) (rq_method r) (hp_url (hh_parser ?h)) (m_request ?h) (m_response ?h) @
      answers (hh_router h) rs (hp_url (hh_parser (sendHttpResponse ?h))) (m_request (sendHttpResponse ?h)) (m_response (sendHttpResponse ?h))"
    using T by (simp add: collected_def answer_def sendHttpResponse_def invokeHttpFunc_def act_on_def Let_def split: option.split)
  then show ?case
    using ps(1) h' sendHttpResponse_answer(1) [OF T] by (simp add: collected_def)
qed simp

text \<open>Values for the members that no constructor sets.\<close>

definition sample_memory :: HttpParser where
  "sample_memory = \<lparr>hp_url = [], hp_method = HTTP_POST, hp_header_field = [], hp_header_value = [], hp_headers = [],
     hp_req = \<lparr>req_url = [], req_u = \<lparr>u_scheme = [], u_host = [], u_port = 0, u_path = []\<rparr>, req_method = HTTP_DELETE,
       req_headers = [], req_body = [], req_status_code = 0, req_retry = 0, req_timeout = 0\<rparr>,
     hp_resp = \<lparr>resp_headers = [], resp_body = [], resp_status_code = 0\<rparr>,
     hp_type = HTTP_PARSER_REQUEST, hp_state = HP_START_REQ_OR_RES\<rparr>"

text \<open>A function that answers with the body of the request.\<close>

definition echo :: handle_func where
  "echo q p = (q, p\<lparr>resp_body := req_body q\<rparr>)"

definition sample_routes :: HttpRouter where
  "sample_routes = HttpRouter_post ''/a'' echo (HttpRouter_get ''/a'' echo [])"

lemma sample_routes_plain: "plain_routes sample_routes"
  by (simp add: sample_routes_def HttpRouter_post_def HttpRouter_get_def addRouter_def plain_routes_def echo_def c_str_keys)

lemma sample_routes_found:
  "getHandleFunc HTTP_GET ''/a'' sample_routes = Some echo" "getHandleFunc HTTP_POST ''/a'' sample_routes = Some echo"
  "getHandleFunc HTTP_GET ''/a/a'' sample_routes = None"
  by (simp_all add: sample_routes_def HttpRouter_post_def HttpRouter_get_def addRouter_def getHandleFunc_def c_str_def)

text \<open>What a connection is answered. A new connection that receives requests one after the other, each
  in one piece (any method but CONNECT, any accepted URL, headers without a meaning to the parser, a body
  with its Content-Length), takes them all without closing; for each the function routed for its method is
  called with the collected request, and the response is sent in order; a request without a route is not
  answered. The URL that is looked up and the request's headers and body are those collected since the
  connection was accepted.\<close>
theorem connection_answers:
  assumes "plain_routes R" "rs \<noteq> []" "rq_method (hd rs) \<noteq> HTTP_HEAD"
    and "\<forall>r\<in>set rs. plain_request r \<and> length (request_head r) \<le> HTTP_MAX_HEADER_SIZE"
  shows "\<exists>h'. recv_all ek (map request_text rs) (HttpHandle_new mem R service) = Inr h' \<and>
    hh_actions h' = answers R rs [] (HttpRequest_new (hp_req mem)) (HttpResponse_new (hp_resp mem))"
  using serve_all [OF new_handle_idle [of mem R service], of rs ek] assms
  by (auto simp: HttpHandle_new_def HttpParser_new_def)

lemma connection_answers_witness:
  "\<exists>h'. recv_all (\<lambda>k. k) (map request_text [sample_request HTTP_POST (Some ''xyz'')])
      (HttpHandle_new sample_memory sample_routes False) = Inr h' \<and>
    hh_actions h' = [Io_send (HTTP_HEADER @ ''Content-Length: '' @ dec 3 @ CRLF @ CRLF @ ''xyz'')]"
proof -
  have "answers sample_routes [sample_request HTTP_POST (Some ''xyz'')] [] (HttpRequest_new (hp_req sample_memory))
      (HttpResponse_new (hp_resp sample_memory)) = [Io_send (HTTP_HEADER @ ''Content-Length: '' @ dec 3 @ CRLF @ CRLF @ ''xyz'')]"
    using sample_routes_found(2) fmt_d_small [of "Suc (Suc (Suc 0))"]
    by (simp add: numeral_3_eq_3 sample_request_def echo_def HttpResponse_dump_def request_into_def body_text_def HttpRequest_new_def
        HttpResponse_new_def sample_memory_def)
  then show ?thesis
    using connection_answers [OF sample_routes_plain, of "[sample_request HTTP_POST (Some ''xyz'')]" "\<lambda>k. k" sample_memory False]
      sample_plain [of HTTP_POST "Some ''xyz''"]
    by (simp add: HTTP_MAX_HEADER_SIZE_def sample_request_def)
qed

text \<open>A second request on a connection is lost. The URL of the parser object is never cleared, so the
  second request of a connection is looked up under the concatenation of both URLs; unless a function
  is registered under that name, nothing is sent for it and the connection stays open, whatever is
  registered for the URL that was asked for.\<close>
theorem second_request_lost:
  assumes "plain_routes R" "plain_request r1" "plain_request r2" "rq_method r1 \<noteq> HTTP_HEAD"
    and "length (request_head r1) \<le> HTTP_MAX_HEADER_SIZE" "length (request_head r2) \<le> HTTP_MAX_HEADER_SIZE"
    and "getHandleFunc (rq_method r2) (rq_url r1 @ rq_url r2) R = None"
  shows "\<exists>h'. recv_all ek [request_text r1, request_text r2] (HttpHandle_new mem R service) = Inr h' \<and>
    hh_actions h' = answer R (rq_method r1) (rq_url r1) (request_into r1 (HttpRequest_new (hp_req mem))) (HttpResponse_new (hp_resp mem))"
  using serve_all [OF new_handle_idle [of mem R service], of "[r1, r2]" ek] assms
  by (auto simp: HttpHandle_new_def HttpParser_new_def answer_def split: option.splits)

lemma second_request_lost_witness:
  "\<exists>h'. recv_all (\<lambda>k. k) [request_text (sample_request HTTP_GET None), request_text (sample_request HTTP_GET None)]
      (HttpHandle_new sample_memory sample_routes False) = Inr h' \<and>
    hh_actions h' = answer sample_routes HTTP_GET ''/a'' (request_into (sample_request HTTP_GET None) (HttpRequest_new (hp_req sample_memory)))
      (HttpResponse_new (hp_resp sample_memory)) \<and> length (hh_actions h') = 1"
proof -
  have "length (answer sample_routes HTTP_GET ''/a'' q p) = 1" for q p
    using sample_routes_found(1) by (simp add: answer_def)
  then show ?thesis
    using second_request_lost [OF sample_routes_plain, of "sample_request HTTP_GET None" "sample_request HTTP_GET None" "\<lambda>k. k" sample_memory False]
      sample_plain [of HTTP_GET None] sample_routes_found(3)
    by (auto simp: HTTP_MAX_HEADER_SIZE_def sample_request_def)
qed

subsection \<open>A body that arrives after the head\<close>

lemma not_upgrade_actions:
  "\<not> asks_upgrade (m_request h) \<Longrightarrow>
   (if isUpgradeWSProtocol h then switchWSProtocol ek h else sendHttpResponse h) = sendHttpResponse h"
  by (simp add: isUpgrade_asks)

lemma feed_head:
  assumes h: "handle_idle h" and r: "fits_request h r" "body_text (rq_body r) \<noteq> []"
  shows "\<exists>ps. on_recv ek h (request_head r) = Inr (sendHttpResponse (h\<lparr>hh_ps := ps, hh_parser := head_collected r (hh_parser h)\<rparr>)) \<and>
    http_errno ps = HPE_OK \<and> state ps = s_body_identity \<and> nread ps = 0 \<and> \<not> upgrade ps \<and> \<not> lenient_http_headers ps \<and>
    framed (head_of ps) \<and> h_type (head_of ps) = HTTP_REQUEST \<and> h_method (head_of ps) = rq_method r \<and>
    h_length (head_of ps) = length (body_text (rq_body r))"
proof -
  obtain x where x: "http_parser_execute HttpParser_cbs HTTP_MAX_HEADER_SIZE (hh_ps h) (hh_parser h) (request_head r) =
      Some (Ret (length (request_head r)) x)"
    "http_errno (parser x) = HPE_OK" "state (parser x) = s_body_identity" "nread (parser x) = 0" "\<not> upgrade (parser x)"
    "\<not> lenient_http_headers (parser x)" "framed (head_of (parser x))" "h_type (head_of (parser x)) = HTTP_REQUEST"
    "h_method (head_of (parser x)) = rq_method r" "h_length (head_of (parser x)) = length (body_text (rq_body r))"
    "udata x = fold hp_act (head_events r) (hh_parser h)"
    using hp.head_run [of "hh_ps h" HTTP_MAX_HEADER_SIZE r "hh_parser h"] h r
    by (auto simp: handle_idle_def fits_request_def HTTP_MAX_HEADER_SIZE_def)
  have u: "udata x = head_collected r (hh_parser h)"
    using x(11) hp_act_head [of "hh_parser h" r] plain_request_names [of r] h r(1) by (simp add: handle_idle_def fits_request_def)
  let ?h = "h\<lparr>hh_ps := parser x, hh_parser := head_collected r (hh_parser h)\<rparr>"
  have "\<not> asks_upgrade (m_request ?h)"
    using request_not_upgrade [of r _ "req_headers (m_request h)"] h r(1)
    by (simp add: handle_idle_def fits_request_def isUpgrade_asks asks_upgrade_def head_collected_def)
  moreover have "isComplete (head_collected r hp)" for hp by (simp add: isComplete_def head_collected_def)
  moreover have "hh_serviceType h = SERVICE_HTTP" using h by (simp add: handle_idle_def)
  ultimately show ?thesis
    using x(1-10) u not_upgrade_actions [of ?h]
    by (intro exI [of _ "parser x"]) (simp add: on_recv_def HttpHandle_feedRecvData_def HttpParser_feedRecvData_def Let_def)
qed

definition body_collected :: "request \<Rightarrow> HttpParser \<Rightarrow> HttpParser" where
  "body_collected r hp = hp\<lparr>hp_req := (hp_req hp)\<lparr>req_body := req_body (hp_req hp) @ body_text (rq_body r)\<rparr>,
     hp_state := HP_MESSAGE_COMPLETE, hp_method := rq_method r\<rparr>"

lemma feed_tail:
  assumes ps: "http_errno (hh_ps h) = HPE_OK" "state (hh_ps h) = s_body_identity" "nread (hh_ps h) = 0" "\<not> upgrade (hh_ps h)"
      "\<not> lenient_http_headers (hh_ps h)" "framed (head_of (hh_ps h))" "h_type (head_of (hh_ps h)) = HTTP_REQUEST"
      "h_method (head_of (hh_ps h)) = rq_method r" "h_length (head_of (hh_ps h)) = length (body_text (rq_body r))"
    and h: "hh_serviceType h = SERVICE_HTTP" "hp_type (hh_parser h) = HTTP_PARSER_REQUEST" "\<not> asks_upgrade (m_request h)"
    and t: "body_text (rq_body r) \<noteq> []" "plain_body (rq_body r)"
  shows "\<exists>ps. on_recv ek h (body_text (rq_body r)) = Inr (sendHttpResponse (h\<lparr>hh_ps := ps, hh_parser := body_collected r (hh_parser h)\<rparr>))"
proof -
  have "length (body_text (rq_body r)) < ULLONG_MAX" using t(2) by (simp add: plain_body_def ULLONG_MAX_def)
  from hp.tail_run [OF ps(1-7,9) t(1) this, of HTTP_MAX_HEADER_SIZE "hh_parser h"]
  obtain x where x: "http_parser_execute HttpParser_cbs HTTP_MAX_HEADER_SIZE (hh_ps h) (hh_parser h) (body_text (rq_body r)) =
      Some (Ret (length (body_text (rq_body r))) x)"
    "udata x = fold hp_act [E_body (body_text (rq_body r)), E_complete (rq_method r)] (hh_parser h)"
    using ps(8) by (auto simp: HTTP_MAX_HEADER_SIZE_def)
  have u: "udata x = body_collected r (hh_parser h)" using x(2) h(2) by (simp add: body_collected_def)
  let ?h = "h\<lparr>hh_ps := parser x, hh_parser := body_collected r (hh_parser h)\<rparr>"
  have "\<not> asks_upgrade (m_request ?h)" using h(3) by (simp add: body_collected_def asks_upgrade_def)
  moreover have "isComplete (body_collected r hp)" for hp by (simp add: isComplete_def body_collected_def)
  ultimately show ?thesis
    using x(1) u h not_upgrade_actions [of ?h]
    by (intro exI [of _ "parser x"]) (simp add: on_recv_def HttpHandle_feedRecvData_def HttpParser_feedRecvData_def Let_def)
qed

text \<open>The request as a function sees it after the head.\<close>

definition request_head_into :: "request \<Rightarrow> HttpRequest \<Rightarrow> HttpRequest" where
  "request_head_into r q = q\<lparr>req_headers := put_headers (message_headers (rq_headers r) (rq_body r)) (req_headers q)\<rparr>"

text \<open>The request and the response after the function for \<open>m\<close> and \<open>url\<close>, if there is one.\<close>

definition after_func :: "HttpRouter \<Rightarrow> http_method \<Rightarrow> string \<Rightarrow> HttpRequest \<Rightarrow> HttpResponse \<Rightarrow> HttpRequest \<times> HttpResponse" where
  "after_func R m url q p = (case getHandleFunc m url R of None \<Rightarrow> (q, p) | Some func \<Rightarrow> func q p)"

text \<open>A body that arrives in its own piece makes the server answer before it is there. When a new
  connection receives the head of a request and then its body, the parser object already counts as
  complete at the end of the headers: the router is asked with the method the object's memory happened
  to hold, since no constructor sets it, and a function found there is called with the request without
  its body and its response is sent. After the body the router is asked with the right method, and
  the function is called on what the first call left. The connection stays open throughout.\<close>
theorem split_body_answered_twice:
  fixes mem :: HttpParser
  assumes "plain_routes R" "plain_request r" "rq_method r \<noteq> HTTP_HEAD" "body_text (rq_body r) \<noteq> []"
    and "length (request_head r) \<le> HTTP_MAX_HEADER_SIZE"
  defines "q \<equiv> request_head_into r (HttpRequest_new (hp_req mem))" and "p \<equiv> HttpResponse_new (hp_resp mem)"
  shows "\<exists>h'. recv_all ek [request_head r, body_text (rq_body r)] (HttpHandle_new mem R service) = Inr h' \<and>
    hh_actions h' = answer R (hp_method mem) (rq_url r) q p @
      answer R (rq_method r) (rq_url r)
        ((fst (after_func R (hp_method mem) (rq_url r) q p))\<lparr>req_body :=
          req_body (fst (after_func R (hp_method mem) (rq_url r) q p)) @ body_text (rq_body r)\<rparr>)
        (snd (after_func R (hp_method mem) (rq_url r) q p))"
proof -
  let ?h = "HttpHandle_new mem R service"
  have "fits_request ?h r" using assms(2,3,5) by (simp add: fits_request_def)
  from feed_head [OF new_handle_idle this assms(4), of ek]
  obtain ps where ps: "on_recv ek ?h (request_head r) = Inr (sendHttpResponse (?h\<lparr>hh_ps := ps, hh_parser := head_collected r (hh_parser ?h)\<rparr>))"
    "http_errno ps = HPE_OK" "state ps = s_body_identity" "nread ps = 0" "\<not> upgrade ps" "\<not> lenient_http_headers ps"
    "framed (head_of ps)" "h_type (head_of ps) = HTTP_REQUEST" "h_method (head_of ps) = rq_method r"
    "h_length (head_of ps) = length (body_text (rq_body r))" by auto
  let ?g = "?h\<lparr>hh_ps := ps, hh_parser := head_collected r (hh_parser ?h)\<rparr>"
  have T: "hh_serviceType ?g = SERVICE_HTTP" by (simp add: HttpHandle_new_def)
  note S = sendHttpResponse_answer [OF T]
  have A: "\<not> asks_upgrade (m_request ?g)"
    using request_not_upgrade [of r _ "[]"] assms(2)
    by (simp add: HttpHandle_new_def HttpRequest_new_def asks_upgrade_def head_collected_def)
  have G: "m_request ?g = q" "m_response ?g = p" "hp_method (hh_parser ?g) = hp_method mem" "hp_url (hh_parser ?g) = rq_url r"
    "hh_router ?g = R" "hh_actions ?g = []"
    by (simp_all add: q_def p_def HttpHandle_new_def HttpParser_new_def head_collected_def request_head_into_def)
  have U: "m_request (sendHttpResponse ?g) = fst (after_func R (hp_method mem) (rq_url r) q p)"
    "m_response (sendHttpResponse ?g) = snd (after_func R (hp_method mem) (rq_url r) q p)"
    using T G by (simp_all add: sendHttpResponse_def invokeHttpFunc_def after_func_def act_on_def Let_def split: option.split)
  have "\<exists>ps'. on_recv ek (sendHttpResponse ?g) (body_text (rq_body r)) =
      Inr (sendHttpResponse ((sendHttpResponse ?g)\<lparr>hh_ps := ps', hh_parser := body_collected r (hh_parser (sendHttpResponse ?g))\<rparr>))"
    by (rule feed_tail)
      (use ps S assms(1,2,4) sendHttpResponse_request [OF T _ A] in
        \<open>simp_all add: plain_request_def HttpHandle_new_def HttpParser_new_def head_collected_def\<close>)
  then obtain ps' where ps': "on_recv ek (sendHttpResponse ?g) (body_text (rq_body r)) =
      Inr (sendHttpResponse ((sendHttpResponse ?g)\<lparr>hh_ps := ps', hh_parser := body_collected r (hh_parser (sendHttpResponse ?g))\<rparr>))"
    by blast
  let ?k = "(sendHttpResponse ?g)\<lparr>hh_ps := ps', hh_parser := body_collected r (hh_parser (sendHttpResponse ?g))\<rparr>"
  have "hh_serviceType ?k = SERVICE_HTTP" using S by simp
  from sendHttpResponse_answer(1) [OF this] show ?thesis
    using ps(1) ps' S(1,2,5) U G by (simp add: body_collected_def)
qed

lemma split_body_answered_twice_witness:
  "\<exists>h'. recv_all (\<lambda>k. k) [request_head (sample_request HTTP_POST (Some ''xyz'')), ''xyz'']
      (HttpHandle_new sample_memory sample_routes False) = Inr h' \<and>
    hh_actions h' = [Io_send (HTTP_HEADER @ ''Content-Length: '' @ dec 0 @ CRLF @ CRLF),
      Io_send (HTTP_HEADER @ ''Content-Length: '' @ dec 3 @ CRLF @ CRLF @ ''xyz'')]"
proof -
  have "hp_method sample_memory = HTTP_POST" by (simp add: sample_memory_def)
  moreover have "fmt_d 0 = dec 0" "fmt_d (Suc (Suc (Suc 0))) = dec (Suc (Suc (Suc 0)))" by (simp_all add: fmt_d_small)
  ultimately show ?thesis
    using split_body_answered_twice [OF sample_routes_plain, of "sample_request HTTP_POST (Some ''xyz'')" "\<lambda>k. k" sample_memory False]
      sample_plain [of HTTP_POST "Some ''xyz''"] sample_routes_found(2)
    by (simp add: sample_request_def echo_def HttpResponse_dump_def request_head_into_def body_text_def answer_def after_func_def
        HTTP_MAX_HEADER_SIZE_def numeral_3_eq_3 HttpRequest_new_def HttpResponse_new_def sample_memory_def)
qed

end
