(* ===== verification/WsServing.thy ===== *)
theory WsServing
  imports HttpServing
begin

section \<open>The WebSocket side of a connection\<close>

text \<open>
  The upgrade of a connection with its accept key, and what the handle of an upgraded connection does
  with the frames it receives.
\<close>

subsection \<open>The accept key\<close>

lemma base64_chars_not_nul: "c \<in> set base64_chars \<union> {CHR ''=''} \<Longrightarrow> c \<noteq> NUL"
  by (auto simp: base64_chars_def)

lemma c_str_base64: "c_str (base64_encode input) = base64_encode input"
  using set_encode_groups [of input] base64_chars_not_nul
  by (auto simp: c_str_def takeWhile_eq_all_conv base64_encode_groups)

text \<open>The key that RFC 6455 asks for.\<close>

definition accept_key :: "(string \<Rightarrow> byte list) \<Rightarrow> string \<Rightarrow> string" where
  "accept_key SHA1 key = base64_encode (SHA1 (key @ ws_guid))"

lemma ws_encode_key_accept:
  assumes "\<forall>d. EVP_EncodeBlock d = base64_encode d" "\<forall>d. length (SHA1 d) = 20"
    and "c_str key = key" "length key \<le> 91"
  shows "ws_encode_key SHA1 EVP_EncodeBlock key = accept_key SHA1 key"
proof -
  have "take 127 (key @ ws_guid) = key @ ws_guid" using assms(4) by (simp add: ws_guid_def)
  moreover have "length (base64_encode (SHA1 d)) = 28" for d
    using assms(2) by (simp add: base64_encode_groups length_encode_groups)
  ultimately show ?thesis using assms(1,3) by (simp add: ws_encode_key_def accept_key_def c_str_base64 Let_def)
qed

lemma put_response_simps [simp]:
  "resp_headers (m_response (put_response k v h)) = map_put k v (resp_headers (m_response h))"
  "m_request (put_response k v h) = m_request h" "hh_actions (put_response k v h) = hh_actions h"
  "hh_wsService (put_response k v h) = hh_wsService h" "resp_status_code (m_response (put_response k v h)) = resp_status_code (m_response h)"
  by (simp_all add: put_response_def)

lemma send_101:
  "sendHttpResponse (h\<lparr>hh_serviceType := SERVICE_WEBSOCKET\<rparr>) =
   (h\<lparr>hh_serviceType := SERVICE_WEBSOCKET, hh_actions := hh_actions h @ [Io_send (HttpResponse_dump WS_HEADER (m_response h))]\<rparr>)"
  by (simp add: sendHttpResponse_def act_on_def)

text \<open>The answer to an upgrade. For a request with a \<open>Sec-WebSocket-Key\<close> of at most 91 characters the
  handle sends one response under the 101 status line, whose headers have the upgrade, the connection and
  the accept key of the standard: the Base64 text of the SHA-1 hash of the key and the fixed identifier
  (\<open>EVP_EncodeBlock\<close> is Base64 and the hash has 20 bytes); then it tells the service, if there is one,
  and the connection takes frames from then on.\<close>
theorem upgrade_answer:
  assumes "\<forall>d. EVP_EncodeBlock d = base64_encode d" "\<forall>d. length (SHA1 d) = 20"
    and "map_of (req_headers (m_request h)) ''Sec-WebSocket-Key'' = Some key" "c_str key = key" "length key \<le> 91"
  shows "\<exists>p. hh_actions (switchWSProtocol (ws_encode_key SHA1 EVP_EncodeBlock) h) =
      hh_actions h @ Io_send (HttpResponse_dump WS_HEADER p) # (if hh_wsService h then [Ws_onopen (m_request h)] else []) \<and>
    resp_status_code p = 101 \<and> map_of (resp_headers p) ''Upgrade'' = Some ''websocket'' \<and>
    map_of (resp_headers p) ''Connection'' = Some ''Upgrade'' \<and>
    map_of (resp_headers p) ''Sec-WebSocket-Accept'' = Some (accept_key SHA1 key) \<and>
    hh_serviceType (switchWSProtocol (ws_encode_key SHA1 EVP_EncodeBlock) h) = SERVICE_WEBSOCKET"
  using assms(3) ws_encode_key_accept [OF assms(1,2,4,5)]
  by (auto simp: switchWSProtocol_def upgradeWSProtocol_def send_101 act_on_def Let_def map_of_put split: option.split)

definition sample_upgrade :: HttpHandle where
  "sample_upgrade = (let h = HttpHandle_new sample_memory [] True
     in h\<lparr>hh_parser := (hh_parser h)\<lparr>hp_req := (m_request h)\<lparr>req_headers := [(''Sec-WebSocket-Key'', ''a2V5'')]\<rparr>\<rparr>\<rparr>)"

lemma upgrade_answer_witness:
  "\<exists>p. hh_actions (switchWSProtocol (ws_encode_key (\<lambda>_. replicate 20 0) base64_encode) sample_upgrade) =
      hh_actions sample_upgrade @ Io_send (HttpResponse_dump WS_HEADER p) #
        (if hh_wsService sample_upgrade then [Ws_onopen (m_request sample_upgrade)] else []) \<and>
    resp_status_code p = 101 \<and> map_of (resp_headers p) ''Upgrade'' = Some ''websocket'' \<and>
    map_of (resp_headers p) ''Connection'' = Some ''Upgrade'' \<and>
    map_of (resp_headers p) ''Sec-WebSocket-Accept'' = Some (accept_key (\<lambda>_. replicate 20 0) ''a2V5'') \<and>
    hh_serviceType (switchWSProtocol (ws_encode_key (\<lambda>_. replicate 20 0) base64_encode) sample_upgrade) = SERVICE_WEBSOCKET"
  by (rule upgrade_answer) (simp_all add: sample_upgrade_def HttpHandle_new_def Let_def c_str_def)

subsection \<open>Messages\<close>

lemma bytes_of_text [simp]: "bytes_of (text_of bs) = bs"
  by (induction bs) (simp_all add: bytes_of_def text_of_def)

definition is_open :: "HttpHandle \<Rightarrow> bool" where
  "is_open h \<longleftrightarrow> hh_serviceType h = SERVICE_WEBSOCKET"

fun ws_send_opcode :: "ws_send \<Rightarrow> ws_opcode" where
  "ws_send_opcode (msg, key, has_mask, opcode, fin) = opcode"

text \<open>What a message makes the handle do.\<close>

fun reply :: "bool \<Rightarrow> ws_send \<Rightarrow> handle_action list" where
  "reply service (msg, key, has_mask, opcode, fin) =
     (case opcode of
        WS_OPCODE_TEXT \<Rightarrow> if service then [Ws_onmessage (text_of msg) WS_OPCODE_TEXT] else []
      | WS_OPCODE_BINARY \<Rightarrow> if service then [Ws_onmessage (text_of msg) WS_OPCODE_BINARY] else []
      | WS_OPCODE_PING \<Rightarrow> [Io_send (text_of [0x8A, 0x00])]
      | _ \<Rightarrow> [])"

lemma pong_frame: "sendFrame [0, 0, 0, 0] [] WS_OPCODE_PONG = Io_send (text_of [0x8A, 0x00])"
  by (simp add: sendFrame_def build_ws_frame_def)

lemma onMessage_reply:
  "ws_send_opcode s \<noteq> WS_OPCODE_CLOSE \<Longrightarrow>
   onMessage (ws_message s) h = Inr (h\<lparr>hh_actions := hh_actions h @ reply (hh_wsService h) s\<rparr>)"
proof -
  obtain msg key has_mask opcode fin where s: "s = (msg, key, has_mask, opcode, fin)" by (cases s)
  show "ws_send_opcode s \<noteq> WS_OPCODE_CLOSE \<Longrightarrow> ?thesis"
    by (cases opcode) (simp_all add: s onMessage_def act_on_def pong_frame)
qed

lemma onMessages_reply:
  "\<forall>s\<in>set sends. ws_send_opcode s \<noteq> WS_OPCODE_CLOSE \<Longrightarrow>
   onMessages (map ws_message sends @ ms) h =
     onMessages ms (h\<lparr>hh_actions := hh_actions h @ concat (map (reply (hh_wsService h)) sends)\<rparr>)"
  by (induction sends arbitrary: h) (simp_all add: onMessage_reply)

lemma feed_messages:
  assumes "\<forall>s\<in>set sends. ws_sendable s" "next_frame rest = Need_more"
  shows "ws_feedRecvData True [] (concat (map ws_encode sends) @ rest) = Some (Inr (map ws_message sends, rest))"
  using assms by (simp add: ws_feedRecvData_def feed_loop_frames feed_loop_stop)

text \<open>The messages of an upgraded connection. Any sequence of frames other than close frames, masked or
  not, that arrives at once is answered in order: texts and binary messages go to the service, a ping is
  answered with an empty pong, other frames with nothing; the bytes of a frame that is not complete are
  kept for the next data, and the connection stays open.\<close>
theorem ws_messages_answered:
  assumes "is_open h" "hh_wsBuffer h = []" "\<forall>s\<in>set sends. ws_sendable s \<and> ws_send_opcode s \<noteq> WS_OPCODE_CLOSE"
    and "next_frame rest = Need_more"
  shows "on_recv ek h (text_of (concat (map ws_encode sends) @ rest)) =
    Inr (h\<lparr>hh_wsBuffer := rest, hh_actions := hh_actions h @ concat (map (reply (hh_wsService h)) sends)\<rparr>)"
  using assms onMessages_reply [of sends "[]"] feed_messages [of sends rest]
  by (simp add: on_recv_def HttpHandle_feedRecvData_def is_open_def)

definition sample_channel :: HttpHandle where
  "sample_channel = (HttpHandle_new sample_memory [] True)\<lparr>hh_serviceType := SERVICE_WEBSOCKET\<rparr>"

lemma sample_channel_open: "is_open sample_channel" "hh_wsBuffer sample_channel = []"
  by (simp_all add: sample_channel_def is_open_def HttpHandle_new_def)

lemma ws_messages_answered_witness:
  "on_recv (\<lambda>k. k) sample_channel (text_of (concat (map ws_encode [([104, 105], [1, 2, 3, 4], True, WS_OPCODE_TEXT, True),
      ([], [0, 0, 0, 0], False, WS_OPCODE_PING, True)]) @ [0x81])) =
    Inr (sample_channel\<lparr>hh_wsBuffer := [0x81], hh_actions := hh_actions sample_channel @
      concat (map (reply (hh_wsService sample_channel)) [([104, 105], [1, 2, 3, 4], True, WS_OPCODE_TEXT, True),
        ([], [0, 0, 0, 0], False, WS_OPCODE_PING, True)])\<rparr>)"
  by (rule ws_messages_answered) (simp_all add: sample_channel_open next_frame_def)

text \<open>A close frame destroys the handle while it runs. The first close frame is echoed and the connection
  is closed; closing calls the server's close callback, which deletes the handle, its frame parser and the
  function object that is still executing, after telling the service. The run goes on with freed
  memory, whatever follows the frame.\<close>
theorem ws_close_uses_freed_handle:
  assumes "is_open h" "hh_wsBuffer h = []" "\<forall>s\<in>set sends. ws_sendable s \<and> ws_send_opcode s \<noteq> WS_OPCODE_CLOSE"
    and "\<forall>s\<in>set later_sends. ws_sendable s" "next_frame rest = Need_more"
    and "length key = 4" "length msg < 2 ^ 31"
  shows "on_recv ek h (text_of (concat (map ws_encode (sends @ (msg, key, has_mask, WS_OPCODE_CLOSE, fin) # later_sends)) @ rest)) =
    Inl (Use_after_free (hh_actions h @ concat (map (reply (hh_wsService h)) sends) @
      [sendFrame [0, 0, 0, 0] msg WS_OPCODE_CLOSE, Io_close] @ (if hh_wsService h then [Ws_onclose] else [])))"
proof -
  let ?sends = "sends @ (msg, key, has_mask, WS_OPCODE_CLOSE, fin) # later_sends"
  have "ws_feedRecvData True [] (concat (map ws_encode ?sends) @ rest) = Some (Inr (map ws_message ?sends, rest))"
    using assms(3-7) by (intro feed_messages) auto
  moreover have "onMessages (map ws_message ?sends) h' = Inl (Use_after_free (hh_actions h' @ concat (map (reply (hh_wsService h')) sends) @
      [sendFrame [0, 0, 0, 0] msg WS_OPCODE_CLOSE, Io_close] @ (if hh_wsService h' then [Ws_onclose] else [])))" for h'
    using onMessages_reply [of sends "ws_message (msg, key, has_mask, WS_OPCODE_CLOSE, fin) # map ws_message later_sends" h'] assms(3)
    by (simp add: onMessage_def)
  ultimately show ?thesis
    using assms(1,2) by (simp add: on_recv_def HttpHandle_feedRecvData_def is_open_def del: map_append)
qed

lemma ws_close_uses_freed_handle_witness:
  "on_recv (\<lambda>k. k) sample_channel (text_of (concat (map ws_encode ([([], [0, 0, 0, 0], False, WS_OPCODE_PING, True)] @
      ([3, 232], [1, 2, 3, 4], True, WS_OPCODE_CLOSE, True) # [])) @ [])) =
    Inl (Use_after_free (hh_actions sample_channel @
      concat (map (reply (hh_wsService sample_channel)) [([], [0, 0, 0, 0], False, WS_OPCODE_PING, True)]) @
      [sendFrame [0, 0, 0, 0] [3, 232] WS_OPCODE_CLOSE, Io_close] @ (if hh_wsService sample_channel then [Ws_onclose] else [])))"
  by (rule ws_close_uses_freed_handle) (simp_all add: sample_channel_open next_frame_def)

subsection \<open>Any bytes\<close>

definition handle_ok :: "HttpHandle \<Rightarrow> bool" where
  "handle_ok h \<longleftrightarrow> parser_ok HTTP_MAX_HEADER_SIZE (hh_ps h)"

lemma HttpParser_cbs_keep: "keeps_parser HttpParser_cbs"
  using accepts_keeps hp.S_accepts by blast

lemma sendHttpResponse_ps [simp]: "hh_ps (sendHttpResponse h) = hh_ps h"
  by (simp add: sendHttpResponse_def invokeHttpFunc_def act_on_def Let_def split: SERVICE_TYPE.split option.split)

lemma switchWSProtocol_ps [simp]: "hh_ps (switchWSProtocol ek h) = hh_ps h"
  by (simp add: switchWSProtocol_def upgradeWSProtocol_def put_response_def act_on_def Let_def split: option.split)

lemma onMessages_ps: "onMessages ms h = Inr h' \<Longrightarrow> hh_ps h' = hh_ps h"
  by (induction ms arbitrary: h)
    (auto simp: onMessage_def act_on_def Let_def split: if_splits)

lemma onMessages_fault: "onMessages ms h = Inl e \<Longrightarrow> \<exists>acts. e = Use_after_free acts"
  by (induction ms arbitrary: h) (auto simp: onMessage_def Let_def split: if_splits)

lemma feed_any:
  assumes "handle_ok h"
  shows "\<exists>n ps hp. HttpParser_feedRecvData (hh_ps h) (hh_parser h) d = Some (n, ps, hp) \<and> parser_ok HTTP_MAX_HEADER_SIZE ps"
  using execute_ok [OF HttpParser_cbs_keep, of HTTP_MAX_HEADER_SIZE "hh_ps h" "hh_parser h" d] assms
  by (auto simp: handle_ok_def HttpParser_feedRecvData_def)

lemma recv_any:
  assumes "handle_ok h" "hh_serviceType h = SERVICE_HTTP \<or> length (hh_wsBuffer h) + length d < 2 ^ 63"
  shows "(\<exists>h'. on_recv ek h d = Inr h' \<and> handle_ok h') \<or>
    hh_serviceType h = SERVICE_WEBSOCKET \<and> (on_recv ek h d = Inl Frame_overrun \<or> (\<exists>acts. on_recv ek h d = Inl (Use_after_free acts)))"
proof (cases "hh_serviceType h")
  case SERVICE_HTTP
  then show ?thesis
    using feed_any [OF assms(1), of d]
    by (auto simp: on_recv_def HttpHandle_feedRecvData_def handle_ok_def act_on_def Let_def)
next
  case SERVICE_WEBSOCKET
  then have "length (hh_wsBuffer h @ bytes_of d) < 2 ^ 63" using assms(2) by simp
  then obtain r where r: "ws_feedRecvData True (hh_wsBuffer h) (bytes_of d) = Some r"
    using feed_loop_returns unfolding ws_feedRecvData_def by blast
  show ?thesis
  proof (cases r)
    case (Inl e)
    then show ?thesis using SERVICE_WEBSOCKET r by (simp add: on_recv_def HttpHandle_feedRecvData_def)
  next
    case (Inr q)
    obtain ms rest where q: "q = (ms, rest)" by (cases q)
    show ?thesis
    proof (cases "onMessages ms (h\<lparr>hh_wsBuffer := rest\<rparr>)")
      case (Inl e)
      then show ?thesis
        using onMessages_fault [OF Inl] \<open>r = Inr q\<close> q SERVICE_WEBSOCKET r by (auto simp: on_recv_def HttpHandle_feedRecvData_def)
    next
      case (Inr h')
      then show ?thesis
        using onMessages_ps [OF Inr] \<open>r = Inr q\<close> q SERVICE_WEBSOCKET r assms(1)
        by (auto simp: on_recv_def HttpHandle_feedRecvData_def handle_ok_def)
    qed
  qed
qed

end
