(* ===== verification/ServerConns.thy ===== *)
theory ServerConns
  imports WsServing
begin

section \<open>The server and its connections: HttpServer\<close>

text \<open>
  The HTTP server with all its connections. The \<open>userdata\<close> of the io of a connection is the server until
  the connection is accepted, which for TLS is after the handshake; then it is the handle; \<open>on_close\<close>
  deletes the handle. A connection is named by its io. The events are the calls of the io layer, in any
  order and for any number of connections; an io has only the callbacks that were set on it, and none
  after it was closed. The routes are registered before the server runs.
\<close>

subsection \<open>The server object\<close>

record http_server =
  sv_router :: "HttpRouter option"
  sv_wsService :: bool

definition HttpServer_new :: http_server where
  "HttpServer_new = \<lparr>sv_router = None, sv_wsService = False\<rparr>"

definition registerHttpRouter :: "HttpRouter \<Rightarrow> http_server \<Rightarrow> http_server" where
  "registerHttpRouter router sv = sv\<lparr>sv_router := Some router\<rparr>"

definition setWebSocketService :: "bool \<Rightarrow> http_server \<Rightarrow> http_server" where
  "setWebSocketService service sv = sv\<lparr>sv_wsService := service\<rparr>"

text \<open>Of WebSocketServer.\<close>

definition registerWebSocketService :: "bool \<Rightarrow> http_server \<Rightarrow> http_server" where
  "registerWebSocketService service sv = setWebSocketService service sv"

definition getRouter :: "http_server \<Rightarrow> HttpRouter option" where
  "getRouter sv = sv_router sv"

definition getWSService :: "http_server \<Rightarrow> bool" where
  "getWSService sv = sv_wsService sv"

subsection \<open>The handle's end\<close>

definition HttpHandle_close :: "HttpHandle \<Rightarrow> HttpHandle" where
  "HttpHandle_close h =
     (case hh_serviceType h of
        SERVICE_HTTP \<Rightarrow> h
      | SERVICE_WEBSOCKET \<Rightarrow> if hh_wsService h then act_on Ws_onclose h else h)"

text \<open>The destructor: what the connection has done when its handle is gone.\<close>

definition HttpHandle_delete :: "HttpHandle \<Rightarrow> handle_action list" where
  "HttpHandle_delete h = hh_actions (HttpHandle_close h)"

subsection \<open>Connections\<close>

datatype conn = Absent | Handshaking | Serving HttpHandle | Gone "handle_action list"

datatype sv_event = Sv_tcp nat HttpParser | Sv_tls nat | Sv_shaken nat HttpParser | Sv_recv nat string | Sv_closed nat

datatype server_fault = Null_router | Handle_fault handle_fault

primrec ev_conn :: "sv_event \<Rightarrow> nat" where
  "ev_conn (Sv_tcp i mem) = i" | "ev_conn (Sv_tls i) = i" | "ev_conn (Sv_shaken i mem) = i" | "ev_conn (Sv_recv i d) = i" | "ev_conn (Sv_closed i) = i"

text \<open>A server without a router makes handles whose table is a null pointer; its place is taken by an empty
  table, and \<open>reaches_router\<close> says whether the handle looks into it.\<close>

definition on_accept :: "http_server \<Rightarrow> HttpParser \<Rightarrow> conn" where
  "on_accept sv mem = Serving (HttpHandle_new mem (case getRouter sv of None \<Rightarrow> [] | Some R \<Rightarrow> R) (getWSService sv))"

definition on_close :: "HttpHandle \<Rightarrow> conn" where
  "on_close h = Gone (HttpHandle_delete h)"

definition reaches_router :: "HttpHandle \<Rightarrow> string \<Rightarrow> bool" where
  "reaches_router h d \<longleftrightarrow> hh_serviceType h = SERVICE_HTTP \<and>
     (case HttpParser_feedRecvData (hh_ps h) (hh_parser h) d of
        None \<Rightarrow> False
      | Some r \<Rightarrow> fst r = length d \<and> isComplete (snd (snd r)) \<and>
          \<not> isUpgradeWSProtocol (h\<lparr>hh_ps := fst (snd r), hh_parser := snd (snd r)\<rparr>))"

text \<open>A read; when the handle closes the io, the io calls \<open>on_close\<close>.\<close>

definition conn_recv :: "(string \<Rightarrow> string) \<Rightarrow> http_server \<Rightarrow> HttpHandle \<Rightarrow> string \<Rightarrow> server_fault + conn" where
  "conn_recv ek sv h d =
     (if getRouter sv = None \<and> reaches_router h d then Inl Null_router
      else case on_recv ek h d of
             Inl e \<Rightarrow> Inl (Handle_fault e)
           | Inr h' \<Rightarrow> Inr (if Io_close \<in> set (hh_actions h') then on_close h' else Serving h'))"

text \<open>What an event makes of its connection; \<open>None\<close> when an io in this state does not have the event.\<close>

fun conn_event :: "(string \<Rightarrow> string) \<Rightarrow> http_server \<Rightarrow> sv_event \<Rightarrow> conn \<Rightarrow> (server_fault + conn) option" where
  "conn_event ek sv (Sv_tcp i mem) Absent = Some (Inr (on_accept sv mem))"
| "conn_event ek sv (Sv_tls i) Absent = Some (Inr Handshaking)"
| "conn_event ek sv (Sv_shaken i mem) Handshaking = Some (Inr (on_accept sv mem))"
| "conn_event ek sv (Sv_closed i) Handshaking = Some (Inr (Gone []))"
| "conn_event ek sv (Sv_recv i d) (Serving h) = Some (conn_recv ek sv h d)"
| "conn_event ek sv (Sv_closed i) (Serving h) = Some (Inr (on_close h))"
| "conn_event ek sv e c = None"

text \<open>Runs of the server: the connections after the events, or the first fault.\<close>

inductive server_run :: "(string \<Rightarrow> string) \<Rightarrow> http_server \<Rightarrow> (nat \<Rightarrow> conn) \<Rightarrow> sv_event list \<Rightarrow> server_fault + (nat \<Rightarrow> conn) \<Rightarrow> bool"
  for ek sv where
  run_end: "server_run ek sv cs [] (Inr cs)"
| run_event: "server_run ek sv cs (e # es) r" if "conn_event ek sv e (cs (ev_conn e)) = Some (Inr c)" "server_run ek sv (cs(ev_conn e := c)) es r"
| run_fault: "server_run ek sv cs (e # es) (Inl f)" if "conn_event ek sv e (cs (ev_conn e)) = Some (Inl f)"

inductive_simps server_run_nil [simp]: "server_run ek sv cs [] r"
inductive_simps server_run_cons [simp]: "server_run ek sv cs (e # es) r"

subsection \<open>Each connection by itself\<close>

fun conn_run :: "(string \<Rightarrow> string) \<Rightarrow> http_server \<Rightarrow> sv_event list \<Rightarrow> conn \<Rightarrow> (server_fault + conn) option" where
  "conn_run ek sv [] c = Some (Inr c)"
| "conn_run ek sv (e # es) c =
     (case conn_event ek sv e c of
        None \<Rightarrow> None
      | Some (Inl f) \<Rightarrow> Some (Inl f)
      | Some (Inr c) \<Rightarrow> conn_run ek sv es c)"

definition events_of :: "nat \<Rightarrow> sv_event list \<Rightarrow> sv_event list" where
  "events_of i es = filter (\<lambda>e. ev_conn e = i) es"

lemma events_of_simps [simp]:
  "events_of i [] = []" "events_of i (e # es) = (if ev_conn e = i then e # events_of i es else events_of i es)"
  by (simp_all add: events_of_def)

lemma server_run_each:
  "server_run ek sv cs es (Inr cs') \<longleftrightarrow> (\<forall>i. conn_run ek sv (events_of i es) (cs i) = Some (Inr (cs' i)))"
proof (induction es arbitrary: cs)
  case Nil
  then show ?case by (auto simp: fun_eq_iff)
next
  case (Cons e es)
  show ?case
  proof
    assume "server_run ek sv cs (e # es) (Inr cs')"
    then show "\<forall>i. conn_run ek sv (events_of i (e # es)) (cs i) = Some (Inr (cs' i))"
      using Cons by (auto split: if_splits)
  next
    assume A: "\<forall>i. conn_run ek sv (events_of i (e # es)) (cs i) = Some (Inr (cs' i))"
    then obtain c where c: "conn_event ek sv e (cs (ev_conn e)) = Some (Inr c)"
      by (auto dest!: spec [of _ "ev_conn e"] split: option.splits sum.splits)
    have "conn_run ek sv (events_of i es) ((cs(ev_conn e := c)) i) = Some (Inr (cs' i))" for i
      using A c by (auto dest!: spec [of _ i] split: if_splits)
    then show "server_run ek sv cs (e # es) (Inr cs')" using Cons c by auto
  qed
qed

subsection \<open>What one call of the handle adds\<close>

primrec is_send :: "handle_action \<Rightarrow> bool" where
  "is_send (Io_send t) = True" | "is_send (Ws_onopen q) = False" | "is_send (Ws_onmessage t opcode) = False"
| "is_send Ws_onclose = False" | "is_send Io_close = False"

primrec is_message :: "handle_action \<Rightarrow> bool" where
  "is_message (Io_send t) = False" | "is_message (Ws_onopen q) = False" | "is_message (Ws_onmessage t opcode) = True"
| "is_message Ws_onclose = False" | "is_message Io_close = False"

lemma send_adds:
  "\<exists>as. hh_actions (sendHttpResponse h) = hh_actions h @ as \<and> list_all is_send as"
  "hh_serviceType (sendHttpResponse h) = hh_serviceType h" "hh_wsService (sendHttpResponse h) = hh_wsService h"
  by (auto simp: sendHttpResponse_def invokeHttpFunc_def act_on_def Let_def split: SERVICE_TYPE.split option.split)

lemma switch_adds:
  "\<exists>as. hh_actions (switchWSProtocol ek h) = hh_actions h @ as @ (if hh_wsService h then [Ws_onopen (m_request h)] else []) \<and> list_all is_send as"
  "hh_serviceType (switchWSProtocol ek h) = SERVICE_WEBSOCKET" "hh_wsService (switchWSProtocol ek h) = hh_wsService h"
  by (auto simp: switchWSProtocol_def upgradeWSProtocol_def send_101 put_response_def act_on_def Let_def split: option.split)

definition message_actions :: "bool \<Rightarrow> handle_action list \<Rightarrow> bool" where
  "message_actions service as \<longleftrightarrow> list_all (\<lambda>a. is_send a \<or> service \<and> is_message a) as"

lemma onMessage_adds:
  assumes "onMessage m h = Inr h'"
  shows "\<exists>as. hh_actions h' = hh_actions h @ as \<and> message_actions (hh_wsService h) as"
    "hh_serviceType h' = hh_serviceType h" "hh_wsService h' = hh_wsService h" "hh_wsBuffer h' = hh_wsBuffer h"
  using assms
  by (auto simp: onMessage_def act_on_def sendFrame_def message_actions_def Let_def split: if_splits)

lemma onMessages_add:
  "onMessages ms h = Inr h' \<Longrightarrow> (\<exists>as. hh_actions h' = hh_actions h @ as \<and> message_actions (hh_wsService h) as) \<and>
   hh_serviceType h' = hh_serviceType h \<and> hh_wsService h' = hh_wsService h \<and> hh_wsBuffer h' = hh_wsBuffer h"
proof (induction ms arbitrary: h)
  case (Cons m ms)
  then obtain k where k: "onMessage m h = Inr k" "onMessages ms k = Inr h'" by (auto split: sum.splits)
  from Cons.IH [OF k(2)] onMessage_adds [OF k(1)] show ?case by (auto simp: message_actions_def)
qed (simp add: message_actions_def)

lemma onMessages_end:
  "onMessages ms h = Inl (Use_after_free acts) \<Longrightarrow> \<exists>as t. acts = hh_actions h @ as @ [Io_send t, Io_close] @
     (if hh_wsService h then [Ws_onclose] else []) \<and> message_actions (hh_wsService h) as"
proof (induction ms arbitrary: h)
  case (Cons m ms)
  show ?case
  proof (cases "onMessage m h")
    case (Inl e)
    then show ?thesis using Cons.prems by (auto simp: onMessage_def sendFrame_def message_actions_def Let_def split: if_splits)
  next
    case (Inr k)
    then have "onMessages ms k = Inl (Use_after_free acts)" using Cons.prems by simp
    from Cons.IH [OF this] onMessage_adds [OF Inr] obtain as bs t where
      "acts = (hh_actions h @ bs) @ as @ [Io_send t, Io_close] @ (if hh_wsService h then [Ws_onclose] else [])"
      "message_actions (hh_wsService h) as" "message_actions (hh_wsService h) bs"
      by auto
    then show ?thesis by (intro exI [of _ "bs @ as"] exI [of _ t]) (simp add: message_actions_def)
  qed
qed simp

text \<open>The four ways of a call, after which the io is closed or not.\<close>

lemma recv_adds:
  assumes "on_recv ek h d = Inr h'"
  obtains (close) "hh_serviceType h = SERVICE_HTTP" "hh_actions h' = hh_actions h @ [Io_close]" "hh_serviceType h' = SERVICE_HTTP"
      "hh_wsService h' = hh_wsService h"
    | (http) as where "hh_serviceType h = SERVICE_HTTP" "hh_actions h' = hh_actions h @ as" "list_all is_send as"
      "hh_serviceType h' = SERVICE_HTTP" "hh_wsService h' = hh_wsService h"
    | (switch) as q where "hh_serviceType h = SERVICE_HTTP" "list_all is_send as"
      "hh_actions h' = hh_actions h @ as @ (if hh_wsService h then [Ws_onopen q] else [])"
      "hh_serviceType h' = SERVICE_WEBSOCKET" "hh_wsService h' = hh_wsService h"
    | (messages) as where "hh_serviceType h = SERVICE_WEBSOCKET" "hh_actions h' = hh_actions h @ as"
      "message_actions (hh_wsService h) as" "hh_serviceType h' = SERVICE_WEBSOCKET" "hh_wsService h' = hh_wsService h"
proof (cases "hh_serviceType h")
  case SERVICE_HTTP
  then obtain r where r: "HttpParser_feedRecvData (hh_ps h) (hh_parser h) d = Some r"
    using assms by (auto simp: on_recv_def HttpHandle_feedRecvData_def split: option.splits)
  let ?h = "h\<lparr>hh_ps := fst (snd r), hh_parser := snd (snd r)\<rparr>"
  have E: "h' = (if fst r \<noteq> length d then act_on Io_close ?h
      else if isComplete (hh_parser ?h) then if isUpgradeWSProtocol ?h then switchWSProtocol ek ?h else sendHttpResponse ?h else ?h)"
    using assms r SERVICE_HTTP by (auto simp: on_recv_def HttpHandle_feedRecvData_def Let_def)
  consider "fst r \<noteq> length d" | "fst r = length d" "isComplete (hh_parser ?h)" "isUpgradeWSProtocol ?h"
    | "fst r = length d" "isComplete (hh_parser ?h)" "\<not> isUpgradeWSProtocol ?h" | "fst r = length d" "\<not> isComplete (hh_parser ?h)"
    by auto
  then show ?thesis
  proof cases
    case 1
    then show ?thesis using E SERVICE_HTTP by (intro close) (simp_all add: act_on_def)
  next
    case 2
    then have h': "h' = switchWSProtocol ek ?h" using E by simp
    obtain as where "hh_actions h' = hh_actions h @ as @ (if hh_wsService h then [Ws_onopen (m_request ?h)] else [])" "list_all is_send as"
      using switch_adds(1) [of ek ?h] h' by auto
    then show ?thesis using switch_adds(2,3) [of ek ?h] SERVICE_HTTP h' by (intro switch [of as "m_request ?h"]) simp_all
  next
    case 3
    then have h': "h' = sendHttpResponse ?h" using E by simp
    obtain as where "hh_actions h' = hh_actions h @ as" "list_all is_send as"
      using send_adds(1) [of ?h] h' by auto
    then show ?thesis using send_adds(2,3) [of ?h] SERVICE_HTTP h' by (intro http [of as]) simp_all
  next
    case 4
    then show ?thesis using E SERVICE_HTTP by (intro http [of "[]"]) simp_all
  qed
next
  case SERVICE_WEBSOCKET
  then obtain ms rest where "onMessages ms (h\<lparr>hh_wsBuffer := rest\<rparr>) = Inr h'"
    using assms by (auto simp: on_recv_def HttpHandle_feedRecvData_def split: option.splits sum.splits)
  from onMessages_add [OF this] SERVICE_WEBSOCKET show ?thesis by (auto intro: messages)
qed

subsection \<open>The calls of the WebSocket service\<close>

primrec is_service_call :: "handle_action \<Rightarrow> bool" where
  "is_service_call (Io_send t) = False" | "is_service_call (Ws_onopen q) = True" | "is_service_call (Ws_onmessage t opcode) = True"
| "is_service_call Ws_onclose = True" | "is_service_call Io_close = False"

definition service_calls :: "handle_action list \<Rightarrow> handle_action list" where
  "service_calls as = filter is_service_call as"

text \<open>A session with the service: opened, then messages, and closed at its end.\<close>

fun session_open :: "handle_action list \<Rightarrow> bool" where
  "session_open (Ws_onopen q # ms) = list_all is_message ms"
| "session_open as = False"

definition session_ended :: "handle_action list \<Rightarrow> bool" where
  "session_ended as \<longleftrightarrow> as \<noteq> [] \<and> session_open (butlast as) \<and> last as = Ws_onclose"

definition handle_calls_ok :: "bool \<Rightarrow> HttpHandle \<Rightarrow> bool" where
  "handle_calls_ok service h \<longleftrightarrow> hh_wsService h = service \<and> Io_close \<notin> set (hh_actions h) \<and>
     (if hh_serviceType h = SERVICE_WEBSOCKET \<and> service then session_open (service_calls (hh_actions h))
      else service_calls (hh_actions h) = [])"

primrec conn_calls_ok :: "bool \<Rightarrow> conn \<Rightarrow> bool" where
  "conn_calls_ok service Absent = True"
| "conn_calls_ok service Handshaking = True"
| "conn_calls_ok service (Serving h) = handle_calls_ok service h"
| "conn_calls_ok service (Gone as) = (service_calls as = [] \<or> service \<and> session_ended (service_calls as))"

lemma service_calls_simps [simp]:
  "service_calls [] = []" "service_calls (as @ bs) = service_calls as @ service_calls bs"
  "service_calls (a # as) = (if is_service_call a then a # service_calls as else service_calls as)"
  by (simp_all add: service_calls_def)

lemma service_calls_sends: "list_all is_send as \<Longrightarrow> service_calls as = [] \<and> Io_close \<notin> set as"
proof (induction as)
  case (Cons a as)
  then show ?case by (cases a) simp_all
qed simp

lemma service_calls_messages:
  "message_actions service as \<Longrightarrow> list_all is_message (service_calls as) \<and> (\<not> service \<longrightarrow> service_calls as = []) \<and> Io_close \<notin> set as"
proof (induction as)
  case (Cons a as)
  then show ?case by (cases a) (auto simp: message_actions_def)
qed simp

lemma session_open_append: "session_open as \<Longrightarrow> list_all is_message ms \<Longrightarrow> session_open (as @ ms)"
  by (cases as rule: session_open.cases) simp_all

lemma close_ends:
  assumes "handle_calls_ok service h"
  shows "conn_calls_ok service (on_close h)"
  using assms
  by (auto simp: on_close_def HttpHandle_delete_def HttpHandle_close_def handle_calls_ok_def act_on_def session_ended_def
      split: SERVICE_TYPE.split)

lemma recv_calls:
  assumes "handle_calls_ok service h" "on_recv ek h d = Inr h'"
  shows "conn_calls_ok service (if Io_close \<in> set (hh_actions h') then on_close h' else Serving h')"
  using assms(2)
proof (cases rule: recv_adds)
  case close
  then show ?thesis
    using assms(1) by (simp add: handle_calls_ok_def on_close_def HttpHandle_delete_def HttpHandle_close_def)
next
  case (http as)
  then show ?thesis using assms(1) service_calls_sends by (simp add: handle_calls_ok_def)
next
  case (switch as q)
  then show ?thesis using assms(1) service_calls_sends by (auto simp: handle_calls_ok_def)
next
  case (messages as)
  then show ?thesis
    using assms(1) service_calls_messages [OF messages(3)] session_open_append by (auto simp: handle_calls_ok_def)
qed

lemma recv_fault_calls:
  assumes "handle_calls_ok service h" "on_recv ek h d = Inl (Use_after_free acts)"
  shows "service_calls acts = [] \<or> service \<and> session_ended (service_calls acts)"
proof -
  obtain ms rest where m: "onMessages ms (h\<lparr>hh_wsBuffer := rest\<rparr>) = Inl (Use_after_free acts)" "hh_serviceType h = SERVICE_WEBSOCKET"
    using assms(2)
    by (auto simp: on_recv_def HttpHandle_feedRecvData_def Let_def split: SERVICE_TYPE.splits option.splits sum.splits if_splits)
  obtain as t where as: "acts = hh_actions h @ as @ [Io_send t, Io_close] @ (if hh_wsService h then [Ws_onclose] else [])"
    "message_actions (hh_wsService h) as"
    using onMessages_end [OF m(1)] by auto
  show ?thesis
    using assms(1) m(2) as service_calls_messages [OF as(2)] session_open_append
    by (auto simp: handle_calls_ok_def session_ended_def butlast_append)
qed

lemma conn_event_calls:
  assumes "conn_calls_ok (getWSService sv) c" "conn_event ek sv e c = Some (Inr c')"
  shows "conn_calls_ok (getWSService sv) c'"
  using assms(2,1)
proof (induction ek sv e c rule: conn_event.induct)
  case (5 ek sv i d h)
  then obtain h' where "on_recv ek h d = Inr h'" "c' = (if Io_close \<in> set (hh_actions h') then on_close h' else Serving h')"
    by (auto simp: conn_recv_def split: if_splits sum.splits)
  then show ?case using recv_calls [of "getWSService sv" h ek d h'] 5 by simp
qed (auto simp: on_accept_def close_ends handle_calls_ok_def HttpHandle_new_def)


text \<open>A connection with an open session that gets one message and ends.\<close>

definition sample_member :: HttpHandle where
  "sample_member = sample_channel\<lparr>hh_actions := [Ws_onopen (m_request sample_channel)]\<rparr>"

definition sample_message :: ws_send where
  "sample_message = ([104, 105], [1, 2, 3, 4], True, WS_OPCODE_TEXT, True)"

lemma sample_member_recv:
  "on_recv (\<lambda>k. k) sample_member (text_of (ws_encode sample_message)) =
    Inr (sample_member\<lparr>hh_actions := hh_actions sample_member @ [Ws_onmessage (text_of [104, 105]) WS_OPCODE_TEXT]\<rparr>)"
proof -
  have "ws_feedRecvData True [] (concat (map ws_encode [sample_message]) @ []) = Some (Inr (map ws_message [sample_message], []))"
    by (rule feed_messages) (simp_all add: sample_message_def next_frame_def)
  moreover have "hh_serviceType sample_member = SERVICE_WEBSOCKET" "hh_wsBuffer sample_member = []" "hh_wsService sample_member"
    by (simp_all add: sample_member_def sample_channel_def HttpHandle_new_def)
  ultimately show ?thesis
    using onMessages_reply [of "[sample_message]" "[]" "sample_member\<lparr>hh_wsBuffer := []\<rparr>"]
    by (simp add: on_recv_def HttpHandle_feedRecvData_def sample_message_def)
qed


subsection \<open>Any bytes on any connection\<close>

primrec ev_bytes :: "sv_event \<Rightarrow> nat" where
  "ev_bytes (Sv_tcp i mem) = 0" | "ev_bytes (Sv_tls i) = 0" | "ev_bytes (Sv_shaken i mem) = 0" | "ev_bytes (Sv_recv i d) = length d"
| "ev_bytes (Sv_closed i) = 0"

definition bytes_received :: "sv_event list \<Rightarrow> nat" where
  "bytes_received es = sum_list (map ev_bytes es)"

text \<open>A handle whose parser is well-formed, with at most \<open>n\<close> bytes of frames.\<close>

definition handle_within :: "nat \<Rightarrow> HttpHandle \<Rightarrow> bool" where
  "handle_within n h \<longleftrightarrow> handle_ok h \<and> length (hh_wsBuffer h) \<le> n"

primrec conn_within :: "nat \<Rightarrow> conn \<Rightarrow> bool" where
  "conn_within n Absent = True" | "conn_within n Handshaking = True" | "conn_within n (Serving h) = handle_within n h"
| "conn_within n (Gone as) = True"

lemma conn_within_mono: "conn_within n c \<Longrightarrow> n \<le> m \<Longrightarrow> conn_within m c"
  by (cases c) (auto simp: handle_within_def)

lemma send_buffer [simp]: "hh_wsBuffer (sendHttpResponse h) = hh_wsBuffer h"
  by (simp add: sendHttpResponse_def invokeHttpFunc_def act_on_def Let_def split: SERVICE_TYPE.split option.split)

lemma switch_buffer [simp]: "hh_wsBuffer (switchWSProtocol ek h) = hh_wsBuffer h"
  by (simp add: switchWSProtocol_def upgradeWSProtocol_def put_response_def act_on_def Let_def split: option.split)

lemma recv_buffer:
  assumes "on_recv ek h d = Inr h'" "length (hh_wsBuffer h) + length d < 2 ^ 63"
  shows "length (hh_wsBuffer h') \<le> length (hh_wsBuffer h) + length d"
proof (cases "hh_serviceType h")
  case SERVICE_HTTP
  then show ?thesis
    using assms(1) by (auto simp: on_recv_def HttpHandle_feedRecvData_def act_on_def Let_def split: option.splits if_splits)
next
  case SERVICE_WEBSOCKET
  then obtain ms rest where "ws_feedRecvData True (hh_wsBuffer h) (bytes_of d) = Some (Inr (ms, rest))"
    "onMessages ms (h\<lparr>hh_wsBuffer := rest\<rparr>) = Inr h'"
    using assms(1) by (auto simp: on_recv_def HttpHandle_feedRecvData_def split: option.splits sum.splits)
  then show ?thesis
    using feed_loop_rest [of "hh_wsBuffer h @ bytes_of d" "[]" ms rest] onMessages_add assms(2) by (fastforce simp: ws_feedRecvData_def)
qed

text \<open>The faults that frames can cause, and runs that end with one on an upgraded connection.\<close>

fun frame_fault :: "server_fault \<Rightarrow> bool" where
  "frame_fault (Handle_fault Frame_overrun) = True"
| "frame_fault (Handle_fault (Use_after_free acts)) = True"
| "frame_fault f = False"

definition ended_by_frames :: "(string \<Rightarrow> string) \<Rightarrow> http_server \<Rightarrow> (nat \<Rightarrow> conn) \<Rightarrow> sv_event list \<Rightarrow> server_fault \<Rightarrow> bool" where
  "ended_by_frames ek sv cs es f \<longleftrightarrow> frame_fault f \<and> (\<exists>before i d after cs' h. es = before @ Sv_recv i d # after \<and>
     server_run ek sv cs before (Inr cs') \<and> cs' i = Serving h \<and> hh_serviceType h = SERVICE_WEBSOCKET)"

lemma ended_by_frames_now:
  "frame_fault f \<Longrightarrow> cs i = Serving h \<Longrightarrow> hh_serviceType h = SERVICE_WEBSOCKET \<Longrightarrow> ended_by_frames ek sv cs (Sv_recv i d # es) f"
  unfolding ended_by_frames_def by (rule conjI, assumption, rule exI [of _ "[]"]) auto

lemma ended_by_frames_later:
  assumes "conn_event ek sv e (cs (ev_conn e)) = Some (Inr c)" "ended_by_frames ek sv (cs(ev_conn e := c)) es f"
  shows "ended_by_frames ek sv cs (e # es) f"
proof -
  obtain before i d after cs' h where b: "es = before @ Sv_recv i d # after" "server_run ek sv (cs(ev_conn e := c)) before (Inr cs')"
    "cs' i = Serving h" "hh_serviceType h = SERVICE_WEBSOCKET" "frame_fault f"
    using assms(2) by (auto simp: ended_by_frames_def)
  have "server_run ek sv cs (e # before) (Inr cs')" using assms(1) b(2) by simp
  moreover have "e # es = (e # before) @ Sv_recv i d # after" using b(1) by simp
  ultimately show ?thesis using b(3-5) unfolding ended_by_frames_def by blast
qed

lemma event_within:
  assumes "getRouter sv = Some R" "conn_within n c" "n + ev_bytes e < 2 ^ 63" "conn_event ek sv e c = Some r"
  shows "(\<exists>c'. r = Inr c' \<and> conn_within (n + ev_bytes e) c') \<or>
    (\<exists>i d h f. e = Sv_recv i d \<and> c = Serving h \<and> hh_serviceType h = SERVICE_WEBSOCKET \<and> r = Inl f \<and> frame_fault f)"
  using assms(4,1-3)
proof (induction ek sv e c rule: conn_event.induct)
  case (5 ek sv i d h)
  have h: "handle_ok h" "length (hh_wsBuffer h) + length d < 2 ^ 63" using 5 by (auto simp: handle_within_def)
  show ?case
  proof (cases "on_recv ek h d")
    case (Inl f)
    then show ?thesis using recv_any [OF h(1), of d ek] h(2) 5 by (auto simp: conn_recv_def)
  next
    case (Inr h')
    then have "handle_ok h'" using recv_any [OF h(1), of d ek] h(2) by auto
    then have "conn_within (n + length d) (Serving h')"
      using recv_buffer [OF Inr h(2)] 5 by (simp add: handle_within_def)
    then show ?thesis using Inr 5 by (auto simp: conn_recv_def on_close_def)
  qed
qed (auto simp: on_accept_def on_close_def handle_within_def handle_ok_def HttpHandle_new_def parser_ok_init)

lemma run_within:
  assumes "getRouter sv = Some R" "server_run ek sv cs es r" "\<forall>i. conn_within n (cs i)" "n + bytes_received es < 2 ^ 63"
  shows "(\<exists>cs'. r = Inr cs') \<or> (\<exists>f. r = Inl f \<and> ended_by_frames ek sv cs es f)"
  using assms(2-4)
proof (induction es arbitrary: cs n)
  case Nil
  then show ?case by simp
next
  case (Cons e es)
  have n: "n + ev_bytes e < 2 ^ 63" using Cons.prems(3) by (simp add: bytes_received_def)
  obtain q where q: "conn_event ek sv e (cs (ev_conn e)) = Some q" using Cons.prems(1) by auto
  have w: "conn_within n (cs (ev_conn e))" using Cons.prems(2) by blast
  show ?case
  proof (cases q)
    case (Inl f)
    then show ?thesis
      using event_within [OF assms(1) w n q] q Cons.prems(1) ended_by_frames_now by auto
  next
    case (Inr c)
    let ?cs = "cs(ev_conn e := c)"
    have "server_run ek sv ?cs es r" using q Inr Cons.prems(1) by auto
    moreover have "\<forall>i. conn_within (n + ev_bytes e) (?cs i)"
      using event_within [OF assms(1) w n q] Inr Cons.prems(2) conn_within_mono [of n _ "n + ev_bytes e"] by auto
    moreover have "(n + ev_bytes e) + bytes_received es < 2 ^ 63" using Cons.prems(3) by (simp add: bytes_received_def)
    ultimately have "(\<exists>cs'. r = Inr cs') \<or> (\<exists>f. r = Inl f \<and> ended_by_frames ek sv ?cs es f)" by (rule Cons.IH)
    then show ?thesis using ended_by_frames_later [of ek sv e cs c es] q Inr by blast
  qed
qed


text \<open>A server with two connections: a request over TCP, and a handshake over TLS after which the
  client leaves.\<close>

definition sample_server :: http_server where
  "sample_server = registerHttpRouter sample_routes HttpServer_new"

definition sample_events :: "sv_event list" where
  "sample_events = [Sv_tls 2, Sv_tcp 1 sample_memory, Sv_shaken 2 sample_memory,
     Sv_recv 1 (request_text (sample_request HTTP_POST (Some ''xyz''))), Sv_closed 1, Sv_closed 2]"

lemma sample_server_simps [simp]: "getRouter sample_server = Some sample_routes" "getWSService sample_server = False"
  by (simp_all add: sample_server_def registerHttpRouter_def HttpServer_new_def getRouter_def getWSService_def)

text \<open>What they leave.\<close>

definition sample_conns :: "nat \<Rightarrow> conn" where
  "sample_conns = (\<lambda>_. Absent)(1 := Gone [Io_send (HTTP_HEADER @ ''Content-Length: '' @ dec 3 @ CRLF @ CRLF @ ''xyz'')], 2 := Gone [])"

lemma sample_post: "plain_request (sample_request HTTP_POST (Some ''xyz''))"
    "length (request_head (sample_request HTTP_POST (Some ''xyz''))) \<le> HTTP_MAX_HEADER_SIZE"
  using sample_plain [of HTTP_POST "Some ''xyz''"] by (simp_all add: HTTP_MAX_HEADER_SIZE_def)

lemma sample_post_answer:
  "answers sample_routes [sample_request HTTP_POST (Some ''xyz'')] [] (HttpRequest_new (hp_req sample_memory))
    (HttpResponse_new (hp_resp sample_memory)) = [Io_send (HTTP_HEADER @ ''Content-Length: '' @ dec 3 @ CRLF @ CRLF @ ''xyz'')]"
  using sample_routes_found(2) fmt_d_small [of "Suc (Suc (Suc 0))"]
  by (simp add: numeral_3_eq_3 sample_request_def echo_def HttpResponse_dump_def request_into_def body_text_def HttpRequest_new_def
      HttpResponse_new_def sample_memory_def)

lemma sample_run: "server_run (\<lambda>k. k) sample_server (\<lambda>_. Absent) sample_events (Inr sample_conns)"
proof -
  let ?h = "HttpHandle_new sample_memory sample_routes False" and ?r = "sample_request HTTP_POST (Some ''xyz'')"
  obtain h where h: "recv_all (\<lambda>k. k) (map request_text [?r]) ?h = Inr h" "handle_idle h"
    "hh_actions h = [Io_send (HTTP_HEADER @ ''Content-Length: '' @ dec 3 @ CRLF @ CRLF @ ''xyz'')]"
    using serve_all [OF new_handle_idle [of sample_memory sample_routes False], of "[?r]" "\<lambda>k. k"] sample_routes_plain
      sample_post sample_post_answer
    by (auto simp: HttpHandle_new_def HttpParser_new_def sample_request_def)
  have "on_recv (\<lambda>k. k) ?h (request_text ?r) = Inr h" using h(1) by (auto split: sum.splits)
  moreover have "hh_serviceType h = SERVICE_HTTP" using h(2) by (simp add: handle_idle_def)
  moreover have "hh_serviceType ?h = SERVICE_HTTP" "hh_actions ?h = []" by (simp_all add: HttpHandle_new_def)
  ultimately show ?thesis
    using h(3) unfolding sample_events_def sample_conns_def
    by (simp add: conn_recv_def on_accept_def on_close_def HttpHandle_delete_def HttpHandle_close_def fun_upd_twist)
qed


subsection \<open>Answers\<close>

lemma recv_grows: "on_recv ek h d = Inr h' \<Longrightarrow> set (hh_actions h) \<subseteq> set (hh_actions h')"
  by (erule recv_adds) auto

lemma recv_all_grows: "recv_all ek ds h = Inr h' \<Longrightarrow> set (hh_actions h) \<subseteq> set (hh_actions h')"
proof (induction ds arbitrary: h)
  case (Cons d ds)
  then obtain k where "on_recv ek h d = Inr k" "recv_all ek ds k = Inr h'" by (auto split: sum.splits)
  then show ?case using recv_grows Cons.IH by blast
qed simp

lemma conn_run_append:
  "conn_run ek sv es c = Some (Inr c') \<Longrightarrow> conn_run ek sv (es @ es') c = conn_run ek sv es' c'"
  by (induction es arbitrary: c) (auto split: option.splits sum.splits)

lemma conn_run_recvs:
  "getRouter sv = Some R \<Longrightarrow> recv_all ek ds h = Inr h' \<Longrightarrow> Io_close \<notin> set (hh_actions h') \<Longrightarrow>
   conn_run ek sv (map (Sv_recv i) ds) (Serving h) = Some (Inr (Serving h'))"
proof (induction ds arbitrary: h)
  case (Cons d ds)
  then obtain k where k: "on_recv ek h d = Inr k" "recv_all ek ds k = Inr h'" by (auto split: sum.splits)
  then have "Io_close \<notin> set (hh_actions k)" using recv_all_grows Cons.prems(3) by blast
  then show ?case using k Cons by (simp add: conn_recv_def)
qed simp

lemma answers_sends: "list_all is_send (answers R rs url q p)"
  by (induction rs arbitrary: url q p) (auto simp: Let_def split: option.split)

text \<open>How a connection begins.\<close>

definition connects :: "nat \<Rightarrow> HttpParser \<Rightarrow> sv_event list \<Rightarrow> bool" where
  "connects i mem es \<longleftrightarrow> es = [Sv_tcp i mem] \<or> es = [Sv_tls i, Sv_shaken i mem]"

lemma connects_run: "connects i mem es \<Longrightarrow> conn_run ek sv es Absent = Some (Inr (on_accept sv mem))"
  by (auto simp: connects_def)

text \<open>C3: What the server answers on each of its connections. Among the events of any number of other
  connections, with whatever they receive, one that is opened over TCP or TLS and receives requests, each
  in one read, is sent exactly the responses of the functions routed for them, in order; it stays open until
  its end, and then its handle is deleted and nothing more is sent.\<close>
theorem server_answers_each:
  assumes "getRouter sv = Some R" "plain_routes R" "rs \<noteq> []" "rq_method (hd rs) \<noteq> HTTP_HEAD"
    and "\<forall>r\<in>set rs. plain_request r \<and> length (request_head r) \<le> HTTP_MAX_HEADER_SIZE"
    and "server_run ek sv (\<lambda>_. Absent) es (Inr cs)" "connects i mem start"
    and "events_of i es = start @ map (Sv_recv i) (map request_text rs) @ (if ended then [Sv_closed i] else [])"
  shows "\<exists>h. hh_actions h = answers R rs [] (HttpRequest_new (hp_req mem)) (HttpResponse_new (hp_resp mem)) \<and>
    cs i = (if ended then Gone (hh_actions h) else Serving h)"
proof -
  let ?h = "HttpHandle_new mem R (getWSService sv)"
  obtain h where h: "recv_all ek (map request_text rs) ?h = Inr h" "handle_idle h"
    "hh_actions h = answers R rs [] (HttpRequest_new (hp_req mem)) (HttpResponse_new (hp_resp mem))"
    using serve_all [OF new_handle_idle [of mem R "getWSService sv"], of rs ek] assms(2-5)
    by (auto simp: HttpHandle_new_def HttpParser_new_def)
  have "Io_close \<notin> set (hh_actions h)" using service_calls_sends answers_sends h(3) by metis
  note run = conn_run_recvs [OF assms(1) h(1) this, of i]
  have "conn_run ek sv (events_of i es) Absent =
      conn_run ek sv (if ended then [Sv_closed i] else []) (Serving h)"
    unfolding assms(8) conn_run_append [OF connects_run [OF assms(7)]]
    using conn_run_append [OF run] assms(1) by (simp add: on_accept_def)
  moreover have "conn_run ek sv (events_of i es) Absent = Some (Inr (cs i))"
    using assms(6) by (simp add: server_run_each)
  moreover have "hh_actions (HttpHandle_close h) = hh_actions h" using h(2) by (simp add: HttpHandle_close_def handle_idle_def)
  ultimately show ?thesis using h(3) by (intro exI [of _ h]) (auto simp: on_close_def HttpHandle_delete_def)
qed

lemma server_answers_each_witness:
  "\<exists>h. hh_actions h = answers sample_routes [sample_request HTTP_POST (Some ''xyz'')] []
      (HttpRequest_new (hp_req sample_memory)) (HttpResponse_new (hp_resp sample_memory)) \<and>
    sample_conns 1 = (if True then Gone (hh_actions h) else Serving h)"
  by (rule server_answers_each [OF sample_server_simps(1) sample_routes_plain _ _ _ sample_run, where start = "[Sv_tcp 1 sample_memory]"])
    (use sample_post in \<open>simp_all add: sample_request_def connects_def sample_events_def\<close>)

end
