(* ===== verification/ServerStore.thy ===== *)
theory ServerStore
  imports ServerConns
begin

section \<open>The handles of a server in memory: HttpServer\<close>

text \<open>
  The connections of \<open>ServerConns\<close> carry their handles with them. In the program an io has only a pointer,
  \<open>userdata\<close>, which is the server until the connection is accepted and the address of a handle on the heap
  afterwards; the callbacks cast it to what they expect. Here the ios, their \<open>userdata\<close> and callbacks and the
  heap with the handles of all connections are modelled as they are: \<open>on_accept\<close> allocates a handle, \<open>on_recv\<close>
  and \<open>on_close\<close> look it up, and \<open>on_close\<close> deletes it. A pointer that is cast to the wrong class, and one to
  a handle that is not allocated, are faults of their own. The theorems show that these faults do not occur,
  that no handle is leaked or shared, and that the connections of a server do what they do one by one.
\<close>

subsection \<open>Ios, heap and callbacks\<close>

datatype sv_userdata = Ud_server | Ud_handle nat

record sv_io =
  si_shaking :: bool
  si_userdata :: sv_userdata
  si_readcb :: bool
  si_closecb :: bool

text \<open>A connection is named by its io; what a closed one has done is kept.\<close>

datatype sv_slot = Slot_unused | Slot_open sv_io | Slot_closed "handle_action list"

record sv_store =
  st_ios :: "nat \<Rightarrow> sv_slot"
  st_heap :: "nat \<Rightarrow> HttpHandle option"

datatype store_fault = Dangling | Wrong_userdata | Conn_fault server_fault

definition store_init :: sv_store where
  "store_init = \<lparr>st_ios = \<lambda>_. Slot_unused, st_heap = \<lambda>_. None\<rparr>"

definition put_slot :: "nat \<Rightarrow> sv_slot \<Rightarrow> sv_store \<Rightarrow> sv_store" where
  "put_slot i s st = st\<lparr>st_ios := (st_ios st)(i := s)\<rparr>"

definition set_handle :: "nat \<Rightarrow> HttpHandle option \<Rightarrow> sv_store \<Rightarrow> sv_store" where
  "set_handle a h st = st\<lparr>st_heap := (st_heap st)(a := h)\<rparr>"

text \<open>The io of a connection that \<open>io_accept_cb\<close> has got: with the \<open>userdata\<close> of the listening io, and without a
  read or a close callback.\<close>

definition accepted_io :: "bool \<Rightarrow> sv_io" where
  "accepted_io tls = \<lparr>si_shaking = tls, si_userdata = Ud_server, si_readcb = False, si_closecb = False\<rparr>"

text \<open>\<open>on_accept\<close>: \<open>new\<close> returns the address \<open>a\<close>.\<close>

definition store_on_accept :: "http_server \<Rightarrow> HttpParser \<Rightarrow> nat \<Rightarrow> nat \<Rightarrow> sv_io \<Rightarrow> sv_store \<Rightarrow> store_fault + sv_store" where
  "store_on_accept sv mem a i io st =
     (case si_userdata io of
        Ud_handle b \<Rightarrow> Inl Wrong_userdata
      | Ud_server \<Rightarrow>
          let st = set_handle a (Some (HttpHandle_new mem (case getRouter sv of None \<Rightarrow> [] | Some R \<Rightarrow> R) (getWSService sv))) st;
              io = io\<lparr>si_userdata := Ud_handle a, si_readcb := True, si_closecb := True\<rparr>
          in Inr (put_slot i (Slot_open io) st))"

text \<open>\<open>io_close\<close> with \<open>on_close\<close>, which deletes the handle.\<close>

definition store_close :: "nat \<Rightarrow> sv_io \<Rightarrow> sv_store \<Rightarrow> store_fault + sv_store" where
  "store_close i io st =
     (if \<not> si_closecb io then Inr (put_slot i (Slot_closed []) st)
      else case si_userdata io of
             Ud_server \<Rightarrow> Inl Wrong_userdata
           | Ud_handle a \<Rightarrow>
               (case st_heap st a of
                  None \<Rightarrow> Inl Dangling
                | Some h \<Rightarrow> Inr (put_slot i (Slot_closed (HttpHandle_delete h)) (set_handle a None st))))"

text \<open>\<open>on_recv\<close>; the handle may close the io.\<close>

definition store_recv :: "(string \<Rightarrow> string) \<Rightarrow> http_server \<Rightarrow> nat \<Rightarrow> sv_io \<Rightarrow> string \<Rightarrow> sv_store \<Rightarrow> store_fault + sv_store" where
  "store_recv ek sv i io d st =
     (case si_userdata io of
        Ud_server \<Rightarrow> Inl Wrong_userdata
      | Ud_handle a \<Rightarrow>
          (case st_heap st a of
             None \<Rightarrow> Inl Dangling
           | Some h \<Rightarrow>
               if getRouter sv = None \<and> reaches_router h d then Inl (Conn_fault Null_router)
               else case on_recv ek h d of
                      Inl e \<Rightarrow> Inl (Conn_fault (Handle_fault e))
                    | Inr h' \<Rightarrow>
                        let st = set_handle a (Some h') st
                        in if Io_close \<in> set (hh_actions h') then store_close i io st else Inr st))"

text \<open>The steps of the server: the allocator returns any address that is free.\<close>

inductive store_step :: "(string \<Rightarrow> string) \<Rightarrow> http_server \<Rightarrow> sv_store \<Rightarrow> sv_event \<Rightarrow> store_fault + sv_store \<Rightarrow> bool" for ek sv st where
  step_tcp: "store_step ek sv st (Sv_tcp i mem) (store_on_accept sv mem a i (accepted_io False) st)"
    if "st_ios st i = Slot_unused" "st_heap st a = None"
| step_tls: "store_step ek sv st (Sv_tls i) (Inr (put_slot i (Slot_open (accepted_io True)) st))"
    if "st_ios st i = Slot_unused"
| step_shaken: "store_step ek sv st (Sv_shaken i mem) (store_on_accept sv mem a i (io\<lparr>si_shaking := False\<rparr>) st)"
    if "st_ios st i = Slot_open io" "si_shaking io" "st_heap st a = None"
| step_recv: "store_step ek sv st (Sv_recv i d) (store_recv ek sv i io d st)"
    if "st_ios st i = Slot_open io" "si_readcb io"
| step_closed: "store_step ek sv st (Sv_closed i) (store_close i io st)"
    if "st_ios st i = Slot_open io"

inductive store_run :: "(string \<Rightarrow> string) \<Rightarrow> http_server \<Rightarrow> sv_store \<Rightarrow> sv_event list \<Rightarrow> store_fault + sv_store \<Rightarrow> bool" for ek sv where
  store_end: "store_run ek sv st [] (Inr st)"
| store_event: "store_run ek sv st (e # es) r" if "store_step ek sv st e (Inr st')" "store_run ek sv st' es r"
| store_stop: "store_run ek sv st (e # es) (Inl f)" if "store_step ek sv st e (Inl f)"

inductive_simps store_run_nil [simp]: "store_run ek sv st [] r"
inductive_cases store_run_consE: "store_run ek sv st (e # es) r"

subsection \<open>Who owns which handle\<close>

definition owns :: "sv_store \<Rightarrow> nat \<Rightarrow> nat \<Rightarrow> bool" where
  "owns st i a \<longleftrightarrow> (\<exists>io. st_ios st i = Slot_open io \<and> si_userdata io = Ud_handle a)"

text \<open>The handles that are allocated are those of the open connections, and no two connections have the same.\<close>

definition handles_owned :: "sv_store \<Rightarrow> bool" where
  "handles_owned st \<longleftrightarrow> (\<forall>a. st_heap st a \<noteq> None \<longleftrightarrow> (\<exists>i. owns st i a)) \<and> (\<forall>i j a. owns st i a \<longrightarrow> owns st j a \<longrightarrow> i = j)"

definition io_ok :: "sv_io \<Rightarrow> bool" where
  "io_ok io \<longleftrightarrow> (if si_userdata io = Ud_server then si_shaking io \<and> \<not> si_readcb io \<and> \<not> si_closecb io
     else \<not> si_shaking io \<and> si_readcb io \<and> si_closecb io)"

definition store_ok :: "sv_store \<Rightarrow> bool" where
  "store_ok st \<longleftrightarrow> handles_owned st \<and> (\<forall>i io. st_ios st i = Slot_open io \<longrightarrow> io_ok io) \<and> finite (dom (st_heap st))"

text \<open>The state a connection is in.\<close>

definition conn_of :: "sv_store \<Rightarrow> nat \<Rightarrow> conn" where
  "conn_of st i =
     (case st_ios st i of
        Slot_unused \<Rightarrow> Absent
      | Slot_closed as \<Rightarrow> Gone as
      | Slot_open io \<Rightarrow>
          (case si_userdata io of
             Ud_server \<Rightarrow> Handshaking
           | Ud_handle a \<Rightarrow> (case st_heap st a of None \<Rightarrow> Absent | Some h \<Rightarrow> Serving h)))"


subsection \<open>Updates of the store\<close>

lemma store_simps [simp]:
  "st_ios (put_slot i s st) = (st_ios st)(i := s)" "st_heap (put_slot i s st) = st_heap st"
  "st_ios (set_handle a h st) = st_ios st" "st_heap (set_handle a h st) = (st_heap st)(a := h)"
  by (simp_all add: put_slot_def set_handle_def)

lemma owns_simps [simp]:
  "owns (set_handle a h st) = owns st"
  "owns (put_slot i s st) j a \<longleftrightarrow> (if j = i then \<exists>io. s = Slot_open io \<and> si_userdata io = Ud_handle a else owns st j a)"
  by (auto simp: owns_def fun_eq_iff)

lemma owns_open: "st_ios st i = Slot_open io \<Longrightarrow> owns st i a \<longleftrightarrow> si_userdata io = Ud_handle a"
  by (auto simp: owns_def)

lemma owns_not_open: "st_ios st i = Slot_unused \<Longrightarrow> \<not> owns st i a"
  by (auto simp: owns_def)

lemma owners_of_slot:
  assumes "\<And>b. \<not> owns st i b"
  shows "(\<exists>j. owns (put_slot i s st) j b) \<longleftrightarrow> (\<exists>io. s = Slot_open io \<and> si_userdata io = Ud_handle b) \<or> (\<exists>j. owns st j b)"
  using assms by (metis owns_simps(2))

lemma old_owner: "owns (put_slot i s st) j b \<Longrightarrow> \<not> (\<exists>io. s = Slot_open io \<and> si_userdata io = Ud_handle b) \<Longrightarrow> owns st j b"
  by (auto split: if_splits)

lemma handles_owned_slot:
  assumes "handles_owned st" "\<And>b. \<not> owns st i b" "\<And>b. (\<exists>io. s = Slot_open io \<and> si_userdata io = Ud_handle b) \<longleftrightarrow> b \<in> A"
    and "\<And>b. b \<in> A \<Longrightarrow> st_heap st b = None" "\<And>b. hp b \<noteq> None \<longleftrightarrow> b \<in> A \<or> st_heap st b \<noteq> None"
  shows "handles_owned (put_slot i s (st\<lparr>st_heap := hp\<rparr>))"
proof -
  have o: "owns (st\<lparr>st_heap := hp\<rparr>) = owns st" by (simp add: owns_def fun_eq_iff)
  have free: "\<not> owns st j b" if "b \<in> A" for j b using assms(1,4) that unfolding handles_owned_def by blast
  have owners: "(\<exists>j. owns (put_slot i s (st\<lparr>st_heap := hp\<rparr>)) j b) \<longleftrightarrow> hp b \<noteq> None" for b
    using owners_of_slot [of "st\<lparr>st_heap := hp\<rparr>" i s b, unfolded o, OF assms(2)] assms(1) assms(3,5) [of b]
    unfolding handles_owned_def by blast
  have one: "j = k" if "owns (put_slot i s (st\<lparr>st_heap := hp\<rparr>)) j b" "owns (put_slot i s (st\<lparr>st_heap := hp\<rparr>)) k b" for j k b
  proof (cases "b \<in> A")
    case True
    have only: "l = i" if "owns (put_slot i s (st\<lparr>st_heap := hp\<rparr>)) l b" for l
      using that free [OF True, of l] unfolding owns_simps o by argo
    show ?thesis using only [OF that(1)] only [OF that(2)] by simp
  next
    case False
    then have no: "\<not> (\<exists>io. s = Slot_open io \<and> si_userdata io = Ud_handle b)" using assms(3) [of b] by simp
    from old_owner [OF that(1) no] old_owner [OF that(2) no] have "owns st j b" "owns st k b" unfolding o .
    then show ?thesis using assms(1) unfolding handles_owned_def by metis
  qed
  show ?thesis
  proof (unfold handles_owned_def, intro conjI allI impI)
    fix b
    show "st_heap (put_slot i s (st\<lparr>st_heap := hp\<rparr>)) b \<noteq> None \<longleftrightarrow> (\<exists>j. owns (put_slot i s (st\<lparr>st_heap := hp\<rparr>)) j b)"
      unfolding owners by simp
  qed (rule one)
qed

lemma accept_ok:
  assumes "store_ok st" "\<And>b. \<not> owns st i b" "st_heap st a = None" "io_ok io" "si_userdata io = Ud_handle a"
  shows "store_ok (put_slot i (Slot_open io) (set_handle a (Some h) st))"
proof -
  have "handles_owned (put_slot i (Slot_open io) (st\<lparr>st_heap := (st_heap st)(a := Some h)\<rparr>))"
    by (rule handles_owned_slot [where A = "{a}"]) (use assms in \<open>auto simp: store_ok_def\<close>)
  then show ?thesis using assms(1,4) by (simp add: store_ok_def flip: set_handle_def)
qed

lemma slot_ok:
  assumes "store_ok st" "\<And>b. \<not> owns st i b" "\<And>io. s = Slot_open io \<Longrightarrow> io_ok io \<and> si_userdata io = Ud_server"
  shows "store_ok (put_slot i s st)"
proof -
  have "handles_owned (put_slot i s (st\<lparr>st_heap := st_heap st\<rparr>))"
    by (rule handles_owned_slot [where A = "{}"]) (use assms in \<open>auto simp: store_ok_def\<close>)
  then show ?thesis using assms(1,3) by (simp add: store_ok_def)
qed

lemma put_ok: "store_ok st \<Longrightarrow> st_heap st a \<noteq> None \<Longrightarrow> store_ok (set_handle a (Some h) st)"
  unfolding store_ok_def handles_owned_def by auto

lemma close_ok:
  assumes "store_ok st" "owns st i a"
  shows "store_ok (put_slot i (Slot_closed as) (set_handle a None st))"
proof -
  have H: "(st_heap st b \<noteq> None) = (\<exists>j. owns st j b)" "owns st j b \<Longrightarrow> owns st k b \<Longrightarrow> j = k" for j k b
    using assms(1) unfolding store_ok_def handles_owned_def by blast+
  let ?st = "put_slot i (Slot_closed as) (set_handle a None st)"
  have o: "owns ?st j b \<longleftrightarrow> j \<noteq> i \<and> owns st j b" for j b by simp
  have "st_heap ?st b \<noteq> None \<longleftrightarrow> (\<exists>j. owns ?st j b)" for b
  proof (cases "b = a")
    case True
    then show ?thesis unfolding o using H(2) assms(2) by auto
  next
    case False
    then have "\<not> owns st i b" using assms(2) by (auto simp: owns_def)
    then have "(\<exists>j. j \<noteq> i \<and> owns st j b) \<longleftrightarrow> (\<exists>j. owns st j b)" by metis
    then show ?thesis unfolding o using H(1) [of b] False by simp
  qed
  moreover have "owns ?st j b \<Longrightarrow> owns ?st k b \<Longrightarrow> j = k" for j k b unfolding o using H(2) by blast
  ultimately have "handles_owned ?st" unfolding handles_owned_def by blast
  then show ?thesis using assms(1) by (simp add: store_ok_def dom_fun_upd)
qed

lemma owner_unique: "store_ok st \<Longrightarrow> owns st i a \<Longrightarrow> owns st j a \<Longrightarrow> i = j"
  unfolding store_ok_def handles_owned_def by blast

lemma owned_allocated: "store_ok st \<Longrightarrow> owns st i a \<Longrightarrow> \<exists>h. st_heap st a = Some h"
  unfolding store_ok_def handles_owned_def by blast

text \<open>What the connections see of an update.\<close>

lemma conn_of_other: "j \<noteq> i \<Longrightarrow> conn_of (put_slot i s st) j = conn_of st j"
  by (simp add: conn_of_def split: sv_slot.split sv_userdata.split)

lemma conn_of_handle: "\<not> owns st j a \<Longrightarrow> conn_of (set_handle a h st) j = conn_of st j"
  by (auto simp: conn_of_def owns_def split: sv_slot.split sv_userdata.split)

lemma conn_of_init: "conn_of store_init = (\<lambda>_. Absent)"
  by (simp add: conn_of_def store_init_def fun_eq_iff)

lemma store_ok_init: "store_ok store_init"
  by (simp add: store_ok_def handles_owned_def store_init_def owns_def)

subsection \<open>Every step is a step of its connection\<close>

text \<open>What the store has to become when the connection \<open>i\<close> becomes what \<open>q\<close> says.\<close>

definition follows :: "sv_store \<Rightarrow> nat \<Rightarrow> server_fault + conn \<Rightarrow> store_fault + sv_store \<Rightarrow> bool" where
  "follows st i q r \<longleftrightarrow>
     (case q of
        Inl f \<Rightarrow> r = Inl (Conn_fault f)
      | Inr c \<Rightarrow> \<exists>st'. r = Inr st' \<and> store_ok st' \<and> conn_of st' = (conn_of st)(i := c))"

lemma accept_follows:
  assumes "store_ok st" "\<And>b. \<not> owns st i b" "st_heap st a = None" "si_userdata io = Ud_server" "\<not> si_shaking io"
  shows "follows st i (Inr (on_accept sv mem)) (store_on_accept sv mem a i io st)"
proof -
  let ?h = "HttpHandle_new mem (case getRouter sv of None \<Rightarrow> [] | Some R \<Rightarrow> R) (getWSService sv)"
  let ?io = "io\<lparr>si_userdata := Ud_handle a, si_readcb := True, si_closecb := True\<rparr>"
  let ?st = "put_slot i (Slot_open ?io) (set_handle a (Some ?h) st)"
  have "store_ok ?st" by (rule accept_ok) (use assms in \<open>auto simp: io_ok_def\<close>)
  moreover have "\<not> owns st j a" for j using owned_allocated [OF assms(1), of j a] assms(3) by auto
  then have "conn_of ?st = (conn_of st)(i := on_accept sv mem)"
    by (auto simp: fun_eq_iff conn_of_other conn_of_handle) (simp add: conn_of_def on_accept_def)
  ultimately show ?thesis using assms(4) by (simp add: follows_def store_on_accept_def Let_def)
qed

lemma close_follows:
  assumes "store_ok st" "st_ios st i = Slot_open io" "si_userdata io = Ud_handle a" "st_heap st a = Some h" "si_closecb io"
  shows "follows st i (Inr (on_close h)) (store_close i io st)"
proof -
  have own: "owns st i a" using assms(2,3) by (simp add: owns_def)
  let ?st = "put_slot i (Slot_closed (HttpHandle_delete h)) (set_handle a None st)"
  have "conn_of ?st = (conn_of st)(i := on_close h)"
  proof
    fix j
    show "conn_of ?st j = ((conn_of st)(i := on_close h)) j"
    proof (cases "j = i")
      case True
      then show ?thesis by (simp add: conn_of_def on_close_def)
    next
      case False
      then have "\<not> owns st j a" using owner_unique [OF assms(1) own] by blast
      then show ?thesis using False by (simp add: conn_of_other conn_of_handle)
    qed
  qed
  then show ?thesis using close_ok [OF assms(1) own] assms(3-5) by (simp add: follows_def store_close_def)
qed

lemma recv_follows:
  assumes "store_ok st" "st_ios st i = Slot_open io" "si_userdata io = Ud_handle a" "st_heap st a = Some h" "si_closecb io"
  shows "follows st i (conn_recv ek sv h d) (store_recv ek sv i io d st)"
proof (cases "on_recv ek h d")
  case (Inl e)
  then show ?thesis using assms(3,4) by (simp add: follows_def conn_recv_def store_recv_def)
next
  case (Inr h')
  let ?st = "set_handle a (Some h') st"
  have ok: "store_ok ?st" using put_ok assms(1,4) by simp
  have own: "owns st i a" using assms(2,3) by (simp add: owns_def)
  have conn: "conn_of ?st = (conn_of st)(i := Serving h')"
  proof
    fix j
    show "conn_of ?st j = ((conn_of st)(i := Serving h')) j"
      using owner_unique [OF assms(1) own, of j] assms(2,3) conn_of_handle [of st j a]
      by (cases "j = i") (auto simp: conn_of_def)
  qed
  have "follows ?st i (Inr (on_close h')) (store_close i io ?st)"
    by (rule close_follows) (use ok assms in auto)
  then have "follows st i (Inr (on_close h')) (store_close i io ?st)" using conn by (auto simp: follows_def)
  then show ?thesis using assms(3,4) Inr ok conn by (auto simp: conn_recv_def store_recv_def follows_def)
qed

lemma step_follows:
  assumes "store_step ek sv st e r" "store_ok st"
  shows "\<exists>q. conn_event ek sv e (conn_of st (ev_conn e)) = Some q \<and> follows st (ev_conn e) q r"
  using assms(1)
proof cases
  case (step_tcp i a mem)
  then have "follows st i (Inr (on_accept sv mem)) (store_on_accept sv mem a i (accepted_io False) st)"
    by (intro accept_follows assms(2)) (simp_all add: owns_not_open accepted_io_def)
  then show ?thesis using step_tcp by (simp add: conn_of_def)
next
  case (step_tls i)
  have "store_ok (put_slot i (Slot_open (accepted_io True)) st)"
    by (rule slot_ok [OF assms(2)]) (use step_tls in \<open>auto simp: owns_not_open accepted_io_def io_ok_def\<close>)
  moreover have "conn_of (put_slot i (Slot_open (accepted_io True)) st) = (conn_of st)(i := Handshaking)"
    by (auto simp: fun_eq_iff conn_of_other) (simp add: conn_of_def accepted_io_def)
  ultimately show ?thesis using step_tls by (simp add: conn_of_def follows_def)
next
  case (step_shaken i io a mem)
  then have io: "si_userdata io = Ud_server" using assms(2) by (auto simp: store_ok_def io_ok_def split: if_splits)
  have "follows st i (Inr (on_accept sv mem)) (store_on_accept sv mem a i (io\<lparr>si_shaking := False\<rparr>) st)"
    by (intro accept_follows assms(2)) (use step_shaken io in \<open>simp_all add: owns_open\<close>)
  then show ?thesis using step_shaken io by (simp add: conn_of_def)
next
  case (step_recv i io d)
  then obtain a where a: "si_userdata io = Ud_handle a" "si_closecb io"
    using assms(2) by (cases "si_userdata io") (auto simp: store_ok_def io_ok_def)
  then obtain h where h: "st_heap st a = Some h" using owned_allocated [OF assms(2)] step_recv by (auto simp: owns_def)
  from recv_follows [OF assms(2) step_recv(3) a(1) h a(2)] step_recv a h show ?thesis by (simp add: conn_of_def)
next
  case (step_closed i io)
  show ?thesis
  proof (cases "si_userdata io")
    case Ud_server
    then have c: "\<not> si_closecb io" using step_closed assms(2) by (auto simp: store_ok_def io_ok_def)
    have "store_ok (put_slot i (Slot_closed []) st)"
      by (rule slot_ok [OF assms(2)]) (use step_closed Ud_server in \<open>simp_all add: owns_open\<close>)
    moreover have "conn_of (put_slot i (Slot_closed []) st) = (conn_of st)(i := Gone [])"
      by (auto simp: fun_eq_iff conn_of_other) (simp add: conn_of_def)
    ultimately show ?thesis using step_closed Ud_server c by (simp add: conn_of_def store_close_def follows_def)
  next
    case (Ud_handle a)
    then obtain h where h: "st_heap st a = Some h" using owned_allocated [OF assms(2)] step_closed by (auto simp: owns_def)
    have "si_closecb io" using step_closed Ud_handle assms(2) by (auto simp: store_ok_def io_ok_def)
    from close_follows [OF assms(2) step_closed(3) Ud_handle h this] step_closed Ud_handle h show ?thesis by (simp add: conn_of_def)
  qed
qed


subsection \<open>Runs of the store are runs of the connections\<close>

lemma store_run_follows:
  assumes "store_run ek sv st es r" "store_ok st"
  shows "(\<exists>st'. r = Inr st' \<and> store_ok st' \<and> server_run ek sv (conn_of st) es (Inr (conn_of st'))) \<or>
    (\<exists>f. r = Inl (Conn_fault f) \<and> server_run ek sv (conn_of st) es (Inl f))"
  using assms
proof (induction rule: store_run.induct)
  case (store_event st e st' es r)
  obtain q where q: "conn_event ek sv e (conn_of st (ev_conn e)) = Some q" "follows st (ev_conn e) q (Inr st')"
    using step_follows [OF store_event.hyps(1) store_event.prems] by blast
  then obtain c where c: "q = Inr c" "store_ok st'" "conn_of st' = (conn_of st)(ev_conn e := c)"
    by (auto simp: follows_def split: sum.splits)
  have "server_run ek sv (conn_of st') es x \<Longrightarrow> server_run ek sv (conn_of st) (e # es) x" for x
    using q(1) unfolding c(1,3) by (rule server_run.run_event)
  with store_event.IH [OF c(2)] show ?case by blast
next
  case (store_stop st e f es)
  obtain q where q: "conn_event ek sv e (conn_of st (ev_conn e)) = Some q" "follows st (ev_conn e) q (Inl f)"
    using step_follows [OF store_stop.hyps(1) store_stop.prems] by blast
  then show ?case by (auto simp: follows_def split: sum.splits)
qed simp

text \<open>The other way round: what the connections can do one by one the store can do.\<close>

lemma free_address:
  assumes "store_ok st"
  obtains a where "st_heap st a = None"
  using assms ex_new_if_finite [of "dom (st_heap st)"] by (auto simp: store_ok_def)

lemma conn_of_cases:
  assumes "store_ok st"
  shows "conn_of st i = Absent \<Longrightarrow> st_ios st i = Slot_unused"
    and "conn_of st i = Handshaking \<Longrightarrow> \<exists>io. st_ios st i = Slot_open io \<and> si_shaking io"
    and "conn_of st i = Serving h \<Longrightarrow> \<exists>io. st_ios st i = Slot_open io \<and> si_readcb io"
  using assms owned_allocated [OF assms, of i]
  by (auto simp: conn_of_def owns_def store_ok_def io_ok_def split: sv_slot.splits sv_userdata.splits option.splits)

lemma step_exists:
  assumes "conn_event ek sv e (conn_of st (ev_conn e)) = Some q" "store_ok st"
  shows "\<exists>r. store_step ek sv st e r"
proof -
  obtain a where a: "st_heap st a = None" using free_address [OF assms(2)] .
  note cases = conn_of_cases [OF assms(2), of "ev_conn e"]
  show ?thesis
  proof (cases e)
    case (Sv_tcp i mem)
    then have "st_ios st i = Slot_unused" using assms(1) cases(1) by (cases "conn_of st i") auto
    then show ?thesis using step_tcp a Sv_tcp by blast
  next
    case (Sv_tls i)
    then have "st_ios st i = Slot_unused" using assms(1) cases(1) by (cases "conn_of st i") auto
    then show ?thesis using step_tls Sv_tls by blast
  next
    case (Sv_shaken i mem)
    then obtain io where "st_ios st i = Slot_open io" "si_shaking io" using assms(1) cases(2) by (cases "conn_of st i") auto
    then show ?thesis using step_shaken a Sv_shaken by blast
  next
    case (Sv_recv i d)
    then obtain io where "st_ios st i = Slot_open io" "si_readcb io" using assms(1) cases(3) by (cases "conn_of st i") auto
    then show ?thesis using step_recv Sv_recv by blast
  next
    case (Sv_closed i)
    then obtain io where "st_ios st i = Slot_open io" using assms(1) cases(2,3) by (cases "conn_of st i") auto
    then show ?thesis using step_closed Sv_closed by blast
  qed
qed

lemma server_run_stored:
  assumes "server_run ek sv cs es q" "store_ok st" "conn_of st = cs"
  shows "\<exists>r. store_run ek sv st es r \<and>
    (case q of Inr cs' \<Rightarrow> \<exists>st'. r = Inr st' \<and> conn_of st' = cs' | Inl f \<Rightarrow> r = Inl (Conn_fault f))"
  using assms
proof (induction arbitrary: st rule: server_run.induct)
  case (run_end cs)
  then show ?case by auto
next
  case (run_event e cs c es r)
  from run_event.hyps(1) run_event.prems obtain p where p: "store_step ek sv st e p" using step_exists by metis
  from step_follows [OF p run_event.prems(1)] run_event.hyps(1) run_event.prems(2) have "follows st (ev_conn e) (Inr c) p" by auto
  then obtain st' where st': "p = Inr st'" "store_ok st'" "conn_of st' = cs(ev_conn e := c)"
    unfolding follows_def run_event.prems(2) sum.case by blast
  from run_event.IH [OF st'(2,3)] store_run.store_event [OF p [unfolded st'(1)]] show ?case by blast
next
  case (run_fault e cs f es)
  from run_fault.hyps run_fault.prems obtain p where p: "store_step ek sv st e p" using step_exists by metis
  with step_follows [OF p run_fault.prems(1)] run_fault.hyps run_fault.prems(2) have "p = Inl (Conn_fault f)"
    by (auto simp: follows_def)
  then show ?case using p by (auto intro: store_stop)
qed

text \<open>C10: The handles of a server. Whatever addresses the allocator gives the handles and whatever the order of the
  events of any number of connections: no callback finds a \<open>userdata\<close> of the wrong class or a handle that is
  not allocated, no two connections have the same handle, and the handles that are allocated are those of the
  open connections, so none is leaked. Every connection is in the state to which its own events alone bring
  it, and when the server ends by a fault it is one of the call of a handle.\<close>
theorem handles_kept_apart:
  assumes "store_run ek sv store_init es r"
  shows "(\<exists>st. r = Inr st \<and> handles_owned st \<and> (\<forall>i. conn_run ek sv (events_of i es) Absent = Some (Inr (conn_of st i)))) \<or>
    (\<exists>f. r = Inl (Conn_fault f) \<and> server_run ek sv (\<lambda>_. Absent) es (Inl f))"
  using store_run_follows [OF assms store_ok_init] server_run_each [of ek sv "\<lambda>_. Absent" es]
  by (auto simp: conn_of_init store_ok_def)

text \<open>A server with two connections, one over TCP that is still open and one over TLS whose handshake failed.\<close>

definition sample_arrivals :: "sv_event list" where
  "sample_arrivals = [Sv_tls 2, Sv_tcp 1 sample_memory, Sv_closed 2]"

definition sample_store :: sv_store where
  "sample_store = \<lparr>st_ios = (\<lambda>_. Slot_unused)(2 := Slot_closed [], 1 := Slot_open
       \<lparr>si_shaking = False, si_userdata = Ud_handle 7, si_readcb = True, si_closecb = True\<rparr>),
     st_heap = (\<lambda>_. None)(7 := Some (HttpHandle_new sample_memory sample_routes False))\<rparr>"

lemma sample_store_run: "store_run (\<lambda>k. k) sample_server store_init sample_arrivals (Inr sample_store)"
proof -
  let ?st = "put_slot 2 (Slot_open (accepted_io True)) store_init"
  have "store_step (\<lambda>k. k) sample_server store_init (Sv_tls 2) (Inr ?st)"
    by (rule step_tls) (simp add: store_init_def)
  moreover have "store_step (\<lambda>k. k) sample_server ?st (Sv_tcp 1 sample_memory)
      (store_on_accept sample_server sample_memory 7 1 (accepted_io False) ?st)"
    by (rule step_tcp) (simp_all add: store_init_def)
  then obtain st where st: "store_step (\<lambda>k. k) sample_server ?st (Sv_tcp 1 sample_memory) (Inr st)"
    "Inr st = store_on_accept sample_server sample_memory 7 1 (accepted_io False) ?st"
    by (simp add: store_on_accept_def accepted_io_def Let_def)
  have "st_ios st 2 = Slot_open (accepted_io True)"
    using st(2) by (simp add: store_on_accept_def accepted_io_def Let_def)
  from step_closed [OF this] have "store_step (\<lambda>k. k) sample_server st (Sv_closed 2) (store_close 2 (accepted_io True) st)" .
  moreover have "store_close 2 (accepted_io True) st = Inr sample_store"
    using st(2) by (simp add: store_on_accept_def store_close_def accepted_io_def Let_def sample_store_def store_init_def
        put_slot_def set_handle_def fun_upd_twist)
  ultimately show ?thesis unfolding sample_arrivals_def using st(1) by (auto intro: store_run.intros)
qed

lemma handles_kept_apart_witness:
  "(\<exists>st. Inr sample_store = (Inr st :: store_fault + sv_store) \<and> handles_owned st \<and>
      (\<forall>i. conn_run (\<lambda>k. k) sample_server (events_of i sample_arrivals) Absent = Some (Inr (conn_of st i)))) \<or>
    (\<exists>f. Inr sample_store = (Inl (Conn_fault f) :: store_fault + sv_store) \<and>
      server_run (\<lambda>k. k) sample_server (\<lambda>_. Absent) sample_arrivals (Inl f))"
  by (rule handles_kept_apart [OF sample_store_run])

end
