(* ===== verification/HttpPieces.thy ===== *)
theory HttpPieces
  imports HttpCollect
begin

section \<open>A message that is read in pieces\<close>

text \<open>
  The parser over a body that comes in several buffers, for any client: the first buffer, with the head
  and the beginning of the body, a buffer within the body, and the last one.
\<close>

text \<open>Within a body of which \<open>n\<close> bytes are to come, of a message with the method \<open>m\<close>.\<close>

definition reads_body :: "nat \<Rightarrow> http_method \<Rightarrow> http_parser \<Rightarrow> bool" where
  "reads_body n m ps \<longleftrightarrow> http_errno ps = HPE_OK \<and> state ps = s_body_identity \<and> nread ps = 0 \<and> \<not> upgrade ps \<and>
     \<not> lenient_http_headers ps \<and> framed (head_of ps) \<and> h_length (head_of ps) = n \<and> h_method (head_of ps) = m \<and>
     0 < n \<and> n < ULLONG_MAX"

context event_client
begin

text \<open>A buffer that ends within the body.\<close>

lemma exec_body_part:
  assumes st: "stage S G s_body_identity w u [] t x" and w: "length t < h_length w" "h_length w < ULLONG_MAX" "t \<noteq> []"
  shows "\<exists>y. exec_bytes G x = Some (Ret (length (data G)) y) \<and> http_errno (parser y) = HPE_OK \<and> state (parser y) = s_body_identity \<and>
    nread (parser y) = l_nread x \<and> upgrade (parser y) = upgrade (parser x) \<and>
    head_of (parser y) = w\<lparr>h_length := h_length w - length t\<rparr> \<and> udata y = act (E_body t) u"
proof -
  note b = stageD [OF st]
  note hf = head_of_fields [OF b(11)]
  have L: "cur x < length (data G)" "length (data G) - cur x = length t"
  proof -
    show "cur x < length (data G)" using b(5) w(3) by (metis append_Nil drop_eq_Nil not_le)
    show "length (data G) - cur x = length t" using arg_cong [OF b(5), of length] by simp
  qed
  have C: "counts G x" using b(4) by (simp add: counts_def parsing_header_def)
  let ?t = "take_body G (take_byte G x)"
  let ?a = "after_data G M_body 0 (?t\<lparr>cur := cur ?t + 1\<rparr>)"
  have T: "cur ?t = cur x + length t - 1" "p_state ?t = s_body_identity"
    "parser ?t = (parser x)\<lparr>content_length := h_length w - length t\<rparr>"
    "marks ?t = (\<lambda>_. None)(M_body := Some (cur x))" "udata ?t = u" "l_nread ?t = l_nread x"
    using b L hf w by (simp_all add: take_body_def Let_def parsing_header_def)
  have "exec_state G (take_byte G x) = Next ?t"
    using b hf w T by (simp add: exec_state_def do_body_identity_def Let_def)
  then have "exec_bytes G x = exec_bytes G (?t\<lparr>cur := cur ?t + 1\<rparr>)" by (rule exec_bytes_next [OF L(1) C])
  also have "\<dots> = Some (exec_end G (?t\<lparr>cur := cur ?t + 1\<rparr>))"
    using T(1) L w(3) by (intro exec_bytes_end) simp
  also have "exec_end G (?t\<lparr>cur := cur ?t + 1\<rparr>) = return (length (data G)) ?a"
    by (rule exec_end_mark) (use b(1,10) S_accepts T in simp_all)
  finally have R: "exec_bytes G x = Some (return (length (data G)) ?a)" .
  have "udata ?a = act (E_body t) u"
    using deliver_text [of "?t\<lparr>cur := cur ?t + 1\<rparr>" M_body "cur x" G t "[]" 0] T b L w(3) by simp
  moreover have "head_of (parser ?a) = w\<lparr>h_length := h_length w - length t\<rparr>" "http_errno (parser ?a) = HPE_OK"
    "upgrade (parser ?a) = upgrade (parser x)" "l_nread ?a = l_nread x" "p_state ?a = s_body_identity"
    using b T by simp_all
  ultimately show ?thesis
    using R
    by (intro exI [of _ "upd (\<lambda>ps. ps\<lparr>nread := l_nread ?a, state := p_state ?a\<rparr>) ?a"]) (simp add: return_def)
qed

lemma body_start:
  assumes "reads_body n m ps" "limit < 2 ^ 32"
  shows "stage S (run_env_of S limit ps t) s_body_identity (head_of ps) u [] t (start_run ps u)"
proof -
  have "first_marks s_body_identity = (\<lambda>_. None)" by (auto simp: first_marks_def fun_eq_iff split: mark.split)
  then show ?thesis using assms by (simp add: reads_body_def run_at_def)
qed

lemma body_part_run:
  assumes "reads_body n m ps" "limit < 2 ^ 32" "t \<noteq> []" "length t < n"
  shows "\<exists>x. http_parser_execute S limit ps u t = Some (Ret (length t) x) \<and> reads_body (n - length t) m (parser x) \<and>
    udata x = act (E_body t) u"
proof -
  have "http_parser_execute S limit ps u t = exec_bytes (run_env_of S limit ps t) (start_run ps u)"
    using assms(1,3) by (intro http_parser_execute_run) (simp_all add: reads_body_def)
  with exec_body_part [OF body_start [OF assms(1,2), of t u]] assms show ?thesis
    by (auto simp: reads_body_def framed_def head_of_def)
qed

lemma body_last_run:
  assumes "reads_body (length t) m ps" "limit < 2 ^ 32"
  shows "\<exists>x. http_parser_execute S limit ps u t = Some (Ret (length t) x) \<and> udata x = act (E_complete m) (act (E_body t) u)"
proof -
  let ?G = "run_env_of S limit ps t" and ?x = "start_run ps u"
  have t: "t \<noteq> []" using assms(1) by (auto simp: reads_body_def)
  have X: "http_parser_execute S limit ps u t = exec_bytes ?G ?x"
    using assms(1) t by (intro http_parser_execute_run) (simp_all add: reads_body_def)
  have st: "stage S ?G s_body_identity (head_of ps) u [] (t @ []) ?x" using body_start [OF assms] by simp
  from exec_body [OF st] assms(1) t
  have "reaches ?G ?x (\<lambda>y. stage S ?G (ready (head_of ps)) ((head_of ps)\<lparr>h_length := 0\<rparr>)
      (act (E_complete (h_method (head_of ps))) (act (E_body t) u)) [] [] y \<and> l_nread y = l_nread ?x)"
    by (simp add: reads_body_def)
  then have "reaches ?G ?x (\<lambda>y. \<exists>w'. stage S ?G (ready (head_of ps)) w' (act (E_complete m) (act (E_body t) u)) [] [] y \<and> l_nread y = 0 \<and> True)"
    using assms(1) by (auto simp: reads_body_def reaches_def)
  from reaches_result [OF this] show ?thesis unfolding X by auto
qed

text \<open>The head of a response with the beginning of its body.\<close>

lemma response_part_run:
  assumes ps: "awaits_response ps" and limit: "limit < 2 ^ 32" "length (response_head sc reason hs b) \<le> limit"
    and r: "status_text sc" "reason \<noteq> []" "\<forall>c\<in>set reason. c \<noteq> CR \<and> c \<noteq> LF" "\<forall>h\<in>set hs. plain_header h" "length b < 2 ^ 31"
    and t: "t \<noteq> []" "length t < length b" and d: "d = response_head sc reason hs b @ t"
  shows "\<exists>x. http_parser_execute S limit ps u d = Some (Ret (length d) x) \<and> reads_body (length b - length t) (method ps) (parser x) \<and>
    udata x = act (E_body t) (fold act ([E_begin, E_status (digits_value 0 sc) reason] @ lines_events hs (Some b) @ [E_headers]) u)"
proof -
  let ?G = "run_env_of S limit ps d" and ?x = "start_run ps u"
  let ?E = "[E_begin, E_status (digits_value 0 sc) reason] @ lines_events hs (Some b)"
  have P: "http_errno ps = HPE_OK" "nread ps = 0" "\<not> lenient_http_headers ps" "state ps \<in> {s_start_req, s_start_res, s_start_req_or_res}"
    "state ps = s_start_res \<and> ptype ps = HTTP_RESPONSE \<or> state ps = s_start_req_or_res" "method ps \<noteq> HTTP_CONNECT"
    using ps by (auto simp: awaits_response_def)
  have D: "d \<noteq> []" using t by (simp add: d)
  note st = stage_start [OF P(1-3) limit(1) P(4) D, of u]
  have "stage S ?G (state ps) (head_of ps) u (response_head sc reason hs b) t ?x"
    by (rule stage_split [OF st(1,2)]) (use limit(2) d in simp_all)
  from exec_response_head [OF this _ r] P(5,6) obtain h where h: "framed h" "h_length h = length b" "h_method h = method ps"
    "h_type h = HTTP_RESPONSE" "h_lenient h = h_lenient (head_of ps)" "reaches ?G ?x (stage S ?G s_header_field_start h (fold act ?E u) [CR, LF] t)"
    by (auto simp: head_of_def CRLF_def)
  have B: "\<not> no_body h" using h(2) t r(5) by (auto simp: no_body_def ULLONG_MAX_def)
  have "reaches ?G ?x (\<lambda>y. \<not> upgrade (parser y) \<and> l_nread y = 0 \<and> stage S ?G s_body_identity h (act E_headers (fold act ?E u)) [] t y)"
    using h(6)
  proof (rule reaches_trans)
    fix y
    assume "stage S ?G s_header_field_start h (fold act ?E u) [CR, LF] t y"
    from exec_headers_end [OF this h(1)] B
    show "reaches ?G y (\<lambda>y. \<not> upgrade (parser y) \<and> l_nread y = 0 \<and> stage S ?G s_body_identity h (act E_headers (fold act ?E u)) [] t y)"
      by simp
  qed
  then obtain y where y: "exec_bytes ?G ?x = exec_bytes ?G y" "\<not> upgrade (parser y)" "l_nread y = 0"
    "stage S ?G s_body_identity h (act E_headers (fold act ?E u)) [] t y"
    by (auto simp: reaches_def)
  have "h_length h < ULLONG_MAX" using h(2) r(5) by (simp add: ULLONG_MAX_def)
  with exec_body_part [OF y(4)] h(2) t obtain z where z: "exec_bytes ?G y = Some (Ret (length d) z)" "http_errno (parser z) = HPE_OK"
    "state (parser z) = s_body_identity" "nread (parser z) = 0" "\<not> upgrade (parser z)"
    "head_of (parser z) = h\<lparr>h_length := length b - length t\<rparr>" "udata z = act (E_body t) (act E_headers (fold act ?E u))"
    using y(2,3) by auto
  have "\<not> lenient_http_headers (parser z)" using arg_cong [OF z(6), of h_lenient] h(5) P(3) by (simp add: head_of_def)
  moreover have M: "length b - length t < ULLONG_MAX" using r(5) by (simp add: ULLONG_MAX_def)
  moreover have "framed (head_of (parser z))" using h(1) z(6) M by (simp add: framed_def)
  ultimately have "reads_body (length b - length t) (method ps) (parser z)"
    using z t h(3) by (simp add: reads_body_def)
  then show ?thesis using st(3) y(1) z(1,7) by auto
qed

end

end
