(* ===== verification/HttpFetch.thy ===== *)
theory HttpFetch
  imports HttpServing HttpPieces
begin

section \<open>The blocking HTTP client: HttpClient\<close>

text \<open>
  \<open>parseUrl\<close>, the text of a request, and \<open>exec\<close>, which connects, sends the request and receives until
  the parser object is complete. The sockets and the clock are a script of what their calls return, in
  the order of the calls; when the script ends the client still waits. A string that does not fit its
  buffer, an \<open>atoi\<close> out of range and a send from outside the text of the request are faults.
\<close>

subsection \<open>C strings\<close>

datatype client_fault = Buffer_overflow | Value_undefined | Send_outside_buffer | Parser_gone

definition strcpy :: "nat \<Rightarrow> string \<Rightarrow> client_fault + string" where
  "strcpy n s = (if length s < n then Inr s else Inl Buffer_overflow)"

fun strstr :: "string \<Rightarrow> string \<Rightarrow> nat option" where
  "strstr [] pat = (if pat = [] then Some 0 else None)"
| "strstr (c # s) pat = (if prefix pat (c # s) then Some 0 else map_option Suc (strstr s pat))"

fun strchr :: "string \<Rightarrow> char \<Rightarrow> nat option" where
  "strchr [] c = None"
| "strchr (d # s) c = (if d = c then Some 0 else map_option Suc (strchr s c))"

definition is_space :: "char \<Rightarrow> bool" where
  "is_space c \<longleftrightarrow> c = CHR '' '' \<or> 9 \<le> code c \<and> code c \<le> 13"

definition atoi :: "string \<Rightarrow> client_fault + int" where
  "atoi s =
     (let s = dropWhile is_space s;
          neg = (s \<noteq> [] \<and> hd s = CHR ''-'');
          s = (if s \<noteq> [] \<and> (hd s = CHR ''-'' \<or> hd s = CHR ''+'') then tl s else s);
          v = int (digits_value 0 (takeWhile IS_NUM s));
          v = (if neg then - v else v)
      in if - (2 ^ 31) \<le> v \<and> v < 2 ^ 31 then Inr v else Inl Value_undefined)"

subsection \<open>parseUrl\<close>

text \<open>The parts after the port's colon: the number and the path.\<close>

definition parse_port_path :: "string \<Rightarrow> url_st \<Rightarrow> client_fault + int \<times> url_st" where
  "parse_port_path host_ptr u =
     (case strchr host_ptr CHR ''/'' of
        Some k \<Rightarrow>
          (case atoi (take k host_ptr) of
             Inl e \<Rightarrow> Inl e
           | Inr port \<Rightarrow> (case strcpy 256 (drop (k + 1) host_ptr) of Inl e \<Rightarrow> Inl e | Inr path \<Rightarrow> Inr (0, u\<lparr>u_port := port, u_path := path\<rparr>)))
      | None \<Rightarrow>
          (case atoi host_ptr of Inl e \<Rightarrow> Inl e | Inr port \<Rightarrow> Inr (0, u\<lparr>u_port := port, u_path := ''/''\<rparr>)))"

definition parseUrl :: "string \<Rightarrow> url_st \<Rightarrow> client_fault + int \<times> url_st" where
  "parseUrl url u =
     (case strcpy 1024 (c_str url) of
        Inl e \<Rightarrow> Inl e
      | Inr temp \<Rightarrow>
          (case strstr temp ''://'' of
             None \<Rightarrow> Inr (-1, u)
           | Some i \<Rightarrow>
               (case strcpy 8 (take i temp) of
                  Inl e \<Rightarrow> Inl e
                | Inr scheme \<Rightarrow>
                    let u = u\<lparr>u_scheme := scheme\<rparr>; host_ptr = drop (i + 3) temp
                    in case strchr host_ptr CHR '':'' of
                         None \<Rightarrow> Inr (0, u)
                       | Some j \<Rightarrow>
                           (case strcpy 32 (take j host_ptr) of
                              Inl e \<Rightarrow> Inl e
                            | Inr host \<Rightarrow> parse_port_path (drop (j + 1) host_ptr) (u\<lparr>u_host := host\<rparr>)))))"

text \<open>\<open>HttpRequest::parseUrl\<close> does the same on the request's own URL.\<close>

definition HttpRequest_parseUrl :: "HttpRequest \<Rightarrow> client_fault + int \<times> HttpRequest" where
  "HttpRequest_parseUrl q =
     (case parseUrl (req_url q) (req_u q) of Inl e \<Rightarrow> Inl e | Inr r \<Rightarrow> Inr (fst r, q\<lparr>req_u := snd r\<rparr>))"

subsection \<open>The text of a request\<close>

definition fill_http_header :: "HttpRequest \<Rightarrow> string \<Rightarrow> string" where
  "fill_http_header req data' =
     data' @
     (if req_method req = HTTP_GET then ''GET /'' @ u_path (req_u req) @ '' HTTP/1.1'' @ CRLF
      else if req_method req = HTTP_POST then ''POST /'' @ u_path (req_u req) @ '' HTTP/1.1'' @ CRLF
      else []) @
     ''Host: '' @ u_host (req_u req) @ CRLF @
     ''User-Agent: libconn'' @ CRLF @
     ''Accept: */*'' @ CRLF @
     ''Content-Type: application/x-www-form-urlencoded'' @ CRLF @
     ''Content-Length: '' @ fmt_d (length (req_body req)) @ CRLF @
     CRLF"

definition fill_http_body :: "HttpRequest \<Rightarrow> string \<Rightarrow> string" where
  "fill_http_body req data' = (if req_body req = [] then data' else data' @ req_body req)"

definition makeHttpRequest :: "HttpRequest \<Rightarrow> string" where
  "makeHttpRequest req =
     (let data' = fill_http_header req []
      in if req_method req = HTTP_POST then fill_http_body req data' else data')"

definition isTimeout :: "HttpRequest \<Rightarrow> int \<Rightarrow> int \<Rightarrow> bool" where
  "isTimeout req start_time cur_time \<longleftrightarrow> cur_time - start_time > req_timeout req"

subsection \<open>exec\<close>

text \<open>What a \<open>recv\<close> finds: the bytes that are in the socket, of which it takes as many as the buffer of \<open>exec\<close>
  has room for, or nothing, with \<open>errno\<close> telling whether it was interrupted.\<close>

datatype recv_result = Recv_bytes string | Recv_nothing bool

definition recv_buf_size :: nat where
  "recv_buf_size = 1024"

text \<open>How \<open>exec\<close> ends: its value, whether the socket was closed, and the parser with its object.\<close>

datatype exec_result = Exec_waits | Exec_fault client_fault | Exec_returns int bool http_parser HttpParser

text \<open>Each turn of the sending loop has the result of \<open>send\<close> and the time after it. The bytes that were sent
  are counted in an \<open>int\<close>, which is compared as a \<open>size_t\<close>.\<close>

fun send_loop :: "HttpRequest \<Rightarrow> int \<Rightarrow> nat \<Rightarrow> u32 \<Rightarrow> (int \<times> int) list \<Rightarrow> (client_fault + bool) option" where
  "send_loop req start len have_send_len script =
     (if uint (scast have_send_len :: u64) = int len then Some (Inr True)
      else if sint have_send_len < 0 \<or> int len < sint have_send_len then Some (Inl Send_outside_buffer)
      else case script of
             [] \<Rightarrow> None
           | (nsend, now) # script' \<Rightarrow>
               if isTimeout req start now then Some (Inr False)
               else send_loop req start len (have_send_len + word_of_int nsend) script')"

declare send_loop.simps [simp del]

text \<open>Each turn of the receiving loop has what \<open>recv\<close> finds and the time that is read when it has no bytes. What
  does not fit into the buffer stays in the socket; on an empty socket \<open>recv\<close> waits.\<close>

fun script_size :: "(recv_result \<times> int) list \<Rightarrow> nat" where
  "script_size [] = 0"
| "script_size ((Recv_nothing eintr, now) # script) = 1 + script_size script"
| "script_size ((Recv_bytes d, now) # script) = 1 + length d + script_size script"

function (sequential) recv_loop :: "HttpRequest \<Rightarrow> int \<Rightarrow> http_parser \<Rightarrow> HttpParser \<Rightarrow> (recv_result \<times> int) list \<Rightarrow> exec_result" where
  "recv_loop req start ps hp [] = Exec_waits"
| "recv_loop req start ps hp ((Recv_nothing eintr, now) # script) =
     (if isTimeout req start now then Exec_returns 0 True ps hp
      else if eintr then (if isComplete hp then Exec_returns 0 True ps hp else recv_loop req start ps hp script)
      else Exec_returns (-1) True ps hp)"
| "recv_loop req start ps hp ((Recv_bytes d, now) # script) =
     (if d = [] then recv_loop req start ps hp script
      else let buf = take recv_buf_size d
        in case HttpParser_feedRecvData ps hp buf of
             None \<Rightarrow> Exec_fault Parser_gone
           | Some r \<Rightarrow>
               let ps = fst (snd r); hp = snd (snd r)
               in if fst r \<noteq> length buf then Exec_returns (-1) True ps hp
                  else if isComplete hp then Exec_returns 0 True ps hp
                  else recv_loop req start ps hp ((Recv_bytes (drop recv_buf_size d), now) # script))"
  by pat_completeness auto
termination
  by (relation "measure (\<lambda>(req, start, ps, hp, script). script_size script)") (auto simp: recv_buf_size_def)

declare recv_loop.simps(3) [simp del]

record exec_script =
  es_start :: int
  es_connect :: "int \<times> int"
  es_sends :: "(int \<times> int) list"
  es_recvs :: "(recv_result \<times> int) list"

text \<open>The response object is the one handed to \<open>exec\<close>; when \<open>exec\<close> does not get to the response the parser keeps its own.\<close>

definition HttpClient_exec :: "HttpRequest \<Rightarrow> HttpResponse \<Rightarrow> http_parser \<Rightarrow> HttpParser \<Rightarrow> exec_script \<Rightarrow> exec_result" where
  "HttpClient_exec req resp ps m_parser s =
     (let data' = makeHttpRequest req
      in if data' = [] then Exec_returns (-1) True ps m_parser
         else if fst (es_connect s) < 0 then Exec_returns (-1) True ps m_parser
         else if isTimeout req (es_start s) (snd (es_connect s)) then Exec_returns (-1) False ps m_parser
         else case send_loop req (es_start s) (length data') 0 (es_sends s) of
                None \<Rightarrow> Exec_waits
              | Some (Inl e) \<Rightarrow> Exec_fault e
              | Some (Inr False) \<Rightarrow> Exec_returns (-1) False ps m_parser
              | Some (Inr True) \<Rightarrow> recv_loop req (es_start s) ps (m_parser\<lparr>hp_resp := resp\<rparr>) (es_recvs s))"

definition HttpClient_send :: "HttpRequest \<Rightarrow> HttpResponse \<Rightarrow> http_parser \<Rightarrow> HttpParser \<Rightarrow> exec_script \<Rightarrow> HttpRequest \<times> exec_result" where
  "HttpClient_send req resp ps m_parser s =
     (if req_url req = [] then (req, Exec_returns (-1) True ps m_parser)
      else case parseUrl (req_url req) (req_u req) of
             Inl e \<Rightarrow> (req, Exec_fault e)
           | Inr r \<Rightarrow>
               let req = req\<lparr>req_u := snd r\<rparr>
               in if fst r \<noteq> 0 then (req, Exec_returns (-1) True ps m_parser) else (req, HttpClient_exec req resp ps m_parser s))"

subsection \<open>URLs\<close>

lemma strstr_at: "CHR '':'' \<notin> set s \<Longrightarrow> strstr (s @ ''://'' @ t) ''://'' = Some (length s)"
  by (induction s) auto

lemma strchr_at: "c \<notin> set s \<Longrightarrow> strchr (s @ c # t) c = Some (length s)"
  by (induction s) auto

lemma strchr_none: "c \<notin> set s \<Longrightarrow> strchr s c = None"
  by (induction s) auto

lemma c_str_plain: "NUL \<notin> set s \<Longrightarrow> c_str s = s"
  by (auto simp: c_str_def takeWhile_eq_all_conv)

lemma digit_not_special:
  "IS_NUM c \<Longrightarrow> \<not> is_space c \<and> c \<noteq> CHR ''-'' \<and> c \<noteq> CHR ''+'' \<and> c \<noteq> CHR ''/'' \<and> c \<noteq> NUL"
  by (auto simp: IS_NUM_def is_space_def)

lemma atoi_dec:
  assumes "n < 2 ^ 31"
  shows "atoi (dec n) = Inr (int n)"
proof -
  obtain c cs where c: "dec n = c # cs" using dec_digits(1) [of n] by (cases "dec n") auto
  have d: "IS_NUM x" if "x \<in> set (dec n)" for x using dec_digits(2) that by blast
  then have "\<not> is_space c \<and> c \<noteq> CHR ''-'' \<and> c \<noteq> CHR ''+''" using c digit_not_special [of c] by simp
  moreover have "takeWhile IS_NUM (dec n) = dec n" using d by (simp add: takeWhile_eq_all_conv)
  ultimately show ?thesis using dec_digits(3) [of n] assms c by (simp add: atoi_def Let_def)
qed

lemma length_dec: "n < 10 ^ k \<Longrightarrow> 0 < k \<Longrightarrow> length (dec n) \<le> k"
proof (induction n arbitrary: k rule: dec.induct)
  case (1 n)
  show ?case
  proof (cases "n < 10")
    case True
    then show ?thesis using 1(3) by (simp add: dec.simps [of n])
  next
    case False
    then obtain j where j: "k = Suc j" "0 < j" using 1(2,3) by (cases k; cases "k - 1") auto
    then have "length (dec (n div 10)) \<le> j" using 1(1) [OF False, of j] 1(2) by auto
    then show ?thesis using False j by (simp add: dec.simps [of n])
  qed
qed

lemma parse_url_all:
  assumes "CHR '':'' \<notin> set scheme" "length scheme < 8" "CHR '':'' \<notin> set host" "length host < 32"
    and "port < 2 ^ 31" "length path < 256"
    and "NUL \<notin> set (scheme @ host @ path)"
  shows "parseUrl (scheme @ ''://'' @ host @ '':'' @ dec port @ ''/'' @ path) u =
    Inr (0, u\<lparr>u_scheme := scheme, u_host := host, u_port := int port, u_path := path\<rparr>)"
proof -
  let ?rest = "dec port @ CHR ''/'' # path"
  let ?url = "scheme @ ''://'' @ host @ CHR '':'' # ?rest"
  have D: "CHR ''/'' \<notin> set (dec port)" "NUL \<notin> set (dec port)"
    using dec_digits(2) [of _ port] digit_not_special by blast+
  have "length (dec port) \<le> 10" using length_dec [of port 10] assms(5) by simp
  then have "strcpy 1024 (c_str ?url) = Inr ?url"
    using assms(2,4,6,7) D(2) c_str_plain [of ?url] by (auto simp: strcpy_def)
  then show ?thesis
    using assms strstr_at [OF assms(1), of "host @ CHR '':'' # ?rest"] strchr_at [OF assms(3), of ?rest] strchr_at [OF D(1), of path] atoi_dec
    by (simp add: parseUrl_def parse_port_path_def strcpy_def)
qed

text \<open>A URL with all its parts is taken apart. For a scheme without a colon, a host without a colon, a
  decimal port and a path, each short enough for its buffer, \<open>parseUrl\<close> stores exactly these parts (the
  path without its leading slash).\<close>
theorem parse_url_parts:
  assumes "CHR '':'' \<notin> set scheme" "length scheme < 8" "CHR '':'' \<notin> set host" "length host < 32"
    and "port < 2 ^ 31" "length path < 256"
    and "NUL \<notin> set (scheme @ host @ path)"
  shows "parseUrl (scheme @ ''://'' @ host @ '':'' @ dec port @ ''/'' @ path) u =
    Inr (0, u\<lparr>u_scheme := scheme, u_host := host, u_port := int port, u_path := path\<rparr>)"
  using assms by (rule parse_url_all)

definition sample_u :: url_st where
  "sample_u = \<lparr>u_scheme = [], u_host = ''h'', u_port = 0, u_path = ''a''\<rparr>"

lemma parse_url_parts_witness:
  "parseUrl (''http'' @ ''://'' @ ''h'' @ '':'' @ dec 8080 @ ''/'' @ ''a?b=:'') sample_u =
    Inr (0, sample_u\<lparr>u_scheme := ''http'', u_host := ''h'', u_port := int 8080, u_path := ''a?b=:''\<rparr>)"
  by (rule parse_url_parts) simp_all

text \<open>A URL without a port loses its host. When no colon follows the scheme, \<open>parseUrl\<close> reports success
  but stores only the scheme; host, port and path keep what the memory from \<open>malloc\<close> held.\<close>
theorem parse_url_without_port:
  assumes "CHR '':'' \<notin> set scheme" "length scheme < 8" "CHR '':'' \<notin> set rest" "NUL \<notin> set (scheme @ rest)"
    and "length (scheme @ rest) < 1000"
  shows "parseUrl (scheme @ ''://'' @ rest) u = Inr (0, u\<lparr>u_scheme := scheme\<rparr>)"
proof -
  have "strcpy 1024 (c_str (scheme @ ''://'' @ rest)) = Inr (scheme @ ''://'' @ rest)"
    using assms(4,5) c_str_plain [of "scheme @ ''://'' @ rest"] by (auto simp: strcpy_def)
  then show ?thesis
    using assms(2) strstr_at [OF assms(1), of rest] strchr_none [OF assms(3)] by (simp add: parseUrl_def strcpy_def)
qed

lemma parse_url_without_port_witness:
  "parseUrl (''http'' @ ''://'' @ ''www.x.org/index'') sample_u = Inr (0, sample_u\<lparr>u_scheme := ''http''\<rparr>)"
  by (rule parse_url_without_port) simp_all

subsection \<open>The request is what the server reads\<close>

text \<open>The request that the text of a GET without a body or of a POST stands for.\<close>

definition client_headers :: "HttpRequest \<Rightarrow> header list" where
  "client_headers req = [(''Host'', u_host (req_u req)), (''User-Agent'', ''libconn''), (''Accept'', ''*/*''),
     (''Content-Type'', ''application/x-www-form-urlencoded'')]"

definition client_request :: "HttpRequest \<Rightarrow> request" where
  "client_request req = \<lparr>rq_method = req_method req, rq_url = CHR ''/'' # u_path (req_u req), rq_headers = client_headers req,
     rq_body = Some (req_body req)\<rparr>"

definition sendable :: "HttpRequest \<Rightarrow> bool" where
  "sendable req \<longleftrightarrow> (req_method req = HTTP_POST \<or> req_method req = HTTP_GET \<and> req_body req = []) \<and>
     value_text (u_host (req_u req)) \<and> plain_url (CHR ''/'' # u_path (req_u req)) \<and> length (req_body req) < 2 ^ 31 \<and>
     length (request_head (client_request req)) \<le> HTTP_MAX_HEADER_SIZE"

lemma makeHttpRequest_text: "sendable req \<Longrightarrow> makeHttpRequest req = request_text (client_request req)"
proof -
  assume s: "sendable req"
  have "fill_http_header req [] = request_head (client_request req)"
    using s unfolding sendable_def
    by (elim conjE disjE)
      (simp_all add: fill_http_header_def request_head_def client_request_def client_headers_def lines_text_def header_line_def
        length_header_def fmt_d_small method_strings_def)
  then show ?thesis
    using s by (auto simp: sendable_def makeHttpRequest_def fill_http_body_def request_text_def client_request_def body_text_def
        Let_def)
qed

lemma client_values: "value_text ''libconn''" "value_text ''*/*''" "value_text ''application/x-www-form-urlencoded''"
  unfolding value_text_def IS_HEADER_CHAR_def by simp_all

lemma plain_headerI:
  "map TOKEN n = m \<Longrightarrow> \<forall>c\<in>set n. TOKEN c \<noteq> NUL \<Longrightarrow> n \<noteq> [] \<and> m \<notin> special_names \<and> \<not> prefix ''transfer-encoding'' m \<Longrightarrow>
   value_text v \<Longrightarrow> plain_header (n, v)"
  by (simp add: plain_header_def)

lemma client_names:
  "map TOKEN ''Host'' = ''host''" "\<forall>c\<in>set ''Host''. TOKEN c \<noteq> NUL"
  "map TOKEN ''User-Agent'' = ''user-agent''" "\<forall>c\<in>set ''User-Agent''. TOKEN c \<noteq> NUL"
  "map TOKEN ''Accept'' = ''accept''" "\<forall>c\<in>set ''Accept''. TOKEN c \<noteq> NUL"
  "map TOKEN ''Content-Type'' = ''content-type''" "\<forall>c\<in>set ''Content-Type''. TOKEN c \<noteq> NUL"
  by (simp_all add: TOKEN_def STRICT_TOKEN_def tokens_def char_of_def bit_0)

lemma client_headers_plain:
  assumes "value_text (u_host (req_u req))"
  shows "\<forall>h\<in>set (client_headers req). plain_header h"
proof -
  have "plain_header (''Host'', u_host (req_u req))"
    by (rule plain_headerI [OF client_names(1,2) _ assms]) (simp add: special_names_def)
  moreover have "plain_header (''User-Agent'', ''libconn'')"
    by (rule plain_headerI [OF client_names(3,4) _ client_values(1)]) (simp add: special_names_def)
  moreover have "plain_header (''Accept'', ''*/*'')"
    by (rule plain_headerI [OF client_names(5,6) _ client_values(2)]) (simp add: special_names_def)
  moreover have "plain_header (''Content-Type'', ''application/x-www-form-urlencoded'')"
    by (rule plain_headerI [OF client_names(7,8) _ client_values(3)]) (simp add: special_names_def)
  ultimately show ?thesis by (simp only: client_headers_def set_simps ball_simps simp_thms)
qed

lemma client_request_plain: "sendable req \<Longrightarrow> plain_request (client_request req)"
  using client_headers_plain
  by (auto simp: sendable_def plain_request_def client_request_def plain_body_def body_text_def)

subsection \<open>What the client gets\<close>

definition response_collected :: "HttpResponse \<Rightarrow> http_method \<Rightarrow> HttpParser \<Rightarrow> HttpParser" where
  "response_collected p m hp = hp\<lparr>hp_method := m,
     hp_headers := put_headers (message_headers (resp_headers p) (Some (resp_body p))) (hp_headers hp),
     hp_resp := (hp_resp hp)\<lparr>resp_headers := put_headers (message_headers (resp_headers p) (Some (resp_body p))) (resp_headers (hp_resp hp)),
       resp_body := resp_body (hp_resp hp) @ resp_body p, resp_status_code := 200\<rparr>,
     hp_state := HP_MESSAGE_COMPLETE\<rparr>"

text \<open>The same after the head alone.\<close>

definition response_head_collected :: "HttpResponse \<Rightarrow> HttpParser \<Rightarrow> HttpParser" where
  "response_head_collected p hp = hp\<lparr>
     hp_headers := put_headers (message_headers (resp_headers p) (Some (resp_body p))) (hp_headers hp),
     hp_resp := (hp_resp hp)\<lparr>resp_headers := put_headers (message_headers (resp_headers p) (Some (resp_body p))) (resp_headers (hp_resp hp)),
       resp_status_code := 200\<rparr>,
     hp_state := HP_MESSAGE_COMPLETE\<rparr>"

definition awaits_answer :: "HttpParser \<Rightarrow> bool" where
  "awaits_answer hp \<longleftrightarrow> hp_clear hp \<and> hp_type hp = HTTP_PARSER_RESPONSE"

definition plain_response :: "HttpResponse \<Rightarrow> bool" where
  "plain_response p \<longleftrightarrow> (\<forall>h\<in>set (resp_headers p). plain_header h) \<and> length (resp_body p) < 2 ^ 31 \<and>
     length (response_head ''200'' ''OK'' (resp_headers p) (resp_body p)) \<le> HTTP_MAX_HEADER_SIZE"

lemma dump_text:
  assumes "length (resp_body p) < 2 ^ 31"
  shows "HttpResponse_dump HTTP_HEADER p = response_text ''200'' ''OK'' (resp_headers p) (resp_body p)"
proof -
  have "concat (map (\<lambda>it. fst it @ '': '' @ snd it @ CRLF) hs) = concat (map header_line hs)" for hs :: "header list"
    by (induction hs) (simp_all add: header_line_def)
  then show ?thesis
    using assms by (simp add: HttpResponse_dump_def HTTP_HEADER_def response_text_def response_head_def lines_text_def
        header_line_def length_header_def fmt_d_small)
qed

lemma ok_status: "status_text ''200''" "digits_value 0 ''200'' = 200"
  by (simp_all add: status_text_def IS_NUM_def digits_value_def digit_def)

lemma hp_act_response_head:
  assumes "awaits_answer hp" "plain_response p"
  shows "fold hp_act ([E_begin, E_status 200 ''OK''] @ lines_events (resp_headers p) (Some (resp_body p)) @ [E_headers]) hp =
    response_head_collected p hp"
proof -
  have N: "\<forall>h\<in>set (resp_headers p). fst h \<noteq> []" using assms(2) by (auto simp: plain_response_def plain_header_def)
  have "hp_clear (hp\<lparr>hp_state := HP_STATUS, hp_resp := (hp_resp hp)\<lparr>resp_status_code := 200\<rparr>\<rparr>)"
    using assms(1) by (simp add: awaits_answer_def hp_clear_def)
  from hp_headers_done [OF this N, of "Some (resp_body p)"] assms(1) show ?thesis
    by (simp add: response_head_collected_def hp_put_def awaits_answer_def)
qed

lemma hp_act_response:
  assumes "awaits_answer hp" "plain_response p"
  shows "fold hp_act (response_events m ''200'' ''OK'' (resp_headers p) (resp_body p)) hp = response_collected p m hp"
proof -
  have "fold hp_act (response_events m ''200'' ''OK'' (resp_headers p) (resp_body p)) hp =
      fold hp_act (body_events (Some (resp_body p)) @ [E_complete m]) (response_head_collected p hp)"
    using hp_act_response_head [OF assms] ok_status(2) by (simp add: response_events_def)
  also have "\<dots> = response_collected p m hp"
    using assms(1) by (simp add: body_events_def body_text_def response_head_collected_def response_collected_def awaits_answer_def)
  finally show ?thesis .
qed

lemma feed_response:
  assumes "awaits_response ps" "awaits_answer hp" "plain_response p"
  shows "\<exists>ps'. HttpParser_feedRecvData ps hp (HttpResponse_dump HTTP_HEADER p) =
      Some (length (HttpResponse_dump HTTP_HEADER p), ps', response_collected p (method ps) hp) \<and> awaits_response ps'"
  using hp.response_run [of ps HTTP_MAX_HEADER_SIZE "''200''" "''OK''" "resp_headers p" "resp_body p" hp]
    assms(1,3) hp_act_response [OF assms(2,3)] ok_status
  by (auto simp: HttpParser_feedRecvData_def HTTP_MAX_HEADER_SIZE_def plain_response_def dump_text)

context event_client
begin

lemma response_head_run:
  assumes ps: "awaits_response ps" and limit: "limit < 2 ^ 32" "length (response_head sc reason hs b) \<le> limit"
    and r: "status_text sc" "reason \<noteq> []" "\<forall>c\<in>set reason. c \<noteq> CR \<and> c \<noteq> LF" "\<forall>h\<in>set hs. plain_header h" "length b < 2 ^ 31"
    and b: "b \<noteq> []"
  shows "\<exists>x. http_parser_execute S limit ps u (response_head sc reason hs b) = Some (Ret (length (response_head sc reason hs b)) x) \<and>
    udata x = fold act ([E_begin, E_status (digits_value 0 sc) reason] @ lines_events hs (Some b) @ [E_headers]) u"
proof -
  let ?d = "response_head sc reason hs b"
  let ?G = "run_env_of S limit ps ?d" and ?x = "start_run ps u"
  let ?E = "[E_begin, E_status (digits_value 0 sc) reason] @ lines_events hs (Some b)"
  have P: "http_errno ps = HPE_OK" "nread ps = 0" "\<not> lenient_http_headers ps" "state ps \<in> {s_start_req, s_start_res, s_start_req_or_res}"
    "state ps = s_start_res \<and> ptype ps = HTTP_RESPONSE \<or> state ps = s_start_req_or_res" "method ps \<noteq> HTTP_CONNECT"
    using ps by (auto simp: awaits_response_def)
  have D: "?d \<noteq> []" by (simp add: response_head_def)
  note st = stage_start [OF P(1-3) limit(1) P(4) D, of u]
  have "stage S ?G (state ps) (head_of ps) u ?d [] ?x" by (rule stage_split [OF st(1,2)]) (use limit(2) in simp_all)
  from exec_response_head [OF this _ r] P(5,6) obtain h where h: "framed h" "h_length h = length b" "h_method h = method ps"
    "h_type h = HTTP_RESPONSE" "reaches ?G ?x (stage S ?G s_header_field_start h (fold act ?E u) [CR, LF] [])"
    by (auto simp: head_of_def CRLF_def)
  have B: "\<not> no_body h" using h(2) b r(5) by (auto simp: no_body_def ULLONG_MAX_def)
  have "reaches ?G ?x (\<lambda>y. stage S ?G s_body_identity h (fold act (?E @ [E_headers]) u) [] [] y)"
    using h(5)
  proof (rule reaches_trans)
    fix y
    assume "stage S ?G s_header_field_start h (fold act ?E u) [CR, LF] [] y"
    from exec_headers_end [OF this h(1)] show "reaches ?G y (\<lambda>y. stage S ?G s_body_identity h (fold act (?E @ [E_headers]) u) [] [] y)"
      using B unfolding reaches_def by auto
  qed
  then obtain y where y: "exec_bytes ?G ?x = exec_bytes ?G y" "stage S ?G s_body_identity h (fold act (?E @ [E_headers]) u) [] [] y"
    by (auto simp: reaches_def)
  have "exec_bytes ?G ?x = Some (return (length (data ?G)) y)" using y(1) exec_finish [OF y(2)] by simp
  then show ?thesis
    unfolding st(3) using stageD [OF y(2)]
    by (intro exI [of _ "upd (\<lambda>ps. ps\<lparr>nread := l_nread y, state := p_state y\<rparr>) y"]) (auto simp: return_def)
qed

end

lemma feed_response_head:
  assumes "awaits_response ps" "awaits_answer hp" "plain_response p" "resp_body p \<noteq> []"
  shows "\<exists>ps'. HttpParser_feedRecvData ps hp (response_head ''200'' ''OK'' (resp_headers p) (resp_body p)) =
      Some (length (response_head ''200'' ''OK'' (resp_headers p) (resp_body p)), ps', response_head_collected p hp)"
proof -
  have "\<exists>x. http_parser_execute HttpParser_cbs HTTP_MAX_HEADER_SIZE ps hp (response_head ''200'' ''OK'' (resp_headers p) (resp_body p)) =
      Some (Ret (length (response_head ''200'' ''OK'' (resp_headers p) (resp_body p))) x) \<and>
    udata x = fold hp_act ([E_begin, E_status (digits_value 0 ''200'') ''OK''] @ lines_events (resp_headers p) (Some (resp_body p)) @ [E_headers]) hp"
    by (rule hp.response_head_run) (use assms ok_status(1) in \<open>simp_all add: HTTP_MAX_HEADER_SIZE_def plain_response_def\<close>)
  then show ?thesis
    unfolding ok_status(2) hp_act_response_head [OF assms(2,3)] by (auto simp: HttpParser_feedRecvData_def)
qed

subsection \<open>Exchanges\<close>

text \<open>The client connects and sends all of a request in time, in whatever pieces. The request is shorter than
  the largest \<open>int\<close>.\<close>

definition sends_all :: "HttpRequest \<Rightarrow> exec_script \<Rightarrow> bool" where
  "sends_all req s \<longleftrightarrow> fst (es_connect s) \<ge> 0 \<and> \<not> isTimeout req (es_start s) (snd (es_connect s)) \<and>
     list_all (\<lambda>e. 0 < fst e \<and> \<not> isTimeout req (es_start s) (snd e)) (es_sends s) \<and>
     sum_list (map fst (es_sends s)) = int (length (makeHttpRequest req)) \<and> length (makeHttpRequest req) < 2 ^ 31"

lemma int_counter:
  assumes "0 \<le> n" "n < 2 ^ 31"
  shows "sint (word_of_int n :: u32) = n" "uint (scast (word_of_int n :: u32) :: u64) = n"
proof -
  show s: "sint (word_of_int n :: u32) = n"
    using assms by (simp add: signed_of_int signed_take_bit_int_eq_self)
  then show "uint (scast (word_of_int n :: u32) :: u64) = n"
    using assms by (simp add: scast_eq uint_word_of_int)
qed

lemma send_loop_step:
  "uint (scast h :: u64) = sint h \<Longrightarrow> 0 \<le> sint h \<Longrightarrow> sint h < int len \<Longrightarrow> \<not> isTimeout req start t \<Longrightarrow>
   send_loop req start len h ((n, t) # script) = send_loop req start len (h + word_of_int n) script"
  by (subst send_loop.simps) simp

lemma send_loop_timeout:
  "0 < len \<Longrightarrow> isTimeout req start t \<Longrightarrow> send_loop req start len 0 ((n, t) # script) = Some (Inr False)"
  by (subst send_loop.simps) simp

lemma send_loop_all:
  "list_all (\<lambda>e. 0 < fst e \<and> \<not> isTimeout req start (snd e)) script \<Longrightarrow> 0 \<le> have_len \<Longrightarrow> len < 2 ^ 31 \<Longrightarrow>
   have_len + sum_list (map fst script) = int len \<Longrightarrow> send_loop req start len (word_of_int have_len) script = Some (Inr True)"
proof (induction script arbitrary: have_len)
  case Nil
  then show ?case using int_counter [of have_len] by (subst send_loop.simps) simp
next
  case (Cons e script)
  have "0 \<le> sum_list (map fst script)"
    by (rule sum_list_nonneg) (use Cons.prems(1) in \<open>auto simp: list_all_iff\<close>)
  then have less: "have_len < int len" using Cons.prems by auto
  obtain n t where e: "e = (n, t)" by (cases e)
  have "send_loop req start len (word_of_int (have_len + n)) script = Some (Inr True)"
    by (rule Cons.IH) (use Cons.prems e in auto)
  moreover have "have_len < 2 ^ 31" using less Cons.prems(3) by simp
  note h = int_counter [OF Cons.prems(2) this]
  have "send_loop req start len (word_of_int have_len) ((n, t) # script) = send_loop req start len (word_of_int have_len + word_of_int n) script"
    by (rule send_loop_step) (use h less Cons.prems(1,2) e in \<open>simp_all\<close>)
  ultimately show ?case unfolding e by (simp only: wi_hom_add)
qed

lemma makeHttpRequest_nonempty: "makeHttpRequest req \<noteq> []"
  by (simp add: makeHttpRequest_def fill_http_header_def fill_http_body_def Let_def)

lemma exec_receives:
  "sends_all req s \<Longrightarrow> HttpClient_exec req resp ps hp s = recv_loop req (es_start s) ps (hp\<lparr>hp_resp := resp\<rparr>) (es_recvs s)"
  using send_loop_all [of req "es_start s" "es_sends s" 0 "length (makeHttpRequest req)"]
  by (simp add: sends_all_def HttpClient_exec_def makeHttpRequest_nonempty Let_def)

lemma awaits_answer_resp [simp]: "awaits_answer (hp\<lparr>hp_resp := resp\<rparr>) = awaits_answer hp"
  by (simp add: awaits_answer_def hp_clear_def)

text \<open>One turn of the receiving loop.\<close>

lemma recv_loop_bytes:
  assumes "d \<noteq> []" "HttpParser_feedRecvData ps hp (take recv_buf_size d) = Some (length (take recv_buf_size d), ps', hp')"
  shows "recv_loop req start ps hp ((Recv_bytes d, now) # script) =
    (if isComplete hp' then Exec_returns 0 True ps' hp'
     else recv_loop req start ps' hp' ((Recv_bytes (drop recv_buf_size d), now) # script))"
  using assms by (simp add: recv_loop.simps(3) del: length_take)

text \<open>The rest of a body is received, whatever the network and the buffer make of it.\<close>

definition body_into :: "string \<Rightarrow> http_method \<Rightarrow> HttpParser \<Rightarrow> HttpParser" where
  "body_into t m hp = hp\<lparr>hp_resp := (hp_resp hp)\<lparr>resp_body := resp_body (hp_resp hp) @ t\<rparr>, hp_state := HP_MESSAGE_COMPLETE, hp_method := m\<rparr>"

lemma feed_body_part:
  assumes "reads_body n m ps" "t \<noteq> []" "length t < n"
  shows "\<exists>ps'. HttpParser_feedRecvData ps hp t = Some (length t, ps', hp_act (E_body t) hp) \<and> reads_body (n - length t) m ps'"
  using hp.body_part_run [OF assms(1) _ assms(2,3), of HTTP_MAX_HEADER_SIZE hp]
  by (auto simp: HttpParser_feedRecvData_def HTTP_MAX_HEADER_SIZE_def)

lemma feed_body_last:
  assumes "reads_body (length t) m ps"
  shows "\<exists>ps'. HttpParser_feedRecvData ps hp t = Some (length t, ps', hp_act (E_complete m) (hp_act (E_body t) hp))"
  using hp.body_last_run [OF assms, of HTTP_MAX_HEADER_SIZE hp]
  by (auto simp: HttpParser_feedRecvData_def HTTP_MAX_HEADER_SIZE_def)

lemma recv_body:
  assumes "reads_body (length t) m ps" "hp_type hp = HTTP_PARSER_RESPONSE" "map fst script = map Recv_bytes ds @ later" "concat ds = t"
  shows "\<exists>ps'. recv_loop req start ps hp script = Exec_returns 0 True ps' (body_into t m hp)"
  using assms
proof (induction "script_size script" arbitrary: ps hp script ds t rule: less_induct)
  case less
  have "t \<noteq> []" using less.prems(1) by (auto simp: reads_body_def)
  then obtain d ds' where ds: "ds = d # ds'" using less.prems(4) by (cases ds) auto
  then obtain now rest where script: "script = (Recv_bytes d, now) # rest" "map fst rest = map Recv_bytes ds' @ later"
    using less.prems(3) by (cases script) auto
  show ?case
  proof (cases "d = []")
    case True
    have "\<exists>ps'. recv_loop req start ps hp rest = Exec_returns 0 True ps' (body_into t m hp)"
      by (rule less.hyps [of rest]) (use less.prems script True ds in auto)
    then show ?thesis using True script(1) by (simp add: recv_loop.simps(3))
  next
    case d: False
    let ?b = "take recv_buf_size d" and ?r = "drop recv_buf_size d @ concat ds'"
    have t: "t = ?b @ ?r" using less.prems(4) ds by (simp flip: append_assoc)
    have b: "?b \<noteq> []" using d by (simp add: recv_buf_size_def)
    show ?thesis
    proof (cases "?r = []")
      case True
      then have "t = ?b" using t by simp
      with less.prems(1,2) feed_body_last [of ?b m ps hp] recv_loop_bytes [OF d, of ps hp] script(1)
      show ?thesis by (auto simp: body_into_def isComplete_def)
    next
      case False
      then have "length ?b < length t" using t by (metis length_append length_greater_0_conv less_add_same_cancel1)
      from feed_body_part [OF less.prems(1) b this, of hp] obtain ps' where ps': "reads_body (length t - length ?b) m ps'"
        "HttpParser_feedRecvData ps hp ?b = Some (length ?b, ps', hp_act (E_body ?b) hp)" by blast
      have L: "length t - length ?b = length ?r" using arg_cong [OF t, of length] by simp
      let ?s = "(Recv_bytes (drop recv_buf_size d), now) # rest" and ?hp = "hp_act (E_body ?b) hp"
      have "\<exists>q. recv_loop req start ps' ?hp ?s = Exec_returns 0 True q (body_into ?r m ?hp)"
      proof (rule less.hyps [of ?s])
        show "script_size ?s < script_size script" using script(1) d by (simp add: recv_buf_size_def)
        show "map fst ?s = map Recv_bytes (drop recv_buf_size d # ds') @ later" using script(2) by simp
      qed (use ps'(1) L less.prems(2) in simp_all)
      moreover have "body_into ?r m ?hp = body_into t m hp" using less.prems(2) by (subst t) (simp add: body_into_def)
      moreover have "\<not> isComplete ?hp" using less.prems(2) by (simp add: isComplete_def)
      ultimately show ?thesis using recv_loop_bytes [OF d ps'(2)] script(1) by simp
    qed
  qed
qed

text \<open>A response comes in as many pieces as the network makes of it. The first call of \<open>recv\<close> has to get its
  head and, if there is a body, some of the body; if there is none, nothing more.\<close>

definition response_arrives :: "HttpResponse \<Rightarrow> (recv_result \<times> int) list \<Rightarrow> bool" where
  "response_arrives p recvs \<longleftrightarrow> (\<exists>d ds later. map fst recvs = map Recv_bytes (d # ds) @ later \<and> concat (d # ds) = HttpResponse_dump HTTP_HEADER p \<and>
     (let head = length (response_head ''200'' ''OK'' (resp_headers p) (resp_body p)); first = min recv_buf_size (length d)
      in if resp_body p = [] then first = head else head < first))"

lemma feed_response_part:
  assumes "awaits_response ps" "awaits_answer hp" "plain_response p" "t \<noteq> []" "length t < length (resp_body p)"
  shows "\<exists>ps'. HttpParser_feedRecvData ps hp (response_head ''200'' ''OK'' (resp_headers p) (resp_body p) @ t) =
      Some (length (response_head ''200'' ''OK'' (resp_headers p) (resp_body p) @ t), ps', hp_act (E_body t) (response_head_collected p hp)) \<and>
    reads_body (length (resp_body p) - length t) (method ps) ps'"
proof -
  let ?d = "response_head ''200'' ''OK'' (resp_headers p) (resp_body p) @ t"
  have "\<exists>x. http_parser_execute HttpParser_cbs HTTP_MAX_HEADER_SIZE ps hp ?d = Some (Ret (length ?d) x) \<and>
      reads_body (length (resp_body p) - length t) (method ps) (parser x) \<and>
      udata x = hp_act (E_body t) (fold hp_act ([E_begin, E_status (digits_value 0 ''200'') ''OK''] @
        lines_events (resp_headers p) (Some (resp_body p)) @ [E_headers]) hp)"
    by (rule hp.response_part_run) (use assms ok_status(1) in \<open>simp_all add: HTTP_MAX_HEADER_SIZE_def plain_response_def\<close>)
  then show ?thesis
    unfolding ok_status(2) hp_act_response_head [OF assms(2,3)] by (auto simp: HttpParser_feedRecvData_def simp del: hp_act.simps)
qed

lemma body_into_head:
  assumes "awaits_answer hp" "resp_body p = t @ r"
  shows "body_into r m (hp_act (E_body t) (response_head_collected p hp)) = response_collected p m hp"
  using assms by (simp add: body_into_def response_head_collected_def response_collected_def awaits_answer_def)

lemma append_split: "b @ r = h @ u \<Longrightarrow> length h \<le> length b \<Longrightarrow> \<exists>t. b = h @ t \<and> u = t @ r"
  by (auto simp: append_eq_append_conv2)

lemma recv_response:
  assumes "awaits_response ps" "awaits_answer hp" "plain_response p" "response_arrives p recvs"
  shows "\<exists>ps'. recv_loop req start ps hp recvs = Exec_returns 0 True ps' (response_collected p (method ps) hp)"
proof -
  let ?head = "response_head ''200'' ''OK'' (resp_headers p) (resp_body p)"
  obtain d ds later where d: "map fst recvs = map Recv_bytes (d # ds) @ later" "concat (d # ds) = HttpResponse_dump HTTP_HEADER p"
    "if resp_body p = [] then min recv_buf_size (length d) = length ?head else length ?head < min recv_buf_size (length d)"
    using assms(4) unfolding response_arrives_def Let_def by blast
  then obtain now rest where recvs: "recvs = (Recv_bytes d, now) # rest" "map fst rest = map Recv_bytes ds @ later"
    by (cases recvs) auto
  have T: "HttpResponse_dump HTTP_HEADER p = ?head @ resp_body p"
    using dump_text [of p] assms(3) by (simp add: plain_response_def response_text_def)
  let ?b = "take recv_buf_size d" and ?r = "drop recv_buf_size d @ concat ds"
  have B: "?b @ ?r = ?head @ resp_body p" using d(2) T by (simp flip: append_assoc)
  have L: "length ?head \<le> length ?b" using d(3) by (auto simp: min.commute split: if_splits)
  obtain t where t: "?b = ?head @ t" "resp_body p = t @ ?r" using append_split [OF B L] by blast
  have "?head \<noteq> []" by (simp add: response_head_def)
  then have ne: "d \<noteq> []" using t(1) by auto
  have part: "t \<noteq> []" if "resp_body p \<noteq> []"
  proof
    assume "t = []"
    then have "min recv_buf_size (length d) = length ?head" using arg_cong [OF t(1), of length] by (simp add: min.commute)
    then show False using d(3) that by simp
  qed
  have "resp_body p = [] \<Longrightarrow> ?r = []" using t(2) by simp
  show ?thesis
  proof (cases "?r = []")
    case True
    have "?b = HttpResponse_dump HTTP_HEADER p" using B [unfolded True append_Nil2] T by (rule trans [OF _ sym])
    with feed_response [OF assms(1-3)] recv_loop_bytes [OF ne, of ps hp] recvs(1) show ?thesis
      by (auto simp: isComplete_def response_collected_def)
  next
    case False
    have t': "t \<noteq> []" "length t < length (resp_body p)" using False part t(2) by auto
    let ?hp = "hp_act (E_body t) (response_head_collected p hp)" and ?s = "(Recv_bytes (drop recv_buf_size d), now) # rest"
    obtain ps' where ps': "HttpParser_feedRecvData ps hp ?b = Some (length ?b, ps', ?hp)"
      "reads_body (length (resp_body p) - length t) (method ps) ps'"
      using feed_response_part [OF assms(1-3) t'] t(1) by auto
    have hp: "hp_type ?hp = HTTP_PARSER_RESPONSE" "\<not> isComplete ?hp"
      using assms(2) by (simp_all add: awaits_answer_def response_head_collected_def isComplete_def)
    have "length (resp_body p) - length t = length ?r" using arg_cong [OF t(2), of length] by simp
    with ps'(2) have "reads_body (length ?r) (method ps) ps'" by simp
    from recv_body [OF this hp(1), of ?s "drop recv_buf_size d # ds" later req start]
    have "\<exists>q. recv_loop req start ps' ?hp ?s = Exec_returns 0 True q (body_into ?r (method ps) ?hp)" using recvs(2) by simp
    then show ?thesis
      unfolding body_into_head [OF assms(2) t(2)] using recv_loop_bytes [OF ne ps'(1)] recvs(1) hp(2) by simp
  qed
qed

lemma fetch_response:
  assumes "sends_all req s" "awaits_response ps" "awaits_answer hp" "plain_response p" "response_arrives p (es_recvs s)"
  shows "\<exists>ps'. HttpClient_exec req resp ps hp s = Exec_returns 0 True ps' (response_collected p (method ps) (hp\<lparr>hp_resp := resp\<rparr>))"
  using recv_response [OF assms(2) _ assms(4,5), of "hp\<lparr>hp_resp := resp\<rparr>" req "es_start s"] assms(3)
  by (simp add: exec_receives [OF assms(1)])

text \<open>A client, and what its calls return.\<close>

definition sample_query :: HttpRequest where
  "sample_query = \<lparr>req_url = ''http://h:80/a'', req_u = sample_u, req_method = HTTP_POST, req_headers = [], req_body = ''xyz'',
     req_status_code = 0, req_retry = 0, req_timeout = 5\<rparr>"

definition sample_script :: "recv_result list \<Rightarrow> exec_script" where
  "sample_script rs = \<lparr>es_start = 0, es_connect = (3, 1), es_sends = [(10, 2), (int (length (makeHttpRequest sample_query)) - 10, 3)],
     es_recvs = map (\<lambda>r. (r, 9)) rs\<rparr>"

definition sample_client :: HttpParser where
  "sample_client = HttpParser_new HTTP_PARSER_RESPONSE sample_memory"

definition sample_answer :: HttpResponse where
  "sample_answer = \<lparr>resp_headers = [(''Host'', ''b'')], resp_body = ''xyz'', resp_status_code = 0\<rparr>"

definition sample_table :: HttpRouter where
  "sample_table = HttpRouter_post ''/a'' (\<lambda>q p. (q, sample_answer)) []"

lemma sample_fields [simp]:
  "req_method sample_query = HTTP_POST" "u_path (req_u sample_query) = ''a''" "es_recvs (sample_script rs) = map (\<lambda>r. (r, 9)) rs"
  "resp_body (HttpResponse_new r) = []" "resp_body sample_answer = ''xyz''"
  by (simp_all add: sample_query_def sample_u_def sample_script_def HttpResponse_new_def sample_answer_def)

lemma sample_query_sendable: "sendable sample_query"
proof -
  have "IS_URL_CHAR CHR ''a''" by (simp add: IS_URL_CHAR_def normal_url_char_def bit_iff_odd)
  then have "plain_url ''/a''" by (simp add: plain_url_def url_ends_def url_delims url_chars)
  moreover have "value_text ''h''" by (simp add: value_text_def IS_HEADER_CHAR_def)
  moreover have "length (dec (Suc (Suc (Suc 0)))) = 1" by (simp add: dec.simps)
  then have "length (request_head (client_request sample_query)) \<le> HTTP_MAX_HEADER_SIZE"
    by (simp add: request_head_def client_request_def client_headers_def lines_text_def header_line_def length_header_def CRLF_def
        method_strings_def sample_query_def sample_u_def HTTP_MAX_HEADER_SIZE_def)
  ultimately show ?thesis by (simp add: sendable_def sample_query_def sample_u_def)
qed

lemma sample_sends: "sends_all sample_query (sample_script rs)"
proof -
  have "length (dec (Suc (Suc (Suc 0)))) = 1" by (simp add: dec.simps)
  then have "10 < length (makeHttpRequest sample_query)" "length (makeHttpRequest sample_query) < 2147483648"
    by (simp_all add: makeHttpRequest_def fill_http_header_def fill_http_body_def sample_query_def sample_u_def Let_def fmt_d_small CRLF_def)
  then show ?thesis by (simp add: sends_all_def sample_script_def isTimeout_def) (simp add: sample_query_def)
qed

lemma sample_client_awaits: "awaits_answer sample_client"
  by (simp add: sample_client_def awaits_answer_def hp_clear_def HttpParser_new_def)

lemma sample_answer_plain: "plain_response sample_answer"
proof -
  have "length (dec (Suc (Suc (Suc 0)))) = 1" by (simp add: dec.simps)
  then show ?thesis
    using sample_header by (simp add: plain_response_def sample_answer_def response_head_def lines_text_def header_line_def
        length_header_def CRLF_def HTTP_MAX_HEADER_SIZE_def)
qed

lemma sample_table_routes:
  "plain_routes sample_table" "getHandleFunc HTTP_POST ''/a'' sample_table = Some (\<lambda>q p. (q, sample_answer))"
  by (simp_all add: sample_table_def HttpRouter_post_def addRouter_def plain_routes_def getHandleFunc_def c_str_def)

text \<open>The server's side of an exchange with a new connection.\<close>

lemma server_answers:
  fixes mem :: HttpParser
  assumes "sendable q" "plain_routes R" "getHandleFunc (req_method q) (CHR ''/'' # u_path (req_u q)) R = Some func"
  shows "\<exists>h'. on_recv ek (HttpHandle_new mem R service) (makeHttpRequest q) = Inr h' \<and>
    hh_actions h' = [Io_send (HttpResponse_dump HTTP_HEADER
      (snd (func (request_into (client_request q) (HttpRequest_new (hp_req mem))) (HttpResponse_new (hp_resp mem)))))]"
proof -
  let ?r = "client_request q" and ?h = "HttpHandle_new mem R service"
  have r: "fits_request ?h ?r"
    using client_request_plain [OF assms(1)] assms(1) by (auto simp: fits_request_def sendable_def client_request_def)
  have R: "hh_router ?h = R" "hh_actions ?h = []" "hp_url (hh_parser ?h) = []" "m_request ?h = HttpRequest_new (hp_req mem)"
    "m_response ?h = HttpResponse_new (hp_resp mem)"
    by (simp_all add: HttpHandle_new_def HttpParser_new_def)
  obtain ps0 where ps0: "on_recv ek ?h (request_text ?r) = Inr (sendHttpResponse (?h\<lparr>hh_ps := ps0, hh_parser := collected ?r (hh_parser ?h)\<rparr>))"
    using recv_served [OF new_handle_idle _ r, of ek] assms(2) R(1) by auto
  have "hh_serviceType (?h\<lparr>hh_ps := ps0, hh_parser := collected ?r (hh_parser ?h)\<rparr>) = SERVICE_HTTP"
    by (simp add: HttpHandle_new_def)
  from sendHttpResponse_answer(1) [OF this] ps0 show ?thesis
    unfolding makeHttpRequest_text [OF assms(1)] using assms(3) R
    by (simp add: collected_def answer_def) (simp add: client_request_def)
qed

text \<open>C2: A client and a server exchange a message. A blocking client sends a POST, or a GET without a body,
  shorter than the largest \<open>int\<close>, in any pieces; the server of a new connection, having received it
  whole, calls the function routed for the method and the path with the collected request and sends one
  response. The client receives this response through its buffer of 1024 bytes, in whatever pieces the
  network makes of it, as long as the first \<open>recv\<close> gets its head and, if it has one, some of its body;
  then \<open>exec\<close> returns 0 with the socket closed, and its response object has status 200, the function's
  body, and the function's headers with the length of the body.\<close>
theorem http_exchange:
  fixes mem :: HttpParser
  assumes "sendable q" "sends_all q s" "plain_routes R" "getHandleFunc (req_method q) (CHR ''/'' # u_path (req_u q)) R = Some func"
    and "plain_response (snd (func (request_into (client_request q) (HttpRequest_new (hp_req mem))) (HttpResponse_new (hp_resp mem))))"
    and "awaits_response ps" "awaits_answer hp"
    and "response_arrives (snd (func (request_into (client_request q) (HttpRequest_new (hp_req mem))) (HttpResponse_new (hp_resp mem)))) (es_recvs s)"
  defines "p \<equiv> snd (func (request_into (client_request q) (HttpRequest_new (hp_req mem))) (HttpResponse_new (hp_resp mem)))"
  shows "(\<exists>h'. on_recv ek (HttpHandle_new mem R service) (makeHttpRequest q) = Inr h' \<and>
      hh_actions h' = [Io_send (HttpResponse_dump HTTP_HEADER p)]) \<and>
    (\<exists>ps' hp'. HttpClient_exec q resp ps hp s = Exec_returns 0 True ps' hp' \<and> resp_status_code (hp_resp hp') = 200 \<and>
      resp_body (hp_resp hp') = resp_body resp @ resp_body p \<and>
      resp_headers (hp_resp hp') = put_headers (resp_headers p @ [(''Content-Length'', dec (length (resp_body p)))]) (resp_headers resp))"
proof (intro conjI)
  show "\<exists>h'. on_recv ek (HttpHandle_new mem R service) (makeHttpRequest q) = Inr h' \<and> hh_actions h' = [Io_send (HttpResponse_dump HTTP_HEADER p)]"
    unfolding p_def using assms(1,3,4) by (rule server_answers)
  show "\<exists>ps' hp'. HttpClient_exec q resp ps hp s = Exec_returns 0 True ps' hp' \<and> resp_status_code (hp_resp hp') = 200 \<and>
      resp_body (hp_resp hp') = resp_body resp @ resp_body p \<and>
      resp_headers (hp_resp hp') = put_headers (resp_headers p @ [(''Content-Length'', dec (length (resp_body p)))]) (resp_headers resp)"
    using fetch_response [OF assms(2,6,7,5,8), of resp]
    by (auto simp: response_collected_def p_def message_headers_def length_header_def)
qed

text \<open>The sample response, cut after the first byte of its body.\<close>

definition sample_pieces :: "recv_result list" where
  "sample_pieces = [Recv_bytes (response_head ''200'' ''OK'' (resp_headers sample_answer) ''xyz'' @ ''x''), Recv_bytes ''yz'']"

lemma sample_head_length: "length (response_head ''200'' ''OK'' (resp_headers sample_answer) (resp_body sample_answer)) < 1023"
proof -
  have "length (dec (Suc (Suc (Suc 0)))) = 1" by (simp add: dec.simps)
  then show ?thesis
    by (simp add: sample_answer_def response_head_def lines_text_def header_line_def length_header_def CRLF_def)
qed

lemma sample_arrives: "response_arrives sample_answer (es_recvs (sample_script sample_pieces))"
proof -
  let ?h = "response_head ''200'' ''OK'' (resp_headers sample_answer) (resp_body sample_answer)"
  have "HttpResponse_dump HTTP_HEADER sample_answer = ?h @ ''xyz''"
    using dump_text [of sample_answer] by (simp add: response_text_def)
  with sample_head_length show ?thesis
    unfolding response_arrives_def Let_def
    by (intro exI [of _ "?h @ ''x''"] exI [of _ "[''yz'']"] exI [of _ "[]"]) (simp add: sample_pieces_def recv_buf_size_def)
qed

lemma http_exchange_witness:
  "(\<exists>h'. on_recv (\<lambda>k. k) (HttpHandle_new sample_memory sample_table False) (makeHttpRequest sample_query) = Inr h' \<and>
      hh_actions h' = [Io_send (HttpResponse_dump HTTP_HEADER sample_answer)]) \<and>
   (\<exists>ps' hp'. HttpClient_exec sample_query (HttpResponse_new sample_answer) (http_parser_init HTTP_BOTH) sample_client
        (sample_script sample_pieces) = Exec_returns 0 True ps' hp' \<and>
      resp_status_code (hp_resp hp') = 200 \<and> resp_body (hp_resp hp') = ''xyz'')"
  using http_exchange [of sample_query "sample_script sample_pieces" sample_table
      "\<lambda>q p. (q, sample_answer)" sample_memory "http_parser_init HTTP_BOTH" sample_client "\<lambda>k. k" False "HttpResponse_new sample_answer"]
    sample_query_sendable sample_sends sample_table_routes sample_answer_plain awaits_init(2) sample_client_awaits sample_arrives
  by auto

text \<open>A response that arrives in two pieces is cut off. When the first \<open>recv\<close> of the client gets the head of a response
  and no byte of its body, the client counts the response as complete: \<open>exec\<close> returns 0 and closes the socket
  with the status and the headers, but without the body, whatever would have arrived afterwards.\<close>
theorem exec_head_only:
  assumes "sends_all req s" "awaits_response ps" "awaits_answer hp" "plain_response p" "resp_body p \<noteq> []"
    and "length (response_head ''200'' ''OK'' (resp_headers p) (resp_body p)) \<le> recv_buf_size"
    and "es_recvs s = (Recv_bytes (response_head ''200'' ''OK'' (resp_headers p) (resp_body p)), t) # later"
  shows "\<exists>ps' hp'. HttpClient_exec req resp ps hp s = Exec_returns 0 True ps' hp' \<and> resp_status_code (hp_resp hp') = 200 \<and>
    resp_body (hp_resp hp') = resp_body resp"
proof -
  obtain ps' where "HttpParser_feedRecvData ps (hp\<lparr>hp_resp := resp\<rparr>) (response_head ''200'' ''OK'' (resp_headers p) (resp_body p)) =
      Some (length (response_head ''200'' ''OK'' (resp_headers p) (resp_body p)), ps', response_head_collected p (hp\<lparr>hp_resp := resp\<rparr>))"
    using feed_response_head [OF assms(2) _ assms(4,5), of "hp\<lparr>hp_resp := resp\<rparr>"] assms(3) by auto
  moreover have "isComplete (response_head_collected p hp')" for hp' by (simp add: isComplete_def response_head_collected_def)
  ultimately have "HttpClient_exec req resp ps hp s = Exec_returns 0 True ps' (response_head_collected p (hp\<lparr>hp_resp := resp\<rparr>))"
    using recv_loop_bytes [of "response_head ''200'' ''OK'' (resp_headers p) (resp_body p)" ps "hp\<lparr>hp_resp := resp\<rparr>"] assms(6)
    by (simp add: exec_receives [OF assms(1)] assms(7) response_head_def)
  then show ?thesis by (simp add: response_head_collected_def)
qed

lemma exec_head_only_witness:
  "\<exists>ps' hp'. HttpClient_exec sample_query (HttpResponse_new sample_answer) (http_parser_init HTTP_BOTH) sample_client
      (sample_script [Recv_bytes (response_head ''200'' ''OK'' (resp_headers sample_answer) (resp_body sample_answer)), Recv_bytes ''xyz'']) =
        Exec_returns 0 True ps' hp' \<and> resp_status_code (hp_resp hp') = 200 \<and> resp_body (hp_resp hp') = resp_body (HttpResponse_new sample_answer)"
  by (rule exec_head_only [OF sample_sends awaits_init(2) sample_client_awaits sample_answer_plain])
    (use sample_head_length in \<open>simp_all add: sample_script_def sample_answer_def recv_buf_size_def\<close>)

text \<open>C24: A response with a chunked body. When the client receives one whole with one \<open>recv\<close>, so that it has
  at most 1024 bytes, from whatever server, after sending a request shorter than the largest \<open>int\<close>, \<open>exec\<close>
  returns 0 with the status code, the headers, of which the last one for a name counts, and as the body the data of
  all chunks, in order; the socket is closed.\<close>
theorem chunked_answer_received:
  assumes "sends_all req s" "awaits_response ps" "awaits_answer hp"
    and "length (chunked_response_head sc reason hs h) \<le> HTTP_MAX_HEADER_SIZE" "status_text sc" "reason \<noteq> []"
      "\<forall>c\<in>set reason. c \<noteq> CR \<and> c \<noteq> LF" "\<forall>h\<in>set hs. plain_header h" "te_header h" "\<forall>c\<in>set cs. chunk_ok HTTP_MAX_HEADER_SIZE c"
    and "es_recvs s = (Recv_bytes (chunked_response_head sc reason hs h @ chunks_text cs), t) # later"
      "length (chunked_response_head sc reason hs h @ chunks_text cs) \<le> recv_buf_size"
  shows "\<exists>ps' hp'. HttpClient_exec req resp ps hp s = Exec_returns 0 True ps' hp' \<and>
    resp_status_code (hp_resp hp') = digits_value 0 sc \<and> resp_headers (hp_resp hp') = put_headers (hs @ [h]) (resp_headers resp) \<and>
    resp_body (hp_resp hp') = resp_body resp @ chunks_data cs"
proof -
  let ?hp = "chunked_collected (digits_value 0 sc) (hs @ [h]) cs (method ps) (hp\<lparr>hp_resp := resp\<rparr>)"
  have "hp_clear (hp\<lparr>hp_resp := resp\<rparr>)" "hp_type (hp\<lparr>hp_resp := resp\<rparr>) = HTTP_PARSER_RESPONSE"
    using assms(3) by (simp_all add: awaits_answer_def hp_clear_def)
  from feed_chunked_response [OF assms(2) this assms(4-10)] obtain ps' where
    "HttpParser_feedRecvData ps (hp\<lparr>hp_resp := resp\<rparr>) (chunked_response_head sc reason hs h @ chunks_text cs) =
      Some (length (chunked_response_head sc reason hs h @ chunks_text cs), ps', ?hp)" by blast
  moreover have "isComplete ?hp" by (simp add: isComplete_def chunked_collected_def)
  ultimately have "HttpClient_exec req resp ps hp s = Exec_returns 0 True ps' ?hp"
    using recv_loop_bytes [of "chunked_response_head sc reason hs h @ chunks_text cs" ps "hp\<lparr>hp_resp := resp\<rparr>"] assms(12)
    by (simp add: exec_receives [OF assms(1)] assms(11) chunked_response_head_def)
  then show ?thesis by (simp add: chunked_collected_def)
qed

lemma chunked_answer_received_witness:
  "\<exists>ps' hp'. HttpClient_exec sample_query (HttpResponse_new sample_answer) (http_parser_init HTTP_BOTH) sample_client
      (sample_script [Recv_bytes (chunked_response_head ''200'' ''OK'' [(''Host'', ''b'')] sample_te @ chunks_text sample_chunks)]) =
        Exec_returns 0 True ps' hp' \<and> resp_status_code (hp_resp hp') = digits_value 0 ''200'' \<and>
    resp_headers (hp_resp hp') = put_headers ([(''Host'', ''b'')] @ [sample_te]) (resp_headers (HttpResponse_new sample_answer)) \<and>
    resp_body (hp_resp hp') = resp_body (HttpResponse_new sample_answer) @ chunks_data sample_chunks"
proof (rule chunked_answer_received [OF sample_sends awaits_init(2) sample_client_awaits])
  show "length (chunked_response_head ''200'' ''OK'' [(''Host'', ''b'')] sample_te) \<le> HTTP_MAX_HEADER_SIZE"
    using sample_te_length by (simp add: chunked_response_head_def chunked_lines_def CRLF_def HTTP_MAX_HEADER_SIZE_def)
  show "\<forall>c\<in>set sample_chunks. chunk_ok HTTP_MAX_HEADER_SIZE c"
    using sample_chunks_ok by (simp add: HTTP_MAX_HEADER_SIZE_def)
  show "length (chunked_response_head ''200'' ''OK'' [(''Host'', ''b'')] sample_te @ chunks_text sample_chunks) \<le> recv_buf_size"
    using sample_te_length by (simp add: chunked_response_head_def chunked_lines_def CRLF_def chunks_text_def chunk_text_def
        sample_chunks_def recv_buf_size_def)
qed (use sample_header sample_te_header ok_status(1) in simp_all)

text \<open>What a timeout makes of the client. After the time of the request is over, a \<open>recv\<close> without bytes
  ends \<open>exec\<close> with the value 0 of success, though no response has come; a timeout while connecting or
  sending is reported, but leaves the socket open.\<close>
theorem exec_timeouts:
  assumes "fst (es_connect s) \<ge> 0"
  shows "(isTimeout req (es_start s) (snd (es_connect s)) \<longrightarrow> HttpClient_exec req resp ps hp s = Exec_returns (-1) False ps hp) \<and>
    (\<not> isTimeout req (es_start s) (snd (es_connect s)) \<and> es_sends s = (n, t) # more_sends \<and> isTimeout req (es_start s) t \<longrightarrow>
      HttpClient_exec req resp ps hp s = Exec_returns (-1) False ps hp) \<and>
    (sends_all req s \<and> es_recvs s = (Recv_nothing eintr, t) # later \<and> isTimeout req (es_start s) t \<longrightarrow>
      HttpClient_exec req resp ps hp s = Exec_returns 0 True ps (hp\<lparr>hp_resp := resp\<rparr>))"
proof (intro conjI impI)
  assume "sends_all req s \<and> es_recvs s = (Recv_nothing eintr, t) # later \<and> isTimeout req (es_start s) t"
  then show "HttpClient_exec req resp ps hp s = Exec_returns 0 True ps (hp\<lparr>hp_resp := resp\<rparr>)" by (simp add: exec_receives)
qed (use assms in \<open>auto simp: HttpClient_exec_def makeHttpRequest_nonempty send_loop_timeout Let_def\<close>)

lemma exec_timeouts_witness:
  "HttpClient_exec sample_query sample_answer (http_parser_init HTTP_BOTH) sample_client (sample_script [Recv_nothing True]) =
    Exec_returns 0 True (http_parser_init HTTP_BOTH) (sample_client\<lparr>hp_resp := sample_answer\<rparr>)"
proof -
  have "isTimeout sample_query (es_start (sample_script [Recv_nothing True])) 9"
    "es_recvs (sample_script [Recv_nothing True]) = (Recv_nothing True, 9) # []" "fst (es_connect (sample_script [Recv_nothing True])) \<ge> 0"
    by (simp_all add: isTimeout_def sample_script_def sample_query_def)
  then show ?thesis
    using exec_timeouts [of "sample_script [Recv_nothing True]" sample_query sample_answer "http_parser_init HTTP_BOTH" sample_client 0 9 "[]" True "[]"]
      sample_sends by blast
qed

end
