(* ===== verification/HttpCount.thy ===== *)
theory HttpCount
  imports HttpSafe
begin

section \<open>The count of header bytes\<close>

text \<open>
  The parser counts the bytes of the headers against the limit, some of them one by one and some in the
  inner loops. Whatever the bytes are, and whatever the callbacks do, no byte is counted twice.
\<close>

subsection \<open>Results that count at most what was read\<close>

definition counted :: "'u run_env \<Rightarrow> nat \<Rightarrow> 'u exec \<Rightarrow> bool" where
  "counted G n y \<longleftrightarrow> l_nread y \<le> n + cur y \<and> cur y < length (data G)"

definition counts_once :: "'u run_env \<Rightarrow> nat \<Rightarrow> 'u flow \<Rightarrow> bool" where
  "counts_once G n f = (case f of
      Next y \<Rightarrow> counted G n y
    | Again y \<Rightarrow> counted G n y
    | Ret k y \<Rightarrow> http_errno (parser y) = HPE_OK \<longrightarrow> nread (parser y) < n + length (data G)
    | _ \<Rightarrow> True)"

lemma counts_once_simps [simp]:
  "counts_once G n (Next y) = counted G n y" "counts_once G n (Again y) = counted G n y"
  "counts_once G n (Ret k y) \<longleftrightarrow> (http_errno (parser y) = HPE_OK \<longrightarrow> nread (parser y) < n + length (data G))"
  "counts_once G n (Err y)" "counts_once G n Abort" "counts_once G n (fail e y)"
  by (simp_all add: counts_once_def fail_def)

lemma counts_once_checks [simp]:
  "counts_once G n f \<Longrightarrow> counts_once G n (strict_check b x f)" "counts_once G n f \<Longrightarrow> counts_once G n (assert_chunked x f)"
  by (simp_all add: strict_check_def assert_chunked_def)

lemma counted_same [simp]:
  "counted G n (upd f x) = counted G n x" "counted G n (update_state s x) = counted G n x"
  "counted G n (set_mark m x) = counted G n x" "counted G n (clear_mark m x) = counted G n x"
  "counted G n (sync u x) = counted G n x" "counted G n (x\<lparr>parser := ps, udata := u\<rparr>) = counted G n x"
  by (simp_all add: counted_def)

lemma counts_once_return: "counted G n x \<Longrightarrow> counts_once G n (return k x)"
  by (simp add: return_def counted_def)

lemma counts_once_header:
  assumes "\<And>m. m \<le> l_nread x + v \<Longrightarrow> counts_once G n (k (x\<lparr>l_nread := m\<rparr>))"
  shows "counts_once G n (count_header_size G v k x)"
  using assms by (simp add: count_header_size_def Let_def)

lemma counts_once_result:
  assumes "\<And>y. l_nread y = l_nread x \<Longrightarrow> cur y = cur x \<Longrightarrow> counts_once G n (k y)"
  shows "counts_once G n (callback_result e er k x r)"
  using assms by (simp add: callback_result_def Let_def set_errno_def upd_def update_state_def)

lemma counts_once_notify:
  assumes "\<And>y. l_nread y = l_nread x \<Longrightarrow> cur y = cur x \<Longrightarrow> counts_once G n (k y)"
  shows "counts_once G n (callback_notify f e er k x)"
  using assms by (auto simp: callback_notify_def Let_def split: option.split intro!: counts_once_result)

lemma counts_once_data:
  assumes "\<And>y. l_nread y = l_nread x \<Longrightarrow> cur y = cur x \<Longrightarrow> counts_once G n (k y)"
  shows "counts_once G n (callback_data_len G m extra er k x)"
  using assms by (auto simp: callback_data_len_def Let_def split: option.split intro!: counts_once_result)

lemma counted_like: "counted G n x \<Longrightarrow> l_nread y \<le> l_nread x \<Longrightarrow> cur y = cur x \<Longrightarrow> counted G n y"
  by (simp add: counted_def)

lemmas count_intros = counts_once_header counts_once_notify counts_once_data counts_once_return counts_once_checks

subsection \<open>The loops\<close>

lemma field_loop_counts:
  "field_loop G x = Some y \<Longrightarrow> cur x \<le> length (data G) \<Longrightarrow> cur x \<le> cur y \<and> l_nread y = l_nread x \<and> cur y \<le> length (data G)"
proof (induction G x rule: field_loop.induct)
  case (1 G x)
  let ?x = "x\<lparr>xch := data G ! cur x\<rparr>"
  consider "cur x \<ge> length (data G)" | "cur x < length (data G)" "TOKEN (xch ?x) = NUL"
    | "cur x < length (data G)" "TOKEN (xch ?x) \<noteq> NUL" "header_state (parser ?x) = h_general"
    | "cur x < length (data G)" "TOKEN (xch ?x) \<noteq> NUL" "header_state (parser ?x) \<noteq> h_general" by linarith
  then show ?case
  proof cases
    case 1
    then have "y = x" using "1.prems"(1) by (subst (asm) field_loop.simps) simp
    then show ?thesis using "1.prems"(2) by simp
  next
    case 2
    then have "y = ?x" using "1.prems"(1) by (subst (asm) field_loop.simps) (simp add: Let_def)
    then show ?thesis using "1.prems"(2) by simp
  next
    case 3
    then have E: "field_loop G (?x\<lparr>cur := field_skip G (cur ?x) + 1\<rparr>) = Some y"
      using "1.prems"(1) by (subst (asm) field_loop.simps) (simp add: Let_def)
    have "cur ?x \<le> field_skip G (cur ?x)" "field_skip G (cur ?x) < length (data G)" using field_skip_lt [of "cur x" G] 3(1) by simp_all
    then show ?thesis using 1(1) [OF _ refl refl 3(2,3) E] 3(1) by simp
  next
    case 4
    then obtain ps where ps: "field_char (TOKEN (xch ?x)) (xch ?x) (parser ?x) = Some ps"
      "field_loop G (?x\<lparr>parser := ps, cur := cur ?x + 1\<rparr>) = Some y"
      using "1.prems"(1) by (subst (asm) field_loop.simps) (auto simp: Let_def split: option.splits)
    then show ?thesis using 1(2) [OF _ refl refl 4(2,3) ps] 4(1) by simp
  qed
qed

lemma value_skip_counts:
  "value_skip G pe x = Inr y \<Longrightarrow> cur x \<le> pe \<Longrightarrow> l_nread y = l_nread x \<and> cur y \<le> pe"
proof (induction G pe x rule: value_skip.induct)
  case (1 G pe x)
  show ?case
    using 1(2,3) 1(1) [OF _ refl]
    by (subst (asm) value_skip.simps) (fastforce simp: Let_def split: if_splits)
qed

lemma value_char_counts:
  assumes "value_char G h x = Some (Inr (h', y))" "cur x < length (data G)"
  shows "l_nread y = l_nread x \<and> cur y < length (data G)"
proof (cases "h = h_general")
  case True
  then obtain z where z: "value_skip G (cur x + min (length (data G) - cur x) (max_header_size G)) x = Inr z"
    "y = (if cur z = length (data G) then z\<lparr>cur := cur z - 1\<rparr> else z)"
    using assms(1) by (auto simp: value_char_def value_general_def Let_def split: sum.splits)
  then show ?thesis using value_skip_counts [OF z(1)] assms(2) by auto
next
  case False
  then show ?thesis
    using assms
    by (cases h) (auto simp: value_char_def value_content_length_def value_error_def value_match_def value_comma_def
        value_connection_done_def Let_def split: if_splits)
qed

lemma value_end_counts:
  assumes "l_nread x \<le> n + start" "start \<le> cur x" "start < length (data G)" "cur x \<le> length (data G)"
  shows "counts_once G n (value_end G start h x)"
  unfolding value_end_def Let_def by (rule counts_once_header) (use assms in \<open>auto simp: counted_def\<close>)

lemma value_loop_counts:
  assumes "l_nread x \<le> n + start" "start \<le> cur x" "start < length (data G)" "cur x \<le> length (data G)"
  shows "counts_once G n (value_loop G start h x)"
  using assms
proof (induction G start h x rule: value_loop.induct)
  case (1 G start h x)
  show ?case
  proof (cases "cur x \<ge> length (data G)")
    case True
    then show ?thesis using 1(2-5) by (subst value_loop.simps) (simp add: value_end_counts)
  next
    case F: False
    let ?x = "x\<lparr>xch := data G ! cur x\<rparr>"
    consider "xch ?x = CR" | "xch ?x \<noteq> CR" "xch ?x = LF" | "xch ?x \<noteq> CR" "xch ?x \<noteq> LF" "\<not> lenient G \<and> \<not> IS_HEADER_CHAR (xch ?x)"
      | "xch ?x \<noteq> CR" "xch ?x \<noteq> LF" "\<not> (\<not> lenient G \<and> \<not> IS_HEADER_CHAR (xch ?x))" by blast
    then show ?thesis
    proof cases
      case 1
      then show ?thesis
        using F "1.prems"
        by (subst value_loop.simps) (auto simp: Let_def callback_data_def intro!: counts_once_data value_end_counts)
    next
      case 2
      then show ?thesis
        using F "1.prems"
        by (subst value_loop.simps)
          (auto simp: Let_def callback_data_noadvance_def counted_def intro!: counts_once_header counts_once_data)
    next
      case 3
      then show ?thesis using F by (subst value_loop.simps) (simp add: Let_def)
    next
      case 4
      show ?thesis
      proof (cases "value_char G h ?x")
        case None
        then show ?thesis using F 4 by (subst value_loop.simps) (simp add: Let_def)
      next
        case (Some r)
        show ?thesis
        proof (cases r)
          case (Inl y)
          then show ?thesis using F 4 Some by (subst value_loop.simps) (simp add: Let_def)
        next
          case (Inr p)
          have "value_char G h ?x = Some (Inr (fst p, snd p))" using Some Inr by simp
          from value_char_counts [OF this] value_char_cur [OF this] F 4
          have p: "l_nread (snd p) = l_nread x" "cur (snd p) < length (data G)" "cur x \<le> cur (snd p)" by simp_all
          have "counts_once G n (value_loop G start (fst p) ((snd p)\<lparr>cur := cur (snd p) + 1\<rparr>))"
            by (rule "1.IH" [OF F refl]) (use 4 Some Inr p "1.prems" in auto)
          then show ?thesis using F 4 Some Inr by (subst value_loop.simps) (simp add: Let_def)
        qed
      qed
    qed
  qed
qed

subsection \<open>The cases of the machine\<close>

lemma url_char_counts: "counted G n x \<Longrightarrow> counts_once G n (url_char x)"
  by (simp add: url_char_def Let_def)

lemma start_counts:
  assumes "counted G n x"
  shows "counts_once G n (do_dead G x)" "counts_once G n (do_start_req_or_res G x)" "counts_once G n (do_res_or_resp_H G x)"
    "counts_once G n (do_start_res G x)" "counts_once G n (do_expect d s x)" "counts_once G n (do_http_major s x)"
    "counts_once G n (do_http_dot s x)" "counts_once G n (do_http_minor s x)" "counts_once G n (do_res_http_end G x)"
    "counts_once G n (do_res_first_status_code G x)" "counts_once G n (do_res_status_code G x)"
    "counts_once G n (do_res_status_start G x)" "counts_once G n (do_res_status G x)" "counts_once G n (do_start_req G x)"
    "counts_once G n (do_req_method G x)" "counts_once G n (do_req_spaces_before_url G x)" "counts_once G n (do_req_schema G x)"
    "counts_once G n (do_req_url G x)" "counts_once G n (do_req_http_start G x)" "counts_once G n (do_req_http_end G x)"
    "counts_once G n (do_req_line_almost_done G x)"
  using assms
  by (auto simp: do_dead_def do_start_req_or_res_def do_res_or_resp_H_def do_start_res_def do_expect_def do_http_major_def do_http_dot_def
      do_http_minor_def do_res_http_end_def do_res_first_status_code_def do_res_status_code_def do_res_status_start_def do_res_status_def
      do_start_req_def do_req_method_def do_req_spaces_before_url_def do_req_schema_def do_req_url_def do_req_http_start_def
      do_req_http_end_def do_req_line_almost_done_def callback_data_def Let_def url_char_counts counted_def
      intro!: count_intros split: option.split)

lemma value_start_counts: "counted G n x \<Longrightarrow> counts_once G n (do_header_value_start G x)"
  by (auto simp: do_header_value_start_def Let_def split: header_states.split)

lemma do_header_field_counts:
  assumes "counted G n x"
  shows "counts_once G n (do_header_field G x)"
proof (cases "field_loop G x")
  case None
  then show ?thesis by (simp add: do_header_field_def)
next
  case (Some y)
  then have "cur x \<le> cur y" "l_nread y = l_nread x" "cur y \<le> length (data G)"
    using field_loop_counts [OF Some] assms by (simp_all add: counted_def)
  then show ?thesis
    using Some assms
    by (auto simp: do_header_field_def Let_def callback_data_def counted_def intro!: counts_once_header counts_once_data)
qed

lemma headers_counts:
  assumes "counted G n x"
  shows "counts_once G n (do_header_field_start G x)" "counts_once G n (do_header_value G x)"
    "counts_once G n (do_header_value_start G x)" "counts_once G n (do_header_value_discard_ws G x)"
    "counts_once G n (do_header_value_discard_lws G x)" "counts_once G n (do_header_value_lws G x)"
    "counts_once G n (do_header_almost_done G x)"
  using assms value_start_counts [OF assms]
  by (auto simp: do_header_field_start_def do_header_value_def do_header_value_discard_ws_def do_header_value_discard_lws_def
      do_header_value_lws_def do_header_almost_done_def Let_def callback_data_noadvance_def counted_def
      intro!: counts_once_data value_loop_counts split: header_states.split)

lemma message_complete_counts:
  assumes "\<And>y. l_nread y = l_nread x \<Longrightarrow> cur y = cur x \<Longrightarrow> counts_once G n (k y)"
  shows "counts_once G n (message_complete G k x)"
  using assms by (auto simp: message_complete_def intro!: counts_once_notify)

lemma headers_complete_counts:
  assumes "\<And>y. l_nread y = l_nread x \<Longrightarrow> cur y = cur x \<Longrightarrow> counts_once G n (k y)"
  shows "counts_once G n (do_headers_complete G k x)"
  using assms by (auto simp: do_headers_complete_def Let_def return_def split: option.split)

lemma take_body_cur:
  "cur x < length (data G) \<Longrightarrow> content_length (parser x) \<noteq> 0 \<Longrightarrow> cur x \<le> cur (take_body G x) \<and> cur (take_body G x) < length (data G)"
  by (auto simp: take_body_def Let_def)

lemma body_counts:
  assumes "counted G n x"
  shows "counts_once G n (do_headers_almost_done G x)" "counts_once G n (do_headers_done G x)" "counts_once G n (do_body_identity G x)"
    "counts_once G n (do_body_identity_eof G x)" "counts_once G n (do_message_done G x)" "counts_once G n (do_chunk_size_start G x)"
    "counts_once G n (do_chunk_size G x)" "counts_once G n (do_chunk_parameters G x)" "counts_once G n (do_chunk_size_almost_done G x)"
    "counts_once G n (do_chunk_data G x)" "counts_once G n (do_chunk_data_almost_done G x)" "counts_once G n (do_chunk_data_done G x)"
  using assms take_body_cur [of x G]
  by (auto simp: do_headers_almost_done_def do_headers_done_def do_body_identity_def do_body_identity_eof_def do_message_done_def
      do_chunk_size_start_def do_chunk_size_def do_chunk_parameters_def do_chunk_size_almost_done_def do_chunk_data_def
      do_chunk_data_almost_done_def do_chunk_data_done_def callback_data_def Let_def counted_def return_def
      intro!: count_intros message_complete_counts headers_complete_counts)

lemma exec_state_counts:
  assumes "counted G n x"
  shows "counts_once G n (exec_state G x)"
  by (cases "p_state x")
    (simp_all add: exec_state_def start_counts [OF assms] headers_counts [OF assms] body_counts [OF assms] do_header_field_counts [OF assms])

subsection \<open>The loop over the bytes\<close>

lemma reexecute_counts: "reexecute G x = Some f \<Longrightarrow> counted G n x \<Longrightarrow> counts_once G n f"
proof (induction arbitrary: n rule: reexecute.raw_induct [where xa = "(G, x)" for G x, unfolded prod.case, rotated 1, consumes 1])
  case (1 self G x f)
  have "counts_once G n (exec_state G x)" by (rule exec_state_counts [OF 1(3)])
  then show ?case using 1(1,2) by (cases "exec_state G x") auto
qed

lemma exec_end_counts:
  assumes "l_nread x \<le> n + length (data G)"
  shows "counts_once G (n + 1) (exec_end G x)"
proof -
  have R: "counts_once G (Suc n) (return (length (data G)) y)" if "l_nread y \<le> n + length (data G)" for y
    using that by (simp add: return_def)
  show ?thesis
    by (auto simp: exec_end_def callback_data_noadvance_def intro!: counts_once_data R simp: assms)
qed

lemma count_byte:
  assumes "l_nread x \<le> n + cur x" "cur x < length (data G)"
    "(if parsing_header (p_state x) then count_header_size G 1 Next x else Next x) = Next y"
  shows "counted G (n + 1) y"
  using assms by (auto simp: count_header_size_def counted_def fail_def Let_def split: if_splits)

lemma exec_bytes_counts:
  "exec_bytes G x = Some f \<Longrightarrow> cur x \<le> length (data G) \<Longrightarrow> l_nread x \<le> n + cur x \<Longrightarrow> counts_once G (n + 1) f"
proof (induction arbitrary: n rule: exec_bytes.raw_induct [where xa = "(G, x)" for G x, unfolded prod.case, rotated 1, consumes 1])
  case (1 self G x f)
  show ?case
  proof (cases "cur x = length (data G)")
    case True
    then show ?thesis using 1(2,4) exec_end_counts [of x n G] by auto
  next
    case False
    let ?x = "x\<lparr>xch := data G ! cur x\<rparr>"
    have E: "counts_once G (n + 1) (exec_error y)" for y by (auto simp: exec_error_def return_def)
    show ?thesis
    proof (cases "if parsing_header (p_state ?x) then count_header_size G 1 Next ?x else Next ?x")
      case (Next y)
      have y: "counted G (n + 1) y" by (rule count_byte [OF _ _ Next]) (use 1(3,4) False in simp_all)
      obtain r where r: "reexecute G y = Some r" using 1(2) False Next by (auto simp: Let_def split: option.splits)
      have c: "counts_once G (n + 1) r" by (rule reexecute_counts [OF r y])
      show ?thesis
      proof (cases r)
        case (Next z)
        then have "self G (z\<lparr>cur := cur z + 1\<rparr>) = Some f" using 1(2) False r \<open>_ = Next y\<close> by (simp add: Let_def)
        then show ?thesis by (rule 1(1)) (use c Next in \<open>simp_all add: counted_def\<close>)
      qed (use 1(2) False r c E \<open>_ = Next y\<close> in \<open>auto simp: Let_def\<close>)
    qed (use 1(2) False E in \<open>auto simp: Let_def count_header_size_def fail_def split: if_splits\<close>)
  qed
qed

text \<open>A call counts at most the bytes that it was given.\<close>

lemma http_parser_execute_counts:
  assumes "http_parser_execute S limit ps u d = Some (Ret k x)" "http_errno (parser x) = HPE_OK" "d \<noteq> []" "http_errno ps = HPE_OK"
  shows "nread (parser x) \<le> nread ps + length d"
proof -
  have "counts_once (run_env_of S limit ps d) (nread ps + 1) (Ret k x)"
    by (rule exec_bytes_counts [where x = "start_run ps u"])
      (use assms in \<open>simp_all add: http_parser_execute_def Let_def start_run_def\<close>)
  then show ?thesis using assms(2) by (simp add: run_env_of_def)
qed

end
