(* ===== verification/HttpCut.thy ===== *)
theory HttpCut
  imports HttpServing HttpCount
begin

section \<open>A request that is cut within a header name\<close>

text \<open>
  The bytes of a request come in as many reads as the network makes of them. A name of a header that is
  cut between two reads is delivered in two pieces, and the parser object takes each piece for a name.
\<close>

subsection \<open>The end of a read within a name\<close>

context event_client
begin

lemma exec_name_cut:
  assumes st: "stage S G s_header_field_start w u n [] x"
    and n: "n \<noteq> []" "\<forall>c\<in>set n. TOKEN c \<noteq> NUL" "\<not> h_te w" "\<not> prefix ''transfer-encoding'' (map TOKEN n)"
  shows "\<exists>y. exec_bytes G x = Some (Ret (length (data G)) y) \<and> http_errno (parser y) = HPE_OK \<and> state (parser y) = s_header_field \<and>
    nread (parser y) = l_nread x + length n \<and> head_of (parser y) = w \<and> name_inv (map TOKEN n) (parser y) \<and> udata y = act (E_field n) u"
proof -
  obtain c cs where c: "n = c # cs" using n(1) by (cases n) auto
  let ?M = "(\<lambda>_. None)(M_header_field := Some (cur x))"
  have "stage S G s_header_field_start w u (c # cs) [] x" using st c by simp
  moreover have "TOKEN c \<noteq> NUL" using n(2) c by simp
  ultimately have "reaches G x (\<lambda>v. run_at S G s_header_field w u ?M cs [] v \<and> cur v = cur x + 1 \<and> name_inv [TOKEN c] (parser v) \<and>
      l_nread v = l_nread x + 1)" by (rule exec_name_first)
  then obtain v where v: "exec_bytes G x = exec_bytes G v" "run_at S G s_header_field w u ?M cs [] v" "cur v = cur x + 1"
    "name_inv [TOKEN c] (parser v)" "l_nread v = l_nread x + 1"
    by (auto simp: reaches_def)
  note d = stageD [OF v(2)]
  have D: "drop (cur x) (data G) = n" using stageD(5) [OF st] by simp
  have len: "length (data G) = cur v + length cs" using arg_cong [OF d(5), of length] d(6) by simp
  have T: "\<exists>y. exec_bytes G v = Some (exec_end G y) \<and> cur y = length (data G) \<and> p_state y = s_header_field \<and> marks y = ?M \<and>
      udata y = u \<and> l_nread y = l_nread x + length n \<and> parser y = name_run (parser v) (map TOKEN cs)"
  proof (cases cs)
    case Nil
    then show ?thesis using d len v by (intro exI [of _ v]) (simp add: exec_bytes_end name_run_def c)
  next
    case (Cons e es)
    then have C: "cur v < length (data G)" "counts G v" "l_nread (take_byte G v) = l_nread v + 1" "0 < max_header_size G"
      using len d(3,4,9) by (auto simp: counts_def)
    obtain y where y: "field_loop G (take_byte G v) = Some y" "parser y = name_run (parser v) (map TOKEN cs)"
      "cur y = cur v + length cs" "p_state y = s_header_field" "marks y = ?M" "l_nread y = l_nread v + 1" "udata y = u"
      using field_loop_run [of "take_byte G v" G cs "[]" "[TOKEN c]"] d n(2) v(4) C by (auto simp: c)
    let ?z = "y\<lparr>cur := cur y - 1, l_nread := l_nread v + 1 + (cur y - 1 - cur v)\<rparr>"
    have "exec_state G (take_byte G v) = Next ?z"
      using y len d(3,4,9) C Cons by (simp add: exec_state_def do_header_field_def Let_def count_header_size_def)
    then have "exec_bytes G v = exec_bytes G (?z\<lparr>cur := cur ?z + 1\<rparr>)" by (rule exec_bytes_next [OF C(1,2)])
    also have "\<dots> = Some (exec_end G (?z\<lparr>cur := cur ?z + 1\<rparr>))"
      using y(3) len Cons by (intro exec_bytes_end) simp
    finally show ?thesis
      using y len v(5) Cons by (intro exI [of _ "?z\<lparr>cur := cur ?z + 1\<rparr>"]) (simp add: c)
  qed
  then obtain y where y: "exec_bytes G v = Some (exec_end G y)" "cur y = length (data G)" "p_state y = s_header_field" "marks y = ?M"
    "udata y = u" "l_nread y = l_nread x + length n" "parser y = name_run (parser v) (map TOKEN cs)" by blast
  have cs: "\<forall>c\<in>set (map TOKEN cs). c \<noteq> CHR '' ''" using token_blank by auto
  have ute: "uses_transfer_encoding (parser v) \<longleftrightarrow> False \<or> prefix ''transfer-encoding'' [TOKEN c]"
    using n(3) d(11) by (auto simp: head_of_def)
  have run: "name_inv (map TOKEN n) (parser y)" "\<not> uses_transfer_encoding (parser y)"
    using name_run_inv [OF v(4) ute cs] n(4) by (simp_all add: y(7) c)
  have e: "http_errno (parser y) = HPE_OK" "head_of (parser y) = w"
    using name_run_errno [OF v(4) cs] name_run_head [OF v(4) cs] d(10,11) run(2) n(3) by (auto simp: y(7))
  have "exec_end G y = return (length (data G)) (after_data G M_header_field 0 y)"
    by (rule exec_end_mark) (use d(1) S_accepts e(1) y(4) in simp_all)
  moreover have "udata (after_data G M_header_field 0 y) = act (E_field n) u"
    using deliver_text [of y M_header_field "cur x" G n "[]" 0] y D d(1) len v(3) by (simp add: c)
  ultimately show ?thesis
    using v(1) y e run
    by (intro exI [of _ "upd (\<lambda>ps. ps\<lparr>nread := l_nread y, state := p_state y\<rparr>) (after_data G M_header_field 0 y)"])
      (simp add: return_def name_inv_def cong: header_states.case_cong)
qed

subsection \<open>The rest of the request\<close>

lemma lines_text_first:
  assumes "\<forall>h\<in>set hs. plain_header h"
  shows "\<exists>c p. lines_text hs b = c # p \<and> c \<noteq> CHR '' '' \<and> c \<noteq> TAB"
proof (cases hs)
  case Nil
  then show ?thesis by (cases b) (auto simp: lines_text_def CRLF_def header_line_def length_header_def)
next
  case (Cons h t)
  then obtain c cs where "fst h = c # cs" "c \<noteq> CHR '' ''" "c \<noteq> TAB"
    using assms first_token [of "fst h"] by (auto simp: plain_header_def)
  then show ?thesis using Cons by (auto simp: lines_text_def header_line_def)
qed

lemma exec_lines_body:
  assumes st: "stage S G s_header_field_start w u (lines_text hs b) (body_text b @ q) x"
    and w: "h_flags w = 0" "\<not> h_te w" "framed w" "h_type w = HTTP_REQUEST" "h_length w = ULLONG_MAX"
    and r: "\<forall>h\<in>set hs. plain_header h" "plain_body b"
  shows "reaches G x (\<lambda>y. \<exists>w'. stage S G s_start_req w' (fold act (lines_events hs b @ [E_headers] @ body_events b @ [E_complete (h_method w)]) u)
    [] q y \<and> l_nread y = 0 \<and> h_type w' = HTTP_REQUEST \<and> h_lenient w' = h_lenient w)"
proof -
  let ?h = "lines_head b w"
  have H: "framed ?h" "h_length ?h = (case b of None \<Rightarrow> ULLONG_MAX | Some t \<Rightarrow> length t)" "h_type ?h = HTTP_REQUEST"
    "h_method ?h = h_method w" "h_lenient ?h = h_lenient w"
    using w by (auto simp: lines_head_def framed_def split: option.split)
  have "reaches G x (stage S G s_header_field_start ?h (fold act (lines_events hs b) u) CRLF (body_text b @ q))"
    by (rule exec_lines) (use st w r in simp_all)
  then show ?thesis
  proof (rule reaches_trans)
    fix y
    assume "stage S G s_header_field_start ?h (fold act (lines_events hs b) u) CRLF (body_text b @ q) y"
    from exec_end_and_body [OF this H(1) r(2) H(2)]
    show "reaches G y (\<lambda>y. \<exists>w'. stage S G s_start_req w'
        (fold act (lines_events hs b @ [E_headers] @ body_events b @ [E_complete (h_method w)]) u) [] q y \<and> l_nread y = 0 \<and>
        h_type w' = HTTP_REQUEST \<and> h_lenient w' = h_lenient w)"
      by (rule reaches_trans, intro reaches_refl exI [of _ "if no_body ?h then ?h else ?h\<lparr>h_length := 0\<rparr>"])
        (use H in \<open>simp_all add: ready_def\<close>)
  qed
qed

subsection \<open>The two reads\<close>

lemma cut_run:
  assumes ps: "awaits_request ps" and limit: "limit < 2 ^ 32" "length d \<le> limit"
    and d: "d = method_string m @ '' '' @ url @ '' HTTP/1.1'' @ CRLF @ concat (map header_line hs) @ n"
    and r: "m \<noteq> HTTP_CONNECT" "plain_url url" "\<forall>h\<in>set hs. plain_header h" "state ps = s_start_req_or_res \<Longrightarrow> m \<noteq> HTTP_HEAD"
    and n: "n \<noteq> []" "\<forall>c\<in>set n. TOKEN c \<noteq> NUL" "\<not> prefix ''transfer-encoding'' (map TOKEN n)"
  shows "\<exists>y. http_parser_execute S limit ps u d = Some (Ret (length d) y) \<and> http_errno (parser y) = HPE_OK \<and>
    state (parser y) = s_header_field \<and> nread (parser y) \<le> length d \<and> name_inv (map TOKEN n) (parser y) \<and>
    head_of (parser y) = with_version (begin_head HTTP_REQUEST (head_of ps)\<lparr>h_method := m\<rparr>) \<and>
    udata y = fold act ([E_begin, E_url url] @ concat (map header_events hs) @ [E_field n]) u"
proof -
  let ?G = "run_env_of S limit ps d" and ?x = "start_run ps u"
  let ?w = "with_version (begin_head HTTP_REQUEST (head_of ps)\<lparr>h_method := m\<rparr>)"
  let ?u = "act (E_url url) (act E_begin u)"
  have P: "http_errno ps = HPE_OK" "nread ps = 0" "\<not> lenient_http_headers ps" "state ps \<in> {s_start_req, s_start_res, s_start_req_or_res}"
    "state ps = s_start_req \<and> ptype ps = HTTP_REQUEST \<or> state ps = s_start_req_or_res"
    using ps by (auto simp: awaits_request_def)
  have D: "d \<noteq> []" by (simp add: d)
  note st = stage_start [OF P(1-3) limit(1) P(4) D, of u]
  have "stage S ?G (state ps) (head_of ps) u d [] ?x" by (rule stage_split [OF st(1,2)]) (use limit(2) in simp_all)
  then have "reaches ?G ?x (stage S ?G s_header_field_start ?w ?u (concat (map header_line hs) @ n) [])"
    unfolding d by (rule exec_request_line) (use P(5) r in \<open>auto simp: head_of_def\<close>)
  moreover obtain c cs where c: "n = c # cs" "c \<noteq> CHR '' ''" "c \<noteq> TAB" using first_token [OF n(1,2)] by blast
  have te: "\<not> h_te ?w" by (simp add: with_version_def begin_head_def)
  have "reaches ?G y (stage S ?G s_header_field_start ?w (fold act (concat (map header_events hs)) ?u) n [])"
    if "stage S ?G s_header_field_start ?w ?u (concat (map header_line hs) @ n) [] y" for y
    using exec_plain_lines [of ?G ?w ?u hs c cs "[]" y] that r(3) te c by simp
  ultimately have "reaches ?G ?x (stage S ?G s_header_field_start ?w (fold act (concat (map header_events hs)) ?u) n [])"
    by (rule reaches_trans)
  then obtain v where v: "exec_bytes ?G ?x = exec_bytes ?G v" "stage S ?G s_header_field_start ?w (fold act (concat (map header_events hs)) ?u) n [] v"
    by (auto simp: reaches_def)
  obtain y where y: "exec_bytes ?G v = Some (Ret (length d) y)" "http_errno (parser y) = HPE_OK" "state (parser y) = s_header_field"
    "head_of (parser y) = ?w" "name_inv (map TOKEN n) (parser y)" "udata y = act (E_field n) (fold act (concat (map header_events hs)) ?u)"
    using exec_name_cut [OF v(2) n(1,2) te n(3)] by auto
  have E: "http_parser_execute S limit ps u d = Some (Ret (length d) y)" using st(3) v(1) y(1) by simp
  show ?thesis
    using E y http_parser_execute_counts [OF E y(2) D P(1)] P(2) by (intro exI [of _ y]) simp
qed

lemma resume_run:
  assumes ps: "http_errno ps = HPE_OK" "state ps = s_header_field" "name_inv (map TOKEN n) ps" "head_of ps = w"
    and w: "h_flags w = 0" "\<not> h_te w" "framed w" "h_type w = HTTP_REQUEST" "h_length w = ULLONG_MAX" "\<not> h_lenient w"
    and limit: "limit < 2 ^ 32" "nread ps + length (t @ '': '' @ v @ CRLF @ lines_text hs b) \<le> limit"
    and h: "plain_header (n @ t, v)" "\<forall>h\<in>set hs. plain_header h" "plain_body b" and n: "n \<noteq> []" "t \<noteq> []"
    and d: "d = (t @ '': '' @ v @ CRLF @ lines_text hs b) @ body_text b"
  shows "\<exists>y. http_parser_execute S limit ps u d = Some (Ret (length d) y) \<and> awaits_request (parser y) \<and>
    udata y = fold act ([E_field t, E_value v] @ lines_events hs b @ [E_headers] @ body_events b @ [E_complete (h_method w)]) u"
proof -
  let ?G = "run_env_of S limit ps d" and ?x = "start_run ps u"
  let ?u = "act (E_field t) u" and ?q = "body_text b @ []"
  have D: "d \<noteq> []" by (simp add: d)
  have L: "\<not> lenient_http_headers ps" using ps(4) w(6) by (auto simp: head_of_def)
  have X: "http_parser_execute S limit ps u d = exec_bytes ?G ?x" using ps(1) D by (rule http_parser_execute_run)
  obtain c p where c: "lines_text hs b = c # p" "c \<noteq> CHR '' ''" "c \<noteq> TAB" using lines_text_first [OF h(2)] by blast
  have V: "map TOKEN (n @ t) \<notin> special_names" "value_text v" using h(1) unfolding plain_header_def fst_conv snd_conv by blast+
  let ?r = "CHR '' '' # v @ CR # LF # c # p"
  have M: "first_marks s_header_field = (\<lambda>_. None)(M_header_field := Some 0)"
    by (auto simp: first_marks_def fun_eq_iff split: mark.split)
  have "run_at S ?G s_header_field w u ((\<lambda>_. None)(M_header_field := Some 0)) (t @ CHR '':'' # ?r) ?q ?x"
    using ps limit L M by (simp add: run_at_def d c CRLF_def)
  then have "reaches ?G ?x (\<lambda>y. stage S ?G s_header_value_discard_ws (w\<lparr>h_te := prefix ''transfer-encoding'' (map TOKEN n @ map TOKEN t)\<rparr>)
      ?u ?r ?q y \<and> name_inv (map TOKEN n @ map TOKEN t) (parser y))"
    by (rule exec_name_rest) (use ps(3) w(2) h(1) in \<open>auto simp: d c CRLF_def plain_header_def\<close>)
  then have "reaches ?G ?x (\<lambda>y. stage S ?G s_header_value_discard_ws w ?u ?r ?q y \<and> name_inv (map TOKEN (n @ t)) (parser y))"
    using w(2) h(1) by (cases w) (simp add: plain_header_def)
  then have "reaches ?G ?x (stage S ?G s_header_field_start w (act (E_value v) ?u) (lines_text hs b) ?q)"
    unfolding c(1) by (rule reaches_trans) (elim conjE, drule (1) exec_value_line, use V c in simp_all)
  then have "reaches ?G ?x (\<lambda>y. \<exists>w'. stage S ?G s_start_req w'
      (fold act (lines_events hs b @ [E_headers] @ body_events b @ [E_complete (h_method w)]) (act (E_value v) ?u)) [] [] y \<and>
      l_nread y = 0 \<and> (h_type w' = HTTP_REQUEST \<and> h_lenient w' = h_lenient w))"
    by (rule reaches_trans) (drule exec_lines_body, use w h in simp_all)
  from reaches_result [OF this] show ?thesis
    unfolding X using w(6) by (auto simp: awaits_request_def head_of_def)
qed

end

subsection \<open>What is collected\<close>

text \<open>The bytes of a request up to a point within the name of a header.\<close>

definition cut_text :: "request \<Rightarrow> header list \<Rightarrow> string \<Rightarrow> string" where
  "cut_text r hs n = method_string (rq_method r) @ '' '' @ rq_url r @ '' HTTP/1.1'' @ CRLF @ concat (map header_line hs) @ n"

lemma hp_act_no_value: "hp_act (E_field t) (hp_act (E_value []) hp) = hp_act (E_field t) hp"
  by (simp add: handle_header_def Let_def split: HTTP_PARSER_TYPE.split)

lemma hp_act_torn:
  assumes "hp_idle hp" "\<forall>h\<in>set (hs @ (n, []) # (t, v) # ks). fst h \<noteq> []"
  shows "fold hp_act ([E_field t, E_value v] @ lines_events ks (rq_body r) @ [E_headers] @ body_events (rq_body r) @ [E_complete (rq_method r)])
      (fold hp_act ([E_begin, E_url (rq_url r)] @ concat (map header_events hs) @ [E_field n]) hp) =
    collected (r\<lparr>rq_headers := hs @ (n, []) # (t, v) # ks\<rparr>) hp"
  using hp_act_request [OF assms(1), of "r\<lparr>rq_headers := hs @ (n, []) # (t, v) # ks\<rparr>"] assms(2)
  by (simp add: request_events_def lines_events_def header_events_def hp_act_no_value del: hp_act.simps)

text \<open>C33: A name that is cut between two reads becomes two headers. A request whose bytes come in two reads
  with the cut within the name of a header is taken whole, without an error: the object waits after the
  first read, and both reads together end in the state of a call on one buffer, but with the first part
  of the name as a header without a value and the second part as the name of the value. All other headers,
  the URL, the method and the body are what they are without the cut.\<close>
theorem torn_header_name:
  assumes "awaits_request ps" "hp_idle hp" "plain_request r" "length (request_head r) \<le> HTTP_MAX_HEADER_SIZE"
    and "state ps = s_start_req_or_res \<Longrightarrow> rq_method r \<noteq> HTTP_HEAD"
    and "rq_headers r = hs @ (n @ t, v) # ks" "n \<noteq> []" "t \<noteq> []"
  shows "\<exists>b ps1 hp1 ps2. request_text r = cut_text r hs n @ b \<and>
    HttpParser_feedRecvData ps hp (cut_text r hs n) = Some (length (cut_text r hs n), ps1, hp1) \<and> \<not> isComplete hp1 \<and>
    HttpParser_feedRecvData ps1 hp1 b =
      Some (length b, ps2, collected (r\<lparr>rq_headers := hs @ (n, []) # (t, v) # ks\<rparr>) hp) \<and> awaits_request ps2"
proof -
  let ?d = "cut_text r hs n" and ?h = "t @ '': '' @ v @ CRLF @ lines_text ks (rq_body r)"
  let ?w = "with_version (begin_head HTTP_REQUEST (head_of ps)\<lparr>h_method := rq_method r\<rparr>)"
  have R: "rq_method r \<noteq> HTTP_CONNECT" "plain_url (rq_url r)" "plain_body (rq_body r)" "\<forall>h\<in>set (rq_headers r). plain_header h"
    using assms(3) by (simp_all add: plain_request_def)
  have H: "request_head r = ?d @ ?h"
    by (simp add: request_head_def cut_text_def assms(6) lines_text_def header_line_def)
  have P: "plain_header (n @ t, v)" "\<forall>h\<in>set hs. plain_header h" "\<forall>h\<in>set ks. plain_header h" using R(4) assms(6) by simp_all
  have N: "\<forall>c\<in>set n. TOKEN c \<noteq> NUL" "\<not> prefix ''transfer-encoding'' (map TOKEN n)"
    using P(1) by (auto simp: plain_header_def prefix_def)
  have L: "HTTP_MAX_HEADER_SIZE < 2 ^ 32" by (simp add: HTTP_MAX_HEADER_SIZE_def)
  have "length ?d \<le> HTTP_MAX_HEADER_SIZE" using assms(4) H by simp
  from hp.cut_run [OF assms(1) L this cut_text_def R(1,2) P(2) assms(5,7) N, of hp]
  obtain y where y: "http_parser_execute HttpParser_cbs HTTP_MAX_HEADER_SIZE ps hp ?d = Some (Ret (length ?d) y)"
    "http_errno (parser y) = HPE_OK" "state (parser y) = s_header_field" "nread (parser y) \<le> length ?d"
    "name_inv (map TOKEN n) (parser y)" "head_of (parser y) = ?w"
    "udata y = fold hp_act ([E_begin, E_url (rq_url r)] @ concat (map header_events hs) @ [E_field n]) hp" by blast
  have W: "h_flags ?w = 0" "\<not> h_te ?w" "framed ?w" "h_type ?w = HTTP_REQUEST" "h_length ?w = ULLONG_MAX" "\<not> h_lenient ?w"
    "h_method ?w = rq_method r"
    using assms(1) R by (auto simp: with_version_def begin_head_def framed_def awaits_request_def head_of_def)
  have "nread (parser y) + length ?h \<le> HTTP_MAX_HEADER_SIZE" using assms(4) H y(4) by simp
  from hp.resume_run [OF y(2,3,5,6) W(1-6) L this P(1,3) R(3) assms(7,8) refl, of "udata y"]
  obtain z where z: "http_parser_execute HttpParser_cbs HTTP_MAX_HEADER_SIZE (parser y) (udata y) (?h @ body_text (rq_body r)) =
      Some (Ret (length (?h @ body_text (rq_body r))) z)" "awaits_request (parser z)"
    "udata z = fold hp_act ([E_field t, E_value v] @ lines_events ks (rq_body r) @ [E_headers] @ body_events (rq_body r) @
      [E_complete (h_method ?w)]) (udata y)"
    by blast
  have "\<forall>h\<in>set (hs @ (n, []) # (t, v) # ks). fst h \<noteq> []" using P(2,3) assms(7,8) by (auto simp: plain_header_def)
  from hp_act_torn [OF assms(2) this, of r] have C: "udata z = collected (r\<lparr>rq_headers := hs @ (n, []) # (t, v) # ks\<rparr>) hp"
    unfolding z(3) y(7) W(7) .
  have "\<not> isComplete (udata y)" unfolding y(7) by (simp add: isComplete_def Let_def)
  then show ?thesis
    using y(1) z(1,2) C H
    by (intro exI [of _ "?h @ body_text (rq_body r)"] exI [of _ "parser y"] exI [of _ "udata y"] exI [of _ "parser z"])
      (simp add: HttpParser_feedRecvData_def request_text_def)
qed

theorem torn_header_name_witness:
  "\<exists>b ps1 hp1 ps2. request_text (sample_request HTTP_GET None) = cut_text (sample_request HTTP_GET None) [] ''Ho'' @ b \<and>
    HttpParser_feedRecvData (http_parser_init HTTP_BOTH) (HttpParser_new HTTP_PARSER_REQUEST sample_memory) (cut_text (sample_request HTTP_GET None) [] ''Ho'') =
      Some (length (cut_text (sample_request HTTP_GET None) [] ''Ho''), ps1, hp1) \<and> \<not> isComplete hp1 \<and>
    HttpParser_feedRecvData ps1 hp1 b = Some (length b, ps2,
      collected (sample_request HTTP_GET None\<lparr>rq_headers := [] @ (''Ho'', []) # (''st'', ''b'') # []\<rparr>)
        (HttpParser_new HTTP_PARSER_REQUEST sample_memory)) \<and> awaits_request ps2"
proof (rule torn_header_name)
  show "plain_request (sample_request HTTP_GET None)" "length (request_head (sample_request HTTP_GET None)) \<le> HTTP_MAX_HEADER_SIZE"
    using sample_plain [of HTTP_GET None] by (simp_all add: HTTP_MAX_HEADER_SIZE_def)
qed (simp_all add: awaits_init hp_idle_def hp_clear_def HttpParser_new_def sample_request_def)

end
