(* ===== verification/WsWire.thy ===== *)
theory WsWire
  imports WsParser
begin

section \<open>Every stream of bytes is parsed as the protocol says\<close>

text \<open>
  Frames as RFC 6455 lays them out, with any flags, any opcode and any of the three forms of the length,
  and what \<open>feedRecvData\<close> makes of an arbitrary stream of bytes: it is cut at the ends of the frames, and
  every frame is delivered.
\<close>

subsection \<open>Frames on the wire\<close>

text \<open>A number in network byte order.\<close>

definition be_val :: "byte list \<Rightarrow> nat" where
  "be_val bs = foldl (\<lambda>n b. 256 * n + unat b) 0 bs"

text \<open>The two bytes of the header, the bytes of a long length, the key of a masked frame, the payload.\<close>

record wire_frame =
  wf_first :: byte
  wf_second :: byte
  wf_length :: "byte list"
  wf_key :: "byte list"
  wf_payload :: "byte list"

definition wire_ok :: "wire_frame \<Rightarrow> bool" where
  "wire_ok f \<longleftrightarrow> length (wf_key f) = (if bit (wf_second f) 7 then 4 else 0) \<and>
     (let n = wf_second f AND 0x7F
      in if n < 126 then wf_length f = [] \<and> length (wf_payload f) = unat n
         else length (wf_length f) = (if n = 126 then 2 else 8) \<and> length (wf_payload f) = be_val (wf_length f))"

definition wire_bytes :: "wire_frame \<Rightarrow> byte list" where
  "wire_bytes f = wf_first f # wf_second f # wf_length f @ wf_key f @
     (if bit (wf_second f) 7 then xor_mask (wf_key f) (wf_payload f) else wf_payload f)"

definition wire_message :: "wire_frame \<Rightarrow> byte \<times> byte list" where
  "wire_message f = (wf_first f AND 0x0F, wf_payload f)"

text \<open>A frame whose length is so large that its end is past the last address.\<close>

definition announces_too_much :: "byte list \<Rightarrow> bool" where
  "announces_too_much buf \<longleftrightarrow> 10 \<le> length buf \<and> buf ! 1 AND 0x7F = 127 \<and> 2 ^ 64 - 14 \<le> be_val (take 8 (drop 2 buf))"

lemma le_val_rev: "le_val (rev bs) = be_val bs"
proof -
  have A: "le_val (xs @ [b]) = le_val xs + 256 ^ length xs * unat b" for xs b
    by (induction xs) (simp_all add: algebra_simps)
  have "foldl (\<lambda>n b. 256 * n + unat b) n bs = n * 256 ^ length bs + le_val (rev bs)" for n
    by (induction bs arbitrary: n) (simp_all add: A algebra_simps)
  from this [of 0] show ?thesis by (simp add: be_val_def)
qed

lemma ntoh_val: "even (length bs) \<Longrightarrow> le_val (ws_ntoh bs) = be_val bs"
  by (simp add: ws_ntoh_def le_val_rev)

text \<open>What the code reads of the length field, in these terms.\<close>

lemma payload_field_cases:
  assumes "2 \<le> length buf" "payload_field buf = Some (off, len)"
  obtains (short) "buf ! 1 AND 0x7F < 126" "off = 2" "len = unat (buf ! 1 AND 0x7F)"
    | (medium) "buf ! 1 AND 0x7F = 126" "off = 4" "len = be_val (take 2 (drop 2 buf))" "4 \<le> length buf"
    | (long) "\<not> buf ! 1 AND 0x7F < 126" "buf ! 1 AND 0x7F \<noteq> 126" "off = 10" "len = be_val (take 8 (drop 2 buf))" "10 \<le> length buf"
  using assms by (auto simp: payload_field_def ws_frame_header_def Let_def ntoh_val split: if_splits)

lemma second_byte_long: "\<not> (b :: byte) AND 0x7F < 126 \<Longrightarrow> b AND 0x7F \<noteq> 126 \<Longrightarrow> b AND 0x7F = 127"
proof -
  assume a: "\<not> b AND 0x7F < 126" "b AND 0x7F \<noteq> 126"
  have "unat (b AND 0x7F) < 128"
    using and_mask_less' [of 7 b] by (simp add: mask_eq_exp_minus_1 word_less_nat_alt)
  moreover have "126 \<le> unat (b AND 0x7F)" "unat (b AND 0x7F) \<noteq> 126"
    using a by (simp_all add: word_less_nat_alt word_unat_eq_iff)
  ultimately have "unat (b AND 0x7F) = 127" by linarith
  then show ?thesis by (simp add: word_unat_eq_iff)
qed

subsection \<open>One frame\<close>

text \<open>What is delivered is a frame.\<close>

lemma complete_wire:
  assumes "next_frame buf = Complete opcode msg n" "length buf < 2 ^ 63"
  shows "\<exists>f. wire_ok f \<and> buf = wire_bytes f @ drop n buf \<and> wire_message f = (opcode, msg)"
proof -
  obtain off len where len: "2 \<le> length buf" and pf: "payload_field buf = Some (off, len)"
    using next_frame_parts [of buf] assms(1) by auto
  have sum: "off + 4 + len < 2 ^ 64"
    using next_frame_wraps [OF len pf _ assms(2)] assms(1) by (cases "off + 4 + len < 2 ^ 64") (auto split: if_splits)
  let ?k = "mask_len buf" and ?masked = "bit (buf ! 1) 7"
  let ?data = "take len (drop (off + ?k) buf)" and ?key = "take ?k (drop off buf)"
  have k: "?k = (if ?masked then 4 else 0)" by (simp add: mask_len_def ws_frame_header_def)
  have c: "off + ?k + len \<le> length buf" "n = off + ?k + len" "opcode = buf ! 0 AND 0x0F"
    "msg = (if ?masked then xor_mask ?key ?data else ?data)"
    using assms(1) k unfolding next_frame_exact [OF len pf sum] by (auto simp: ws_frame_header_def Let_def split: if_splits)
  let ?f = "\<lparr>wf_first = buf ! 0, wf_second = buf ! 1, wf_length = take (off - 2) (drop 2 buf), wf_key = ?key, wf_payload = msg\<rparr>"
  have off: "2 \<le> off" "off \<le> length buf" using payload_field_offset [OF len pf] by simp_all
  have M: "length msg = len" using c(1,4) by simp
  have "wire_ok ?f"
    using len pf
  proof (cases rule: payload_field_cases)
    case long
    then show ?thesis using second_byte_long k c(1) M by (simp add: wire_ok_def Let_def)
  qed (use k c(1) M in \<open>simp_all add: wire_ok_def Let_def\<close>)
  moreover have "buf = wire_bytes ?f @ drop n buf"
  proof -
    have "buf = [buf ! 0, buf ! 1] @ drop 2 buf" using len by (cases buf; cases "tl buf") simp_all
    also have "drop 2 buf = take (off - 2) (drop 2 buf) @ drop off buf"
      using off by (metis append_take_drop_id drop_drop le_add_diff_inverse2)
    also have "drop off buf = ?key @ ?data @ drop n buf"
      using c(2) by (metis append_take_drop_id drop_drop add.commute)
    finally show ?thesis using c(4) by (simp add: wire_bytes_def)
  qed
  moreover have "wire_message ?f = (opcode, msg)" using c(3) by (simp add: wire_message_def)
  ultimately show ?thesis by blast
qed

text \<open>A frame at the front is delivered.\<close>

lemma wire_complete:
  assumes "wire_ok f" "length (wire_bytes f) < 2 ^ 63"
  shows "next_frame (wire_bytes f @ rest) = Complete (fst (wire_message f)) (snd (wire_message f)) (length (wire_bytes f))"
proof -
  let ?h = "wf_first f # wf_second f # wf_length f"
  let ?body = "if bit (wf_second f) 7 then xor_mask (wf_key f) (wf_payload f) else wf_payload f"
  have B: "length ?body = length (wf_payload f)" by simp
  have W: "wire_bytes f = ?h @ wf_key f @ ?body" by (simp add: wire_bytes_def)
  have H: "ws_frame_header ?h = \<lparr>fh_opcode = wf_first f AND 0x0F, fh_reserved = drop_bit 4 (wf_first f) AND 0x07,
      fh_fin = bit (wf_first f) 7, fh_payload_len = wf_second f AND 0x7F, fh_mask = bit (wf_second f) 7\<rparr>"
    by (simp add: ws_frame_header_def)
  have T: "take (length (wf_length f)) (wf_length f @ r) = wf_length f" for r by simp
  have P: "payload_field (?h @ wf_key f @ ?body @ rest) = Some (length ?h, length ?body)"
    unfolding B using assms(1) T [of "wf_key f @ ?body @ rest"]
    by (auto simp: payload_field_def ws_frame_header_def wire_ok_def Let_def ntoh_val split: if_splits)
  have "length ?h + 4 + length ?body < 2 ^ 64" using assms(2) by (simp add: wire_bytes_def)
  from next_frame_of_parts [OF P _ this] assms(1) H show ?thesis
    by (auto simp: W wire_message_def wire_ok_def split: if_splits)
qed

text \<open>Past the buffer the code goes only for a frame that announces too much.\<close>

lemma overrun_announces:
  assumes "next_frame buf = Overrun" "length buf < 2 ^ 63"
  shows "announces_too_much buf"
proof -
  obtain off len where len: "2 \<le> length buf" and pf: "payload_field buf = Some (off, len)"
    using next_frame_parts [of buf] assms(1) by auto
  have sum: "2 ^ 64 \<le> off + 4 + len"
    using next_frame_exact [OF len pf] assms(1) by (cases "off + 4 + len < 2 ^ 64") (auto simp: Let_def split: if_splits)
  show ?thesis
    using len pf
  proof (cases rule: payload_field_cases)
    case short
    have "len < 256" unfolding short(3) by (rule unat_byte_less)
    then show ?thesis using sum short(2) by simp
  next
    case medium
    have "length (take 2 (drop 2 buf)) = 2" using medium by simp
    then have "len < 256 ^ 2" using le_val_bound [of "rev (take 2 (drop 2 buf))"] medium by (simp add: le_val_rev)
    then show ?thesis using sum medium by simp
  next
    case long
    then show ?thesis using sum second_byte_long by (simp add: announces_too_much_def)
  qed
qed

subsection \<open>Streams\<close>

lemma feed_loop_any:
  assumes "length buf < 2 ^ 63"
  shows "\<exists>fs rest. buf = concat (map wire_bytes fs) @ rest \<and> list_all wire_ok fs \<and>
    (feed_loop True buf out = Some (Inr (out @ map wire_message fs, rest)) \<and> (\<forall>f r. wire_ok f \<longrightarrow> rest \<noteq> wire_bytes f @ r) \<or>
     feed_loop True buf out = Some (Inl Buffer_overrun) \<and> announces_too_much rest)"
  using assms
proof (induction "length buf" arbitrary: buf out rule: less_induct)
  case less
  show ?case
  proof (cases "next_frame buf")
    case Need_more
    have "\<not> (wire_ok f \<and> buf = wire_bytes f @ r)" for f r
      using wire_complete [of f r] less.prems Need_more by auto
    then show ?thesis
      using Need_more by (intro exI [of _ "[]"] exI [of _ buf]) (simp add: feed_loop_stop)
  next
    case Overrun
    then show ?thesis
      using overrun_announces less.prems by (intro exI [of _ "[]"] exI [of _ buf]) (simp add: feed_loop_overrun)
  next
    case (Complete opcode msg n)
    then have n: "2 \<le> n \<and> n \<le> length buf" using next_frame_length less.prems by blast
    obtain f where f: "wire_ok f" "buf = wire_bytes f @ drop n buf" "wire_message f = (opcode, msg)"
      using complete_wire [OF Complete] less.prems by blast
    have "length (drop n buf) < length buf" "length (drop n buf) < 2 ^ 63" using n less.prems by auto
    from less.hyps [OF this, of "out @ [(opcode, msg)]"] obtain fs rest where fs:
      "drop n buf = concat (map wire_bytes fs) @ rest" "list_all wire_ok fs"
      "feed_loop True (drop n buf) (out @ [(opcode, msg)]) = Some (Inr ((out @ [(opcode, msg)]) @ map wire_message fs, rest)) \<and>
          (\<forall>f r. wire_ok f \<longrightarrow> rest \<noteq> wire_bytes f @ r) \<or>
       feed_loop True (drop n buf) (out @ [(opcode, msg)]) = Some (Inl Buffer_overrun) \<and> announces_too_much rest"
      by blast
    have "buf = concat (map wire_bytes (f # fs)) @ rest" using f(2) fs(1) by simp
    then show ?thesis
      using f fs(2,3) unfolding feed_loop_step [OF Complete]
      by (intro exI [of _ "f # fs"] exI [of _ rest]) auto
  qed
qed

text \<open>C39: The receive function returns, and parses every stream of bytes. Whatever has been buffered and
  arrives, with a callback set and below half of the address space: the bytes are a sequence of frames of
  the protocol, with any flags, opcodes, masks and forms of length, and a rest. The function returns with
  exactly the opcodes and unmasked payloads of these frames delivered, in order, and keeps the rest, which
  does not begin with a whole frame. The only exception is a rest that begins with a frame whose 64-bit
  length is within 14 of the largest number: there the code may go past its buffer.\<close>

theorem ws_feed_returns:
  assumes "length m_buffer + length data < 2 ^ 63"
  shows "\<exists>fs rest. m_buffer @ data = concat (map wire_bytes fs) @ rest \<and> list_all wire_ok fs \<and>
    (ws_feedRecvData True m_buffer data = Some (Inr (map wire_message fs, rest)) \<and> (\<forall>f r. wire_ok f \<longrightarrow> rest \<noteq> wire_bytes f @ r) \<or>
     ws_feedRecvData True m_buffer data = Some (Inl Buffer_overrun) \<and> announces_too_much rest)"
  using feed_loop_any [of "m_buffer @ data" "[]"] assms by (simp add: ws_feedRecvData_def)

text \<open>A whole frame and the first byte of another.\<close>

lemma ws_feed_returns_witness:
  "\<exists>fs rest. [0x81, 0x01] @ [65, 0x82] = concat (map wire_bytes fs) @ rest \<and> list_all wire_ok fs \<and>
    (ws_feedRecvData True [0x81, 0x01] [65, 0x82] = Some (Inr (map wire_message fs, rest)) \<and> (\<forall>f r. wire_ok f \<longrightarrow> rest \<noteq> wire_bytes f @ r) \<or>
     ws_feedRecvData True [0x81, 0x01] [65, 0x82] = Some (Inl Buffer_overrun) \<and> announces_too_much rest)"
  by (rule ws_feed_returns) simp

end
