(* ===== verification/WsClient.thy ===== *)
theory WsClient
  imports HttpFetch WsServing
begin

section \<open>The WebSocket client: src/http/WebSocketClient.cpp\<close>

text \<open>
  The client as a state machine over its channel. An operation returns the client with what it did to
  the outside: connecting and closing the channel, sending, arming and deleting the ping timer, and the
  calls of the user's functions (a function that is not set does nothing). The channel calls back when it
  is connected, has read bytes or is closed; closing it calls \<open>onclose\<close> at once, once. A send that fails
  closes the channel too (\<open>io_write\<close>), so whether it succeeds is an argument, like the random bytes and
  what \<open>malloc\<close> left in a new object. Two things are simpler than in the program: the user's functions do
  not call back into the client, and \<open>del_timer\<close> takes the ping timer (the theory \<open>Timers\<close> shows that the
  loop takes the timer that is due first).
\<close>

subsection \<open>States\<close>

datatype ws_state = WS_STATE_CONNECTING | WS_STATE_CONNECTED | WS_STATE_UPGRADING | WS_STATE_OPENED | WS_STATE_CLOSED

primrec ws_state_code :: "ws_state \<Rightarrow> nat" where
  "ws_state_code WS_STATE_CONNECTING = 0"
| "ws_state_code WS_STATE_CONNECTED = 1"
| "ws_state_code WS_STATE_UPGRADING = 2"
| "ws_state_code WS_STATE_OPENED = 3"
| "ws_state_code WS_STATE_CLOSED = 4"

text \<open>The states in the order of the enumeration.\<close>

instantiation ws_state :: linorder
begin

definition less_eq_ws_state :: "ws_state \<Rightarrow> ws_state \<Rightarrow> bool" where
  "less_eq_ws_state s t \<longleftrightarrow> ws_state_code s \<le> ws_state_code t"

definition less_ws_state :: "ws_state \<Rightarrow> ws_state \<Rightarrow> bool" where
  "less_ws_state s t \<longleftrightarrow> ws_state_code s < ws_state_code t"

instance
proof
  show "s = t" if "s \<le> t" "t \<le> s" for s t :: ws_state
    using that by (cases s; cases t) (simp_all add: less_eq_ws_state_def)
qed (auto simp: less_eq_ws_state_def less_ws_state_def)

end

datatype client_action = Wc_connect string int bool | Wc_send string | Wc_close | Wc_add_timer int | Wc_del_timer
  | Wc_close_after int | Wc_onopen | Wc_onmessage "byte list" | Wc_onclose

datatype ws_client_fault = No_loop | Url_fault client_fault | Http_fault | Frame_fault ws_fault

record WebSocketClient =
  wc_state :: ws_state
  wc_loop_thread :: bool
  wc_channel :: bool
  wc_handlers :: bool
  wc_ps :: http_parser
  wc_httpParser :: HttpParser
  wc_httpRequest :: HttpRequest
  wc_wsBuffer :: "byte list"
  wc_onMessage :: bool
  wc_pingInterVal :: int
  wc_pingTimer :: bool
  wc_actions :: "client_action list"

definition did :: "client_action list \<Rightarrow> WebSocketClient \<Rightarrow> WebSocketClient" where
  "did as c = c\<lparr>wc_actions := wc_actions c @ as\<rparr>"

subsection \<open>Operations\<close>

text \<open>\<open>std::to_string\<close>.\<close>

definition to_string :: "int \<Rightarrow> string" where
  "to_string i = (if i < 0 then CHR ''-'' # dec (nat (- i)) else dec (nat i))"

definition upgrade_headers :: "byte list \<Rightarrow> header list \<Rightarrow> header list" where
  "upgrade_headers rand_key m =
     map_put ''Sec-WebSocket-Version'' ''13'' (map_put ''Sec-WebSocket-Key'' (base64_encode rand_key)
       (map_put ''Upgrade'' ''websocket'' (map_put ''Connection'' ''Upgrade'' m)))"

definition upgrade_text :: "HttpRequest \<Rightarrow> string" where
  "upgrade_text q =
     ''GET /'' @ u_path (req_u q) @ '' HTTP/1.1'' @ CRLF @
     ''Host: '' @ u_host (req_u q) @ (if u_port (req_u q) \<noteq> 80 then CHR '':'' # to_string (u_port (req_u q)) else []) @ CRLF @
     concat (map (\<lambda>it. fst it @ '': '' @ snd it @ CRLF) (req_headers q)) @ CRLF"

definition ws_onclose :: "WebSocketClient \<Rightarrow> WebSocketClient" where
  "ws_onclose c =
     (let c = c\<lparr>wc_state := WS_STATE_CLOSED\<rparr>;
          c = (if wc_pingTimer c then (did [Wc_del_timer] c)\<lparr>wc_pingTimer := False\<rparr> else c)
      in did [Wc_onclose] c)"

text \<open>Closing the channel: \<open>io_close\<close> calls back the first time only, and only when \<open>onclose\<close> has been set.\<close>

definition channel_close :: "WebSocketClient \<Rightarrow> WebSocketClient" where
  "channel_close c =
     (if wc_channel c then
        (let c = did [Wc_close] (c\<lparr>wc_channel := False\<rparr>) in if wc_handlers c then ws_onclose c else c)
      else c)"

definition channel_sendData :: "bool \<Rightarrow> string \<Rightarrow> WebSocketClient \<Rightarrow> WebSocketClient" where
  "channel_sendData ok s c = (if \<not> wc_channel c then c else if ok then did [Wc_send s] c else channel_close c)"

definition ws_sendHttpRequest :: "HttpParser \<Rightarrow> byte list \<Rightarrow> bool \<Rightarrow> WebSocketClient \<Rightarrow> WebSocketClient" where
  "ws_sendHttpRequest mem rand_key ok c =
     (let q = (wc_httpRequest c)\<lparr>req_headers := upgrade_headers rand_key (req_headers (wc_httpRequest c))\<rparr>;
          c = c\<lparr>wc_httpRequest := q, wc_ps := http_parser_init HTTP_BOTH,
            wc_httpParser := (HttpParser_new HTTP_PARSER_RESPONSE mem)\<lparr>hp_resp := HttpResponse_new (hp_resp mem)\<rparr>,
            wc_wsBuffer := [], wc_onMessage := False\<rparr>
      in (channel_sendData ok (upgrade_text q) c)\<lparr>wc_state := WS_STATE_UPGRADING\<rparr>)"

definition ws_onconnect :: "HttpParser \<Rightarrow> byte list \<Rightarrow> bool \<Rightarrow> WebSocketClient \<Rightarrow> WebSocketClient" where
  "ws_onconnect mem rand_key ok c = ws_sendHttpRequest mem rand_key ok (c\<lparr>wc_state := WS_STATE_CONNECTED\<rparr>)"

text \<open>\<open>get_io\<close> may fail. The functions of the channel are set last, so a scheme that is not known leaves a
  channel without them.\<close>

definition ws_open :: "HttpRequest \<Rightarrow> bool \<Rightarrow> string \<Rightarrow> WebSocketClient \<Rightarrow> ws_client_fault + int \<times> WebSocketClient" where
  "ws_open mem got_io url c =
     (if wc_state c \<noteq> WS_STATE_CLOSED then Inr (-1, c)
      else let c = c\<lparr>wc_loop_thread := True\<rparr> in
        case HttpRequest_parseUrl ((HttpRequest_new mem)\<lparr>req_url := c_str url\<rparr>) of
          Inl e \<Rightarrow> Inl (Url_fault e)
        | Inr r \<Rightarrow>
            let q = snd r; c = c\<lparr>wc_httpRequest := q\<rparr> in
            if \<not> got_io then Inr (-1, c)
            else let c = c\<lparr>wc_channel := True, wc_handlers := False\<rparr> in
            if strcaseeq (u_scheme (req_u q)) ''ws'' \<or> strcaseeq (u_scheme (req_u q)) ''wss'' then
              Inr (0, did [Wc_connect (u_host (req_u q)) (u_port (req_u q)) (strcaseeq (u_scheme (req_u q)) ''wss'')]
                (c\<lparr>wc_handlers := True, wc_state := WS_STATE_CONNECTING\<rparr>))
            else Inr (-1, c))"

text \<open>The end of the handshake.\<close>

definition ws_opened :: "WebSocketClient \<Rightarrow> WebSocketClient" where
  "ws_opened c =
     (let c = (did [Wc_onopen] (c\<lparr>wc_state := WS_STATE_OPENED\<rparr>))\<lparr>wc_onMessage := True\<rparr>
      in if wc_pingInterVal c > 0 then (did [Wc_add_timer (wc_pingInterVal c)] c)\<lparr>wc_pingTimer := True\<rparr> else c)"

definition ws_handshake :: "WebSocketClient \<Rightarrow> WebSocketClient" where
  "ws_handshake c =
     (let resp = hp_resp (wc_httpParser c)
      in if resp_status_code resp \<noteq> 101 then channel_close c
         else if map_of (resp_headers resp) ''Sec-WebSocket-Accept'' = None then channel_close c
         else ws_opened c)"

definition feed_opened :: "string \<Rightarrow> WebSocketClient \<Rightarrow> ws_client_fault + WebSocketClient" where
  "feed_opened d c =
     (if wc_state c = WS_STATE_OPENED \<and> d \<noteq> [] then
        (case ws_feedRecvData (wc_onMessage c) (wc_wsBuffer c) (bytes_of d) of
           Some (Inr (msgs, rest)) \<Rightarrow> Inr (did (map (\<lambda>m. Wc_onmessage (snd m)) msgs) (c\<lparr>wc_wsBuffer := rest\<rparr>))
         | _ \<Rightarrow> Inl (Frame_fault Buffer_overrun))
      else Inr c)"

text \<open>The bytes that the parser did not take go to the frames, unless the channel was closed.\<close>

definition ws_onread :: "string \<Rightarrow> WebSocketClient \<Rightarrow> ws_client_fault + WebSocketClient" where
  "ws_onread d c =
     (if wc_state c = WS_STATE_UPGRADING then
        (case HttpParser_feedRecvData (wc_ps c) (wc_httpParser c) d of
           None \<Rightarrow> Inl Http_fault
         | Some (nparse, ps, hp) \<Rightarrow>
             let c = c\<lparr>wc_ps := ps, wc_httpParser := hp\<rparr>
             in if nparse \<noteq> length d \<and> http_errno ps \<noteq> HPE_OK then Inr (channel_close c)
                else if isComplete hp then
                  (let c' = ws_handshake c
                   in if wc_state c' = WS_STATE_OPENED then feed_opened (drop nparse d) c' else Inr c')
                else feed_opened (drop nparse d) c)
      else feed_opened d c)"

definition ws_client_send :: "bool \<Rightarrow> byte list \<Rightarrow> byte list \<Rightarrow> ws_opcode \<Rightarrow> WebSocketClient \<Rightarrow> ws_client_fault + WebSocketClient" where
  "ws_client_send ok key msg opcode c =
     (if wc_state c \<noteq> WS_STATE_OPENED then Inr c
      else case buildFrame msg opcode key of
             Inl e \<Rightarrow> Inl (Frame_fault e)
           | Inr None \<Rightarrow> Inr c
           | Inr (Some frame) \<Rightarrow> Inr (channel_sendData ok (text_of frame) c))"

definition isConnected :: "WebSocketClient \<Rightarrow> bool" where
  "isConnected c \<longleftrightarrow> wc_state c = WS_STATE_OPENED"

definition ws_ping :: "bool \<Rightarrow> byte list \<Rightarrow> WebSocketClient \<Rightarrow> ws_client_fault + WebSocketClient" where
  "ws_ping ok key c = (if isConnected c then ws_client_send ok key [] WS_OPCODE_PING c else Inr c)"

definition ws_client_close :: "WebSocketClient \<Rightarrow> WebSocketClient" where
  "ws_client_close c = (channel_close c)\<lparr>wc_state := WS_STATE_CLOSED\<rparr>"

text \<open>The timer of \<open>closeAfterTime\<close> calls \<open>close\<close>, whatever has happened to the connection by then.\<close>

definition closeAfterTime :: "int \<Rightarrow> WebSocketClient \<Rightarrow> ws_client_fault + WebSocketClient" where
  "closeAfterTime time_ms c =
     (if time_ms \<le> 0 then Inr c else if \<not> wc_loop_thread c then Inl No_loop else Inr (did [Wc_close_after time_ms] c))"

definition WebSocketClient_new :: "WebSocketClient \<Rightarrow> WebSocketClient" where
  "WebSocketClient_new mem = mem\<lparr>wc_loop_thread := False, wc_channel := False, wc_handlers := False, wc_state := WS_STATE_CLOSED,
     wc_pingInterVal := 0, wc_pingTimer := False, wc_actions := []\<rparr>"

definition WebSocketClient_delete :: "WebSocketClient \<Rightarrow> WebSocketClient" where
  "WebSocketClient_delete c = (channel_close c)\<lparr>wc_loop_thread := False\<rparr>"

subsection \<open>Runs\<close>

text \<open>
  What can happen to a client: the user opens, sends, closes (now or by a timer) and sets the ping
  interval; the channel of a connecting client is connected; an open channel delivers bytes or is closed;
  the ping timer fires.
\<close>

inductive client_step :: "WebSocketClient \<Rightarrow> WebSocketClient \<Rightarrow> bool" where
  opens: "ws_open mem got_io url c = Inr (r, c') \<Longrightarrow> client_step c c'"
| connects: "wc_channel c \<Longrightarrow> wc_state c = WS_STATE_CONNECTING \<Longrightarrow> length rand_key = 16 \<Longrightarrow>
    client_step c (ws_onconnect mem rand_key ok c)"
| reads: "wc_channel c \<Longrightarrow> WS_STATE_CONNECTED \<le> wc_state c \<Longrightarrow> wc_state c < WS_STATE_CLOSED \<Longrightarrow> d \<noteq> [] \<Longrightarrow> ws_onread d c = Inr c' \<Longrightarrow>
    client_step c c'"
| channel_closes: "wc_handlers c \<Longrightarrow> client_step c (channel_close c)"
| sends: "length key = 4 \<Longrightarrow> ws_client_send ok key msg opcode c = Inr c' \<Longrightarrow> client_step c c'"
| pings: "wc_pingTimer c \<Longrightarrow> length key = 4 \<Longrightarrow> ws_ping ok key c = Inr c' \<Longrightarrow> client_step c c'"
| closes: "client_step c (ws_client_close c)"
| closes_later: "closeAfterTime time_ms c = Inr c' \<Longrightarrow> client_step c c'"
| sets_ping: "client_step c (c\<lparr>wc_pingInterVal := i\<rparr>)"

inductive client_run :: "WebSocketClient \<Rightarrow> bool" where
  new: "client_run (WebSocketClient_new mem)"
| step: "client_run c \<Longrightarrow> client_step c c' \<Longrightarrow> client_run c'"

text \<open>
  The protocol between the client, its channel and its user: a session connects, asks for the upgrade,
  calls \<open>onopen\<close> when the server agrees, and then only sends and delivers; it ends with \<open>onclose\<close>, before
  which the ping timer is gone.
\<close>

datatype phase = Idle | Waiting | Asking | Talking | Closing

fun follow :: "phase \<times> bool \<Rightarrow> client_action \<Rightarrow> (phase \<times> bool) option" where
  "follow (Idle, t) (Wc_connect host port ssl) = Some (Waiting, t)"
| "follow (Waiting, t) (Wc_send s) = Some (Asking, t)"
| "follow (Asking, t) Wc_onopen = Some (Talking, t)"
| "follow (Talking, t) (Wc_send s) = Some (Talking, t)"
| "follow (Talking, t) (Wc_onmessage m) = Some (Talking, t)"
| "follow (Talking, False) (Wc_add_timer i) = Some (Talking, True)"
| "follow (Closing, True) Wc_del_timer = Some (Closing, False)"
| "follow (Closing, False) Wc_onclose = Some (Idle, False)"
| "follow (p, t) (Wc_close_after i) = (if p = Closing then None else Some (p, t))"
| "follow (p, t) Wc_close = (if p = Closing then None else if p = Idle then Some (Idle, t) else Some (Closing, t))"
| "follow _ _ = None"

fun follow_all :: "phase \<times> bool \<Rightarrow> client_action list \<Rightarrow> (phase \<times> bool) option" where
  "follow_all p [] = Some p"
| "follow_all p (a # as) = (case follow p a of None \<Rightarrow> None | Some p \<Rightarrow> follow_all p as)"

primrec phase_of :: "ws_state \<Rightarrow> phase" where
  "phase_of WS_STATE_CONNECTING = Waiting"
| "phase_of WS_STATE_CONNECTED = Waiting"
| "phase_of WS_STATE_UPGRADING = Asking"
| "phase_of WS_STATE_OPENED = Talking"
| "phase_of WS_STATE_CLOSED = Idle"

lemma follow_all_append: "follow_all p (as @ bs) = (case follow_all p as of None \<Rightarrow> None | Some p \<Rightarrow> follow_all p bs)"
  by (induction as arbitrary: p) (simp_all split: option.split)

lemma follow_messages: "follow_all (Talking, t) (map (\<lambda>m. Wc_onmessage (snd m)) msgs) = Some (Talking, t)"
  by (induction msgs) simp_all

text \<open>
  The invariant: the client keeps to the protocol, and its state is the phase, unless the handshake could
  not be sent (then it is \<open>WS_STATE_UPGRADING\<close> with no channel). It has a channel with its functions when
  it is not closed, and a timer only while it is open.
\<close>

definition stuck :: "WebSocketClient \<Rightarrow> bool" where
  "stuck c \<longleftrightarrow> wc_state c = WS_STATE_UPGRADING \<and> \<not> wc_channel c"

definition client_inv :: "WebSocketClient \<Rightarrow> bool" where
  "client_inv c \<longleftrightarrow>
     follow_all (Idle, False) (wc_actions c) = Some (if stuck c then Idle else phase_of (wc_state c), wc_pingTimer c) \<and>
     (if wc_state c = WS_STATE_CLOSED then wc_channel c \<longrightarrow> \<not> wc_handlers c else wc_handlers c \<and> (wc_channel c \<or> stuck c)) \<and>
     (wc_pingTimer c \<longrightarrow> wc_state c = WS_STATE_OPENED) \<and> (wc_state c = WS_STATE_OPENED \<longrightarrow> wc_onMessage c)"

lemma did_simps [simp]:
  "wc_state (did as c) = wc_state c" "wc_handlers (did as c) = wc_handlers c" "wc_loop_thread (did as c) = wc_loop_thread c" "wc_channel (did as c) = wc_channel c" "wc_pingTimer (did as c) = wc_pingTimer c"
  "wc_actions (did as c) = wc_actions c @ as" "wc_onMessage (did as c) = wc_onMessage c" "wc_httpParser (did as c) = wc_httpParser c"
  "wc_wsBuffer (did as c) = wc_wsBuffer c" "wc_pingInterVal (did as c) = wc_pingInterVal c"
  "wc_httpRequest (did as c) = wc_httpRequest c" "wc_ps (did as c) = wc_ps c"
  by (simp_all add: did_def)

lemma client_inv_channel_close: "client_inv c \<Longrightarrow> client_inv (channel_close c)"
  by (cases "wc_state c"; cases "wc_pingTimer c")
    (simp_all add: client_inv_def stuck_def channel_close_def ws_onclose_def Let_def follow_all_append)

lemma channel_close_closed: "client_inv c \<Longrightarrow> wc_state c \<noteq> WS_STATE_CLOSED \<Longrightarrow> wc_channel c \<Longrightarrow> wc_state (channel_close c) = WS_STATE_CLOSED"
  by (auto simp: client_inv_def channel_close_def ws_onclose_def Let_def)

lemma client_inv_close: "client_inv c \<Longrightarrow> client_inv (ws_client_close c)"
proof (cases "stuck c")
  case True
  moreover assume "client_inv c"
  ultimately show ?thesis by (simp add: client_inv_def ws_client_close_def channel_close_def stuck_def)
next
  case False
  moreover assume c: "client_inv c"
  ultimately have "ws_client_close c = channel_close c"
    by (cases "wc_channel c"; cases "wc_state c = WS_STATE_CLOSED")
      (auto simp: ws_client_close_def channel_close_closed client_inv_def channel_close_def Let_def ws_onclose_def)
  then show ?thesis using client_inv_channel_close [OF c] by simp
qed

lemma client_inv_open: "client_inv c \<Longrightarrow> ws_open mem g url c = Inr (r, c') \<Longrightarrow> client_inv c'"
  by (cases "wc_state c")
    (auto simp: client_inv_def stuck_def ws_open_def Let_def follow_all_append split: if_splits sum.splits)

lemma client_inv_sendData:
  "client_inv c \<Longrightarrow> wc_state c = WS_STATE_OPENED \<Longrightarrow> client_inv (channel_sendData ok s c)"
  using client_inv_channel_close [of c]
  by (auto simp: channel_sendData_def) (auto simp: client_inv_def stuck_def follow_all_append)

lemma client_inv_connect: "client_inv c \<Longrightarrow> wc_state c = WS_STATE_CONNECTING \<Longrightarrow> client_inv (ws_onconnect mem k ok c)"
  by (auto simp: client_inv_def stuck_def ws_onconnect_def ws_sendHttpRequest_def channel_sendData_def channel_close_def ws_onclose_def
      Let_def follow_all_append)

lemma client_inv_feed: "client_inv c \<Longrightarrow> feed_opened d c = Inr c' \<Longrightarrow> client_inv c'"
  by (auto simp: client_inv_def stuck_def feed_opened_def follow_all_append follow_messages split: if_splits option.splits sum.splits)

lemma client_inv_handshake: "client_inv c \<Longrightarrow> wc_state c = WS_STATE_UPGRADING \<Longrightarrow> wc_channel c \<Longrightarrow> client_inv (ws_handshake c)"
  using client_inv_channel_close [of c]
  by (auto simp: ws_handshake_def Let_def) (auto simp: client_inv_def stuck_def ws_opened_def Let_def follow_all_append)

lemma client_inv_read: "client_inv c \<Longrightarrow> wc_channel c \<Longrightarrow> ws_onread d c = Inr c' \<Longrightarrow> client_inv c'"
proof -
  assume c: "client_inv c" "wc_channel c" and r: "ws_onread d c = Inr c'"
  have u: "client_inv (c\<lparr>wc_ps := ps, wc_httpParser := hp\<rparr>)" for ps hp using c by (simp add: client_inv_def stuck_def)
  show "client_inv c'"
  proof (cases "wc_state c = WS_STATE_UPGRADING")
    case False
    then show ?thesis using client_inv_feed [OF c(1)] r by (simp add: ws_onread_def)
  next
    case True
    then obtain n ps hp where f: "HttpParser_feedRecvData (wc_ps c) (wc_httpParser c) d = Some (n, ps, hp)"
      using r by (auto simp: ws_onread_def split: option.splits)
    let ?c = "c\<lparr>wc_ps := ps, wc_httpParser := hp\<rparr>"
    have "client_inv (ws_handshake ?c)" using client_inv_handshake [OF u] True c(2) by simp
    then show ?thesis
      using r True f client_inv_channel_close [OF u] client_inv_feed [of "ws_handshake ?c"] client_inv_feed [OF u]
      by (auto simp: ws_onread_def Let_def split: if_splits)
  qed
qed

lemma client_inv_send: "client_inv c \<Longrightarrow> ws_client_send ok key msg opcode c = Inr c' \<Longrightarrow> client_inv c'"
  by (auto simp: ws_client_send_def client_inv_sendData split: if_splits sum.splits option.splits)

lemma client_inv_step: "client_step c c' \<Longrightarrow> client_inv c \<Longrightarrow> client_inv c'"
proof (induction rule: client_step.induct)
  case (opens mem got_io url c r c') then show ?case by (metis client_inv_open)
next
  case (connects c rand_key mem ok) then show ?case by (simp add: client_inv_connect)
next
  case (reads c d c') then show ?case by (simp add: client_inv_read)
next
  case (channel_closes c) then show ?case by (simp add: client_inv_channel_close)
next
  case (sends key ok msg opcode c c') then show ?case by (metis client_inv_send)
next
  case (pings c key ok c') then show ?case by (auto simp: ws_ping_def intro: client_inv_send split: if_splits)
next
  case (closes c) then show ?case by (simp add: client_inv_close)
next
  case (closes_later time_ms c c')
  then show ?case
    by (cases "wc_state c") (auto simp: closeAfterTime_def client_inv_def stuck_def follow_all_append split: if_splits)
next
  case (sets_ping c i) then show ?case by (cases "wc_state c") (simp_all add: client_inv_def stuck_def)
qed

lemma client_inv_run: "client_run c \<Longrightarrow> client_inv c"
proof (induction rule: client_run.induct)
  case (new mem) then show ?case by (simp add: client_inv_def stuck_def WebSocketClient_new_def)
next
  case (step c c') then show ?case by (simp add: client_inv_step)
qed

text \<open>A session with a server that closes the connection after the request.\<close>

definition sample_ws :: WebSocketClient where
  "sample_ws = WebSocketClient_new \<lparr>wc_state = WS_STATE_OPENED, wc_loop_thread = True, wc_channel = True, wc_handlers = True,
     wc_ps = http_parser_init HTTP_BOTH, wc_httpParser = sample_memory, wc_httpRequest = sample_query, wc_wsBuffer = [],
     wc_onMessage = True, wc_pingInterVal = 7, wc_pingTimer = True, wc_actions = []\<rparr>"

definition sample_connecting :: WebSocketClient where
  "sample_connecting = (case ws_open sample_query True ''ws://h:80/a'' sample_ws of Inr r \<Rightarrow> snd r | Inl e \<Rightarrow> sample_ws)"

lemma sample_url: "HttpRequest_parseUrl ((HttpRequest_new q)\<lparr>req_url := c_str ''ws://h:80/a''\<rparr>) =
    Inr (0, (HttpRequest_new q)\<lparr>req_url := ''ws://h:80/a'',
      req_u := \<lparr>u_scheme = ''ws'', u_host = ''h'', u_port = 80, u_path = ''a''\<rparr>\<rparr>)"
proof -
  have "''ws'' @ ''://'' @ ''h'' @ '':'' @ dec 80 @ ''/'' @ ''a'' = ''ws://h:80/a''"
    by (simp add: dec.simps digit_char_def char_of_def bit_iff_odd)
  moreover have "c_str ''ws://h:80/a'' = ''ws://h:80/a''" by (simp add: c_str_def)
  moreover have "parseUrl (''ws'' @ ''://'' @ ''h'' @ '':'' @ dec 80 @ ''/'' @ ''a'') u =
      Inr (0, u\<lparr>u_scheme := ''ws'', u_host := ''h'', u_port := int 80, u_path := ''a''\<rparr>)" for u
    by (rule parse_url_all) simp_all
  ultimately show ?thesis by (simp add: HttpRequest_parseUrl_def HttpRequest_new_def)
qed

lemma schemes: "strcaseeq ''ws'' ''ws''" "\<not> strcaseeq ''ws'' ''wss''"
  by (simp_all add: strcaseeq_def c_str_def)

lemma sample_opens: "ws_open sample_query True ''ws://h:80/a'' sample_ws = Inr (0, sample_connecting)"
  and sample_connecting: "wc_state sample_connecting = WS_STATE_CONNECTING" "wc_channel sample_connecting" "wc_handlers sample_connecting"
    "wc_actions sample_connecting = [Wc_connect ''h'' 80 False]"
  by (simp_all add: sample_connecting_def ws_open_def sample_ws_def WebSocketClient_new_def sample_url schemes Let_def did_def)

lemma sample_connecting_run: "client_run sample_connecting"
  using client_run.step [OF client_run.new client_step.opens [OF sample_opens [unfolded sample_ws_def]]] .

definition sample_asking :: WebSocketClient where
  "sample_asking = ws_onconnect sample_memory (replicate 16 0) True sample_connecting"

lemma sample_asking_run: "client_run sample_asking"
  unfolding sample_asking_def
  by (rule client_run.step [OF sample_connecting_run]) (simp add: client_step.connects sample_connecting)

text \<open>C8: The WebSocket client keeps to its protocol. Whatever the user, the server and the timers do, in
  whatever order and with whatever sends failing, a client connects, asks for the upgrade, calls \<open>onopen\<close>
  once, delivers messages and sends frames only after that, and calls \<open>onclose\<close> once at the end of each
  session, with its ping timer armed at most once, only while the connection is open, and deleted before
  \<open>onclose\<close>; with a channel, its state says in which phase it is.\<close>
theorem client_follows_protocol:
  assumes "client_run c"
  shows "\<exists>p. follow_all (Idle, False) (wc_actions c) = Some (p, wc_pingTimer c) \<and>
    p = (if wc_state c = WS_STATE_UPGRADING \<and> \<not> wc_channel c then Idle else phase_of (wc_state c)) \<and>
    (wc_pingTimer c \<longrightarrow> wc_state c = WS_STATE_OPENED)"
  using client_inv_run [OF assms] by (cases "wc_state c") (simp_all add: client_inv_def stuck_def)

lemma client_follows_protocol_witness:
  "\<exists>p. follow_all (Idle, False) (wc_actions sample_asking) = Some (p, wc_pingTimer sample_asking) \<and>
    p = (if wc_state sample_asking = WS_STATE_UPGRADING \<and> \<not> wc_channel sample_asking then Idle else phase_of (wc_state sample_asking)) \<and>
    (wc_pingTimer sample_asking \<longrightarrow> wc_state sample_asking = WS_STATE_OPENED)"
  by (rule client_follows_protocol [OF sample_asking_run])

text \<open>When the request for the upgrade cannot be sent, the channel is closed and \<open>onclose\<close> called, but
  \<open>sendHttpRequest\<close> then sets the state to \<open>WS_STATE_UPGRADING\<close>: the client has no connection, and every
  \<open>open\<close> is refused until the user calls \<open>close\<close>.\<close>
theorem failed_handshake_refuses_open:
  assumes "client_run c" "wc_state c = WS_STATE_CONNECTING" and c': "c' = ws_onconnect mem k False c"
  shows "wc_actions c' = wc_actions c @ [Wc_close, Wc_onclose] \<and> \<not> wc_channel c' \<and>
    ws_open mem' got_io url c' = Inr (-1, c') \<and>
    wc_state (ws_client_close c') = WS_STATE_CLOSED"
  using client_inv_run [OF assms(1)] assms(2)
  by (auto simp: c' client_inv_def stuck_def ws_onconnect_def ws_sendHttpRequest_def channel_sendData_def channel_close_def
      ws_onclose_def Let_def ws_open_def ws_client_close_def)

lemma failed_handshake_refuses_open_witness:
  "wc_actions (ws_onconnect sample_memory [] False sample_connecting) = wc_actions sample_connecting @ [Wc_close, Wc_onclose] \<and>
    \<not> wc_channel (ws_onconnect sample_memory [] False sample_connecting) \<and>
    ws_open sample_query True ''ws://h:80/a'' (ws_onconnect sample_memory [] False sample_connecting) =
      Inr (-1, ws_onconnect sample_memory [] False sample_connecting) \<and>
    wc_state (ws_client_close (ws_onconnect sample_memory [] False sample_connecting)) = WS_STATE_CLOSED"
  by (rule failed_handshake_refuses_open [OF sample_connecting_run sample_connecting(1) refl])

end
