(* ===== verification/WsHandshake.thy ===== *)
theory WsHandshake
  imports WsClient
begin

section \<open>The handshake of a WebSocket client with the server\<close>

text \<open>
  The client of \<open>WebSocketClient.cpp\<close> and the handle of \<open>HttpHandle.cpp\<close> put together: the request that
  the one writes is what the other upgrades, the 101 answer of the other opens the one, and the frames of
  each reach the other.
\<close>

subsection \<open>The parser objects\<close>

lemma up_header_names: "upgrade_headers_in hs \<Longrightarrow> \<forall>h\<in>set hs. fst h \<noteq> []"
  by (auto simp: upgrade_headers_in_def up_header_def good_name_def)

lemma feed_upgrade_request:
  assumes "awaits_request ps" "hp_idle hp" "upgrade_request r" "length (request_head r) \<le> HTTP_MAX_HEADER_SIZE"
    and "state ps = s_start_req_or_res \<Longrightarrow> rq_method r \<noteq> HTTP_HEAD"
  shows "\<exists>ps'. HttpParser_feedRecvData ps hp (request_head r @ q) = Some (length (request_head r), ps', collected r hp)"
  using hp.upgrade_request_run [of ps HTTP_MAX_HEADER_SIZE r hp q] assms hp_act_request [OF assms(2), of r] up_header_names
  by (auto simp: HttpParser_feedRecvData_def HTTP_MAX_HEADER_SIZE_def upgrade_request_def)

text \<open>What the client has collected of the 101 response.\<close>

definition switched :: "header list \<Rightarrow> http_method \<Rightarrow> HttpParser \<Rightarrow> HttpParser" where
  "switched hs m hp = hp\<lparr>hp_method := m, hp_headers := put_headers (message_headers hs (Some [])) (hp_headers hp),
     hp_resp := (hp_resp hp)\<lparr>resp_headers := put_headers (message_headers hs (Some [])) (resp_headers (hp_resp hp)), resp_status_code := 101\<rparr>,
     hp_state := HP_MESSAGE_COMPLETE\<rparr>"

lemma hp_act_switched:
  assumes "awaits_answer hp" "upgrade_headers_in hs"
  shows "fold hp_act (response_events m ''101'' reason hs []) hp = switched hs m hp"
proof -
  have c: "digits_value 0 ''101'' = 101" by (simp add: digits_value_def digit_def)
  have "hp_clear (hp\<lparr>hp_state := HP_STATUS, hp_resp := (hp_resp hp)\<lparr>resp_status_code := 101\<rparr>\<rparr>)"
    using assms(1) by (simp add: awaits_answer_def hp_clear_def)
  from hp_headers_done [OF this up_header_names [OF assms(2)], of "Some []"] assms(1) c show ?thesis
    by (simp add: response_events_def body_events_def body_text_def switched_def hp_put_def awaits_answer_def)
qed

lemma feed_upgrade_response:
  assumes "awaits_response ps" "awaits_answer hp" "upgrade_headers_in hs" "reason \<noteq> []" "\<forall>c\<in>set reason. c \<noteq> CR \<and> c \<noteq> LF"
    and "length (response_head ''101'' reason hs []) \<le> HTTP_MAX_HEADER_SIZE"
  shows "\<exists>ps'. HttpParser_feedRecvData ps hp (response_head ''101'' reason hs [] @ q) =
      Some (length (response_head ''101'' reason hs []), ps', switched hs (method ps) hp) \<and> http_errno ps' = HPE_OK"
proof -
  have "HTTP_MAX_HEADER_SIZE < 2 ^ 32" by (simp add: HTTP_MAX_HEADER_SIZE_def)
  from hp.upgrade_response_run [OF assms(1) this assms(6,4,5,3), of hp q]
  obtain x where "http_parser_execute HttpParser_cbs HTTP_MAX_HEADER_SIZE ps hp (response_head ''101'' reason hs [] @ q) =
      Some (Ret (length (response_head ''101'' reason hs [])) x)" "http_errno (parser x) = HPE_OK"
    "udata x = fold hp_act (response_events (method ps) ''101'' reason hs []) hp" by blast
  then show ?thesis using hp_act_switched [OF assms(2,3)] by (simp add: HttpParser_feedRecvData_def)
qed

subsection \<open>The request for the upgrade\<close>

definition host_value :: "url_st \<Rightarrow> string" where
  "host_value u = u_host u @ (if u_port u \<noteq> 80 then CHR '':'' # to_string (u_port u) else [])"

definition ask_headers :: "byte list \<Rightarrow> header list" where
  "ask_headers rand_key = [(''Connection'', ''Upgrade''), (''Sec-WebSocket-Key'', base64_encode rand_key),
     (''Sec-WebSocket-Version'', ''13''), (''Upgrade'', ''websocket'')]"

definition upgrade_ask :: "byte list \<Rightarrow> url_st \<Rightarrow> request" where
  "upgrade_ask rand_key u = \<lparr>rq_method = HTTP_GET, rq_url = CHR ''/'' # u_path u,
     rq_headers = (''Host'', host_value u) # ask_headers rand_key, rq_body = None\<rparr>"

lemma upgrade_headers_ask: "upgrade_headers k [] = ask_headers k"
  by (simp add: upgrade_headers_def ask_headers_def)

lemma upgrade_text_ask: "upgrade_text (q\<lparr>req_headers := upgrade_headers k []\<rparr>) = request_head (upgrade_ask k (req_u q))"
  by (simp add: upgrade_text_def upgrade_headers_ask ask_headers_def upgrade_ask_def request_head_def lines_text_def header_line_def
      host_value_def method_strings_def)

lemma good_names:
  "good_name ''Host''" "good_name ''Connection''" "good_name ''Sec-WebSocket-Key''" "good_name ''Sec-WebSocket-Version''"
  "good_name ''Upgrade''" "good_name ''Sec-WebSocket-Accept''"
  "map TOKEN ''Host'' = ''host''" "map TOKEN ''Connection'' = ''connection''" "map TOKEN ''Sec-WebSocket-Key'' = ''sec-websocket-key''"
  "map TOKEN ''Sec-WebSocket-Version'' = ''sec-websocket-version''" "map TOKEN ''Upgrade'' = ''upgrade''"
  "map TOKEN ''Sec-WebSocket-Accept'' = ''sec-websocket-accept''"
  by (simp_all add: good_name_def TOKEN_def STRICT_TOKEN_def tokens_def char_of_def bit_0)

lemma good_values: "value_text ''Upgrade''" "value_text ''13''" "value_text ''websocket''" "map LOWER ''Upgrade'' = ''upgrade''"
  by (simp_all add: value_text_def IS_HEADER_CHAR_def)

lemma value_text_base64:
  assumes "bs \<noteq> []"
  shows "value_text (base64_encode bs)"
proof -
  have "base64_encode bs \<noteq> []"
    using length_encode_groups [of bs] assms by (cases bs) (auto simp: base64_encode_groups simp flip: length_greater_0_conv)
  moreover have "\<forall>c\<in>set base64_chars \<union> {CHR ''=''}. c \<notin> {CHR '' '', TAB, CR, LF} \<and> IS_HEADER_CHAR c"
    by (simp add: base64_chars_def IS_HEADER_CHAR_def)
  then have "\<forall>c\<in>set (base64_encode bs). c \<notin> {CHR '' '', TAB, CR, LF} \<and> IS_HEADER_CHAR c"
    using set_encode_groups [of bs] by (auto simp: base64_encode_groups)
  ultimately show ?thesis by (cases "base64_encode bs") (auto simp: value_text_def)
qed

lemma up_headers:
  assumes "value_text v" "value_text k"
  shows "up_header (''Host'', v)" "up_header (''Connection'', ''Upgrade'')" "up_header (''Sec-WebSocket-Key'', k)"
    "up_header (''Sec-WebSocket-Version'', ''13'')" "up_header (''Upgrade'', ''websocket'')" "up_header (''Sec-WebSocket-Accept'', k)"
  unfolding up_header_def fst_conv snd_conv good_names(7-12) by (simp_all add: good_names good_values assms)

lemma value_text_append: "value_text v \<Longrightarrow> \<forall>c\<in>set w. IS_HEADER_CHAR c \<and> c \<noteq> CR \<and> c \<noteq> LF \<Longrightarrow> value_text (v @ w)"
  by (cases v) (auto simp: value_text_def)

lemma value_text_host:
  assumes "value_text (u_host u)" "u_port u = int port"
  shows "value_text (host_value u)"
proof -
  have "IS_HEADER_CHAR c \<and> c \<noteq> CR \<and> c \<noteq> LF" if "c \<in> set (dec port)" for c
    using dec_digits(2) [OF that] by (auto simp: IS_NUM_def IS_HEADER_CHAR_def)
  moreover have "IS_HEADER_CHAR CHR '':''" by (simp add: IS_HEADER_CHAR_def)
  ultimately show ?thesis
    using assms(1) value_text_append [OF assms(1), of "CHR '':'' # dec port"] assms(2) by (auto simp: host_value_def to_string_def)
qed

lemma upgrade_headersI:
  assumes "value_text v" "value_text k"
  shows "upgrade_headers_in [(''Host'', v), (''Connection'', ''Upgrade''), (''Sec-WebSocket-Key'', k), (''Sec-WebSocket-Version'', ''13''),
      (''Upgrade'', ''websocket'')]"
    "upgrade_headers_in [(''Connection'', ''Upgrade''), (''Sec-WebSocket-Accept'', k), (''Upgrade'', ''websocket'')]"
  using up_headers [OF assms] good_names(8,11) by (simp_all add: upgrade_headers_in_def named_def)

lemma upgrade_ask_ok:
  assumes "value_text (u_host u)" "u_port u = int port" "plain_url (CHR ''/'' # u_path u)" "rand_key \<noteq> []"
  shows "upgrade_request (upgrade_ask rand_key u)"
  using upgrade_headersI(1) [OF value_text_host [OF assms(1,2)] value_text_base64 [OF assms(4)]] assms(3)
  by (simp add: upgrade_request_def upgrade_ask_def ask_headers_def body_text_def)

lemma upgrade_ask_length:
  assumes "length (u_host u) < 32" "u_port u = int port" "port < 2 ^ 31" "length (u_path u) < 256" "length rand_key = 16"
  shows "length (request_head (upgrade_ask rand_key u)) \<le> HTTP_MAX_HEADER_SIZE"
proof -
  have "length (dec port) \<le> 10" using length_dec [of port 10] assms(3) by simp
  moreover have "length (base64_encode rand_key) = 24" using assms(5) by (simp add: base64_encode_groups length_encode_groups)
  ultimately show ?thesis
    using assms by (simp add: request_head_def upgrade_ask_def ask_headers_def lines_text_def header_line_def CRLF_def host_value_def
        to_string_def method_strings_def HTTP_MAX_HEADER_SIZE_def)
qed

subsection \<open>The answer\<close>

definition accept_headers :: "string \<Rightarrow> header list" where
  "accept_headers k = [(''Connection'', ''Upgrade''), (''Sec-WebSocket-Accept'', k), (''Upgrade'', ''websocket'')]"

definition switching :: string where
  "switching = ''Switching Protocols''"

lemma dump_switching:
  "resp_body p = [] \<Longrightarrow> HttpResponse_dump WS_HEADER p = response_head ''101'' switching (resp_headers p) []"
proof -
  have "concat (map (\<lambda>it. fst it @ '': '' @ snd it @ CRLF) hs) = concat (map header_line hs)" for hs :: "header list"
    by (induction hs) (simp_all add: header_line_def)
  then show "resp_body p = [] \<Longrightarrow> ?thesis"
    by (simp add: HttpResponse_dump_def WS_HEADER_def response_head_def lines_text_def header_line_def length_header_def fmt_d_small
        switching_def)
qed

lemma switch_actions:
  assumes "map_of (req_headers (m_request h)) ''Sec-WebSocket-Key'' = Some key"
    "map_of (req_headers (m_request h)) ''Sec-WebSocket-Protocl'' = None" "resp_headers (m_response h) = []" "resp_body (m_response h) = []"
  shows "is_open (switchWSProtocol ek h)" "hh_wsBuffer (switchWSProtocol ek h) = hh_wsBuffer h"
    "hh_wsService (switchWSProtocol ek h) = hh_wsService h" "m_request (switchWSProtocol ek h) = m_request h"
    "hh_actions (switchWSProtocol ek h) = hh_actions h @ Io_send (response_head ''101'' switching (accept_headers (ek key)) []) #
      (if hh_wsService h then [Ws_onopen (m_request h)] else [])"
  using assms dump_switching
  by (simp_all add: switchWSProtocol_def upgradeWSProtocol_def send_101 act_on_def Let_def put_response_def is_open_def accept_headers_def)

text \<open>The server, with a new handle.\<close>

lemma ask_collected:
  "put_headers (message_headers (rq_headers (upgrade_ask k u)) (rq_body (upgrade_ask k u))) [] =
    [(''Connection'', ''Upgrade''), (''Host'', host_value u), (''Sec-WebSocket-Key'', base64_encode k),
     (''Sec-WebSocket-Version'', ''13''), (''Upgrade'', ''websocket'')]"
  by (simp add: upgrade_ask_def ask_headers_def message_headers_def)

lemma server_upgrades:
  fixes mem :: HttpParser and R :: HttpRouter and service :: bool
  assumes "\<forall>d. EVP_EncodeBlock d = base64_encode d" "\<forall>d. length (SHA1 d) = 20" "length rand_key = 16"
    and r: "upgrade_request (upgrade_ask rand_key u)" "length (request_head (upgrade_ask rand_key u)) \<le> HTTP_MAX_HEADER_SIZE"
  shows "\<exists>h. on_recv (ws_encode_key SHA1 EVP_EncodeBlock) (HttpHandle_new mem R service) (request_head (upgrade_ask rand_key u)) = Inr h \<and>
    is_open h \<and> hh_wsBuffer h = [] \<and> hh_wsService h = service \<and>
    hh_actions h = Io_send (response_head ''101'' switching (accept_headers (accept_key SHA1 (base64_encode rand_key))) []) #
      (if service then [Ws_onopen (m_request h)] else [])"
proof -
  let ?r = "upgrade_ask rand_key u" and ?h = "HttpHandle_new mem R service" and ?key = "base64_encode rand_key"
  have I: "awaits_request (hh_ps ?h)" "hp_idle (hh_parser ?h)" "hh_serviceType ?h = SERVICE_HTTP" "hh_wsBuffer ?h = []"
    "hh_wsService ?h = service" "hh_actions ?h = []" "req_headers (m_request ?h) = []" "resp_headers (m_response ?h) = []"
    "resp_body (m_response ?h) = []"
    using new_handle_idle [of mem R service]
    by (simp_all add: handle_idle_def HttpHandle_new_def HttpRequest_new_def HttpResponse_new_def)
  obtain ps where ps: "HttpParser_feedRecvData (hh_ps ?h) (hh_parser ?h) (request_head ?r @ []) =
      Some (length (request_head ?r), ps, collected ?r (hh_parser ?h))"
    using feed_upgrade_request [OF I(1,2) r, of "[]"] by (auto simp: upgrade_ask_def)
  let ?g = "?h\<lparr>hh_ps := ps, hh_parser := collected ?r (hh_parser ?h)\<rparr>"
  have M: "req_headers (m_request ?g) = [(''Connection'', ''Upgrade''), (''Host'', host_value u), (''Sec-WebSocket-Key'', ?key),
      (''Sec-WebSocket-Version'', ''13''), (''Upgrade'', ''websocket'')]"
    using ask_collected [of rand_key u] I(7) by (simp add: collected_def request_into_def)
  have P: "resp_headers (m_response ?g) = []" "resp_body (m_response ?g) = []" using I(8,9) by (simp_all add: collected_def)
  have U: "isUpgradeWSProtocol ?g" unfolding isUpgradeWSProtocol_def M by (simp add: strcaseeq_def c_str_def)
  have "length ?key = 24" using assms(3) by (simp add: base64_encode_groups length_encode_groups)
  then have K: "ws_encode_key SHA1 EVP_EncodeBlock ?key = accept_key SHA1 ?key"
    using ws_encode_key_accept [OF assms(1,2) c_str_base64] by simp
  have C: "isComplete (collected ?r (hh_parser ?h))" by (simp add: isComplete_def collected_def)
  let ?f = "switchWSProtocol (ws_encode_key SHA1 EVP_EncodeBlock) ?g"
  have "on_recv (ws_encode_key SHA1 EVP_EncodeBlock) ?h (request_head ?r) = Inr ?f"
    using ps I(3) U C by (simp add: on_recv_def HttpHandle_feedRecvData_def)
  moreover have "is_open ?f \<and> hh_wsBuffer ?f = [] \<and> hh_wsService ?f = service \<and>
    hh_actions ?f = Io_send (response_head ''101'' switching (accept_headers (accept_key SHA1 ?key)) []) #
      (if service then [Ws_onopen (m_request ?f)] else [])"
    using switch_actions [of ?g ?key] M P I K by (cases service) simp_all
  ultimately show ?thesis by blast
qed

text \<open>The client, with the answer and whatever follows it in the buffer.\<close>

lemma client_opens:
  assumes "wc_state c = WS_STATE_UPGRADING" "awaits_response (wc_ps c)" "awaits_answer (wc_httpParser c)"
    and k: "value_text k" "length k \<le> 100" "resp_headers (hp_resp (wc_httpParser c)) = []"
  shows "\<exists>c'. ws_onread (response_head ''101'' switching (accept_headers k) [] @ q) c = feed_opened q (ws_opened c') \<and>
    wc_actions c' = wc_actions c \<and> wc_pingInterVal c' = wc_pingInterVal c \<and> wc_channel c' = wc_channel c \<and> wc_wsBuffer c' = wc_wsBuffer c \<and>
    map_of (resp_headers (hp_resp (wc_httpParser c'))) ''Sec-WebSocket-Accept'' = Some k"
proof -
  let ?d = "response_head ''101'' switching (accept_headers k) []"
  have H: "upgrade_headers_in (accept_headers k)" unfolding accept_headers_def using upgrade_headersI(2) [OF k(1,1)] .
  have L: "length ?d \<le> HTTP_MAX_HEADER_SIZE"
    using k(2) dec.simps [of 0] by (simp add: response_head_def accept_headers_def lines_text_def header_line_def length_header_def
        CRLF_def switching_def HTTP_MAX_HEADER_SIZE_def)
  obtain ps where ps: "HttpParser_feedRecvData (wc_ps c) (wc_httpParser c) (?d @ q) =
      Some (length ?d, ps, switched (accept_headers k) (method (wc_ps c)) (wc_httpParser c))" "http_errno ps = HPE_OK"
    using feed_upgrade_response [OF assms(2,3) H _ _ L, of q] by (auto simp: switching_def)
  let ?hp = "switched (accept_headers k) (method (wc_ps c)) (wc_httpParser c)"
  let ?c = "c\<lparr>wc_ps := ps, wc_httpParser := ?hp\<rparr>"
  have R: "isComplete ?hp" "resp_status_code (hp_resp ?hp) = 101"
    "map_of (resp_headers (hp_resp ?hp)) ''Sec-WebSocket-Accept'' = Some k"
    using k(3) by (simp_all add: isComplete_def switched_def message_headers_def accept_headers_def length_header_def)
  have "wc_state (ws_opened ?c) = WS_STATE_OPENED" by (simp add: ws_opened_def Let_def)
  then have "ws_onread (?d @ q) c = feed_opened q (ws_opened ?c)"
    using assms(1) ps R by (simp add: ws_onread_def ws_handshake_def Let_def)
  then show ?thesis using R(3) by (intro exI [of _ ?c]) simp
qed

subsection \<open>Client and server\<close>

text \<open>What is asked of the URL: its parts fit into the buffers of \<open>parseUrl\<close> and into a request.\<close>

definition ws_url :: "string \<Rightarrow> string \<Rightarrow> nat \<Rightarrow> string \<Rightarrow> bool" where
  "ws_url scheme host port path \<longleftrightarrow> scheme \<in> {''ws'', ''wss''} \<and> value_text host \<and> CHR '':'' \<notin> set host \<and> NUL \<notin> set (host @ path) \<and>
     length host < 32 \<and> port < 2 ^ 31 \<and> plain_url (CHR ''/'' # path) \<and> length path < 256"

lemma open_url:
  assumes "ws_url scheme host port path" "wc_state c = WS_STATE_CLOSED"
  shows "\<exists>c'. ws_open mem True (scheme @ ''://'' @ host @ '':'' @ dec port @ ''/'' @ path) c = Inr (0, c') \<and>
    wc_state c' = WS_STATE_CONNECTING \<and> wc_channel c' \<and> wc_pingInterVal c' = wc_pingInterVal c \<and>
    wc_actions c' = wc_actions c @ [Wc_connect host (int port) (scheme = ''wss'')] \<and> req_headers (wc_httpRequest c') = [] \<and>
    req_u (wc_httpRequest c') = \<lparr>u_scheme = scheme, u_host = host, u_port = int port, u_path = path\<rparr>"
proof -
  let ?url = "scheme @ ''://'' @ host @ '':'' @ dec port @ ''/'' @ path"
  have N: "NUL \<notin> set (dec port)" "NUL \<notin> set (scheme @ host @ path)" "CHR '':'' \<notin> set scheme" "length scheme < 8"
    using assms(1) dec_digits(2) [of NUL port] by (auto simp: ws_url_def IS_NUM_def)
  have P: "parseUrl ?url v = Inr (0, v\<lparr>u_scheme := scheme, u_host := host, u_port := int port, u_path := path\<rparr>)" for v
    by (rule parse_url_all) (use assms(1) N in \<open>auto simp: ws_url_def\<close>)
  have "c_str ?url = ?url" using N c_str_plain [of ?url] by auto
  then have "HttpRequest_parseUrl ((HttpRequest_new mem)\<lparr>req_url := c_str ?url\<rparr>) = Inr (0, (HttpRequest_new mem)\<lparr>req_url := ?url,
      req_u := \<lparr>u_scheme = scheme, u_host = host, u_port = int port, u_path = path\<rparr>\<rparr>)"
    using P by (simp add: HttpRequest_parseUrl_def HttpRequest_new_def)
  moreover have "strcaseeq ''wss'' ''wss''" by (simp add: strcaseeq_def)
  ultimately show ?thesis
    using assms schemes by (auto simp: ws_open_def ws_url_def Let_def HttpRequest_new_def)
qed

lemma connect_asks:
  assumes "wc_channel c" "req_headers (wc_httpRequest c) = []" and c': "c' = ws_onconnect mem k True c"
  shows "wc_actions c' = wc_actions c @ [Wc_send (request_head (upgrade_ask k (req_u (wc_httpRequest c))))]"
    "wc_state c' = WS_STATE_UPGRADING" "awaits_response (wc_ps c')" "awaits_answer (wc_httpParser c')"
    "resp_headers (hp_resp (wc_httpParser c')) = []" "wc_pingInterVal c' = wc_pingInterVal c" "wc_channel c'" "wc_wsBuffer c' = []"
  using assms upgrade_text_ask [of k "wc_httpRequest c"] awaits_init(2)
  by (simp_all add: c' ws_onconnect_def ws_sendHttpRequest_def channel_sendData_def Let_def awaits_answer_def hp_clear_def
      HttpParser_new_def HttpResponse_new_def)

lemma ws_opened_simps [simp]:
  "wc_state (ws_opened c) = WS_STATE_OPENED" "wc_onMessage (ws_opened c)" "wc_wsBuffer (ws_opened c) = wc_wsBuffer c"
  "wc_httpParser (ws_opened c) = wc_httpParser c" "wc_channel (ws_opened c) = wc_channel c"
  "wc_actions (ws_opened c) = wc_actions c @ Wc_onopen # (if wc_pingInterVal c > 0 then [Wc_add_timer (wc_pingInterVal c)] else [])"
  by (simp_all add: ws_opened_def Let_def)

definition can_talk :: "WebSocketClient \<Rightarrow> HttpHandle \<Rightarrow> bool" where
  "can_talk c h \<longleftrightarrow> isConnected c \<and> wc_channel c \<and> wc_onMessage c \<and> wc_wsBuffer c = [] \<and> is_open h \<and> hh_wsBuffer h = []"

text \<open>C6: A WebSocket client connects to the server. A closed client opens any URL with the scheme
  \<open>ws\<close> or \<open>wss\<close>, a port and parts that fit; once connected it sends one request; a new handle of the
  server that receives the request answers with one response and tells its service; the client that
  receives this response calls \<open>onopen\<close> (and arms its ping timer, when it has an interval), having got the
  accept key that belongs to its random key; then the two can exchange messages.\<close>
theorem handshake_completes:
  assumes "\<forall>d. EVP_EncodeBlock d = base64_encode d" "\<forall>d. length (SHA1 d) = 20"
    and "ws_url scheme host port path" "wc_state c = WS_STATE_CLOSED" "length rand_key = 16"
  shows "\<exists>c1 request h answer c2.
    ws_open qmem True (scheme @ ''://'' @ host @ '':'' @ dec port @ ''/'' @ path) c = Inr (0, c1) \<and>
    wc_actions (ws_onconnect cmem rand_key True c1) = wc_actions c @ [Wc_connect host (int port) (scheme = ''wss''), Wc_send request] \<and>
    on_recv (ws_encode_key SHA1 EVP_EncodeBlock) (HttpHandle_new mem R service) request = Inr h \<and>
    hh_actions h = Io_send answer # (if service then [Ws_onopen (m_request h)] else []) \<and>
    ws_onread answer (ws_onconnect cmem rand_key True c1) = Inr c2 \<and>
    wc_actions c2 = wc_actions (ws_onconnect cmem rand_key True c1) @ Wc_onopen #
      (if wc_pingInterVal c > 0 then [Wc_add_timer (wc_pingInterVal c)] else []) \<and>
    map_of (resp_headers (hp_resp (wc_httpParser c2))) ''Sec-WebSocket-Accept'' = Some (accept_key SHA1 (base64_encode rand_key)) \<and>
    can_talk c2 h"
proof -
  obtain c1 where c1: "ws_open qmem True (scheme @ ''://'' @ host @ '':'' @ dec port @ ''/'' @ path) c = Inr (0, c1)"
    "wc_channel c1" "wc_pingInterVal c1 = wc_pingInterVal c" "req_headers (wc_httpRequest c1) = []"
    "wc_actions c1 = wc_actions c @ [Wc_connect host (int port) (scheme = ''wss'')]"
    "req_u (wc_httpRequest c1) = \<lparr>u_scheme = scheme, u_host = host, u_port = int port, u_path = path\<rparr>"
    using open_url [OF assms(3,4)] by blast
  let ?u = "req_u (wc_httpRequest c1)" and ?c = "ws_onconnect cmem rand_key True c1"
  let ?k = "accept_key SHA1 (base64_encode rand_key)"
  have k: "value_text ?k" "length ?k \<le> 100"
  proof -
    have "SHA1 d \<noteq> []" for d using assms(2) [rule_format, of d] by auto
    then show "value_text ?k" using value_text_base64 by (simp add: accept_key_def)
    show "length ?k \<le> 100" using assms(2) by (simp add: accept_key_def base64_encode_groups length_encode_groups)
  qed
  note a = connect_asks [OF c1(2,4) refl, of cmem rand_key]
  have r: "upgrade_request (upgrade_ask rand_key ?u)"
    by (rule upgrade_ask_ok [of _ port]) (use assms(3,5) c1(6) in \<open>auto simp: ws_url_def\<close>)
  have l: "length (request_head (upgrade_ask rand_key ?u)) \<le> HTTP_MAX_HEADER_SIZE"
    by (rule upgrade_ask_length [of _ port]) (use assms(3,5) c1(6) in \<open>auto simp: ws_url_def\<close>)
  obtain h where h: "on_recv (ws_encode_key SHA1 EVP_EncodeBlock) (HttpHandle_new mem R service) (request_head (upgrade_ask rand_key ?u)) = Inr h"
    "is_open h" "hh_wsBuffer h = []"
    "hh_actions h = Io_send (response_head ''101'' switching (accept_headers ?k) []) # (if service then [Ws_onopen (m_request h)] else [])"
    using server_upgrades [OF assms(1,2,5) r l] by metis
  obtain c' where "ws_onread (response_head ''101'' switching (accept_headers ?k) [] @ []) ?c = feed_opened [] (ws_opened c')"
    "wc_actions c' = wc_actions ?c" "wc_pingInterVal c' = wc_pingInterVal ?c" "wc_channel c' = wc_channel ?c" "wc_wsBuffer c' = wc_wsBuffer ?c"
    "map_of (resp_headers (hp_resp (wc_httpParser c'))) ''Sec-WebSocket-Accept'' = Some ?k"
    using client_opens [OF a(2-4) k a(5), of "[]"] by blast
  then have "ws_onread (response_head ''101'' switching (accept_headers ?k) []) ?c = Inr (ws_opened c')"
    "wc_actions (ws_opened c') = wc_actions ?c @ Wc_onopen # (if wc_pingInterVal c > 0 then [Wc_add_timer (wc_pingInterVal c)] else [])"
    "map_of (resp_headers (hp_resp (wc_httpParser (ws_opened c')))) ''Sec-WebSocket-Accept'' = Some ?k"
    "can_talk (ws_opened c') h"
    using a c1(3) h(2,3) by (simp_all add: feed_opened_def can_talk_def isConnected_def)
  with c1(1) a(1) c1(5) h(1,4) show ?thesis by auto
qed

lemma sample_ws_url: "ws_url ''ws'' ''h'' 80 ''a''"
proof -
  have "IS_URL_CHAR CHR ''a''" by (simp add: IS_URL_CHAR_def normal_url_char_def bit_iff_odd)
  then have "plain_url ''/a''" by (simp add: plain_url_def url_ends_def url_delims url_chars)
  moreover have "value_text ''h''" by (simp add: value_text_def IS_HEADER_CHAR_def)
  ultimately show ?thesis by (simp add: ws_url_def)
qed

lemma handshake_completes_witness:
  "\<exists>c1 request h answer c2.
    ws_open sample_query True (''ws'' @ ''://'' @ ''h'' @ '':'' @ dec 80 @ ''/'' @ ''a'') sample_ws = Inr (0, c1) \<and>
    wc_actions (ws_onconnect sample_memory (replicate 16 0) True c1) =
      wc_actions sample_ws @ [Wc_connect ''h'' (int 80) (''ws'' = ''wss''), Wc_send request] \<and>
    on_recv (ws_encode_key (\<lambda>_. replicate 20 0) base64_encode) (HttpHandle_new sample_memory [] True) request = Inr h \<and>
    hh_actions h = Io_send answer # (if True then [Ws_onopen (m_request h)] else []) \<and>
    ws_onread answer (ws_onconnect sample_memory (replicate 16 0) True c1) = Inr c2 \<and>
    wc_actions c2 = wc_actions (ws_onconnect sample_memory (replicate 16 0) True c1) @ Wc_onopen #
      (if wc_pingInterVal sample_ws > 0 then [Wc_add_timer (wc_pingInterVal sample_ws)] else []) \<and>
    map_of (resp_headers (hp_resp (wc_httpParser c2))) ''Sec-WebSocket-Accept'' =
      Some (accept_key (\<lambda>_. replicate 20 0) (base64_encode (replicate 16 0))) \<and>
    can_talk c2 h"
  by (rule handshake_completes [OF _ _ sample_ws_url]) (simp_all add: sample_ws_def WebSocketClient_new_def)

subsection \<open>Messages\<close>

lemma client_frames:
  assumes "can_talk c h" "\<forall>s\<in>set sends. ws_sendable s" "concat (map ws_encode sends) \<noteq> []"
  shows "ws_onread (text_of (concat (map ws_encode sends))) c =
    Inr (did (map (\<lambda>s. Wc_onmessage (snd (ws_message s))) sends) c)"
proof -
  have N: "next_frame [] = Need_more" by (simp add: next_frame_def)
  have "text_of (concat (map ws_encode sends)) \<noteq> []" using assms(3) by (metis length_0_conv length_bytes_text(2))
  moreover have "c\<lparr>wc_wsBuffer := []\<rparr> = c" using assms(1) by (cases c) (simp add: can_talk_def)
  ultimately show ?thesis
    using assms(1) feed_messages [OF assms(2) N]
    by (simp add: ws_onread_def feed_opened_def can_talk_def isConnected_def comp_def)
qed

text \<open>C31: Messages pass between a connected client and the server. What the client sends, up to 14 bytes
  below the limit of its buffer, is one frame that the server gives to its service, a text or a binary
  message each as it was sent; every frame of the server, whatever its opcode, reaches the client's
  \<open>onmessage\<close> with its payload, pings and close frames too, and the client answers nothing.\<close>
theorem messages_delivered:
  assumes "can_talk c h" "hh_wsService h" "opcode \<in> {WS_OPCODE_TEXT, WS_OPCODE_BINARY}" "length key = 4"
    and "length msg \<le> MAX_FRAME_SIZE - 14" "length key' = 4" "length msg' < 2 ^ 31"
  shows "(\<exists>frame. ws_client_send True key msg opcode c = Inr (did [Wc_send frame] c) \<and>
      on_recv ek h frame = Inr (h\<lparr>hh_actions := hh_actions h @ [Ws_onmessage (text_of msg) opcode]\<rparr>)) \<and>
    (\<exists>frame. sendFrame key' msg' opcode' = Io_send frame \<and> ws_onread frame c = Inr (did [Wc_onmessage msg'] c))"
proof (intro conjI)
  let ?s = "(msg, key, True, opcode, True)" and ?t = "(msg', key', False, opcode', True)"
  have N: "next_frame [] = Need_more" by (simp add: next_frame_def)
  have "buildFrame msg opcode key = Inr (Some (ws_encode ?s))"
    using buildFrame_is_build_ws_frame [OF assms(4), of msg opcode] assms(5)
    by (auto simp: buildFrame_overhead_def MAX_FRAME_SIZE_def)
  then have "ws_client_send True key msg opcode c = Inr (did [Wc_send (text_of (ws_encode ?s))] c)"
    using assms(1) by (simp add: ws_client_send_def channel_sendData_def can_talk_def isConnected_def)
  moreover have "on_recv ek h (text_of (ws_encode ?s)) = Inr (h\<lparr>hh_actions := hh_actions h @ [Ws_onmessage (text_of msg) opcode]\<rparr>)"
  proof -
    have "ws_feedRecvData True [] (ws_encode ?s) = Some (Inr ([ws_message ?s], []))"
      using feed_messages [of "[?s]" "[]"] N assms(4,5) by (simp add: MAX_FRAME_SIZE_def)
    then have "on_recv ek h (text_of (ws_encode ?s)) =
        Inr ((h\<lparr>hh_wsBuffer := []\<rparr>)\<lparr>hh_actions := hh_actions h @ [Ws_onmessage (text_of msg) opcode]\<rparr>)"
      using assms(1-3) onMessage_reply [of ?s "h\<lparr>hh_wsBuffer := []\<rparr>"]
      by (auto simp: on_recv_def HttpHandle_feedRecvData_def is_open_def can_talk_def)
    moreover have E: "h\<lparr>hh_wsBuffer := []\<rparr> = h" using assms(1) by (cases h) (simp add: can_talk_def)
    ultimately show ?thesis by (simp only: E)
  qed
  ultimately show "\<exists>frame. ws_client_send True key msg opcode c = Inr (did [Wc_send frame] c) \<and>
      on_recv ek h frame = Inr (h\<lparr>hh_actions := hh_actions h @ [Ws_onmessage (text_of msg) opcode]\<rparr>)" by blast
  have "ws_encode ?t \<noteq> []" by (simp add: build_ws_frame_def Let_def)
  then show "\<exists>frame. sendFrame key' msg' opcode' = Io_send frame \<and> ws_onread frame c = Inr (did [Wc_onmessage msg'] c)"
    using client_frames [OF assms(1), of "[?t]"] assms(6,7) by (simp add: sendFrame_def)
qed

definition sample_talking :: WebSocketClient where
  "sample_talking = sample_ws\<lparr>wc_state := WS_STATE_OPENED, wc_channel := True, wc_onMessage := True\<rparr>"

lemma messages_delivered_witness:
  "(\<exists>frame. ws_client_send True [1, 2, 3, 4] [104, 105] WS_OPCODE_TEXT sample_talking = Inr (did [Wc_send frame] sample_talking) \<and>
      on_recv (\<lambda>k. k) sample_channel frame =
        Inr (sample_channel\<lparr>hh_actions := hh_actions sample_channel @ [Ws_onmessage (text_of [104, 105]) WS_OPCODE_TEXT]\<rparr>)) \<and>
    (\<exists>frame. sendFrame [0, 0, 0, 0] [111] WS_OPCODE_PING = Io_send frame \<and>
      ws_onread frame sample_talking = Inr (did [Wc_onmessage [111]] sample_talking))"
  by (rule messages_delivered)
    (simp_all add: can_talk_def sample_talking_def sample_ws_def WebSocketClient_new_def isConnected_def sample_channel_open MAX_FRAME_SIZE_def
      sample_channel_def HttpHandle_new_def is_open_def)

end
