(* ===== verification/WsChannel.thy ===== *)
theory WsChannel
  imports WsParser
begin

section \<open>Sending on a WebSocket channel: src/http/WebSocketChannel.cpp\<close>

text \<open>
  A channel builds each frame in a buffer of its own, which grows when a frame does not fit, under a mutex
  that is not recursive. The buffer is the number of bytes that are allocated for it; the random bytes and
  the result of \<open>realloc\<close> are arguments. Locking a mutex that the thread holds never returns.
\<close>

subsection \<open>State and operations\<close>

datatype ws_session_type = WS_CLIENT | WS_SERVER

datatype ws_channel_fault = Locked_again | Frame_beyond_buffer

record WebSocketChannel =
  wsc_locked :: bool
  wsc_type :: ws_session_type
  wsc_buf :: nat
  wsc_bufLen :: int
  wsc_sent :: "byte list list"

definition WebSocketChannel_new :: "ws_session_type \<Rightarrow> WebSocketChannel" where
  "WebSocketChannel_new t = \<lparr>wsc_locked = False, wsc_type = t, wsc_buf = 0, wsc_bufLen = 0, wsc_sent = []\<rparr>"

text \<open>A \<open>std::lock_guard\<close> for the rest of a function.\<close>

definition with_lock :: "(WebSocketChannel \<Rightarrow> ws_channel_fault + WebSocketChannel) \<Rightarrow> WebSocketChannel \<Rightarrow> ws_channel_fault + WebSocketChannel" where
  "with_lock f c =
     (if wsc_locked c then Inl Locked_again
      else case f (c\<lparr>wsc_locked := True\<rparr>) of Inl e \<Rightarrow> Inl e | Inr c \<Rightarrow> Inr (c\<lparr>wsc_locked := False\<rparr>))"

text \<open>An \<open>int\<close>, and the bytes that \<open>realloc\<close> gives for it as a \<open>size_t\<close>.\<close>

definition as_int :: "int \<Rightarrow> int" where
  "as_int n = (n + 2 ^ 31) mod 2 ^ 32 - 2 ^ 31"

definition realloc :: "bool \<Rightarrow> int \<Rightarrow> nat" where
  "realloc ok n = (if ok then nat (n mod 2 ^ 64) else 0)"

definition channel_sendFrame ::
  "bool \<Rightarrow> byte list \<Rightarrow> byte list \<Rightarrow> ws_opcode \<Rightarrow> bool \<Rightarrow> WebSocketChannel \<Rightarrow> ws_channel_fault + WebSocketChannel" where
  "channel_sendFrame alloc rand msg opcode fin c =
     (let has_mask = False;
          mask = (if wsc_type c = WS_CLIENT then rand else [0, 0, 0, 0]);
          frame_size = as_int (ws_calc_frame_size (as_int (int (length msg))) has_mask);
          c = (if wsc_bufLen c < frame_size
               then c\<lparr>wsc_bufLen := as_int (frame_size * 2), wsc_buf := realloc alloc (as_int (frame_size * 2))\<rparr> else c);
          frame = build_ws_frame msg mask has_mask opcode fin
      in if wsc_buf c < length frame then Inl Frame_beyond_buffer else Inr (c\<lparr>wsc_sent := wsc_sent c @ [frame]\<rparr>))"

definition channel_send :: "bool \<Rightarrow> byte list \<Rightarrow> byte list \<Rightarrow> ws_opcode \<Rightarrow> WebSocketChannel \<Rightarrow> ws_channel_fault + WebSocketChannel" where
  "channel_send alloc rand msg opcode = with_lock (channel_sendFrame alloc rand msg opcode True)"

definition channel_send_text :: "bool \<Rightarrow> byte list \<Rightarrow> byte list \<Rightarrow> WebSocketChannel \<Rightarrow> ws_channel_fault + WebSocketChannel" where
  "channel_send_text alloc rand msg = with_lock (channel_send alloc rand msg WS_OPCODE_TEXT)"

fun channel_sends :: "(byte list \<times> byte list \<times> ws_opcode) list \<Rightarrow> WebSocketChannel \<Rightarrow> ws_channel_fault + WebSocketChannel" where
  "channel_sends [] c = Inr c"
| "channel_sends ((rand, msg, opcode) # ss) c =
     (case channel_send True rand msg opcode c of Inl e \<Rightarrow> Inl e | Inr c \<Rightarrow> channel_sends ss c)"

subsection \<open>What is sent\<close>

text \<open>The buffer has the size that is stored, and the mutex is free.\<close>

definition channel_ready :: "WebSocketChannel \<Rightarrow> bool" where
  "channel_ready c \<longleftrightarrow> \<not> wsc_locked c \<and> 0 \<le> wsc_bufLen c \<and> wsc_buf c = nat (wsc_bufLen c)"

lemma as_int_id: "- (2 ^ 31) \<le> n \<Longrightarrow> n < 2 ^ 31 \<Longrightarrow> as_int n = n"
  by (simp add: as_int_def)

lemma frame_size_bound: "0 \<le> n \<Longrightarrow> n < 2 ^ 29 \<Longrightarrow> 0 \<le> ws_calc_frame_size n False \<and> ws_calc_frame_size n False < 2 ^ 30"
  by (simp add: ws_calc_frame_size_def Let_def)

lemma no_mask_key: "build_ws_frame msg key False opcode fin = build_ws_frame msg [0, 0, 0, 0] False opcode fin"
  by (simp add: build_ws_frame_def Let_def)

lemma channel_send_ready:
  assumes "channel_ready c" "length msg < 2 ^ 29"
  shows "\<exists>c'. channel_send True rand msg opcode c = Inr c' \<and> channel_ready c' \<and>
    wsc_sent c' = wsc_sent c @ [build_ws_frame msg [0, 0, 0, 0] False opcode True]"
proof -
  let ?n = "ws_calc_frame_size (int (length msg)) False"
  have n: "0 \<le> ?n" "?n < 2 ^ 30" using frame_size_bound [of "int (length msg)"] assms(2) by auto
  have "int (length (build_ws_frame msg [0, 0, 0, 0] False opcode True)) = ?n" by (rule build_ws_frame_length) simp
  then have l: "length (build_ws_frame msg [0, 0, 0, 0] False opcode True) = nat ?n" by simp
  have i: "as_int (int (length msg)) = int (length msg)" "as_int ?n = ?n" "as_int (?n * 2) = ?n * 2"
    using n assms(2) by (auto intro!: as_int_id)
  have r: "realloc True (?n * 2) = nat (?n * 2)" using n by (simp add: realloc_def)
  show ?thesis
    using assms(1) n l unfolding channel_send_def with_lock_def channel_sendFrame_def Let_def i no_mask_key [of msg "if _ then _ else _"]
    by (auto simp: channel_ready_def r)
qed

lemma channel_sends_ready:
  "channel_ready c \<Longrightarrow> \<forall>(rand, msg, opcode)\<in>set ss. length msg < 2 ^ 29 \<Longrightarrow>
   \<exists>c'. channel_sends ss c = Inr c' \<and> channel_ready c' \<and>
     wsc_sent c' = wsc_sent c @ map (\<lambda>(rand, msg, opcode). build_ws_frame msg [0, 0, 0, 0] False opcode True) ss"
proof (induction ss arbitrary: c)
  case (Cons s ss)
  obtain rand msg opcode where s: "s = (rand, msg, opcode)" by (cases s)
  obtain c1 where c1: "channel_send True rand msg opcode c = Inr c1" "channel_ready c1"
    "wsc_sent c1 = wsc_sent c @ [build_ws_frame msg [0, 0, 0, 0] False opcode True]"
    using channel_send_ready [OF Cons.prems(1), of msg rand opcode] Cons.prems(2) s by auto
  obtain c2 where "channel_sends ss c1 = Inr c2" "channel_ready c2"
    "wsc_sent c2 = wsc_sent c1 @ map (\<lambda>(rand, msg, opcode). build_ws_frame msg [0, 0, 0, 0] False opcode True) ss"
    using Cons.IH [OF c1(2)] Cons.prems(2) by auto
  then show ?case using c1 by (simp add: s)
qed simp

text \<open>C40: What a channel sends is what the peer reads. Any sequence of messages with their opcodes, each below
  512 MB, is sent without overrunning the buffer of the channel, with the mutex free afterwards; and the
  frame parser of the peer, in one stream, reads exactly these messages with their opcodes, in order.\<close>
theorem channel_messages_arrive:
  assumes "\<forall>(rand, msg, opcode)\<in>set ss. length msg < 2 ^ 29"
  shows "\<exists>c. channel_sends ss (WebSocketChannel_new t) = Inr c \<and> \<not> wsc_locked c \<and>
    ws_feedRecvData True [] (concat (wsc_sent c)) = Some (Inr (map (\<lambda>(rand, msg, opcode). (ws_opcode_code opcode, msg)) ss, []))"
proof -
  let ?f = "\<lambda>(rand :: byte list, msg :: byte list, opcode). (msg, [0, 0, 0, 0] :: byte list, False, opcode, True)"
  have "channel_ready (WebSocketChannel_new t)" by (simp add: channel_ready_def WebSocketChannel_new_def)
  from channel_sends_ready [OF this assms] obtain c where c: "channel_sends ss (WebSocketChannel_new t) = Inr c" "channel_ready c"
    "wsc_sent c = map ws_encode (map ?f ss)"
    by (auto simp: WebSocketChannel_new_def case_prod_unfold comp_def)
  have "\<forall>s\<in>set (map ?f ss). ws_sendable s" using assms by fastforce
  from feed_loop_frames [OF this, of "[]" "[]"]
  have "ws_feedRecvData True [] (concat (wsc_sent c)) = feed_loop True [] (map ws_message (map ?f ss))" by (simp add: ws_feedRecvData_def c(3))
  also have "\<dots> = Some (Inr (map ws_message (map ?f ss), []))" by (rule feed_loop_stop) (simp add: next_frame_def)
  also have "map ws_message (map ?f ss) = map (\<lambda>(rand, msg, opcode). (ws_opcode_code opcode, msg)) ss" by (simp add: case_prod_unfold comp_def)
  finally show ?thesis using c by (auto simp: channel_ready_def)
qed

lemma channel_messages_arrive_witness:
  "\<exists>c. channel_sends [([1, 2, 3, 4], [104, 105], WS_OPCODE_TEXT), ([0, 0, 0, 0], [], WS_OPCODE_PING)] (WebSocketChannel_new WS_CLIENT) = Inr c \<and>
    \<not> wsc_locked c \<and> ws_feedRecvData True [] (concat (wsc_sent c)) =
      Some (Inr (map (\<lambda>(rand, msg, opcode). (ws_opcode_code opcode, msg))
        [([1, 2, 3, 4] :: byte list, [104, 105], WS_OPCODE_TEXT), ([0, 0, 0, 0], [], WS_OPCODE_PING)], []))"
  by (rule channel_messages_arrive) simp

text \<open>Sending a string never returns. \<open>send\<close> of a string locks the mutex and calls \<open>send\<close> of its bytes,
  which locks it again.\<close>
theorem send_text_deadlocks: "channel_send_text alloc rand msg c = Inl Locked_again"
  by (simp add: channel_send_text_def channel_send_def with_lock_def)

end
