(* ===== verification/HttpAsync.thy ===== *)
theory HttpAsync
  imports HttpFetch WsServing
begin

section \<open>The asynchronous HTTP client: async_send, doTask and the callbacks of its channels\<close>

text \<open>
  \<open>async_send\<close> makes a task and posts it to the loop; there \<open>doTask\<close> connects a channel, whose callbacks
  send the request, feed the parser, call the user's callback and release channel and task. Tasks,
  channels and ios are in stores indexed by pointers; \<open>None\<close> is memory that is not allocated (any more), and
  using or deleting it is a fault. The io and the channel that \<open>doTask\<close> makes have the number of their
  task as their pointer, which is fresh in their stores. The socket is a blocking one, so \<open>connect\<close> ends at
  once, and \<open>onconnect\<close> runs inside \<open>doTask\<close>. Two things are simpler than in the program: the user's
  callback does not call back into the client, and the client is not deleted before its tasks are done.
\<close>

subsection \<open>State\<close>

datatype async_fault = Freed_channel | Freed_task | Freed_io | Null_channel | Request_fault client_fault | Parser_fault

datatype async_action = Ac_send nat string | Ac_callback nat HttpResponse | Ac_close nat | Ac_delete nat

record http_task =
  ht_req :: HttpRequest
  ht_start_time :: int
  ht_ps :: http_parser
  ht_parser :: HttpParser

record task_io =
  ti_fd :: int
  ti_ctx :: nat
  ti_closed :: bool
  ti_reads :: bool
  ti_keepalive :: bool

record AsyncClient =
  ac_loop_thread :: bool
  ac_queue :: "nat list"
  ac_tasks :: "nat \<Rightarrow> http_task option"
  ac_chans :: "nat \<Rightarrow> nat option"
  ac_ios :: "nat \<Rightarrow> task_io option"
  m_channels :: "(int \<times> nat) list"
  ac_next :: nat
  ac_actions :: "async_action list"

definition acts :: "async_action list \<Rightarrow> AsyncClient \<Rightarrow> AsyncClient" where
  "acts as c = c\<lparr>ac_actions := ac_actions c @ as\<rparr>"

definition AsyncClient_new :: "bool \<Rightarrow> AsyncClient" where
  "AsyncClient_new loop_thread = \<lparr>ac_loop_thread = loop_thread, ac_queue = [], ac_tasks = (\<lambda>_. None), ac_chans = (\<lambda>_. None),
     ac_ios = (\<lambda>_. None), m_channels = [], ac_next = 0, ac_actions = []\<rparr>"

subsection \<open>Operations\<close>

text \<open>The user's request object is returned with its URL taken apart.\<close>

definition async_send :: "HttpParser \<Rightarrow> int \<Rightarrow> HttpRequest option \<Rightarrow> AsyncClient \<Rightarrow> async_fault + int \<times> HttpRequest option \<times> AsyncClient" where
  "async_send mem now req c =
     (case req of
        None \<Rightarrow> Inr (-1, None, c)
      | Some req \<Rightarrow>
          if req_url req = [] then Inr (-1, Some req, c)
          else case parseUrl (req_url req) (req_u req) of
                 Inl e \<Rightarrow> Inl (Request_fault e)
               | Inr r \<Rightarrow>
                   let req = req\<lparr>req_u := snd r\<rparr>
                   in if fst r \<noteq> 0 then Inr (-1, Some req, c)
                      else let task = ac_next c;
                               parser = (HttpParser_new HTTP_PARSER_RESPONSE mem)\<lparr>hp_resp := HttpResponse_new (hp_resp mem)\<rparr>
                           in Inr (0, Some req, c\<lparr>ac_loop_thread := True, ac_next := task + 1,
                                ac_tasks := (ac_tasks c)(task \<mapsto> \<lparr>ht_req = req, ht_start_time = now, ht_ps = http_parser_init HTTP_BOTH,
                                  ht_parser = parser\<rparr>),
                                ac_queue := ac_queue c @ [task]\<rparr>))"

definition removeChannel :: "int \<Rightarrow> AsyncClient \<Rightarrow> async_fault + AsyncClient" where
  "removeChannel fd c =
     (case map_of (m_channels c) fd of
        None \<Rightarrow> Inl Null_channel
      | Some channel \<Rightarrow>
          (case ac_chans c channel of
             None \<Rightarrow> Inl Freed_channel
           | Some task \<Rightarrow>
               (case ac_tasks c task of
                  None \<Rightarrow> Inl Freed_task
                | Some _ \<Rightarrow> Inr (acts [Ac_delete task] (c\<lparr>m_channels := filter (\<lambda>e. fst e \<noteq> fd) (m_channels c),
                    ac_chans := (ac_chans c)(channel := None), ac_tasks := (ac_tasks c)(task := None)\<rparr>)))))"

text \<open>\<open>Channel::close\<close>: the first \<open>io_close\<close> calls \<open>onclose\<close>, which finds the channel by the descriptor of the io.\<close>

definition async_close :: "nat \<Rightarrow> AsyncClient \<Rightarrow> async_fault + AsyncClient" where
  "async_close io c =
     (case ac_ios c io of
        None \<Rightarrow> Inl Freed_io
      | Some i \<Rightarrow>
          if ti_closed i then Inr c
          else let c = acts [Ac_close io] (c\<lparr>ac_ios := (ac_ios c)(io \<mapsto> i\<lparr>ti_closed := True\<rparr>)\<rparr>)
               in if ac_chans c (ti_ctx i) = None then Inl Freed_channel
                  else case removeChannel (ti_fd i) c of
                         Inl e \<Rightarrow> Inl e
                       | Inr c \<Rightarrow> Inr (c\<lparr>ac_ios := (ac_ios c)(io \<mapsto> i\<lparr>ti_closed := True, ti_fd := -1\<rparr>)\<rparr>))"

text \<open>The body of \<open>onconnect\<close>; a send that fails closes the io.\<close>

definition async_sendHttpRequest :: "bool \<Rightarrow> int \<Rightarrow> nat \<Rightarrow> nat \<Rightarrow> AsyncClient \<Rightarrow> async_fault + AsyncClient" where
  "async_sendHttpRequest ok now io channel c =
     (case ac_chans c channel of
        None \<Rightarrow> Inl Freed_channel
      | Some task \<Rightarrow>
          (case ac_tasks c task of
             None \<Rightarrow> Inl Freed_task
           | Some t \<Rightarrow>
               let data' = makeHttpRequest (ht_req t)
               in if data' = [] then Inr c
                  else if isTimeout (ht_req t) (ht_start_time t) now then Inr c
                  else if ok then Inr (acts [Ac_send io data'] c)
                  else async_close io c))"

text \<open>
  \<open>doTask\<close>. Its outside: the descriptor of the socket, whether \<open>get_io\<close> and \<open>connect\<close> succeed, whether the
  peer is still there, and then the time and the result of the send. \<open>startConnect\<close> is \<open>io_connect\<close> and
  \<open>io_connect_cb\<close> (theory \<open>IoEvents\<close>) on this io: a failure of \<open>connect\<close> is ignored, a socket without a peer
  is closed, and otherwise \<open>onconnect\<close> is called; then the io is read.
\<close>

record connecting =
  cn_fd :: int
  cn_io :: bool
  cn_connects :: bool
  cn_peer :: bool
  cn_now :: int
  cn_sends :: bool

definition addChannel :: "nat \<Rightarrow> int \<Rightarrow> AsyncClient \<Rightarrow> AsyncClient" where
  "addChannel channel fd c = c\<lparr>ac_chans := (ac_chans c)(channel \<mapsto> 0), m_channels := map_put fd channel (m_channels c)\<rparr>"

definition startConnect :: "connecting \<Rightarrow> nat \<Rightarrow> task_io \<Rightarrow> AsyncClient \<Rightarrow> async_fault + AsyncClient" where
  "startConnect e io i c =
     (if \<not> cn_connects e then Inr c
      else let c = c\<lparr>ac_ios := (ac_ios c)(io \<mapsto> i\<lparr>ti_reads := True\<rparr>)\<rparr>
           in if \<not> cn_peer e then async_close io c
              else async_sendHttpRequest (cn_sends e) (cn_now e) io (ti_ctx i) c)"

definition doTask :: "connecting \<Rightarrow> nat \<Rightarrow> AsyncClient \<Rightarrow> async_fault + AsyncClient" where
  "doTask e task c =
     (if ac_tasks c task = None then Inl Freed_task
      else if \<not> cn_io e then Inr c
      else let io = task; c = addChannel task (cn_fd e) c
           in case map_of (m_channels c) (cn_fd e) of
                None \<Rightarrow> Inl Null_channel
              | Some channel \<Rightarrow>
                  let i = \<lparr>ti_fd = cn_fd e, ti_ctx = channel, ti_closed = False, ti_reads = False, ti_keepalive = False\<rparr>;
                      c = c\<lparr>ac_chans := (ac_chans c)(channel \<mapsto> task), ac_ios := (ac_ios c)(io \<mapsto> i)\<rparr>
                  in startConnect e io i c)"

text \<open>The body of \<open>onread\<close>.\<close>

definition resp_header :: "string \<Rightarrow> HttpResponse \<Rightarrow> string" where
  "resp_header k resp = (case map_of (resp_headers resp) k of None \<Rightarrow> [] | Some v \<Rightarrow> v)"

definition async_onread :: "string \<Rightarrow> nat \<Rightarrow> AsyncClient \<Rightarrow> async_fault + AsyncClient" where
  "async_onread d io c =
     (case ac_ios c io of
        None \<Rightarrow> Inl Freed_io
      | Some i \<Rightarrow>
          (case ac_chans c (ti_ctx i) of
             None \<Rightarrow> Inl Freed_channel
           | Some task \<Rightarrow>
               (case ac_tasks c task of
                  None \<Rightarrow> Inl Freed_task
                | Some t \<Rightarrow>
                    (case HttpParser_feedRecvData (ht_ps t) (ht_parser t) d of
                       None \<Rightarrow> Inl Parser_fault
                     | Some (nparse, ps, hp) \<Rightarrow>
                         let c = c\<lparr>ac_tasks := (ac_tasks c)(task \<mapsto> t\<lparr>ht_ps := ps, ht_parser := hp\<rparr>)\<rparr>
                         in if nparse \<noteq> length d then async_close io c
                            else if isComplete hp then
                              (let c = acts [Ac_callback task (hp_resp hp)] c
                               in if ti_keepalive i \<and> resp_header ''Connection'' (hp_resp hp) = ''keep-alive'' then Inr c
                                  else async_close io c)
                            else Inr c))))"

subsection \<open>Runs\<close>

text \<open>
  The user sends; the loop runs the posted tasks in their order, on descriptors that no open io has; an
  io that is connected and not closed delivers bytes or is closed (by the peer, an error or a timeout).
\<close>

definition open_io :: "AsyncClient \<Rightarrow> nat \<Rightarrow> task_io \<Rightarrow> bool" where
  "open_io c k i \<longleftrightarrow> ac_ios c k = Some i \<and> \<not> ti_closed i"

inductive async_step :: "AsyncClient \<Rightarrow> AsyncClient \<Rightarrow> bool" where
  sends: "async_send mem now req c = Inr (r, req', c') \<Longrightarrow> async_step c c'"
| does: "ac_queue c = task # q \<Longrightarrow> \<forall>k i. open_io c k i \<longrightarrow> ti_fd i \<noteq> cn_fd e \<Longrightarrow> doTask e task (c\<lparr>ac_queue := q\<rparr>) = Inr c' \<Longrightarrow> async_step c c'"
| reads: "open_io c k i \<Longrightarrow> ti_reads i \<Longrightarrow> d \<noteq> [] \<Longrightarrow> async_onread d k c = Inr c' \<Longrightarrow> async_step c c'"
| closes: "open_io c k i \<Longrightarrow> ti_reads i \<Longrightarrow> async_close k c = Inr c' \<Longrightarrow> async_step c c'"

inductive async_runs :: "AsyncClient \<Rightarrow> AsyncClient \<Rightarrow> bool" where
  here: "async_runs c c"
| on: "async_runs c c' \<Longrightarrow> async_step c' c'' \<Longrightarrow> async_runs c c''"

subsection \<open>Every session is released once\<close>

definition callbacks :: "nat \<Rightarrow> AsyncClient \<Rightarrow> nat" where
  "callbacks k c = length (filter (\<lambda>a. \<exists>r. a = Ac_callback k r) (ac_actions c))"

definition deletions :: "nat \<Rightarrow> AsyncClient \<Rightarrow> nat" where
  "deletions k c = length (filter (\<lambda>a. a = Ac_delete k) (ac_actions c))"

text \<open>An open io with its channel, its task and its entry in the map.\<close>

definition session_ok :: "AsyncClient \<Rightarrow> nat \<Rightarrow> task_io \<Rightarrow> bool" where
  "session_ok c k i \<longleftrightarrow> ti_ctx i = k \<and> ac_chans c k = Some k \<and> ac_tasks c k \<noteq> None \<and> map_of (m_channels c) (ti_fd i) = Some k \<and>
     \<not> ti_keepalive i"

definition async_inv :: "AsyncClient \<Rightarrow> bool" where
  "async_inv c \<longleftrightarrow>
     distinct (ac_queue c) \<and> (\<forall>k\<in>set (ac_queue c). ac_tasks c k \<noteq> None \<and> ac_ios c k = None) \<and>
     (\<forall>k. ac_next c \<le> k \<longrightarrow> ac_tasks c k = None \<and> ac_ios c k = None \<and> callbacks k c = 0 \<and> deletions k c = 0) \<and>
     (\<forall>k i. open_io c k i \<longrightarrow> session_ok c k i) \<and>
     (\<forall>k t. ac_tasks c k = Some t \<longrightarrow> parser_ok HTTP_MAX_HEADER_SIZE (ht_ps t) \<and> callbacks k c = 0 \<and> deletions k c = 0) \<and>
     (\<forall>k. callbacks k c \<le> deletions k c \<and> deletions k c \<le> 1)"

lemma acts_simps [simp]:
  "ac_loop_thread (acts as c) = ac_loop_thread c" "ac_queue (acts as c) = ac_queue c" "ac_tasks (acts as c) = ac_tasks c"
  "ac_chans (acts as c) = ac_chans c" "ac_ios (acts as c) = ac_ios c" "m_channels (acts as c) = m_channels c"
  "ac_next (acts as c) = ac_next c" "ac_actions (acts as c) = ac_actions c @ as"
  "acts [] c = c"
  by (simp_all add: acts_def)

lemma async_inv_new: "async_inv (AsyncClient_new b)"
  by (simp add: async_inv_def AsyncClient_new_def open_io_def callbacks_def deletions_def)

lemma feed_returns:
  assumes "parser_ok HTTP_MAX_HEADER_SIZE ps"
  shows "\<exists>n ps' hp'. HttpParser_feedRecvData ps hp d = Some (n, ps', hp') \<and> parser_ok HTTP_MAX_HEADER_SIZE ps'"
  using execute_ok [OF HttpParser_cbs_keep assms, of hp d] by (auto simp: HttpParser_feedRecvData_def)

lemma map_of_remove: "map_of (filter (\<lambda>e. fst e \<noteq> k) m) x = (if x = k then None else map_of m x)"
  by (induction m) auto

text \<open>What closing an open io does.\<close>

definition closed_session :: "nat \<Rightarrow> task_io \<Rightarrow> AsyncClient \<Rightarrow> AsyncClient" where
  "closed_session k i c = acts [Ac_close k, Ac_delete k] (c\<lparr>m_channels := filter (\<lambda>e. fst e \<noteq> ti_fd i) (m_channels c),
     ac_chans := (ac_chans c)(k := None), ac_tasks := (ac_tasks c)(k := None),
     ac_ios := (ac_ios c)(k \<mapsto> i\<lparr>ti_closed := True, ti_fd := -1\<rparr>)\<rparr>)"

lemma async_close_open:
  assumes "open_io c k i" "session_ok c k i"
  shows "async_close k c = Inr (closed_session k i c)"
  using assms by (auto simp: async_close_def open_io_def session_ok_def removeChannel_def closed_session_def acts_def)

lemma closed_session_simps [simp]:
  "ac_queue (closed_session k i c) = ac_queue c" "ac_next (closed_session k i c) = ac_next c"
  "ac_tasks (closed_session k i c) = (ac_tasks c)(k := None)"
  "ac_ios (closed_session k i c) = (ac_ios c)(k \<mapsto> i\<lparr>ti_closed := True, ti_fd := -1\<rparr>)"
  by (simp_all add: closed_session_def)

lemma count_simps:
  "callbacks k (c\<lparr>ac_tasks := T\<rparr>) = callbacks k c" "deletions k (c\<lparr>ac_tasks := T\<rparr>) = deletions k c"
  "callbacks k (acts as c) = callbacks k c + length (filter (\<lambda>a. \<exists>r. a = Ac_callback k r) as)"
  "deletions k (acts as c) = deletions k c + length (filter (\<lambda>a. a = Ac_delete k) as)"
  "callbacks j (closed_session k i c) = callbacks j c" "deletions j (closed_session k i c) = deletions j c + (if j = k then 1 else 0)"
  by (simp_all add: callbacks_def deletions_def closed_session_def)

lemma open_io_closed: "open_io (closed_session k i c) j i' \<longleftrightarrow> j \<noteq> k \<and> open_io c j i'"
  by (auto simp: open_io_def closed_session_def)

lemma async_inv_session: "async_inv c \<Longrightarrow> open_io c k i \<Longrightarrow> session_ok c k i"
  by (simp add: async_inv_def)

text \<open>After at most one call of the callback, closing keeps the invariant.\<close>

lemma async_inv_closed:
  assumes c: "async_inv c" "open_io c k i" and as: "as = [] \<or> as = [Ac_callback k r]"
  shows "async_inv (closed_session k i (acts as c))"
proof -
  note s = async_inv_session [OF c]
  have k: "k < ac_next c" "k \<notin> set (ac_queue c)" "ac_tasks c k \<noteq> None" using c s by (auto simp: async_inv_def open_io_def session_ok_def not_less [symmetric])
  have o: "open_io (acts as c) j i' = open_io c j i'" for j i' by (simp add: open_io_def)
  have S: "session_ok (closed_session k i (acts as c)) j i'" if "open_io c j i'" "j \<noteq> k" for j i'
  proof -
    have "session_ok c j i'" using async_inv_session [OF c(1) that(1)] .
    moreover have "ti_fd i' \<noteq> ti_fd i" using calculation s that(2) by (auto simp: session_ok_def)
    ultimately show ?thesis using that(2) by (auto simp: session_ok_def closed_session_def map_of_remove)
  qed
  have C: "callbacks k c = 0" "deletions k c = 0" using c(1) k(3) by (auto simp: async_inv_def)
  let ?c = "closed_session k i (acts as c)"
  have B: "j \<noteq> k \<Longrightarrow> callbacks j ?c = callbacks j c \<and> deletions j ?c = deletions j c" "callbacks k ?c \<le> 1" "deletions k ?c = 1" for j
    using as C by (auto simp: count_simps)
  have "(\<forall>j. ac_next ?c \<le> j \<longrightarrow> ac_tasks ?c j = None \<and> ac_ios ?c j = None \<and> callbacks j ?c = 0 \<and> deletions j ?c = 0)"
    using c(1) k(1) B(1) by (auto simp: async_inv_def)
  moreover have "\<forall>j t. ac_tasks ?c j = Some t \<longrightarrow> parser_ok HTTP_MAX_HEADER_SIZE (ht_ps t) \<and> callbacks j ?c = 0 \<and> deletions j ?c = 0"
    using c(1) B(1) by (auto simp: async_inv_def)
  moreover have "callbacks j ?c \<le> deletions j ?c \<and> deletions j ?c \<le> 1" for j
    using c(1) B by (cases "j = k") (auto simp: async_inv_def)
  moreover have "distinct (ac_queue ?c) \<and> (\<forall>j\<in>set (ac_queue ?c). ac_tasks ?c j \<noteq> None \<and> ac_ios ?c j = None)"
    using c(1) k(2) by (auto simp: async_inv_def)
  moreover have "open_io ?c j i' \<longrightarrow> session_ok ?c j i'" for j i'
    using S by (simp add: open_io_closed o)
  ultimately show ?thesis unfolding async_inv_def by blast
qed

text \<open>The other changes of the state.\<close>

lemma async_inv_send:
  assumes "async_inv c" "async_send mem now req c = Inr (r, req', c')"
  shows "async_inv c'"
proof (cases "c' = c")
  case False
  then obtain q where c': "c' = c\<lparr>ac_loop_thread := True, ac_next := ac_next c + 1,
      ac_tasks := (ac_tasks c)(ac_next c \<mapsto> \<lparr>ht_req = q, ht_start_time = now, ht_ps = http_parser_init HTTP_BOTH,
        ht_parser = (HttpParser_new HTTP_PARSER_RESPONSE mem)\<lparr>hp_resp := HttpResponse_new (hp_resp mem)\<rparr>\<rparr>),
      ac_queue := ac_queue c @ [ac_next c]\<rparr>"
    using assms(2) by (auto simp: async_send_def Let_def split: option.splits if_splits sum.splits)
  have "callbacks k c' = callbacks k c" "deletions k c' = deletions k c" "open_io c' k i = open_io c k i" for k i
    by (simp_all add: c' callbacks_def deletions_def open_io_def)
  then show ?thesis
    using assms(1) unfolding async_inv_def by (auto simp: c' session_ok_def parser_ok_init)
qed (use assms(1) in simp)

lemma async_inv_acts: "async_inv c \<Longrightarrow> async_inv (acts [Ac_send k s] c)"
  unfolding async_inv_def by (auto simp: count_simps open_io_def session_ok_def)

lemma async_inv_task:
  assumes "async_inv c" "ac_tasks c k \<noteq> None" "parser_ok HTTP_MAX_HEADER_SIZE (ht_ps t)"
  shows "async_inv (c\<lparr>ac_tasks := (ac_tasks c)(k \<mapsto> t)\<rparr>)"
  using assms unfolding async_inv_def by (auto simp: count_simps open_io_def session_ok_def)

definition opened_session :: "nat \<Rightarrow> task_io \<Rightarrow> AsyncClient \<Rightarrow> AsyncClient" where
  "opened_session k i c = c\<lparr>m_channels := map_put (ti_fd i) k (m_channels c), ac_chans := (ac_chans c)(k \<mapsto> k), ac_ios := (ac_ios c)(k \<mapsto> i)\<rparr>"

lemma opened_session_simps [simp]:
  "ac_queue (opened_session k i c) = ac_queue c" "ac_next (opened_session k i c) = ac_next c"
  "ac_tasks (opened_session k i c) = ac_tasks c" "ac_actions (opened_session k i c) = ac_actions c"
  "ac_ios (opened_session k i c) = (ac_ios c)(k \<mapsto> i)"
  "callbacks j (opened_session k i c) = callbacks j c" "deletions j (opened_session k i c) = deletions j c"
  by (simp_all add: opened_session_def callbacks_def deletions_def)

lemma async_inv_opened:
  assumes c: "async_inv c" and k: "ac_tasks c k \<noteq> None" "k \<notin> set (ac_queue c)" "ac_ios c k = None"
    and i: "ti_ctx i = k" "\<not> ti_closed i" "\<not> ti_keepalive i" and fd: "\<forall>j i'. open_io c j i' \<longrightarrow> ti_fd i' \<noteq> ti_fd i"
  shows "async_inv (opened_session k i c) \<and> open_io (opened_session k i c) k i"
proof -
  have o: "open_io (opened_session k i c) j i' \<longleftrightarrow> (if j = k then i' = i else open_io c j i')" for j i'
    using i by (auto simp: open_io_def opened_session_def)
  have "session_ok (opened_session k i c) j i'" if "open_io (opened_session k i c) j i'" for j i'
    using that o [of j i'] async_inv_session [OF c] fd i k by (auto simp: session_ok_def opened_session_def map_of_put split: if_splits)
  moreover have "k < ac_next c" using c k(1) by (auto simp: async_inv_def not_less [symmetric])
  ultimately show ?thesis
    using c k o unfolding async_inv_def by auto
qed

subsection \<open>Progress\<close>

text \<open>An operation on one session leaves the others alone.\<close>

definition same_but :: "nat \<Rightarrow> AsyncClient \<Rightarrow> AsyncClient \<Rightarrow> bool" where
  "same_but k c c' \<longleftrightarrow> ac_queue c' = ac_queue c \<and> (\<forall>j. j \<noteq> k \<longrightarrow> ac_tasks c' j = ac_tasks c j \<and> ac_ios c' j = ac_ios c j)"

lemma send_request_ok:
  assumes "async_inv c" "open_io c k i"
  shows "\<exists>c'. async_sendHttpRequest ok now k (ti_ctx i) c = Inr c' \<and> async_inv c' \<and> same_but k c c' \<and>
    c' \<in> {c, acts [Ac_send k (makeHttpRequest (ht_req (the (ac_tasks c k))))] c, closed_session k i c}"
  using async_inv_session [OF assms] async_inv_acts [OF assms(1)] async_inv_closed [OF assms, of "[]"] async_close_open [OF assms(2)] assms(1)
  by (auto simp: async_sendHttpRequest_def session_ok_def same_but_def Let_def)

lemma doTask_opened:
  assumes "ac_tasks c task \<noteq> None" "cn_io e"
  shows "doTask e task c =
    (let i = \<lparr>ti_fd = cn_fd e, ti_ctx = task, ti_closed = False, ti_reads = cn_connects e, ti_keepalive = False\<rparr>;
         c = opened_session task i c
     in if \<not> cn_connects e then Inr c
        else if \<not> cn_peer e then async_close task c else async_sendHttpRequest (cn_sends e) (cn_now e) task task c)"
  using assms by (auto simp: doTask_def addChannel_def startConnect_def map_of_put opened_session_def Let_def)

lemma doTask_ok:
  assumes c: "async_inv c" "ac_queue c = task # q" "\<forall>k i. open_io c k i \<longrightarrow> ti_fd i \<noteq> cn_fd e"
  shows "\<exists>c'. doTask e task (c\<lparr>ac_queue := q\<rparr>) = Inr c' \<and> async_inv c' \<and> same_but task (c\<lparr>ac_queue := q\<rparr>) c'"
proof -
  let ?c = "c\<lparr>ac_queue := q\<rparr>"
  let ?i = "\<lparr>ti_fd = cn_fd e, ti_ctx = task, ti_closed = False, ti_reads = cn_connects e, ti_keepalive = False\<rparr>"
  have n: "callbacks k ?c = callbacks k c" "deletions k ?c = deletions k c" "open_io ?c k i = open_io c k i" for k i
    by (simp_all add: callbacks_def deletions_def open_io_def)
  have q: "async_inv ?c" using c(1,2) unfolding async_inv_def n by (auto simp: session_ok_def)
  have t: "ac_tasks ?c task \<noteq> None" "task \<notin> set (ac_queue ?c)" "ac_ios ?c task = None" using c(1,2) by (auto simp: async_inv_def)
  show ?thesis
  proof (cases "cn_io e")
    case True
    have o: "async_inv (opened_session task ?i ?c)" "open_io (opened_session task ?i ?c) task ?i"
      using async_inv_opened [OF q t, of ?i] c(3) n(3) by auto
    show ?thesis
      using doTask_opened [OF t(1) True] o(1) async_close_open [OF o(2) async_inv_session [OF o]] async_inv_closed [OF o, of "[]"]
        send_request_ok [OF o, of "cn_sends e" "cn_now e"]
      by (auto simp: Let_def same_but_def)
  next
    case False
    then show ?thesis using t(1) q by (simp add: doTask_def same_but_def)
  qed
qed

lemma async_onread_ok:
  assumes "async_inv c" "open_io c k i"
  shows "\<exists>c'. async_onread d k c = Inr c' \<and> async_inv c' \<and> same_but k c c'"
proof -
  have s: "session_ok c k i" by (rule async_inv_session [OF assms])
  then obtain t where t: "ac_tasks c k = Some t" by (auto simp: session_ok_def)
  then have "parser_ok HTTP_MAX_HEADER_SIZE (ht_ps t)" using assms(1) by (auto simp: async_inv_def)
  from feed_returns [OF this] obtain n ps hp where f: "HttpParser_feedRecvData (ht_ps t) (ht_parser t) d = Some (n, ps, hp)"
    "parser_ok HTTP_MAX_HEADER_SIZE ps" by blast
  let ?c = "c\<lparr>ac_tasks := (ac_tasks c)(k \<mapsto> t\<lparr>ht_ps := ps, ht_parser := hp\<rparr>)\<rparr>"
  have c: "async_inv ?c" "open_io ?c k i" using async_inv_task [OF assms(1), of k] t f(2) assms(2) by (auto simp: open_io_def)
  have cl: "async_close k (acts as ?c) = Inr (closed_session k i (acts as ?c))" for as
    by (rule async_close_open) (use c(2) async_inv_session [OF c] in \<open>simp_all add: open_io_def session_ok_def\<close>)
  have "async_onread d k c = (if n \<noteq> length d then async_close k (acts [] ?c)
      else if isComplete hp then async_close k (acts [Ac_callback k (hp_resp hp)] ?c) else Inr ?c)"
    using assms(2) s t f(1) by (auto simp: async_onread_def open_io_def session_ok_def Let_def)
  then show ?thesis using cl [of "[]"] cl [of "[_]"] async_inv_closed [OF c, of "[]"] async_inv_closed [OF c, of "[_]"] c(1)
    by (auto simp: same_but_def)
qed

lemma async_inv_step: "async_step c c' \<Longrightarrow> async_inv c \<Longrightarrow> async_inv c'"
proof (induction rule: async_step.induct)
  case (sends mem now req c r req' c')
  then show ?case using async_inv_send by blast
next
  case (does c task q e c')
  then show ?case using doTask_ok [OF does(4,1,2)] by auto
next
  case (reads c k i d c')
  then show ?case using async_onread_ok [of c k i d] by auto
next
  case (closes c k i c')
  then show ?case using async_close_open [of c k i] async_inv_session [of c k i] async_inv_closed [of c k i "[]"] by auto
qed

lemma async_inv_runs: "async_runs c c' \<Longrightarrow> async_inv c \<Longrightarrow> async_inv c'"
  by (induction rule: async_runs.induct) (auto intro: async_inv_step)

text \<open>C7: Every session of the asynchronous client ends at most once, and well. Whatever the user sends, the
  sockets do and the servers answer, in any order: a callback is called at most once, its channel and task
  are then deleted, and nothing is deleted twice. Nothing that is deleted is used either: a posted task can
  always be started, and an open connection takes any bytes and can always be closed, which releases it.\<close>
theorem async_sessions_end_once:
  assumes "async_runs (AsyncClient_new b) c"
  shows "callbacks k c \<le> deletions k c \<and> deletions k c \<le> 1 \<and>
    (ac_queue c = task # q \<and> (\<forall>j i. open_io c j i \<longrightarrow> ti_fd i \<noteq> cn_fd e) \<longrightarrow> (\<exists>c'. doTask e task (c\<lparr>ac_queue := q\<rparr>) = Inr c')) \<and>
    (open_io c k i \<longrightarrow> (\<exists>c'. async_onread d k c = Inr c') \<and>
      (\<exists>c'. async_close k c = Inr c' \<and> deletions k c' = 1 \<and> ac_tasks c' k = None \<and> ac_chans c' k = None))"
proof -
  have c: "async_inv c" using async_inv_runs [OF assms async_inv_new] .
  have "\<exists>c'. async_close k c = Inr c' \<and> deletions k c' = 1 \<and> ac_tasks c' k = None \<and> ac_chans c' k = None" if o: "open_io c k i"
  proof -
    have "session_ok c k i" by (rule async_inv_session [OF c o])
    moreover have "deletions k c = 0" using c calculation by (auto simp: async_inv_def session_ok_def)
    ultimately show ?thesis using async_close_open [OF o] by (simp add: count_simps) (simp add: closed_session_def)
  qed
  then show ?thesis using c doTask_ok [OF c, of task q e] async_onread_ok [OF c, of k i d] by (auto simp: async_inv_def)
qed

text \<open>A client that has posted one task.\<close>

definition sample_parsed :: url_st where
  "sample_parsed = sample_u\<lparr>u_scheme := ''http'', u_host := ''h'', u_port := 80, u_path := ''a''\<rparr>"

lemma sample_parses: "parseUrl (req_url sample_query) (req_u sample_query) = Inr (0, sample_parsed)"
proof -
  have "dec 80 = ''80''" by (simp add: dec.simps [of 80] dec.simps [of 8] digit_char_def char_of_def bit_iff_odd)
  then show ?thesis
    using parse_url_all [of "''http''" "''h''" 80 "''a''" sample_u] by (simp add: sample_query_def sample_parsed_def)
qed

definition sample_posted :: AsyncClient where
  "sample_posted = (AsyncClient_new True)\<lparr>ac_next := 1, ac_tasks := [0 \<mapsto> \<lparr>ht_req = sample_query\<lparr>req_u := sample_parsed\<rparr>, ht_start_time = 0,
     ht_ps = http_parser_init HTTP_BOTH, ht_parser = (HttpParser_new HTTP_PARSER_RESPONSE sample_memory)\<lparr>hp_resp := HttpResponse_new (hp_resp sample_memory)\<rparr>\<rparr>],
     ac_queue := [0]\<rparr>"

lemma sample_posted_runs: "async_runs (AsyncClient_new True) sample_posted"
proof (rule async_runs.on [OF async_runs.here])
  have "req_url sample_query \<noteq> []" by (simp add: sample_query_def)
  then have "async_send sample_memory 0 (Some sample_query) (AsyncClient_new True) = Inr (0, Some (sample_query\<lparr>req_u := sample_parsed\<rparr>), sample_posted)"
    using sample_parses by (simp add: async_send_def sample_posted_def AsyncClient_new_def Let_def)
  then show "async_step (AsyncClient_new True) sample_posted" by (rule async_step.sends)
qed

lemma sample_posted_queue: "ac_queue sample_posted = [0]" "\<forall>j i. open_io sample_posted j i \<longrightarrow> ti_fd i \<noteq> fd"
  by (simp_all add: sample_posted_def AsyncClient_new_def open_io_def)

definition sample_link :: connecting where
  "sample_link = \<lparr>cn_fd = 5, cn_io = True, cn_connects = True, cn_peer = True, cn_now = 1, cn_sends = True\<rparr>"

lemma async_sessions_end_once_witness: "\<exists>c'. doTask sample_link 0 (sample_posted\<lparr>ac_queue := []\<rparr>) = Inr c'"
  using async_sessions_end_once [OF sample_posted_runs, of _ 0 "[]" sample_link] sample_posted_queue by blast

subsection \<open>Failures\<close>

text \<open>A session that is not started again and has no connection that could end it.\<close>

definition lost :: "nat \<Rightarrow> AsyncClient \<Rightarrow> bool" where
  "lost k c \<longleftrightarrow> async_inv c \<and> k \<notin> set (ac_queue c) \<and> ac_tasks c k \<noteq> None \<and> (\<forall>i. ac_ios c k = Some i \<longrightarrow> \<not> ti_reads i)"

lemma lost_same: "same_but j c c' \<Longrightarrow> async_inv c' \<Longrightarrow> j \<noteq> k \<Longrightarrow> lost k c \<Longrightarrow> lost k c'"
  by (auto simp: lost_def same_but_def)

lemma lost_step: "async_step c c' \<Longrightarrow> lost k c \<Longrightarrow> lost k c'"
proof (induction rule: async_step.induct)
  case (sends mem now req c r req' c')
  then have c: "async_inv c" "async_inv c'" using async_inv_send by (auto simp: lost_def)
  have "k < ac_next c" using sends(2) c(1) by (auto simp: lost_def async_inv_def not_less [symmetric])
  with c(2) sends show ?case by (auto simp: lost_def async_send_def Let_def split: option.splits if_splits sum.splits)
next
  case (does c task q e c')
  have c: "async_inv c" using does(4) by (simp add: lost_def)
  have "same_but task (c\<lparr>ac_queue := q\<rparr>) c'" "async_inv c'" using doTask_ok [OF c does(1,2)] does(3) by auto
  then show ?case using does(1,4) by (auto simp: lost_def same_but_def)
next
  case (reads c j i d c')
  then have "same_but j c c'" "async_inv c'" using async_onread_ok [of c j i d] by (auto simp: lost_def)
  moreover have "j \<noteq> k" using reads by (auto simp: lost_def open_io_def)
  ultimately show ?case using lost_same reads(5) by blast
next
  case (closes c j i c')
  then have c: "async_inv c" "c' = closed_session j i c" using async_close_open [of c j i] async_inv_session [of c j i] by (auto simp: lost_def)
  then have "async_inv c'" using async_inv_closed [OF c(1) closes(1), of "[]"] by simp
  moreover have "j \<noteq> k" "same_but j c c'" using closes(1,2,4) by (auto simp: lost_def open_io_def c(2) same_but_def)
  ultimately show ?case using lost_same closes(4) by blast
qed

lemma lost_runs: "async_runs c c' \<Longrightarrow> lost k c \<Longrightarrow> lost k c'"
  by (induction rule: async_runs.induct) (auto intro: lost_step)

text \<open>C38: A connection that fails is never reported. When \<open>doTask\<close> gets no io or \<open>connect\<close> fails, the task is
  dropped without a word: whatever happens later, its callback is never called, and its task, and the
  channel if it had one, are never released.\<close>
theorem failed_connect_never_answered:
  assumes "async_runs (AsyncClient_new b) c" "ac_queue c = task # q" "\<forall>j i. open_io c j i \<longrightarrow> ti_fd i \<noteq> cn_fd e"
    and "\<not> cn_io e \<or> \<not> cn_connects e" "doTask e task (c\<lparr>ac_queue := q\<rparr>) = Inr c'" "async_runs c' c''"
  shows "callbacks task c'' = 0 \<and> deletions task c'' = 0 \<and> ac_tasks c'' task \<noteq> None"
proof -
  have c: "async_inv c" using async_inv_runs [OF assms(1) async_inv_new] .
  then have t: "ac_tasks c task \<noteq> None" "task \<notin> set q" "ac_ios c task = None" using assms(2) by (auto simp: async_inv_def)
  have "async_inv c'" using doTask_ok [OF c assms(2,3)] assms(5) by auto
  moreover have "ac_queue c' = q \<and> ac_tasks c' = ac_tasks c \<and> (\<forall>i. ac_ios c' task = Some i \<longrightarrow> \<not> ti_reads i)"
  proof (cases "cn_io e")
    case True
    then show ?thesis using doTask_opened [of "c\<lparr>ac_queue := q\<rparr>" task e] t assms(4,5) by (auto simp: Let_def)
  next
    case False
    then show ?thesis using t assms(5) by (auto simp: doTask_def)
  qed
  ultimately have "lost task c'" using t by (simp add: lost_def)
  from lost_runs [OF assms(6) this] show ?thesis by (auto simp: lost_def async_inv_def)
qed

lemma failed_connect_never_answered_witness:
  "\<exists>c'. doTask (sample_link\<lparr>cn_connects := False\<rparr>) 0 (sample_posted\<lparr>ac_queue := []\<rparr>) = Inr c' \<and> callbacks 0 c' = 0 \<and> ac_tasks c' 0 \<noteq> None"
proof -
  let ?e = "sample_link\<lparr>cn_connects := False\<rparr>"
  have "ac_tasks (sample_posted\<lparr>ac_queue := []\<rparr>) 0 \<noteq> None" by (simp add: sample_posted_def)
  then obtain c' where c': "doTask ?e 0 (sample_posted\<lparr>ac_queue := []\<rparr>) = Inr c'"
    using doTask_opened [of "sample_posted\<lparr>ac_queue := []\<rparr>" 0 ?e] by (simp add: sample_link_def Let_def)
  have "\<forall>j i. open_io sample_posted j i \<longrightarrow> ti_fd i \<noteq> cn_fd ?e" by (rule sample_posted_queue(2))
  from failed_connect_never_answered [OF sample_posted_runs sample_posted_queue(1) this _ c' async_runs.here] c' show ?thesis by simp
qed

subsection \<open>An exchange\<close>

text \<open>C18: The asynchronous client and the server exchange a message. When the URL can be taken apart and the
  request be sent, \<open>async_send\<close> posts a task, which connects and sends the request in time; the server of a
  new connection, having received it whole, answers with the response of the routed function; and when
  this response arrives in one piece, the callback is called once with its status, headers and body, and
  the connection is closed and released.\<close>
theorem async_exchange:
  fixes mem smem :: HttpParser
  assumes "async_runs (AsyncClient_new b) c" "ac_queue c = []" "req_url r \<noteq> []" "parseUrl (req_url r) (req_u r) = Inr (0, u)"
    and "sendable (r\<lparr>req_u := u\<rparr>)" "plain_routes R" "getHandleFunc (req_method r) (CHR ''/'' # u_path u) R = Some func"
    and "\<forall>j i. open_io c j i \<longrightarrow> ti_fd i \<noteq> cn_fd e" "cn_io e" "cn_connects e" "cn_peer e" "cn_sends e"
    and "\<not> isTimeout (r\<lparr>req_u := u\<rparr>) now (cn_now e)"
    and "plain_response (snd (func (request_into (client_request (r\<lparr>req_u := u\<rparr>)) (HttpRequest_new (hp_req smem))) (HttpResponse_new (hp_resp smem))))"
  defines "q \<equiv> r\<lparr>req_u := u\<rparr>" and "k \<equiv> ac_next c"
    and "p \<equiv> snd (func (request_into (client_request (r\<lparr>req_u := u\<rparr>)) (HttpRequest_new (hp_req smem))) (HttpResponse_new (hp_resp smem)))"
  shows "\<exists>c1 c2 c3 h resp. async_send mem now (Some r) c = Inr (0, Some q, c1) \<and> doTask e k (c1\<lparr>ac_queue := []\<rparr>) = Inr c2 \<and>
    on_recv ek (HttpHandle_new smem R service) (makeHttpRequest q) = Inr h \<and> hh_actions h = [Io_send (HttpResponse_dump HTTP_HEADER p)] \<and>
    async_onread (HttpResponse_dump HTTP_HEADER p) k c2 = Inr c3 \<and>
    ac_actions c3 = ac_actions c @ [Ac_send k (makeHttpRequest q), Ac_callback k resp, Ac_close k, Ac_delete k] \<and>
    resp_status_code resp = 200 \<and> resp_body resp = resp_body p \<and>
    resp_headers resp = put_headers (resp_headers p @ [(''Content-Length'', dec (length (resp_body p)))]) []"
proof -
  let ?hp = "(HttpParser_new HTTP_PARSER_RESPONSE mem)\<lparr>hp_resp := HttpResponse_new (hp_resp mem)\<rparr>"
  let ?t = "\<lparr>ht_req = q, ht_start_time = now, ht_ps = http_parser_init HTTP_BOTH, ht_parser = ?hp\<rparr>"
  let ?c1 = "c\<lparr>ac_loop_thread := True, ac_next := k + 1, ac_tasks := (ac_tasks c)(k \<mapsto> ?t), ac_queue := [k]\<rparr>"
  let ?i = "\<lparr>ti_fd = cn_fd e, ti_ctx = k, ti_closed = False, ti_reads = True, ti_keepalive = False\<rparr>"
  let ?c2 = "acts [Ac_send k (makeHttpRequest q)] (opened_session k ?i (?c1\<lparr>ac_queue := []\<rparr>))"
  have c1: "async_send mem now (Some r) c = Inr (0, Some q, ?c1)"
    using assms(2-4) by (simp add: async_send_def q_def k_def Let_def)
  have c2: "doTask e k (?c1\<lparr>ac_queue := []\<rparr>) = Inr ?c2"
    using doTask_opened [of "?c1\<lparr>ac_queue := []\<rparr>" k e] assms(9-13) makeHttpRequest_nonempty
    by (simp add: Let_def async_sendHttpRequest_def q_def) (simp add: opened_session_def)
  have "awaits_answer ?hp" "awaits_response (http_parser_init HTTP_BOTH)" "plain_response p"
    using awaits_init(2) assms(14) by (simp_all add: awaits_answer_def hp_clear_def HttpParser_new_def p_def)
  from feed_response [OF this(2,1,3)] obtain ps hp where f: "HttpParser_feedRecvData (http_parser_init HTTP_BOTH) ?hp (HttpResponse_dump HTTP_HEADER p) =
      Some (length (HttpResponse_dump HTTP_HEADER p), ps, hp)" "hp = response_collected p (method (http_parser_init HTTP_BOTH)) ?hp"
    by blast
  have hp: "isComplete hp" "resp_status_code (hp_resp hp) = 200" "resp_body (hp_resp hp) = resp_body p"
    "resp_headers (hp_resp hp) = put_headers (resp_headers p @ [(''Content-Length'', dec (length (resp_body p)))]) []"
    by (simp_all add: f(2) response_collected_def isComplete_def HttpResponse_new_def message_headers_def length_header_def)
  let ?c3 = "acts [Ac_callback k (hp_resp hp)] (?c2\<lparr>ac_tasks := (ac_tasks ?c2)(k \<mapsto> ?t\<lparr>ht_ps := ps, ht_parser := hp\<rparr>)\<rparr>)"
  have o: "open_io ?c3 k ?i" "session_ok ?c3 k ?i" by (simp_all add: open_io_def session_ok_def opened_session_def map_of_put acts_def)
  have "async_onread (HttpResponse_dump HTTP_HEADER p) k ?c2 = async_close k ?c3"
    using f(1) hp(1) by (simp add: async_onread_def Let_def) (simp add: opened_session_def acts_def)
  also have "\<dots> = Inr (closed_session k ?i ?c3)" by (rule async_close_open [OF o])
  finally have c3: "async_onread (HttpResponse_dump HTTP_HEADER p) k ?c2 = Inr (closed_session k ?i ?c3)" .
  have a: "ac_actions (closed_session k ?i ?c3) = ac_actions c @ [Ac_send k (makeHttpRequest q), Ac_callback k (hp_resp hp), Ac_close k, Ac_delete k]"
    by (simp add: closed_session_def)
  obtain h where "on_recv ek (HttpHandle_new smem R service) (makeHttpRequest q) = Inr h" "hh_actions h = [Io_send (HttpResponse_dump HTTP_HEADER p)]"
    using server_answers [OF assms(5,6), of func ek smem service] assms(7) by (auto simp: q_def p_def)
  then show ?thesis using c1 c2 c3 a hp(2-4) by blast
qed

lemma async_exchange_witness:
  "\<exists>c1 c2 c3 h resp. async_send sample_memory 0 (Some sample_query) (AsyncClient_new True) = Inr (0, Some (sample_query\<lparr>req_u := sample_parsed\<rparr>), c1) \<and>
    doTask sample_link 0 (c1\<lparr>ac_queue := []\<rparr>) = Inr c2 \<and>
    on_recv (\<lambda>k. k) (HttpHandle_new sample_memory sample_table False) (makeHttpRequest (sample_query\<lparr>req_u := sample_parsed\<rparr>)) = Inr h \<and>
    hh_actions h = [Io_send (HttpResponse_dump HTTP_HEADER sample_answer)] \<and>
    async_onread (HttpResponse_dump HTTP_HEADER sample_answer) 0 c2 = Inr c3 \<and>
    ac_actions c3 = [Ac_send 0 (makeHttpRequest (sample_query\<lparr>req_u := sample_parsed\<rparr>)), Ac_callback 0 resp, Ac_close 0, Ac_delete 0] \<and>
    resp_status_code resp = 200 \<and> resp_body resp = ''xyz''"
proof -
  let ?q = "sample_query\<lparr>req_u := sample_parsed\<rparr>" and ?c = "AsyncClient_new True"
  have q: "client_request ?q = client_request sample_query"
    by (simp add: client_request_def client_headers_def sample_query_def sample_parsed_def sample_u_def)
  then have "sendable ?q"
    using sample_query_sendable by (simp add: sendable_def) (simp add: sample_query_def sample_parsed_def sample_u_def)
  moreover have "getHandleFunc (req_method sample_query) (CHR ''/'' # u_path sample_parsed) sample_table = Some (\<lambda>q p. (q, sample_answer))"
    using sample_table_routes(2) by (simp add: sample_parsed_def)
  moreover have "\<not> isTimeout ?q 0 (cn_now sample_link)" "req_url sample_query \<noteq> []"
    by (simp_all add: isTimeout_def sample_link_def sample_query_def)
  moreover have "ac_queue ?c = []" "ac_next ?c = 0" "ac_actions ?c = []" "\<forall>j i. open_io ?c j i \<longrightarrow> ti_fd i \<noteq> cn_fd sample_link"
    by (simp_all add: AsyncClient_new_def open_io_def)
  moreover have "cn_io sample_link" "cn_connects sample_link" "cn_peer sample_link" "cn_sends sample_link"
    by (simp_all add: sample_link_def)
  ultimately show ?thesis
    using async_exchange [OF async_runs.here, of True sample_query sample_parsed sample_table "\<lambda>q p. (q, sample_answer)" sample_link 0
        sample_memory sample_memory "\<lambda>k. k" False] sample_parses sample_table_routes(1) sample_answer_plain
    by simp blast
qed

end
