(* ===== verification/PostEvents.thy ===== *)
theory PostEvents
  imports Prelude
begin

section \<open>Posting functions to a loop from other threads: src/EventLoop.cpp\<close>

text \<open>
  \<open>postEvent\<close> pushes a function to a queue under one mutex, then \<open>loop_post_event\<close> writes a byte to the
  pipe of the loop and stores the event in the loop's array under another. The loop reads the bytes
  without a lock, and then \<open>pipe_read_cb\<close> runs, under the loop's mutex, one event of the array for each
  byte; the callback of an event, \<open>onCustomEvent\<close>, pops one function from the queue and calls it. Any
  number of threads post. An action is what one of them, or the loop, does without letting the others in
  between; a run is a list of actions, and an action that is not possible then (a lock that is held, for
  example) is no run. Functions do not post themselves (\<open>IoEvents\<close> shows that this blocks the loop).
\<close>

subsection \<open>Actions\<close>

text \<open>\<open>Read_pipe\<close> reads all bytes that are there, which are fewer than the size of the read buffer.\<close>

datatype post_action = Push nat | Post bool | Wakeup | Read_pipe | Lock | Run_one | Unlock

datatype post_fault = Empty_queue | Unset_slot | Slots_full

datatype loop_phase = Polling | Has_read nat | Running nat nat

record post_state =
  pe_queue :: "nat list"
  pe_posting :: nat
  pe_pipe :: nat
  pe_num :: nat
  pe_set :: nat
  pe_phase :: loop_phase
  pe_ran :: "nat list"
  pe_pushed :: "nat list"
  pe_unsent :: nat

definition max_custom_events_num :: nat where
  "max_custom_events_num = 1024"

text \<open>The events that are set are the first \<open>pe_set\<close> of the array; all have the callback \<open>onCustomEvent\<close>.\<close>

definition postEvent_push :: "nat \<Rightarrow> post_state \<Rightarrow> post_state" where
  "postEvent_push fn s = s\<lparr>pe_queue := pe_queue s @ [fn], pe_pushed := pe_pushed s @ [fn], pe_posting := pe_posting s + 1\<rparr>"

definition post_section :: "bool \<Rightarrow> post_state \<Rightarrow> post_fault + post_state" where
  "post_section written s =
     (let s = s\<lparr>pe_posting := pe_posting s - 1\<rparr>
      in if \<not> written then Inr (s\<lparr>pe_unsent := pe_unsent s + 1\<rparr>)
         else if pe_num s \<ge> max_custom_events_num then Inl Slots_full
         else Inr (s\<lparr>pe_pipe := pe_pipe s + 1, pe_num := pe_num s + 1, pe_set := max (pe_set s) (pe_num s + 1)\<rparr>))"

definition onCustomEvent :: "post_state \<Rightarrow> post_fault + post_state" where
  "onCustomEvent s =
     (case pe_queue s of
        [] \<Rightarrow> Inl Empty_queue
      | fn # q \<Rightarrow> Inr (s\<lparr>pe_queue := q, pe_ran := pe_ran s @ [fn]\<rparr>))"

definition run_slot :: "nat \<Rightarrow> nat \<Rightarrow> post_state \<Rightarrow> post_fault + post_state" where
  "run_slot i n s =
     (if i \<ge> pe_set s then Inl Unset_slot
      else case onCustomEvent s of Inl e \<Rightarrow> Inl e | Inr s \<Rightarrow> Inr (s\<lparr>pe_phase := Running (i + 1) n\<rparr>))"

fun perform :: "post_action \<Rightarrow> post_state \<Rightarrow> (post_fault + post_state) option" where
  "perform (Push fn) s = Some (Inr (postEvent_push fn s))"
| "perform (Post written) s =
     (case pe_phase s of
        Running i n \<Rightarrow> None
      | _ \<Rightarrow> if pe_posting s = 0 then None else Some (post_section written s))"
| "perform Wakeup s = Some (Inr (s\<lparr>pe_pipe := pe_pipe s + 1\<rparr>))"
| "perform Read_pipe s =
     (if pe_phase s = Polling \<and> pe_pipe s > 0 then Some (Inr (s\<lparr>pe_phase := Has_read (pe_pipe s), pe_pipe := 0\<rparr>)) else None)"
| "perform Lock s = (case pe_phase s of Has_read n \<Rightarrow> Some (Inr (s\<lparr>pe_phase := Running 0 n\<rparr>)) | _ \<Rightarrow> None)"
| "perform Run_one s = (case pe_phase s of Running i n \<Rightarrow> if i < n then Some (run_slot i n s) else None | _ \<Rightarrow> None)"
| "perform Unlock s =
     (case pe_phase s of Running i n \<Rightarrow> if i < n then None else Some (Inr (s\<lparr>pe_num := 0, pe_phase := Polling\<rparr>)) | _ \<Rightarrow> None)"

fun performs :: "post_action list \<Rightarrow> post_state \<Rightarrow> (post_fault + post_state) option" where
  "performs [] s = Some (Inr s)"
| "performs (a # as) s =
     (case perform a s of None \<Rightarrow> None | Some (Inl e) \<Rightarrow> Some (Inl e) | Some (Inr s) \<Rightarrow> performs as s)"

definition EventLoop_init :: post_state where
  "EventLoop_init = \<lparr>pe_queue = [], pe_posting = 0, pe_pipe = 0, pe_num = 0, pe_set = 0, pe_phase = Polling, pe_ran = [], pe_pushed = [],
     pe_unsent = 0\<rparr>"

subsection \<open>The order of the functions\<close>

text \<open>The bytes that were read and whose event has not run.\<close>

fun to_run :: "loop_phase \<Rightarrow> nat" where
  "to_run Polling = 0"
| "to_run (Has_read n) = n"
| "to_run (Running i n) = n - i"

text \<open>A run with \<open>k\<close> wakeups, each of which writes a byte without an event.\<close>

definition wakeups :: "post_action list \<Rightarrow> nat" where
  "wakeups as = length (filter (\<lambda>a. a = Wakeup) as)"

lemma wakeups_simps [simp]: "wakeups [] = 0" "wakeups (a # as) = (if a = Wakeup then 1 else 0) + wakeups as"
  by (simp_all add: wakeups_def)

lemma no_wakeups [simp]: "wakeups as = 0 \<longleftrightarrow> Wakeup \<notin> set as"
  by (induction as) auto

definition post_inv :: "nat \<Rightarrow> post_state \<Rightarrow> bool" where
  "post_inv k s \<longleftrightarrow> pe_ran s @ pe_queue s = pe_pushed s \<and>
     length (pe_queue s) + k = pe_posting s + pe_unsent s + pe_pipe s + to_run (pe_phase s)"

lemma post_inv_init: "post_inv 0 EventLoop_init"
  by (simp add: post_inv_def EventLoop_init_def)

lemma post_section_inv: "post_inv k s \<Longrightarrow> pe_posting s \<noteq> 0 \<Longrightarrow> post_section w s = Inr s' \<Longrightarrow> post_inv k s'"
  by (auto simp: post_inv_def post_section_def Let_def split: if_splits)

lemma post_section_fault: "post_section w s = Inl e \<Longrightarrow> e = Slots_full"
  by (auto simp: post_section_def Let_def split: if_splits)

lemma run_slot_inv:
  assumes "post_inv k s" "pe_phase s = Running i n" "i < n"
  shows "k = 0 \<Longrightarrow> run_slot i n s \<noteq> Inl Empty_queue" "run_slot i n s = Inr s' \<Longrightarrow> post_inv k s'"
  using assms by (auto simp: post_inv_def run_slot_def onCustomEvent_def split: if_splits list.splits)

lemma perform_inv:
  assumes "post_inv k s" "perform a s = Some r"
  shows "(k = 0 \<longrightarrow> r \<noteq> Inl Empty_queue) \<and> (\<forall>s'. r = Inr s' \<longrightarrow> post_inv (k + (if a = Wakeup then 1 else 0)) s')"
proof (cases a)
  case (Push fn)
  then show ?thesis using assms by (auto simp: post_inv_def postEvent_push_def)
next
  case (Post w)
  then have "pe_posting s \<noteq> 0" "r = post_section w s" using assms(2) by (auto split: loop_phase.splits if_splits)
  then show ?thesis using post_section_inv [OF assms(1)] post_section_fault Post by fastforce
next
  case Run_one
  then obtain i n where "pe_phase s = Running i n" "i < n" "r = run_slot i n s"
    using assms(2) by (auto split: loop_phase.splits if_splits)
  then show ?thesis using run_slot_inv [OF assms(1)] Run_one by auto
qed (use assms in \<open>auto simp: post_inv_def split: loop_phase.splits if_splits\<close>)

lemma performs_inv: "post_inv k s \<Longrightarrow> performs as s = Some r \<Longrightarrow>
  (k + wakeups as = 0 \<longrightarrow> r \<noteq> Inl Empty_queue) \<and> (\<forall>s'. r = Inr s' \<longrightarrow> post_inv (k + wakeups as) s')"
proof (induction as arbitrary: s k)
  case (Cons a as)
  obtain r1 where r1: "perform a s = Some r1" using Cons.prems(2) by (auto split: option.splits)
  note P = perform_inv [OF Cons.prems(1) r1]
  show ?case
  proof (cases r1)
    case (Inl e)
    then show ?thesis using P r1 Cons.prems(2) by auto
  next
    case (Inr s1)
    then have "post_inv (k + (if a = Wakeup then 1 else 0)) s1" "performs as s1 = Some r" using P r1 Cons.prems(2) by simp_all
    from Cons.IH [OF this] show ?thesis by (simp add: ac_simps)
  qed
qed auto

subsection \<open>The array of events\<close>

text \<open>No other thread posts between the reading of the bytes and the lock.\<close>

fun undisturbed :: "post_action list \<Rightarrow> bool" where
  "undisturbed [] = True"
| "undisturbed [a] = True"
| "undisturbed (a # b # as) \<longleftrightarrow> (a = Read_pipe \<longrightarrow> b = Lock) \<and> undisturbed (b # as)"

text \<open>Then the events of the array are those of the bytes.\<close>

definition slots_inv :: "post_state \<Rightarrow> bool" where
  "slots_inv s \<longleftrightarrow> pe_num s \<le> pe_set s \<and>
     (case pe_phase s of
        Polling \<Rightarrow> pe_num s = pe_pipe s
      | Has_read n \<Rightarrow> pe_num s = n \<and> pe_pipe s = 0
      | Running i n \<Rightarrow> pe_num s = n \<and> pe_pipe s = 0 \<and> i \<le> n)"

lemma perform_slots:
  assumes "slots_inv s" "perform a s = Some r" "(\<exists>n. pe_phase s = Has_read n) \<Longrightarrow> a = Lock" "a \<noteq> Wakeup"
  shows "r \<noteq> Inl Unset_slot \<and> (\<forall>s'. r = Inr s' \<longrightarrow> slots_inv s' \<and> ((\<exists>n. pe_phase s' = Has_read n) \<longrightarrow> a = Read_pipe))"
  using assms
  by (cases a; cases "pe_phase s"; cases "pe_queue s")
    (auto simp: slots_inv_def postEvent_push_def post_section_def run_slot_def onCustomEvent_def Let_def split: if_splits)

lemma performs_slots:
  "slots_inv s \<Longrightarrow> Wakeup \<notin> set as \<Longrightarrow> undisturbed as \<Longrightarrow> ((\<exists>n. pe_phase s = Has_read n) \<Longrightarrow> as = [] \<or> hd as = Lock) \<Longrightarrow> performs as s = Some r \<Longrightarrow>
   r \<noteq> Inl Unset_slot"
proof (induction as arbitrary: s r)
  case (Cons a as)
  obtain r1 where r1: "perform a s = Some r1" using Cons.prems(5) by (auto split: option.splits)
  have H: "(\<exists>n. pe_phase s = Has_read n) \<Longrightarrow> a = Lock" "a \<noteq> Wakeup" using Cons.prems(2,4) by auto
  note P = perform_slots [OF Cons.prems(1) r1 H]
  show ?case
  proof (cases r1)
    case (Inl e)
    then show ?thesis using P r1 Cons.prems(5) by auto
  next
    case (Inr s1)
    have U: "undisturbed as" "a = Read_pipe \<Longrightarrow> as = [] \<or> hd as = Lock" using Cons.prems(3) by (cases as; auto)+
    show ?thesis
      by (rule Cons.IH [of s1]) (use P Inr U r1 Cons.prems(2,5) in auto)
  qed
qed auto

text \<open>The array does not overflow before so many events have been posted.\<close>

definition posts :: "post_action list \<Rightarrow> nat" where
  "posts as = length (filter (\<lambda>a. a = Post True) as)"

lemma perform_num: "perform a s = Some (Inr s') \<Longrightarrow> pe_num s' \<le> pe_num s + (if a = Post True then 1 else 0)"
  by (cases a)
    (auto simp: postEvent_push_def post_section_def run_slot_def onCustomEvent_def Let_def split: if_splits loop_phase.splits list.splits)

lemma perform_full: "perform a s = Some (Inl Slots_full) \<Longrightarrow> a = Post True \<and> pe_num s \<ge> max_custom_events_num"
  by (cases a)
    (auto simp: postEvent_push_def post_section_def run_slot_def onCustomEvent_def Let_def split: if_splits loop_phase.splits list.splits)

lemma performs_full: "performs as s = Some (Inl Slots_full) \<Longrightarrow> pe_num s + posts as > max_custom_events_num"
proof (induction as arbitrary: s)
  case (Cons a as)
  obtain r where r: "perform a s = Some r" using Cons.prems by (auto split: option.splits)
  show ?case
  proof (cases r)
    case (Inl e)
    then show ?thesis using r Cons.prems perform_full [of a s] by (simp add: posts_def)
  next
    case (Inr s1)
    then have "pe_num s1 + posts as > max_custom_events_num" using r Cons by simp
    then show ?thesis using perform_num [of a s s1] r Inr by (auto simp: posts_def split: if_splits)
  qed
qed simp

text \<open>C16: Posted functions run in the order in which they were posted, each at most once, whatever the
  threads and the loop do and however their steps are interleaved: the functions that have run are the
  first ones pushed, the others are in the queue. Once no thread is posting, every byte was written and
  read and the loop polls, all of them have run. As long as nobody calls \<open>wakeup\<close>, which writes a byte
  without an event, an event never finds the queue empty.\<close>
theorem posted_in_order:
  assumes "performs actions EventLoop_init = Some r"
  shows "(r = Inl Empty_queue \<longrightarrow> Wakeup \<in> set actions) \<and>
    (\<forall>s. r = Inr s \<longrightarrow> pe_ran s @ pe_queue s = pe_pushed s \<and>
      (pe_posting s = 0 \<and> pe_unsent s = 0 \<and> pe_pipe s = 0 \<and> pe_phase s = Polling \<longrightarrow> pe_ran s = pe_pushed s))"
  using performs_inv [OF post_inv_init assms] by (auto simp: post_inv_def)

definition sample_posts :: "post_action list" where
  "sample_posts = [Push 7, Push 8, Post True, Read_pipe, Post True, Lock, Run_one, Push 9, Unlock, Read_pipe, Lock, Run_one, Unlock]"

lemma sample_posts_run: "performs sample_posts EventLoop_init = Some (Inr \<lparr>pe_queue = [9], pe_posting = 1, pe_pipe = 0, pe_num = 0, pe_set = 2,
    pe_phase = Polling, pe_ran = [7, 8], pe_pushed = [7, 8, 9], pe_unsent = 0\<rparr>)"
  by (simp add: sample_posts_def EventLoop_init_def postEvent_push_def post_section_def run_slot_def onCustomEvent_def max_custom_events_num_def)

lemma posted_in_order_witness:
  "(Inr \<lparr>pe_queue = [9], pe_posting = 1, pe_pipe = 0, pe_num = 0, pe_set = 2, pe_phase = Polling, pe_ran = [7, 8],
      pe_pushed = [7, 8, 9], pe_unsent = 0\<rparr> :: post_fault + post_state) \<noteq> Inl Empty_queue"
  using posted_in_order [OF sample_posts_run] by (simp add: sample_posts_def)

text \<open>C17: Nothing goes wrong as long as the loop is not disturbed: when nobody calls \<open>wakeup\<close>, no event is
  posted between the reading of the bytes and the lock, and at most as many events are posted as the
  array holds, every run is free of faults, and once all threads are done and the pipe is empty, exactly
  the posted functions have run, in their order.\<close>
theorem undisturbed_posts_run:
  assumes "performs actions EventLoop_init = Some r" "Wakeup \<notin> set actions" "undisturbed actions"
    and "posts actions \<le> max_custom_events_num"
  shows "\<exists>s. r = Inr s \<and> (pe_posting s = 0 \<and> pe_unsent s = 0 \<and> pe_pipe s = 0 \<and> pe_phase s = Polling \<longrightarrow> pe_ran s = pe_pushed s)"
proof -
  have "slots_inv EventLoop_init" by (simp add: slots_inv_def EventLoop_init_def)
  from performs_slots [OF this assms(2,3) _ assms(1)] have "r \<noteq> Inl Unset_slot" by (simp add: EventLoop_init_def)
  moreover have "r \<noteq> Inl Slots_full" using performs_full [of actions EventLoop_init] assms(1,4) by (auto simp: EventLoop_init_def)
  moreover note performs_inv [OF post_inv_init assms(1)]
  ultimately show ?thesis using assms(2) by (cases r) (auto simp: post_inv_def intro: post_fault.exhaust)
qed

definition calm_posts :: "post_action list" where
  "calm_posts = [Push 7, Push 8, Post True, Post True, Read_pipe, Lock, Run_one, Run_one, Unlock]"

lemma undisturbed_posts_run_witness: "\<exists>s. performs calm_posts EventLoop_init = Some (Inr s) \<and> pe_ran s = [7, 8]"
proof -
  let ?s = "\<lparr>pe_queue = [], pe_posting = 0, pe_pipe = 0, pe_num = 0, pe_set = 2, pe_phase = Polling, pe_ran = [7, 8], pe_pushed = [7, 8],
    pe_unsent = 0\<rparr>"
  have r: "performs calm_posts EventLoop_init = Some (Inr ?s)"
    by (simp add: calm_posts_def EventLoop_init_def postEvent_push_def post_section_def run_slot_def onCustomEvent_def max_custom_events_num_def)
  have "\<exists>s. (Inr ?s :: post_fault + post_state) = Inr s \<and>
      (pe_posting s = 0 \<and> pe_unsent s = 0 \<and> pe_pipe s = 0 \<and> pe_phase s = Polling \<longrightarrow> pe_ran s = pe_pushed s)"
    by (rule undisturbed_posts_run [OF r]) (simp_all add: calm_posts_def posts_def max_custom_events_num_def)
  then show ?thesis using r by simp
qed

subsection \<open>Bytes without an event\<close>

text \<open>The bytes that were written since the pipe was last read and whose event is not in the array when the
  loop polls again: those of the events posted before the lock was taken, which \<open>pipe_read_cb\<close> empties
  out of the array, and those of \<open>wakeup\<close>.\<close>

fun extra_bytes :: "bool \<Rightarrow> nat \<Rightarrow> post_action list \<Rightarrow> nat" where
  "extra_bytes gap k [] = k"
| "extra_bytes gap k (Read_pipe # as) = extra_bytes True 0 as"
| "extra_bytes gap k (Lock # as) = extra_bytes False k as"
| "extra_bytes gap k (Wakeup # as) = extra_bytes gap (k + 1) as"
| "extra_bytes gap k (Post written # as) = extra_bytes gap (if gap \<and> written then k + 1 else k) as"
| "extra_bytes gap k (a # as) = extra_bytes gap k as"

definition extra_inv :: "bool \<Rightarrow> nat \<Rightarrow> post_state \<Rightarrow> bool" where
  "extra_inv gap k s \<longleftrightarrow> gap = (\<exists>n. pe_phase s = Has_read n) \<and> pe_pipe s = (if pe_phase s = Polling then pe_num s else 0) + k"

lemma perform_extra:
  "extra_inv gap k s \<Longrightarrow> perform a s = Some (Inr s') \<Longrightarrow>
   \<exists>gap' k'. extra_inv gap' k' s' \<and> (\<forall>as. extra_bytes gap k (a # as) = extra_bytes gap' k' as)"
  by (cases a; cases "pe_phase s")
    (auto simp: extra_inv_def postEvent_push_def post_section_def run_slot_def onCustomEvent_def Let_def split: if_splits list.splits)

lemma performs_extra:
  "extra_inv gap k s \<Longrightarrow> performs as s = Some (Inr s') \<Longrightarrow> \<exists>gap'. extra_inv gap' (extra_bytes gap k as) s'"
proof (induction as arbitrary: s gap k)
  case (Cons a as)
  obtain s1 where s1: "perform a s = Some (Inr s1)" "performs as s1 = Some (Inr s')"
    using Cons.prems(2) by (auto split: option.splits sum.splits)
  from perform_extra [OF Cons.prems(1) s1(1)] Cons.IH [OF _ s1(2)] show ?case by metis
qed auto

lemma performs_append: "performs as s = Some (Inr s') \<Longrightarrow> performs (as @ bs) s = performs bs s'"
  by (induction as arbitrary: s) (auto split: option.splits sum.splits)

text \<open>Running the events of \<open>k\<close> bytes.\<close>

lemma run_ones:
  "pe_phase s = Running i n \<Longrightarrow> i + k \<le> n \<Longrightarrow> performs (replicate k Run_one @ as) s =
    (if k \<le> pe_set s - i \<and> k \<le> length (pe_queue s)
     then performs as (s\<lparr>pe_queue := drop k (pe_queue s), pe_phase := Running (i + k) n, pe_ran := pe_ran s @ take k (pe_queue s)\<rparr>)
     else Some (Inl (if pe_set s - i \<le> length (pe_queue s) then Unset_slot else Empty_queue)))"
proof (induction k arbitrary: s i)
  case 0
  then have "s = s\<lparr>pe_queue := pe_queue s, pe_phase := Running i n, pe_ran := pe_ran s\<rparr>" by simp
  then show ?case by simp
next
  case (Suc k)
  show ?case
  proof (cases "i < pe_set s")
    case False
    then show ?thesis using Suc.prems by (simp add: run_slot_def)
  next
    case True
    show ?thesis
    proof (cases "pe_queue s")
      case Nil
      then show ?thesis using Suc.prems True by (simp add: run_slot_def onCustomEvent_def)
    next
      case (Cons fn q)
      let ?s = "s\<lparr>pe_queue := q, pe_ran := pe_ran s @ [fn], pe_phase := Running (i + 1) n\<rparr>"
      have "perform Run_one s = Some (Inr ?s)" using Suc.prems True Cons by (simp add: run_slot_def onCustomEvent_def)
      then have "performs (replicate (Suc k) Run_one @ as) s = performs (replicate k Run_one @ as) ?s" by simp
      also note Suc.IH [of ?s "i + 1"]
      finally show ?thesis using Suc.prems True Cons by (auto simp: le_diff_conv2)
    qed
  qed
qed


text \<open>Four posts are enough for a crash: one while the loop has read the byte of another.\<close>

definition crashing_posts :: "post_action list" where
  "crashing_posts = [Push 5, Post True, Read_pipe, Push 6, Post True, Lock, Run_one, Unlock, Push 7, Post True, Push 8, Post True]"

lemma crashing_posts_run: "performs crashing_posts EventLoop_init = Some (Inr \<lparr>pe_queue = [6, 7, 8], pe_posting = 0, pe_pipe = 3, pe_num = 2,
    pe_set = 2, pe_phase = Polling, pe_ran = [5], pe_pushed = [5, 6, 7, 8], pe_unsent = 0\<rparr>)"
  by (simp add: crashing_posts_def EventLoop_init_def postEvent_push_def post_section_def run_slot_def onCustomEvent_def max_custom_events_num_def)


end
