(* ===== verification/Channels.thy ===== *)
theory Channels
  imports Prelude
begin

section \<open>Read buffers and channels: src/Buffer.cpp, src/Channel.cpp\<close>

text \<open>
  A channel gives what its io has read to \<open>onread\<close> in a buffer that is reused for every read. The buffer
  is null before the first read; its structure, \<open>buffer_st\<close> in the code, is \<open>read_buffer_st\<close> here, and its memory is a list of bytes as long as \<open>cap\<close>, or null when its
  allocation failed. Allocations fail or give new memory, whose contents are arguments.
\<close>

subsection \<open>Buffers\<close>

record read_buffer_st =
  bs_data :: "byte list option"
  write_index :: nat
  read_index :: nat
  cap :: nat

datatype buffer_fault = Null_pointer | Overrun

definition DEFAULT_CAPCITY :: nat where
  "DEFAULT_CAPCITY = 1024 * 32"

text \<open>Sizes are 64 bits wide; \<open>size\<close> and \<open>writeable_size\<close> return an \<open>int\<close>.\<close>

definition to_int :: "64 word \<Rightarrow> int" where
  "to_int n = sint (ucast n :: 32 word)"

definition writeable_size :: "read_buffer_st \<Rightarrow> int" where
  "writeable_size b = to_int (of_nat (cap b) - of_nat (write_index b))"

definition Buffer_size :: "read_buffer_st option \<Rightarrow> buffer_fault + int" where
  "Buffer_size m_buf =
     (case m_buf of None \<Rightarrow> Inl Null_pointer | Some b \<Rightarrow> Inr (to_int (of_nat (write_index b) - of_nat (read_index b))))"

definition Buffer_data :: "read_buffer_st option \<Rightarrow> buffer_fault + byte list option" where
  "Buffer_data m_buf = (case m_buf of None \<Rightarrow> Inl Null_pointer | Some b \<Rightarrow> Inr (bs_data b))"

record allocs =
  al_struct :: bool
  al_data :: "byte list option"
  al_grown :: "nat \<Rightarrow> byte list option"

text \<open>The buffer of the first call, and whether its memory was there.\<close>

definition first_buffer :: "allocs \<Rightarrow> read_buffer_st option \<times> bool" where
  "first_buffer A =
     (if \<not> al_struct A then (None, False)
      else case al_data A of
             None \<Rightarrow> (Some \<lparr>bs_data = None, write_index = 0, read_index = 0, cap = 0\<rparr>, False)
           | Some d \<Rightarrow> (Some \<lparr>bs_data = Some d, write_index = 0, read_index = 0, cap = DEFAULT_CAPCITY\<rparr>, True))"

text \<open>The memory is cleared up to \<open>cap\<close> and then takes the bytes.\<close>

definition write_data :: "byte list \<Rightarrow> read_buffer_st \<Rightarrow> buffer_fault + read_buffer_st" where
  "write_data buf b =
     (case bs_data b of
        None \<Rightarrow> Inl Null_pointer
      | Some d \<Rightarrow>
          if length d < cap b \<or> length d < length buf then Inl Overrun
          else let cleared = replicate (cap b) 0 @ drop (cap b) d
               in Inr (b\<lparr>bs_data := Some (buf @ drop (length buf) cleared), write_index := length buf\<rparr>))"

text \<open>The comparison converts the \<open>int\<close> back to 64 bits.\<close>

definition setdata_into :: "(nat \<Rightarrow> byte list option) \<Rightarrow> byte list \<Rightarrow> read_buffer_st \<Rightarrow> buffer_fault + int \<times> read_buffer_st option" where
  "setdata_into grown buf b =
     (if (of_int (writeable_size b) :: 64 word) \<le> of_nat (length buf) then
        (case grown (cap b + length buf) of
           None \<Rightarrow> Inr (-1, Some b)
         | Some d \<Rightarrow>
             (case write_data buf (b\<lparr>bs_data := Some d, cap := cap b + length buf\<rparr>) of
                Inl e \<Rightarrow> Inl e | Inr b \<Rightarrow> Inr (0, Some b)))
      else case write_data buf b of Inl e \<Rightarrow> Inl e | Inr b \<Rightarrow> Inr (0, Some b))"

definition setdata :: "allocs \<Rightarrow> byte list option \<Rightarrow> read_buffer_st option \<Rightarrow> buffer_fault + int \<times> read_buffer_st option" where
  "setdata A buf m_buf =
     (case buf of
        None \<Rightarrow> Inr (-1, m_buf)
      | Some buf \<Rightarrow>
          (case m_buf of
             Some b \<Rightarrow> setdata_into (al_grown A) buf b
           | None \<Rightarrow>
               (case first_buffer A of
                  (Some b, True) \<Rightarrow> setdata_into (al_grown A) buf b
                | (m, _) \<Rightarrow> Inr (-1, m))))"

subsection \<open>What a buffer holds\<close>

text \<open>
  A buffer that is used for reads of at most \<open>M\<close> bytes. Its capacity stays below three such reads or the
  initial 32 KB, so the \<open>int\<close>s do not wrap.
\<close>

definition buffer_ok :: "nat \<Rightarrow> read_buffer_st option \<Rightarrow> bool" where
  "buffer_ok M m_buf \<longleftrightarrow> 3 * M < 2 ^ 31 \<and>
     (case m_buf of
        None \<Rightarrow> True
      | Some b \<Rightarrow> (\<exists>d. bs_data b = Some d \<and> length d = cap b) \<and> read_index b = 0 \<and> write_index b \<le> M \<and> write_index b \<le> cap b \<and>
          DEFAULT_CAPCITY \<le> cap b \<and> cap b \<le> max DEFAULT_CAPCITY (3 * M))"

definition allocs_ok :: "allocs \<Rightarrow> bool" where
  "allocs_ok A \<longleftrightarrow> al_struct A \<and> (\<exists>d. al_data A = Some d \<and> length d = DEFAULT_CAPCITY) \<and>
     (\<forall>n. \<exists>d. al_grown A n = Some d \<and> length d = n)"

lemma to_int_small: "n < 2 ^ 31 \<Longrightarrow> to_int (of_nat n) = int n"
proof -
  assume n: "n < 2 ^ 31"
  have "ucast (of_nat n :: 64 word) = (of_nat n :: 32 word)"
    using n by (intro word_unat_eq_iff [THEN iffD2]) (simp add: unsigned_of_nat unsigned_ucast_eq take_bit_nat_eq_self)
  moreover have "sint (of_nat n :: 32 word) = int n"
    using n by (simp add: sint_uint unsigned_of_nat take_bit_nat_eq_self signed_take_bit_int_eq_self)
  ultimately show ?thesis by (simp add: to_int_def)
qed

lemma writeable_size_ok: "write_index b \<le> cap b \<Longrightarrow> cap b < 2 ^ 31 \<Longrightarrow> writeable_size b = int (cap b - write_index b)"
  using to_int_small [of "cap b - write_index b"] by (simp add: writeable_size_def of_nat_diff)

lemma grows_iff:
  assumes "write_index b \<le> cap b" "cap b < 2 ^ 31" "length buf < 2 ^ 31"
  shows "(of_int (writeable_size b) :: 64 word) \<le> of_nat (length buf) \<longleftrightarrow> cap b \<le> write_index b + length buf"
proof -
  have "(of_int (writeable_size b) :: 64 word) = of_nat (cap b - write_index b)"
    unfolding writeable_size_ok [OF assms(1,2)] by (rule of_int_of_nat_eq)
  then show ?thesis
    using assms unfolding word_le_nat_alt by (auto simp: unsigned_of_nat take_bit_nat_eq_self simp del: of_nat_diff)
qed

lemma write_data_ok:
  assumes "bs_data b = Some d" "length d = cap b" "length buf \<le> cap b"
  shows "write_data buf b = Inr (b\<lparr>bs_data := Some (buf @ replicate (cap b - length buf) 0), write_index := length buf\<rparr>)"
  using assms by (simp add: write_data_def)

text \<open>After a call the buffer holds the bytes, followed by at least one zero.\<close>

definition holds :: "nat \<Rightarrow> byte list \<Rightarrow> read_buffer_st \<Rightarrow> bool" where
  "holds M buf b \<longleftrightarrow> buffer_ok M (Some b) \<and> write_index b = length buf \<and> length buf < cap b \<and>
     bs_data b = Some (buf @ replicate (cap b - length buf) 0)"

lemma setdata_into_holds:
  assumes "buffer_ok M (Some b)" "length buf \<le> M" "\<forall>n. \<exists>d. grown n = Some d \<and> length d = n"
  shows "\<exists>b'. setdata_into grown buf b = Inr (0, Some b') \<and> holds M buf b'"
proof (cases "cap b \<le> write_index b + length buf")
  case True
  obtain g where g: "grown (cap b + length buf) = Some g" "length g = cap b + length buf" using assms(3) by metis
  let ?b = "b\<lparr>bs_data := Some g, cap := cap b + length buf\<rparr>"
  have "write_data buf ?b = Inr (?b\<lparr>bs_data := Some (buf @ replicate (cap ?b - length buf) 0), write_index := length buf\<rparr>)"
    by (rule write_data_ok) (use g in simp_all)
  then show ?thesis
    using assms True g by (auto simp: setdata_into_def grows_iff buffer_ok_def holds_def DEFAULT_CAPCITY_def)
next
  case False
  then show ?thesis
    using assms write_data_ok [of b] by (auto simp: setdata_into_def grows_iff buffer_ok_def holds_def DEFAULT_CAPCITY_def)
qed

lemma setdata_holds:
  assumes "buffer_ok M m_buf" "length buf \<le> M" "allocs_ok A"
  shows "\<exists>b. setdata A (Some buf) m_buf = Inr (0, Some b) \<and> holds M buf b"
proof (cases m_buf)
  case (Some b)
  then show ?thesis using setdata_into_holds [of M b buf] assms by (auto simp: setdata_def allocs_ok_def)
next
  case None
  obtain d where A: "al_struct A" "al_data A = Some d" "length d = DEFAULT_CAPCITY" "\<forall>n. \<exists>d. al_grown A n = Some d \<and> length d = n"
    using assms(3) by (auto simp: allocs_ok_def)
  let ?b = "\<lparr>bs_data = Some d, write_index = 0, read_index = 0, cap = DEFAULT_CAPCITY\<rparr>"
  have "buffer_ok M (Some ?b)" using assms(1) A(3) by (simp add: buffer_ok_def)
  from setdata_into_holds [OF this assms(2) A(4)] show ?thesis
    using None A by (simp add: setdata_def first_buffer_def)
qed

text \<open>C32: A read buffer gives back what was put into it. Every call with at most \<open>M\<close> bytes, when memory can
  be had, leaves the buffer with exactly these bytes, of the size that \<open>size\<close> returns, followed by at least
  one zero, so that they are also a C string when they have none; and the capacity never exceeds three
  calls or 32 KB, however often the buffer is used.\<close>
theorem setdata_correct:
  assumes "buffer_ok M m_buf" "length buf \<le> M" "allocs_ok A"
  shows "\<exists>b d. setdata A (Some buf) m_buf = Inr (0, Some b) \<and> Buffer_size (Some b) = Inr (int (length buf)) \<and>
    Buffer_data (Some b) = Inr (Some (buf @ 0 # d)) \<and> set d \<subseteq> {0} \<and> cap b \<le> max DEFAULT_CAPCITY (3 * M) \<and> buffer_ok M (Some b)"
proof -
  obtain b where b: "setdata A (Some buf) m_buf = Inr (0, Some b)" "holds M buf b" using setdata_holds [OF assms] by blast
  have "cap b - length buf = Suc (cap b - length buf - 1)" using b(2) unfolding holds_def by linarith
  then have "bs_data b = Some (buf @ 0 # replicate (cap b - length buf - 1) 0)"
    using b(2) unfolding holds_def by (metis replicate_Suc)
  moreover have "Buffer_size (Some b) = Inr (int (length buf))"
    using b(2) to_int_small [of "length buf"] by (simp add: Buffer_size_def holds_def buffer_ok_def)
  ultimately show ?thesis
    using b by (intro exI [of _ b] exI [of _ "replicate (cap b - length buf - 1) 0"])
      (auto simp: Buffer_data_def holds_def buffer_ok_def)
qed

definition sample_allocs :: allocs where
  "sample_allocs = \<lparr>al_struct = True, al_data = Some (replicate DEFAULT_CAPCITY 7), al_grown = (\<lambda>n. Some (replicate n 9))\<rparr>"

lemma setdata_correct_witness:
  "\<exists>b d. setdata sample_allocs (Some [104, 105]) None = Inr (0, Some b) \<and> Buffer_size (Some b) = Inr (int (length [104, 105 :: byte])) \<and>
    Buffer_data (Some b) = Inr (Some ([104, 105] @ 0 # d)) \<and> set d \<subseteq> {0} \<and> cap b \<le> max DEFAULT_CAPCITY (3 * 2) \<and> buffer_ok 2 (Some b)"
  by (rule setdata_correct) (simp_all add: buffer_ok_def allocs_ok_def sample_allocs_def)

subsection \<open>Channels\<close>

text \<open>\<open>ch_readBuffer\<close> is null before \<open>init\<close>; the fields for the functions say whether they are set.\<close>

record Channel =
  ch_readBuffer :: "read_buffer_st option option"
  ch_onconnect :: bool
  ch_onread :: bool
  ch_onclose :: bool

definition Channel_new :: Channel where
  "Channel_new = \<lparr>ch_readBuffer = None, ch_onconnect = False, ch_onread = False, ch_onclose = False\<rparr>"

definition Channel_init :: "Channel \<Rightarrow> Channel" where
  "Channel_init c = c\<lparr>ch_readBuffer := Some None\<rparr>"

text \<open>The channel after a read and the buffer that \<open>onread\<close> is called with; the result of \<open>setdata\<close> is ignored.\<close>

definition channel_on_read :: "allocs \<Rightarrow> Channel option \<Rightarrow> byte list option \<Rightarrow> buffer_fault + Channel option \<times> read_buffer_st option option" where
  "channel_on_read A ctx buf =
     (case ctx of
        None \<Rightarrow> Inr (None, None)
      | Some c \<Rightarrow>
          if \<not> ch_onread c then Inr (Some c, None)
          else case ch_readBuffer c of
                 None \<Rightarrow> Inl Null_pointer
               | Some m \<Rightarrow>
                   (case setdata A buf m of
                      Inl e \<Rightarrow> Inl e
                    | Inr r \<Rightarrow> Inr (Some (c\<lparr>ch_readBuffer := Some (snd r)\<rparr>), Some (snd r))))"

definition channel_on_close :: "Channel option \<Rightarrow> bool" where
  "channel_on_close ctx = (case ctx of None \<Rightarrow> False | Some c \<Rightarrow> ch_onclose c)"

definition channel_on_connect :: "Channel option \<Rightarrow> bool" where
  "channel_on_connect ctx = (case ctx of None \<Rightarrow> False | Some c \<Rightarrow> ch_onconnect c)"

text \<open>What \<open>onread\<close> finds in the buffer: \<open>size\<close> bytes at \<open>data\<close>; and for a sequence of reads.\<close>

definition buffer_bytes :: "read_buffer_st option \<Rightarrow> byte list option" where
  "buffer_bytes m = (case (Buffer_size m, Buffer_data m) of (Inr n, Inr (Some d)) \<Rightarrow> Some (take (nat n) d) | _ \<Rightarrow> None)"

fun channel_reads :: "(allocs \<times> byte list) list \<Rightarrow> Channel \<Rightarrow> buffer_fault + byte list option list" where
  "channel_reads [] c = Inr []"
| "channel_reads ((A, buf) # rs) c =
     (case channel_on_read A (Some c) (Some buf) of
        Inr (Some c, Some m) \<Rightarrow> (case channel_reads rs c of Inl e \<Rightarrow> Inl e | Inr ds \<Rightarrow> Inr (buffer_bytes m # ds))
      | Inr _ \<Rightarrow> Inr []
      | Inl e \<Rightarrow> Inl e)"

lemma holds_delivered: "holds M buf b \<Longrightarrow> buffer_bytes (Some b) = Some buf"
  using to_int_small [of "length buf"] by (simp add: buffer_bytes_def Buffer_size_def Buffer_data_def holds_def buffer_ok_def)

text \<open>A channel delivers what its io read. For any sequence of reads of at most \<open>M\<close> bytes, \<open>onread\<close> is
  called once for each and finds exactly the bytes of that read, nothing of an earlier one, as long as
  memory can be had.\<close>
theorem channel_delivers_reads:
  assumes "ch_readBuffer c = Some m" "ch_onread c" "buffer_ok M m" "\<forall>(A, buf)\<in>set rs. allocs_ok A \<and> length buf \<le> M"
  shows "channel_reads rs c = Inr (map (\<lambda>(A, buf). Some buf) rs)"
  using assms
proof (induction rs arbitrary: c m)
  case (Cons r rs)
  obtain A buf where r: "r = (A, buf)" by (cases r)
  obtain b where b: "setdata A (Some buf) m = Inr (0, Some b)" "holds M buf b"
    using setdata_holds [of M m buf A] Cons.prems by (auto simp: r)
  let ?c = "c\<lparr>ch_readBuffer := Some (Some b)\<rparr>"
  have "channel_reads rs ?c = Inr (map (\<lambda>(A, buf). Some buf) rs)"
    by (rule Cons.IH [of _ "Some b"]) (use Cons.prems b(2) in \<open>auto simp: holds_def\<close>)
  then show ?case using Cons.prems b holds_delivered [OF b(2)] by (simp add: r channel_on_read_def)
qed simp

definition sample_channel_reads :: Channel where
  "sample_channel_reads = (Channel_init Channel_new)\<lparr>ch_onread := True\<rparr>"

lemma channel_delivers_reads_witness:
  "channel_reads [(sample_allocs, [1, 2, 3]), (sample_allocs, [4]), (sample_allocs, [])] sample_channel_reads =
    Inr (map (\<lambda>(A, buf). Some buf) [(sample_allocs, [1, 2, 3]), (sample_allocs, [4]), (sample_allocs, [])])"
  by (rule channel_delivers_reads [of _ None 3])
    (simp_all add: sample_channel_reads_def Channel_init_def buffer_ok_def allocs_ok_def sample_allocs_def)

text \<open>A read that finds no memory repeats the one before. When the buffer would have to grow and cannot,
  \<open>setdata\<close> returns \<open>-1\<close>, which \<open>on_read\<close> ignores: \<open>onread\<close> is called with the bytes of the last read again, and
  the bytes of this one are lost.\<close>
theorem failed_growth_repeats:
  assumes "ch_readBuffer c = Some (Some b)" "ch_onread c" "holds M old b" "length buf < 2 ^ 31"
    and "cap b \<le> length old + length buf" "al_grown A (cap b + length buf) = None"
  shows "channel_on_read A (Some c) (Some buf) = Inr (Some c, Some (Some b)) \<and> buffer_bytes (Some b) = Some old"
proof -
  have "write_index b = length old" "write_index b \<le> cap b" "cap b < 2 ^ 31"
    using assms(3) by (auto simp: holds_def buffer_ok_def DEFAULT_CAPCITY_def)
  then have "setdata A (Some buf) (Some b) = Inr (-1, Some b)"
    using assms(4-6) by (simp add: setdata_def setdata_into_def grows_iff)
  moreover have "c\<lparr>ch_readBuffer := Some (Some b)\<rparr> = c" using assms(1) by (cases c) simp
  ultimately show ?thesis using assms(1,2) holds_delivered [OF assms(3)] by (simp add: channel_on_read_def)
qed

definition sample_full :: read_buffer_st where
  "sample_full = \<lparr>bs_data = Some ([5, 6] @ replicate (DEFAULT_CAPCITY - 2) 0), write_index = 2, read_index = 0, cap = DEFAULT_CAPCITY\<rparr>"

lemma failed_growth_repeats_witness:
  "channel_on_read (sample_allocs\<lparr>al_grown := \<lambda>_. None\<rparr>) (Some (sample_channel_reads\<lparr>ch_readBuffer := Some (Some sample_full)\<rparr>))
      (Some (replicate DEFAULT_CAPCITY 1)) =
    Inr (Some (sample_channel_reads\<lparr>ch_readBuffer := Some (Some sample_full)\<rparr>), Some (Some sample_full)) \<and>
   buffer_bytes (Some sample_full) = Some [5, 6]"
  by (rule failed_growth_repeats [of _ _ 2])
    (simp_all add: sample_full_def sample_channel_reads_def holds_def buffer_ok_def DEFAULT_CAPCITY_def)

end
