(* ===== verification/LoopThread.thy ===== *)
theory LoopThread
  imports Prelude
begin

section \<open>Starting the thread of a loop: EventLoopThread::init of src/EventLoopThread.cpp\<close>

text \<open>
  \<open>init\<close> creates the thread and waits under a mutex until the thread says that it has started; the mutex,
  the condition and the flag are on the heap. They are owned by a \<open>ThreadArg\<close>, whose destructor deletes
  them, and there are two of these, a local one of \<open>init\<close> and its copy for the thread. The two threads as
  a machine of single steps; a wait may end at any time when the mutex is free, so also without a signal,
  and the loop of the thread may end at any time.
\<close>

subsection \<open>Steps\<close>

datatype main_pc = M_create | M_lock | M_check | M_wait | M_unlock | M_return | M_done | M_fail | M_failed
datatype thread_pc = T_none | T_lock | T_signal | T_unlock | T_run | T_return | T_done
datatype lock_owner = By_main | By_thread

datatype thread_fault = Use_after_free | Double_free

record thread_start =
  st_mutex :: "lock_owner option"
  st_started :: bool
  st_freed :: bool
  st_main :: main_pc
  st_thread :: thread_pc

text \<open>The destructor of \<open>ThreadArg\<close>, and the deletions in \<open>init\<close>.\<close>

definition release :: "thread_start \<Rightarrow> thread_fault + thread_start" where
  "release s = (if st_freed s then Inl Double_free else Inr (s\<lparr>st_freed := True\<rparr>))"

text \<open>A step that uses the mutex, the condition or the flag.\<close>

definition using_sync :: "thread_start \<Rightarrow> (thread_fault + thread_start) option \<Rightarrow> (thread_fault + thread_start) option" where
  "using_sync s r = (if st_freed s then Some (Inl Use_after_free) else r)"

definition step_main :: "bool \<Rightarrow> thread_start \<Rightarrow> (thread_fault + thread_start) option" where
  "step_main created s =
     (case st_main s of
        M_create \<Rightarrow>
          if created then Some (Inr (s\<lparr>st_main := M_lock, st_thread := T_lock\<rparr>))
          else Some (case release s of Inl e \<Rightarrow> Inl e | Inr s \<Rightarrow> Inr (s\<lparr>st_main := M_fail\<rparr>))
      | M_lock \<Rightarrow> using_sync s (if st_mutex s = None then Some (Inr (s\<lparr>st_mutex := Some By_main, st_main := M_check\<rparr>)) else None)
      | M_check \<Rightarrow>
          using_sync s (Some (Inr (if st_started s then s\<lparr>st_main := M_unlock\<rparr> else s\<lparr>st_mutex := None, st_main := M_wait\<rparr>)))
      | M_wait \<Rightarrow> using_sync s (if st_mutex s = None then Some (Inr (s\<lparr>st_mutex := Some By_main, st_main := M_check\<rparr>)) else None)
      | M_unlock \<Rightarrow> using_sync s (Some (Inr (s\<lparr>st_mutex := None, st_main := M_return\<rparr>)))
      | M_return \<Rightarrow> Some (case release s of Inl e \<Rightarrow> Inl e | Inr s \<Rightarrow> Inr (s\<lparr>st_main := M_done\<rparr>))
      | M_fail \<Rightarrow> Some (case release s of Inl e \<Rightarrow> Inl e | Inr s \<Rightarrow> Inr (s\<lparr>st_main := M_failed\<rparr>))
      | _ \<Rightarrow> None)"

definition step_thread :: "thread_start \<Rightarrow> (thread_fault + thread_start) option" where
  "step_thread s =
     (case st_thread s of
        T_none \<Rightarrow> None
      | T_lock \<Rightarrow> using_sync s (if st_mutex s = None then Some (Inr (s\<lparr>st_mutex := Some By_thread, st_thread := T_signal\<rparr>)) else None)
      | T_signal \<Rightarrow> using_sync s (Some (Inr (s\<lparr>st_started := True, st_thread := T_unlock\<rparr>)))
      | T_unlock \<Rightarrow> using_sync s (Some (Inr (s\<lparr>st_mutex := None, st_thread := T_run\<rparr>)))
      | T_run \<Rightarrow> Some (Inr (s\<lparr>st_thread := T_return\<rparr>))
      | T_return \<Rightarrow> Some (case release s of Inl e \<Rightarrow> Inl e | Inr s \<Rightarrow> Inr (s\<lparr>st_thread := T_done\<rparr>))
      | T_done \<Rightarrow> None)"

definition start :: thread_start where
  "start = \<lparr>st_mutex = None, st_started = False, st_freed = False, st_main = M_create, st_thread = T_none\<rparr>"

inductive start_reach :: "thread_start \<Rightarrow> bool" where
  init: "start_reach start"
| main: "start_reach s \<Longrightarrow> step_main created s = Some (Inr s') \<Longrightarrow> start_reach s'"
| thread: "start_reach s \<Longrightarrow> step_thread s = Some (Inr s') \<Longrightarrow> start_reach s'"

subsection \<open>The reachable states\<close>

definition start_inv :: "thread_start \<Rightarrow> bool" where
  "start_inv s \<longleftrightarrow>
     (st_started s \<longleftrightarrow> st_thread s \<in> {T_unlock, T_run, T_return, T_done}) \<and>
     (st_mutex s = Some By_thread \<longleftrightarrow> st_thread s \<in> {T_signal, T_unlock}) \<and>
     (st_mutex s = Some By_main \<longleftrightarrow> st_main s \<in> {M_check, M_unlock}) \<and>
     (st_thread s = T_none \<longleftrightarrow> st_main s \<in> {M_create, M_fail}) \<and>
     (st_main s \<in> {M_unlock, M_return, M_done} \<longrightarrow> st_thread s \<in> {T_run, T_return, T_done}) \<and>
     (st_main s = M_create \<longrightarrow> \<not> st_freed s) \<and> (st_main s = M_fail \<longrightarrow> st_freed s) \<and> st_main s \<noteq> M_failed \<and>
     (st_thread s \<noteq> T_none \<longrightarrow> (st_freed s \<longleftrightarrow> st_main s = M_done \<or> st_thread s = T_done)) \<and>
     \<not> (st_main s = M_done \<and> st_thread s = T_done)"

definition keeps_inv :: "(thread_fault + thread_start) option \<Rightarrow> bool" where
  "keeps_inv r = (case r of Some (Inr s) \<Rightarrow> start_inv s | _ \<Rightarrow> True)"

lemma keeps_inv_simps [simp]:
  "keeps_inv None" "keeps_inv (Some (Inl e))" "keeps_inv (Some (Inr s)) \<longleftrightarrow> start_inv s"
  "keeps_inv (if c then r else r') \<longleftrightarrow> (if c then keeps_inv r else keeps_inv r')"
  by (simp_all add: keeps_inv_def)

lemma start_inv_main: "start_inv s \<Longrightarrow> keeps_inv (step_main c s)"
  by (cases "st_main s"; cases "st_thread s")
    (simp_all add: step_main_def using_sync_def release_def, auto simp: start_inv_def)

lemma start_inv_thread: "start_inv s \<Longrightarrow> keeps_inv (step_thread s)"
  by (cases "st_thread s"; cases "st_main s")
    (simp_all add: step_thread_def using_sync_def release_def, auto simp: start_inv_def)

lemma start_inv_reach: "start_reach s \<Longrightarrow> start_inv s"
proof (induction rule: start_reach.induct)
  case init
  then show ?case by (simp add: start_inv_def start_def)
next
  case (main s created s')
  then show ?case using start_inv_main [of s created] by simp
next
  case (thread s s')
  then show ?case using start_inv_thread [of s] by simp
qed

text \<open>Starting the thread of a loop. No state that \<open>init\<close> and the thread reach is stuck, and when \<open>init\<close> has
  returned 0 the thread runs its loop. But the local \<open>ThreadArg\<close> and its copy both delete the mutex, the
  condition and the flag: once \<open>init\<close> has returned, the end of the loop deletes them again; if the loop
  ends before, the next step of \<open>init\<close> uses or deletes what is gone; and when the thread cannot be
  created, \<open>init\<close> deletes them twice itself. So no thread of a loop ever ends well.\<close>
theorem loop_thread_deletes_twice:
  assumes "start_reach s"
  shows "(step_main True s \<noteq> None \<or> step_thread s \<noteq> None) \<and>
    (st_main s = M_done \<longrightarrow> st_thread s \<in> {T_run, T_return}) \<and>
    (st_main s = M_done \<and> st_thread s = T_return \<longrightarrow> step_thread s = Some (Inl Double_free)) \<and>
    (st_thread s = T_done \<longrightarrow> step_main True s \<in> {Some (Inl Use_after_free), Some (Inl Double_free)}) \<and>
    (st_main s = M_fail \<longrightarrow> step_main True s = Some (Inl Double_free))"
proof -
  have s: "start_inv s" using assms by (rule start_inv_reach)
  have "step_main True s \<noteq> None \<or> step_thread s \<noteq> None"
    using s by (cases "st_main s"; cases "st_thread s"; cases "st_mutex s")
      (auto simp: start_inv_def step_main_def step_thread_def using_sync_def intro: lock_owner.exhaust)
  moreover have "st_main s = M_done \<longrightarrow> st_thread s \<in> {T_run, T_return}"
    using s by (auto simp: start_inv_def)
  moreover have "st_main s = M_done \<and> st_thread s = T_return \<longrightarrow> step_thread s = Some (Inl Double_free)"
    using s by (auto simp: start_inv_def step_thread_def release_def)
  moreover have "st_thread s = T_done \<longrightarrow> step_main True s \<in> {Some (Inl Use_after_free), Some (Inl Double_free)}"
    using s by (cases "st_main s") (auto simp: start_inv_def step_main_def release_def using_sync_def)
  moreover have "st_main s = M_fail \<longrightarrow> step_main True s = Some (Inl Double_free)"
    using s by (auto simp: start_inv_def step_main_def release_def)
  ultimately show ?thesis by blast
qed

text \<open>The thread starts while \<open>init\<close> waits; \<open>init\<close> returns; the loop ends.\<close>

definition sample_ended :: thread_start where
  "sample_ended = \<lparr>st_mutex = None, st_started = True, st_freed = True, st_main = M_done, st_thread = T_return\<rparr>"

lemma sample_ended_reach: "start_reach sample_ended"
proof -
  let ?s = "\<lambda>m b f p t. \<lparr>st_mutex = m, st_started = b, st_freed = f, st_main = p, st_thread = t\<rparr>"
  note d = step_main_def step_thread_def using_sync_def release_def
  have "start_reach (?s None False False M_lock T_lock)"
    by (rule start_reach.main [OF start_reach.init, of True]) (simp add: d start_def)
  then have "start_reach (?s (Some By_main) False False M_check T_lock)" by (rule start_reach.main) (simp add: d)
  then have "start_reach (?s None False False M_wait T_lock)" by (rule start_reach.main) (simp add: d)
  then have "start_reach (?s (Some By_thread) False False M_wait T_signal)" by (rule start_reach.thread) (simp add: d)
  then have "start_reach (?s (Some By_thread) True False M_wait T_unlock)" by (rule start_reach.thread) (simp add: d)
  then have "start_reach (?s None True False M_wait T_run)" by (rule start_reach.thread) (simp add: d)
  then have "start_reach (?s (Some By_main) True False M_check T_run)" by (rule start_reach.main) (simp add: d)
  then have "start_reach (?s (Some By_main) True False M_unlock T_run)" by (rule start_reach.main) (simp add: d)
  then have "start_reach (?s None True False M_return T_run)" by (rule start_reach.main) (simp add: d)
  then have "start_reach (?s None True True M_done T_run)" by (rule start_reach.main) (simp add: d)
  then have "start_reach (?s None True True M_done T_return)" by (rule start_reach.thread) (simp add: d)
  then show ?thesis by (simp add: sample_ended_def)
qed

lemma loop_thread_deletes_twice_witness: "step_thread sample_ended = Some (Inl Double_free)"
  using loop_thread_deletes_twice [OF sample_ended_reach] by (simp add: sample_ended_def)

end
