(* ===== verification/Connect.thy ===== *)
theory Connect
  imports Prelude
begin

section \<open>Connecting with a timeout: src/conn_socket.c\<close>

text \<open>
  \<open>connectWithTimeout\<close> over the results of its system calls, with the list of the calls it makes. A
  descriptor that does not fit an \<open>fd_set\<close> makes \<open>FD_SET\<close> write outside of it, which is a fault.
\<close>

subsection \<open>The calls and their results\<close>

datatype conn_call = Call_socket | Call_inet_pton string | Call_connect int nat | Call_select int int | Call_getsockopt int | Call_close int

text \<open>\<open>ck_errno\<close> says whether \<open>errno\<close> is \<open>EINPROGRESS\<close> after \<open>connect\<close>; \<open>ck_error\<close> is what \<open>getsockopt\<close> stores in \<open>err\<close>.\<close>

record conn_results =
  ck_socket :: int
  ck_pton :: int
  ck_connect :: int
  ck_in_progress :: bool
  ck_select :: int
  ck_getsockopt :: int
  ck_error :: int

definition fd_set_size :: int where
  "fd_set_size = 1024"

definition htons :: "int \<Rightarrow> nat" where
  "htons port = nat (port mod 65536)"

subsection \<open>connectWithTimeout\<close>

text \<open>The part after \<open>connect\<close>: waiting for the socket and asking for its error. Each part has the calls so far.\<close>

definition conn_check :: "conn_results \<Rightarrow> conn_call list \<Rightarrow> int \<times> conn_call list" where
  "conn_check r calls =
     (let sock = ck_socket r; calls = calls @ [Call_getsockopt sock]
      in if ck_getsockopt r < 0 \<or> ck_error r \<noteq> 0 then (-1, calls @ [Call_close sock]) else (sock, calls))"

definition conn_wait :: "int \<Rightarrow> conn_results \<Rightarrow> conn_call list \<Rightarrow> (int \<times> conn_call list) option" where
  "conn_wait timeout r calls =
     (let sock = ck_socket r
      in if sock \<ge> fd_set_size then None
         else let calls = calls @ [Call_select sock timeout]
              in if ck_select r < 0 then Some (-1, calls @ [Call_close sock])
                 else if ck_select r = 0 then Some (-1, calls @ [Call_close sock])
                 else Some (conn_check r calls))"

definition connectWithTimeout :: "string \<Rightarrow> int \<Rightarrow> int \<Rightarrow> conn_results \<Rightarrow> (int \<times> conn_call list) option" where
  "connectWithTimeout host port timeout r =
     (let sock = ck_socket r; calls = [Call_socket]
      in if sock < 0 then Some (-1, calls)
         else let calls = calls @ [Call_inet_pton host]
              in if ck_pton r \<le> 0 then Some (-1, calls @ [Call_close sock])
                 else let calls = calls @ [Call_connect sock (htons port)]
                      in if ck_connect r < 0 \<and> \<not> ck_in_progress r then Some (-1, calls @ [Call_close sock])
                         else conn_wait timeout r calls)"

text \<open>When the socket is connected.\<close>

definition conn_ok :: "conn_results \<Rightarrow> bool" where
  "conn_ok r \<longleftrightarrow> 0 \<le> ck_socket r \<and> 0 < ck_pton r \<and> (0 \<le> ck_connect r \<or> ck_in_progress r) \<and> 0 < ck_select r \<and>
     0 \<le> ck_getsockopt r \<and> ck_error r = 0"

definition closed_sockets :: "conn_call list \<Rightarrow> int list" where
  "closed_sockets calls = concat (map (\<lambda>c. case c of Call_close fd \<Rightarrow> [fd] | _ \<Rightarrow> []) calls)"

text \<open>C36: Connecting returns an open socket or none. As long as descriptors fit an \<open>fd_set\<close>, whatever the calls
  return, \<open>connectWithTimeout\<close> either gives the socket, exactly when every call succeeded and the socket has
  no error, and has not closed it; or it gives \<open>-1\<close> and has closed the socket, if there was one, exactly
  once, as its last call.\<close>
theorem connect_keeps_or_closes:
  assumes "ck_socket r < fd_set_size"
  shows "\<exists>ret calls. connectWithTimeout host port timeout r = Some (ret, calls) \<and>
    (if conn_ok r then ret = ck_socket r \<and> closed_sockets calls = []
     else ret = -1 \<and> closed_sockets calls = (if ck_socket r < 0 then [] else [ck_socket r]) \<and> (ck_socket r \<ge> 0 \<longrightarrow> last calls = Call_close (ck_socket r)))"
  using assms by (auto simp: connectWithTimeout_def conn_wait_def conn_check_def conn_ok_def closed_sockets_def Let_def)

definition sample_refused :: conn_results where
  "sample_refused = \<lparr>ck_socket = 7, ck_pton = 1, ck_connect = -1, ck_in_progress = True, ck_select = 1, ck_getsockopt = 0, ck_error = 111\<rparr>"

lemma connect_keeps_or_closes_witness:
  "\<exists>ret calls. connectWithTimeout ''10.0.0.1'' 80 5 sample_refused = Some (ret, calls) \<and> ret = -1 \<and> closed_sockets calls = [7] \<and> last calls = Call_close 7"
  using connect_keeps_or_closes [of sample_refused "''10.0.0.1''" 80 5] by (simp add: sample_refused_def fd_set_size_def conn_ok_def)

end
