(* ===== verification/Spec2Isabelle.thy ===== *)
theory Spec2Isabelle
  imports MinHeap LoopRounds ServerStart HttpUrl HttpBody ServerStore HttpFetch HttpCut WsWire WsHandshake WsChannel
    HttpAsync PostEvents Channels LoopThread Connect
begin

text \<open>
  Verification of libconn, an event loop with TCP and TLS connections, an HTTP server and client, and
  WebSockets. Paths are below src/.

  \<^bold>\<open>The program and its parts.\<close> An event loop (src/event_loop.c) waits in a dispatcher
  (src/dispatcher: select, poll, epoll) for the descriptors of its io objects (src/io.c), keeps timers in
  an array heap (include/heap.h), and runs pending events (src/event.c). Connections are spread over the
  loops of a thread pool (src/thread_pool.c). On top of that, in C++, an HTTP server (src/http/HttpServer.cpp)
  gives each connection a handle (HttpHandle.cpp), which feeds the bytes it reads to a parser object
  (HttpParser.cpp) around the C parser http_parser.c, looks a function up in a router (HttpRouter.cpp), and
  writes the dumped response (HttpMessage.cpp); after an upgrade it feeds the frame parser
  (WebSocketParser.cpp) instead and answers with frames (ws_util.c, WebSocketChannel.cpp). The HTTP client
  (HttpClient.cpp) sends a request and parses the response with the same parser object, blocking on a
  socket (conn_socket.c) or, asynchronously, as a task that it posts to a loop in a thread of its own
  (EventLoop.cpp, EventLoopThread.cpp) and that runs on a channel with its read buffer (Channel.cpp,
  Buffer.cpp). The WebSocket client (WebSocketClient.cpp) is a state machine over such a channel.

  \<^bold>\<open>Theories.\<close> \<open>Prelude\<close> has the types, list lemmas and lemma collections that are shared. The rest forms
  three towers.

  \<^item> \<open>MinHeap\<close> models include/heap.h; a locale says what a priority queue promises, and the array heap is
    shown to keep it. \<open>World\<close> has the structures of include/event.h as records in stores indexed by
    pointers, the trace of everything asked of the outside, and the monad of operations on it; what the
    kernel and the callbacks answer is the parameter \<open>env\<close>. On it are built \<open>Events\<close> (src/event.c),
    \<open>Dispatcher\<close> (src/dispatcher), \<open>Timers\<close> (the timers of event_loop.c and io.c), \<open>IoCore\<close> (registration,
    closing and writing), \<open>IoEvents\<close> (reading, accepting, connecting, timeouts), \<open>ThreadPool\<close> and
    \<open>EventLoop\<close> (the loop, creation of clients and servers). \<open>ServerStart\<close> is the start of an HTTP server
    on them. \<open>IoClose\<close>, \<open>IoWrite\<close> and \<open>LoopRounds\<close> hold the lemmas about closing, about the byte stream, and
    about rounds of the loop.
  \<^item> \<open>HttpTypes\<close>, \<open>HttpUrl\<close>, \<open>HttpExec\<close>, \<open>HttpHeaders\<close> and \<open>HttpMachine\<close> model src/http/http_parser.c: one
    function per case of the switch, named \<open>do_\<close> and the state, and the loops around it. \<open>HttpSafe\<close> proves
    the invariant of the machine and \<open>HttpCount\<close> that it counts no byte of the headers twice; \<open>HttpRun\<close>,
    \<open>HttpFields\<close> and \<open>HttpBody\<close> show what it makes of methods, header names and numbers; \<open>HttpStages\<close> and
    \<open>HttpClients\<close> carry it through a message for any client that keeps the contract of the locale
    \<open>event_client\<close>; \<open>HttpRoundtrip\<close> puts messages together, \<open>HttpUpgrade\<close> and \<open>HttpChunked\<close> those with an
    upgrade and those in chunks.
  \<^item> \<open>StdMap\<close> models std::map by sorted association lists, under the contract of a locale. \<open>HttpObjects\<close> has
    the C++ classes HttpRequest, HttpResponse, HttpRouter and HttpParser; \<open>HttpCollect\<close> what the parser
    object collects, and \<open>HttpCut\<close> what it collects from a request that is cut within the name of a header;
    \<open>HttpRoutes\<close> the contract of the router. \<open>Base64\<close>, \<open>WsFrame\<close> and \<open>WsParser\<close> model base64.c, the frames of
    ws_util.c and WebSocketParser.cpp, and \<open>WsWire\<close> compares the parser with the frames of the protocol.
    \<open>HttpServe\<close> is the handle of a connection and the read callback of the server; \<open>HttpServing\<close> and
    \<open>WsServing\<close> are what it answers; \<open>ServerConns\<close> is the server with all its connections, their events in
    any order, and \<open>ServerStore\<close> has their handles in memory, behind the pointers of the ios. \<open>HttpPieces\<close>
    carries the parser through a response that comes in pieces, \<open>HttpFetch\<close> is the blocking client and its
    exchange with the server, \<open>HttpAsync\<close> the asynchronous one with its tasks and channels, and \<open>WsClient\<close> and \<open>WsHandshake\<close>
    the WebSocket client, its handshake with the server and the messages they exchange; \<open>WsChannel\<close> is the
    sending side of WebSocketChannel.cpp with its mutex and buffer. On the side stand \<open>PostEvents\<close>
    (EventLoop.cpp: posting functions from other threads, with all interleavings of the posting threads and
    the loop), \<open>LoopThread\<close> (EventLoopThread.cpp), \<open>Channels\<close> (Buffer.cpp, Channel.cpp) and \<open>Connect\<close>
    (conn_socket.c).

  \<^bold>\<open>Correspondence.\<close> A definition has the name of the C or C++ function it models; where the name is
  taken, or one function is split, the text before the definition says so. Structures are records with the
  fields of the code, integers that can wrap are words or are reduced to their width, text and bytes are
  lists. A null or freed pointer, an index out of range, a mutex locked twice, a failed assertion and a
  buffer that is too small are values (\<open>fault\<close>, \<open>Abort\<close>, \<open>ws_fault\<close>, \<open>handle_fault\<close>, \<open>server_fault\<close>, \<open>client_fault\<close>,
  \<open>async_fault\<close>, \<open>post_fault\<close>, \<open>buffer_fault\<close>, \<open>thread_fault\<close>), so that the absence of such a failure is part of what is proved.

  \<^bold>\<open>What the lemmas show.\<close> For the heap: order and content after every operation. For timers, events
  and the loop: which timers and events a round calls, in which order, and what is left. For io objects:
  the byte stream of a connection, what a read hands over, what closing releases. For the dispatchers:
  which descriptors are waited for. For the C parser: it is safe and returns on any bytes; method names,
  header names and lengths are recognised exactly; printed requests and responses, also in chunks, are
  parsed back, for any client. For the C++ side: which function is called with which request, what is
  sent, how frames are answered, that each connection of a server has its own handle, which lives as long as
  the connection, and that no bytes on an HTTP connection end the server, that the frame parser delivers
  exactly the frames of the protocol, and that client and server understand each other, from the handshake to the last message. For
  the clients: they keep to their protocol, call back once and release everything once, whatever happens
  in whatever order. For posted functions: their order under every interleaving. Where the code does not
  do what it means to, the behaviour of the code is what is stated.

  \<^bold>\<open>Loops.\<close> A loop that may run for ever is a partial function whose value \<open>None\<close> stands for not returning:
  \<open>process_timer\<close>, \<open>pending_loop\<close>, \<open>event_loop_run\<close>, \<open>reexecute\<close>, \<open>exec_bytes\<close> and \<open>feed_loop\<close>. That they return is
  proved where they do (\<open>process_timer_runs_due\<close>, \<open>process_pending_event_correct\<close>, \<open>http_parser_execute_safe\<close>,
  \<open>ws_feed_returns\<close>); \<open>event_loop_run\<close> is meant to run for ever. The loops of the blocking client are
  recursions over the results of its system calls, and end as \<open>Exec_waits\<close> when there are no more of them.

  \<^bold>\<open>Assumptions.\<close> Outside of \<open>PostEvents\<close> and \<open>LoopThread\<close>, each operation runs on one thread at a time; a mutex
  is taken and released but never contended. The callbacks of the clients' users do not call back into the
  client. Except in \<open>Channels\<close>, \<open>malloc\<close> does not fail in the C++ classes. Bytes and characters are 8 bits wide, \<open>int\<close> has 32
  and \<open>size_t\<close> 64 bits. The parser is compiled with HTTP_PARSER_STRICT. Functions of a router return and
  do not touch the connection. Theorems about OpenSSL's SHA-1 and Base64 take their documented behaviour
  as hypotheses.

  \<^bold>\<open>Not modelled.\<close> event_loop_destory and the destructors other than the handle's (they only release
  memory); printing and logging (log.c) and the printing of certificates; OpenSSL below ssl/, which is not
  the project's own code; the example programs below bin/. Messages cut into arbitrary pieces are covered
  by the safety of the parser; the round trips follow a response whose body comes in any pieces
  (\<open>HttpFetch\<close>), a request that is cut between the head and the body (\<open>HttpServing\<close>) and one that is cut
  within the name of a header (\<open>HttpCut\<close>).
\<close>

end
